(* ===== verification/Prelude.thy ===== *)
theory Prelude
  imports Main "HOL-Library.Word"
begin

text \<open>
  Shared ground of the development: the names of the machine types the C++ sources use
  (\<open>uint8_t\<close> is \<^typ>\<open>8 word\<close> and so on, a \<open>std::vector<uint8_t>\<close> is a list of bytes, a
  \<open>std::string\<close> is a \<^typ>\<open>string\<close> whose characters are its bytes), the collections of
  simplification rules the component theories use, and the generic facts on byte order,
  words and lists.  A \<open>size_t\<close> that counts elements held in memory is a \<^typ>\<open>nat\<close>.
\<close>

unbundle bit_operations_syntax

type_synonym u8 = "8 word"
type_synonym u16 = "16 word"
type_synonym u32 = "32 word"
type_synonym u64 = "64 word"
type_synonym bytes = "u8 list"

named_theorems be_simps \<open>big-endian byte order\<close>
named_theorems spec_defs \<open>definitions a component unfolds together\<close>

subsection \<open>Strings and bytes\<close>

definition bytes_of_string :: "string \<Rightarrow> bytes" where
  "bytes_of_string s = map (\<lambda>c. word_of_nat (of_char c)) s"

definition string_of_bytes :: "bytes \<Rightarrow> string" where
  "string_of_bytes bs = map (\<lambda>b. char_of (unat b)) bs"

lemma of_char_lt_256: "(of_char c :: nat) < 256"
  using mod_less_divisor[of 256 "of_char c :: nat"] by simp

lemma string_of_bytes_of_string [simp]: "string_of_bytes (bytes_of_string s) = s"
proof -
  have "char_of (unat (word_of_nat (of_char c) :: u8)) = c" for c
  proof -
    have "unat (word_of_nat (of_char c) :: u8) = (of_char c :: nat)"
      using of_char_lt_256[of c] by (simp add: unat_of_nat)
    then show ?thesis by simp
  qed
  then show ?thesis
    by (simp add: bytes_of_string_def string_of_bytes_def comp_def)
qed

lemma bytes_of_string_of_bytes [simp]: "bytes_of_string (string_of_bytes bs) = bs"
proof -
  have "word_of_nat (of_char (char_of (unat b))) = b" for b :: u8
  proof -
    have "unat b < 256" using unsigned_less[of b] by simp
    then have "(of_char (char_of (unat b)) :: nat) = unat b"
      by simp
    then show ?thesis by simp
  qed
  then show ?thesis
    by (simp add: bytes_of_string_def string_of_bytes_def comp_def)
qed

lemma length_bytes_of_string [simp]: "length (bytes_of_string s) = length s"
  by (simp add: bytes_of_string_def)

lemma length_string_of_bytes [simp]: "length (string_of_bytes bs) = length bs"
  by (simp add: string_of_bytes_def)

lemma bytes_of_string_inj [simp]: "bytes_of_string s = bytes_of_string t \<longleftrightarrow> s = t"
  by (metis string_of_bytes_of_string)

subsection \<open>Big-endian integers\<close>

text \<open>
  \<open>be_bytes n v\<close> are the low \<open>n\<close> bytes of \<open>v\<close>, most significant first; \<open>be_value bs\<close> folds
  bytes back with \<open>(v << 8) | b\<close>, as the loops of the sources do.
\<close>

primrec be_bytes :: "nat \<Rightarrow> 'a::len word \<Rightarrow> bytes" where
  "be_bytes 0 v = []"
| "be_bytes (Suc n) v = ucast (drop_bit (8 * n) v) # be_bytes n v"

definition be_value :: "bytes \<Rightarrow> 'a::len word" where
  "be_value bs = foldl (\<lambda>v b. push_bit 8 v OR ucast b) 0 bs"

lemma length_be_bytes [simp, be_simps]: "length (be_bytes n v) = n"
  by (induction n) simp_all

lemma be_bytes_numeral:
  "be_bytes (numeral k) v = ucast (drop_bit (8 * pred_numeral k) v) # be_bytes (pred_numeral k) v"
  by (simp add: numeral_eq_Suc)

lemma be_bytes_snoc: "be_bytes (Suc n) v = be_bytes n (drop_bit 8 v) @ [ucast v]"
proof (induction n)
  case 0
  then show ?case by simp
next
  case (Suc n)
  have "be_bytes (Suc (Suc n)) v = ucast (drop_bit (8 * Suc n) v) # be_bytes (Suc n) v"
    by simp
  also have "\<dots> = ucast (drop_bit (8 * n) (drop_bit 8 v)) # be_bytes n (drop_bit 8 v) @ [ucast v]"
    using Suc by (simp add: drop_bit_drop_bit add.commute)
  finally show ?case by simp
qed

lemma be_value_Nil [simp]: "be_value [] = 0"
  by (simp add: be_value_def)

lemma be_value_snoc: "be_value (bs @ [b]) = push_bit 8 (be_value bs) OR ucast b"
  by (simp add: be_value_def)

lemma be_value_be_bytes:
  "(be_value (be_bytes n v) :: 'a::len word) = take_bit (8 * n) v"
proof (induction n arbitrary: v)
  case 0
  then show ?case by simp
next
  case (Suc n)
  have "be_value (be_bytes (Suc n) v)
      = (push_bit 8 (take_bit (8 * n) (drop_bit 8 v)) OR ucast (ucast v :: u8) :: 'a word)"
    by (simp only: be_bytes_snoc be_value_snoc Suc)
  also have "\<dots> = take_bit (8 * Suc n) v"
    by (rule bit_word_eqI) (auto simp: bit_simps)
  finally show ?case .
qed

lemma be_value_be_bytes_id [simp, be_simps]:
  "LENGTH('a) \<le> 8 * n \<Longrightarrow> (be_value (be_bytes n v) :: 'a::len word) = v"
  by (simp add: be_value_be_bytes take_bit_word_eq_self)

lemma take_bit_be_value:
  "take_bit (8 * length bs) (be_value bs :: 'a::len word) = be_value bs"
proof (induction bs rule: rev_induct)
  case Nil
  then show ?case by simp
next
  case (snoc b bs)
  have "take_bit (8 * length bs) (be_value bs :: 'a word) = be_value bs" by (rule snoc)
  then have bits: "bit (be_value bs :: 'a word) k \<Longrightarrow> k < 8 * length bs" for k
    by (metis bit_take_bit_iff)
  show ?case
    by (rule bit_word_eqI)
      (auto simp: be_value_snoc bit_simps dest: bits bit_imp_le_length[of b])
qed

lemma be_bytes_be_value [simp, be_simps]:
  "8 * length bs \<le> LENGTH('a) \<Longrightarrow> length bs = n \<Longrightarrow> be_bytes n (be_value bs :: 'a::len word) = bs"
proof (induction bs arbitrary: n rule: rev_induct)
  case Nil
  then show ?case by simp
next
  case (snoc b bs)
  let ?v = "be_value bs :: 'a word"
  have top: "bit ?v k \<Longrightarrow> k < 8 * length bs" for k
    using take_bit_be_value[of bs, where 'a = 'a] by (metis bit_take_bit_iff)
  have d: "drop_bit 8 (push_bit 8 ?v OR ucast b) = ?v"
    using snoc.prems by (intro bit_word_eqI) (auto simp: bit_simps dest: top bit_imp_le_length[of b])
  have u: "ucast (push_bit 8 ?v OR ucast b) = b"
    using snoc.prems by (intro bit_word_eqI) (auto simp: bit_simps)
  from snoc.prems have n: "n = Suc (length bs)" by simp
  have "be_bytes (length bs) ?v = bs" using snoc.prems by (intro snoc.IH) auto
  then show ?case by (simp only: n be_bytes_snoc be_value_snoc d u)
qed

lemma be_bytes_inj:
  "LENGTH('a) \<le> 8 * n \<Longrightarrow> be_bytes n (v::'a::len word) = be_bytes n w \<Longrightarrow> v = w"
  by (metis be_value_be_bytes_id)

lemma be_value_lt:
  "8 * length bs \<le> LENGTH('a) \<Longrightarrow> unat (be_value bs :: 'a::len word) < 2 ^ (8 * length bs)"
  by (metis take_bit_be_value take_bit_nat_less_exp unsigned_take_bit_eq)

lemma ucast_and_0xFF [simp, be_simps]: "(ucast (x AND 0xFF) :: u8) = ucast (x :: 'a::len word)"
proof -
  have "(0xFF :: 'a word) = mask 8" by (simp add: mask_eq_exp_minus_1)
  show ?thesis
    unfolding \<open>0xFF = mask 8\<close>
    by (intro bit_word_eqI) (auto simp: bit_simps dest: bit_imp_le_length)
qed

lemma unat_word_of_nat: "n < 2 ^ LENGTH('a) \<Longrightarrow> unat (word_of_nat n :: 'a::len word) = n"
  by (simp add: unat_of_nat)

lemma unat_mod_exp: "unat (x :: 'a::len word) mod 2 ^ n = unat (take_bit n x)"
  by (simp only: unsigned_take_bit_eq take_bit_eq_mod[of n "unat x"])

lemma unat_drop_bit: "unat (drop_bit n (w :: 'a::len word)) = unat w div 2 ^ n"
  by (rule trans[OF unat_drop_bit_eq drop_bit_eq_div])

lemma take_bit_self_iff: "take_bit n (x :: 'a::len word) = x \<longleftrightarrow> unat x < 2 ^ n"
proof
  assume "take_bit n x = x"
  then have "unat x = unat x mod 2 ^ n" by (metis unat_mod_exp)
  then show "unat x < 2 ^ n" by (metis mod_less_divisor zero_less_numeral zero_less_power)
next
  assume "unat x < 2 ^ n"
  then have "unat (take_bit n x) = unat x" by (metis mod_less unat_mod_exp)
  then show "take_bit n x = x" by (simp only: word_unat_eq_iff)
qed

lemma bit_lt: "unat (x :: 'a::len word) < 2 ^ n \<Longrightarrow> bit x k \<Longrightarrow> k < n"
  by (metis bit_take_bit_iff take_bit_self_iff)

lemma unat_u8_lt: "unat (b :: u8) < 256"
  using unsigned_less[of b, where 'a = nat] by simp

lemma ucast_u8_u64: "(ucast (ucast (v :: u64) :: u8) :: u64) = take_bit 8 v"
  by (rule bit_word_eqI) (auto simp: bit_simps)

lemma unat_ucast_u8: "unat (v :: 'a::len word) < 256 \<Longrightarrow> unat (ucast v :: u8) = unat v"
  by (simp add: unsigned_ucast_eq take_bit_nat_eq_self)

subsection \<open>Lists\<close>

lemma take_append_exact [simp]: "length xs = n \<Longrightarrow> take n (xs @ ys) = xs"
  by simp

lemma drop_append_exact [simp]: "length xs = n \<Longrightarrow> drop n (xs @ ys) = ys"
  by simp

lemma append_eq_same_length:
  "length xs = length ys \<Longrightarrow> xs @ us = ys @ vs \<longleftrightarrow> xs = ys \<and> us = vs"
  by simp

lemma length_ge_splitD: "n \<le> length xs \<Longrightarrow> \<exists>ys zs. xs = ys @ zs \<and> length ys = n"
  by (metis append_take_drop_id length_take min.absorb2)

end
