(* ===== verification/Interfaces.thy ===== *)
theory Interfaces
  imports Prelude
begin

text \<open>
  The contracts the components rely on, as locales.  Each is interpreted on the model of
  the code in the theory of the component that provides it.
\<close>

subsection \<open>Self-delimiting byte encodings\<close>

text \<open>
  \<open>prefix_codec\<close>: a decoder that reads one item off the front of a byte string and
  recovers every item the encoder wrote, whatever follows it.
\<close>

locale prefix_codec =
  fixes enc :: "'a \<Rightarrow> bytes"
    and dec :: "bytes \<Rightarrow> ('a \<times> bytes) option"
    and ok :: "'a \<Rightarrow> bool"
  assumes dec_enc: "ok x \<Longrightarrow> dec (enc x @ rest) = Some (x, rest)"
begin

lemma enc_append_cancel:
  assumes "ok x" and "ok y" and "enc x @ r = enc y @ s"
  shows "x = y \<and> r = s"
proof -
  have "Some (x, r) = dec (enc x @ r)" by (simp only: dec_enc[OF assms(1)])
  also have "\<dots> = Some (y, s)" by (simp only: assms(3) dec_enc[OF assms(2)])
  finally show ?thesis by simp
qed

lemma enc_inject: "ok x \<Longrightarrow> ok y \<Longrightarrow> enc x = enc y \<longleftrightarrow> x = y"
  using enc_append_cancel[of x y "[]" "[]"] by auto

lemma dec_enc_exact: "ok x \<Longrightarrow> dec (enc x) = Some (x, [])"
  using dec_enc[of x "[]"] by simp

lemma concat_enc_inject:
  assumes "list_all ok xs" and "list_all ok ys" and "length xs = length ys"
    and "concat (map enc xs) = concat (map enc ys)"
  shows "xs = ys"
  using assms(3,1,2,4)
proof (induction xs ys rule: list_induct2)
  case Nil
  then show ?case by simp
next
  case (Cons x xs y ys)
  then show ?case by (auto dest: enc_append_cancel)
qed

end

text \<open>
  \<open>canonical_codec\<close>: besides, whatever the decoder accepts is exactly what the encoder
  writes, so there is one encoding per item.
\<close>

locale canonical_codec = prefix_codec +
  assumes dec_only_enc: "dec bs = Some (x, rest) \<Longrightarrow> ok x \<and> bs = enc x @ rest"
begin

lemma dec_iff: "dec bs = Some (x, rest) \<longleftrightarrow> ok x \<and> bs = enc x @ rest"
  using dec_enc dec_only_enc by blast

lemma dec_unique:
  "dec bs = Some (x, rest) \<Longrightarrow> dec bs' = Some (x, rest) \<Longrightarrow> bs = bs'"
  by (simp add: dec_iff)

end

subsection \<open>Machines with an invariant\<close>

text \<open>
  \<open>machine\<close>: an object whose every operation keeps an invariant; the invariant then
  holds after any sequence of operations.
\<close>

locale machine =
  fixes step :: "'s \<Rightarrow> 'e \<Rightarrow> 's"
    and inv :: "'s \<Rightarrow> bool"
  assumes step_inv: "inv s \<Longrightarrow> inv (step s e)"
begin

lemma run_inv: "inv s \<Longrightarrow> inv (foldl step s es)"
  by (induction es arbitrary: s) (simp_all add: step_inv)

lemma run_inv_prefix: "inv s \<Longrightarrow> inv (foldl step s (take n es))"
  by (rule run_inv)

end

subsection \<open>Ordered maps\<close>

text \<open>
  \<open>ordered_map\<close>: what the sources use of \<open>std::map\<close>: \<open>find\<close>, \<open>insert_or_assign\<close> and
  \<open>erase\<close>, over well-formed (strictly ordered) maps, extensional in \<open>find\<close>.
\<close>

locale ordered_map =
  fixes find :: "'m \<Rightarrow> 'k \<Rightarrow> 'v option"
    and assign :: "'k \<Rightarrow> 'v \<Rightarrow> 'm \<Rightarrow> 'm"
    and erase :: "'k \<Rightarrow> 'm \<Rightarrow> 'm"
    and wf :: "'m \<Rightarrow> bool"
    and empty :: "'m"
  assumes wf_empty: "wf empty"
    and find_empty: "find empty k = None"
    and wf_assign: "wf m \<Longrightarrow> wf (assign k v m)"
    and find_assign: "wf m \<Longrightarrow> find (assign k v m) j = (if j = k then Some v else find m j)"
    and wf_erase: "wf m \<Longrightarrow> wf (erase k m)"
    and find_erase: "wf m \<Longrightarrow> find (erase k m) j = (if j = k then None else find m j)"
    and find_ext: "wf m \<Longrightarrow> wf m' \<Longrightarrow> (\<And>k. find m k = find m' k) \<Longrightarrow> m = m'"
begin

lemma wf_assigns: "wf m \<Longrightarrow> wf (fold (\<lambda>(k, v). assign k v) kvs m)"
  by (induction kvs arbitrary: m) (auto simp: wf_assign)

lemma find_assigns:
  "wf m \<Longrightarrow> find (fold (\<lambda>(k, v). assign k v) kvs m) j
     = (case map_of (rev kvs) j of Some v \<Rightarrow> Some v | None \<Rightarrow> find m j)"
  by (induction kvs arbitrary: m)
    (auto simp: wf_assign find_assign map_add_def split: option.splits)

lemma assign_commute:
  "wf m \<Longrightarrow> j \<noteq> k \<Longrightarrow> assign j u (assign k v m) = assign k v (assign j u m)"
  by (rule find_ext) (auto simp: wf_assign find_assign)

lemma assign_overwrite: "wf m \<Longrightarrow> assign k u (assign k v m) = assign k u m"
  by (rule find_ext) (auto simp: wf_assign find_assign)

lemma erase_assign: "wf m \<Longrightarrow> erase k (assign k v m) = erase k m"
  by (rule find_ext) (auto simp: wf_assign wf_erase find_assign find_erase)

lemma erase_absent: "wf m \<Longrightarrow> find m k = None \<Longrightarrow> erase k m = m"
  by (rule find_ext) (auto simp: wf_erase find_erase)

lemma assign_erase: "wf m \<Longrightarrow> assign k v (erase k m) = assign k v m"
  by (rule find_ext) (auto simp: wf_assign wf_erase find_assign find_erase)

lemma assign_same: "wf m \<Longrightarrow> find m k = Some v \<Longrightarrow> assign k v m = m"
  by (rule find_ext) (auto simp: wf_assign find_assign)

end

end
