(* ===== verification/Wire.thy ===== *)
theory Wire
  imports Interfaces
begin

text \<open>
  The 16-byte frame header and the streaming decoder of \<open>core/src/wire.cpp\<close> and
  \<open>core/include/rc/wire.h\<close>.  The decoder keeps its buffer, read offset and failure as the
  class does, compaction included; \<open>parse_stream\<close> states what it must compute on the bytes
  still unread, and the refinement lemmas show that it does, however the stream is cut.
\<close>

subsection \<open>Constants, errors and frames\<close>

definition kHeaderBytes :: nat where
  "kHeaderBytes = 16"

definition wire_kMaxPayloadBytes :: nat where
  "wire_kMaxPayloadBytes = 16 * 1024 * 1024"

definition kCompactThreshold :: nat where
  "kCompactThreshold = 1024 * 1024"

definition kKeyframe :: u8 where
  "kKeyframe = push_bit 0 1"

definition kEncrypted :: u8 where
  "kEncrypted = push_bit 1 1"

definition kEndOfFragment :: u8 where
  "kEndOfFragment = push_bit 2 1"

definition kKnownMask :: u8 where
  "kKnownMask = kKeyframe OR kEncrypted OR kEndOfFragment"

definition channelControl :: u8 where
  "channelControl = 0"

definition channelVideo :: u8 where
  "channelVideo = 1"

definition channelAudio :: u8 where
  "channelAudio = 2"

definition channelStats :: u8 where
  "channelStats = 3"

lemmas wire_consts = kHeaderBytes_def wire_kMaxPayloadBytes_def kCompactThreshold_def
  kKeyframe_def kEncrypted_def kEndOfFragment_def kKnownMask_def
  channelControl_def channelVideo_def channelAudio_def channelStats_def

datatype wire_error = WireNone | PayloadTooLarge | ReservedFlagsSet | ReservedHeaderNonZero

fun wire_errorText :: "wire_error \<Rightarrow> string" where
  "wire_errorText WireNone = ''none''"
| "wire_errorText PayloadTooLarge = ''payload too large''"
| "wire_errorText ReservedFlagsSet = ''reserved flag bits set''"
| "wire_errorText ReservedHeaderNonZero = ''reserved header bytes non-zero''"

record frame =
  fr_channel :: u8
  fr_flags :: u8
  fr_ptsMicros :: u64
  fr_payload :: bytes

definition isKeyframe :: "frame \<Rightarrow> bool" where
  "isKeyframe f \<longleftrightarrow> fr_flags f AND kKeyframe \<noteq> 0"

subsection \<open>Byte order\<close>

definition appendBigEndian32 :: "bytes \<Rightarrow> u32 \<Rightarrow> bytes" where
  "appendBigEndian32 out v = out @ [ucast (drop_bit 24 v), ucast (drop_bit 16 v),
     ucast (drop_bit 8 v), ucast v]"

primrec appendBigEndian64_loop :: "nat \<Rightarrow> bytes \<Rightarrow> u64 \<Rightarrow> bytes" where
  "appendBigEndian64_loop 0 out v = out"
| "appendBigEndian64_loop (Suc n) out v =
     appendBigEndian64_loop n (out @ [ucast (drop_bit (8 * n) v AND 0xFF)]) v"

definition appendBigEndian64 :: "bytes \<Rightarrow> u64 \<Rightarrow> bytes" where
  "appendBigEndian64 out v = appendBigEndian64_loop 8 out v"

text \<open>The readers are given the bytes at the pointer; they read the first four or eight.\<close>

definition readBigEndian32 :: "bytes \<Rightarrow> u32" where
  "readBigEndian32 p = push_bit 24 (ucast (p ! 0)) OR push_bit 16 (ucast (p ! 1)) OR
     push_bit 8 (ucast (p ! 2)) OR ucast (p ! 3)"

definition readBigEndian64 :: "bytes \<Rightarrow> u64" where
  "readBigEndian64 p = foldl (\<lambda>value i. push_bit 8 value OR ucast (p ! i)) 0 [0..<8]"

lemma appendBigEndian32_be [be_simps]: "appendBigEndian32 out v = out @ be_bytes 4 v"
  by (simp add: appendBigEndian32_def eval_nat_numeral)

lemma appendBigEndian64_loop_be:
  "appendBigEndian64_loop n out v = out @ be_bytes n v"
proof (induction n arbitrary: out)
  case 0
  then show ?case by simp
next
  case (Suc n)
  then show ?case by simp
qed

lemma appendBigEndian64_be [be_simps]: "appendBigEndian64 out v = out @ be_bytes 8 v"
  by (simp add: appendBigEndian64_def appendBigEndian64_loop_be)

lemma take4_nth: "4 \<le> length p \<Longrightarrow> take 4 p = [p ! 0, p ! 1, p ! 2, p ! 3]"
  by (rule nth_equalityI) (auto simp: less_Suc_eq eval_nat_numeral)

lemma take8_nth: "8 \<le> length p \<Longrightarrow> take 8 p = map ((!) p) [0..<8]"
  by (rule nth_equalityI) auto

lemma readBigEndian32_be [be_simps]: "4 \<le> length p \<Longrightarrow> readBigEndian32 p = be_value (take 4 p)"
  by (simp add: take4_nth readBigEndian32_def be_value_def push_bit_or or.assoc)

lemma readBigEndian64_be [be_simps]: "8 \<le> length p \<Longrightarrow> readBigEndian64 p = be_value (take 8 p)"
  by (simp add: take8_nth readBigEndian64_def be_value_def foldl_map)

subsection \<open>Encoding a frame\<close>

definition wire_encode ::
  "u8 \<Rightarrow> u8 \<Rightarrow> u64 \<Rightarrow> bytes \<Rightarrow> bytes \<Rightarrow> wire_error \<times> bytes" where
  "wire_encode channel frameFlags ptsMicros payload out =
     (if length payload > wire_kMaxPayloadBytes then (PayloadTooLarge, out)
      else if frameFlags AND NOT kKnownMask \<noteq> 0 then (ReservedFlagsSet, out)
      else
        let out = appendBigEndian32 out (word_of_nat (length payload));
            out = out @ [channel];
            out = out @ [frameFlags];
            out = out @ [0];
            out = out @ [0];
            out = appendBigEndian64 out ptsMicros;
            out = (if length payload > 0 then out @ payload else out)
        in (WireNone, out))"

definition wire_encode_frame :: "frame \<Rightarrow> bytes \<Rightarrow> wire_error \<times> bytes" where
  "wire_encode_frame f out =
     wire_encode (fr_channel f) (fr_flags f) (fr_ptsMicros f) (fr_payload f) out"

subsection \<open>The streaming decoder\<close>

record wire_decoder =
  dec_buffer :: bytes
  dec_readOffset :: nat
  dec_failed :: bool
  dec_failure :: wire_error

definition wire_fresh :: wire_decoder where
  "wire_fresh = \<lparr>dec_buffer = [], dec_readOffset = 0, dec_failed = False, dec_failure = WireNone\<rparr>"

definition wire_reset :: "wire_decoder \<Rightarrow> wire_decoder" where
  "wire_reset d = d\<lparr>dec_buffer := [], dec_readOffset := 0, dec_failed := False,
     dec_failure := WireNone\<rparr>"

definition wire_buffered :: "wire_decoder \<Rightarrow> nat" where
  "wire_buffered d = length (dec_buffer d) - dec_readOffset d"

definition wire_fail :: "wire_error \<Rightarrow> wire_decoder \<Rightarrow> wire_decoder" where
  "wire_fail e d = d\<lparr>dec_failed := True, dec_failure := e\<rparr>"

text \<open>The \<open>while\<close> loop of \<open>Decoder::append\<close>; \<open>WireNone\<close> means it fell through or broke.\<close>

function wire_loop ::
  "wire_decoder \<Rightarrow> frame list \<Rightarrow> wire_error \<times> wire_decoder \<times> frame list" where
  "wire_loop d out =
     (if length (dec_buffer d) - dec_readOffset d \<ge> kHeaderBytes then
        let header = drop (dec_readOffset d) (dec_buffer d);
            payloadLength = unat (readBigEndian32 header);
            frameFlags = header ! 5
        in if payloadLength > wire_kMaxPayloadBytes then
             (PayloadTooLarge, wire_fail PayloadTooLarge d, out)
           else if frameFlags AND NOT kKnownMask \<noteq> 0 then
             (ReservedFlagsSet, wire_fail ReservedFlagsSet d, out)
           else if header ! 6 \<noteq> 0 \<or> header ! 7 \<noteq> 0 then
             (ReservedHeaderNonZero, wire_fail ReservedHeaderNonZero d, out)
           else if length (dec_buffer d) - dec_readOffset d - kHeaderBytes < payloadLength then
             (WireNone, d, out)
           else
             wire_loop
               (d\<lparr>dec_readOffset := dec_readOffset d + (kHeaderBytes + payloadLength)\<rparr>)
               (out @ [\<lparr>fr_channel = header ! 4, fr_flags = frameFlags,
                        fr_ptsMicros = readBigEndian64 (drop 8 header),
                        fr_payload = take payloadLength (drop kHeaderBytes header)\<rparr>])
      else (WireNone, d, out))"
  by pat_completeness auto
termination
  by (relation "measure (\<lambda>(d, out). length (dec_buffer d) - dec_readOffset d)")
    (auto simp: kHeaderBytes_def)

declare wire_loop.simps [simp del]

definition wire_compact :: "wire_decoder \<Rightarrow> wire_decoder" where
  "wire_compact d =
     (if dec_readOffset d = length (dec_buffer d) then d\<lparr>dec_buffer := [], dec_readOffset := 0\<rparr>
      else if dec_readOffset d \<ge> kCompactThreshold
            \<or> dec_readOffset d > length (dec_buffer d) div 2 then
        d\<lparr>dec_buffer := drop (dec_readOffset d) (dec_buffer d), dec_readOffset := 0\<rparr>
      else d)"

definition wire_append ::
  "wire_decoder \<Rightarrow> bytes \<Rightarrow> frame list \<Rightarrow> wire_error \<times> wire_decoder \<times> frame list" where
  "wire_append d data out =
     (if dec_failed d then (dec_failure d, d, out)
      else case wire_loop (d\<lparr>dec_buffer := dec_buffer d @ data\<rparr>) out of
        (err, d', out') \<Rightarrow>
          if err \<noteq> WireNone then (err, d', out') else (WireNone, wire_compact d', out'))"

text \<open>A connection's receive loop: one \<open>append\<close> per chunk the socket returned.\<close>

primrec wire_feed :: "wire_decoder \<Rightarrow> bytes list \<Rightarrow> frame list \<Rightarrow>
    wire_error \<times> wire_decoder \<times> frame list" where
  "wire_feed d [] out = ((if dec_failed d then dec_failure d else WireNone), d, out)"
| "wire_feed d (c # cs) out =
     (case wire_append d c out of (err, d', out') \<Rightarrow> wire_feed d' cs out')"

subsection \<open>What the decoder must compute\<close>

text \<open>
  One frame off the front of the unread bytes, as docs/protocol.md fixes the header: the
  header fields are judged as soon as sixteen bytes are there, before the body.
\<close>

datatype frame_step = NeedMore | Bad wire_error | Got frame bytes

definition next_frame :: "bytes \<Rightarrow> frame_step" where
  "next_frame bs =
     (if length bs < 16 then NeedMore
      else
        let n = unat (be_value (take 4 bs) :: u32) in
        if n > wire_kMaxPayloadBytes then Bad PayloadTooLarge
        else if bs ! 5 AND NOT kKnownMask \<noteq> 0 then Bad ReservedFlagsSet
        else if bs ! 6 \<noteq> 0 \<or> bs ! 7 \<noteq> 0 then Bad ReservedHeaderNonZero
        else if length bs < 16 + n then NeedMore
        else Got \<lparr>fr_channel = bs ! 4, fr_flags = bs ! 5,
                  fr_ptsMicros = be_value (take 8 (drop 8 bs)),
                  fr_payload = take n (drop 16 bs)\<rparr> (drop (16 + n) bs))"

lemma next_frame_Got_shorter: "next_frame bs = Got f rest \<Longrightarrow> length rest < length bs"
  by (auto simp: next_frame_def Let_def split: if_splits)

function parse_stream :: "bytes \<Rightarrow> frame list \<times> wire_error \<times> bytes" where
  "parse_stream bs =
     (case next_frame bs of
        NeedMore \<Rightarrow> ([], WireNone, bs)
      | Bad e \<Rightarrow> ([], e, bs)
      | Got f rest \<Rightarrow> (case parse_stream rest of (fs, e, r) \<Rightarrow> (f # fs, e, r)))"
  by pat_completeness auto
termination
  by (relation "measure length") (auto dest: next_frame_Got_shorter)

declare parse_stream.simps [simp del]

lemma parse_stream_NeedMore: "next_frame bs = NeedMore \<Longrightarrow> parse_stream bs = ([], WireNone, bs)"
  by (simp add: parse_stream.simps)

lemma parse_stream_Bad: "next_frame bs = Bad e \<Longrightarrow> parse_stream bs = ([], e, bs)"
  by (simp add: parse_stream.simps)

lemma parse_stream_Got:
  "next_frame bs = Got f rest \<Longrightarrow>
   parse_stream bs = (case parse_stream rest of (fs, e, r) \<Rightarrow> (f # fs, e, r))"
  by (subst parse_stream.simps) simp

lemma next_frame_Bad_not_None: "next_frame bs = Bad e \<Longrightarrow> e \<noteq> WireNone"
  by (auto simp: next_frame_def Let_def split: if_splits)

lemma next_frame_Got_suffix: "next_frame bs = Got f rest \<Longrightarrow> \<exists>p. bs = p @ rest"
  by (auto simp: next_frame_def Let_def split: if_splits) (metis append_take_drop_id)

lemma next_frame_append:
  "next_frame xs = Got f rest \<Longrightarrow> next_frame (xs @ ys) = Got f (rest @ ys)"
  "next_frame xs = Bad e \<Longrightarrow> next_frame (xs @ ys) = Bad e"
  by (auto simp: next_frame_def Let_def nth_append split: if_splits)

lemma parse_stream_suffix: "parse_stream bs = (fs, e, r) \<Longrightarrow> \<exists>p. bs = p @ r"
proof (induction bs arbitrary: fs rule: parse_stream.induct)
  case (1 bs)
  show ?case
  proof (cases "next_frame bs")
    case (Got f rest)
    then obtain gs where "parse_stream rest = (gs, e, r)"
      using "1.prems" by (auto simp: parse_stream_Got split: prod.splits)
    with "1.IH"[OF Got] next_frame_Got_suffix[OF Got] show ?thesis
      by (metis append.assoc)
  qed (use 1 in \<open>auto simp: parse_stream_NeedMore parse_stream_Bad\<close>)
qed

lemma parse_stream_rest:
  "parse_stream bs = (fs, e, r) \<Longrightarrow> r = drop (length bs - length r) bs \<and> length r \<le> length bs"
  using parse_stream_suffix by fastforce

text \<open>Cutting the stream anywhere does not change what is parsed.\<close>

lemma parse_stream_append:
  "parse_stream (xs @ ys) =
     (case parse_stream xs of (fs, e, r) \<Rightarrow>
        if e \<noteq> WireNone then (fs, e, r @ ys)
        else case parse_stream (r @ ys) of (gs, e', r') \<Rightarrow> (fs @ gs, e', r'))"
proof (induction xs rule: parse_stream.induct)
  case (1 xs)
  show ?case
  proof (cases "next_frame xs")
    case NeedMore
    then show ?thesis by (simp add: parse_stream_NeedMore split: prod.splits)
  next
    case (Bad e)
    then show ?thesis
      using next_frame_Bad_not_None[OF Bad]
      by (simp add: parse_stream_Bad next_frame_append)
  next
    case (Got f rest)
    then show ?thesis
      using "1.IH"[OF Got] by (auto simp: parse_stream_Got next_frame_append split: prod.splits)
  qed
qed

subsection \<open>The decoder refines the parser\<close>

definition wire_pending :: "wire_decoder \<Rightarrow> bytes" where
  "wire_pending d = drop (dec_readOffset d) (dec_buffer d)"

definition wire_inv :: "wire_decoder \<Rightarrow> bool" where
  "wire_inv d \<longleftrightarrow>
     dec_readOffset d \<le> length (dec_buffer d) \<and>
     (dec_failed d \<longleftrightarrow> dec_failure d \<noteq> WireNone) \<and>
     (\<not> dec_failed d \<longrightarrow>
        next_frame (wire_pending d) = NeedMore \<and>
        dec_readOffset d < kCompactThreshold \<and>
        dec_readOffset d \<le> length (dec_buffer d) div 2)"

text \<open>The abstract decoder: the unread bytes, or the failure that ended the stream.\<close>

definition wire_abs :: "wire_decoder \<Rightarrow> wire_error + bytes" where
  "wire_abs d = (if dec_failed d then Inl (dec_failure d) else Inr (wire_pending d))"

fun spec_append :: "wire_error + bytes \<Rightarrow> bytes \<Rightarrow>
    wire_error \<times> (wire_error + bytes) \<times> frame list" where
  "spec_append (Inl e) data = (e, Inl e, [])"
| "spec_append (Inr p) data =
     (case parse_stream (p @ data) of (fs, e, r) \<Rightarrow>
        (e, if e = WireNone then Inr r else Inl e, fs))"

lemma wire_loop_parse:
  assumes "dec_readOffset d \<le> length (dec_buffer d)"
  shows "wire_loop d out =
     (case parse_stream (wire_pending d) of (fs, e, r) \<Rightarrow>
        (e, (if e = WireNone then id else wire_fail e)
              (d\<lparr>dec_readOffset := length (dec_buffer d) - length r\<rparr>), out @ fs))"
  using assms
proof (induction "length (dec_buffer d) - dec_readOffset d" arbitrary: d out rule: less_induct)
  case less
  let ?h = "drop (dec_readOffset d) (dec_buffer d)"
  let ?n = "unat (be_value (take 4 ?h) :: u32)"
  have same: "d\<lparr>dec_readOffset := length (dec_buffer d) - length ?h\<rparr> = d"
    using less.prems by simp
  show ?case
  proof (cases "next_frame ?h")
    case NeedMore
    then have "wire_loop d out = (WireNone, d, out)"
      by (subst wire_loop.simps)
        (auto simp: next_frame_def kHeaderBytes_def Let_def be_simps split: if_splits)
    then show ?thesis
      using less.prems by (simp add: wire_pending_def parse_stream_NeedMore NeedMore)
  next
    case (Bad e)
    then have "wire_loop d out = (e, wire_fail e d, out)"
      by (subst wire_loop.simps)
        (auto simp: next_frame_def kHeaderBytes_def Let_def be_simps split: if_splits)
    then show ?thesis
      using less.prems next_frame_Bad_not_None[OF Bad]
      by (simp add: wire_pending_def parse_stream_Bad Bad)
  next
    case (Got f rest)
    then have guards: "16 \<le> length ?h" "?n \<le> wire_kMaxPayloadBytes"
        "?h ! 5 AND NOT kKnownMask = 0" "?h ! 6 = 0" "?h ! 7 = 0" "16 + ?n \<le> length ?h"
      and f: "f = \<lparr>fr_channel = ?h ! 4, fr_flags = ?h ! 5,
                  fr_ptsMicros = be_value (take 8 (drop 8 ?h)),
                  fr_payload = take ?n (drop 16 ?h)\<rparr>"
      and rest: "rest = drop (16 + ?n) ?h"
      by (auto simp: next_frame_def Let_def split: if_splits)
    let ?d = "d\<lparr>dec_readOffset := dec_readOffset d + (kHeaderBytes + ?n)\<rparr>"
    have len: "\<not> length (dec_buffer d) - (dec_readOffset d + 16) < ?n"
      using guards by simp
    have step: "wire_loop d out = wire_loop ?d (out @ [f])"
      using guards len
      by (subst wire_loop.simps) (simp add: Let_def kHeaderBytes_def be_simps f)
    have pend: "wire_pending ?d = rest"
      using rest by (simp add: wire_pending_def kHeaderBytes_def add.commute add.left_commute)
    have "wire_loop ?d (out @ [f]) =
       (case parse_stream (wire_pending ?d) of (fs, e, r) \<Rightarrow>
        (e, (if e = WireNone then id else wire_fail e)
              (?d\<lparr>dec_readOffset := length (dec_buffer ?d) - length r\<rparr>), (out @ [f]) @ fs))"
      using guards by (intro less.hyps) (simp_all add: kHeaderBytes_def)
    then show ?thesis
      by (simp add: step pend) (simp add: wire_pending_def parse_stream_Got[OF Got] split: prod.splits)
  qed
qed

lemma wire_compact_pending [simp]: "wire_pending (wire_compact d) = wire_pending d"
  by (auto simp: wire_compact_def wire_pending_def)

lemma wire_compact_failed [simp]:
  "dec_failed (wire_compact d) = dec_failed d" "dec_failure (wire_compact d) = dec_failure d"
  by (simp_all add: wire_compact_def)

lemma wire_compact_bounds:
  "dec_readOffset d \<le> length (dec_buffer d) \<Longrightarrow>
     dec_readOffset (wire_compact d) \<le> length (dec_buffer (wire_compact d)) div 2 \<and>
     dec_readOffset (wire_compact d) < kCompactThreshold"
  by (auto simp: wire_compact_def kCompactThreshold_def)

lemma parse_stream_rest_NeedMore:
  "parse_stream bs = (fs, WireNone, r) \<Longrightarrow> next_frame r = NeedMore"
proof (induction bs arbitrary: fs rule: parse_stream.induct)
  case (1 bs)
  show ?case
  proof (cases "next_frame bs")
    case (Got f rest)
    then obtain gs where "parse_stream rest = (gs, WireNone, r)"
      using "1.prems" by (auto simp: parse_stream_Got split: prod.splits)
    then show ?thesis by (rule "1.IH"[OF Got])
  qed (use "1.prems" next_frame_Bad_not_None in
      \<open>auto simp: parse_stream_NeedMore parse_stream_Bad\<close>)
qed

lemma wire_inv_fresh [simp]: "wire_inv wire_fresh"
  by (simp add: wire_inv_def wire_fresh_def wire_pending_def next_frame_def kCompactThreshold_def)

lemma wire_abs_fresh [simp]: "wire_abs wire_fresh = Inr []"
  by (simp add: wire_abs_def wire_fresh_def wire_pending_def)

lemma wire_append_cases:
  assumes inv: "wire_inv d" and ok: "\<not> dec_failed d"
    and parse: "parse_stream (wire_pending d @ data) = (fs, e, r)"
  shows "\<exists>d'. wire_append d data out = (e, d', out @ fs) \<and> wire_inv d' \<and>
     wire_abs d' = (if e = WireNone then Inr r else Inl e)"
proof -
  let ?d1 = "d\<lparr>dec_buffer := dec_buffer d @ data\<rparr>"
  let ?d2 = "?d1\<lparr>dec_readOffset := length (dec_buffer ?d1) - length r\<rparr>"
  have off: "dec_readOffset ?d1 \<le> length (dec_buffer ?d1)"
    using inv by (simp add: wire_inv_def)
  have pend: "wire_pending ?d1 = wire_pending d @ data"
    using inv by (simp add: wire_inv_def wire_pending_def)
  have loop: "wire_loop ?d1 out = (e, (if e = WireNone then id else wire_fail e) ?d2, out @ fs)"
    using wire_loop_parse[OF off, of out] by (simp add: pend parse)
  obtain p where "wire_pending ?d1 = p @ r"
    using parse_stream_suffix[OF parse] pend by auto
  then have "dec_buffer ?d1 = (take (dec_readOffset ?d1) (dec_buffer ?d1) @ p) @ r"
    unfolding wire_pending_def by (metis append.assoc append_take_drop_id)
  then obtain q where "dec_buffer ?d1 = q @ r" ..
  then have r: "wire_pending ?d2 = r" and off2: "dec_readOffset ?d2 \<le> length (dec_buffer ?d2)"
    by (simp_all add: wire_pending_def)
  have nf: "dec_failed ?d2 = False" "dec_failure ?d2 = WireNone"
    using ok inv by (simp_all add: wire_inv_def)
  show ?thesis
  proof (cases "e = WireNone")
    case True
    then have "next_frame r = NeedMore" using parse parse_stream_rest_NeedMore by simp
    then have "wire_inv (wire_compact ?d2)"
      using off2 nf r wire_compact_bounds[OF off2] unfolding wire_inv_def
      by (auto intro: order_trans[OF _ div_le_dividend])
    then show ?thesis
      using True ok loop r nf by (auto simp: wire_append_def wire_abs_def)
  next
    case False
    then show ?thesis
      using ok loop off2 by (auto simp: wire_append_def wire_abs_def wire_fail_def wire_inv_def)
  qed
qed

theorem wire_append_refines:
  assumes "wire_inv d"
  shows "\<exists>fs d'. wire_append d data out = (fst (spec_append (wire_abs d) data), d', out @ fs) \<and>
     wire_inv d' \<and> spec_append (wire_abs d) data = (fst (spec_append (wire_abs d) data), wire_abs d', fs)"
proof (cases "dec_failed d")
  case True
  then show ?thesis using assms by (simp add: wire_append_def wire_abs_def)
next
  case False
  obtain fs e r where parse: "parse_stream (wire_pending d @ data) = (fs, e, r)"
    by (cases "parse_stream (wire_pending d @ data)")
  have "spec_append (wire_abs d) data = (e, if e = WireNone then Inr r else Inl e, fs)"
    using False parse by (simp add: wire_abs_def)
  with wire_append_cases[OF assms False parse, of out] show ?thesis by auto
qed

lemma wire_append_inv: "wire_inv d \<Longrightarrow> wire_inv (fst (snd (wire_append d data out)))"
  using wire_append_refines[of d data out] by auto

interpretation wire_machine: machine "\<lambda>d data. fst (snd (wire_append d data []))" wire_inv
  by unfold_locales (rule wire_append_inv)

subsection \<open>Frames as a canonical codec\<close>

definition frame_ok :: "frame \<Rightarrow> bool" where
  "frame_ok f \<longleftrightarrow> length (fr_payload f) \<le> wire_kMaxPayloadBytes \<and> fr_flags f AND NOT kKnownMask = 0"

definition frame_bytes :: "frame \<Rightarrow> bytes" where
  "frame_bytes f = be_bytes 4 (word_of_nat (length (fr_payload f)) :: u32) @
     [fr_channel f, fr_flags f, 0, 0] @ be_bytes 8 (fr_ptsMicros f) @ fr_payload f"

definition frame_dec :: "bytes \<Rightarrow> (frame \<times> bytes) option" where
  "frame_dec bs = (case next_frame bs of Got f r \<Rightarrow> Some (f, r) | _ \<Rightarrow> None)"

lemma wire_encode_frame_eq:
  "wire_encode_frame f out =
     (if length (fr_payload f) > wire_kMaxPayloadBytes then (PayloadTooLarge, out)
      else if fr_flags f AND NOT kKnownMask \<noteq> 0 then (ReservedFlagsSet, out)
      else (WireNone, out @ frame_bytes f))"
  by (simp add: wire_encode_frame_def wire_encode_def frame_bytes_def be_simps Let_def)

lemma wire_encode_ok: "fst (wire_encode_frame f out) = WireNone \<longleftrightarrow> frame_ok f"
  by (auto simp: wire_encode_frame_eq frame_ok_def)

lemma unat_payload_length:
  "n \<le> wire_kMaxPayloadBytes \<Longrightarrow> unat (word_of_nat n :: u32) = n"
  by (simp add: unat_of_nat wire_kMaxPayloadBytes_def)

lemma next_frame_frame_bytes:
  assumes "frame_ok f"
  shows "next_frame (frame_bytes f @ rest) = Got f rest"
proof -
  let ?b = "be_bytes 4 (word_of_nat (length (fr_payload f)) :: u32)"
  have l: "length ?b = 4" by simp
  have nth: "(frame_bytes f @ rest) ! (4 + k) = ([fr_channel f, fr_flags f, 0, 0] @
      be_bytes 8 (fr_ptsMicros f) @ fr_payload f @ rest) ! k" for k
    using nth_append_length_plus[of ?b _ k] l unfolding frame_bytes_def by simp
  have "unat (be_value (take 4 (frame_bytes f @ rest)) :: u32) = length (fr_payload f)"
    using assms by (simp add: frame_bytes_def frame_ok_def unat_payload_length)
  moreover have "drop 8 (frame_bytes f @ rest) = be_bytes 8 (fr_ptsMicros f) @ fr_payload f @ rest"
    by (simp add: frame_bytes_def)
  moreover have "drop 16 (frame_bytes f @ rest) = fr_payload f @ rest"
    by (simp add: frame_bytes_def)
  moreover have "length (frame_bytes f @ rest) = 16 + length (fr_payload f) + length rest"
    by (simp add: frame_bytes_def)
  moreover have "drop (16 + length (fr_payload f)) (frame_bytes f @ rest) = rest"
    by (metis \<open>drop 16 (frame_bytes f @ rest) = fr_payload f @ rest\<close> add.commute
        drop_append_exact drop_drop)
  ultimately show ?thesis
    using assms nth[of 0] nth[of 1] nth[of 2] nth[of 3]
    by (simp add: next_frame_def frame_ok_def)
qed

lemma list_split_header:
  assumes "16 \<le> length bs"
  shows "bs = take 4 bs @ [bs ! 4, bs ! 5, bs ! 6, bs ! 7] @ take 8 (drop 8 bs) @ drop 16 bs"
proof -
  have "take 4 (drop 4 bs) = [bs ! 4, bs ! 5, bs ! 6, bs ! 7]"
    using assms take4_nth[of "drop 4 bs"] by simp
  moreover have "drop 4 bs = take 4 (drop 4 bs) @ drop 8 bs"
    using append_take_drop_id[of 4 "drop 4 bs"] by simp
  moreover have "drop 8 bs = take 8 (drop 8 bs) @ drop 16 bs"
    using append_take_drop_id[of 8 "drop 8 bs"] by simp
  moreover have "bs = take 4 bs @ drop 4 bs" by simp
  ultimately show ?thesis by (metis append.assoc)
qed

lemma next_frame_only:
  assumes "next_frame bs = Got f rest"
  shows "frame_ok f \<and> bs = frame_bytes f @ rest"
proof -
  let ?n = "unat (be_value (take 4 bs) :: u32)"
  from assms have guards: "16 \<le> length bs" "?n \<le> wire_kMaxPayloadBytes"
      "bs ! 5 AND NOT kKnownMask = 0" "bs ! 6 = 0" "bs ! 7 = 0" "16 + ?n \<le> length bs"
    and f: "f = \<lparr>fr_channel = bs ! 4, fr_flags = bs ! 5,
                fr_ptsMicros = be_value (take 8 (drop 8 bs)), fr_payload = take ?n (drop 16 bs)\<rparr>"
    and rest: "rest = drop (16 + ?n) bs"
    by (auto simp: next_frame_def Let_def split: if_splits)
  have "be_bytes 4 (word_of_nat ?n :: u32) = take 4 bs"
    using guards by simp
  moreover have "be_bytes 8 (be_value (take 8 (drop 8 bs)) :: u64) = take 8 (drop 8 bs)"
    using guards by simp
  moreover have "take ?n (drop 16 bs) @ rest = drop 16 bs"
  proof -
    have "rest = drop ?n (drop 16 bs)" by (simp add: rest add.commute)
    then show ?thesis by (simp only: append_take_drop_id)
  qed
  ultimately have "frame_bytes f @ rest
      = take 4 bs @ [bs ! 4, bs ! 5, bs ! 6, bs ! 7] @ take 8 (drop 8 bs) @ drop 16 bs"
    using guards by (simp add: f frame_bytes_def)
  then have "bs = frame_bytes f @ rest"
    using list_split_header[OF guards(1)] by simp
  then show ?thesis using guards by (simp add: f frame_ok_def)
qed

interpretation wire_frames: canonical_codec frame_bytes frame_dec frame_ok
  by unfold_locales
    (auto simp: frame_dec_def next_frame_frame_bytes dest: next_frame_only split: frame_step.splits)

lemma parse_stream_frames:
  "list_all frame_ok fs \<Longrightarrow>
   parse_stream (concat (map frame_bytes fs) @ rest) =
     (case parse_stream rest of (gs, e, r) \<Rightarrow> (fs @ gs, e, r))"
  by (induction fs)
    (auto simp: parse_stream_Got[OF next_frame_frame_bytes] split: prod.splits)

lemma parse_stream_only:
  "parse_stream bs = (fs, e, r) \<Longrightarrow> list_all frame_ok fs \<and> bs = concat (map frame_bytes fs) @ r"
proof (induction bs arbitrary: fs rule: parse_stream.induct)
  case (1 bs)
  show ?case
  proof (cases "next_frame bs")
    case (Got f rest)
    then obtain gs where gs: "fs = f # gs" "parse_stream rest = (gs, e, r)"
      using "1.prems" by (auto simp: parse_stream_Got split: prod.splits)
    with "1.IH"[OF Got] next_frame_only[OF Got] show ?thesis by simp
  qed (use "1.prems" in \<open>auto simp: parse_stream_NeedMore parse_stream_Bad\<close>)
qed

subsection \<open>Feeding the stream in chunks\<close>

lemma spec_append_append:
  "spec_append a (xs @ ys) =
     (case spec_append a xs of (e, a', fs) \<Rightarrow>
        case spec_append a' ys of (e', a'', gs) \<Rightarrow> (e', a'', fs @ gs))"
proof (cases a)
  case (Inr p)
  then show ?thesis
    using parse_stream_append[of "p @ xs" ys] by (auto split: prod.splits)
qed simp

lemma spec_append_Nil:
  "wire_inv d \<Longrightarrow>
   spec_append (wire_abs d) [] = ((if dec_failed d then dec_failure d else WireNone), wire_abs d, [])"
  by (auto simp: wire_abs_def wire_inv_def parse_stream_NeedMore)

lemma wire_feed_spec:
  assumes "wire_inv d"
  shows "\<exists>e d' fs. wire_feed d cs out = (e, d', out @ fs) \<and> wire_inv d' \<and>
     spec_append (wire_abs d) (concat cs) = (e, wire_abs d', fs)"
  using assms
proof (induction cs arbitrary: d out)
  case Nil
  then show ?case by (simp add: spec_append_Nil)
next
  case (Cons c cs)
  from wire_append_refines[OF Cons.prems, of c out] obtain e fs d' where
    d': "wire_append d c out = (e, d', out @ fs)" "wire_inv d'"
      "spec_append (wire_abs d) c = (e, wire_abs d', fs)" by blast
  from Cons.IH[OF d'(2), of "out @ fs"] show ?case
    using d'(1) by (auto simp: spec_append_append d'(3) split: prod.splits)
qed

text \<open>
  However TCP cuts a byte stream into chunks, feeding them to a fresh decoder
  one \<open>append\<close> at a time gives the frames, the error and the pending bytes that one
  \<open>append\<close> of the whole stream gives; the read offset and the compaction never show.
\<close>

theorem wire_chunking:
  "map_prod id (map_prod wire_abs id) (wire_feed wire_fresh chunks []) =
   map_prod id (map_prod wire_abs id) (wire_append wire_fresh (concat chunks) [])"
proof -
  obtain e d fs where "wire_feed wire_fresh chunks [] = (e, d, fs)"
      "spec_append (Inr []) (concat chunks) = (e, wire_abs d, fs)"
    using wire_feed_spec[OF wire_inv_fresh, of chunks "[]"] by auto
  moreover obtain e' d' fs' where "wire_append wire_fresh (concat chunks) [] = (e', d', fs')"
      "spec_append (Inr []) (concat chunks) = (e', wire_abs d', fs')"
    using wire_append_refines[OF wire_inv_fresh, of "concat chunks" "[]"] by auto
  ultimately show ?thesis by simp
qed

text \<open>The sender's side: \<open>encode\<close> for each frame in turn, stopping at the first error.\<close>

fun wire_encode_all :: "frame list \<Rightarrow> bytes \<Rightarrow> wire_error \<times> bytes" where
  "wire_encode_all [] out = (WireNone, out)"
| "wire_encode_all (f # fs) out =
     (case wire_encode_frame f out of (err, out') \<Rightarrow>
        if err \<noteq> WireNone then (err, out') else wire_encode_all fs out')"

lemma wire_encode_all_ok:
  "wire_encode_all fs out = (WireNone, bs) \<longleftrightarrow>
   list_all frame_ok fs \<and> bs = out @ concat (map frame_bytes fs)"
  by (induction fs arbitrary: out) (auto simp: wire_encode_frame_eq frame_ok_def)

text \<open>
  Property C35: frames the sender encodes without error, sent in order and received in any
  chunks, come out of a fresh decoder as the same frames, with no error and nothing
  left pending.
\<close>

theorem wire_roundtrip:
  assumes "wire_encode_all fs [] = (WireNone, concat chunks)"
  shows "map_prod id (map_prod wire_abs id) (wire_feed wire_fresh chunks []) = (WireNone, Inr [], fs)"
proof -
  have "list_all frame_ok fs" "concat chunks = concat (map frame_bytes fs)"
    using assms by (simp_all add: wire_encode_all_ok)
  then have "parse_stream (concat chunks) = (fs, WireNone, [])"
    using parse_stream_frames[of fs "[]"] parse_stream_NeedMore[of "[]"]
    by (simp add: next_frame_def)
  then show ?thesis
    using wire_feed_spec[OF wire_inv_fresh, of chunks "[]"] by auto
qed

definition example_frame :: frame where
  "example_frame = \<lparr>fr_channel = 1, fr_flags = 1, fr_ptsMicros = 258, fr_payload = [0, 0, 1, 101]\<rparr>"

theorem wire_roundtrip_witness:
  "map_prod id (map_prod wire_abs id)
     (wire_feed wire_fresh [[0, 0, 0], [4, 1, 1, 0, 0, 0, 0, 0, 0], [0, 0, 1, 2, 0, 0, 1, 101]] [])
   = (WireNone, Inr [], [example_frame])"
proof (rule wire_roundtrip)
  show "wire_encode_all [example_frame] [] = (WireNone,
     concat [[0, 0, 0], [4, 1, 1, 0, 0, 0, 0, 0, 0], [0, 0, 1, 2, 0, 0, 1, 101]])"
    by (simp add: wire_encode_frame_eq example_frame_def frame_ok_def frame_bytes_def
        wire_kMaxPayloadBytes_def kKnownMask_def kKeyframe_def kEncrypted_def kEndOfFragment_def
        be_bytes_numeral)
qed

text \<open>
  The decoder accepts one encoding only.  The bytes fed to a fresh decoder that
  has not failed are exactly the encodings of the frames it returned, each of which the
  encoder accepts, followed by the pending bytes.
\<close>

theorem wire_canonical:
  assumes "wire_feed wire_fresh chunks [] = (e, d, fs)" and "\<not> dec_failed d"
  shows "\<exists>bs. wire_encode_all fs [] = (WireNone, bs) \<and> concat chunks = bs @ wire_pending d"
proof -
  from assms have "spec_append (Inr []) (concat chunks) = (e, Inr (wire_pending d), fs)"
    using wire_feed_spec[OF wire_inv_fresh, of chunks "[]"] by (auto simp: wire_abs_def[of d])
  then have "parse_stream (concat chunks) = (fs, WireNone, wire_pending d)"
    by (auto split: prod.splits if_splits)
  from parse_stream_only[OF this] show ?thesis
    by (auto simp: wire_encode_all_ok)
qed

theorem wire_canonical_witness:
  "\<exists>bs. wire_encode_all [] [] = (WireNone, bs) \<and> concat [[0, 0], [0 :: u8]] =
     bs @ wire_pending \<lparr>dec_buffer = [0, 0, 0], dec_readOffset = 0, dec_failed = False,
       dec_failure = WireNone\<rparr>"
  by (rule wire_canonical)
    (simp_all add: wire_append_def wire_fresh_def wire_loop.simps kHeaderBytes_def wire_compact_def
      kCompactThreshold_def)

text \<open>
  A header that announces more than 16 MiB ends the connection as soon as its
  sixteenth byte is in, whatever the body; the decoder stays failed with that cause, and
  no later chunk is buffered or yields a frame.
\<close>

theorem wire_oversized_rejected_at_header:
  assumes "wire_inv d" and "\<not> dec_failed d"
    and "16 \<le> length (wire_pending d @ data)"
    and "unat (readBigEndian32 (wire_pending d @ data)) > wire_kMaxPayloadBytes"
  shows "\<exists>d'. wire_append d data out = (PayloadTooLarge, d', out) \<and>
     (\<forall>cs. wire_feed d' cs out = (PayloadTooLarge, d', out))"
proof -
  have "next_frame (wire_pending d @ data) = Bad PayloadTooLarge"
    using assms(3,4) by (simp add: next_frame_def be_simps)
  then have "parse_stream (wire_pending d @ data) = ([], PayloadTooLarge, wire_pending d @ data)"
    by (rule parse_stream_Bad)
  from wire_append_cases[OF assms(1,2) this, of out] obtain d' where
    d': "wire_append d data out = (PayloadTooLarge, d', out)"
    and "wire_abs d' = Inl PayloadTooLarge" by auto
  then have "dec_failed d'" "dec_failure d' = PayloadTooLarge"
    by (auto simp: wire_abs_def split: if_splits)
  then have "wire_feed d' cs out = (PayloadTooLarge, d', out)" for cs
    by (induction cs) (simp_all add: wire_append_def)
  with d' show ?thesis by blast
qed

theorem wire_oversized_rejected_at_header_witness:
  "\<exists>d'. wire_append wire_fresh [1, 0, 0, 1, 1, 0, 0, 0, 0, 0, 0, 0, 0, 0, 0, 0] [] =
       (PayloadTooLarge, d', []) \<and>
     (\<forall>cs. wire_feed d' cs [] = (PayloadTooLarge, d', []))"
  by (rule wire_oversized_rejected_at_header)
    (simp_all add: wire_fresh_def[THEN arg_cong, of dec_failed] wire_pending_def
      wire_fresh_def readBigEndian32_def wire_kMaxPayloadBytes_def wire_inv_def next_frame_def
      kCompactThreshold_def)

text \<open>
  Memory held for a peer is bounded.  After any sequence of chunks a decoder that
  has not failed buffers less than one maximal frame, the consumed prefix it keeps is
  below the compaction threshold and never more than half the buffer.
\<close>

theorem wire_buffer_bounded:
  assumes "wire_feed wire_fresh chunks [] = (e, d, fs)" and "\<not> dec_failed d"
  shows "wire_buffered d < kHeaderBytes + wire_kMaxPayloadBytes \<and>
     dec_readOffset d < kCompactThreshold \<and> 2 * dec_readOffset d \<le> length (dec_buffer d)"
proof -
  from assms(1) have inv: "wire_inv d"
    using wire_feed_spec[OF wire_inv_fresh, of chunks "[]"] by auto
  then have "next_frame (wire_pending d) = NeedMore"
    using assms(2) by (simp add: wire_inv_def)
  then have "length (wire_pending d) < 16 + wire_kMaxPayloadBytes"
    by (auto simp: next_frame_def Let_def wire_kMaxPayloadBytes_def split: if_splits)
  then show ?thesis
    using inv assms(2) by (auto simp: wire_inv_def wire_buffered_def wire_pending_def kHeaderBytes_def)
qed

theorem wire_buffer_bounded_witness:
  "\<exists>e d fs. wire_feed wire_fresh [[0, 0], [0 :: u8]] [] = (e, d, fs) \<and>
     wire_buffered d < kHeaderBytes + wire_kMaxPayloadBytes \<and>
     dec_readOffset d < kCompactThreshold \<and> 2 * dec_readOffset d \<le> length (dec_buffer d)"
proof -
  let ?d = "\<lparr>dec_buffer = [0, 0, 0], dec_readOffset = 0, dec_failed = False,
       dec_failure = WireNone\<rparr> :: wire_decoder"
  have run: "wire_feed wire_fresh [[0, 0], [0 :: u8]] [] = (WireNone, ?d, [])"
    by (simp add: wire_append_def wire_fresh_def wire_loop.simps kHeaderBytes_def wire_compact_def
      kCompactThreshold_def)
  show ?thesis using run wire_buffer_bounded[OF run] by auto
qed

end
