(* ===== verification/AnnexB.thy ===== *)
theory AnnexB
  imports Prelude
begin

text \<open>
  The access-unit inspection of \<open>core/src/annexb.cpp\<close>: splitting at 3- and 4-byte start
  codes, NAL types, and the report whether a keyframe carries its own parameter sets.
\<close>

subsection \<open>Types and constants\<close>

datatype annexb_codec = AnnexbH264 | AnnexbHevc

record nal =
  nal_offset :: nat
  nal_size :: nat
  nal_type :: u8

record access_unit_report =
  isAnnexB :: bool
  nalCount :: int
  hasParameterSets :: bool
  hasVideoSlice :: bool
  hasKeyframeSlice :: bool
  isSelfContainedKeyframe :: bool
  decodableFromHere :: bool

definition kH264Sps :: u8 where "kH264Sps = 7"
definition kH264Pps :: u8 where "kH264Pps = 8"
definition kH264IdrSlice :: u8 where "kH264IdrSlice = 5"
definition kHevcVps :: u8 where "kHevcVps = 32"
definition kHevcSps :: u8 where "kHevcSps = 33"
definition kHevcPps :: u8 where "kHevcPps = 34"
definition kHevcBlaWLp :: u8 where "kHevcBlaWLp = 16"
definition kHevcCraNut :: u8 where "kHevcCraNut = 21"

lemmas annexb_consts = kH264Sps_def kH264Pps_def kH264IdrSlice_def kHevcVps_def kHevcSps_def
  kHevcPps_def kHevcBlaWLp_def kHevcCraNut_def

definition startCodeAt :: "bytes \<Rightarrow> nat \<Rightarrow> nat option" where
  "startCodeAt data index =
     (if index + 3 \<le> length data \<and> data ! index = 0 \<and> data ! (index + 1) = 0
         \<and> data ! (index + 2) = 1 then Some 3
      else if index + 4 \<le> length data \<and> data ! index = 0 \<and> data ! (index + 1) = 0
         \<and> data ! (index + 2) = 0 \<and> data ! (index + 3) = 1 then Some 4
      else None)"

definition nalTypeOf :: "annexb_codec \<Rightarrow> u8 \<Rightarrow> u8" where
  "nalTypeOf codec headerByte =
     (if codec = AnnexbH264 then headerByte AND 0x1F else drop_bit 1 headerByte AND 0x3F)"

definition isVideoSlice :: "annexb_codec \<Rightarrow> u8 \<Rightarrow> bool" where
  "isVideoSlice codec nalType \<longleftrightarrow>
     (if codec = AnnexbH264 then nalType \<ge> 1 \<and> nalType \<le> 5 else nalType \<le> 31)"

definition isParameterSet :: "annexb_codec \<Rightarrow> u8 \<Rightarrow> bool" where
  "isParameterSet codec nalType \<longleftrightarrow>
     (if codec = AnnexbH264 then nalType = kH264Sps \<or> nalType = kH264Pps
      else nalType = kHevcVps \<or> nalType = kHevcSps \<or> nalType = kHevcPps)"

definition isKeyframeSlice :: "annexb_codec \<Rightarrow> u8 \<Rightarrow> bool" where
  "isKeyframeSlice codec nalType \<longleftrightarrow>
     (if codec = AnnexbH264 then nalType = kH264IdrSlice
      else nalType \<ge> kHevcBlaWLp \<and> nalType \<le> kHevcCraNut)"

subsection \<open>Splitting\<close>

text \<open>The scanning loops: the first index from \<open>index\<close> on that starts a code, and its length.\<close>

function annexb_scan :: "bytes \<Rightarrow> nat \<Rightarrow> (nat \<times> nat) option" where
  "annexb_scan data index =
     (if index < length data then
        (case startCodeAt data index of
           Some codeLength \<Rightarrow> Some (index, codeLength)
         | None \<Rightarrow> annexb_scan data (Suc index))
      else None)"
  by pat_completeness auto
termination
  by (relation "measure (\<lambda>(data, index). length data - index)") auto

declare annexb_scan.simps [simp del]

lemma startCodeAt_length: "startCodeAt data i = Some c \<Longrightarrow> 3 \<le> c \<and> i + c \<le> length data"
  by (auto simp: startCodeAt_def split: if_splits)

lemma annexb_scan_Some:
  "annexb_scan data i = Some (j, c) \<Longrightarrow>
     i \<le> j \<and> startCodeAt data j = Some c \<and> (\<forall>k. i \<le> k \<and> k < j \<longrightarrow> startCodeAt data k = None)"
proof (induction data i rule: annexb_scan.induct)
  case (1 data i)
  show ?case
  proof (cases "i < length data \<and> startCodeAt data i = None")
    case True
    then have "annexb_scan data (Suc i) = Some (j, c)"
      using "1.prems" by (simp add: annexb_scan.simps[of data i])
    with "1.IH" True show ?thesis by (metis Suc_leI le_neq_implies_less le_Suc_eq not_less_eq_eq)
  next
    case False
    then show ?thesis
      using "1.prems" by (auto simp: annexb_scan.simps[of data i] split: if_splits option.splits)
  qed
qed

lemma annexb_scan_None:
  "annexb_scan data i = None \<Longrightarrow> i \<le> k \<Longrightarrow> startCodeAt data k = None"
proof (induction data i rule: annexb_scan.induct)
  case (1 data i)
  have out: "\<not> k < length data \<Longrightarrow> startCodeAt data k = None"
    by (auto simp: startCodeAt_def)
  show ?case
  proof (cases "i < length data")
    case True
    then have "startCodeAt data i = None" "annexb_scan data (Suc i) = None"
      using "1.prems" by (auto simp: annexb_scan.simps[of data i] split: option.splits)
    then show ?thesis
      using "1.IH"[OF True] "1.prems"(2) by (cases "i = k") auto
  qed (use "1.prems" out in auto)
qed

lemma annexb_scanI:
  assumes "i \<le> j" and "startCodeAt data j = Some c"
    and "\<And>k. i \<le> k \<Longrightarrow> k < j \<Longrightarrow> startCodeAt data k = None"
  shows "annexb_scan data i = Some (j, c)"
proof (cases "annexb_scan data i")
  case None
  with assms annexb_scan_None[OF None, of j] show ?thesis by simp
next
  case (Some p)
  then obtain j' c' where p: "annexb_scan data i = Some (j', c')" by (cases p) auto
  from annexb_scan_Some[OF p] assms show ?thesis
    by (metis linorder_neqE_nat option.distinct(1) option.inject p)
qed

text \<open>
  The outer loop of \<open>split\<close>, entered with \<open>index\<close> at a start code of length \<open>codeLength\<close>;
  only their sum, the start of the NAL, matters to the body.
\<close>

function nal_loop :: "bytes \<Rightarrow> annexb_codec \<Rightarrow> nat \<Rightarrow> nal list \<Rightarrow> nal list" where
  "nal_loop data codec nalStart out =
     (if nalStart \<ge> length data then out
      else
        let found = annexb_scan data nalStart;
            nxt = (case found of Some (nxt, _) \<Rightarrow> nxt | None \<Rightarrow> length data);
            n = \<lparr>nal_offset = nalStart, nal_size = nxt - nalStart,
                 nal_type = nalTypeOf codec (data ! nalStart)\<rparr>;
            out = (if nal_size n > 0 then out @ [n] else out)
        in (case found of
              None \<Rightarrow> out
            | Some (nxt, nextCodeLength) \<Rightarrow> nal_loop data codec (nxt + nextCodeLength) out))"
  by pat_completeness auto
termination
proof (relation "measure (\<lambda>(data, codec, nalStart, out). length data - nalStart)", goal_cases)
  case (2 data codec nalStart out found nxt n out' p nxt' c)
  then have "annexb_scan data nalStart = Some (nxt', c)" by simp
  from annexb_scan_Some[OF this] startCodeAt_length[of data nxt' c] 2(1) show ?case by auto
qed simp

declare nal_loop.simps [simp del]

definition annexb_split :: "bytes \<Rightarrow> annexb_codec \<Rightarrow> bool \<times> nal list" where
  "annexb_split data codec =
     (if length data < 4 then (False, [])
      else case annexb_scan data 0 of
        None \<Rightarrow> (False, [])
      | Some (index, codeLength) \<Rightarrow>
          (let out = nal_loop data codec (index + codeLength) [] in (out \<noteq> [], out)))"

subsection \<open>Inspection\<close>

definition emptyReport :: access_unit_report where
  "emptyReport = \<lparr>isAnnexB = False, nalCount = 0, hasParameterSets = False, hasVideoSlice = False,
     hasKeyframeSlice = False, isSelfContainedKeyframe = False, decodableFromHere = False\<rparr>"

record inspect_state =
  is_report :: access_unit_report
  is_sps :: bool
  is_pps :: bool
  is_vps :: bool
  is_before :: bool

definition allSets :: "annexb_codec \<Rightarrow> inspect_state \<Rightarrow> bool" where
  "allSets codec s =
     (if codec = AnnexbH264 then is_sps s \<and> is_pps s else is_vps s \<and> is_sps s \<and> is_pps s)"

definition inspect_nal :: "annexb_codec \<Rightarrow> inspect_state \<Rightarrow> nal \<Rightarrow> inspect_state" where
  "inspect_nal codec s n =
     (let s = (if isVideoSlice codec (nal_type n)
               then s\<lparr>is_report := (is_report s)\<lparr>hasVideoSlice := True\<rparr>\<rparr> else s);
          s = (if codec = AnnexbH264 then
                 s\<lparr>is_sps := is_sps s \<or> nal_type n = kH264Sps,
                   is_pps := is_pps s \<or> nal_type n = kH264Pps\<rparr>
               else
                 s\<lparr>is_vps := is_vps s \<or> nal_type n = kHevcVps,
                   is_sps := is_sps s \<or> nal_type n = kHevcSps,
                   is_pps := is_pps s \<or> nal_type n = kHevcPps\<rparr>)
      in if isKeyframeSlice codec (nal_type n) then
           let s = (if \<not> hasKeyframeSlice (is_report s) then s\<lparr>is_before := allSets codec s\<rparr> else s)
           in s\<lparr>is_report := (is_report s)\<lparr>hasKeyframeSlice := True\<rparr>\<rparr>
         else s)"

definition inspect :: "bytes \<Rightarrow> annexb_codec \<Rightarrow> access_unit_report" where
  "inspect data codec =
     (case annexb_split data codec of (ok, nals) \<Rightarrow>
        let report = emptyReport\<lparr>isAnnexB := ok\<rparr> in
        if \<not> ok then report
        else
          let report = report\<lparr>nalCount := int (length nals)\<rparr>;
              s = foldl (inspect_nal codec)
                    \<lparr>is_report = report, is_sps = False, is_pps = False, is_vps = False,
                     is_before = False\<rparr> nals;
              report = is_report s;
              report = report\<lparr>hasParameterSets := allSets codec s\<rparr>;
              report = report\<lparr>isSelfContainedKeyframe := hasKeyframeSlice report \<and> is_before s\<rparr>
          in report\<lparr>decodableFromHere :=
               \<not> hasKeyframeSlice report \<or> isSelfContainedKeyframe report\<rparr>)"

subsection \<open>The units found are the maximal runs between start codes\<close>

definition nal_at :: "bytes \<Rightarrow> annexb_codec \<Rightarrow> nat \<Rightarrow> nat \<Rightarrow> nal list" where
  "nal_at data codec start stop =
     (if start < stop then [\<lparr>nal_offset = start, nal_size = stop - start,
        nal_type = nalTypeOf codec (data ! start)\<rparr>] else [])"

lemma nal_loop_step:
  "nal_loop data codec s out =
     (if s \<ge> length data then out
      else case annexb_scan data s of
        None \<Rightarrow> out @ nal_at data codec s (length data)
      | Some (j, c) \<Rightarrow> nal_loop data codec (j + c) (out @ nal_at data codec s j))"
  by (subst nal_loop.simps) (auto simp: nal_at_def Let_def split: option.splits)

lemma scan_progress:
  "annexb_scan data s = Some (j, c) \<Longrightarrow> length data - (j + c) < length data - s"
  using annexb_scan_Some[of data s j c] startCodeAt_length[of data j c] by auto

lemma nal_loop_append: "nal_loop data codec s out = out @ nal_loop data codec s []"
proof (induction "length data - s" arbitrary: s out rule: less_induct)
  case less
  have "nal_loop data codec (j + c) (out @ nal_at data codec s j) =
      out @ nal_loop data codec (j + c) (nal_at data codec s j)"
    if "annexb_scan data s = Some (j, c)" for j c
    using less[OF scan_progress[OF that]] by (metis append.assoc)
  then show ?case
    by (simp add: nal_loop_step[of data codec s out] nal_loop_step[of data codec s "[]"]
        split: option.splits)
qed

lemma nal_loop_eq:
  "nal_loop data codec s [] =
     (if s \<ge> length data then []
      else case annexb_scan data s of
        None \<Rightarrow> nal_at data codec s (length data)
      | Some (j, c) \<Rightarrow> nal_at data codec s j @ nal_loop data codec (j + c) [])"
  by (subst nal_loop_step) (simp split: option.splits, metis nal_loop_append)

text \<open>
  A well-placed unit: non-empty, inside the data, its type read from its first byte, preceded
  by a start code, free of start codes, and ended by one or by the end of the data.
\<close>

definition endsCodeAt :: "bytes \<Rightarrow> nat \<Rightarrow> bool" where
  "endsCodeAt data i \<longleftrightarrow> (\<exists>j c. startCodeAt data j = Some c \<and> j + c = i)"

definition nal_wf :: "bytes \<Rightarrow> annexb_codec \<Rightarrow> nal \<Rightarrow> bool" where
  "nal_wf data codec n \<longleftrightarrow>
     nal_size n > 0 \<and> nal_offset n + nal_size n \<le> length data \<and>
     nal_type n = nalTypeOf codec (data ! nal_offset n) \<and>
     endsCodeAt data (nal_offset n) \<and>
     (\<forall>k. nal_offset n \<le> k \<and> k < nal_offset n + nal_size n \<longrightarrow> startCodeAt data k = None) \<and>
     (nal_offset n + nal_size n = length data \<or> startCodeAt data (nal_offset n + nal_size n) \<noteq> None)"

definition nal_before :: "nal \<Rightarrow> nal \<Rightarrow> bool" where
  "nal_before m n \<longleftrightarrow> nal_offset m + nal_size m < nal_offset n"

lemma nal_loop_wf:
  assumes "endsCodeAt data s"
  shows "list_all (nal_wf data codec) (nal_loop data codec s []) \<and>
     sorted_wrt nal_before (nal_loop data codec s []) \<and>
     list_all (\<lambda>n. s \<le> nal_offset n) (nal_loop data codec s [])"
  using assms
proof (induction "length data - s" arbitrary: s rule: less_induct)
  case less
  show ?case
  proof (cases "s < length data")
    case False
    then show ?thesis by (simp add: nal_loop_eq[of data codec s])
  next
    case True
    show ?thesis
    proof (cases "annexb_scan data s")
      case None
      then show ?thesis
        using True less.prems annexb_scan_None[OF None]
        by (simp add: nal_loop_eq[of data codec s] nal_at_def nal_wf_def)
    next
      case (Some p)
      then obtain j c where jc: "annexb_scan data s = Some (j, c)" by (cases p) auto
      note sc = annexb_scan_Some[OF jc]
      then have len: "3 \<le> c" "j + c \<le> length data" using startCodeAt_length by blast+
      have "endsCodeAt data (j + c)" using sc by (auto simp: endsCodeAt_def)
      note IH = less.hyps[OF scan_progress[OF jc] this]
      have "list_all (nal_wf data codec) (nal_at data codec s j)"
        using sc len less.prems by (auto simp: nal_at_def nal_wf_def)
      moreover have "list_all (\<lambda>n. s \<le> nal_offset n) (nal_loop data codec (j + c) [])"
        using IH sc by (auto simp: list_all_iff)
      ultimately show ?thesis
        using True jc IH sc len
        by (auto simp: nal_loop_eq[of data codec s] sorted_wrt_append nal_at_def nal_before_def
            list_all_iff)
    qed
  qed
qed

text \<open>
  Every NAL \<open>split\<close> reports is a maximal non-empty run of bytes after a start code:
  inside the payload, without a start code in it, ended by the next one or by the end of
  the payload, with the type of its own first byte; the NALs come in order and disjoint,
  and \<open>split\<close> returns true exactly when it reports one.
\<close>

theorem annexb_split_sound:
  "list_all (nal_wf data codec) (snd (annexb_split data codec)) \<and>
   sorted_wrt nal_before (snd (annexb_split data codec)) \<and>
   fst (annexb_split data codec) = (snd (annexb_split data codec) \<noteq> [])"
proof (cases "length data < 4 \<or> annexb_scan data 0 = None")
  case True
  then show ?thesis by (auto simp: annexb_split_def)
next
  case False
  then obtain j c where jc: "annexb_scan data 0 = Some (j, c)" by auto
  then have "endsCodeAt data (j + c)"
    using annexb_scan_Some[OF jc] by (auto simp: endsCodeAt_def)
  from nal_loop_wf[OF this, of codec] False jc show ?thesis
    by (simp add: annexb_split_def Let_def)
qed

subsection \<open>Splitting undoes joining\<close>

text \<open>
  What an encoder emits: each NAL behind a 3- or 4-byte start code.  A NAL is clean when
  emulation prevention has done its work: no start code inside, no trailing zero byte.
\<close>

definition start_code :: "bool \<Rightarrow> bytes" where
  "start_code four = (if four then [0, 0, 0, 1] else [0, 0, 1])"

fun annexb_join :: "(bool \<times> bytes) list \<Rightarrow> bytes" where
  "annexb_join [] = []"
| "annexb_join ((four, p) # ps) = start_code four @ p @ annexb_join ps"

definition nal_clean :: "bytes \<Rightarrow> bool" where
  "nal_clean p \<longleftrightarrow> p \<noteq> [] \<and> last p \<noteq> 0 \<and> annexb_scan p 0 = None"

definition nal_payload :: "bytes \<Rightarrow> nal \<Rightarrow> bytes" where
  "nal_payload data n = take (nal_size n) (drop (nal_offset n) data)"

lemma startCodeAt_shift: "startCodeAt (pre @ xs) (length pre + k) = startCodeAt xs k"
  by (simp add: startCodeAt_def nth_append)

lemma startCodeAt_join:
  "startCodeAt (start_code four @ xs) 0 = Some (length (start_code four))"
  by (simp add: startCodeAt_def start_code_def)

lemma startCodeAt_clean_append:
  assumes "nal_clean p" and "k < length p" and "rest = [] \<or> rest ! 0 = 0"
  shows "startCodeAt (p @ rest) k = None"
proof -
  have none: "startCodeAt p k = None"
    using assms(1) annexb_scan_None[of p 0 k] by (simp add: nal_clean_def)
  have last: "p ! (length p - 1) \<noteq> 0"
    using assms(1) by (metis nal_clean_def last_conv_nth)
  consider "k + 3 < length p" | "k + 3 = length p" | "k + 2 = length p" | "k + 1 = length p"
    using assms(2) by linarith
  then show ?thesis
  proof cases
    case 1
    then show ?thesis using none by (auto simp: startCodeAt_def nth_append split: if_splits)
  next
    case 2
    then have l: "length p - 1 = k + 2" by simp
    from 2 have "\<not> (p ! k = 0 \<and> p ! (k + 1) = 0 \<and> p ! (k + 2) = 1)"
      using none by (auto simp: startCodeAt_def split: if_splits)
    moreover have "p ! (k + 2) \<noteq> 0" using last by (simp only: l not_False_eq_True)
    ultimately show ?thesis using 2 by (auto simp: startCodeAt_def nth_append)
  next
    case 3
    then have l: "length p - 1 = k + 1" by simp
    have "p ! (k + 1) \<noteq> 0" using last by (simp only: l not_False_eq_True)
    then show ?thesis using 3 by (auto simp: startCodeAt_def nth_append)
  next
    case 4
    then have "p ! k \<noteq> 0" using last by (metis add_diff_cancel_right')
    then show ?thesis using 4 by (auto simp: startCodeAt_def nth_append)
  qed
qed

lemma annexb_join_first: "annexb_join ps = [] \<or> annexb_join ps ! 0 = 0"
  by (cases ps rule: annexb_join.cases) (auto simp: start_code_def)

lemma scan_clean_None:
  assumes "nal_clean p"
  shows "annexb_scan (pre @ p) (length pre) = None"
proof (rule ccontr)
  assume "annexb_scan (pre @ p) (length pre) \<noteq> None"
  then obtain j c where jc: "annexb_scan (pre @ p) (length pre) = Some (j, c)" by auto
  from annexb_scan_Some[OF jc] have "length pre \<le> j" "startCodeAt (pre @ p) j = Some c" by auto
  then have "startCodeAt p (j - length pre) = Some c"
    using startCodeAt_shift[of pre p "j - length pre"] by simp
  then show False
    using assms annexb_scan_None[of p 0 "j - length pre"] by (simp add: nal_clean_def)
qed

lemma scan_clean_join:
  assumes "nal_clean p"
  shows "annexb_scan (pre @ p @ start_code four @ xs) (length pre) =
     Some (length pre + length p, length (start_code four))"
proof (rule annexb_scanI)
  show "startCodeAt (pre @ p @ start_code four @ xs) (length pre + length p) =
      Some (length (start_code four))"
    using startCodeAt_shift[of "pre @ p" "start_code four @ xs" 0] startCodeAt_join by simp
next
  fix k assume "length pre \<le> k" and k: "k < length pre + length p"
  then obtain i where i: "k = length pre + i" by (metis le_add_diff_inverse)
  have "startCodeAt (p @ start_code four @ xs) i = None"
    using k i by (intro startCodeAt_clean_append[OF assms]) (auto simp: start_code_def)
  then show "startCodeAt (pre @ p @ start_code four @ xs) k = None"
    by (simp only: i startCodeAt_shift)
qed simp

lemma nal_at_payload:
  "p \<noteq> [] \<Longrightarrow> map (nal_payload (pre @ p @ xs))
     (nal_at (pre @ p @ xs) codec (length pre) (length pre + length p)) = [p]"
  by (simp add: nal_at_def nal_payload_def)

lemma nal_loop_join:
  assumes "nal_clean p" and "list_all (nal_clean \<circ> snd) ps"
  shows "map (nal_payload (pre @ p @ annexb_join ps))
     (nal_loop (pre @ p @ annexb_join ps) codec (length pre) []) = p # map snd ps"
  using assms
proof (induction ps arbitrary: pre p)
  case Nil
  have "nal_loop (pre @ p) codec (length pre) [] =
      nal_at (pre @ p) codec (length pre) (length pre + length p)"
    using Nil scan_clean_None[OF Nil(1)]
    by (subst nal_loop_eq) (simp add: nal_clean_def)
  then show ?case
    using nal_at_payload[of p pre "[]"] Nil by (simp add: nal_clean_def)
next
  case (Cons q ps)
  obtain four r where q: "q = (four, r)" by (cases q)
  let ?data = "pre @ p @ start_code four @ r @ annexb_join ps"
  let ?pre = "pre @ p @ start_code four"
  have "nal_loop ?data codec (length pre) [] =
      nal_at ?data codec (length pre) (length pre + length p) @
      nal_loop ?data codec (length ?pre) []"
    using Cons.prems scan_clean_join[OF Cons.prems(1), of pre four "r @ annexb_join ps"]
    by (subst nal_loop_eq) (simp add: nal_clean_def add.assoc)
  moreover have "map (nal_payload (?pre @ r @ annexb_join ps))
      (nal_loop (?pre @ r @ annexb_join ps) codec (length ?pre) []) = r # map snd ps"
    using Cons.prems by (intro Cons.IH) (simp_all add: q)
  ultimately show ?case
    using nal_at_payload[of p pre "start_code four @ r @ annexb_join ps"] Cons.prems
    by (simp add: q nal_clean_def)
qed

text \<open>
  An access unit assembled from clean NALs, with 3- and 4-byte start codes mixed
  freely, splits back into exactly those NALs, in order.
\<close>

theorem annexb_split_join:
  assumes "list_all (nal_clean \<circ> snd) ps" and "ps \<noteq> []" and "annexb_join ps = data"
  shows "fst (annexb_split data codec) \<and>
     map (nal_payload data) (snd (annexb_split data codec)) = map snd ps"
proof -
  obtain four p qs where ps: "ps = (four, p) # qs" using assms(2) by (cases ps) auto
  have scan: "annexb_scan data 0 = Some (0, length (start_code four))"
    using startCodeAt_join[of four "p @ annexb_join qs"] assms(3)
    by (intro annexb_scanI) (auto simp: ps)
  have loop: "map (nal_payload data) (nal_loop data codec (length (start_code four)) []) = map snd ps"
    using nal_loop_join[of p qs "start_code four" codec] assms by (simp add: ps)
  then have "nal_loop data codec (length (start_code four)) [] \<noteq> []"
    by (auto simp: ps)
  moreover have "\<not> length data < 4"
    using assms by (auto simp: ps start_code_def nal_clean_def neq_Nil_conv split: if_splits)
  ultimately show ?thesis
    using loop by (simp add: annexb_split_def scan Let_def)
qed

theorem annexb_split_join_witness:
  "fst (annexb_split [0, 0, 0, 1, 103, 66, 0, 0, 1, 104, 5] AnnexbH264) \<and>
   map (nal_payload [0, 0, 0, 1, 103, 66, 0, 0, 1, 104, 5])
     (snd (annexb_split [0, 0, 0, 1, 103, 66, 0, 0, 1, 104, 5] AnnexbH264)) =
   map snd [(True, [103, 66]), (False, [104, 5])]"
  by (rule annexb_split_join)
    (simp_all add: nal_clean_def annexb_scan.simps startCodeAt_def start_code_def)

subsection \<open>The report\<close>

definition requiredSets :: "annexb_codec \<Rightarrow> u8 set" where
  "requiredSets codec =
     (if codec = AnnexbH264 then {kH264Sps, kH264Pps} else {kHevcVps, kHevcSps, kHevcPps})"

text \<open>What the loop of \<open>inspect\<close> has established after the NAL types \<open>ts\<close>.\<close>

definition inspected :: "annexb_codec \<Rightarrow> access_unit_report \<Rightarrow> u8 list \<Rightarrow> inspect_state" where
  "inspected codec r0 ts =
     \<lparr>is_report = r0\<lparr>hasVideoSlice := list_ex (isVideoSlice codec) ts,
                     hasKeyframeSlice := list_ex (isKeyframeSlice codec) ts\<rparr>,
      is_sps = (if codec = AnnexbH264 then kH264Sps else kHevcSps) \<in> set ts,
      is_pps = (if codec = AnnexbH264 then kH264Pps else kHevcPps) \<in> set ts,
      is_vps = (codec = AnnexbHevc \<and> kHevcVps \<in> set ts),
      is_before = (list_ex (isKeyframeSlice codec) ts \<and>
        requiredSets codec \<subseteq> set (takeWhile (\<lambda>t. \<not> isKeyframeSlice codec t) ts))\<rparr>"

lemma allSets_inspected: "allSets codec (inspected codec r0 ts) = (requiredSets codec \<subseteq> set ts)"
  by (cases codec) (auto simp: allSets_def inspected_def requiredSets_def)

lemma parameter_sets_not_key:
  "t \<in> requiredSets codec \<Longrightarrow> \<not> isKeyframeSlice codec t"
  by (auto simp: requiredSets_def isKeyframeSlice_def annexb_consts split: if_splits)

lemma annexb_codec_neq [simp]: "codec \<noteq> AnnexbH264 \<longleftrightarrow> codec = AnnexbHevc"
  by (cases codec) simp_all

lemma takeWhile_no_key:
  "\<not> list_ex P ts \<Longrightarrow> takeWhile (\<lambda>t. \<not> P t) (ts @ [t]) = (if P t then ts else ts @ [t])"
  by (induction ts) auto

lemma takeWhile_key:
  "list_ex P ts \<Longrightarrow> takeWhile (\<lambda>t. \<not> P t) (ts @ us) = takeWhile (\<lambda>t. \<not> P t) ts"
  by (induction ts) auto

lemma inspect_nal_inspected:
  "inspect_nal codec (inspected codec r0 ts) n = inspected codec r0 (ts @ [nal_type n])"
proof (cases "isKeyframeSlice codec (nal_type n)")
  case True
  then have "nal_type n \<notin> requiredSets codec"
    using parameter_sets_not_key by blast
  with True show ?thesis
    by (cases codec; cases "list_ex (isKeyframeSlice codec) ts")
      (simp_all add: inspect_nal_def inspected_def Let_def allSets_def requiredSets_def
        takeWhile_key takeWhile_no_key, auto)
next
  case False
  then show ?thesis
    by (cases codec; cases "list_ex (isKeyframeSlice codec) ts")
      (simp_all add: inspect_nal_def inspected_def Let_def takeWhile_key, auto)
qed

lemma foldl_inspect_nal:
  "foldl (inspect_nal codec) (inspected codec r0 ts) ns = inspected codec r0 (ts @ map nal_type ns)"
  by (induction ns arbitrary: ts) (simp_all add: inspect_nal_inspected)

text \<open>
  The report says what the access unit is.  A payload with no NAL yields the empty
  report.  Otherwise, over the NAL types in order: there is a video slice or a keyframe
  slice exactly when some type is one, the parameter sets are there when all of the
  codec's are, and the unit is a self-contained keyframe exactly when it has a keyframe
  slice and every parameter set of the codec comes before the first one.
\<close>

theorem inspect_correct:
  "inspect data codec =
     (case annexb_split data codec of (ok, nals) \<Rightarrow>
        let ts = map nal_type nals;
            self = list_ex (isKeyframeSlice codec) ts \<and>
              requiredSets codec \<subseteq> set (takeWhile (\<lambda>t. \<not> isKeyframeSlice codec t) ts)
        in if ok then
             \<lparr>isAnnexB = True, nalCount = int (length nals),
              hasParameterSets = requiredSets codec \<subseteq> set ts,
              hasVideoSlice = list_ex (isVideoSlice codec) ts,
              hasKeyframeSlice = list_ex (isKeyframeSlice codec) ts,
              isSelfContainedKeyframe = self,
              decodableFromHere = (if list_ex (isKeyframeSlice codec) ts then self else True)\<rparr>
           else emptyReport)"
proof -
  obtain ok nals where split: "annexb_split data codec = (ok, nals)"
    by (cases "annexb_split data codec")
  let ?r0 = "emptyReport\<lparr>isAnnexB := ok, nalCount := int (length nals)\<rparr>"
  let ?s0 = "\<lparr>is_report = ?r0, is_sps = False, is_pps = False, is_vps = False, is_before = False\<rparr>"
  have "?s0 = inspected codec ?r0 []"
    by (simp add: inspected_def emptyReport_def requiredSets_def)
  then have "foldl (inspect_nal codec) ?s0 nals = inspected codec ?r0 (map nal_type nals)"
    by (simp add: foldl_inspect_nal)
  moreover have "inspect data codec =
     (let s = foldl (inspect_nal codec) ?s0 nals in
      if ok then (is_report s)\<lparr>hasParameterSets := allSets codec s,
          isSelfContainedKeyframe := hasKeyframeSlice (is_report s) \<and> is_before s,
          decodableFromHere := \<not> hasKeyframeSlice (is_report s) \<or>
            (hasKeyframeSlice (is_report s) \<and> is_before s)\<rparr>
      else emptyReport)"
    by (simp add: inspect_def split Let_def) (simp add: emptyReport_def)
  ultimately show ?thesis
    by (simp only: Let_def split prod.case allSets_inspected)
      (simp add: inspected_def emptyReport_def)
qed

end
