(* ===== verification/Double.thy ===== *)
theory Double
  imports Prelude Complex_Main
begin

text \<open>
  C++ \<open>double\<close> values as their IEEE 754 binary64 bit patterns, with what the sources use of
  them: \<open>memcpy\<close> to and from bits (the identity here), \<open>std::isfinite\<close>, comparison,
  conversion from integers, and the widening of binary16 and binary32.
\<close>

type_synonym f64 = u64

definition dbl_sign :: "f64 \<Rightarrow> bool" where
  "dbl_sign x \<longleftrightarrow> bit x 63"

definition dbl_exponent :: "f64 \<Rightarrow> nat" where
  "dbl_exponent x = unat x div 2 ^ 52 mod 2048"

definition dbl_mantissa :: "f64 \<Rightarrow> nat" where
  "dbl_mantissa x = unat x mod 2 ^ 52"

definition dbl_isfinite :: "f64 \<Rightarrow> bool" where
  "dbl_isfinite x \<longleftrightarrow> dbl_exponent x \<noteq> 2047"

definition dbl_isnan :: "f64 \<Rightarrow> bool" where
  "dbl_isnan x \<longleftrightarrow> dbl_exponent x = 2047 \<and> dbl_mantissa x \<noteq> 0"

text \<open>
  IEEE order on the patterns: magnitude bits with the sign, so that both zeros are key 0;
  a comparison with a NaN is false.
\<close>

definition dbl_key :: "f64 \<Rightarrow> int" where
  "dbl_key x = (let m = int (unat x mod 2 ^ 63) in if dbl_sign x then - m else m)"

definition dbl_eq :: "f64 \<Rightarrow> f64 \<Rightarrow> bool" where
  "dbl_eq x y \<longleftrightarrow> \<not> dbl_isnan x \<and> \<not> dbl_isnan y \<and> dbl_key x = dbl_key y"

definition dbl_less :: "f64 \<Rightarrow> f64 \<Rightarrow> bool" where
  "dbl_less x y \<longleftrightarrow> \<not> dbl_isnan x \<and> \<not> dbl_isnan y \<and> dbl_key x < dbl_key y"

definition dbl_zero :: f64 where
  "dbl_zero = 0"

definition dbl_one :: f64 where
  "dbl_one = 0x3FF0000000000000"

definition dbl_infinity :: f64 where
  "dbl_infinity = 0x7FF0000000000000"

definition dbl_quiet_nan :: f64 where
  "dbl_quiet_nan = 0x7FF8000000000000"

definition dbl_negate :: "f64 \<Rightarrow> f64" where
  "dbl_negate x = x XOR 0x8000000000000000"

subsection \<open>Exact and rounded values\<close>

fun log2n :: "nat \<Rightarrow> nat" where
  "log2n n = (if n < 2 then 0 else Suc (log2n (n div 2)))"

declare log2n.simps [simp del]

text \<open>The double \<open>m * 2 ^ e\<close>, for \<open>m < 2 ^ 53\<close> and a result in the normal range.\<close>

definition dbl_scaled :: "nat \<Rightarrow> int \<Rightarrow> f64" where
  "dbl_scaled m e =
     (if m = 0 then 0
      else let k = log2n m in
        word_of_nat (nat (e + int k + 1023) * 2 ^ 52 + (m * 2 ^ (52 - k) - 2 ^ 52)))"

text \<open>\<open>static_cast<double>\<close> of an unsigned integer: round to nearest, ties to even.\<close>

definition dbl_of_nat :: "nat \<Rightarrow> f64" where
  "dbl_of_nat n =
     (if n < 2 ^ 53 then dbl_scaled n 0
      else
        let k = log2n n - 52;
            q = n div 2 ^ k;
            r = n mod 2 ^ k;
            q = (if 2 * r > 2 ^ k \<or> (2 * r = 2 ^ k \<and> odd q) then q + 1 else q)
        in if q = 2 ^ 53 then dbl_scaled (2 ^ 52) (int k + 1) else dbl_scaled q (int k))"

definition dbl_of_uint64 :: "u64 \<Rightarrow> f64" where
  "dbl_of_uint64 v = dbl_of_nat (unat v)"

text \<open>\<open>int64_t\<close> is a 64-bit word read with \<^const>\<open>sint\<close>.\<close>

definition dbl_of_int64 :: "u64 \<Rightarrow> f64" where
  "dbl_of_int64 v =
     (if sint v < 0 then dbl_negate (dbl_of_nat (nat (- sint v))) else dbl_of_nat (nat (sint v)))"

subsection \<open>Widening\<close>

text \<open>
  \<open>halfToDouble\<close>: every product and sum of the source is exact, so the value
  \<open>(1 + mantissa / 1024) * 2 ^ (exponent - 15)\<close> is the double
  \<open>(1024 + mantissa) * 2 ^ (exponent - 25)\<close>.
\<close>

definition halfToDouble :: "u16 \<Rightarrow> f64" where
  "halfToDouble half =
     (let sign = drop_bit 15 half AND 1;
          exponent = unat (drop_bit 10 half AND 0x1F);
          mantissa = unat (half AND 0x3FF);
          magnitude =
            (if exponent = 0 then dbl_scaled mantissa (- 24)
             else if exponent = 31 then (if mantissa = 0 then dbl_infinity else dbl_quiet_nan)
             else dbl_scaled (1024 + mantissa) (int exponent - 15 - 10))
      in if sign \<noteq> 0 then dbl_negate magnitude else magnitude)"

text \<open>
  \<open>static_cast<double>(bitsToFloat(bits))\<close>: exact, subnormals included; a NaN keeps its
  payload and becomes quiet.
\<close>

definition floatBitsToDouble :: "u32 \<Rightarrow> f64" where
  "floatBitsToDouble bits =
     (let exponent = unat (drop_bit 23 bits AND 0xFF);
          mantissa = unat (bits AND 0x7FFFFF);
          magnitude =
            (if exponent = 0 then dbl_scaled mantissa (- 149)
             else if exponent = 255 then
               (if mantissa = 0 then dbl_infinity
                else dbl_quiet_nan OR word_of_nat (mantissa * 2 ^ 29))
             else dbl_scaled (2 ^ 23 + mantissa) (int exponent - 150))
      in if bit bits 31 then dbl_negate magnitude else magnitude)"

subsection \<open>The real value of a pattern\<close>

definition dbl_value :: "f64 \<Rightarrow> real" where
  "dbl_value x =
     (let m = (if dbl_exponent x = 0 then real (dbl_mantissa x) * 2 powi (- 1074)
               else real (2 ^ 52 + dbl_mantissa x) * 2 powi (int (dbl_exponent x) - 1075))
      in if dbl_sign x then - m else m)"

lemma log2n_bounds: "0 < n \<Longrightarrow> 2 ^ log2n n \<le> n \<and> n < 2 ^ Suc (log2n n)"
proof (induction n rule: log2n.induct)
  case (1 n)
  show ?case
  proof (cases "n < 2")
    case True
    with 1 show ?thesis by (simp add: log2n.simps[of n])
  next
    case False
    with 1 have "2 ^ log2n (n div 2) \<le> n div 2 \<and> n div 2 < 2 ^ Suc (log2n (n div 2))" by simp
    with False show ?thesis by (simp add: log2n.simps[of n]) linarith
  qed
qed

lemma log2n_less: "0 < n \<Longrightarrow> n < 2 ^ k \<Longrightarrow> log2n n < k"
  using log2n_bounds[of n] by (meson le_less_trans power_less_imp_less_exp one_less_numeral_iff semiring_norm(76))

lemma unat_dbl_scaled:
  assumes "0 < m" and "m < 2 ^ 53" and "- 1022 \<le> e + int (log2n m)" and "e + int (log2n m) \<le> 1023"
  shows "unat (dbl_scaled m e) =
     nat (e + int (log2n m) + 1023) * 2 ^ 52 + (m * 2 ^ (52 - log2n m) - 2 ^ 52)"
    and "m * 2 ^ (52 - log2n m) - 2 ^ 52 < (2 ^ 52 :: nat)"
    and "2 ^ 52 \<le> m * 2 ^ (52 - log2n m)"
proof -
  let ?k = "log2n m"
  have k: "?k \<le> 52" using log2n_less[OF assms(1,2)] by simp
  have "2 ^ ?k * 2 ^ (52 - ?k) \<le> m * 2 ^ (52 - ?k)" "m * 2 ^ (52 - ?k) < 2 ^ Suc ?k * 2 ^ (52 - ?k)"
    using log2n_bounds[OF assms(1)] by (auto simp del: power_Suc)
  moreover have "(2::nat) ^ ?k * 2 ^ (52 - ?k) = 2 ^ 52" "(2::nat) ^ Suc ?k * 2 ^ (52 - ?k) = 2 ^ 53"
    using k by (simp_all flip: power_add)
  ultimately have b: "2 ^ 52 \<le> m * 2 ^ (52 - ?k)" "m * 2 ^ (52 - ?k) < 2 ^ 53" by metis+
  then show "m * 2 ^ (52 - ?k) - 2 ^ 52 < (2 ^ 52 :: nat)" "2 ^ 52 \<le> m * 2 ^ (52 - ?k)"
    by simp_all
  have "nat (e + int ?k + 1023) \<le> 2046" using assms(4) by simp
  then have "nat (e + int ?k + 1023) * 2 ^ 52 \<le> 2046 * 2 ^ 52" by (rule mult_le_mono1)
  then have "nat (e + int ?k + 1023) * 2 ^ 52 + (m * 2 ^ (52 - ?k) - 2 ^ 52) < 2 ^ LENGTH(64)"
    using b by simp
  then show "unat (dbl_scaled m e) =
     nat (e + int ?k + 1023) * 2 ^ 52 + (m * 2 ^ (52 - ?k) - 2 ^ 52)"
    using assms(1) unfolding dbl_scaled_def Let_def by (simp only: unat_word_of_nat if_False
        less_numeral_extra(3) neq0_conv[symmetric])
qed

lemma dbl_scaled_fields:
  assumes "0 < m" and "m < 2 ^ 53" and "- 1022 \<le> e + int (log2n m)" and "e + int (log2n m) \<le> 1023"
  shows "dbl_exponent (dbl_scaled m e) = nat (e + int (log2n m) + 1023)"
    and "dbl_mantissa (dbl_scaled m e) = m * 2 ^ (52 - log2n m) - 2 ^ 52"
    and "dbl_sign (dbl_scaled m e) = False"
proof -
  note u = unat_dbl_scaled[OF assms]
  have e: "nat (e + int (log2n m) + 1023) < 2048" using assms(4) by simp
  have d: "unat (dbl_scaled m e) div 2 ^ 52 = nat (e + int (log2n m) + 1023)"
    unfolding u(1) using u(2) by (subst div_mult_self3) (simp_all del: power_numeral)
  then show "dbl_exponent (dbl_scaled m e) = nat (e + int (log2n m) + 1023)"
    using e by (simp add: dbl_exponent_def)
  show "dbl_mantissa (dbl_scaled m e) = m * 2 ^ (52 - log2n m) - 2 ^ 52"
    unfolding dbl_mantissa_def u(1) using u(2) by (simp add: mod_mult_self3 del: power_numeral)
  have "nat (e + int (log2n m) + 1023) \<le> 2046" using assms(4) by simp
  then have "unat (dbl_scaled m e) < 2 ^ 63"
    unfolding u(1) using u(2) by (simp add: mult_le_mono1)
  then show "dbl_sign (dbl_scaled m e) = False"
    using unsigned_less[of "dbl_scaled m e"]
    by (metis bit_iff_odd bit_unsigned_iff dbl_sign_def div_less even_zero possible_bit_nat)
qed

lemma dbl_value_scaled:
  assumes "0 < m" and "m < 2 ^ 53" and "- 1022 \<le> e + int (log2n m)" and "e + int (log2n m) \<le> 1023"
  shows "dbl_value (dbl_scaled m e) = real m * 2 powi e"
proof (cases "e + int (log2n m) + 1023 = 0")
  case False
  have k: "log2n m \<le> 52" using log2n_less[OF assms(1,2)] by simp
  note f = dbl_scaled_fields[OF assms]
  have pos: "dbl_exponent (dbl_scaled m e) \<noteq> 0" using assms(3) False by (simp add: f)
  have "real (2 ^ 52 + dbl_mantissa (dbl_scaled m e)) = real m * 2 ^ (52 - log2n m)"
    using unat_dbl_scaled(3)[OF assms] by (simp add: f of_nat_diff)
  also have "\<dots> = real m * 2 powi (int 52 - int (log2n m))"
    using k by (simp add: power_int_def nat_diff_distrib')
  finally have "dbl_value (dbl_scaled m e) =
      real m * (2 powi (int 52 - int (log2n m)) * 2 powi (e + int (log2n m) + 1023 - 1075))"
    using pos assms(3) by (simp add: dbl_value_def f del: of_nat_add)
  also have "\<dots> = real m * 2 powi e"
    by (simp flip: power_int_add)
  finally show ?thesis .
qed (use assms(3) in simp)

lemma dbl_value_zero: "dbl_value 0 = 0"
  by (simp add: dbl_value_def dbl_exponent_def dbl_mantissa_def)

lemma dbl_negate_fields:
  "dbl_exponent (dbl_negate x) = dbl_exponent x" "dbl_mantissa (dbl_negate x) = dbl_mantissa x"
  "dbl_sign (dbl_negate x) \<longleftrightarrow> \<not> dbl_sign x"
proof -
  have low: "take_bit 63 (dbl_negate x) = take_bit 63 x"
    unfolding dbl_negate_def by (rule bit_word_eqI) (auto simp: bit_simps)
  have m: "unat (dbl_negate x) mod 2 ^ 63 = unat x mod 2 ^ 63"
    unfolding unat_mod_exp low ..
  have mm: "y mod 2 ^ 52 = y mod 2 ^ 63 mod 2 ^ 52"
    "y div 2 ^ 52 mod 2048 = y mod 2 ^ 63 div 2 ^ 52 mod 2048" for y :: nat
  proof -
    have "take_bit 52 y = take_bit 52 (take_bit 63 y)"
      "take_bit 11 (drop_bit 52 y) = take_bit 11 (drop_bit 52 (take_bit 63 y))"
      by (rule bit_eqI, auto simp: bit_simps)+
    then show "y mod 2 ^ 52 = y mod 2 ^ 63 mod 2 ^ 52"
      "y div 2 ^ 52 mod 2048 = y mod 2 ^ 63 div 2 ^ 52 mod 2048"
      unfolding take_bit_eq_mod drop_bit_eq_div by simp_all
  qed
  show "dbl_exponent (dbl_negate x) = dbl_exponent x" "dbl_mantissa (dbl_negate x) = dbl_mantissa x"
    unfolding dbl_exponent_def dbl_mantissa_def using m mm by metis+
  show "dbl_sign (dbl_negate x) \<longleftrightarrow> \<not> dbl_sign x"
    by (simp add: dbl_sign_def dbl_negate_def bit_simps)
qed

lemma dbl_value_negate: "dbl_value (dbl_negate x) = - dbl_value x"
  by (simp add: dbl_value_def dbl_negate_fields Let_def)

subsection \<open>Half precision\<close>

definition half_sign :: "u16 \<Rightarrow> bool" where
  "half_sign h \<longleftrightarrow> 2 ^ 15 \<le> unat h"

definition half_exponent :: "u16 \<Rightarrow> nat" where
  "half_exponent h = unat h div 2 ^ 10 mod 32"

definition half_mantissa :: "u16 \<Rightarrow> nat" where
  "half_mantissa h = unat h mod 2 ^ 10"

text \<open>The value IEEE 754 gives a binary16 pattern with a finite exponent.\<close>

definition half_value :: "u16 \<Rightarrow> real" where
  "half_value h =
     (let m = (if half_exponent h = 0 then real (half_mantissa h) / 2 ^ 10 * 2 powi (- 14)
               else (1 + real (half_mantissa h) / 2 ^ 10) * 2 powi (int (half_exponent h) - 15))
      in if half_sign h then - m else m)"

lemma and_mask_nat: "unat (x AND mask n) = unat (x :: 'a::len word) mod 2 ^ n"
  by (simp add: unat_mod_exp flip: take_bit_eq_mask)

lemma half_fields:
  "unat (h AND 0x3FF) = half_mantissa h"
  "unat (drop_bit 10 h AND 0x1F) = half_exponent h"
  "(drop_bit 15 h AND 1 \<noteq> 0) = half_sign h" for h :: u16
proof -
  have m: "(0x3FF :: u16) = mask 10" "(0x1F :: u16) = mask 5" "(1 :: u16) = mask 1"
    by (simp_all add: mask_eq_exp_minus_1)
  have d: "unat (drop_bit n h) = unat h div 2 ^ n" for n
    by (rule trans[OF unat_drop_bit_eq drop_bit_eq_div])
  show "unat (h AND 0x3FF) = half_mantissa h"
    unfolding m(1) by (simp only: and_mask_nat half_mantissa_def)
  show "unat (drop_bit 10 h AND 0x1F) = half_exponent h"
    unfolding m(2) by (simp only: and_mask_nat half_exponent_def d) simp
  have "(drop_bit 15 h AND 1 \<noteq> 0) \<longleftrightarrow> unat (drop_bit 15 h AND 1) \<noteq> 0"
    by (simp flip: unat_eq_0)
  also have "\<dots> \<longleftrightarrow> unat h div 2 ^ 15 mod 2 \<noteq> 0"
    unfolding m(3) by (simp only: and_mask_nat d) simp
  also have "\<dots> \<longleftrightarrow> half_sign h"
  proof -
    have "unat h < 2 ^ 16" using unsigned_less[of h] by simp
    then have "unat h div 2 ^ 15 < 2" by (simp add: div_less_iff_less_mult)
    then have "unat h div 2 ^ 15 mod 2 \<noteq> 0 \<longleftrightarrow> 1 \<le> unat h div 2 ^ 15" by simp linarith
    also have "\<dots> \<longleftrightarrow> half_sign h"
      unfolding half_sign_def using div_greater_zero_iff[of "unat h" "2 ^ 15"] by (simp add: Suc_le_eq)
    finally show ?thesis .
  qed
  finally show "(drop_bit 15 h AND 1 \<noteq> 0) = half_sign h" .
qed

text \<open>
  The widening of binary16 is exact.  For every half-precision pattern that is not
  infinite or NaN, subnormals and both zeros included, the double it decodes to has the
  value IEEE 754 gives the pattern; the infinities become the double infinities of the
  same sign, and a NaN becomes a NaN.
\<close>

theorem halfToDouble_exact:
  "(if half_exponent h = 31
    then dbl_exponent (halfToDouble h) = 2047 \<and>
         (dbl_mantissa (halfToDouble h) = 0 \<longleftrightarrow> half_mantissa h = 0)
    else dbl_isfinite (halfToDouble h) \<and> dbl_value (halfToDouble h) = half_value h) \<and>
   (dbl_sign (halfToDouble h) \<longleftrightarrow> half_sign h)"
proof -
  define mag where "mag = (if half_exponent h = 0 then dbl_scaled (half_mantissa h) (- 24)
      else if half_exponent h = 31 then (if half_mantissa h = 0 then dbl_infinity else dbl_quiet_nan)
      else dbl_scaled (1024 + half_mantissa h) (int (half_exponent h) - 15 - 10))"
  have eq: "halfToDouble h = (if half_sign h then dbl_negate mag else mag)"
    unfolding halfToDouble_def mag_def Let_def by (simp only: half_fields)
  have ml: "half_mantissa h < 1024" by (simp add: half_mantissa_def)
  have el: "half_exponent h < 32" by (simp add: half_exponent_def)
  show ?thesis
  proof (cases "half_exponent h = 31")
    case True
    then have "dbl_exponent mag = 2047 \<and> (dbl_mantissa mag = 0 \<longleftrightarrow> half_mantissa h = 0) \<and> \<not> dbl_sign mag"
      by (simp add: mag_def dbl_infinity_def dbl_quiet_nan_def dbl_exponent_def dbl_mantissa_def
          dbl_sign_def)
    with True show ?thesis by (simp add: eq dbl_negate_fields)
  next
    case False
    have "dbl_isfinite mag \<and> \<not> dbl_sign mag \<and>
        dbl_value mag = (if half_exponent h = 0 then real (half_mantissa h) / 2 ^ 10 * 2 powi (- 14)
          else (1 + real (half_mantissa h) / 2 ^ 10) * 2 powi (int (half_exponent h) - 15))"
    proof (cases "half_exponent h = 0")
      case True
      show ?thesis
      proof (cases "half_mantissa h = 0")
        case True
        then show ?thesis
          using \<open>half_exponent h = 0\<close>
          by (simp add: mag_def dbl_scaled_def dbl_value_zero dbl_isfinite_def dbl_exponent_def dbl_sign_def)
      next
        case False
        then have pos: "0 < half_mantissa h" by simp
        have "half_mantissa h < 2 ^ 10" using ml by simp
        from log2n_less[OF pos this] have k: "log2n (half_mantissa h) < 10" .
        have mag: "mag = dbl_scaled (half_mantissa h) (- 24)" using True by (simp add: mag_def)
        have b: "half_mantissa h < 2 ^ 53" "- 1022 \<le> - 24 + int (log2n (half_mantissa h))"
          "- 24 + int (log2n (half_mantissa h)) \<le> 1023" using ml k by simp_all
        show ?thesis
          using dbl_scaled_fields[OF pos b] dbl_value_scaled[OF pos b] True k
          by (simp add: mag dbl_isfinite_def power_int_def field_simps)
      qed
    next
      case e: False
      let ?m = "1024 + half_mantissa h"
      have "2 ^ 10 \<le> ?m" "?m < 2 ^ 11" using ml by simp_all
      moreover have "2 ^ log2n ?m \<le> ?m" "?m < 2 ^ Suc (log2n ?m)" using log2n_bounds[of ?m] by simp_all
      ultimately have "(2::nat) ^ 10 < 2 ^ Suc (log2n ?m)" "(2::nat) ^ log2n ?m < 2 ^ 11" by linarith+
      then have "10 < Suc (log2n ?m)" "log2n ?m < 11"
        using nat_power_less_imp_less[of 2 10 "Suc (log2n ?m)"]
          nat_power_less_imp_less[of 2 "log2n ?m" 11] by (simp_all only: zero_less_numeral)
      then have k: "log2n ?m = 10" by simp
      have mag: "mag = dbl_scaled ?m (int (half_exponent h) - 15 - 10)"
        using e False by (simp add: mag_def)
      have b: "0 < ?m" "?m < 2 ^ 53" "- 1022 \<le> int (half_exponent h) - 15 - 10 + int (log2n ?m)"
        "int (half_exponent h) - 15 - 10 + int (log2n ?m) \<le> 1023" using ml el k by simp_all
      have "real ?m * 2 powi (int (half_exponent h) - 15 - 10) =
          (1 + real (half_mantissa h) / 2 ^ 10) * 2 powi (int (half_exponent h) - 15)"
        by (simp add: power_int_diff field_simps)
      then show ?thesis
        using dbl_scaled_fields[OF b] dbl_value_scaled[OF b] e el k
        by (simp add: mag dbl_isfinite_def)
    qed
    with False show ?thesis
      by (simp add: eq dbl_negate_fields dbl_value_negate half_value_def dbl_isfinite_def)
  qed
qed

end
