(* ===== verification/Cbor.thy ===== *)
theory Cbor
  imports Interfaces Double
begin

text \<open>
  The CBOR subset of \<open>core/include/rc/cbor.h\<close> and \<open>core/src/cbor.cpp\<close>: values, the canonical
  key order of the map, encoding with shortest-form heads, and the bounded decoder.  The
  decoder's \<open>Reader\<close> is its unread suffix.  A \<open>double\<close> is its bit pattern (theory \<open>Double\<close>);
  an \<open>int64_t\<close> is a 64-bit word read with \<^const>\<open>sint\<close>.
\<close>

subsection \<open>Errors and limits\<close>

datatype cbor_error = CborNone | Truncated | InvalidAdditionalInformation | NonMinimalInteger
  | InvalidUtf8 | UnsupportedMapKey | UnsupportedSimpleValue | NestingLimitExceeded
  | TrailingBytes | IntegerOverflow | DuplicateMapKey | CollectionTooLarge

fun cbor_errorText :: "cbor_error \<Rightarrow> string" where
  "cbor_errorText CborNone = ''none''"
| "cbor_errorText Truncated = ''truncated''"
| "cbor_errorText InvalidAdditionalInformation = ''invalid additional information''"
| "cbor_errorText NonMinimalInteger = ''non-minimal integer or length''"
| "cbor_errorText InvalidUtf8 = ''invalid utf-8''"
| "cbor_errorText UnsupportedMapKey = ''unsupported map key''"
| "cbor_errorText UnsupportedSimpleValue = ''unsupported simple value''"
| "cbor_errorText NestingLimitExceeded = ''nesting limit exceeded''"
| "cbor_errorText TrailingBytes = ''trailing bytes''"
| "cbor_errorText IntegerOverflow = ''integer overflow''"
| "cbor_errorText DuplicateMapKey = ''duplicate map key''"
| "cbor_errorText CollectionTooLarge = ''collection too large''"

definition kMaxNestingDepth :: nat where
  "kMaxNestingDepth = 32"

definition kMaxCollectionElements :: u64 where
  "kMaxCollectionElements = 100000"

subsection \<open>Maps in canonical key order\<close>

text \<open>\<open>std::string::compare\<close> as unsigned bytes, and the comparator of the map.\<close>

fun string_less :: "string \<Rightarrow> string \<Rightarrow> bool" where
  "string_less _ [] \<longleftrightarrow> False"
| "string_less [] (_ # _) \<longleftrightarrow> True"
| "string_less (x # xs) (y # ys) \<longleftrightarrow>
     (of_char x :: nat) < of_char y \<or> (x = y \<and> string_less xs ys)"

definition canonicalKeyLess :: "string \<Rightarrow> string \<Rightarrow> bool" where
  "canonicalKeyLess lhs rhs \<longleftrightarrow>
     (if length lhs \<noteq> length rhs then length lhs < length rhs else string_less lhs rhs)"

lemma string_less_irrefl [simp]: "\<not> string_less s s"
  by (induction s) auto

lemma string_less_trans: "string_less r s \<Longrightarrow> string_less s t \<Longrightarrow> string_less r t"
proof (induction r t arbitrary: s rule: string_less.induct)
  case (3 x xs y ys)
  then show ?case by (cases s) (auto)
qed (auto elim: string_less.elims)

lemma string_less_linear: "string_less s t \<or> s = t \<or> string_less t s"
proof (induction s t rule: string_less.induct)
  case (1 s)
  then show ?case by (cases s) auto
next
  case (3 x xs y ys)
  then show ?case using of_char_eq_iff[of x y, where 'a = nat] by auto
qed auto

lemma canonicalKeyLess_irrefl [simp]: "\<not> canonicalKeyLess k k"
  by (simp add: canonicalKeyLess_def)

lemma canonicalKeyLess_trans:
  "canonicalKeyLess j k \<Longrightarrow> canonicalKeyLess k l \<Longrightarrow> canonicalKeyLess j l"
  by (auto simp: canonicalKeyLess_def split: if_splits intro: string_less_trans)

lemma canonicalKeyLess_linear: "canonicalKeyLess j k \<or> j = k \<or> canonicalKeyLess k j"
  using string_less_linear[of j k] by (auto simp: canonicalKeyLess_def)

lemma canonicalKeyLess_asym: "canonicalKeyLess j k \<Longrightarrow> \<not> canonicalKeyLess k j"
  using canonicalKeyLess_trans by fastforce

text \<open>\<open>std::map\<close> as the list of its entries in iteration order.\<close>

type_synonym 'v smap = "(string \<times> 'v) list"

definition map_wf :: "'v smap \<Rightarrow> bool" where
  "map_wf m \<longleftrightarrow> sorted_wrt canonicalKeyLess (map fst m)"

fun map_assign :: "string \<Rightarrow> 'v \<Rightarrow> 'v smap \<Rightarrow> 'v smap" where
  "map_assign k v [] = [(k, v)]"
| "map_assign k v ((j, u) # m) =
     (if canonicalKeyLess k j then (k, v) # (j, u) # m
      else if k = j then (k, v) # m
      else (j, u) # map_assign k v m)"

definition map_emplace :: "string \<Rightarrow> 'v \<Rightarrow> 'v smap \<Rightarrow> 'v smap \<times> bool" where
  "map_emplace k v m =
     (case map_of m k of None \<Rightarrow> (map_assign k v m, True) | Some _ \<Rightarrow> (m, False))"

definition map_erase :: "string \<Rightarrow> 'v smap \<Rightarrow> 'v smap" where
  "map_erase k m = filter (\<lambda>p. fst p \<noteq> k) m"

lemma map_wf_Nil [simp]: "map_wf []"
  by (simp add: map_wf_def)

lemma map_wf_Cons:
  "map_wf ((k, v) # m) \<longleftrightarrow> (\<forall>j \<in> fst ` set m. canonicalKeyLess k j) \<and> map_wf m"
  by (auto simp: map_wf_def)

lemma set_map_assign: "fst ` set (map_assign k v m) = insert k (fst ` set m)"
  by (induction k v m rule: map_assign.induct) auto

lemma map_wf_assign: "map_wf m \<Longrightarrow> map_wf (map_assign k v m)"
proof (induction k v m rule: map_assign.induct)
  case (2 k v j u m)
  show ?case
  proof (cases "canonicalKeyLess k j \<or> k = j")
    case True
    with 2 show ?thesis by (auto simp: map_wf_Cons dest: canonicalKeyLess_trans)
  next
    case False
    with 2 canonicalKeyLess_linear[of k j] show ?thesis
      by (auto simp: map_wf_Cons set_map_assign)
  qed
qed (simp add: map_wf_def)

lemma map_of_assign: "map_of (map_assign k v m) j = (if j = k then Some v else map_of m j)"
  by (induction k v m rule: map_assign.induct) auto

lemma map_wf_erase: "map_wf m \<Longrightarrow> map_wf (map_erase k m)"
  by (induction m) (auto simp: map_erase_def map_wf_Cons)

lemma map_of_erase: "map_of (map_erase k m) j = (if j = k then None else map_of m j)"
  by (induction m) (auto simp: map_erase_def)

lemma map_wf_Cons_notin: "map_wf ((k, v) # m) \<Longrightarrow> k \<notin> fst ` set m"
  by (auto simp: map_wf_Cons)

lemma map_of_fst: "map_of m j = Some u \<Longrightarrow> j \<in> fst ` set m"
  by (metis map_of_eq_None_iff option.distinct(1))

lemma map_wf_ext: "map_wf m \<Longrightarrow> map_wf m' \<Longrightarrow> (\<And>k. map_of m k = map_of m' k) \<Longrightarrow> m = m'"
proof (induction m arbitrary: m')
  case Nil
  then show ?case by (metis empty_iff list.set(1) map_of_eq_None_iff image_empty neq_Nil_conv
      list.set_intros(1) image_eqI)
next
  case (Cons p m)
  obtain k v where p: "p = (k, v)" by (cases p)
  have "map_of m' k = Some v" using Cons.prems(3)[of k] by (simp add: p)
  then obtain q ms where m': "m' = q # ms" by (cases m') auto
  obtain j u where q: "q = (j, u)" by (cases q)
  have in1: "j = k \<or> j \<in> fst ` set m"
    using Cons.prems(3)[of j] by (auto simp: p m' q split: if_splits dest: map_of_fst)
  have in2: "k = j \<or> k \<in> fst ` set ms"
    using Cons.prems(3)[of k] by (auto simp: p m' q split: if_splits dest: map_of_fst[OF sym])
  have kj: "j = k"
  proof (rule ccontr)
    assume "j \<noteq> k"
    then have "canonicalKeyLess k j" "canonicalKeyLess j k"
      using in1 in2 Cons.prems(1,2) by (auto simp: p m' q map_wf_Cons)
    then show False by (blast dest: canonicalKeyLess_asym)
  qed
  have "map_of m l = map_of ms l" for l
  proof (cases "l = k")
    case True
    then show ?thesis
      using Cons.prems(1,2) map_wf_Cons_notin kj unfolding p m' q
      by (metis map_of_eq_None_iff)
  next
    case False
    then show ?thesis using Cons.prems(3)[of l] by (simp add: p m' q kj)
  qed
  then have "m = ms" using Cons.IH[of ms] Cons.prems(1,2) by (simp add: p m' q map_wf_Cons)
  moreover have "u = v" using Cons.prems(3)[of k] by (simp add: p m' q kj)
  ultimately show ?case by (simp add: p m' q kj)
qed

interpretation smap: ordered_map map_of map_assign map_erase map_wf "[]"
  by unfold_locales
    (auto simp: map_wf_assign map_of_assign map_wf_erase map_of_erase intro: map_wf_ext)

subsection \<open>Values\<close>

datatype cbor =
    CUnsigned u64
  | CNegative u64
  | CBytes bytes
  | CText string
  | CArray "cbor list"
  | CMap "(string \<times> cbor) list"
  | CBoolean bool
  | CNull
  | CDouble f64

fun asUnsigned :: "cbor \<Rightarrow> u64 option" where
  "asUnsigned (CUnsigned v) = Some v"
| "asUnsigned _ = None"

fun asNegative :: "cbor \<Rightarrow> u64 option" where
  "asNegative (CNegative v) = Some v"
| "asNegative _ = None"

fun asBytes :: "cbor \<Rightarrow> bytes option" where
  "asBytes (CBytes v) = Some v"
| "asBytes _ = None"

fun asText :: "cbor \<Rightarrow> string option" where
  "asText (CText v) = Some v"
| "asText _ = None"

fun asArray :: "cbor \<Rightarrow> cbor list option" where
  "asArray (CArray v) = Some v"
| "asArray _ = None"

fun asMap :: "cbor \<Rightarrow> cbor smap option" where
  "asMap (CMap v) = Some v"
| "asMap _ = None"

fun asBoolean :: "cbor \<Rightarrow> bool option" where
  "asBoolean (CBoolean v) = Some v"
| "asBoolean _ = None"

fun asDouble :: "cbor \<Rightarrow> f64 option" where
  "asDouble (CDouble v) = Some v"
| "asDouble _ = None"

fun numericDouble :: "cbor \<Rightarrow> f64 option" where
  "numericDouble (CDouble v) = (if \<not> dbl_isfinite v then None else Some v)"
| "numericDouble (CUnsigned v) = Some (dbl_of_uint64 v)"
| "numericDouble (CNegative v) = Some (dbl_of_int64 v)"
| "numericDouble _ = None"

text \<open>
  \<open>Value::operator==\<close>: structural, doubles by IEEE equality.  \<open>std::map\<close> equality compares the
  entries in iteration order.
\<close>

primrec cbor_eq :: "cbor \<Rightarrow> cbor \<Rightarrow> bool" where
  "cbor_eq (CUnsigned a) = (\<lambda>rhs. asUnsigned rhs = Some a)"
| "cbor_eq (CNegative a) = (\<lambda>rhs. asNegative rhs = Some a)"
| "cbor_eq (CBytes a) = (\<lambda>rhs. asBytes rhs = Some a)"
| "cbor_eq (CText a) = (\<lambda>rhs. asText rhs = Some a)"
| "cbor_eq (CArray as) = (\<lambda>rhs. case asArray rhs of
     Some bs \<Rightarrow> list_all2 (\<lambda>eq b. eq b) (map cbor_eq as) bs | None \<Rightarrow> False)"
| "cbor_eq (CMap as) = (\<lambda>rhs. case asMap rhs of
     Some bs \<Rightarrow> list_all2 (\<lambda>(j, eq) (k, b). j = k \<and> eq b) (map (map_prod id cbor_eq) as) bs
   | None \<Rightarrow> False)"
| "cbor_eq (CBoolean a) = (\<lambda>rhs. asBoolean rhs = Some a)"
| "cbor_eq CNull = (\<lambda>rhs. rhs = CNull)"
| "cbor_eq (CDouble a) = (\<lambda>rhs. case asDouble rhs of Some b \<Rightarrow> dbl_eq a b | None \<Rightarrow> False)"

subsection \<open>Encoding\<close>

definition kMajorShift :: nat where "kMajorShift = 5"
definition kAdditionalMask :: u8 where "kAdditionalMask = 0x1F"
definition kMajorUnsigned :: u8 where "kMajorUnsigned = 0"
definition kMajorNegative :: u8 where "kMajorNegative = 1"
definition kMajorBytes :: u8 where "kMajorBytes = 2"
definition kMajorText :: u8 where "kMajorText = 3"
definition kMajorArray :: u8 where "kMajorArray = 4"
definition kMajorMap :: u8 where "kMajorMap = 5"
definition kMajorTag :: u8 where "kMajorTag = 6"
definition kMajorSimple :: u8 where "kMajorSimple = 7"

lemmas cbor_majors = kMajorUnsigned_def kMajorNegative_def kMajorBytes_def kMajorText_def
  kMajorArray_def kMajorMap_def kMajorTag_def kMajorSimple_def

text \<open>The bytes the append functions push onto \<open>out\<close>.\<close>

primrec cbor_appendBigEndian :: "nat \<Rightarrow> u64 \<Rightarrow> bytes" where
  "cbor_appendBigEndian 0 value = []"
| "cbor_appendBigEndian (Suc n) value =
     ucast (drop_bit (n * 8) value AND 0xFF) # cbor_appendBigEndian n value"

definition appendHead :: "u8 \<Rightarrow> u64 \<Rightarrow> bytes" where
  "appendHead major argument =
     (let prefix = push_bit kMajorShift major in
      if argument < 24 then [prefix OR ucast argument]
      else if argument \<le> 0xFF then [prefix OR 24, ucast argument]
      else if argument \<le> 0xFFFF then (prefix OR 25) # cbor_appendBigEndian 2 argument
      else if argument \<le> 0xFFFFFFFF then (prefix OR 26) # cbor_appendBigEndian 4 argument
      else (prefix OR 27) # cbor_appendBigEndian 8 argument)"

definition simpleByte :: "u8 \<Rightarrow> u8" where
  "simpleByte additional = push_bit kMajorShift kMajorSimple OR additional"

fun cbor_encode :: "cbor \<Rightarrow> bytes" where
  "cbor_encode (CUnsigned v) = appendHead kMajorUnsigned v"
| "cbor_encode (CNegative v) = appendHead kMajorNegative (- (v + 1))"
| "cbor_encode (CBytes v) = appendHead kMajorBytes (word_of_nat (length v)) @ v"
| "cbor_encode (CText v) = appendHead kMajorText (word_of_nat (length v)) @ bytes_of_string v"
| "cbor_encode (CArray v) =
     appendHead kMajorArray (word_of_nat (length v)) @ concat (map cbor_encode v)"
| "cbor_encode (CMap v) =
     appendHead kMajorMap (word_of_nat (length v)) @
     concat (map (\<lambda>(k, x). appendHead kMajorText (word_of_nat (length k)) @ bytes_of_string k @
       cbor_encode x) v)"
| "cbor_encode (CBoolean v) = [simpleByte (if v then 21 else 20)]"
| "cbor_encode CNull = [simpleByte 22]"
| "cbor_encode (CDouble v) = simpleByte 27 # cbor_appendBigEndian 8 v"

subsection \<open>Reading\<close>

type_synonym reader = bytes

fun readByte :: "reader \<Rightarrow> cbor_error + u8 \<times> reader" where
  "readByte [] = Inl Truncated"
| "readByte (b # r) = Inr (b, r)"

definition readBigEndian :: "nat \<Rightarrow> reader \<Rightarrow> cbor_error + u64 \<times> reader" where
  "readBigEndian n r =
     (if length r < n then Inl Truncated
      else Inr (foldl (\<lambda>value b. push_bit 8 value OR ucast b) 0 (take n r), drop n r))"

definition readBytes :: "u64 \<Rightarrow> reader \<Rightarrow> cbor_error + bytes \<times> reader" where
  "readBytes count r =
     (if unat count > length r then Inl Truncated
      else Inr (take (unat count) r, drop (unat count) r))"

definition readArgument :: "reader \<Rightarrow> u8 \<Rightarrow> cbor_error + u64 \<times> reader" where
  "readArgument r additional =
     (if additional < 24 then Inr (ucast additional, r)
      else if additional = 24 then
        (case readByte r of
           Inl e \<Rightarrow> Inl e
         | Inr (byte, r) \<Rightarrow>
             let out = ucast byte in
             if out \<ge> 24 then Inr (out, r) else Inl NonMinimalInteger)
      else if additional = 25 then
        (case readBigEndian 2 r of
           Inl e \<Rightarrow> Inl e
         | Inr (out, r) \<Rightarrow> if out > 0xff then Inr (out, r) else Inl NonMinimalInteger)
      else if additional = 26 then
        (case readBigEndian 4 r of
           Inl e \<Rightarrow> Inl e
         | Inr (out, r) \<Rightarrow> if out > 0xffff then Inr (out, r) else Inl NonMinimalInteger)
      else if additional = 27 then
        (case readBigEndian 8 r of
           Inl e \<Rightarrow> Inl e
         | Inr (out, r) \<Rightarrow> if out > 0xffffffff then Inr (out, r) else Inl NonMinimalInteger)
      else Inl InvalidAdditionalInformation)"

definition decodeCollectionCount :: "reader \<Rightarrow> u8 \<Rightarrow> cbor_error + u64 \<times> reader" where
  "decodeCollectionCount r additional =
     (case readArgument r additional of
        Inl e \<Rightarrow> Inl e
      | Inr (count, r) \<Rightarrow>
          if count > kMaxCollectionElements then Inl CollectionTooLarge else Inr (count, r))"

text \<open>The continuation bytes of one code point, then the scan over the string.\<close>

fun utf8_continue :: "nat \<Rightarrow> u32 \<Rightarrow> bytes \<Rightarrow> u32 option" where
  "utf8_continue 0 code _ = Some code"
| "utf8_continue (Suc n) code [] = None"
| "utf8_continue (Suc n) code (cont # data) =
     (if cont AND 0xC0 \<noteq> 0x80 then None
      else utf8_continue n (push_bit 6 code OR ucast (cont AND 0x3F)) data)"

function isValidUtf8 :: "bytes \<Rightarrow> bool" where
  "isValidUtf8 data =
     (case data of
        [] \<Rightarrow> True
      | lead # rest \<Rightarrow>
          if lead < 0x80 then isValidUtf8 rest
          else
            (let (extra, code :: u32) =
               (if lead AND 0xE0 = 0xC0 then (1, ucast (lead AND 0x1F))
                else if lead AND 0xF0 = 0xE0 then (2, ucast (lead AND 0x0F))
                else if lead AND 0xF8 = 0xF0 then (3, ucast (lead AND 0x07))
                else (0, 0))
             in if extra = 0 then False
                else if extra \<ge> length data then False
                else case utf8_continue extra code rest of
                  None \<Rightarrow> False
                | Some code \<Rightarrow>
                    if extra = 1 \<and> code < 0x80 then False
                    else if extra = 2 \<and> code < 0x800 then False
                    else if extra = 3 \<and> code < 0x10000 then False
                    else if code > 0x10FFFF then False
                    else if code \<ge> 0xD800 \<and> code \<le> 0xDFFF then False
                    else isValidUtf8 (drop extra rest)))"
  by pat_completeness auto
termination
  by (relation "measure length") auto

declare isValidUtf8.simps [simp del]

subsection \<open>Decoding\<close>

text \<open>
  \<open>decodeValue\<close> with its two loops: \<open>decodeItems\<close> reads \<open>count\<close> array items at \<open>depth\<close> (already
  one deeper), \<open>decodeEntries\<close> reads \<open>count\<close> map entries.  The recursion ends because the depth
  is checked first and a loop's count falls.
\<close>

function decodeValue :: "nat \<Rightarrow> reader \<Rightarrow> cbor_error + cbor \<times> reader"
  and decodeItems :: "nat \<Rightarrow> nat \<Rightarrow> cbor list \<Rightarrow> reader \<Rightarrow> cbor_error + cbor list \<times> reader"
  and decodeEntries :: "nat \<Rightarrow> nat \<Rightarrow> cbor smap \<Rightarrow> reader \<Rightarrow> cbor_error + cbor smap \<times> reader"
where
  "decodeValue depth reader =
     (if depth > kMaxNestingDepth then Inl NestingLimitExceeded
      else case readByte reader of
        Inl e \<Rightarrow> Inl e
      | Inr (initial, r) \<Rightarrow>
          (let major = drop_bit kMajorShift initial;
               additional = initial AND kAdditionalMask
           in if major = kMajorUnsigned then
                (case readArgument r additional of
                   Inl e \<Rightarrow> Inl e
                 | Inr (value, r) \<Rightarrow> Inr (CUnsigned value, r))
              else if major = kMajorNegative then
                (case readArgument r additional of
                   Inl e \<Rightarrow> Inl e
                 | Inr (value, r) \<Rightarrow>
                     if value > 0x7FFFFFFFFFFFFFFF then Inl IntegerOverflow
                     else Inr (CNegative (- 1 - value), r))
              else if major = kMajorBytes then
                (case readArgument r additional of
                   Inl e \<Rightarrow> Inl e
                 | Inr (count, r) \<Rightarrow>
                     (case readBytes count r of
                        Inl e \<Rightarrow> Inl e
                      | Inr (bs, r) \<Rightarrow> Inr (CBytes bs, r)))
              else if major = kMajorText then
                (case readArgument r additional of
                   Inl e \<Rightarrow> Inl e
                 | Inr (count, r) \<Rightarrow>
                     (case readBytes count r of
                        Inl e \<Rightarrow> Inl e
                      | Inr (bs, r) \<Rightarrow>
                          if \<not> isValidUtf8 bs then Inl InvalidUtf8
                          else Inr (CText (string_of_bytes bs), r)))
              else if major = kMajorArray then
                (case decodeCollectionCount r additional of
                   Inl e \<Rightarrow> Inl e
                 | Inr (count, r) \<Rightarrow>
                     (case decodeItems (depth + 1) (unat count) [] r of
                        Inl e \<Rightarrow> Inl e
                      | Inr (items, r) \<Rightarrow> Inr (CArray items, r)))
              else if major = kMajorMap then
                (case decodeCollectionCount r additional of
                   Inl e \<Rightarrow> Inl e
                 | Inr (count, r) \<Rightarrow>
                     (case decodeEntries (depth + 1) (unat count) [] r of
                        Inl e \<Rightarrow> Inl e
                      | Inr (entries, r) \<Rightarrow> Inr (CMap entries, r)))
              else if major = kMajorTag then Inl InvalidAdditionalInformation
              else if major = kMajorSimple then
                (if additional = 20 then Inr (CBoolean False, r)
                 else if additional = 21 then Inr (CBoolean True, r)
                 else if additional = 22 then Inr (CNull, r)
                 else if additional = 25 then
                   (case readBigEndian 2 r of
                      Inl e \<Rightarrow> Inl e
                    | Inr (bits, r) \<Rightarrow> Inr (CDouble (halfToDouble (ucast bits)), r))
                 else if additional = 26 then
                   (case readBigEndian 4 r of
                      Inl e \<Rightarrow> Inl e
                    | Inr (bits, r) \<Rightarrow> Inr (CDouble (floatBitsToDouble (ucast bits)), r))
                 else if additional = 27 then
                   (case readBigEndian 8 r of
                      Inl e \<Rightarrow> Inl e
                    | Inr (bits, r) \<Rightarrow> Inr (CDouble bits, r))
                 else Inl UnsupportedSimpleValue)
              else Inl InvalidAdditionalInformation))"
| "decodeItems depth count items reader =
     (case count of
        0 \<Rightarrow> Inr (items, reader)
      | Suc n \<Rightarrow>
          (case decodeValue depth reader of
             Inl e \<Rightarrow> Inl e
           | Inr (item, r) \<Rightarrow> decodeItems depth n (items @ [item]) r))"
| "decodeEntries depth count entries reader =
     (case count of
        0 \<Rightarrow> Inr (entries, reader)
      | Suc n \<Rightarrow>
          (case decodeValue depth reader of
             Inl e \<Rightarrow> Inl e
           | Inr (key, r) \<Rightarrow>
               (case asText key of
                  None \<Rightarrow> Inl UnsupportedMapKey
                | Some keyText \<Rightarrow>
                    (case decodeValue depth r of
                       Inl e \<Rightarrow> Inl e
                     | Inr (item, r) \<Rightarrow>
                         (case map_emplace keyText item entries of
                            (entries, inserted) \<Rightarrow>
                              if \<not> inserted then Inl DuplicateMapKey
                              else decodeEntries depth n entries r)))))"
  by pat_completeness auto
termination
  by (relation "measures
      [\<lambda>a. case a of Inl (depth, _) \<Rightarrow> 2 * (33 - depth)
        | Inr (Inl (depth, _)) \<Rightarrow> 2 * (33 - depth) + 1
        | Inr (Inr (depth, _)) \<Rightarrow> 2 * (33 - depth) + 1,
       \<lambda>a. case a of Inl _ \<Rightarrow> 0 | Inr (Inl (_, n, _)) \<Rightarrow> n | Inr (Inr (_, n, _)) \<Rightarrow> n]")
    (auto simp: kMaxNestingDepth_def)

declare decodeValue.simps [simp del] decodeItems.simps [simp del] decodeEntries.simps [simp del]

definition cbor_decode :: "bytes \<Rightarrow> cbor_error + cbor" where
  "cbor_decode data =
     (case decodeValue 0 data of
        Inl e \<Rightarrow> Inl e
      | Inr (value, r) \<Rightarrow> if r \<noteq> [] then Inl TrailingBytes else Inr value)"

subsection \<open>Heads are a canonical code\<close>

lemma cbor_appendBigEndian_be [be_simps]: "cbor_appendBigEndian n v = be_bytes n v"
  by (induction n) (simp_all add: mult.commute)

lemma readBigEndian_be [be_simps]:
  "readBigEndian n r = (if length r < n then Inl Truncated else Inr (be_value (take n r), drop n r))"
  by (simp add: readBigEndian_def be_value_def)

lemma initial_byte:
  assumes "major < 8" and "x < 32"
  shows "drop_bit 5 (push_bit 5 major OR x) = (major :: u8)" "(push_bit 5 major OR x) AND 0x1F = x"
proof -
  have bm: "n < 3" if "bit major n" for n
    using that assms bit_lt[of major 3 n] by (simp add: word_less_nat_alt)
  have bx: "n < 5" if "bit x n" for n
    using that assms bit_lt[of x 5 n] by (simp add: word_less_nat_alt)
  have "(0x1F :: u8) = mask 5" by (simp add: mask_eq_exp_minus_1)
  then have low: "y AND 0x1F = take_bit 5 y" for y :: u8 by (simp add: take_bit_eq_mask)
  show "drop_bit 5 (push_bit 5 major OR x) = major"
    by (rule bit_word_eqI) (auto simp: bit_simps dest: bm bx)
  show "(push_bit 5 major OR x) AND 0x1F = x"
    unfolding low by (rule bit_word_eqI) (auto simp: bit_simps dest: bx)
qed

lemma initial_byte_split: "push_bit 5 (drop_bit 5 b) OR (b AND 0x1F) = (b :: u8)" "drop_bit 5 b < (8 :: u8)"
proof -
  have "(0x1F :: u8) = mask 5" by (simp add: mask_eq_exp_minus_1)
  then have "b AND 0x1F = take_bit 5 b" by (simp add: take_bit_eq_mask)
  then show "push_bit 5 (drop_bit 5 b) OR (b AND 0x1F) = b"
    by (intro bit_word_eqI) (auto simp: bit_simps)
  have "unat b < 256" using unsigned_less[of b] by simp
  then have "unat (drop_bit 5 b) < 8" unfolding unat_drop_bit by simp
  then show "drop_bit 5 b < (8 :: u8)" by (simp add: word_less_nat_alt)
qed

text \<open>The head of an item off the front of the input: its major type and its argument.\<close>

definition head_dec :: "bytes \<Rightarrow> ((u8 \<times> u64) \<times> bytes) option" where
  "head_dec bs =
     (case readByte bs of
        Inl _ \<Rightarrow> None
      | Inr (b, r) \<Rightarrow>
          (case readArgument r (b AND kAdditionalMask) of
             Inl _ \<Rightarrow> None
           | Inr (v, r) \<Rightarrow> Some ((drop_bit kMajorShift b, v), r)))"

definition head_enc :: "u8 \<times> u64 \<Rightarrow> bytes" where
  "head_enc h = appendHead (fst h) (snd h)"

definition head_ok :: "u8 \<times> u64 \<Rightarrow> bool" where
  "head_ok h \<longleftrightarrow> fst h < 8"

lemma ucast_small_argument:
  "(v :: u64) < 24 \<Longrightarrow> (ucast v :: u8) < 24 \<and> (ucast (ucast v :: u8) :: u64) = v"
  "(v :: u64) \<le> 0xFF \<Longrightarrow> (ucast (ucast v :: u8) :: u64) = v"
  by (simp_all add: ucast_u8_u64 take_bit_self_iff word_less_nat_alt word_le_nat_alt unat_ucast_u8
      less_Suc_eq_le)

lemma be_value_take:
  fixes argument :: u64
  assumes "unat argument < 2 ^ (8 * n)"
  shows "be_value (take n (be_bytes n argument @ rest)) = argument"
  using assms by (simp add: be_value_be_bytes take_bit_self_iff)

lemma readArgument_appendHead:
  assumes "major < 8"
  shows "head_dec (appendHead major argument @ rest) = Some ((major, argument), rest)"
proof -
  note [simp] = kMajorShift_def kAdditionalMask_def head_dec_def appendHead_def readArgument_def
  consider "argument < 24" | "\<not> argument < 24" "argument \<le> 0xFF"
    | "\<not> argument < 24" "\<not> argument \<le> 0xFF" "argument \<le> 0xFFFF"
    | "\<not> argument < 24" "\<not> argument \<le> 0xFF" "\<not> argument \<le> 0xFFFF" "argument \<le> 0xFFFFFFFF"
    | "\<not> argument < 24" "\<not> argument \<le> 0xFF" "\<not> argument \<le> 0xFFFF" "\<not> argument \<le> 0xFFFFFFFF"
    by blast
  then show ?thesis
  proof cases
    case 1
    then have "(ucast argument :: u8) < 32"
      using ucast_small_argument(1)[of argument] by (auto intro: less_trans)
    with 1 show ?thesis
      using initial_byte[OF assms, of "ucast argument"] ucast_small_argument(1)[of argument] by simp
  next
    case 2
    then show ?thesis
      using initial_byte[OF assms, of 24] ucast_small_argument(2)[of argument] by simp
  next
    case 3
    then show ?thesis
      using initial_byte[OF assms, of 25] be_value_take[of argument 2 rest]
      by (simp add: be_simps word_le_nat_alt[of argument] not_le word_less_nat_alt)
  next
    case 4
    then show ?thesis
      using initial_byte[OF assms, of 26] be_value_take[of argument 4 rest]
      by (simp add: be_simps word_le_nat_alt[of argument] not_le word_less_nat_alt)
  next
    case 5
    then show ?thesis
      using initial_byte[OF assms, of 27] be_value_take[of argument 8 rest]
        unsigned_less[of argument]
      by (simp add: be_simps)
  qed
qed

lemma ucast_up_u8: "(ucast (ucast (b :: u8) :: u64) :: u8) = b"
  by (rule bit_word_eqI) (auto simp: bit_simps dest: bit_imp_le_length)

lemma unat_ucast_u64: "unat (ucast (b :: u8) :: u64) = unat b"
proof -
  have "unat b < 256" using unsigned_less[of b] by simp
  then show ?thesis by (simp add: unsigned_ucast_eq take_bit_nat_eq_self)
qed

lemma readBigEndian_bounds:
  assumes "readBigEndian n r = Inr (v, r')" and "n \<le> 8"
  shows "unat v < 2 ^ (8 * n) \<and> r = cbor_appendBigEndian n v @ r'"
proof -
  from assms have len: "n \<le> length r" and v: "v = be_value (take n r)" and r': "r' = drop n r"
    by (auto simp: be_simps split: if_splits)
  have "unat v < 2 ^ (8 * length (take n r))"
    unfolding v using assms(2) len by (intro be_value_lt) simp
  moreover have "cbor_appendBigEndian n v = take n r"
    using assms(2) len by (simp add: v be_simps)
  ultimately show ?thesis using len by (simp add: r')
qed

lemma head_dec_only:
  assumes "head_dec bs = Some ((major, v), rest)"
  shows "major < 8 \<and> bs = appendHead major v @ rest"
proof -
  from assms obtain b r where bs: "bs = b # r"
    and arg: "readArgument r (b AND 0x1F) = Inr (v, rest)" and major: "major = drop_bit 5 b"
    by (cases bs) (auto simp: head_dec_def kMajorShift_def kAdditionalMask_def split: sum.splits)
  let ?a = "b AND 0x1F"
  have b: "push_bit 5 major OR ?a = b" and m: "major < 8"
    using initial_byte_split[of b] by (simp_all add: major)
  note [simp] = kMajorShift_def appendHead_def
  have "bs = appendHead major v @ rest"
  proof -
    consider "?a < 24" | "?a = 24" | "?a = 25" | "?a = 26" | "?a = 27"
      using arg by (auto simp: readArgument_def split: if_splits)
    then show ?thesis
    proof cases
      case 1
      then have "v = ucast ?a" "r = rest" using arg by (auto simp: readArgument_def)
      moreover have "(ucast ?a :: u64) < 24"
        using 1 by (simp add: word_less_nat_alt unat_ucast_u64)
      ultimately show ?thesis using b bs by (simp add: ucast_up_u8)
    next
      case 2
      then obtain x where r: "r = x # rest" "v = ucast x" "24 \<le> v"
        using arg by (cases r) (auto simp: readArgument_def Let_def split: if_splits)
      have "v \<le> 0xFF"
        using unat_u8_lt[of x] by (simp add: r word_le_nat_alt unat_ucast_u64)
      moreover have "\<not> v < 24" using r(3) by (simp add: not_less)
      ultimately show ?thesis using r b 2 bs by (simp add: ucast_up_u8)
    next
      case 3
      then have rd: "readBigEndian 2 r = Inr (v, rest)" "\<not> v \<le> 0xFF"
        using arg by (auto simp: readArgument_def split: if_splits sum.splits)
      moreover have "\<not> v < 24" using rd(2) by (auto simp: word_less_nat_alt word_le_nat_alt)
      moreover have "v \<le> 0xFFFF"
        using readBigEndian_bounds[OF rd(1)] by (simp add: word_le_nat_alt)
      ultimately show ?thesis using readBigEndian_bounds[OF rd(1)] b 3 bs by simp
    next
      case 4
      then have rd: "readBigEndian 4 r = Inr (v, rest)" "\<not> v \<le> 0xFFFF"
        using arg by (auto simp: readArgument_def split: if_splits sum.splits)
      moreover have "\<not> v < 24" "\<not> v \<le> 0xFF" using rd(2) by (auto simp: word_less_nat_alt word_le_nat_alt)
      moreover have "v \<le> 0xFFFFFFFF"
        using readBigEndian_bounds[OF rd(1)] by (simp add: word_le_nat_alt)
      ultimately show ?thesis using readBigEndian_bounds[OF rd(1)] b 4 bs by simp
    next
      case 5
      then have rd: "readBigEndian 8 r = Inr (v, rest)" "\<not> v \<le> 0xFFFFFFFF"
        using arg by (auto simp: readArgument_def split: if_splits sum.splits)
      moreover have "\<not> v < 24" "\<not> v \<le> 0xFF" "\<not> v \<le> 0xFFFF"
        using rd(2) by (auto simp: word_less_nat_alt word_le_nat_alt)
      ultimately show ?thesis using readBigEndian_bounds[OF rd(1)] b 5 bs by simp
    qed
  qed
  with m show ?thesis by blast
qed

interpretation cbor_heads: canonical_codec head_enc head_dec head_ok
  by unfold_locales
    (auto simp: head_enc_def head_ok_def readArgument_appendHead dest: head_dec_only)

text \<open>The two facts the value codec uses, in the shape \<open>decodeValue\<close> meets them.\<close>

lemma appendHead_reads:
  assumes "major < 8"
  obtains b r where "appendHead major argument @ rest = b # r"
    and "drop_bit kMajorShift b = major" and "readArgument r (b AND kAdditionalMask) = Inr (argument, rest)"
proof -
  have "head_dec (head_enc (major, argument) @ rest) = Some ((major, argument), rest)"
    using assms by (intro cbor_heads.dec_enc) (simp add: head_ok_def)
  then show ?thesis
    by (cases "appendHead major argument @ rest")
      (auto simp: head_dec_def head_enc_def split: sum.splits intro: that)
qed

lemma simpleByte_reads:
  "additional < 32 \<Longrightarrow> drop_bit kMajorShift (simpleByte additional) = 7"
  "additional < 32 \<Longrightarrow> simpleByte additional AND kAdditionalMask = additional"
  using initial_byte[of 7 additional]
  by (simp_all add: simpleByte_def kMajorShift_def kMajorSimple_def kAdditionalMask_def)

subsection \<open>Well-formed values\<close>

text \<open>
  What the wire can carry at a nesting depth: the depth and element limits, strings of valid
  UTF-8, maps in strict key order, a negative integer that is negative.
\<close>

definition text_ok :: "string \<Rightarrow> bool" where
  "text_ok s \<longleftrightarrow> length s < 2 ^ 64 \<and> isValidUtf8 (bytes_of_string s)"

primrec cbor_ok :: "cbor \<Rightarrow> nat \<Rightarrow> bool" where
  "cbor_ok (CUnsigned v) = (\<lambda>d. d \<le> kMaxNestingDepth)"
| "cbor_ok (CNegative v) = (\<lambda>d. d \<le> kMaxNestingDepth \<and> sint v < 0)"
| "cbor_ok (CBytes v) = (\<lambda>d. d \<le> kMaxNestingDepth \<and> length v < 2 ^ 64)"
| "cbor_ok (CText v) = (\<lambda>d. d \<le> kMaxNestingDepth \<and> text_ok v)"
| "cbor_ok (CArray vs) = (\<lambda>d. d \<le> kMaxNestingDepth \<and> length vs \<le> unat kMaxCollectionElements \<and>
     list_all (\<lambda>ok. ok (d + 1)) (map cbor_ok vs))"
| "cbor_ok (CMap m) = (\<lambda>d. d \<le> kMaxNestingDepth \<and> length m \<le> unat kMaxCollectionElements \<and>
     map_wf m \<and>
     list_all (\<lambda>(k, ok). d + 1 \<le> kMaxNestingDepth \<and> text_ok k \<and> ok (d + 1))
       (map (map_prod id cbor_ok) m))"
| "cbor_ok (CBoolean v) = (\<lambda>d. d \<le> kMaxNestingDepth)"
| "cbor_ok CNull = (\<lambda>d. d \<le> kMaxNestingDepth)"
| "cbor_ok (CDouble v) = (\<lambda>d. d \<le> kMaxNestingDepth)"

lemma cbor_ok_CArray:
  "cbor_ok (CArray vs) d \<longleftrightarrow> d \<le> kMaxNestingDepth \<and> length vs \<le> unat kMaxCollectionElements \<and>
     (\<forall>v \<in> set vs. cbor_ok v (d + 1))"
  by (auto simp: list_all_iff)

lemma cbor_ok_CMap:
  "cbor_ok (CMap m) d \<longleftrightarrow> d \<le> kMaxNestingDepth \<and> length m \<le> unat kMaxCollectionElements \<and>
     map_wf m \<and>
     (\<forall>k v. (k, v) \<in> set m \<longrightarrow> d + 1 \<le> kMaxNestingDepth \<and> text_ok k \<and> cbor_ok v (d + 1))"
  by (force simp: list_all_iff)

declare cbor_ok.simps(5,6) [simp del]

lemma cbor_ok_depth: "cbor_ok v d \<Longrightarrow> d \<le> kMaxNestingDepth"
  by (cases v) (auto simp: cbor_ok_CArray cbor_ok_CMap)

lemma count_lt: "n \<le> unat kMaxCollectionElements \<Longrightarrow> unat (word_of_nat n :: u64) = n"
  "n \<le> unat kMaxCollectionElements \<Longrightarrow> \<not> (word_of_nat n :: u64) > kMaxCollectionElements"
proof -
  assume "n \<le> unat kMaxCollectionElements"
  then have "n \<le> 100000" by (simp add: kMaxCollectionElements_def)
  then show "unat (word_of_nat n :: u64) = n" by (intro unat_word_of_nat) simp
  with \<open>n \<le> 100000\<close> show "\<not> (word_of_nat n :: u64) > kMaxCollectionElements"
    by (simp add: word_less_nat_alt kMaxCollectionElements_def)
qed

lemma readBytes_append:
  "length bs < 2 ^ 64 \<Longrightarrow> readBytes (word_of_nat (length bs)) (bs @ rest) = Inr (bs, rest)"
  by (simp add: readBytes_def unat_word_of_nat)

lemma negative_encoding:
  "sint (v :: u64) < 0 \<Longrightarrow> \<not> - (v + 1) > 0x7FFFFFFFFFFFFFFF"
  "- 1 - (- (v + 1)) = (v :: u64)"
proof -
  have n: "- (v + 1) = NOT v" by (simp add: not_eq_complement)
  assume "sint v < 0"
  then have "bit v 63" using bit_last_iff[of v] by simp
  then have "take_bit 63 (NOT v) = NOT v"
    by (intro bit_word_eqI) (auto simp: bit_simps less_Suc_eq numeral_eq_Suc)
  then have "unat (NOT v) < 2 ^ 63" by (simp only: take_bit_self_iff)
  then show "\<not> - (v + 1) > 0x7FFFFFFFFFFFFFFF"
    unfolding n by (simp add: word_less_nat_alt)
qed simp

lemma negative_decoding:
  assumes "\<not> (value :: u64) > 0x7FFFFFFFFFFFFFFF"
  shows "sint (- 1 - value) < 0"
proof -
  have "unat value < 2 ^ 63" using assms by (simp add: word_less_nat_alt)
  then have "\<not> bit value 63" using bit_lt by blast
  moreover have "- 1 - value = NOT value" by (simp add: not_eq_complement)
  ultimately have "bit (- 1 - value) 63" by (simp only: bit_simps) simp
  then show ?thesis using bit_last_iff[of "- 1 - value"] by simp
qed

subsection \<open>Decoding what was encoded\<close>

lemma decodeItems_encode:
  assumes "\<And>v rest. v \<in> set vs \<Longrightarrow> decodeValue d (cbor_encode v @ rest) = Inr (v, rest)"
  shows "decodeItems d (length vs) acc (concat (map cbor_encode vs) @ rest) = Inr (acc @ vs, rest)"
  using assms
proof (induction vs arbitrary: acc)
  case Nil
  then show ?case by (simp add: decodeItems.simps)
next
  case (Cons v vs)
  have "decodeItems d (length vs) (acc @ [v]) (concat (map cbor_encode vs) @ rest) =
      Inr ((acc @ [v]) @ vs, rest)"
    using Cons.prems by (intro Cons.IH) simp
  then show ?case
    using Cons.prems[of v "concat (map cbor_encode vs) @ rest"]
    by (subst decodeItems.simps) simp
qed

lemma map_assign_last:
  "(\<And>j. j \<in> fst ` set m \<Longrightarrow> canonicalKeyLess j k) \<Longrightarrow> map_assign k v m = m @ [(k, v)]"
proof (induction m)
  case (Cons p m)
  obtain j u where p: "p = (j, u)" by (cases p)
  have "canonicalKeyLess j k" using Cons.prems by (simp add: p)
  then have "\<not> canonicalKeyLess k j" "k \<noteq> j" using canonicalKeyLess_asym by auto
  with Cons show ?case by (simp add: p)
qed simp

lemma map_emplace_last:
  assumes "\<And>j. j \<in> fst ` set m \<Longrightarrow> canonicalKeyLess j k"
  shows "map_emplace k v m = (m @ [(k, v)], True)"
proof -
  have "k \<notin> fst ` set m" using assms canonicalKeyLess_irrefl by blast
  then have "map_of m k = None" by (simp add: map_of_eq_None_iff)
  with map_assign_last[OF assms] show ?thesis by (simp add: map_emplace_def)
qed

definition encode_entry :: "string \<times> cbor \<Rightarrow> bytes" where
  "encode_entry e = cbor_encode (CText (fst e)) @ cbor_encode (snd e)"

lemma cbor_encode_map:
  "cbor_encode (CMap m) = appendHead kMajorMap (word_of_nat (length m)) @ concat (map encode_entry m)"
proof -
  have "(\<lambda>(k, x). appendHead kMajorText (word_of_nat (length k)) @ bytes_of_string k @ cbor_encode x)
      = encode_entry"
    by (auto simp: encode_entry_def fun_eq_iff)
  then show ?thesis by simp
qed

lemma decodeEntries_encode:
  assumes "\<And>k rest. k \<in> fst ` set m \<Longrightarrow> decodeValue d (cbor_encode (CText k) @ rest) = Inr (CText k, rest)"
    and "\<And>v rest. v \<in> snd ` set m \<Longrightarrow> decodeValue d (cbor_encode v @ rest) = Inr (v, rest)"
    and "map_wf (acc @ m)"
  shows "decodeEntries d (length m) acc (concat (map encode_entry m) @ rest) = Inr (acc @ m, rest)"
  using assms
proof (induction m arbitrary: acc)
  case Nil
  then show ?case by (simp add: decodeEntries.simps)
next
  case (Cons p m)
  obtain k v where p: "p = (k, v)" by (cases p)
  let ?rest = "concat (map encode_entry m) @ rest"
  have rec: "decodeEntries d (length m) (acc @ [(k, v)]) ?rest = Inr ((acc @ [(k, v)]) @ m, rest)"
  proof (rule Cons.IH)
    show "map_wf ((acc @ [(k, v)]) @ m)" using Cons.prems(3) by (simp add: p)
  qed (simp_all add: Cons.prems(1,2) del: cbor_encode.simps)
  have "map_emplace k v acc = (acc @ [(k, v)], True)"
    using Cons.prems(3) by (intro map_emplace_last) (auto simp: p map_wf_def sorted_wrt_append)
  then show ?case
    using Cons.prems(1)[of k "cbor_encode v @ ?rest"] Cons.prems(2)[of v ?rest] rec
    by (subst decodeEntries.simps) (simp add: p encode_entry_def del: cbor_encode.simps)
qed

lemma decodeValue_encode:
  "cbor_ok v d \<Longrightarrow> decodeValue d (cbor_encode v @ rest) = Inr (v, rest)"
proof (induction v arbitrary: d rest)
  case (CUnsigned v)
  then show ?case
    by (rule_tac appendHead_reads[of kMajorUnsigned v rest])
      (simp_all add: decodeValue.simps cbor_majors)
next
  case (CNegative v)
  then show ?case
    using negative_encoding(1)[of v]
    by (rule_tac appendHead_reads[of kMajorNegative "- (v + 1)" rest])
      (simp_all add: decodeValue.simps cbor_majors)
next
  case (CBytes v)
  then show ?case
    by (rule_tac appendHead_reads[of kMajorBytes "word_of_nat (length v)" "v @ rest"])
      (simp_all add: decodeValue.simps cbor_majors readBytes_append)
next
  case (CText v)
  then show ?case
    using readBytes_append[of "bytes_of_string v" rest]
    by (rule_tac appendHead_reads[of kMajorText "word_of_nat (length v)" "bytes_of_string v @ rest"])
      (simp_all add: decodeValue.simps cbor_majors text_ok_def)
next
  case (CArray vs)
  have "decodeItems (d + 1) (length vs) [] (concat (map cbor_encode vs) @ rest) = Inr ([] @ vs, rest)"
    using CArray by (intro decodeItems_encode) (auto simp: cbor_ok_CArray cbor_ok_CMap)
  with CArray.prems show ?case
    by (rule_tac appendHead_reads[of kMajorArray "word_of_nat (length vs)"
          "concat (map cbor_encode vs) @ rest"])
      (simp_all add: decodeValue.simps[of d] cbor_majors decodeCollectionCount_def count_lt cbor_ok_CArray)
next
  case (CMap m)
  have key: "decodeValue (d + 1) (cbor_encode (CText k) @ r) = Inr (CText k, r)"
    if "(k, v) \<in> set m" for k v r
  proof -
    from CMap.prems that have "d + 1 \<le> kMaxNestingDepth" "text_ok k"
      by (auto simp: cbor_ok_CArray cbor_ok_CMap)
    then show ?thesis
      using readBytes_append[of "bytes_of_string k" r]
      by (rule_tac appendHead_reads[of kMajorText "word_of_nat (length k)" "bytes_of_string k @ r"])
        (simp_all add: decodeValue.simps cbor_majors text_ok_def)
  qed
  have item: "decodeValue (d + 1) (cbor_encode v @ r) = Inr (v, r)" if "(k, v) \<in> set m" for k v r
    using CMap.prems that by (intro CMap.IH[OF that]) (auto simp: cbor_ok_CMap)
  have "decodeEntries (d + 1) (length m) [] (concat (map encode_entry m) @ rest) = Inr ([] @ m, rest)"
    using CMap.prems key item
    by (intro decodeEntries_encode) (auto simp: cbor_ok_CMap simp del: cbor_encode.simps)
  with CMap.prems show ?case
    by (rule_tac appendHead_reads[of kMajorMap "word_of_nat (length m)"
          "concat (map encode_entry m) @ rest"])
      (simp_all add: cbor_encode_map decodeValue.simps[of d] cbor_majors decodeCollectionCount_def
        count_lt cbor_ok_CMap del: cbor_encode.simps)
next
  case (CBoolean v)
  then show ?case by (simp add: decodeValue.simps simpleByte_reads cbor_majors)
next
  case CNull
  then show ?case by (simp add: decodeValue.simps simpleByte_reads cbor_majors)
next
  case (CDouble v)
  then show ?case by (simp add: decodeValue.simps simpleByte_reads cbor_majors be_simps)
qed

interpretation cbor_values: prefix_codec cbor_encode
  "\<lambda>bs. case decodeValue 0 bs of Inl _ \<Rightarrow> None | Inr p \<Rightarrow> Some p" "\<lambda>v. cbor_ok v 0"
  by unfold_locales (simp add: decodeValue_encode)

lemma cbor_decode_encode: "cbor_ok v 0 \<Longrightarrow> cbor_decode (cbor_encode v) = Inr v"
  using decodeValue_encode[of v 0 "[]"] by (simp add: cbor_decode_def)

subsection \<open>Every decoded value is well-formed\<close>

lemma readByte_suffix: "readByte r = Inr (b, r') \<Longrightarrow> r = b # r'"
  by (cases r) auto

lemma readBigEndian_suffix: "readBigEndian n r = Inr (v, r') \<Longrightarrow> \<exists>p. r = p @ r'"
  by (auto simp: readBigEndian_def split: if_splits) (metis append_take_drop_id)

lemma readArgument_suffix: "readArgument r a = Inr (v, r') \<Longrightarrow> \<exists>p. r = p @ r'"
  by (auto simp: readArgument_def Let_def split: if_splits sum.splits
      dest!: readByte_suffix dest: readBigEndian_suffix)

lemma readBytes_suffix: "readBytes c r = Inr (bs, r') \<Longrightarrow> r = bs @ r' \<and> length bs < 2 ^ 64"
  using unsigned_less[of c] by (auto simp: readBytes_def split: if_splits)

lemma decodeCollectionCount_suffix:
  "decodeCollectionCount r a = Inr (c, r') \<Longrightarrow>
     (\<exists>p. r = p @ r') \<and> unat c \<le> unat kMaxCollectionElements"
  by (auto simp: decodeCollectionCount_def word_le_nat_alt not_less split: sum.splits if_splits
      dest: readArgument_suffix)

definition decoded_ok :: "nat \<Rightarrow> bool" where
  "decoded_ok d \<longleftrightarrow>
     (\<forall>bs v r. decodeValue d bs = Inr (v, r) \<longrightarrow> cbor_ok v d \<and> (\<exists>p. bs = p @ r))"

lemma decodeItems_ok:
  assumes "decoded_ok d"
  shows "decodeItems d n acc bs = Inr (vs, r) \<Longrightarrow>
     \<exists>ws. vs = acc @ ws \<and> length ws = n \<and> (\<forall>v \<in> set ws. cbor_ok v d) \<and> (\<exists>p. bs = p @ r)"
proof (induction n arbitrary: acc bs)
  case 0
  then show ?case by (simp add: decodeItems.simps)
next
  case (Suc n)
  from Suc.prems obtain v r1 where v: "decodeValue d bs = Inr (v, r1)"
    and rec: "decodeItems d n (acc @ [v]) r1 = Inr (vs, r)"
    by (subst (asm) decodeItems.simps) (auto split: sum.splits)
  from v assms obtain p where "cbor_ok v d" "bs = p @ r1" unfolding decoded_ok_def by blast
  moreover from Suc.IH[OF rec] obtain ws q where "vs = acc @ v # ws" "length ws = n"
    "\<forall>v \<in> set ws. cbor_ok v d" "r1 = q @ r" by auto
  ultimately show ?case
    by (intro exI[of _ "v # ws"] conjI exI[of _ "p @ q"]) auto
qed

lemma map_emplace_wf:
  "map_wf m \<Longrightarrow> map_emplace k v m = (m', True) \<Longrightarrow>
     map_wf m' \<and> set m' = insert (k, v) (set m) \<and> length m' = Suc (length m)"
proof -
  assume wf: "map_wf m" and em: "map_emplace k v m = (m', True)"
  then have none: "map_of m k = None" and m': "m' = map_assign k v m"
    by (auto simp: map_emplace_def split: option.splits)
  then have "k \<notin> fst ` set m" by (simp add: map_of_eq_None_iff)
  then have "set (map_assign k v m) = insert (k, v) (set m) \<and>
      length (map_assign k v m) = Suc (length m)"
    by (induction k v m rule: map_assign.induct) auto
  with wf m' show ?thesis by (simp add: map_wf_assign)
qed

definition entries_ok :: "nat \<Rightarrow> cbor smap \<Rightarrow> bool" where
  "entries_ok d m \<longleftrightarrow> map_wf m \<and> (\<forall>k v. (k, v) \<in> set m \<longrightarrow>
     d \<le> kMaxNestingDepth \<and> text_ok k \<and> cbor_ok v d)"

lemma decodeEntries_ok:
  assumes "decoded_ok d"
  shows "decodeEntries d n acc bs = Inr (m, r) \<Longrightarrow> entries_ok d acc \<Longrightarrow>
     entries_ok d m \<and> length m = length acc + n \<and> (\<exists>p. bs = p @ r)"
proof (induction n arbitrary: acc bs)
  case 0
  then show ?case by (simp add: decodeEntries.simps)
next
  case (Suc n)
  from Suc.prems(1) obtain k v acc' r1 r2 where k: "decodeValue d bs = Inr (CText k, r1)"
    and v: "decodeValue d r1 = Inr (v, r2)" and em: "map_emplace k v acc = (acc', True)"
    and rec: "decodeEntries d n acc' r2 = Inr (m, r)"
    by (subst (asm) decodeEntries.simps)
      (auto split: sum.splits option.splits prod.splits if_splits elim!: asText.elims)
  from k assms obtain p where p: "cbor_ok (CText k) d" "bs = p @ r1" unfolding decoded_ok_def by blast
  from v assms obtain q where q: "cbor_ok v d" "r1 = q @ r2" unfolding decoded_ok_def by blast
  have "entries_ok d acc'" "length acc' = Suc (length acc)"
    using map_emplace_wf[OF _ em] Suc.prems(2) p q by (auto simp: entries_ok_def)
  with Suc.IH[OF rec] p q show ?case by (auto intro: exI[of _ "p @ q @ _"])
qed

lemma decoded_ok_step: "(d < kMaxNestingDepth \<Longrightarrow> decoded_ok (d + 1)) \<Longrightarrow> decoded_ok d"
proof -
  assume IH: "d < kMaxNestingDepth \<Longrightarrow> decoded_ok (d + 1)"
  have deep: "decoded_ok (d + 1)" if "d \<le> kMaxNestingDepth"
  proof (cases "d < kMaxNestingDepth")
    case False
    with that show ?thesis by (simp add: decoded_ok_def decodeValue.simps)
  qed (rule IH)
  show ?thesis
    unfolding decoded_ok_def
  proof (intro allI impI)
    fix bs v r
    assume dec: "decodeValue d bs = Inr (v, r)"
    then have d: "d \<le> kMaxNestingDepth" by (subst (asm) decodeValue.simps) (auto split: if_splits)
    have deep: "decoded_ok (Suc d)" using deep[OF d] by simp
    have empty: "entries_ok (Suc d) []" by (simp add: entries_ok_def)
    note dest = readByte_suffix readArgument_suffix readBigEndian_suffix readBytes_suffix
      decodeCollectionCount_suffix
    from dec d have "bs \<noteq> []" by (auto simp: decodeValue.simps)
    with dec obtain b r0 where bs: "bs = b # r0" and dec: "decodeValue d (b # r0) = Inr (v, r)"
      by (cases bs) auto
    have "cbor_ok v d \<and> (\<exists>p. r0 = p @ r)"
      using dec d deep
      by (subst (asm) decodeValue.simps)
        (auto simp: Let_def cbor_ok_CArray cbor_ok_CMap text_ok_def negative_decoding entries_ok_def
          split: if_splits sum.splits
          dest!: dest decodeItems_ok[OF deep] decodeEntries_ok[OF deep _ empty])
    then show "cbor_ok v d \<and> (\<exists>p. bs = p @ r)" by (auto simp: bs intro: exI[of _ "b # _"])
  qed
qed

lemma decoded_ok: "decoded_ok d"
proof (induction "Suc kMaxNestingDepth - d" arbitrary: d rule: less_induct)
  case less
  show ?case by (rule decoded_ok_step) (rule less.hyps, simp)
qed

lemma decodeValue_ok: "decodeValue d bs = Inr (v, r) \<Longrightarrow> cbor_ok v d"
  using decoded_ok[of d] unfolding decoded_ok_def by blast

text \<open>
  Property C39: encoding loses nothing.  Every well-formed value, whatever bytes follow it, is read
  back from its encoding as itself, and the reader is left exactly at those bytes.
\<close>

theorem cbor_roundtrip:
  assumes "cbor_ok v 0"
  shows "cbor_decode (cbor_encode v) = Inr v \<and>
     decodeValue 0 (cbor_encode v @ rest) = Inr (v, rest)"
  using assms by (simp add: cbor_decode_encode decodeValue_encode)

theorem cbor_roundtrip_witness:
  "cbor_decode (cbor_encode (CArray [CNegative (- 5), CBytes [1, 2]])) =
     Inr (CArray [CNegative (- 5), CBytes [1, 2]]) \<and>
   decodeValue 0 (cbor_encode (CArray [CNegative (- 5), CBytes [1, 2]]) @ [7]) =
     Inr (CArray [CNegative (- 5), CBytes [1, 2]], [7])"
  by (rule cbor_roundtrip)
    (simp add: cbor_ok_CArray kMaxNestingDepth_def kMaxCollectionElements_def)

text \<open>
  Integer and length heads have one encoding each.  An accepted head is exactly the
  bytes the encoder writes for that major type and argument, so two byte strings that are
  read as the same head with the same bytes after it are equal.
\<close>

theorem cbor_head_unique:
  "head_dec bs = Some (h, rest) \<longleftrightarrow> head_ok h \<and> bs = head_enc h @ rest"
  by (rule cbor_heads.dec_iff)

text \<open>
  Decoding and encoding again settles on one byte string.  The value read from any
  accepted input has an encoding that is read back as the same value; the canonical form
  of an input is reached in one step.
\<close>

theorem cbor_reencode_stable:
  assumes "cbor_decode data = Inr v"
  shows "cbor_decode (cbor_encode v) = Inr v"
proof -
  from assms have "cbor_ok v 0"
    by (auto simp: cbor_decode_def split: sum.splits if_splits dest: decodeValue_ok)
  then show ?thesis by (rule cbor_decode_encode)
qed

theorem cbor_reencode_stable_witness:
  "cbor_decode (cbor_encode (CMap [(''a'', CUnsigned 1), (''b'', CUnsigned 2)])) =
     Inr (CMap [(''a'', CUnsigned 1), (''b'', CUnsigned 2)])"
  by (rule cbor_reencode_stable[of "[0xA2, 0x61, 0x62, 0x02, 0x61, 0x61, 0x01]"]) code_simp

text \<open>
  The map keys are the exception to one encoding per value: two different byte strings,
  the same map with its keys in canonical order and out of order, are both accepted and
  give the same value.  Only the first is what the encoder writes.
\<close>

theorem cbor_map_order_not_unique:
  "cbor_decode [0xA2, 0x61, 0x61, 0x01, 0x61, 0x62, 0x02] = Inr (CMap [(''a'', CUnsigned 1), (''b'', CUnsigned 2)]) \<and>
   cbor_decode [0xA2, 0x61, 0x62, 0x02, 0x61, 0x61, 0x01] = Inr (CMap [(''a'', CUnsigned 1), (''b'', CUnsigned 2)]) \<and>
   cbor_encode (CMap [(''a'', CUnsigned 1), (''b'', CUnsigned 2)]) = [0xA2, 0x61, 0x61, 0x01, 0x61, 0x62, 0x02]"
  by (intro conjI) code_simp+

end
