(* ===== verification/CborSpec.thy ===== *)
theory CborSpec
  imports Cbor
begin

text \<open>
  What a decoded value is, said without the decoder: text is the UTF-8 of RFC 3629, defined by its encoder
  on Unicode scalar values, and the keys of a map are in the canonical order of RFC 7049, shorter ones first and
  those of one length byte by byte.  The values the decoder returns are exactly the values of
  this form.
\<close>

subsection \<open>UTF-8\<close>

text \<open>A Unicode scalar value, and the octets RFC 3629 encodes it in.\<close>

definition scalar_value :: "nat \<Rightarrow> bool" where
  "scalar_value c \<longleftrightarrow> c < 0xD800 \<or> 0xE000 \<le> c \<and> c \<le> 0x10FFFF"

definition utf8 :: "nat \<Rightarrow> nat list" where
  "utf8 c =
     (if c < 0x80 then [c]
      else if c < 0x800 then [0xC0 + c div 64, 0x80 + c mod 64]
      else if c < 0x10000 then [0xE0 + c div 4096, 0x80 + c div 64 mod 64, 0x80 + c mod 64]
      else [0xF0 + c div 262144, 0x80 + c div 4096 mod 64, 0x80 + c div 64 mod 64, 0x80 + c mod 64])"

definition unicode_text :: "bytes \<Rightarrow> bool" where
  "unicode_text bs \<longleftrightarrow> (\<exists>cs. list_all scalar_value cs \<and> map unat bs = concat (map utf8 cs))"

text \<open>The tests on a byte, as comparisons of its number.\<close>

lemma byte_tests:
  "list_all (\<lambda>n. let b = word_of_nat n :: u8 in
     (b AND 0xE0 = 0xC0 \<longleftrightarrow> 192 \<le> n \<and> n < 224) \<and> (b AND 0xF0 = 0xE0 \<longleftrightarrow> 224 \<le> n \<and> n < 240) \<and>
     (b AND 0xF8 = 0xF0 \<longleftrightarrow> 240 \<le> n \<and> n < 248) \<and> (b AND 0xC0 = 0x80 \<longleftrightarrow> 128 \<le> n \<and> n < 192) \<and>
     unat (b AND 0x1F) = n mod 32 \<and> unat (b AND 0x0F) = n mod 16 \<and>
     unat (b AND 0x07) = n mod 8 \<and> unat (b AND 0x3F) = n mod 64) [0..<256]"
  by code_simp

lemma byte_number:
  fixes b :: u8
  shows "b AND 0xE0 = 0xC0 \<longleftrightarrow> 192 \<le> unat b \<and> unat b < 224"
    and "b AND 0xF0 = 0xE0 \<longleftrightarrow> 224 \<le> unat b \<and> unat b < 240"
    and "b AND 0xF8 = 0xF0 \<longleftrightarrow> 240 \<le> unat b \<and> unat b < 248"
    and "b AND 0xC0 = 0x80 \<longleftrightarrow> 128 \<le> unat b \<and> unat b < 192"
    and "unat (b AND 0x1F) = unat b mod 32" and "unat (b AND 0x0F) = unat b mod 16"
    and "unat (b AND 0x07) = unat b mod 8" and "unat (b AND 0x3F) = unat b mod 64"
proof -
  have "unat b \<in> set [0..<256]" using unat_u8_lt[of b] by simp
  have inverse: "word_of_nat (unat b) = b" by simp
  note byte = bspec[OF byte_tests[unfolded list_all_iff] \<open>unat b \<in> set [0..<256]\<close>, unfolded Let_def inverse]
  show "b AND 0xE0 = 0xC0 \<longleftrightarrow> 192 \<le> unat b \<and> unat b < 224"
    "b AND 0xF0 = 0xE0 \<longleftrightarrow> 224 \<le> unat b \<and> unat b < 240"
    "b AND 0xF8 = 0xF0 \<longleftrightarrow> 240 \<le> unat b \<and> unat b < 248"
    "b AND 0xC0 = 0x80 \<longleftrightarrow> 128 \<le> unat b \<and> unat b < 192"
    "unat (b AND 0x1F) = unat b mod 32" "unat (b AND 0x0F) = unat b mod 16"
    "unat (b AND 0x07) = unat b mod 8" "unat (b AND 0x3F) = unat b mod 64"
    using byte by blast+
qed

lemma utf8_shift:
  fixes code :: u32 and b :: u8
  assumes "unat code < 2 ^ 20"
  shows "unat (push_bit 6 code OR ucast (b AND 0x3F)) = unat code * 64 + unat b mod 64"
proof -
  have u: "unat (ucast (b AND 0x3F) :: u32) = unat b mod 64"
    by (simp add: unsigned_ucast_eq take_bit_nat_eq_self byte_number)
  have "unat (push_bit 6 code) = unat code * 64"
    using assms by (simp add: push_bit_eq_mult unat_word_ariths)
  moreover have "push_bit 6 code OR ucast (b AND 0x3F) = push_bit 6 code + ucast (b AND 0x3F)"
  proof (rule disjunctive_add[symmetric])
    fix n
    have "unat (b AND 0x3F) < 2 ^ 6" by (simp add: byte_number)
    then have "n < 6" if "bit (b AND 0x3F) n" using that bit_lt by blast
    then show "\<not> bit (push_bit 6 code) n \<or> \<not> bit (ucast (b AND 0x3F) :: u32) n"
      by (cases "n < 6") (auto simp: bit_push_bit_iff bit_unsigned_iff)
  qed
  ultimately show ?thesis
    using assms u by (simp add: unat_word_ariths)
qed

lemma continue_None: "length data < n \<Longrightarrow> utf8_continue n code data = None"
  by (induction n code data rule: utf8_continue.induct) auto

lemma continue_step:
  "utf8_continue (Suc n) code (b # data) =
     (if 128 \<le> unat b \<and> unat b < 192 then utf8_continue n (push_bit 6 code OR ucast (b AND 0x3F)) data else None)"
  by (simp add: byte_number)

text \<open>A code point is its groups of six bits, and its octets are those groups.\<close>

lemma sixes:
  fixes p q :: nat
  assumes "q < 64"
  shows "(p * 64 + q) div 64 = p" and "(p * 64 + q) mod 64 = q"
  using assms by simp_all

lemma by_sixes: "c = c div 64 * 64 + c mod (64 :: nat)"
  by simp

lemma utf8_sixes:
  "utf8 c =
     (if c < 0x80 then [c]
      else if c < 0x800 then [0xC0 + c div 64, 0x80 + c mod 64]
      else if c < 0x10000 then [0xE0 + c div 64 div 64, 0x80 + c div 64 mod 64, 0x80 + c mod 64]
      else [0xF0 + c div 64 div 64 div 64, 0x80 + c div 64 div 64 mod 64, 0x80 + c div 64 mod 64, 0x80 + c mod 64])"
  by (simp add: utf8_def flip: div_mult2_eq)

lemma utf8_two:
  assumes "p < 32" and "q < 64" and "0x80 \<le> p * 64 + q"
  shows "utf8 (p * 64 + q) = [192 + p, 128 + q]"
proof -
  have "p * 64 + q < 0x800" using assms by simp
  with assms show ?thesis unfolding utf8_sixes by (simp add: sixes)
qed

lemma utf8_three:
  assumes "p < 16" and "q < 64" and "r < 64" and "0x800 \<le> (p * 64 + q) * 64 + r"
  shows "utf8 ((p * 64 + q) * 64 + r) = [224 + p, 128 + q, 128 + r]"
proof -
  have "(p * 64 + q) * 64 + r < 0x10000" using assms by simp
  with assms(2-4) show ?thesis unfolding utf8_sixes by (simp only: sixes) simp
qed

lemma utf8_four:
  assumes "q < 64" and "r < 64" and "t < 64" and "0x10000 \<le> ((p * 64 + q) * 64 + r) * 64 + t"
  shows "utf8 (((p * 64 + q) * 64 + r) * 64 + t) = [240 + p, 128 + q, 128 + r, 128 + t]"
  using assms unfolding utf8_sixes by (simp only: sixes) simp

lemma utf8_cases:
  assumes "scalar_value c"
  obtains (one) "c < 0x80" "utf8 c = [c]"
  | (two) p q where "p < 32" "q < 64" "0x80 \<le> p * 64 + q" "c = p * 64 + q" "utf8 c = [192 + p, 128 + q]"
  | (three) p q r where "p < 16" "q < 64" "r < 64" "0x800 \<le> c" "c = (p * 64 + q) * 64 + r"
      "utf8 c = [224 + p, 128 + q, 128 + r]"
  | (four) p q r t where "p < 8" "q < 64" "r < 64" "t < 64" "0x10000 \<le> c"
      "c = ((p * 64 + q) * 64 + r) * 64 + t" "utf8 c = [240 + p, 128 + q, 128 + r, 128 + t]"
proof -
  let ?p = "c div 64" let ?pp = "?p div 64" let ?ppp = "?pp div 64"
  have c: "c = ?p * 64 + c mod 64" "?p = ?pp * 64 + ?p mod 64" "?pp = ?ppp * 64 + ?pp mod 64"
    by (rule by_sixes)+
  have m: "c mod 64 < 64" "?p mod 64 < 64" "?pp mod 64 < 64" by simp_all
  consider "c < 0x80" | "0x80 \<le> c" "c < 0x800" | "0x800 \<le> c" "c < 0x10000" | "0x10000 \<le> c" by linarith
  then show ?thesis
  proof cases
    case 1
    then show ?thesis by (intro one) (simp_all add: utf8_def)
  next
    case 2
    then have "?p < 32" "utf8 c = [192 + ?p, 128 + c mod 64]" by (simp_all add: utf8_sixes)
    with 2 m c show ?thesis by (intro two[of ?p "c mod 64"]) simp_all
  next
    case 3
    then have "?pp < 16" "utf8 c = [224 + ?pp, 128 + ?p mod 64, 128 + c mod 64]" by (simp_all add: utf8_sixes)
    moreover have "c = (?pp * 64 + ?p mod 64) * 64 + c mod 64" using c by simp
    ultimately show ?thesis using 3 m by (intro three[of ?pp "?p mod 64" "c mod 64"])
  next
    case 4
    then have "?ppp < 8" "utf8 c = [240 + ?ppp, 128 + ?pp mod 64, 128 + ?p mod 64, 128 + c mod 64]"
      using assms by (simp_all add: utf8_sixes scalar_value_def)
    moreover have "c = ((?ppp * 64 + ?pp mod 64) * 64 + ?p mod 64) * 64 + c mod 64" using c by simp
    ultimately show ?thesis using 4 m by (intro four[of ?ppp "?pp mod 64" "?p mod 64" "c mod 64"])
  qed
qed

text \<open>Reading continuation bytes appends groups of six bits.\<close>

lemma continue_Suc:
  "utf8_continue (Suc n) code data = Some code' \<longleftrightarrow>
     (\<exists>x q r. data = x # r \<and> unat x = 128 + q \<and> q < 64 \<and>
        utf8_continue n (push_bit 6 code OR ucast (x AND 0x3F)) r = Some code')"
proof (cases data)
  case (Cons x r)
  have "128 \<le> unat x \<and> unat x < 192 \<longleftrightarrow> (\<exists>q. unat x = 128 + q \<and> q < 64)"
    by (auto intro: exI[of _ "unat x - 128"])
  then show ?thesis by (auto simp: Cons continue_step simp del: utf8_continue.simps)
qed simp

lemma shifted:
  fixes code :: u32 and x :: u8
  assumes "unat x = 128 + q" "q < 64" "unat code = p" "p < 2 ^ 20"
  shows "unat (push_bit 6 code OR ucast (x AND 0x3F)) = p * 64 + q"
proof -
  have q: "(128 + q) mod 64 = q" by (rule mod_nat_eqI) (use assms(2) in simp_all)
  show ?thesis unfolding utf8_shift[OF assms(4)[folded assms(3)]] by (simp only: assms(1,3) q)
qed

lemma valid_Cons:
  "isValidUtf8 (b # rest) \<longleftrightarrow>
     (if unat b < 128 then isValidUtf8 rest
      else if 192 \<le> unat b \<and> unat b < 224 then
        (\<exists>c. utf8_continue 1 (ucast (b AND 0x1F)) rest = Some c \<and> 0x80 \<le> unat c \<and> scalar_value (unat c) \<and>
           isValidUtf8 (drop 1 rest))
      else if 224 \<le> unat b \<and> unat b < 240 then
        (\<exists>c. utf8_continue 2 (ucast (b AND 0x0F)) rest = Some c \<and> 0x800 \<le> unat c \<and> scalar_value (unat c) \<and>
           isValidUtf8 (drop 2 rest))
      else if 240 \<le> unat b \<and> unat b < 248 then
        (\<exists>c. utf8_continue 3 (ucast (b AND 0x07)) rest = Some c \<and> 0x10000 \<le> unat c \<and> scalar_value (unat c) \<and>
           isValidUtf8 (drop 3 rest))
      else False)"
proof -
  have lead: "b < 0x80 \<longleftrightarrow> unat b < 128" by (simp add: word_less_nat_alt)
  have short: "utf8_continue n code rest = None" if "n \<ge> length (b # rest)" for n code
    using that by (intro continue_None) simp
  consider "unat b < 128" | "128 \<le> unat b" "unat b < 192" | "192 \<le> unat b" "unat b < 224"
    | "224 \<le> unat b" "unat b < 240" | "240 \<le> unat b" "unat b < 248" | "248 \<le> unat b" by linarith
  then show ?thesis
  proof cases
    case 3
    then show ?thesis
      using short[of 1]
      by (subst isValidUtf8.simps)
        (auto simp: lead byte_number scalar_value_def word_less_nat_alt word_le_nat_alt split: option.split if_splits)
  next
    case 4
    then show ?thesis
      using short[of 2]
      by (subst isValidUtf8.simps)
        (auto simp: lead byte_number scalar_value_def word_less_nat_alt word_le_nat_alt split: option.split if_splits)
  next
    case 5
    then show ?thesis
      using short[of 3]
      by (subst isValidUtf8.simps)
        (auto simp: lead byte_number scalar_value_def word_less_nat_alt word_le_nat_alt split: option.split if_splits)
  qed (subst isValidUtf8.simps, simp add: lead byte_number)+
qed

lemma lead_bits:
  fixes b :: u8
  shows "unat b = 192 + p \<Longrightarrow> p < 32 \<Longrightarrow> unat (ucast (b AND 0x1F) :: u32) = p"
    and "unat b = 224 + p \<Longrightarrow> p < 16 \<Longrightarrow> unat (ucast (b AND 0x0F) :: u32) = p"
    and "unat b = 240 + p \<Longrightarrow> p < 8 \<Longrightarrow> unat (ucast (b AND 0x07) :: u32) = p"
proof -
  have u: "unat (ucast (c :: u8) :: u32) = unat c" for c
    using unat_u8_lt[of c] by (simp add: unsigned_ucast_eq take_bit_nat_eq_self)
  have "(192 + p) mod 32 = p" if "p < 32" by (rule mod_nat_eqI) (use that in simp_all)
  then show "unat b = 192 + p \<Longrightarrow> p < 32 \<Longrightarrow> unat (ucast (b AND 0x1F) :: u32) = p"
    by (simp only: u byte_number)
  have "(224 + p) mod 16 = p" if "p < 16" by (rule mod_nat_eqI) (use that in simp_all)
  then show "unat b = 224 + p \<Longrightarrow> p < 16 \<Longrightarrow> unat (ucast (b AND 0x0F) :: u32) = p"
    by (simp only: u byte_number)
  have "(240 + p) mod 8 = p" if "p < 8" by (rule mod_nat_eqI) (use that in simp_all)
  then show "unat b = 240 + p \<Longrightarrow> p < 8 \<Longrightarrow> unat (ucast (b AND 0x07) :: u32) = p"
    by (simp only: u byte_number)
qed

text \<open>The continuation bytes of a lead byte give the code point made of all groups.\<close>

lemma continue_one:
  fixes code :: u32
  assumes "unat code = p" and "p < 2 ^ 20"
  shows "utf8_continue (Suc 0) code data = Some c \<longleftrightarrow>
      (\<exists>x q r. data = x # r \<and> unat x = 128 + q \<and> q < 64 \<and> unat c = p * 64 + q)"
proof -
  have eq: "d = c \<longleftrightarrow> unat d = unat c" for d by (simp add: word_unat_eq_iff)
  show ?thesis
    unfolding continue_Suc using shifted[OF _ _ assms] by (auto simp: eq)
qed

lemma continue_two:
  fixes code :: u32
  assumes "unat code = p" and "p < 2 ^ 12"
  shows "utf8_continue (Suc (Suc 0)) code data = Some c \<longleftrightarrow>
      (\<exists>x y q t r. data = x # y # r \<and> unat x = 128 + q \<and> q < 64 \<and> unat y = 128 + t \<and> t < 64 \<and>
         unat c = (p * 64 + q) * 64 + t)"
proof -
  have small: "p < 2 ^ 20" "\<And>q. q < 64 \<Longrightarrow> p * 64 + q < 2 ^ 20" using assms(2) by simp_all
  show ?thesis
    unfolding continue_Suc[of "Suc 0"]
    using continue_one[OF shifted[OF _ _ assms(1) small(1)] small(2)] by blast
qed

lemma continue_three:
  fixes code :: u32
  assumes "unat code = p" and "p < 32"
  shows "utf8_continue (Suc (Suc (Suc 0))) code data = Some c \<longleftrightarrow>
      (\<exists>x y z q t u r. data = x # y # z # r \<and> unat x = 128 + q \<and> q < 64 \<and> unat y = 128 + t \<and> t < 64 \<and>
         unat z = 128 + u \<and> u < 64 \<and> unat c = ((p * 64 + q) * 64 + t) * 64 + u)"
proof -
  have small: "p < 2 ^ 20" "\<And>q. q < 64 \<Longrightarrow> p * 64 + q < 2 ^ 12" using assms(2) by simp_all
  show ?thesis
    unfolding continue_Suc[of "Suc (Suc 0)"]
    using continue_two[OF shifted[OF _ _ assms(1) small(1)] small(2)] by blast
qed

text \<open>The scan accepts exactly the texts.\<close>

lemma unicode_Cons:
  assumes "unicode_text r" and "scalar_value c" and "map unat bs = utf8 c @ map unat r"
  shows "unicode_text bs"
proof -
  obtain cs where "list_all scalar_value cs" "map unat r = concat (map utf8 cs)"
    using assms(1) by (auto simp: unicode_text_def)
  with assms(2,3) show ?thesis unfolding unicode_text_def by (intro exI[of _ "c # cs"]) simp
qed

lemma valid_unicode: "isValidUtf8 bs \<Longrightarrow> unicode_text bs"
proof (induction "length bs" arbitrary: bs rule: less_induct)
  case less
  show ?case
  proof (cases bs)
    case Nil
    then show ?thesis unfolding unicode_text_def by (intro exI[of _ "[]"]) simp
  next
    case (Cons b rest)
    note valid = less.prems[unfolded Cons valid_Cons]
    have rec: "isValidUtf8 r \<Longrightarrow> length r \<le> length rest \<Longrightarrow> unicode_text r" for r
      using less.hyps[of r] by (simp add: Cons)
    consider "unat b < 128" | "192 \<le> unat b" "unat b < 224" | "224 \<le> unat b" "unat b < 240"
      | "240 \<le> unat b" "unat b < 248" using valid by (simp split: if_splits)
    then show ?thesis
    proof cases
      case 1
      then have "unicode_text rest" "scalar_value (unat b)" "utf8 (unat b) = [unat b]"
        using valid rec by (simp_all add: scalar_value_def utf8_def)
      then show ?thesis using unicode_Cons[of rest "unat b" bs] by (simp add: Cons)
    next
      case 2
      define p where "p = unat b - 192"
      have p: "unat b = 192 + p" "p < 32" using 2 by (simp_all add: p_def)
      obtain c where c: "utf8_continue 1 (ucast (b AND 0x1F)) rest = Some c" "0x80 \<le> unat c"
        "scalar_value (unat c)" "isValidUtf8 (drop 1 rest)"
        using valid 2 by (simp del: utf8_continue.simps drop_Suc) blast
      have "p < 2 ^ 20" using p(2) by simp
      then obtain x q r where x: "rest = x # r" "unat x = 128 + q" "q < 64" "unat c = p * 64 + q"
        using c(1) continue_one[OF lead_bits(1)[OF p]] unfolding One_nat_def by blast
      have "unicode_text r" using c(4) x(1) rec by simp
      moreover have "utf8 (unat c) = [unat b, unat x]" using utf8_two[OF p(2) x(3)] c(2) by (simp add: x p(1))
      ultimately show ?thesis using unicode_Cons[OF _ c(3)] by (simp add: Cons x(1))
    next
      case 3
      define p where "p = unat b - 224"
      have p: "unat b = 224 + p" "p < 16" using 3 by (simp_all add: p_def)
      obtain c where c: "utf8_continue 2 (ucast (b AND 0x0F)) rest = Some c" "0x800 \<le> unat c"
        "scalar_value (unat c)" "isValidUtf8 (drop 2 rest)"
        using valid 3 by (simp del: utf8_continue.simps drop_Suc) blast
      have "p < 2 ^ 12" using p(2) by simp
      then obtain x y q t r where x: "rest = x # y # r" "unat x = 128 + q" "q < 64" "unat y = 128 + t" "t < 64"
        "unat c = (p * 64 + q) * 64 + t"
        using c(1)[unfolded numeral_2_eq_2] continue_two[OF lead_bits(2)[OF p]] by blast
      have "unicode_text r" using c(4) x(1) rec by simp
      moreover have "utf8 (unat c) = [unat b, unat x, unat y]"
        using utf8_three[OF p(2) x(3,5)] c(2) unfolding x(6) x(2) x(4) p(1) by blast
      ultimately show ?thesis using unicode_Cons[OF _ c(3)] by (simp add: Cons x(1))
    next
      case 4
      define p where "p = unat b - 240"
      have p: "unat b = 240 + p" "p < 8" using 4 by (simp_all add: p_def)
      obtain c where c: "utf8_continue 3 (ucast (b AND 0x07)) rest = Some c"
        "0x10000 \<le> unat c" "scalar_value (unat c)" "isValidUtf8 (drop 3 rest)"
        using valid 4 by (simp del: utf8_continue.simps drop_Suc) blast
      have "p < 32" using p(2) by simp
      then obtain x y z q t u r where x: "rest = x # y # z # r" "unat x = 128 + q" "q < 64"
        "unat y = 128 + t" "t < 64" "unat z = 128 + u" "u < 64" "unat c = ((p * 64 + q) * 64 + t) * 64 + u"
        using c(1)[unfolded numeral_3_eq_3] continue_three[OF lead_bits(3)[OF p]] by blast
      have "unicode_text r" using c(4) x(1) rec by simp
      moreover have "utf8 (unat c) = [unat b, unat x, unat y, unat z]"
        using utf8_four[OF x(3,5,7)] c(2) unfolding x(8) x(2) x(4) x(6) p(1) by blast
      ultimately show ?thesis using unicode_Cons[OF _ c(3)] by (simp add: Cons x(1))
    qed
  qed
qed

lemma word_of_number: "n < 2 ^ 32 \<Longrightarrow> \<exists>c :: u32. unat c = n"
  by (intro exI[of _ "word_of_nat n"]) (simp add: unat_word_of_nat)

lemma unicode_valid: "list_all scalar_value cs \<Longrightarrow> map unat bs = concat (map utf8 cs) \<Longrightarrow> isValidUtf8 bs"
proof (induction cs arbitrary: bs)
  case Nil
  then show ?case by (simp add: isValidUtf8.simps)
next
  case (Cons d cs)
  have d: "scalar_value d" using Cons.prems by simp
  then obtain c :: u32 where c: "unat c = d"
    using word_of_number[of d] by (auto simp: scalar_value_def)
  from d show ?case
  proof (cases rule: utf8_cases)
    case one
    then obtain b r where "bs = b # r" "unat b = d" "map unat r = concat (map utf8 cs)"
      using Cons.prems by (cases bs) auto
    then show ?thesis using one Cons by (simp add: valid_Cons)
  next
    case (two p q)
    then obtain b x r where bs: "bs = b # x # r" "unat b = 192 + p" "unat x = 128 + q"
      "map unat r = concat (map utf8 cs)"
      using Cons.prems by (auto simp: map_eq_Cons_conv)
    have "p < 2 ^ 20" using two by simp
    then have "utf8_continue (Suc 0) (ucast (b AND 0x1F)) (x # r) = Some c"
      by (subst continue_one[OF lead_bits(1)[OF bs(2) two(1)]]) (use two bs(3) c in auto)
    moreover have "isValidUtf8 r" using Cons bs(4) by simp
    ultimately show ?thesis using two bs(2) c d by (auto simp: bs(1) valid_Cons)
  next
    case (three p q t)
    then obtain b x y r where bs: "bs = b # x # y # r" "unat b = 224 + p" "unat x = 128 + q" "unat y = 128 + t"
      "map unat r = concat (map utf8 cs)"
      using Cons.prems by (auto simp: map_eq_Cons_conv)
    have "p < 2 ^ 12" using three by simp
    then have "utf8_continue (Suc (Suc 0)) (ucast (b AND 0x0F)) (x # y # r) = Some c"
      by (subst continue_two[OF lead_bits(2)[OF bs(2) three(1)]]) (use three bs(3,4) c in auto)
    moreover have "isValidUtf8 r" using Cons bs(5) by simp
    ultimately show ?thesis using three bs(2) c d by (auto simp: bs(1) valid_Cons numeral_2_eq_2)
  next
    case (four p q t u)
    then obtain b x y z r where bs: "bs = b # x # y # z # r" "unat b = 240 + p" "unat x = 128 + q"
      "unat y = 128 + t" "unat z = 128 + u" "map unat r = concat (map utf8 cs)"
      using Cons.prems by (auto simp: map_eq_Cons_conv)
    have "p < 32" using four by simp
    then have "utf8_continue (Suc (Suc (Suc 0))) (ucast (b AND 0x07)) (x # y # z # r) = Some c"
      by (subst continue_three[OF lead_bits(3)[OF bs(2) four(1)]]) (use four bs(3-5) c in auto)
    moreover have "isValidUtf8 r" using Cons bs(6) by simp
    ultimately show ?thesis using four bs(2) c d by (auto simp: bs(1) valid_Cons numeral_3_eq_3)
  qed
qed

lemma isValidUtf8_text: "isValidUtf8 bs \<longleftrightarrow> unicode_text bs"
  using valid_unicode unicode_valid by (auto simp: unicode_text_def)

subsection \<open>The order of the keys\<close>

text \<open>
  RFC 7049, section 3.9: of two keys the shorter one comes first, and of two of the same length the one with the
  smaller byte where they first differ.
\<close>

definition key_before :: "string \<Rightarrow> string \<Rightarrow> bool" where
  "key_before j k \<longleftrightarrow> length j < length k \<or>
     length j = length k \<and>
       (\<exists>i < length j. take i j = take i k \<and> (of_char (j ! i) :: nat) < of_char (k ! i))"

lemma string_less_differ:
  "length s = length t \<Longrightarrow> string_less s t \<longleftrightarrow>
     (\<exists>i < length s. take i s = take i t \<and> (of_char (s ! i) :: nat) < of_char (t ! i))"
proof (induction s t rule: string_less.induct)
  case (3 x xs y ys)
  have split: "(\<exists>i < Suc n. P i) \<longleftrightarrow> P 0 \<or> (\<exists>i < n. P (Suc i))" for n and P :: "nat \<Rightarrow> bool"
    using less_Suc_eq_0_disj by auto
  from 3 show ?case by (auto simp: split)
qed auto

lemma canonicalKeyLess_key_before: "canonicalKeyLess j k \<longleftrightarrow> key_before j k"
  using string_less_differ[of j k] by (auto simp: canonicalKeyLess_def key_before_def)

subsection \<open>The values of the wire\<close>

primrec wire_value :: "cbor \<Rightarrow> nat \<Rightarrow> bool" where
  "wire_value (CUnsigned v) = (\<lambda>d. d \<le> 32)"
| "wire_value (CNegative v) = (\<lambda>d. d \<le> 32 \<and> sint v < 0)"
| "wire_value (CBytes v) = (\<lambda>d. d \<le> 32 \<and> length v < 2 ^ 64)"
| "wire_value (CText v) = (\<lambda>d. d \<le> 32 \<and> length v < 2 ^ 64 \<and> unicode_text (bytes_of_string v))"
| "wire_value (CArray vs) = (\<lambda>d. d \<le> 32 \<and> length vs \<le> 100000 \<and> list_all (\<lambda>ok. ok (d + 1)) (map wire_value vs))"
| "wire_value (CMap m) = (\<lambda>d. d \<le> 32 \<and> length m \<le> 100000 \<and> sorted_wrt key_before (map fst m) \<and>
     list_all (\<lambda>(k, ok). d + 1 \<le> 32 \<and> length k < 2 ^ 64 \<and> unicode_text (bytes_of_string k) \<and> ok (d + 1))
       (map (map_prod id wire_value) m))"
| "wire_value (CBoolean v) = (\<lambda>d. d \<le> 32)"
| "wire_value CNull = (\<lambda>d. d \<le> 32)"
| "wire_value (CDouble v) = (\<lambda>d. d \<le> 32)"

lemma wire_value_ok: "cbor_ok v d \<longleftrightarrow> wire_value v d"
proof (induction v arbitrary: d)
  case (CArray vs)
  then show ?case
    by (auto simp: cbor_ok_CArray kMaxNestingDepth_def kMaxCollectionElements_def list_all_iff)
next
  case (CMap m)
  have "cbor_ok v (d + 1) \<longleftrightarrow> wire_value v (d + 1)" if "(k, v) \<in> set m" for k v
    using CMap[OF that, of v] by simp
  then have entries: "(\<forall>k v. (k, v) \<in> set m \<longrightarrow> d + 1 \<le> 32 \<and> text_ok k \<and> cbor_ok v (d + 1)) \<longleftrightarrow>
      list_all (\<lambda>(k, ok). d + 1 \<le> 32 \<and> length k < 2 ^ 64 \<and> unicode_text (bytes_of_string k) \<and> ok (d + 1))
        (map (map_prod id wire_value) m)"
    unfolding list_all_iff text_ok_def isValidUtf8_text by fastforce
  have order: "map_wf m \<longleftrightarrow> sorted_wrt key_before (map fst m)"
    unfolding map_wf_def by (simp add: canonicalKeyLess_key_before[abs_def])
  show ?case
    unfolding cbor_ok_CMap wire_value.simps order entries[symmetric]
    by (simp add: kMaxNestingDepth_def kMaxCollectionElements_def)
qed (simp_all add: kMaxNestingDepth_def text_ok_def isValidUtf8_text)

lemma decoded_wellformed: "cbor_decode data = Inr v \<Longrightarrow> cbor_ok v 0"
  by (auto simp: cbor_decode_def split: sum.splits if_splits dest: decodeValue_ok)

text \<open>
  Property C38: the decoder returns exactly the values of the wire format.  There are bytes that decode to a value
  just when it is nested at most 32 deep, the keys of a map counting as a level, has at most 100000 elements in each collection,
  all its text is UTF-8 as RFC 3629 defines it, so without overlong forms, surrogates and code points above
  10FFFF, the keys of every map are strictly ordered as RFC 7049 has them, so without duplicates,
  and its negative numbers are negative.
\<close>

theorem cbor_decode_wellformed:
  "(\<exists>data. cbor_decode data = Inr v) \<longleftrightarrow> wire_value v 0"
proof
  assume "\<exists>data. cbor_decode data = Inr v"
  then show "wire_value v 0"
    by (metis decoded_wellformed wire_value_ok)
next
  assume "wire_value v 0"
  then have "cbor_decode (cbor_encode v) = Inr v" by (simp add: cbor_decode_encode wire_value_ok)
  then show "\<exists>data. cbor_decode data = Inr v" ..
qed

end
