(* ===== verification/Control.thy ===== *)
theory Control
  imports Cbor "HOL-Library.Monad_Syntax"
begin

text \<open>
  The control messages of \<open>core/include/rc/control.h\<close> and \<open>core/src/control.cpp\<close>: the envelope,
  the typed readers, and for every message of the protocol its builder and, for those the
  phone sends, its parser.  A parser that returns \<open>false\<close> is \<^const>\<open>None\<close>; one that returns
  \<open>true\<close> is \<^const>\<open>Some\<close> of its out-parameter.
\<close>

subsection \<open>The envelope\<close>

definition control_kMaxPayloadBytes :: nat where
  "control_kMaxPayloadBytes = 1024 * 1024"

definition kProtocolVersion :: u64 where
  "kProtocolVersion = 1"

definition kTypeKey :: string where
  "kTypeKey = ''t''"

datatype control_error = ControlNone | ControlPayloadTooLarge | MalformedCbor | NotAMap | MissingType

fun control_errorText :: "control_error \<Rightarrow> string" where
  "control_errorText ControlNone = ''none''"
| "control_errorText ControlPayloadTooLarge = ''control payload too large''"
| "control_errorText MalformedCbor = ''malformed cbor''"
| "control_errorText NotAMap = ''payload is not a map''"
| "control_errorText MissingType = ''missing or non-text type key''"

record message =
  msg_type :: string
  msg_fields :: "cbor smap"

definition put :: "string \<Rightarrow> cbor \<Rightarrow> cbor smap \<Rightarrow> cbor smap" where
  "put key value m = map_assign key value m"

definition makeMessage :: "string \<Rightarrow> message" where
  "makeMessage type = \<lparr>msg_type = type, msg_fields = []\<rparr>"

definition message_encode :: "message \<Rightarrow> bytes" where
  "message_encode m =
     (let fields = map_assign kTypeKey (CText (msg_type m)) (msg_fields m)
      in cbor_encode (CMap fields))"

text \<open>On failure the error and the CBOR error the caller logs.\<close>

definition message_decode :: "bytes \<Rightarrow> (control_error \<times> cbor_error) + message" where
  "message_decode data =
     (if length data > control_kMaxPayloadBytes then Inl (ControlPayloadTooLarge, CborNone)
      else case cbor_decode data of
        Inl e \<Rightarrow> Inl (MalformedCbor, e)
      | Inr value \<Rightarrow>
          (case asMap value of
             None \<Rightarrow> Inl (NotAMap, CborNone)
           | Some m \<Rightarrow>
               (case map_of m kTypeKey of
                  None \<Rightarrow> Inl (MissingType, CborNone)
                | Some t \<Rightarrow>
                    (case asText t of
                       None \<Rightarrow> Inl (MissingType, CborNone)
                     | Some type \<Rightarrow>
                         Inr \<lparr>msg_type = type, msg_fields = map_erase kTypeKey m\<rparr>))))"

subsection \<open>Typed readers\<close>

definition textAt :: "cbor smap \<Rightarrow> string \<Rightarrow> string option" where
  "textAt m key = (case map_of m key of None \<Rightarrow> None | Some v \<Rightarrow> asText v)"

definition unsignedAt :: "cbor smap \<Rightarrow> string \<Rightarrow> u64 option" where
  "unsignedAt m key = (case map_of m key of None \<Rightarrow> None | Some v \<Rightarrow> asUnsigned v)"

definition onlyFields :: "cbor smap \<Rightarrow> string list \<Rightarrow> bool" where
  "onlyFields m allowed \<longleftrightarrow> list_all (\<lambda>entry. List.member allowed (fst entry)) m"

definition msg_text :: "message \<Rightarrow> string \<Rightarrow> string option" where
  "msg_text m key = textAt (msg_fields m) key"

definition msg_bytes :: "message \<Rightarrow> string \<Rightarrow> bytes option" where
  "msg_bytes m key = (case map_of (msg_fields m) key of None \<Rightarrow> None | Some v \<Rightarrow> asBytes v)"

definition msg_unsignedInt :: "message \<Rightarrow> string \<Rightarrow> u64 option" where
  "msg_unsignedInt m key = unsignedAt (msg_fields m) key"

definition msg_boolean :: "message \<Rightarrow> string \<Rightarrow> bool option" where
  "msg_boolean m key = (case map_of (msg_fields m) key of None \<Rightarrow> None | Some v \<Rightarrow> asBoolean v)"

definition msg_number :: "message \<Rightarrow> string \<Rightarrow> f64 option" where
  "msg_number m key = (case map_of (msg_fields m) key of None \<Rightarrow> None | Some v \<Rightarrow> numericDouble v)"

lemmas msg_readers = textAt_def unsignedAt_def msg_text_def msg_bytes_def msg_unsignedInt_def
  msg_boolean_def msg_number_def

lemma onlyFields_iff: "onlyFields m allowed \<longleftrightarrow> fst ` set m \<subseteq> set allowed"
  by (auto simp: onlyFields_def list_all_iff)

lemma set_put: "fst ` set (put k v m) = insert k (fst ` set m)"
  by (simp add: put_def set_map_assign)

lemma map_of_put: "map_of (put k v m) j = (if j = k then Some v else map_of m j)"
  by (simp add: put_def map_of_assign)

lemma map_wf_put: "map_wf m \<Longrightarrow> map_wf (put k v m)"
  by (simp add: put_def map_wf_assign)

subsection \<open>Stream configuration\<close>

datatype codec = H264 | Hevc

definition codecName :: "codec \<Rightarrow> string" where
  "codecName c = (if c = Hevc then ''hevc'' else ''h264'')"

definition codecFromName :: "string \<Rightarrow> codec option" where
  "codecFromName name =
     (if name = ''hevc'' then Some Hevc else if name = ''h264'' then Some H264 else None)"

record stream_config =
  sc_codec :: codec
  sc_width :: u32
  sc_height :: u32
  sc_fps :: u32
  sc_bitrate :: u32

definition stream_config_valid :: "stream_config \<Rightarrow> bool" where
  "stream_config_valid c \<longleftrightarrow>
     (if sc_width c = 0 \<or> sc_height c = 0 then False
      else if sc_width c mod 2 \<noteq> 0 \<or> sc_height c mod 2 \<noteq> 0 then False
      else if sc_width c > 4096 \<or> sc_height c > 4096 then False
      else if (ucast (sc_width c) :: u64) * ucast (sc_height c) > 3840 * 2160 then False
      else if sc_fps c < 1 \<or> sc_fps c > 120 then False
      else if sc_bitrate c < 64000 \<or> sc_bitrate c > 100000000 then False
      else True)"

definition conservativeDefault :: stream_config where
  "conservativeDefault =
     \<lparr>sc_codec = H264, sc_width = 1280, sc_height = 720, sc_fps = 30, sc_bitrate = 4000000\<rparr>"

definition putStreamConfig :: "stream_config \<Rightarrow> cbor smap \<Rightarrow> cbor smap" where
  "putStreamConfig c m =
     (let m = put ''codec'' (CText (codecName (sc_codec c))) m;
          m = put ''width'' (CUnsigned (ucast (sc_width c))) m;
          m = put ''height'' (CUnsigned (ucast (sc_height c))) m;
          m = put ''fps'' (CUnsigned (ucast (sc_fps c))) m
      in put ''bitrate'' (CUnsigned (ucast (sc_bitrate c))) m)"

subsection \<open>PC to phone\<close>

definition serverInfo :: "string \<Rightarrow> string \<Rightarrow> bool \<Rightarrow> bool \<Rightarrow> string list \<Rightarrow> message" where
  "serverInfo name serverId paired allowUnauthenticated caps =
     (let m = msg_fields (makeMessage ''server_info'');
          m = put ''v'' (CUnsigned kProtocolVersion) m;
          m = put ''name'' (CText name) m;
          m = put ''id'' (CText serverId) m;
          m = put ''paired'' (CBoolean paired) m;
          m = put ''allow_unauthenticated'' (CBoolean allowUnauthenticated) m;
          m = put ''caps'' (CArray (map CText caps)) m
      in (makeMessage ''server_info'')\<lparr>msg_fields := m\<rparr>)"

definition ready :: "stream_config \<Rightarrow> message" where
  "ready config = \<lparr>msg_type = ''ready'', msg_fields = putStreamConfig config []\<rparr>"

definition setFormat :: "stream_config \<Rightarrow> u64 \<Rightarrow> message" where
  "setFormat config generation =
     \<lparr>msg_type = ''set_format'',
      msg_fields = put ''generation'' (CUnsigned generation) (putStreamConfig config [])\<rparr>"

definition setFormatLegacy :: "stream_config \<Rightarrow> message" where
  "setFormatLegacy config = \<lparr>msg_type = ''set_format'', msg_fields = putStreamConfig config []\<rparr>"

definition setCamera :: "string \<Rightarrow> string option \<Rightarrow> message" where
  "setCamera lens position =
     (let m = put ''lens'' (CText lens) [];
          m = (case position of Some p \<Rightarrow> put ''position'' (CText p) m | None \<Rightarrow> m)
      in \<lparr>msg_type = ''set_camera'', msg_fields = m\<rparr>)"

definition requestKeyframe :: message where
  "requestKeyframe = makeMessage ''request_keyframe''"

definition setPreview :: "bool \<Rightarrow> message" where
  "setPreview enabled =
     \<lparr>msg_type = ''set_preview'', msg_fields = put ''enabled'' (CBoolean enabled) []\<rparr>"

record auth_challenge =
  ac_serverNonce :: bytes
  ac_expiresUnixSeconds :: u64

definition authChallenge :: "auth_challenge \<Rightarrow> message" where
  "authChallenge value =
     (let m = put ''server_nonce'' (CBytes (ac_serverNonce value)) [];
          m = put ''expires'' (CUnsigned (ac_expiresUnixSeconds value)) m
      in \<lparr>msg_type = ''auth_challenge'', msg_fields = m\<rparr>)"

record auth_confirm =
  acf_serverProof :: bytes
  acf_sessionExpiresUnixSeconds :: u64

definition authConfirm :: "auth_confirm \<Rightarrow> message" where
  "authConfirm value =
     (let m = put ''server_proof'' (CBytes (acf_serverProof value)) [];
          m = put ''session_expires'' (CUnsigned (acf_sessionExpiresUnixSeconds value)) m
      in \<lparr>msg_type = ''auth_confirm'', msg_fields = m\<rparr>)"

record camera_controls =
  cc_zoom :: "f64 option"
  cc_focus :: "f64 option"
  cc_iso :: "f64 option"
  cc_exposure :: "f64 option"
  cc_ev :: "f64 option"
  cc_whiteBalance :: "f64 option"
  cc_focusMode :: "string option"
  cc_exposureMode :: "string option"
  cc_whiteBalanceMode :: "string option"
  cc_torch :: "bool option"
  cc_stabilization :: "bool option"

definition putOptional :: "('a \<Rightarrow> cbor) \<Rightarrow> string \<Rightarrow> 'a option \<Rightarrow> cbor smap \<Rightarrow> cbor smap" where
  "putOptional ctor key value m = (case value of Some v \<Rightarrow> put key (ctor v) m | None \<Rightarrow> m)"

definition setControl :: "camera_controls \<Rightarrow> message" where
  "setControl controls =
     (let m = putOptional CDouble ''zoom'' (cc_zoom controls) [];
          m = putOptional CDouble ''focus'' (cc_focus controls) m;
          m = putOptional CDouble ''iso'' (cc_iso controls) m;
          m = putOptional CDouble ''exposure'' (cc_exposure controls) m;
          m = putOptional CDouble ''ev'' (cc_ev controls) m;
          m = putOptional CDouble ''wb'' (cc_whiteBalance controls) m;
          m = putOptional CText ''focus_mode'' (cc_focusMode controls) m;
          m = putOptional CText ''exposure_mode'' (cc_exposureMode controls) m;
          m = putOptional CText ''wb_mode'' (cc_whiteBalanceMode controls) m;
          m = putOptional CBoolean ''torch'' (cc_torch controls) m;
          m = putOptional CBoolean ''stabilization'' (cc_stabilization controls) m
      in \<lparr>msg_type = ''set_control'', msg_fields = m\<rparr>)"

record stats_values =
  st_queueDepth :: u64
  st_decodeMillis :: f64
  st_drops :: u64
  st_rttMillis :: f64
  st_targetBitrate :: u64

definition stats :: "stats_values \<Rightarrow> message" where
  "stats value =
     (let m = put ''queue_depth'' (CUnsigned (st_queueDepth value)) [];
          m = put ''decode_ms'' (CDouble (st_decodeMillis value)) m;
          m = put ''drops'' (CUnsigned (st_drops value)) m;
          m = put ''rtt_ms'' (CDouble (st_rttMillis value)) m;
          m = put ''target_bitrate'' (CUnsigned (st_targetBitrate value)) m
      in \<lparr>msg_type = ''stats'', msg_fields = m\<rparr>)"

subsection \<open>Phone to PC: messages\<close>

record auth_response =
  ar_clientNonce :: bytes
  ar_clientProof :: bytes

record format_reject =
  fr_generation :: u64
  fr_code :: string
  fr_message :: string

record hello_values =
  h_version :: u64
  h_deviceName :: string
  h_deviceId :: string
  h_platform :: string
  h_model :: string
  h_caps :: "string list"
  h_allowUnauthenticated :: bool

record orientation_values =
  or_degrees :: f64
  or_locked :: bool

record battery_values =
  ba_level :: f64
  ba_charging :: bool

record camera_state =
  cs_deviceId :: "string option"
  cs_position :: string
  cs_lens :: string
  cs_zoom :: f64
  cs_focusMode :: string
  cs_focus :: f64
  cs_exposureMode :: string
  cs_iso :: f64
  cs_exposureSeconds :: f64
  cs_exposureBias :: f64
  cs_whiteBalanceMode :: string
  cs_whiteBalanceKelvin :: f64
  cs_torch :: bool
  cs_stabilization :: bool

record device_error =
  de_code :: string
  de_message :: string

text \<open>A \<open>CaptureFormat\<close> is a datatype so that it can carry the order \<open>capabilities\<close> sorts by.\<close>

datatype capture_format =
  CaptureFormat (cf_width: u32) (cf_height: u32) (cf_fps: u32)

record camera_descriptor =
  cd_id :: string
  cd_name :: string
  cd_position :: string
  cd_lens :: string
  cd_formats :: "capture_format list"

record caps_values =
  caps_cameras :: "camera_descriptor list"
  caps_codecs :: "string list"

subsection \<open>Phone to PC: builders\<close>

definition hello :: "string \<Rightarrow> string \<Rightarrow> string \<Rightarrow> string list \<Rightarrow> string \<Rightarrow> bool \<Rightarrow> message" where
  "hello deviceName deviceId model caps platform allowUnauthenticated =
     (let m = put ''v'' (CUnsigned kProtocolVersion) [];
          m = put ''device_name'' (CText deviceName) m;
          m = put ''device_id'' (CText deviceId) m;
          m = put ''platform'' (CText platform) m;
          m = put ''model'' (CText model) m;
          m = put ''allow_unauthenticated'' (CBoolean allowUnauthenticated) m;
          m = put ''caps'' (CArray (map CText caps)) m
      in \<lparr>msg_type = ''hello'', msg_fields = m\<rparr>)"

definition streamStart :: message where
  "streamStart = makeMessage ''stream_start''"

definition authResponse :: "auth_response \<Rightarrow> message" where
  "authResponse value =
     (let m = put ''client_nonce'' (CBytes (ar_clientNonce value)) [];
          m = put ''client_proof'' (CBytes (ar_clientProof value)) m
      in \<lparr>msg_type = ''auth_response'', msg_fields = m\<rparr>)"

definition formatAck :: "u64 \<Rightarrow> message" where
  "formatAck generation =
     \<lparr>msg_type = ''format_ack'', msg_fields = put ''generation'' (CUnsigned generation) []\<rparr>"

definition formatReject :: "format_reject \<Rightarrow> message" where
  "formatReject value =
     (let m = put ''generation'' (CUnsigned (fr_generation value)) [];
          m = put ''code'' (CText (fr_code value)) m;
          m = put ''message'' (CText (fr_message value)) m
      in \<lparr>msg_type = ''format_reject'', msg_fields = m\<rparr>)"

definition orientation :: "orientation_values \<Rightarrow> message" where
  "orientation value =
     (let m = put ''deg'' (CDouble (or_degrees value)) [];
          m = put ''locked'' (CBoolean (or_locked value)) m
      in \<lparr>msg_type = ''orientation'', msg_fields = m\<rparr>)"

definition thermal :: "string \<Rightarrow> message" where
  "thermal state = \<lparr>msg_type = ''thermal'', msg_fields = put ''state'' (CText state) []\<rparr>"

definition battery :: "battery_values \<Rightarrow> message" where
  "battery value =
     (let m = put ''level'' (CDouble (ba_level value)) [];
          m = put ''charging'' (CBoolean (ba_charging value)) m
      in \<lparr>msg_type = ''battery'', msg_fields = m\<rparr>)"

definition cameraState :: "camera_state \<Rightarrow> message" where
  "cameraState value =
     (let m = put ''device_id''
                (case cs_deviceId value of Some deviceId \<Rightarrow> CText deviceId | None \<Rightarrow> CNull) [];
          m = put ''position'' (CText (cs_position value)) m;
          m = put ''lens'' (CText (cs_lens value)) m;
          m = put ''zoom'' (CDouble (cs_zoom value)) m;
          m = put ''focus_mode'' (CText (cs_focusMode value)) m;
          m = put ''focus'' (CDouble (cs_focus value)) m;
          m = put ''exposure_mode'' (CText (cs_exposureMode value)) m;
          m = put ''iso'' (CDouble (cs_iso value)) m;
          m = put ''exposure'' (CDouble (cs_exposureSeconds value)) m;
          m = put ''ev'' (CDouble (cs_exposureBias value)) m;
          m = put ''wb_mode'' (CText (cs_whiteBalanceMode value)) m;
          m = put ''wb'' (CDouble (cs_whiteBalanceKelvin value)) m;
          m = put ''torch'' (CBoolean (cs_torch value)) m;
          m = put ''stabilization'' (CBoolean (cs_stabilization value)) m
      in \<lparr>msg_type = ''camera_state'', msg_fields = m\<rparr>)"

definition deviceError :: "device_error \<Rightarrow> message" where
  "deviceError value =
     (let m = put ''code'' (CText (de_code value)) [];
          m = put ''message'' (CText (de_message value)) m
      in \<lparr>msg_type = ''error'', msg_fields = m\<rparr>)"

text \<open>
  The comparison \<open>capabilities\<close> sorts the formats with: width, then height, then frame rate.
\<close>

fun formatLess :: "capture_format \<Rightarrow> capture_format \<Rightarrow> bool" where
  "formatLess (CaptureFormat w h f) (CaptureFormat w' h' f') =
     (if w \<noteq> w' then w < w' else if h \<noteq> h' then h < h' else f < f')"

instantiation capture_format :: linorder
begin

definition less_capture_format :: "capture_format \<Rightarrow> capture_format \<Rightarrow> bool" where
  "less_capture_format a b = formatLess a b"

definition less_eq_capture_format :: "capture_format \<Rightarrow> capture_format \<Rightarrow> bool" where
  "less_eq_capture_format a b = (a = b \<or> formatLess a b)"

instance
proof
  fix a b c :: capture_format
  show "(a < b) = (a \<le> b \<and> \<not> b \<le> a)"
    by (cases a; cases b) (auto simp: less_capture_format_def less_eq_capture_format_def split: if_splits)
  show "a \<le> a" by (simp add: less_eq_capture_format_def)
  show "a \<le> b \<Longrightarrow> b \<le> c \<Longrightarrow> a \<le> c"
    by (cases a; cases b; cases c) (auto simp: less_eq_capture_format_def split: if_splits)
  show "a \<le> b \<Longrightarrow> b \<le> a \<Longrightarrow> a = b"
    by (cases a; cases b) (auto simp: less_eq_capture_format_def split: if_splits)
  show "a \<le> b \<or> b \<le> a"
    by (cases a; cases b) (auto simp: less_eq_capture_format_def split: if_splits)
qed

end

fun encodeFormat :: "capture_format \<Rightarrow> cbor" where
  "encodeFormat (CaptureFormat width height fps) =
     (let m = put ''width'' (CUnsigned (ucast width)) [];
          m = put ''height'' (CUnsigned (ucast height)) m;
          m = put ''fps'' (CUnsigned (ucast fps)) m
      in CMap m)"

definition encodeCamera :: "camera_descriptor \<Rightarrow> cbor" where
  "encodeCamera descriptor =
     (let camera = put ''id'' (CText (cd_id descriptor)) [];
          camera = put ''name'' (CText (cd_name descriptor)) camera;
          camera = put ''position'' (CText (cd_position descriptor)) camera;
          camera = put ''lens'' (CText (cd_lens descriptor)) camera;
          formats = sort (cd_formats descriptor)
      in CMap (put ''formats'' (CArray (map encodeFormat formats)) camera))"

definition capabilities :: "caps_values \<Rightarrow> message" where
  "capabilities value =
     (let m = put ''cameras'' (CArray (map encodeCamera (caps_cameras value))) [];
          m = put ''codecs'' (CArray (map CText (caps_codecs value))) m
      in \<lparr>msg_type = ''caps'', msg_fields = m\<rparr>)"

subsection \<open>Phone to PC: parsers\<close>

definition nonEmpty :: "string \<Rightarrow> string option" where
  "nonEmpty s = (if s = [] then None else Some s)"

definition parseAuthResponse :: "message \<Rightarrow> auth_response option" where
  "parseAuthResponse message =
     (if msg_type message \<noteq> ''auth_response'' \<or>
         \<not> onlyFields (msg_fields message) [''client_nonce'', ''client_proof''] then None
      else do {
        nonce \<leftarrow> msg_bytes message ''client_nonce'';
        if length nonce \<noteq> 32 then None else do {
          proof' \<leftarrow> msg_bytes message ''client_proof'';
          if length proof' \<noteq> 32 then None
          else Some \<lparr>ar_clientNonce = nonce, ar_clientProof = proof'\<rparr>
        }
      })"

definition parseFormatAck :: "message \<Rightarrow> u64 option" where
  "parseFormatAck message =
     (if msg_type message = ''format_ack'' \<and> onlyFields (msg_fields message) [''generation'']
      then do {
        generation \<leftarrow> msg_unsignedInt message ''generation'';
        if generation \<noteq> 0 then Some generation else None
      }
      else None)"

definition parseFormatReject :: "message \<Rightarrow> format_reject option" where
  "parseFormatReject message =
     (if msg_type message \<noteq> ''format_reject'' \<or>
         \<not> onlyFields (msg_fields message) [''generation'', ''code'', ''message''] then None
      else do {
        generation \<leftarrow> msg_unsignedInt message ''generation'';
        if generation = 0 then None else do {
          code \<leftarrow> msg_text message ''code'';
          if code = [] \<or> length code > 128 then None else do {
            reason \<leftarrow> msg_text message ''message'';
            if reason = [] \<or> length reason > 1024 then None
            else Some \<lparr>fr_generation = generation, fr_code = code, fr_message = reason\<rparr>
          }
        }
      })"

text \<open>The lower-case hexadecimal digits, as the bytes \<open>'0'..'9'\<close> and \<open>'a'..'f'\<close>.\<close>

definition isLowerHex :: "char \<Rightarrow> bool" where
  "isLowerHex c \<longleftrightarrow>
     (let n = (of_char c :: nat) in (n \<ge> 48 \<and> n \<le> 57) \<or> (n \<ge> 97 \<and> n \<le> 102))"

definition validDeviceId :: "string \<Rightarrow> bool" where
  "validDeviceId value \<longleftrightarrow> (if length value \<noteq> 16 then False else list_all isLowerHex value)"

fun textItems :: "cbor list \<Rightarrow> string list option" where
  "textItems [] = Some []"
| "textItems (item # items) = do {
     text \<leftarrow> asText item;
     rest \<leftarrow> textItems items;
     Some (text # rest)
   }"

definition parseHello :: "message \<Rightarrow> hello_values option" where
  "parseHello message =
     (if msg_type message \<noteq> ''hello'' \<or>
         \<not> onlyFields (msg_fields message)
             [''v'', ''device_name'', ''device_id'', ''platform'', ''model'', ''caps'',
              ''allow_unauthenticated''] then None
      else do {
        version \<leftarrow> msg_unsignedInt message ''v'';
        deviceId \<leftarrow> msg_text message ''device_id'';
        if \<not> validDeviceId deviceId then None else do {
          deviceName \<leftarrow> Option.bind (msg_text message ''device_name'') nonEmpty;
          platform \<leftarrow> Option.bind (msg_text message ''platform'') nonEmpty;
          model \<leftarrow> Option.bind (msg_text message ''model'') nonEmpty;
          let allow = (case msg_boolean message ''allow_unauthenticated'' of
                         Some b \<Rightarrow> b | None \<Rightarrow> False);
          capsValue \<leftarrow> map_of (msg_fields message) ''caps'';
          items \<leftarrow> asArray capsValue;
          caps \<leftarrow> textItems items;
          Some \<lparr>h_version = version, h_deviceName = deviceName, h_deviceId = deviceId,
                h_platform = platform, h_model = model, h_caps = caps,
                h_allowUnauthenticated = allow\<rparr>
        }
      })"

definition hello_supports :: "hello_values \<Rightarrow> string \<Rightarrow> bool" where
  "hello_supports h capability = List.member (h_caps h) capability"

definition booleanOr :: "bool \<Rightarrow> bool option \<Rightarrow> bool" where
  "booleanOr absent b = (case b of Some v \<Rightarrow> v | None \<Rightarrow> absent)"

definition parseOrientation :: "message \<Rightarrow> orientation_values option" where
  "parseOrientation message =
     (if msg_type message \<noteq> ''orientation'' \<or>
         \<not> onlyFields (msg_fields message) [''deg'', ''locked''] then None
      else do {
        degrees \<leftarrow> msg_number message ''deg'';
        Some \<lparr>or_degrees = degrees, or_locked = booleanOr False (msg_boolean message ''locked'')\<rparr>
      })"

definition parseThermal :: "message \<Rightarrow> string option" where
  "parseThermal message =
     (if msg_type message \<noteq> ''thermal'' \<or> \<not> onlyFields (msg_fields message) [''state''] then None
      else msg_text message ''state'')"

definition parseBattery :: "message \<Rightarrow> battery_values option" where
  "parseBattery message =
     (if msg_type message \<noteq> ''battery'' \<or>
         \<not> onlyFields (msg_fields message) [''level'', ''charging''] then None
      else do {
        level \<leftarrow> msg_number message ''level'';
        Some \<lparr>ba_level = level, ba_charging = booleanOr False (msg_boolean message ''charging'')\<rparr>
      })"

text \<open>\<open>device_id\<close> may be absent or null; a value of any other type fails the message.\<close>

definition parseOptionalText :: "cbor option \<Rightarrow> string option option" where
  "parseOptionalText value =
     (case value of
        None \<Rightarrow> Some None
      | Some v \<Rightarrow> if v = CNull then Some None
                  else (case asText v of None \<Rightarrow> None | Some s \<Rightarrow> Some (Some s)))"

definition parseCameraState :: "message \<Rightarrow> camera_state option" where
  "parseCameraState message =
     (if msg_type message \<noteq> ''camera_state'' \<or>
         \<not> onlyFields (msg_fields message)
             [''device_id'', ''position'', ''lens'', ''zoom'', ''focus_mode'', ''focus'',
              ''exposure_mode'', ''iso'', ''exposure'', ''ev'', ''wb_mode'', ''wb'',
              ''torch'', ''stabilization''] then None
      else do {
        deviceId \<leftarrow> parseOptionalText (map_of (msg_fields message) ''device_id'');
        position \<leftarrow> msg_text message ''position'';
        lens \<leftarrow> msg_text message ''lens'';
        zoom \<leftarrow> msg_number message ''zoom'';
        focusMode \<leftarrow> msg_text message ''focus_mode'';
        focus \<leftarrow> msg_number message ''focus'';
        exposureMode \<leftarrow> msg_text message ''exposure_mode'';
        iso \<leftarrow> msg_number message ''iso'';
        exposureSeconds \<leftarrow> msg_number message ''exposure'';
        exposureBias \<leftarrow> msg_number message ''ev'';
        whiteBalanceMode \<leftarrow> msg_text message ''wb_mode'';
        whiteBalanceKelvin \<leftarrow> msg_number message ''wb'';
        torch \<leftarrow> msg_boolean message ''torch'';
        Some \<lparr>cs_deviceId = deviceId, cs_position = position, cs_lens = lens, cs_zoom = zoom,
              cs_focusMode = focusMode, cs_focus = focus, cs_exposureMode = exposureMode,
              cs_iso = iso, cs_exposureSeconds = exposureSeconds,
              cs_exposureBias = exposureBias, cs_whiteBalanceMode = whiteBalanceMode,
              cs_whiteBalanceKelvin = whiteBalanceKelvin, cs_torch = torch,
              cs_stabilization = booleanOr False (msg_boolean message ''stabilization'')\<rparr>
      })"

definition parseError :: "message \<Rightarrow> device_error option" where
  "parseError message =
     (if msg_type message \<noteq> ''error'' \<or>
         \<not> onlyFields (msg_fields message) [''code'', ''message''] then None
      else do {
        code \<leftarrow> msg_text message ''code'';
        text \<leftarrow> msg_text message ''message'';
        Some \<lparr>de_code = code, de_message = text\<rparr>
      })"

definition parseFormat :: "cbor \<Rightarrow> capture_format option" where
  "parseFormat formatEntry = do {
     format \<leftarrow> asMap formatEntry;
     if \<not> onlyFields format [''width'', ''height'', ''fps''] then None else do {
       width \<leftarrow> unsignedAt format ''width'';
       height \<leftarrow> unsignedAt format ''height'';
       fps \<leftarrow> unsignedAt format ''fps'';
       if width = 0 \<or> height = 0 \<or> fps = 0 \<or> width > 4096 \<or> height > 4096 \<or> fps > 120
       then None
       else Some (CaptureFormat (ucast width) (ucast height) (ucast fps))
     }
   }"

fun parseFormats :: "cbor list \<Rightarrow> capture_format list option" where
  "parseFormats [] = Some []"
| "parseFormats (entry # entries) = do {
     format \<leftarrow> parseFormat entry;
     rest \<leftarrow> parseFormats entries;
     Some (format # rest)
   }"

definition parseCamera :: "cbor \<Rightarrow> camera_descriptor option" where
  "parseCamera entry = do {
     camera \<leftarrow> asMap entry;
     if \<not> onlyFields camera [''id'', ''name'', ''position'', ''lens'', ''formats''] then None
     else do {
       ident \<leftarrow> Option.bind (textAt camera ''id'') nonEmpty;
       name \<leftarrow> textAt camera ''name'';
       position \<leftarrow> textAt camera ''position'';
       lens \<leftarrow> textAt camera ''lens'';
       formatsValue \<leftarrow> map_of camera ''formats'';
       items \<leftarrow> asArray formatsValue;
       formats \<leftarrow> parseFormats items;
       Some \<lparr>cd_id = ident, cd_name = name, cd_position = position, cd_lens = lens,
             cd_formats = formats\<rparr>
     }
   }"

fun parseCameras :: "cbor list \<Rightarrow> camera_descriptor list option" where
  "parseCameras [] = Some []"
| "parseCameras (entry # entries) = do {
     camera \<leftarrow> parseCamera entry;
     rest \<leftarrow> parseCameras entries;
     Some (camera # rest)
   }"

fun parseCodecs :: "cbor list \<Rightarrow> string list option" where
  "parseCodecs [] = Some []"
| "parseCodecs (item # items) = do {
     text \<leftarrow> asText item;
     if text \<noteq> ''h264'' \<and> text \<noteq> ''hevc'' then None else do {
       rest \<leftarrow> parseCodecs items;
       Some (text # rest)
     }
   }"

definition parseCaps :: "message \<Rightarrow> caps_values option" where
  "parseCaps message =
     (if msg_type message \<noteq> ''caps'' \<or>
         \<not> onlyFields (msg_fields message) [''cameras'', ''codecs''] then None
      else do {
        camerasValue \<leftarrow> map_of (msg_fields message) ''cameras'';
        cameraItems \<leftarrow> asArray camerasValue;
        cameras \<leftarrow> parseCameras cameraItems;
        codecsValue \<leftarrow> map_of (msg_fields message) ''codecs'';
        codecItems \<leftarrow> asArray codecsValue;
        codecs \<leftarrow> parseCodecs codecItems;
        Some \<lparr>caps_cameras = cameras, caps_codecs = codecs\<rparr>
      })"

text \<open>\<open>Caps::preferredCodec\<close>: the loop over the names, with the flag \<open>hasH264\<close>.\<close>

fun preferredCodec_loop :: "bool \<Rightarrow> string list \<Rightarrow> codec option" where
  "preferredCodec_loop hasH264 [] = (if hasH264 then Some H264 else None)"
| "preferredCodec_loop hasH264 (name # names) =
     (if name = ''hevc'' then Some Hevc
      else preferredCodec_loop (hasH264 \<or> name = ''h264'') names)"

definition preferredCodec :: "caps_values \<Rightarrow> codec option" where
  "preferredCodec caps = preferredCodec_loop False (caps_codecs caps)"

subsection \<open>Messages over the wire\<close>

text \<open>
  What can be sent: fields that a CBOR map can hold one level down, and no field of the
  reserved key.  \<open>fields_ok\<close> keeps \<open>room\<close> for that many more fields.
\<close>

definition fields_ok :: "nat \<Rightarrow> nat \<Rightarrow> cbor smap \<Rightarrow> bool" where
  "fields_ok room d m \<longleftrightarrow> map_wf m \<and> length m + room \<le> unat kMaxCollectionElements \<and>
     list_all (\<lambda>(k, v). text_ok k \<and> cbor_ok v d) m"

definition message_ok :: "message \<Rightarrow> bool" where
  "message_ok m \<longleftrightarrow> text_ok (msg_type m) \<and> fields_ok 1 1 (msg_fields m) \<and>
     map_of (msg_fields m) kTypeKey = None"

lemma set_map_assign_subset: "set (map_assign k v m) \<subseteq> insert (k, v) (set m)"
  by (induction k v m rule: map_assign.induct) auto

lemma length_map_assign: "length (map_assign k v m) \<le> Suc (length m)"
  by (induction k v m rule: map_assign.induct) auto

lemma fields_ok_Nil: "room \<le> unat kMaxCollectionElements \<Longrightarrow> fields_ok room d []"
  by (simp add: fields_ok_def)

lemma fields_ok_put:
  assumes "fields_ok (Suc room) d m" and "text_ok k" and "cbor_ok v d"
  shows "fields_ok room d (put k v m)"
  using assms set_map_assign_subset[of k v m] length_map_assign[of k v m]
  by (fastforce simp: fields_ok_def put_def list_all_iff intro: map_wf_assign)

lemma fields_ok_CMap: "fields_ok 0 (d + 1) m \<Longrightarrow> d + 1 \<le> kMaxNestingDepth \<Longrightarrow> cbor_ok (CMap m) d"
  by (auto simp: fields_ok_def cbor_ok_CMap list_all_iff)

definition ascii :: "string \<Rightarrow> bool" where
  "ascii s \<longleftrightarrow> list_all (\<lambda>c. \<not> digit7 c) s"

lemma ascii_byte: "\<not> digit7 c \<Longrightarrow> (word_of_nat (of_char c) :: u8) < 128"
proof -
  assume "\<not> digit7 c"
  then have "(of_char c :: nat) < 128"
    by (cases c) (auto simp: of_char_def)
  then show ?thesis using of_char_lt_256[of c] by (simp add: word_less_nat_alt unat_word_of_nat)
qed

lemma valid_ascii: "list_all (\<lambda>b. b < (128::u8)) bs \<Longrightarrow> isValidUtf8 bs"
  by (induction bs) (auto simp: isValidUtf8.simps word_less_nat_alt word_le_nat_alt)

lemma ascii_Nil [simp]: "ascii []" and ascii_Cons [simp]: "ascii (c # s) \<longleftrightarrow> \<not> digit7 c \<and> ascii s"
  by (simp_all add: ascii_def)

lemma ascii_text_ok: "ascii s \<Longrightarrow> length s < 2 ^ 64 \<Longrightarrow> text_ok s"
  unfolding text_ok_def
  by (auto simp: ascii_def bytes_of_string_def list_all_iff intro!: valid_ascii ascii_byte)

lemma text_ok_keys [simp]:
  "text_ok ''t''" "text_ok ''v''" "text_ok ''device_name''" "text_ok ''device_id''"
  "text_ok ''platform''" "text_ok ''model''" "text_ok ''allow_unauthenticated''" "text_ok ''caps''"
  "text_ok ''client_nonce''" "text_ok ''client_proof''" "text_ok ''generation''" "text_ok ''code''"
  "text_ok ''message''" "text_ok ''deg''" "text_ok ''locked''" "text_ok ''state''"
  "text_ok ''level''" "text_ok ''charging''" "text_ok ''position''" "text_ok ''lens''"
  "text_ok ''zoom''" "text_ok ''focus_mode''" "text_ok ''focus''" "text_ok ''exposure_mode''"
  "text_ok ''iso''" "text_ok ''exposure''" "text_ok ''ev''" "text_ok ''wb_mode''" "text_ok ''wb''"
  "text_ok ''torch''" "text_ok ''stabilization''" "text_ok ''cameras''" "text_ok ''codecs''"
  "text_ok ''id''" "text_ok ''name''" "text_ok ''formats''" "text_ok ''width''"
  "text_ok ''height''" "text_ok ''fps''" "text_ok ''hello''" "text_ok ''auth_response''"
  "text_ok ''format_ack''" "text_ok ''format_reject''" "text_ok ''orientation''"
  "text_ok ''thermal''" "text_ok ''battery''" "text_ok ''camera_state''" "text_ok ''error''"
  by (rule ascii_text_ok; simp)+

lemma kMaxNestingDepth_ge [simp]: "n \<le> 32 \<Longrightarrow> n \<le> kMaxNestingDepth"
  by (simp add: kMaxNestingDepth_def)

lemma kMaxCollectionElements_nat: "unat kMaxCollectionElements = 100000"
  by (simp add: kMaxCollectionElements_def)

lemma message_decode_encode:
  assumes "message_ok m" and "length (message_encode m) \<le> control_kMaxPayloadBytes"
  shows "message_decode (message_encode m) = Inr m"
proof -
  let ?fields = "map_assign kTypeKey (CText (msg_type m)) (msg_fields m)"
  from assms(1) have wf: "map_wf (msg_fields m)" and absent: "map_of (msg_fields m) kTypeKey = None"
    by (simp_all add: message_ok_def fields_ok_def)
  have "fields_ok 0 1 (put kTypeKey (CText (msg_type m)) (msg_fields m))"
    using assms(1) by (intro fields_ok_put) (simp_all add: message_ok_def kTypeKey_def)
  then have "cbor_ok (CMap ?fields) 0"
    by (intro fields_ok_CMap) (simp_all add: put_def)
  then have "cbor_decode (message_encode m) = Inr (CMap ?fields)"
    by (simp only: message_encode_def Let_def cbor_decode_encode)
  moreover have "map_erase kTypeKey ?fields = msg_fields m"
    using wf absent by (simp add: smap.erase_assign smap.erase_absent)
  ultimately show ?thesis
    using assms(2) by (simp add: message_decode_def map_of_assign)
qed

lemma message_decode_fields:
  assumes "message_decode data = Inr m"
  shows "map_of (msg_fields m) kTypeKey = None \<and> map_wf (msg_fields m)"
proof -
  from assms obtain f where f: "cbor_decode data = Inr (CMap f)"
    and m: "msg_fields m = map_erase kTypeKey f"
    by (auto simp: message_decode_def split: if_splits sum.splits option.splits elim!: asMap.elims)
  from f have "cbor_ok (CMap f) 0"
    by (auto simp: cbor_decode_def split: sum.splits if_splits dest: decodeValue_ok)
  then show ?thesis by (simp add: m cbor_ok_CMap map_of_erase map_wf_erase)
qed

subsection \<open>The contract of a message's builder and parser\<close>

locale message_codec =
  fixes build :: "'a \<Rightarrow> message"
    and parse :: "message \<Rightarrow> 'a option"
    and ok :: "'a \<Rightarrow> bool"
    and kind :: string
    and allowed :: "string list"
  assumes parse_build: "ok v \<Longrightarrow> parse (build v) = Some v"
    and build_ok: "ok v \<Longrightarrow> message_ok (build v)"
    and parse_only: "parse m = Some v \<Longrightarrow> msg_type m = kind \<and> onlyFields (msg_fields m) allowed"
begin

lemma over_the_wire:
  assumes "ok v" and "length (message_encode (build v)) \<le> control_kMaxPayloadBytes"
  shows "\<exists>m. message_decode (message_encode (build v)) = Inr m \<and> parse m = Some v"
  using assms by (auto simp: build_ok parse_build message_decode_encode)

lemma build_inject: "ok v \<Longrightarrow> ok w \<Longrightarrow> build v = build w \<longleftrightarrow> v = w"
  by (metis option.inject parse_build)

lemma other_type: "msg_type m \<noteq> kind \<Longrightarrow> parse m = None"
  by (cases "parse m") (auto dest: parse_only)

lemma unknown_field:
  assumes "map_of (msg_fields m) k = Some x" and "k \<notin> set allowed"
  shows "parse m = None"
  proof (cases "parse m")
  case (Some v)
  then have "k \<in> set allowed" using assms(1) parse_only[OF Some] by (auto simp: onlyFields_iff dest: map_of_fst)
  with assms(2) show ?thesis by simp
qed

end

end
