(* ===== verification/Messages.thy ===== *)
theory Messages
  imports Control
begin

text \<open>
  What the control messages of \<open>Control\<close> promise: for every message the phone sends, that its
  parser reads back what its builder wrote and accepts no field the protocol does not name
  (\<open>message_codec\<close>, interpreted once per message), the bounds of \<open>StreamConfig::valid\<close> over
  the integers, and the choice of a codec.
\<close>

subsection \<open>What a sender may put into a message\<close>

definition auth_response_ok :: "auth_response \<Rightarrow> bool" where
  "auth_response_ok v \<longleftrightarrow> length (ar_clientNonce v) = 32 \<and> length (ar_clientProof v) = 32"

definition format_reject_ok :: "format_reject \<Rightarrow> bool" where
  "format_reject_ok v \<longleftrightarrow> fr_generation v \<noteq> 0 \<and>
     fr_code v \<noteq> [] \<and> length (fr_code v) \<le> 128 \<and> text_ok (fr_code v) \<and>
     fr_message v \<noteq> [] \<and> length (fr_message v) \<le> 1024 \<and> text_ok (fr_message v)"

definition texts_ok :: "string list \<Rightarrow> bool" where
  "texts_ok ts \<longleftrightarrow> length ts \<le> unat kMaxCollectionElements \<and> list_all text_ok ts"

definition hello_ok :: "hello_values \<Rightarrow> bool" where
  "hello_ok h \<longleftrightarrow> h_version h = kProtocolVersion \<and> validDeviceId (h_deviceId h) \<and>
     h_deviceName h \<noteq> [] \<and> text_ok (h_deviceName h) \<and>
     h_platform h \<noteq> [] \<and> text_ok (h_platform h) \<and>
     h_model h \<noteq> [] \<and> text_ok (h_model h) \<and> texts_ok (h_caps h)"

definition camera_state_ok :: "camera_state \<Rightarrow> bool" where
  "camera_state_ok c \<longleftrightarrow>
     (case cs_deviceId c of None \<Rightarrow> True | Some s \<Rightarrow> text_ok s) \<and>
     list_all text_ok [cs_position c, cs_lens c, cs_focusMode c, cs_exposureMode c,
                       cs_whiteBalanceMode c] \<and>
     list_all dbl_isfinite [cs_zoom c, cs_focus c, cs_iso c, cs_exposureSeconds c,
                            cs_exposureBias c, cs_whiteBalanceKelvin c]"

fun format_ok :: "capture_format \<Rightarrow> bool" where
  "format_ok (CaptureFormat w h f) \<longleftrightarrow>
     w \<noteq> 0 \<and> h \<noteq> 0 \<and> f \<noteq> 0 \<and> w \<le> 4096 \<and> h \<le> 4096 \<and> f \<le> 120"

definition camera_ok :: "camera_descriptor \<Rightarrow> bool" where
  "camera_ok c \<longleftrightarrow> cd_id c \<noteq> [] \<and>
     list_all text_ok [cd_id c, cd_name c, cd_position c, cd_lens c] \<and>
     length (cd_formats c) \<le> unat kMaxCollectionElements \<and> list_all format_ok (cd_formats c)"

definition caps_ok :: "caps_values \<Rightarrow> bool" where
  "caps_ok c \<longleftrightarrow>
     length (caps_cameras c) \<le> unat kMaxCollectionElements \<and> list_all camera_ok (caps_cameras c) \<and>
     length (caps_codecs c) \<le> unat kMaxCollectionElements \<and>
     list_all (\<lambda>n. n = ''h264'' \<or> n = ''hevc'') (caps_codecs c)"

text \<open>The order \<open>capabilities\<close> puts the formats of each camera into.\<close>

definition sort_formats :: "caps_values \<Rightarrow> caps_values" where
  "sort_formats c =
     \<lparr>caps_cameras = map (\<lambda>d. d\<lparr>cd_formats := sort (cd_formats d)\<rparr>) (caps_cameras c),
      caps_codecs = caps_codecs c\<rparr>"

definition hello_message :: "hello_values \<Rightarrow> message" where
  "hello_message h = hello (h_deviceName h) (h_deviceId h) (h_model h) (h_caps h)
     (h_platform h) (h_allowUnauthenticated h)"

lemmas put_simps = map_of_put onlyFields_iff set_put msg_readers booleanOr_def nonEmpty_def

lemma message_okI:
  assumes "text_ok t" and "fields_ok 1 1 m" and "map_of m ''t'' = None"
  shows "message_ok \<lparr>msg_type = t, msg_fields = m\<rparr>"
  using assms by (simp add: message_ok_def kTypeKey_def)

lemma validDeviceId_text: "validDeviceId s \<Longrightarrow> text_ok s"
proof (rule ascii_text_ok)
  assume v: "validDeviceId s"
  show "ascii s" unfolding ascii_def list_all_iff
  proof
    fix c assume "c \<in> set s"
    with v have "isLowerHex c" by (auto simp: validDeviceId_def list_all_iff split: if_splits)
    then have "(of_char c :: nat) < 128" by (auto simp: isLowerHex_def Let_def)
    then show "\<not> digit7 c" by (cases c) (auto simp: of_char_def split: if_splits)
  qed
  from v show "length s < 2 ^ 64" by (simp add: validDeviceId_def split: if_splits)
qed

subsection \<open>The messages of the phone\<close>

interpretation auth_response_codec: message_codec authResponse parseAuthResponse auth_response_ok
  "''auth_response''" "[''client_nonce'', ''client_proof'']"
proof
  fix v m w
  assume ok: "auth_response_ok v"
  then show "parseAuthResponse (authResponse v) = Some v"
    by (simp add: authResponse_def parseAuthResponse_def put_simps auth_response_ok_def)
  from ok show "message_ok (authResponse v)"
    unfolding authResponse_def Let_def
    by (intro message_okI fields_ok_put fields_ok_Nil)
      (simp_all add: put_simps auth_response_ok_def kMaxCollectionElements_nat)
next
  fix m w
  assume "parseAuthResponse m = Some w"
  then show "msg_type m = ''auth_response'' \<and> onlyFields (msg_fields m) [''client_nonce'', ''client_proof'']"
    by (auto simp: parseAuthResponse_def split: if_splits)
qed

interpretation format_ack_codec: message_codec formatAck parseFormatAck "\<lambda>g. g \<noteq> 0"
  "''format_ack''" "[''generation'']"
proof
  fix v :: u64
  assume ok: "v \<noteq> 0"
  then show "parseFormatAck (formatAck v) = Some v"
    by (simp add: formatAck_def parseFormatAck_def put_simps)
  from ok show "message_ok (formatAck v)"
    unfolding formatAck_def
    by (intro message_okI fields_ok_put fields_ok_Nil)
      (simp_all add: put_simps kMaxCollectionElements_nat)
next
  fix m w
  assume "parseFormatAck m = Some w"
  then show "msg_type m = ''format_ack'' \<and> onlyFields (msg_fields m) [''generation'']"
    by (auto simp: parseFormatAck_def split: if_splits)
qed

interpretation format_reject_codec: message_codec formatReject parseFormatReject format_reject_ok
  "''format_reject''" "[''generation'', ''code'', ''message'']"
proof
  fix v
  assume ok: "format_reject_ok v"
  then show "parseFormatReject (formatReject v) = Some v"
    by (simp add: formatReject_def parseFormatReject_def put_simps format_reject_ok_def)
  from ok show "message_ok (formatReject v)"
    unfolding formatReject_def Let_def
    by (intro message_okI fields_ok_put fields_ok_Nil)
      (simp_all add: put_simps format_reject_ok_def kMaxCollectionElements_nat)
next
  fix m w
  assume "parseFormatReject m = Some w"
  then show "msg_type m = ''format_reject'' \<and>
      onlyFields (msg_fields m) [''generation'', ''code'', ''message'']"
    by (auto simp: parseFormatReject_def split: if_splits)
qed

lemma textItems_map [simp]: "textItems (map CText ts) = Some ts"
  by (induction ts) simp_all

lemma cbor_ok_texts: "texts_ok ts \<Longrightarrow> cbor_ok (CArray (map CText ts)) (Suc 0)"
  by (auto simp: texts_ok_def cbor_ok_CArray list_all_iff)

interpretation hello_codec: message_codec hello_message parseHello hello_ok
  "''hello''" "[''v'', ''device_name'', ''device_id'', ''platform'', ''model'', ''caps'',
    ''allow_unauthenticated'']"
proof
  fix v
  assume ok: "hello_ok v"
  then show "parseHello (hello_message v) = Some v"
    by (simp add: hello_message_def hello_def parseHello_def put_simps hello_ok_def)
  from ok show "message_ok (hello_message v)"
    unfolding hello_message_def hello_def Let_def
    by (intro message_okI fields_ok_put fields_ok_Nil)
      (simp_all add: put_simps hello_ok_def kMaxCollectionElements_nat validDeviceId_text cbor_ok_texts)
next
  fix m w
  assume "parseHello m = Some w"
  then show "msg_type m = ''hello'' \<and> onlyFields (msg_fields m)
      [''v'', ''device_name'', ''device_id'', ''platform'', ''model'', ''caps'',
        ''allow_unauthenticated'']"
    by (auto simp: parseHello_def split: if_splits)
qed

interpretation orientation_codec: message_codec orientation parseOrientation
  "\<lambda>v :: orientation_values. dbl_isfinite (or_degrees v)" "''orientation''" "[''deg'', ''locked'']"
proof
  fix v :: orientation_values
  assume ok: "dbl_isfinite (or_degrees v)"
  then show "parseOrientation (orientation v) = Some v"
    by (simp add: orientation_def parseOrientation_def put_simps)
  show "message_ok (orientation v)"
    unfolding orientation_def Let_def
    by (intro message_okI fields_ok_put fields_ok_Nil)
      (simp_all add: put_simps kMaxCollectionElements_nat)
next
  fix m w
  assume "parseOrientation m = Some w"
  then show "msg_type m = ''orientation'' \<and> onlyFields (msg_fields m) [''deg'', ''locked'']"
    by (auto simp: parseOrientation_def split: if_splits)
qed

interpretation thermal_codec: message_codec thermal parseThermal text_ok "''thermal''" "[''state'']"
proof
  fix v
  assume ok: "text_ok v"
  then show "parseThermal (thermal v) = Some v"
    by (simp add: thermal_def parseThermal_def put_simps)
  from ok show "message_ok (thermal v)"
    unfolding thermal_def
    by (intro message_okI fields_ok_put fields_ok_Nil)
      (simp_all add: put_simps kMaxCollectionElements_nat)
next
  fix m w
  assume "parseThermal m = Some w"
  then show "msg_type m = ''thermal'' \<and> onlyFields (msg_fields m) [''state'']"
    by (auto simp: parseThermal_def split: if_splits)
qed

interpretation battery_codec: message_codec battery parseBattery
  "\<lambda>v :: battery_values. dbl_isfinite (ba_level v)" "''battery''" "[''level'', ''charging'']"
proof
  fix v :: battery_values
  assume ok: "dbl_isfinite (ba_level v)"
  then show "parseBattery (battery v) = Some v"
    by (simp add: battery_def parseBattery_def put_simps)
  show "message_ok (battery v)"
    unfolding battery_def Let_def
    by (intro message_okI fields_ok_put fields_ok_Nil)
      (simp_all add: put_simps kMaxCollectionElements_nat)
next
  fix m w
  assume "parseBattery m = Some w"
  then show "msg_type m = ''battery'' \<and> onlyFields (msg_fields m) [''level'', ''charging'']"
    by (auto simp: parseBattery_def split: if_splits)
qed

interpretation device_error_codec: message_codec deviceError parseError
  "\<lambda>v :: device_error. text_ok (de_code v) \<and> text_ok (de_message v)" "''error''" "[''code'', ''message'']"
proof
  fix v :: device_error
  assume ok: "text_ok (de_code v) \<and> text_ok (de_message v)"
  then show "parseError (deviceError v) = Some v"
    by (simp add: deviceError_def parseError_def put_simps)
  from ok show "message_ok (deviceError v)"
    unfolding deviceError_def Let_def
    by (intro message_okI fields_ok_put fields_ok_Nil)
      (simp_all add: put_simps kMaxCollectionElements_nat)
next
  fix m w
  assume "parseError m = Some w"
  then show "msg_type m = ''error'' \<and> onlyFields (msg_fields m) [''code'', ''message'']"
    by (auto simp: parseError_def split: if_splits)
qed

definition cameraStateFields :: "string list" where
  "cameraStateFields =
     [''device_id'', ''position'', ''lens'', ''zoom'', ''focus_mode'', ''focus'',
      ''exposure_mode'', ''iso'', ''exposure'', ''ev'', ''wb_mode'', ''wb'',
      ''torch'', ''stabilization'']"

interpretation camera_state_codec: message_codec cameraState parseCameraState camera_state_ok
  "''camera_state''" cameraStateFields
proof
  fix v
  assume ok: "camera_state_ok v"
  then show "parseCameraState (cameraState v) = Some v"
    by (cases "cs_deviceId v")
      (simp_all add: cameraState_def parseCameraState_def put_simps camera_state_ok_def
        parseOptionalText_def)
  from ok show "message_ok (cameraState v)"
    unfolding cameraState_def Let_def
    by (intro message_okI fields_ok_put fields_ok_Nil)
      (auto simp: put_simps camera_state_ok_def kMaxCollectionElements_nat split: option.splits)
next
  fix m w
  assume "parseCameraState m = Some w"
  then show "msg_type m = ''camera_state'' \<and> onlyFields (msg_fields m) cameraStateFields"
    by (auto simp: parseCameraState_def cameraStateFields_def split: if_splits)
qed

subsection \<open>Capabilities\<close>

lemma ucast_u64_zero: "(ucast (x :: u32) :: u64) = 0 \<longleftrightarrow> x = 0"
  by (simp add: word_unat_eq_iff unsigned_ucast_eq take_bit_nat_eq_self
      less_trans[OF unsigned_less[of x, where 'a = nat]])

lemma ucast_u32_u64: "(ucast (ucast (x :: u32) :: u64) :: u32) = x"
  by (rule bit_word_eqI) (auto simp: bit_simps)

lemma ucast_u64_le: "x \<le> (y :: u32) \<Longrightarrow> (ucast x :: u64) \<le> ucast y"
  by (simp add: word_le_nat_alt unsigned_ucast_eq take_bit_nat_eq_self
      less_trans[OF unsigned_less[where 'a = nat]])

lemma parseFormat_encode: "format_ok f \<Longrightarrow> parseFormat (encodeFormat f) = Some f"
  using ucast_u64_le[of "cf_width f" 4096] ucast_u64_le[of "cf_height f" 4096]
    ucast_u64_le[of "cf_fps f" 120]
  by (cases f)
    (simp add: parseFormat_def put_simps ucast_u64_zero ucast_u32_u64 linorder_not_less)

lemma parseFormats_encode:
  "list_all format_ok fs \<Longrightarrow> parseFormats (map encodeFormat fs) = Some fs"
  by (induction fs) (simp_all add: parseFormat_encode)

lemma parseCamera_encode:
  "camera_ok c \<Longrightarrow> parseCamera (encodeCamera c) = Some (c\<lparr>cd_formats := sort (cd_formats c)\<rparr>)"
  by (simp add: parseCamera_def encodeCamera_def put_simps camera_ok_def parseFormats_encode
      list_all_iff)

lemma parseCameras_encode:
  "list_all camera_ok cs \<Longrightarrow> parseCameras (map encodeCamera cs) =
     Some (map (\<lambda>d. d\<lparr>cd_formats := sort (cd_formats d)\<rparr>) cs)"
  by (induction cs) (simp_all add: parseCamera_encode)

lemma parseCodecs_encode:
  "list_all (\<lambda>n. n = ''h264'' \<or> n = ''hevc'') ns \<Longrightarrow> parseCodecs (map CText ns) = Some ns"
  by (induction ns) auto

lemma cbor_ok_format: "d \<le> 30 \<Longrightarrow> cbor_ok (encodeFormat f) d"
  by (cases f) (auto simp: kMaxCollectionElements_nat intro!: fields_ok_CMap fields_ok_put fields_ok_Nil)

lemma cbor_ok_camera: "camera_ok c \<Longrightarrow> d \<le> 28 \<Longrightarrow> cbor_ok (encodeCamera c) d"
  unfolding encodeCamera_def Let_def
  by (intro fields_ok_CMap fields_ok_put fields_ok_Nil)
    (simp_all add: camera_ok_def kMaxCollectionElements_nat cbor_ok_CArray cbor_ok_format)

lemma parseCaps_capabilities: "caps_ok c \<Longrightarrow> parseCaps (capabilities c) = Some (sort_formats c)"
  by (simp add: capabilities_def parseCaps_def put_simps caps_ok_def sort_formats_def
      parseCameras_encode parseCodecs_encode)

lemma text_ok_codecs: "text_ok ''h264''" "text_ok ''hevc''"
  by (rule ascii_text_ok; simp)+

lemma cbor_ok_cameras:
  "caps_ok c \<Longrightarrow> cbor_ok (CArray (map encodeCamera (caps_cameras c))) (Suc 0)"
  by (auto simp: caps_ok_def cbor_ok_CArray cbor_ok_camera list_all_iff)

lemma cbor_ok_codecs: "caps_ok c \<Longrightarrow> cbor_ok (CArray (map CText (caps_codecs c))) (Suc 0)"
proof (rule cbor_ok_texts)
  assume "caps_ok c"
  then show "texts_ok (caps_codecs c)"
    unfolding caps_ok_def texts_ok_def list_all_iff using text_ok_codecs by fastforce
qed

lemma message_ok_capabilities: "caps_ok c \<Longrightarrow> message_ok (capabilities c)"
  unfolding capabilities_def Let_def
  by (intro message_okI fields_ok_put fields_ok_Nil)
    (simp_all add: map_of_put kMaxCollectionElements_nat cbor_ok_cameras cbor_ok_codecs)

interpretation caps_codec: message_codec capabilities parseCaps
  "\<lambda>c. caps_ok c \<and> sort_formats c = c" "''caps''" "[''cameras'', ''codecs'']"
proof
  fix v
  assume ok: "caps_ok v \<and> sort_formats v = v"
  then show "parseCaps (capabilities v) = Some v" by (simp add: parseCaps_capabilities)
  from ok show "message_ok (capabilities v)" by (simp add: message_ok_capabilities)
next
  fix m w
  assume "parseCaps m = Some w"
  then show "msg_type m = ''caps'' \<and> onlyFields (msg_fields m) [''cameras'', ''codecs'']"
    by (auto simp: parseCaps_def split: if_splits)
qed

subsection \<open>Properties\<close>

lemma payload_bound: "length bs div 1024 = 0 \<Longrightarrow> length bs \<le> control_kMaxPayloadBytes"
  by (simp add: control_kMaxPayloadBytes_def div_eq_0_iff)

text \<open>
  The envelope loses nothing.  A message whose fields a CBOR map can hold and that
  does not use the reserved key \<open>t\<close> is decoded from its encoding as itself, whenever the
  encoding fits the payload bound; the type key never shows among the decoded fields.
\<close>

theorem message_roundtrip:
  assumes "message_ok m" and "length (message_encode m) \<le> control_kMaxPayloadBytes"
  shows "message_decode (message_encode m) = Inr m"
  using assms by (rule message_decode_encode)

theorem message_roundtrip_witness:
  "message_decode (message_encode (setPreview True)) = Inr (setPreview True)"
proof (rule message_roundtrip)
  show "message_ok (setPreview True)"
    unfolding setPreview_def
    by (intro message_okI fields_ok_put fields_ok_Nil ascii_text_ok)
      (simp_all add: put_simps kMaxCollectionElements_nat)
  show "length (message_encode (setPreview True)) \<le> control_kMaxPayloadBytes"
    by (rule payload_bound) code_simp
qed

text \<open>
  A phone's hello reaches the PC unchanged: the bytes of the message built from a
  hello are decoded to a message that the PC parses as that hello.
\<close>

theorem hello_roundtrip:
  assumes "hello_ok h" and "length (message_encode (hello_message h)) \<le> control_kMaxPayloadBytes"
  shows "\<exists>m. message_decode (message_encode (hello_message h)) = Inr m \<and> parseHello m = Some h"
  using assms by (rule hello_codec.over_the_wire)

definition sample_hello :: hello_values where
  "sample_hello =
     \<lparr>h_version = 1, h_deviceName = ''Phone'', h_deviceId = ''0123456789abcdef'',
      h_platform = ''ios'', h_model = ''iPhone'', h_caps = [''auth_v1'', ''format_ack_v1''],
      h_allowUnauthenticated = False\<rparr>"

theorem hello_roundtrip_witness:
  "\<exists>m. message_decode (message_encode (hello_message sample_hello)) = Inr m \<and>
     parseHello m = Some sample_hello"
proof (rule hello_roundtrip)
  have "validDeviceId ''0123456789abcdef''" by code_simp
  then show "hello_ok sample_hello"
    by (simp add: hello_ok_def sample_hello_def kProtocolVersion_def texts_ok_def
        kMaxCollectionElements_nat ascii_text_ok)
  show "length (message_encode (hello_message sample_hello)) \<le> control_kMaxPayloadBytes" by (rule payload_bound) code_simp
qed

text \<open>
  The camera state the phone reports is the one the PC shows, for every combination of
  the fourteen fields with finite numbers and valid text, the optional device included.
\<close>

theorem camera_state_roundtrip:
  assumes "camera_state_ok c"
    and "length (message_encode (cameraState c)) \<le> control_kMaxPayloadBytes"
  shows "\<exists>m. message_decode (message_encode (cameraState c)) = Inr m \<and> parseCameraState m = Some c"
  using assms by (rule camera_state_codec.over_the_wire)

definition sample_camera_state :: camera_state where
  "sample_camera_state =
     \<lparr>cs_deviceId = None, cs_position = ''back'', cs_lens = ''wide'', cs_zoom = dbl_one,
      cs_focusMode = ''auto'', cs_focus = dbl_zero, cs_exposureMode = ''auto'', cs_iso = dbl_one,
      cs_exposureSeconds = dbl_zero, cs_exposureBias = dbl_zero, cs_whiteBalanceMode = ''auto'',
      cs_whiteBalanceKelvin = dbl_one, cs_torch = False, cs_stabilization = True\<rparr>"

theorem camera_state_roundtrip_witness:
  "\<exists>m. message_decode (message_encode (cameraState sample_camera_state)) = Inr m \<and>
     parseCameraState m = Some sample_camera_state"
proof (rule camera_state_roundtrip)
  have "dbl_isfinite dbl_one" "dbl_isfinite dbl_zero"
    by (simp_all add: dbl_isfinite_def dbl_exponent_def dbl_one_def dbl_zero_def)
  then show "camera_state_ok sample_camera_state"
    by (simp add: camera_state_ok_def sample_camera_state_def ascii_text_ok)
  show "length (message_encode (cameraState sample_camera_state)) \<le> control_kMaxPayloadBytes"
    by (rule payload_bound) code_simp
qed

text \<open>
  Capabilities reach the PC with every camera, codec and format, each camera's formats in
  the order of width, height and frame rate.
\<close>

theorem capabilities_roundtrip:
  assumes "caps_ok c" and "length (message_encode (capabilities c)) \<le> control_kMaxPayloadBytes"
  shows "\<exists>m. message_decode (message_encode (capabilities c)) = Inr m \<and>
     parseCaps m = Some (sort_formats c)"
  using assms by (auto simp: message_decode_encode message_ok_capabilities parseCaps_capabilities)

definition sample_caps :: caps_values where
  "sample_caps =
     \<lparr>caps_cameras = [\<lparr>cd_id = ''0'', cd_name = ''Back'', cd_position = ''back'', cd_lens = ''wide'',
        cd_formats = [CaptureFormat 1920 1080 60, CaptureFormat 1280 720 30]\<rparr>],
      caps_codecs = [''h264'']\<rparr>"

theorem capabilities_roundtrip_witness:
  "\<exists>m. message_decode (message_encode (capabilities sample_caps)) = Inr m \<and>
     parseCaps m = Some (sort_formats sample_caps)"
proof (rule capabilities_roundtrip)
  show "caps_ok sample_caps"
    by (simp add: caps_ok_def camera_ok_def sample_caps_def kMaxCollectionElements_nat ascii_text_ok)
  show "length (message_encode (capabilities sample_caps)) \<le> control_kMaxPayloadBytes" by (rule payload_bound) code_simp
qed

text \<open>
  The kinds the PC has a parser for, with the fields each may carry, and whether any parser
  accepts a message.
\<close>

definition phoneFields :: "string \<Rightarrow> string list" where
  "phoneFields kind = (case map_of
     [(''auth_response'', [''client_nonce'', ''client_proof'']),
      (''format_ack'', [''generation'']),
      (''format_reject'', [''generation'', ''code'', ''message'']),
      (''hello'', [''v'', ''device_name'', ''device_id'', ''platform'', ''model'', ''caps'',
                   ''allow_unauthenticated'']),
      (''orientation'', [''deg'', ''locked'']), (''thermal'', [''state'']),
      (''battery'', [''level'', ''charging'']), (''camera_state'', cameraStateFields),
      (''error'', [''code'', ''message'']), (''caps'', [''cameras'', ''codecs''])] kind of
     Some names \<Rightarrow> names | None \<Rightarrow> [])"

definition phone_parsers :: "(string \<times> (message \<Rightarrow> bool)) list" where
  "phone_parsers =
     [(''auth_response'', \<lambda>m. parseAuthResponse m \<noteq> None),
      (''format_ack'', \<lambda>m. parseFormatAck m \<noteq> None),
      (''format_reject'', \<lambda>m. parseFormatReject m \<noteq> None),
      (''hello'', \<lambda>m. parseHello m \<noteq> None),
      (''orientation'', \<lambda>m. parseOrientation m \<noteq> None),
      (''thermal'', \<lambda>m. parseThermal m \<noteq> None),
      (''battery'', \<lambda>m. parseBattery m \<noteq> None),
      (''camera_state'', \<lambda>m. parseCameraState m \<noteq> None),
      (''error'', \<lambda>m. parseError m \<noteq> None),
      (''caps'', \<lambda>m. parseCaps m \<noteq> None)]"

definition accepted_as :: "message \<Rightarrow> string list" where
  "accepted_as m = map fst (filter (\<lambda>(kind, accepts). accepts m) phone_parsers)"

lemmas parse_only = auth_response_codec.parse_only format_ack_codec.parse_only
  format_reject_codec.parse_only hello_codec.parse_only orientation_codec.parse_only
  thermal_codec.parse_only battery_codec.parse_only camera_state_codec.parse_only
  device_error_codec.parse_only caps_codec.parse_only

lemma phone_parsers_only:
  "list_all (\<lambda>(kind, accepts). accepts m \<longrightarrow>
     msg_type m = kind \<and> onlyFields (msg_fields m) (phoneFields kind)) phone_parsers"
  by (auto simp: phone_parsers_def phoneFields_def dest!: parse_only)

lemma distinct_phone_parsers: "distinct (map fst phone_parsers)"
  by (simp add: phone_parsers_def)

lemma distinct_keys_filter:
  assumes "distinct (map fst ps)" and "list_all (\<lambda>(k, p). p m \<longrightarrow> t = k) ps"
    and "filter (\<lambda>(k, p). p m) ps \<noteq> []"
  shows "map fst (filter (\<lambda>(k, p). p m) ps) = [t]"
proof -
  let ?f = "filter (\<lambda>(k, p). p m) ps"
  have "distinct (map fst ?f)" using assms(1) by (rule distinct_map_filter)
  moreover have "set (map fst ?f) \<subseteq> {t}" using assms(2) by (auto simp: list_all_iff)
  ultimately show ?thesis using assms(3)
    by (cases "map fst ?f"; cases "tl (map fst ?f)") auto
qed

text \<open>
  The phone's messages are strict.  A message is accepted by at most one of the ten
  parsers, the one its type names, and only when every field it carries is one the
  protocol gives that type.
\<close>

theorem phone_messages_strict:
  assumes "accepted_as m \<noteq> []"
  shows "accepted_as m = [msg_type m] \<and> onlyFields (msg_fields m) (phoneFields (msg_type m))"
proof
  have "list_all (\<lambda>(k, p). p m \<longrightarrow> msg_type m = k) phone_parsers"
    using phone_parsers_only[of m] by (auto simp: list_all_iff)
  then show *: "accepted_as m = [msg_type m]"
    unfolding accepted_as_def using assms
    by (intro distinct_keys_filter distinct_phone_parsers) (simp_all add: accepted_as_def)
  then have "msg_type m \<in> fst ` set (filter (\<lambda>(kind, accepts). accepts m) phone_parsers)"
    unfolding accepted_as_def by (metis list.set_intros(1) set_map)
  then obtain p where "(msg_type m, p) \<in> set phone_parsers" "p m" by auto
  then show "onlyFields (msg_fields m) (phoneFields (msg_type m))"
    using phone_parsers_only[of m] by (auto simp: list_all_iff)
qed

theorem phone_messages_strict_witness:
  "accepted_as (formatAck 7) = [msg_type (formatAck 7)] \<and>
   onlyFields (msg_fields (formatAck 7)) (phoneFields (msg_type (formatAck 7)))"
  by (rule phone_messages_strict) code_simp

lemma even_u32: "(x :: u32) mod 2 \<noteq> 0 \<longleftrightarrow> odd (unat x)"
  by (simp add: word_unat_eq_iff unat_mod odd_iff_mod_2_eq_one)

lemma u32_product:
  assumes "w \<le> (4096 :: u32)" and "h \<le> (4096 :: u32)"
  shows "unat ((ucast w :: u64) * ucast h) = unat w * unat h"
proof -
  have "unat w \<le> 4096" "unat h \<le> 4096" using assms by (simp_all add: word_le_nat_alt)
  then have "unat w * unat h \<le> 4096 * 4096" by (rule mult_le_mono)
  moreover have "unat (ucast w :: u64) = unat w" "unat (ucast h :: u64) = unat h"
    using less_trans[OF unsigned_less[where 'a = nat, of w]] less_trans[OF unsigned_less[where 'a = nat, of h]]
    by (simp_all add: unsigned_ucast_eq take_bit_nat_eq_self)
  ultimately show ?thesis by (simp add: unat_mult_lem[THEN iffD1])
qed

text \<open>
  A configuration passes \<open>StreamConfig::valid\<close> exactly when its numbers satisfy the
  protocol's bounds as integers; the width-height product is taken at 64 bits and never wraps.
\<close>

theorem stream_config_valid_bounds:
  "stream_config_valid c \<longleftrightarrow>
     0 < unat (sc_width c) \<and> 0 < unat (sc_height c) \<and>
     even (unat (sc_width c)) \<and> even (unat (sc_height c)) \<and>
     unat (sc_width c) \<le> 4096 \<and> unat (sc_height c) \<le> 4096 \<and>
     unat (sc_width c) * unat (sc_height c) \<le> 3840 * 2160 \<and>
     1 \<le> unat (sc_fps c) \<and> unat (sc_fps c) \<le> 120 \<and>
     64000 \<le> unat (sc_bitrate c) \<and> unat (sc_bitrate c) \<le> 100000000"
proof -
  have zero: "x = 0 \<longleftrightarrow> \<not> 0 < unat x" for x :: u32
    by (simp add: unat_gt_0)
  have less: "x < 1 \<longleftrightarrow> unat x < 1" "x > 120 \<longleftrightarrow> unat x > 120" "x > 4096 \<longleftrightarrow> unat x > 4096"
    "x < 64000 \<longleftrightarrow> unat x < 64000" "x > 100000000 \<longleftrightarrow> unat x > 100000000" for x :: u32
    by (simp_all add: word_less_nat_alt)
  have big: "x > 3840 * 2160 \<longleftrightarrow> unat x > 3840 * 2160" for x :: u64
    by (simp add: word_less_nat_alt)
  have prod: "unat ((ucast w :: u64) * ucast h) = unat w * unat h"
    if "\<not> (unat w > 4096 \<or> unat h > 4096)" for w h :: u32
    using that by (intro u32_product) (simp_all add: word_le_nat_alt)
  show ?thesis
    unfolding stream_config_valid_def even_u32 unfolding zero less big
    using prod[of "sc_width c" "sc_height c"]
    by (cases "unat (sc_width c) > 4096 \<or> unat (sc_height c) > 4096") (auto simp: not_less)
qed

text \<open>
  Whatever a peer sends, an accepted hello names a device by exactly sixteen lower-case
  hexadecimal digits, leaves no name empty, and asks for the pairing opt-out only when the
  message carries \<open>allow_unauthenticated\<close> as the boolean true.
\<close>

theorem parse_hello_sound:
  assumes "parseHello m = Some h"
  shows "length (h_deviceId h) = 16 \<and> list_all isLowerHex (h_deviceId h) \<and>
     h_deviceName h \<noteq> [] \<and> h_platform h \<noteq> [] \<and> h_model h \<noteq> [] \<and>
     (h_allowUnauthenticated h \<longleftrightarrow>
        map_of (msg_fields m) ''allow_unauthenticated'' = Some (CBoolean True))"
  using assms
  by (auto simp: parseHello_def validDeviceId_def nonEmpty_def msg_boolean_def
      split: if_splits bind_splits option.splits elim!: asBoolean.elims)

theorem parse_hello_sound_witness:
  "length (h_deviceId sample_hello) = 16 \<and> list_all isLowerHex (h_deviceId sample_hello) \<and>
   h_deviceName sample_hello \<noteq> [] \<and> h_platform sample_hello \<noteq> [] \<and> h_model sample_hello \<noteq> [] \<and>
   (h_allowUnauthenticated sample_hello \<longleftrightarrow>
      map_of (msg_fields (hello_message sample_hello)) ''allow_unauthenticated'' = Some (CBoolean True))"
  by (rule parse_hello_sound) code_simp

lemma preferredCodec_loop:
  "preferredCodec_loop b names =
     (if ''hevc'' \<in> set names then Some Hevc
      else if b \<or> ''h264'' \<in> set names then Some H264 else None)"
  by (induction names arbitrary: b) auto

text \<open>
  The codec the PC asks for is HEVC when the phone lists it anywhere, else H.264 when
  the phone lists that, else none; the order of the phone's list plays no part.
\<close>

theorem preferred_codec_spec:
  "preferredCodec caps =
     (if ''hevc'' \<in> set (caps_codecs caps) then Some Hevc
      else if ''h264'' \<in> set (caps_codecs caps) then Some H264 else None)"
  by (simp add: preferredCodec_def preferredCodec_loop)

end
