(* ===== verification/RateLimiter.thy ===== *)
theory RateLimiter
  imports Interfaces
begin

text \<open>
  The attempt budget of pairing and authentication, \<open>AttemptPolicy\<close> of
  \<open>windows/security/src/rate_limiter.cpp\<close>, and the errors of the security library.  A
  \<open>TimePoint\<close> is an integer count of the clock's nanoseconds; the \<open>unordered_map\<close> of blocked
  peers, whose iteration order does not matter to \<open>prune\<close>, is a map.  The members are
  \<open>mutable\<close>: \<open>prune\<close> and \<open>allowed\<close> return the state they leave.
\<close>

datatype security_error =
  SecNone | Unavailable | InvalidArgument | CryptoFailure | InvalidPoint | AuthenticationFailed |
  SequenceMismatch | SequenceExhausted | Expired | RateLimited | NotFound | StorageFailure |
  CorruptRecord

type_synonym time_point = int

definition seconds :: "int \<Rightarrow> int" where
  "seconds s = s * 1000000000"

record policy_config =
  maxAttemptsPerSource :: nat
  maxAttemptsGlobal :: nat
  failureWindow :: int
  cooldown :: int
  pairingLifetime :: int
  authenticationLifetime :: int

definition default_policy_config :: policy_config where
  "default_policy_config =
     \<lparr>maxAttemptsPerSource = 5, maxAttemptsGlobal = 5, failureWindow = 600, cooldown = 300,
      pairingLifetime = 120, authenticationLifetime = 10\<rparr>"

record attempt =
  at_id :: u64
  at_peer :: string
  at_started :: time_point

record policy =
  attempts :: "attempt list"
  peerBlockedUntil :: "string \<rightharpoonup> time_point"
  globalBlockedUntil :: "time_point option"
  nextAttemptId :: u64

definition new_policy :: policy where
  "new_policy = \<lparr>attempts = [], peerBlockedUntil = Map.empty, globalBlockedUntil = None,
     nextAttemptId = 1\<rparr>"

definition peerAttempts :: "policy \<Rightarrow> string \<Rightarrow> nat" where
  "peerAttempts p peer = length (filter (\<lambda>a. at_peer a = peer) (attempts p))"

definition expiredBlock :: "time_point \<Rightarrow> policy \<Rightarrow> string \<Rightarrow> bool" where
  "expiredBlock now p peer \<longleftrightarrow>
     (case peerBlockedUntil p peer of None \<Rightarrow> False | Some u \<Rightarrow> \<not> now < u)"

definition prune :: "policy_config \<Rightarrow> time_point \<Rightarrow> policy \<Rightarrow> policy" where
  "prune cfg now p =
     (if (case globalBlockedUntil p of None \<Rightarrow> False | Some u \<Rightarrow> now \<ge> u)
      then p\<lparr>attempts := [], peerBlockedUntil := Map.empty, globalBlockedUntil := None\<rparr>
      else
        (let kept = filter (\<lambda>a. \<not> expiredBlock now p (at_peer a)) (attempts p);
             blocked = (\<lambda>peer. if expiredBlock now p peer then None else peerBlockedUntil p peer);
             cutoff = now - seconds (failureWindow cfg)
         in p\<lparr>attempts := filter (\<lambda>a. \<not> at_started a < cutoff) kept,
              peerBlockedUntil := blocked\<rparr>))"

definition allowed :: "policy_config \<Rightarrow> string \<Rightarrow> time_point \<Rightarrow> policy \<Rightarrow> bool \<times> policy" where
  "allowed cfg peer now p =
     (if peer = [] \<or> maxAttemptsPerSource cfg = 0 \<or> maxAttemptsGlobal cfg = 0 then (False, p)
      else
        (let p = prune cfg now p
         in if globalBlockedUntil p \<noteq> None \<or> peerBlockedUntil p peer \<noteq> None then (False, p)
            else (length (attempts p) < maxAttemptsGlobal cfg \<and>
                  peerAttempts p peer < maxAttemptsPerSource cfg, p)))"

definition beginAttempt ::
  "policy_config \<Rightarrow> string \<Rightarrow> time_point \<Rightarrow> policy \<Rightarrow> (security_error + u64) \<times> policy" where
  "beginAttempt cfg peer now p =
     (let (ok, p) = allowed cfg peer now p
      in if \<not> ok \<or> nextAttemptId p = - 1 then (Inl RateLimited, p)
         else
           (let ident = nextAttemptId p;
                p = p\<lparr>nextAttemptId := nextAttemptId p + 1,
                      attempts := attempts p @ [\<lparr>at_id = ident, at_peer = peer, at_started = now\<rparr>]\<rparr>;
                p = (if peerAttempts p peer \<ge> maxAttemptsPerSource cfg
                     then p\<lparr>peerBlockedUntil := (peerBlockedUntil p)(peer \<mapsto> now + seconds (cooldown cfg))\<rparr>
                     else p);
                p = (if length (attempts p) \<ge> maxAttemptsGlobal cfg
                     then p\<lparr>globalBlockedUntil := Some (now + seconds (cooldown cfg))\<rparr> else p)
            in (Inr ident, p)))"

text \<open>\<open>find_if\<close> and the \<open>erase\<close> of that one element.\<close>

fun remove_first :: "('a \<Rightarrow> bool) \<Rightarrow> 'a list \<Rightarrow> 'a list" where
  "remove_first P [] = []"
| "remove_first P (x # xs) = (if P x then xs else x # remove_first P xs)"

definition finishAttempt ::
  "policy_config \<Rightarrow> u64 \<Rightarrow> bool \<Rightarrow> time_point \<Rightarrow> policy \<Rightarrow> policy" where
  "finishAttempt cfg ident succeeded now p =
     (let p = prune cfg now p
      in case find (\<lambda>a. at_id a = ident) (attempts p) of
           None \<Rightarrow> p
         | Some found \<Rightarrow>
             if \<not> succeeded then p
             else
               (let peer = at_peer found;
                    p = p\<lparr>attempts := remove_first (\<lambda>a. at_id a = ident) (attempts p)\<rparr>;
                    p = (if peerAttempts p peer < maxAttemptsPerSource cfg
                         then p\<lparr>peerBlockedUntil := (peerBlockedUntil p)(peer := None)\<rparr> else p)
                in if length (attempts p) < maxAttemptsGlobal cfg
                   then p\<lparr>globalBlockedUntil := None\<rparr> else p))"

definition pairingExpired :: "policy_config \<Rightarrow> time_point \<Rightarrow> time_point \<Rightarrow> bool" where
  "pairingExpired cfg started now \<longleftrightarrow> now - started \<ge> seconds (pairingLifetime cfg)"

definition authenticationExpired :: "policy_config \<Rightarrow> time_point \<Rightarrow> time_point \<Rightarrow> bool" where
  "authenticationExpired cfg started now \<longleftrightarrow> now - started \<ge> seconds (authenticationLifetime cfg)"

subsection \<open>The budget invariant\<close>

text \<open>
  Identifiers are fresh; the budgets are never exceeded; a full budget has its block set, and
  a block outlives every attempt it was set for by the whole cooldown.
\<close>

definition policy_ok :: "policy_config \<Rightarrow> time_point \<Rightarrow> policy \<Rightarrow> bool" where
  "policy_ok cfg now p \<longleftrightarrow>
     distinct (map at_id (attempts p)) \<and>
     (\<forall>a \<in> set (attempts p). unat (at_id a) < unat (nextAttemptId p) \<and> at_started a \<le> now) \<and>
     length (attempts p) \<le> maxAttemptsGlobal cfg \<and>
     (\<forall>peer. peerAttempts p peer \<le> maxAttemptsPerSource cfg) \<and>
     (globalBlockedUntil p = None \<longrightarrow> attempts p = [] \<or> length (attempts p) < maxAttemptsGlobal cfg) \<and>
     (\<forall>peer. peerBlockedUntil p peer = None \<longrightarrow> peerAttempts p peer = 0 \<or>
        peerAttempts p peer < maxAttemptsPerSource cfg) \<and>
     (\<forall>a \<in> set (attempts p).
        (\<forall>u. globalBlockedUntil p = Some u \<longrightarrow> at_started a + seconds (cooldown cfg) \<le> u) \<and>
        (\<forall>u. peerBlockedUntil p (at_peer a) = Some u \<longrightarrow> at_started a + seconds (cooldown cfg) \<le> u))"

lemma policy_okD:
  assumes "policy_ok cfg now p"
  shows "distinct (map at_id (attempts p))"
    and "a \<in> set (attempts p) \<Longrightarrow> unat (at_id a) < unat (nextAttemptId p)"
    and "a \<in> set (attempts p) \<Longrightarrow> at_started a \<le> now"
    and "length (attempts p) \<le> maxAttemptsGlobal cfg"
    and "peerAttempts p peer \<le> maxAttemptsPerSource cfg"
    and "globalBlockedUntil p = None \<Longrightarrow> attempts p = [] \<or> length (attempts p) < maxAttemptsGlobal cfg"
    and "peerBlockedUntil p peer = None \<Longrightarrow> peerAttempts p peer = 0 \<or>
        peerAttempts p peer < maxAttemptsPerSource cfg"
    and "a \<in> set (attempts p) \<Longrightarrow> globalBlockedUntil p = Some u \<Longrightarrow>
        at_started a + seconds (cooldown cfg) \<le> u"
    and "a \<in> set (attempts p) \<Longrightarrow> peerBlockedUntil p (at_peer a) = Some u \<Longrightarrow>
        at_started a + seconds (cooldown cfg) \<le> u"
  using assms by (auto simp: policy_ok_def)

text \<open>Dropping attempts keeps the invariant; so does dropping the block of a peer with none left.\<close>

lemma length_filter_filter: "length (filter P (filter Q xs)) \<le> length (filter P xs)"
  by (induction xs) auto

lemma peerAttempts_filter:
  "attempts q = filter Q (attempts p) \<Longrightarrow> peerAttempts q peer \<le> peerAttempts p peer"
  by (simp only: peerAttempts_def length_filter_filter)

lemma policy_ok_filter:
  assumes ok: "policy_ok cfg now p" and later: "now \<le> now'"
    and a: "attempts q = filter Q (attempts p)"
    and n: "unat (nextAttemptId p) \<le> unat (nextAttemptId q)"
    and g: "globalBlockedUntil q = globalBlockedUntil p \<or>
       globalBlockedUntil q = None \<and> (attempts q = [] \<or> length (attempts q) < maxAttemptsGlobal cfg)"
    and b: "\<And>peer. peerBlockedUntil q peer = peerBlockedUntil p peer \<or>
       peerBlockedUntil q peer = None \<and>
         (peerAttempts q peer = 0 \<or> peerAttempts q peer < maxAttemptsPerSource cfg)"
  shows "policy_ok cfg now' q"
proof -
  have len: "length (attempts q) \<le> length (attempts p)" by (simp add: a)
  have sub: "x \<in> set (attempts p)" if "x \<in> set (attempts q)" for x using that by (simp add: a)
  note peer = peerAttempts_filter[OF a]
  have "distinct (map at_id (attempts q))"
    unfolding a using policy_okD(1)[OF ok] by (rule distinct_map_filter)
  moreover have "unat (at_id x) < unat (nextAttemptId q)" "at_started x \<le> now'"
    if "x \<in> set (attempts q)" for x
    using policy_okD(2,3)[OF ok sub[OF that]] n later by simp_all
  moreover have "length (attempts q) \<le> maxAttemptsGlobal cfg"
    using len policy_okD(4)[OF ok] by simp
  moreover have "peerAttempts q x \<le> maxAttemptsPerSource cfg" for x
    using peer[of x] policy_okD(5)[OF ok, of x] by simp
  moreover have "attempts q = [] \<or> length (attempts q) < maxAttemptsGlobal cfg"
    if "globalBlockedUntil q = None"
    using g that policy_okD(6)[OF ok] len by auto
  moreover have "peerAttempts q x = 0 \<or> peerAttempts q x < maxAttemptsPerSource cfg"
    if "peerBlockedUntil q x = None" for x
    using b[of x] that policy_okD(7)[OF ok, of x] peer[of x] by auto
  moreover have "at_started x + seconds (cooldown cfg) \<le> u"
    if "x \<in> set (attempts q)" "globalBlockedUntil q = Some u" for x u
    using g that policy_okD(8)[OF ok sub] by auto
  moreover have "at_started x + seconds (cooldown cfg) \<le> u"
    if "x \<in> set (attempts q)" "peerBlockedUntil q (at_peer x) = Some u" for x u
    using b[of "at_peer x"] that policy_okD(9)[OF ok sub] by auto
  ultimately show ?thesis by (simp add: policy_ok_def)
qed

lemma policy_ok_later:
  assumes "policy_ok cfg now p" and "now \<le> now'"
  shows "policy_ok cfg now' p"
  by (rule policy_ok_filter[OF assms, where Q = "\<lambda>_. True"]) simp_all

definition pruned :: "policy_config \<Rightarrow> time_point \<Rightarrow> policy \<Rightarrow> attempt \<Rightarrow> bool" where
  "pruned cfg now p a \<longleftrightarrow>
     (case globalBlockedUntil p of None \<Rightarrow> False | Some u \<Rightarrow> now \<ge> u) \<or>
     expiredBlock now p (at_peer a) \<or> at_started a < now - seconds (failureWindow cfg)"

lemma attempts_prune: "attempts (prune cfg now p) = filter (\<lambda>a. \<not> pruned cfg now p a) (attempts p)"
  by (auto simp: prune_def pruned_def Let_def intro!: filter_cong)

lemma prune_frame [simp]: "nextAttemptId (prune cfg now p) = nextAttemptId p"
  by (simp add: prune_def Let_def)

lemma policy_ok_prune:
  assumes "policy_ok cfg now p" and "now \<le> now'"
  shows "policy_ok cfg now' (prune cfg now' p)"
proof (rule policy_ok_filter[OF assms attempts_prune])
  show "globalBlockedUntil (prune cfg now' p) = globalBlockedUntil p \<or>
      globalBlockedUntil (prune cfg now' p) = None \<and> (attempts (prune cfg now' p) = [] \<or>
      length (attempts (prune cfg now' p)) < maxAttemptsGlobal cfg)"
    by (simp add: prune_def Let_def)
  show "peerBlockedUntil (prune cfg now' p) peer = peerBlockedUntil p peer \<or>
      peerBlockedUntil (prune cfg now' p) peer = None \<and> (peerAttempts (prune cfg now' p) peer = 0 \<or>
      peerAttempts (prune cfg now' p) peer < maxAttemptsPerSource cfg)" for peer
    by (auto simp: prune_def Let_def peerAttempts_def filter_empty_conv)
qed simp

text \<open>An attempt younger than the cooldown is never pruned.\<close>

lemma prune_keeps_recent:
  assumes "policy_ok cfg now p" and "cooldown cfg \<le> failureWindow cfg"
    and "a \<in> set (attempts p)" and "now' < at_started a + seconds (cooldown cfg)"
  shows "a \<in> set (attempts (prune cfg now' p))"
  using assms policy_okD(8,9)[OF assms(1,3)]
  by (force simp: attempts_prune pruned_def expiredBlock_def seconds_def split: option.splits)

lemma allowed_cases:
  assumes "allowed cfg peer now p = (ok, q)"
  obtains (empty) "\<not> ok" and "q = p"
  | (pruned) "q = prune cfg now p"
      and "ok \<Longrightarrow> peer \<noteq> [] \<and> globalBlockedUntil q = None \<and> peerBlockedUntil q peer = None \<and>
        length (attempts q) < maxAttemptsGlobal cfg \<and> peerAttempts q peer < maxAttemptsPerSource cfg"
  using assms by (auto simp: allowed_def Let_def split: if_splits)

text \<open>The state of an admitted attempt.\<close>

lemma beginAttempt_admitted:
  assumes "beginAttempt cfg peer now p = (Inr ident, r)"
  defines "q \<equiv> prune cfg now p"
  shows "ident = nextAttemptId p" and "nextAttemptId r = nextAttemptId p + 1"
    and "nextAttemptId p \<noteq> - 1"
    and "attempts r = attempts q @ [\<lparr>at_id = ident, at_peer = peer, at_started = now\<rparr>]"
    and "globalBlockedUntil q = None" and "peerBlockedUntil q peer = None"
    and "length (attempts q) < maxAttemptsGlobal cfg"
    and "peerAttempts q peer < maxAttemptsPerSource cfg"
    and "globalBlockedUntil r = (if length (attempts r) \<ge> maxAttemptsGlobal cfg
           then Some (now + seconds (cooldown cfg)) else None)"
    and "peerBlockedUntil r = (if peerAttempts r peer \<ge> maxAttemptsPerSource cfg
           then (peerBlockedUntil q)(peer \<mapsto> now + seconds (cooldown cfg)) else peerBlockedUntil q)"
proof -
  obtain ok s where al: "allowed cfg peer now p = (ok, s)" by (cases "allowed cfg peer now p")
  with assms have ok: ok and next': "nextAttemptId s \<noteq> - 1"
    by (auto simp: beginAttempt_def split: if_splits)
  from allowed_cases[OF al] ok have s: "s = q"
    and facts: "globalBlockedUntil q = None" "peerBlockedUntil q peer = None"
      "length (attempts q) < maxAttemptsGlobal cfg" "peerAttempts q peer < maxAttemptsPerSource cfg"
    unfolding q_def by (metis (full_types))+
  note al' = al[unfolded s]
  from assms(1) ok al' have *: "ident = nextAttemptId q" by (auto simp: beginAttempt_def Let_def split: if_splits)
  then show "ident = nextAttemptId p" by (simp add: q_def)
  from next' s show "nextAttemptId p \<noteq> - 1" by (simp add: q_def)
  from assms(1) ok al' show "nextAttemptId r = nextAttemptId p + 1"
    by (auto simp: beginAttempt_def Let_def q_def split: if_splits)
  from assms(1) ok al' show "attempts r = attempts q @ [\<lparr>at_id = ident, at_peer = peer, at_started = now\<rparr>]"
    by (auto simp: beginAttempt_def Let_def split: if_splits)
  from facts show "globalBlockedUntil q = None" "peerBlockedUntil q peer = None"
    "length (attempts q) < maxAttemptsGlobal cfg" "peerAttempts q peer < maxAttemptsPerSource cfg"
    by simp_all
  from assms(1) ok al' facts(1) show "globalBlockedUntil r = (if length (attempts r) \<ge> maxAttemptsGlobal cfg
           then Some (now + seconds (cooldown cfg)) else None)"
    by (auto simp: beginAttempt_def Let_def split: if_splits)
  from assms(1) ok al' show "peerBlockedUntil r = (if peerAttempts r peer \<ge> maxAttemptsPerSource cfg
           then (peerBlockedUntil q)(peer \<mapsto> now + seconds (cooldown cfg)) else peerBlockedUntil q)"
    by (auto simp: beginAttempt_def Let_def peerAttempts_def split: if_splits)
qed

lemma beginAttempt_refused:
  assumes "beginAttempt cfg peer now p = (Inl e, r)"
  shows "e = RateLimited \<and> (r = p \<or> r = prune cfg now p)"
proof -
  obtain ok s where al: "allowed cfg peer now p = (ok, s)" by (cases "allowed cfg peer now p")
  with assms have "e = RateLimited \<and> r = s"
    by (auto simp: beginAttempt_def Let_def split: if_splits)
  with allowed_cases[OF al] show ?thesis by metis
qed

lemma unat_next: "(x :: u64) \<noteq> - 1 \<Longrightarrow> unat (x + 1) = Suc (unat x)"
  using unatSuc[of x] by (simp add: add.commute eq_neg_iff_add_eq_0)

lemma policy_ok_begin:
  assumes ok: "policy_ok cfg now p" and later: "now \<le> now'"
    and b: "beginAttempt cfg peer now' p = (Inr ident, r)"
  shows "policy_ok cfg now' r"
proof -
  let ?q = "prune cfg now' p"
  note r = beginAttempt_admitted[OF b]
  have q: "policy_ok cfg now' ?q" using ok later by (rule policy_ok_prune)
  have count: "peerAttempts r x = peerAttempts ?q x + (if x = peer then 1 else 0)" for x
    by (simp add: peerAttempts_def r(4))
  have new: "unat (nextAttemptId r) = Suc (unat ident)" using r(1,2,3) unat_next by simp
  have "ident \<notin> at_id ` set (attempts ?q)"
    using policy_okD(2)[OF q] r(1) by fastforce
  then have "distinct (map at_id (attempts r))"
    using policy_okD(1)[OF q] by (simp add: r(4))
  moreover have st: "unat (at_id a) < unat (nextAttemptId r) \<and> at_started a \<le> now'"
    if "a \<in> set (attempts r)" for a
    using that policy_okD(2,3)[OF q, of a] new r(1) by (auto simp: r(4))
  moreover have "length (attempts r) \<le> maxAttemptsGlobal cfg" using r(7) by (simp add: r(4))
  moreover have "peerAttempts r x \<le> maxAttemptsPerSource cfg" for x
    using policy_okD(5)[OF q, of x] r(8) by (simp add: count)
  moreover have "length (attempts r) < maxAttemptsGlobal cfg" if "globalBlockedUntil r = None"
    using that by (auto simp: r(9) split: if_splits)
  moreover have "peerAttempts r x = 0 \<or> peerAttempts r x < maxAttemptsPerSource cfg"
    if "peerBlockedUntil r x = None" for x
    using that policy_okD(7)[OF q, of x] count[of x] by (auto simp: r(10) split: if_splits)
  moreover have "at_started a + seconds (cooldown cfg) \<le> u"
    if "a \<in> set (attempts r)" "globalBlockedUntil r = Some u" for a u
    using that st[OF that(1)] by (auto simp: r(9) split: if_splits)
  moreover have "at_started a + seconds (cooldown cfg) \<le> u"
    if "a \<in> set (attempts r)" "peerBlockedUntil r (at_peer a) = Some u" for a u
  proof (cases "at_peer a = peer")
    case True
    then show ?thesis using that st[OF that(1)] r(6) by (auto simp: r(10) split: if_splits)
  next
    case False
    then show ?thesis using that policy_okD(9)[OF q, of a] by (auto simp: r(4,10) split: if_splits)
  qed
  ultimately show ?thesis by (simp add: policy_ok_def)
qed

lemma remove_first_filter:
  "distinct (map f xs) \<Longrightarrow> remove_first (\<lambda>a. f a = k) xs = filter (\<lambda>a. f a \<noteq> k) xs"
  by (induction xs) (auto simp: image_iff intro!: filter_True[symmetric])

lemma finishAttempt_cases:
  fixes ident ok
  assumes "policy_ok cfg now p" and "now \<le> now'"
  defines "q \<equiv> prune cfg now' p"
  defines "r \<equiv> finishAttempt cfg ident ok now' p"
  obtains (kept) "r = q" and "\<not> ok \<or> ident \<notin> at_id ` set (attempts q)"
  | (removed) a where "a \<in> set (attempts q)" and "at_id a = ident" and "ok"
      and "attempts r = filter (\<lambda>a. at_id a \<noteq> ident) (attempts q)"
      and "nextAttemptId r = nextAttemptId q"
      and "globalBlockedUntil r =
         (if length (attempts r) < maxAttemptsGlobal cfg then None else globalBlockedUntil q)"
      and "peerBlockedUntil r = (if peerAttempts r (at_peer a) < maxAttemptsPerSource cfg
         then (peerBlockedUntil q)(at_peer a := None) else peerBlockedUntil q)"
proof (cases "find (\<lambda>a. at_id a = ident) (attempts q)")
  case None
  then have "ident \<notin> at_id ` set (attempts q)" by (auto simp: find_None_iff)
  with None show ?thesis
    by (intro kept) (simp_all add: r_def finishAttempt_def q_def[symmetric])
next
  case (Some a)
  have a: "a \<in> set (attempts q)" "at_id a = ident"
    using Some by (auto simp: find_Some_iff)
  have d: "remove_first (\<lambda>a. at_id a = ident) (attempts q) = filter (\<lambda>a. at_id a \<noteq> ident) (attempts q)"
    using policy_okD(1)[OF policy_ok_prune[OF assms(1,2)]] unfolding q_def
    by (rule remove_first_filter)
  show ?thesis
  proof (cases ok)
    case True
    show ?thesis
      by (rule removed[OF a True])
        (use Some True in \<open>simp_all add: r_def finishAttempt_def q_def[symmetric] Let_def d peerAttempts_def\<close>)
  next
    case False
    then show ?thesis using Some by (intro kept) (auto simp: r_def finishAttempt_def q_def Let_def)
  qed
qed

lemma policy_ok_finish:
  assumes "policy_ok cfg now p" and "now \<le> now'"
  shows "policy_ok cfg now' (finishAttempt cfg ident ok now' p)"
proof -
  note q = policy_ok_prune[OF assms]
  show ?thesis
  proof (rule finishAttempt_cases[OF assms, of ident ok])
    assume "finishAttempt cfg ident ok now' p = prune cfg now' p"
    with q show ?thesis by simp
  next
    fix a
    assume r: "attempts (finishAttempt cfg ident ok now' p) = filter (\<lambda>a. at_id a \<noteq> ident) (attempts (prune cfg now' p))"
      "nextAttemptId (finishAttempt cfg ident ok now' p) = nextAttemptId (prune cfg now' p)"
      "globalBlockedUntil (finishAttempt cfg ident ok now' p) =
         (if length (attempts (finishAttempt cfg ident ok now' p)) < maxAttemptsGlobal cfg then None
          else globalBlockedUntil (prune cfg now' p))"
      "peerBlockedUntil (finishAttempt cfg ident ok now' p) =
         (if peerAttempts (finishAttempt cfg ident ok now' p) (at_peer a) < maxAttemptsPerSource cfg
          then (peerBlockedUntil (prune cfg now' p))(at_peer a := None)
          else peerBlockedUntil (prune cfg now' p))"
    show ?thesis
      by (rule policy_ok_filter[OF q order.refl r(1)]) (auto simp: r(2-4) split: if_splits)
  qed
qed

subsection \<open>The policy over time\<close>

text \<open>
  A run of the policy: each operation comes some time after the one before.  The log keeps
  every attempt that was admitted and has not been reported a success.
\<close>

datatype policy_event = Begin string nat | Finish u64 bool nat

record policy_run =
  run_clock :: time_point
  run_policy :: policy
  run_log :: "attempt list"

definition start_run :: "time_point \<Rightarrow> policy_run" where
  "start_run now = \<lparr>run_clock = now, run_policy = new_policy, run_log = []\<rparr>"

fun policy_step :: "policy_config \<Rightarrow> policy_run \<Rightarrow> policy_event \<Rightarrow> policy_run" where
  "policy_step cfg s (Begin peer elapsed) =
     (let now = run_clock s + int elapsed
      in case beginAttempt cfg peer now (run_policy s) of
           (Inl e, p) \<Rightarrow> s\<lparr>run_clock := now, run_policy := p\<rparr>
         | (Inr ident, p) \<Rightarrow>
             s\<lparr>run_clock := now, run_policy := p,
               run_log := run_log s @ [\<lparr>at_id = ident, at_peer = peer, at_started = now\<rparr>]\<rparr>)"
| "policy_step cfg s (Finish ident succeeded elapsed) =
     (let now = run_clock s + int elapsed
      in s\<lparr>run_clock := now,
           run_policy := finishAttempt cfg ident succeeded now (run_policy s),
           run_log := (if succeeded then filter (\<lambda>a. at_id a \<noteq> ident) (run_log s) else run_log s)\<rparr>)"

definition run_ok :: "policy_config \<Rightarrow> policy_run \<Rightarrow> bool" where
  "run_ok cfg s \<longleftrightarrow> policy_ok cfg (run_clock s) (run_policy s) \<and>
     distinct (run_log s) \<and>
     (\<forall>a \<in> set (run_log s). at_started a \<le> run_clock s \<and>
        unat (at_id a) < unat (nextAttemptId (run_policy s)) \<and>
        (run_clock s < at_started a + seconds (cooldown cfg) \<longrightarrow> a \<in> set (attempts (run_policy s))))"

lemma run_ok_start: "run_ok cfg (start_run now)"
  by (simp add: run_ok_def start_run_def policy_ok_def new_policy_def peerAttempts_def)

lemma prune_keeps_log:
  assumes "run_ok cfg s" and "cooldown cfg \<le> failureWindow cfg" and "run_clock s \<le> now"
    and "a \<in> set (run_log s)" and "now < at_started a + seconds (cooldown cfg)"
  shows "a \<in> set (attempts (prune cfg now (run_policy s)))"
  using assms by (auto simp: run_ok_def intro!: prune_keeps_recent)

lemma run_ok_step:
  assumes ok: "run_ok cfg s" and cw: "cooldown cfg \<le> failureWindow cfg"
  shows "run_ok cfg (policy_step cfg s e)"
proof (cases e)
  case (Begin peer elapsed)
  define now where "now = run_clock s + int elapsed"
  have later: "run_clock s \<le> now" by (simp add: now_def)
  have pol: "policy_ok cfg (run_clock s) (run_policy s)" using ok by (simp add: run_ok_def)
  note keep = prune_keeps_log[OF ok cw later]
  obtain r p where b: "beginAttempt cfg peer now (run_policy s) = (r, p)" by fastforce
  show ?thesis
  proof (cases r)
    case (Inl err)
    from beginAttempt_refused[OF b[unfolded Inl]]
    have p: "p = run_policy s \<or> p = prune cfg now (run_policy s)" by simp
    then have "policy_ok cfg now p"
      using policy_ok_prune[OF pol later] policy_ok_later[OF pol later] by auto
    with ok p keep later show ?thesis
      by (auto simp: Begin run_ok_def b Inl now_def[symmetric] dest!: bspec)
  next
    case (Inr ident)
    note r = beginAttempt_admitted[OF b[unfolded Inr]]
    have "unat (nextAttemptId p) = Suc (unat ident)" using r(1,2,3) unat_next by simp
    moreover have "unat (at_id a) < unat ident" if "a \<in> set (run_log s)" for a
      using ok that r(1) by (simp add: run_ok_def)
    moreover have "policy_ok cfg now p" by (rule policy_ok_begin[OF pol later b[unfolded Inr]])
    moreover have "at_started a \<le> now" if "a \<in> set (run_log s)" for a
      using ok that later by (fastforce simp: run_ok_def)
    ultimately show ?thesis
      using ok keep by (fastforce simp: Begin run_ok_def b Inr now_def[symmetric] r(4))
  qed
next
  case (Finish ident succeeded elapsed)
  define now where "now = run_clock s + int elapsed"
  have later: "run_clock s \<le> now" by (simp add: now_def)
  have pol: "policy_ok cfg (run_clock s) (run_policy s)" using ok by (simp add: run_ok_def)
  let ?q = "prune cfg now (run_policy s)"
  let ?r = "finishAttempt cfg ident succeeded now (run_policy s)"
  note keep = prune_keeps_log[OF ok cw later]
  have "(\<forall>a \<in> set (attempts ?q). at_id a \<noteq> ident \<or> \<not> succeeded \<longrightarrow> a \<in> set (attempts ?r)) \<and>
      nextAttemptId ?r = nextAttemptId ?q"
    by (rule finishAttempt_cases[OF pol later, of ident succeeded]) auto
  moreover have "policy_ok cfg now ?r" by (rule policy_ok_finish[OF pol later])
  moreover have "at_started a \<le> now" if "a \<in> set (run_log s)" for a
    using ok that later by (fastforce simp: run_ok_def)
  ultimately show ?thesis
    using ok keep by (fastforce simp: Finish run_ok_def now_def[symmetric])
qed

text \<open>The default configuration is a machine that keeps the invariant.\<close>

interpretation attempt_policy: machine "policy_step default_policy_config"
  "run_ok default_policy_config"
  by unfold_locales (rule run_ok_step, simp_all add: default_policy_config_def)

lemma run_ok_run:
  assumes "cooldown cfg \<le> failureWindow cfg"
  shows "run_ok cfg (foldl (policy_step cfg) (start_run now) es)"
proof -
  have "run_ok cfg s \<Longrightarrow> run_ok cfg (foldl (policy_step cfg) s es)" for s
    using assms by (induction es arbitrary: s) (simp_all add: run_ok_step)
  then show ?thesis by (simp add: run_ok_start)
qed

lemma length_recent_le:
  assumes "distinct xs" and "\<And>a. a \<in> set xs \<Longrightarrow> P a \<Longrightarrow> a \<in> set ys"
  shows "length (filter P xs) \<le> length (filter P ys)"
proof -
  have "length (filter P xs) = card (set (filter P xs))"
    by (rule distinct_card[symmetric]) (simp add: assms(1))
  also have "\<dots> \<le> card (set (filter P ys))" using assms(2) by (intro card_mono) auto
  also have "\<dots> \<le> length (filter P ys)" by (rule card_length)
  finally show ?thesis .
qed

subsection \<open>Properties\<close>

text \<open>
  Property C32: the limiter limits.  However attempts, failures and successes are interleaved, and
  however long apart, the attempts of the last cooldown that were admitted and have not
  succeeded number at most the global maximum, and those of one source at most the
  maximum per source, provided the cooldown is no longer than the failure window.
\<close>

theorem rate_limit_window:
  assumes "cooldown cfg \<le> failureWindow cfg"
  shows "let s = foldl (policy_step cfg) (start_run t0) es;
             recent = filter (\<lambda>a. run_clock s < at_started a + seconds (cooldown cfg)) (run_log s)
         in length recent \<le> maxAttemptsGlobal cfg \<and>
            length (filter (\<lambda>a. at_peer a = peer) recent) \<le> maxAttemptsPerSource cfg"
proof -
  define s where "s = foldl (policy_step cfg) (start_run t0) es"
  define P where "P = (\<lambda>a :: attempt. run_clock s < at_started a + seconds (cooldown cfg))"
  have ok: "run_ok cfg s" unfolding s_def using assms by (rule run_ok_run)
  then have pol: "policy_ok cfg (run_clock s) (run_policy s)" and d: "distinct (run_log s)"
    and m: "\<And>a. a \<in> set (run_log s) \<Longrightarrow> P a \<Longrightarrow> a \<in> set (attempts (run_policy s))"
    by (auto simp: run_ok_def P_def)
  have "length (filter P (run_log s)) \<le> length (filter P (attempts (run_policy s)))"
    using d m by (rule length_recent_le)
  also have "\<dots> \<le> maxAttemptsGlobal cfg"
    using length_filter_le policy_okD(4)[OF pol] by (rule order.trans)
  finally have "length (filter P (run_log s)) \<le> maxAttemptsGlobal cfg" .
  moreover have "length (filter (\<lambda>a. at_peer a = peer) (filter P (run_log s)))
      \<le> length (filter (\<lambda>a. at_peer a = peer) (attempts (run_policy s)))"
    using d m by (intro length_recent_le) auto
  then have "length (filter (\<lambda>a. at_peer a = peer) (filter P (run_log s))) \<le> maxAttemptsPerSource cfg"
    using policy_okD(5)[OF pol, of peer] by (simp only: peerAttempts_def)
  ultimately show ?thesis by (simp only: Let_def s_def[symmetric] P_def)
qed

theorem rate_limit_window_witness:
  "let s = foldl (policy_step default_policy_config) (start_run 0) [Begin ''10.0.0.2'' 5, Finish 1 False 7];
       recent = filter (\<lambda>a. run_clock s < at_started a + seconds (cooldown default_policy_config)) (run_log s)
   in length recent \<le> maxAttemptsGlobal default_policy_config \<and>
      length (filter (\<lambda>a. at_peer a = ''10.0.0.2'') recent) \<le> maxAttemptsPerSource default_policy_config"
  by (rule rate_limit_window) (simp add: default_policy_config_def)

text \<open>
  A success takes back exactly its own charge.  When an admitted attempt succeeds before
  the cooldown is over, the policy is, but for the identifier used up, what it would be
  at that time had the attempt never been made: no block it caused stays, no other charge goes.
\<close>

theorem success_refunds:
  assumes "policy_ok cfg now p"
    and "beginAttempt cfg peer now p = (Inr ident, r)"
    and "now \<le> now'" and "now' < now + seconds (cooldown cfg)"
    and "cooldown cfg \<le> failureWindow cfg"
  shows "finishAttempt cfg ident True now' r =
     (prune cfg now' (prune cfg now p))\<lparr>nextAttemptId := nextAttemptId p + 1\<rparr>"
proof -
  define q where "q = prune cfg now p"
  note r = beginAttempt_admitted[OF assms(2), folded q_def]
  have pol: "policy_ok cfg now r"
    using policy_ok_begin[OF assms(1) order.refl assms(2)] .
  have qok: "policy_ok cfg now q" unfolding q_def using assms(1) by (rule policy_ok_prune) simp
  have fresh: "ident \<notin> at_id ` set (attempts q)"
    using policy_okD(2)[OF qok] r(1) by (fastforce simp: q_def)
  have exp: "expiredBlock now' r x \<longleftrightarrow> expiredBlock now' q x" for x
    using r(6) assms(4) by (simp add: expiredBlock_def r(10))
  have expp: "\<not> expiredBlock now' q peer" using r(6) by (simp add: expiredBlock_def)
  have pr: "attempts (prune cfg now' r) =
      attempts (prune cfg now' q) @ [\<lparr>at_id = ident, at_peer = peer, at_started = now\<rparr>]"
    using assms(4,5) r(5) expp
    by (auto simp: attempts_prune pruned_def r(4,9) exp seconds_def intro!: filter_cong)
  have blk: "peerBlockedUntil (prune cfg now' r) x =
      (if x = peer then peerBlockedUntil r peer else peerBlockedUntil (prune cfg now' q) x)" for x
    using r(5,9) assms(4) expp exp[of peer] by (auto simp: prune_def Let_def exp r(10))
  have blkp: "peerBlockedUntil (prune cfg now' q) peer = None"
    using r(5,6) by (simp add: prune_def Let_def)
  have gl: "globalBlockedUntil (prune cfg now' q) = None" "length (attempts (prune cfg now' q)) < maxAttemptsGlobal cfg"
    "peerAttempts (prune cfg now' q) peer < maxAttemptsPerSource cfg"
    using r(5,7,8) peerAttempts_filter[OF attempts_prune, of cfg now' q peer]
    by (auto simp: prune_def Let_def attempts_prune intro: le_less_trans[OF length_filter_le])
  have fresh': "filter (\<lambda>a. at_id a \<noteq> ident) (attempts (prune cfg now' q)) = attempts (prune cfg now' q)"
    using fresh by (auto simp: attempts_prune image_iff intro!: filter_cong)
  show ?thesis
  proof (rule finishAttempt_cases[OF pol assms(3), of ident True])
    assume "\<not> True \<or> ident \<notin> at_id ` set (attempts (prune cfg now' r))"
    then show ?thesis by (simp add: pr)
  next
    fix a
    let ?f = "finishAttempt cfg ident True now' r"
    assume a: "a \<in> set (attempts (prune cfg now' r))" "at_id a = ident"
      and f: "attempts ?f = filter (\<lambda>a. at_id a \<noteq> ident) (attempts (prune cfg now' r))"
        "nextAttemptId ?f = nextAttemptId (prune cfg now' r)"
        "globalBlockedUntil ?f = (if length (attempts ?f) < maxAttemptsGlobal cfg then None
          else globalBlockedUntil (prune cfg now' r))"
        "peerBlockedUntil ?f = (if peerAttempts ?f (at_peer a) < maxAttemptsPerSource cfg
          then (peerBlockedUntil (prune cfg now' r))(at_peer a := None)
          else peerBlockedUntil (prune cfg now' r))"
    have "a \<in> set (attempts q) \<or> at_peer a = peer"
      using a(1) unfolding pr by (auto simp: attempts_prune)
    with a(2) fresh have peer: "at_peer a = peer" by auto
    have att: "attempts ?f = attempts (prune cfg now' q)" by (simp add: f(1) pr fresh')
    then have "peerAttempts ?f peer < maxAttemptsPerSource cfg" using gl(3) by (simp add: peerAttempts_def)
    then have "peerBlockedUntil ?f = peerBlockedUntil (prune cfg now' q)"
      using blkp by (auto simp: f(4) peer blk)
    moreover have "globalBlockedUntil ?f = globalBlockedUntil (prune cfg now' q)"
      using gl by (simp add: f(3) att)
    ultimately show ?thesis
      unfolding q_def[symmetric] by (intro policy.equality) (simp_all add: att f(2) r(2))
  qed
qed

theorem success_refunds_witness:
  "finishAttempt default_policy_config 1 True 9
     (snd (beginAttempt default_policy_config ''10.0.0.2'' 4 new_policy)) =
   (prune default_policy_config 9 (prune default_policy_config 4 new_policy))
     \<lparr>nextAttemptId := nextAttemptId new_policy + 1\<rparr>"
proof (rule success_refunds)
  show "policy_ok default_policy_config 4 new_policy"
    by (simp add: policy_ok_def new_policy_def peerAttempts_def)
  show "beginAttempt default_policy_config ''10.0.0.2'' 4 new_policy =
      (Inr 1, snd (beginAttempt default_policy_config ''10.0.0.2'' 4 new_policy))"
    by (simp add: beginAttempt_def allowed_def prune_def new_policy_def default_policy_config_def
        expiredBlock_def peerAttempts_def seconds_def)
qed (simp_all add: default_policy_config_def seconds_def)

end
