(* ===== verification/Protector.thy ===== *)
theory Protector
  imports RateLimiter
begin

text \<open>
  The record protection of an authenticated session: \<open>SessionProtector\<close> and the helpers it uses in
  \<open>windows/security/src/crypto.cpp\<close>.  HMAC-SHA-256, ChaCha20-Poly1305, HKDF-SHA-256 and the
  random generator are OpenSSL's: they are the fields of a record \<open>crypto\<close> every operation
  takes, and what the properties rely on is stated as \<open>aead_correct\<close> and \<open>hmac_sized\<close>.  The two
  clocks \<open>expired\<close> reads are arguments.  A pointer and a size are one byte list, so the guards
  against null pointers have nothing to say here; wiping memory has no observable effect.
\<close>

subsection \<open>What OpenSSL provides\<close>

text \<open>\<^const>\<open>None\<close> is a call that fails; \<open>decrypt\<close> tells a failing call from a wrong tag.\<close>

record crypto =
  c_hmac :: "bytes \<Rightarrow> bytes \<Rightarrow> bytes option"
  c_hkdf :: "bytes \<Rightarrow> bytes \<Rightarrow> bytes \<Rightarrow> nat \<Rightarrow> bytes option"
  c_encrypt :: "bytes \<Rightarrow> bytes \<Rightarrow> bytes \<Rightarrow> bytes \<Rightarrow> (bytes \<times> bytes) option"
  c_decrypt :: "bytes \<Rightarrow> bytes \<Rightarrow> bytes \<Rightarrow> bytes \<Rightarrow> bytes \<Rightarrow> security_error + bytes"

definition aead_correct :: "crypto \<Rightarrow> bool" where
  "aead_correct cr \<longleftrightarrow> (\<forall>key nonce aad plain cipher tag.
     c_encrypt cr key nonce aad plain = Some (cipher, tag) \<longrightarrow>
       length cipher = length plain \<and> length tag = 16 \<and>
       c_decrypt cr key nonce aad cipher tag = Inr plain)"

definition hmac_sized :: "crypto \<Rightarrow> bool" where
  "hmac_sized cr \<longleftrightarrow> (\<forall>key data tag. c_hmac cr key data = Some tag \<longrightarrow> length tag = 32)"

definition hmacSha256 :: "crypto \<Rightarrow> bytes \<Rightarrow> bytes \<Rightarrow> security_error + bytes" where
  "hmacSha256 cr key data =
     (case c_hmac cr key data of None \<Rightarrow> Inl CryptoFailure | Some tag \<Rightarrow> Inr tag)"

definition INT_MAX :: nat where
  "INT_MAX = 2147483647"

definition encryptChaCha ::
  "crypto \<Rightarrow> bytes \<Rightarrow> bytes \<Rightarrow> bytes \<Rightarrow> bytes \<Rightarrow> security_error + bytes \<times> bytes" where
  "encryptChaCha cr key nonce aad plaintext =
     (if length plaintext > INT_MAX \<or> length aad > INT_MAX then Inl InvalidArgument
      else case c_encrypt cr key nonce aad plaintext of
             None \<Rightarrow> Inl CryptoFailure | Some r \<Rightarrow> Inr r)"

definition decryptChaCha ::
  "crypto \<Rightarrow> bytes \<Rightarrow> bytes \<Rightarrow> bytes \<Rightarrow> bytes \<Rightarrow> bytes \<Rightarrow> security_error + bytes" where
  "decryptChaCha cr key nonce aad ciphertext tag =
     (if length ciphertext > INT_MAX \<or> length aad > INT_MAX then Inl InvalidArgument
      else c_decrypt cr key nonce aad ciphertext tag)"

subsection \<open>Byte helpers\<close>

definition sec_appendBigEndian64 :: "u64 \<Rightarrow> bytes" where
  "sec_appendBigEndian64 value =
     map (\<lambda>shift. ucast (drop_bit shift value)) [56, 48, 40, 32, 24, 16, 8, 0]"

definition sec_appendLittleEndian64 :: "u64 \<Rightarrow> bytes" where
  "sec_appendLittleEndian64 value =
     map (\<lambda>shift. ucast (drop_bit shift value)) [0, 8, 16, 24, 32, 40, 48, 56]"

definition appendLengthPrefixed :: "bytes \<Rightarrow> bytes" where
  "appendLengthPrefixed data = sec_appendLittleEndian64 (word_of_nat (length data)) @ data"

definition sec_appendBigEndian32 :: "u32 \<Rightarrow> bytes" where
  "sec_appendBigEndian32 value =
     [ucast (drop_bit 24 value), ucast (drop_bit 16 value), ucast (drop_bit 8 value), ucast value]"

definition sec_readBigEndian64 :: "bytes \<Rightarrow> u64" where
  "sec_readBigEndian64 data = foldl (\<lambda>value b. push_bit 8 value OR ucast b) 0 (take 8 data)"

lemma sec_be [be_simps]:
  "sec_appendBigEndian64 v = be_bytes 8 v" "sec_appendBigEndian32 w = be_bytes 4 w"
  "sec_readBigEndian64 bs = be_value (take 8 bs)"
  by (simp_all add: sec_appendBigEndian64_def sec_appendBigEndian32_def sec_readBigEndian64_def
      be_bytes_numeral be_value_def)

definition kEncryptedFlag :: u8 where "kEncryptedFlag = push_bit 1 1"
definition kControlTagBytes :: nat where "kControlTagBytes = 32"
definition kMediaTagBytes :: nat where "kMediaTagBytes = 16"
definition kSequenceBytes :: nat where "kSequenceBytes = 8"
definition kMaximumWirePayload :: nat where "kMaximumWirePayload = 16 * 1024 * 1024"
definition kMaximumControlPlaintext :: nat where "kMaximumControlPlaintext = 1024 * 1024"
definition kControlDomain :: string where "kControlDomain = ''RemoteCam control envelope v1''"
definition kMediaDomain :: string where "kMediaDomain = ''RemoteCam media envelope v1''"
definition kMaximumSessionRecordsPerChannel :: u64 where
  "kMaximumSessionRecordsPerChannel = push_bit 32 1"
definition kMaximumSessionLifetimeSeconds :: u64 where
  "kMaximumSessionLifetimeSeconds = 24 * 60 * 60"

lemmas protector_sizes = kControlTagBytes_def kMediaTagBytes_def kSequenceBytes_def

definition envelopeAuthenticationData ::
  "nat \<Rightarrow> u8 \<Rightarrow> u8 \<Rightarrow> u64 \<Rightarrow> u64 \<Rightarrow> string \<Rightarrow> bytes" where
  "envelopeAuthenticationData payloadSize channel flags ptsMicros sequence domain =
     sec_appendBigEndian32 (word_of_nat payloadSize) @ [channel, flags, 0, 0] @
     sec_appendBigEndian64 ptsMicros @ sec_appendBigEndian64 sequence @ bytes_of_string domain"

definition mediaNonce :: "bytes \<Rightarrow> u64 \<Rightarrow> bytes" where
  "mediaNonce prefix sequence =
     prefix @ map (\<lambda>index. ucast (drop_bit (56 - index * 8) sequence)) [0..<8]"

lemma mediaNonce_be: "mediaNonce prefix sequence = prefix @ be_bytes 8 sequence"
  by (simp add: mediaNonce_def be_bytes_numeral upt_rec)

subsection \<open>Keys and state\<close>

record channel_keys =
  ck_key :: bytes
  ck_noncePrefix :: bytes

record session_keys =
  controlAtoB :: channel_keys
  controlBtoA :: channel_keys
  videoAtoB :: channel_keys
  videoBtoA :: channel_keys
  statsAtoB :: channel_keys
  statsBtoA :: channel_keys

datatype session_role = Server | Client

record sequence_counter =
  sq_next :: u64
  sq_exhausted :: bool

definition new_counter :: sequence_counter where
  "new_counter = \<lparr>sq_next = 0, sq_exhausted = False\<rparr>"

text \<open>The arrays of 256 counters are indexed by the channel byte.\<close>

record protector =
  outgoingControl :: channel_keys
  incomingControl :: channel_keys
  outgoingVideo :: channel_keys
  incomingVideo :: channel_keys
  outgoingStats :: channel_keys
  incomingStats :: channel_keys
  pr_expiresUnixSeconds :: u64
  steadyDeadline :: time_point
  outgoingControlSequence :: "u8 \<Rightarrow> sequence_counter"
  incomingControlSequence :: "u8 \<Rightarrow> sequence_counter"
  outgoingMediaSequence :: "u8 \<Rightarrow> sequence_counter"
  incomingMediaSequence :: "u8 \<Rightarrow> sequence_counter"

definition sessionProtector ::
  "session_role \<Rightarrow> session_keys \<Rightarrow> u64 \<Rightarrow> time_point \<Rightarrow> protector" where
  "sessionProtector role keys expires steadyNow =
     \<lparr>outgoingControl = (if role = Client then controlAtoB keys else controlBtoA keys),
      incomingControl = (if role = Client then controlBtoA keys else controlAtoB keys),
      outgoingVideo = (if role = Client then videoAtoB keys else videoBtoA keys),
      incomingVideo = (if role = Client then videoBtoA keys else videoAtoB keys),
      outgoingStats = (if role = Client then statsAtoB keys else statsBtoA keys),
      incomingStats = (if role = Client then statsBtoA keys else statsAtoB keys),
      pr_expiresUnixSeconds = expires,
      steadyDeadline = steadyNow + seconds (uint kMaximumSessionLifetimeSeconds),
      outgoingControlSequence = (\<lambda>_. new_counter), incomingControlSequence = (\<lambda>_. new_counter),
      outgoingMediaSequence = (\<lambda>_. new_counter), incomingMediaSequence = (\<lambda>_. new_counter)\<rparr>"

definition createSessionProtector ::
  "session_role \<Rightarrow> session_keys \<Rightarrow> u64 \<Rightarrow> time_point \<Rightarrow> security_error + protector" where
  "createSessionProtector role keys nowUnixSeconds steadyNow =
     (if nowUnixSeconds > - 1 - kMaximumSessionLifetimeSeconds then Inl InvalidArgument
      else Inr (sessionProtector role keys (nowUnixSeconds + kMaximumSessionLifetimeSeconds) steadyNow))"

definition advance :: "sequence_counter \<Rightarrow> sequence_counter" where
  "advance counter =
     (if sq_next counter + 1 \<ge> kMaximumSessionRecordsPerChannel then counter\<lparr>sq_exhausted := True\<rparr>
      else counter\<lparr>sq_next := sq_next counter + 1\<rparr>)"

record clocks =
  unixSeconds :: u64
  steadyClock :: time_point

definition protector_expired :: "clocks \<Rightarrow> protector \<Rightarrow> bool" where
  "protector_expired now p \<longleftrightarrow>
     unixSeconds now \<ge> pr_expiresUnixSeconds p \<or> steadyClock now \<ge> steadyDeadline p"

definition outgoingMediaKeys :: "protector \<Rightarrow> u8 \<Rightarrow> channel_keys" where
  "outgoingMediaKeys p channel = (if channel = 1 then outgoingVideo p else outgoingStats p)"

definition outgoingAuthenticatedKeys :: "protector \<Rightarrow> u8 \<Rightarrow> channel_keys" where
  "outgoingAuthenticatedKeys p channel = (if channel = 0 then outgoingControl p else outgoingStats p)"

definition incomingAuthenticatedKeys :: "protector \<Rightarrow> u8 \<Rightarrow> channel_keys" where
  "incomingAuthenticatedKeys p channel = (if channel = 0 then incomingControl p else incomingStats p)"

definition incomingMediaKeys :: "protector \<Rightarrow> u8 \<Rightarrow> channel_keys" where
  "incomingMediaKeys p channel = (if channel = 1 then incomingVideo p else incomingStats p)"

lemmas protector_keys = outgoingMediaKeys_def outgoingAuthenticatedKeys_def
  incomingAuthenticatedKeys_def incomingMediaKeys_def

record protected_payload =
  pp_flags :: u8
  pp_payload :: bytes

subsection \<open>The four operations\<close>

definition protectControl ::
  "crypto \<Rightarrow> clocks \<Rightarrow> u8 \<Rightarrow> u8 \<Rightarrow> u64 \<Rightarrow> bytes \<Rightarrow> protector \<Rightarrow>
     (security_error + protected_payload) \<times> protector" where
  "protectControl cr now channel flags ptsMicros plaintext p =
     (if (channel \<noteq> 0 \<and> channel \<noteq> 3) \<or> flags AND kEncryptedFlag \<noteq> 0 \<or>
         length plaintext > kMaximumControlPlaintext then (Inl InvalidArgument, p)
      else if protector_expired now p then (Inl Expired, p)
      else
        (let counter = outgoingControlSequence p channel
         in if sq_exhausted counter then (Inl SequenceExhausted, p)
            else
              (let sequence = sq_next counter;
                   envelopeSize = kSequenceBytes + length plaintext + kControlTagBytes;
                   authenticated = envelopeAuthenticationData envelopeSize channel flags ptsMicros
                     sequence kControlDomain @ plaintext
               in case hmacSha256 cr (ck_key (outgoingAuthenticatedKeys p channel)) authenticated of
                    Inl e \<Rightarrow> (Inl e, p)
                  | Inr tag \<Rightarrow>
                      (Inr \<lparr>pp_flags = flags,
                            pp_payload = sec_appendBigEndian64 sequence @ plaintext @ tag\<rparr>,
                       p\<lparr>outgoingControlSequence :=
                           (outgoingControlSequence p)(channel := advance counter)\<rparr>))))"

definition unprotectControl ::
  "crypto \<Rightarrow> clocks \<Rightarrow> u8 \<Rightarrow> u8 \<Rightarrow> u64 \<Rightarrow> bytes \<Rightarrow> protector \<Rightarrow> (security_error + bytes) \<times> protector"
where
  "unprotectControl cr now channel flags ptsMicros envelope p =
     (if (channel \<noteq> 0 \<and> channel \<noteq> 3) \<or> flags AND kEncryptedFlag \<noteq> 0 \<or>
         length envelope < kSequenceBytes + kControlTagBytes \<or>
         length envelope > kMaximumControlPlaintext + kSequenceBytes + kControlTagBytes
      then (Inl InvalidArgument, p)
      else if protector_expired now p then (Inl Expired, p)
      else
        (let counter = incomingControlSequence p channel
         in if sq_exhausted counter then (Inl SequenceExhausted, p)
            else
              (let sequence = sec_readBigEndian64 envelope
               in if sequence \<noteq> sq_next counter then (Inl SequenceMismatch, p)
                  else
                    (let plaintextSize = length envelope - kSequenceBytes - kControlTagBytes;
                         recovered = take plaintextSize (drop kSequenceBytes envelope);
                         authenticated = envelopeAuthenticationData (length envelope) channel flags
                           ptsMicros sequence kControlDomain @ recovered
                     in case hmacSha256 cr (ck_key (incomingAuthenticatedKeys p channel)) authenticated of
                          Inl e \<Rightarrow> (Inl e, p)
                        | Inr expected \<Rightarrow>
                            if expected \<noteq> drop (kSequenceBytes + plaintextSize) envelope
                            then (Inl AuthenticationFailed, p)
                            else (Inr recovered,
                                  p\<lparr>incomingControlSequence :=
                                      (incomingControlSequence p)(channel := advance counter)\<rparr>)))))"

definition protectMedia ::
  "crypto \<Rightarrow> clocks \<Rightarrow> u8 \<Rightarrow> u8 \<Rightarrow> u64 \<Rightarrow> bytes \<Rightarrow> protector \<Rightarrow>
     (security_error + protected_payload) \<times> protector" where
  "protectMedia cr now channel flags ptsMicros plaintext p =
     (if (channel \<noteq> 1 \<and> channel \<noteq> 3) \<or> flags AND kEncryptedFlag \<noteq> 0 \<or>
         length plaintext > kMaximumWirePayload - kSequenceBytes - kMediaTagBytes
      then (Inl InvalidArgument, p)
      else if protector_expired now p then (Inl Expired, p)
      else
        (let counter = outgoingMediaSequence p channel
         in if sq_exhausted counter then (Inl SequenceExhausted, p)
            else
              (let sequence = sq_next counter;
                   protectedFlags = flags OR kEncryptedFlag;
                   envelopeSize = kSequenceBytes + length plaintext + kMediaTagBytes;
                   aad = envelopeAuthenticationData envelopeSize channel protectedFlags ptsMicros
                     sequence kMediaDomain;
                   channelKeys = outgoingMediaKeys p channel;
                   nonce = mediaNonce (ck_noncePrefix channelKeys) sequence
               in case encryptChaCha cr (ck_key channelKeys) nonce aad plaintext of
                    Inl e \<Rightarrow> (Inl e, p)
                  | Inr (ciphertext, tag) \<Rightarrow>
                      (Inr \<lparr>pp_flags = protectedFlags,
                            pp_payload = sec_appendBigEndian64 sequence @ ciphertext @ tag\<rparr>,
                       p\<lparr>outgoingMediaSequence :=
                           (outgoingMediaSequence p)(channel := advance counter)\<rparr>))))"

definition unprotectMedia ::
  "crypto \<Rightarrow> clocks \<Rightarrow> u8 \<Rightarrow> u8 \<Rightarrow> u64 \<Rightarrow> bytes \<Rightarrow> protector \<Rightarrow> (security_error + bytes) \<times> protector"
where
  "unprotectMedia cr now channel flags ptsMicros envelope p =
     (if (channel \<noteq> 1 \<and> channel \<noteq> 3) \<or> flags AND kEncryptedFlag = 0 \<or>
         length envelope < kSequenceBytes + kMediaTagBytes \<or>
         length envelope > kMaximumWirePayload
      then (Inl InvalidArgument, p)
      else if protector_expired now p then (Inl Expired, p)
      else
        (let counter = incomingMediaSequence p channel
         in if sq_exhausted counter then (Inl SequenceExhausted, p)
            else
              (let sequence = sec_readBigEndian64 envelope
               in if sequence \<noteq> sq_next counter then (Inl SequenceMismatch, p)
                  else
                    (let ciphertextSize = length envelope - kSequenceBytes - kMediaTagBytes;
                         aad = envelopeAuthenticationData (length envelope) channel flags ptsMicros
                           sequence kMediaDomain;
                         channelKeys = incomingMediaKeys p channel;
                         nonce = mediaNonce (ck_noncePrefix channelKeys) sequence
                     in case decryptChaCha cr (ck_key channelKeys) nonce aad
                               (take ciphertextSize (drop kSequenceBytes envelope))
                               (drop (kSequenceBytes + ciphertextSize) envelope) of
                          Inl e \<Rightarrow> (Inl e, p)
                        | Inr recovered \<Rightarrow>
                            (Inr recovered,
                             p\<lparr>incomingMediaSequence :=
                                 (incomingMediaSequence p)(channel := advance counter)\<rparr>)))))"

subsection \<open>Sequence numbers\<close>

text \<open>How many sequence numbers a counter has handed out.\<close>

definition used :: "sequence_counter \<Rightarrow> nat" where
  "used c = unat (sq_next c) + (if sq_exhausted c then 1 else 0)"

definition counter_ok :: "sequence_counter \<Rightarrow> bool" where
  "counter_ok c \<longleftrightarrow> unat (sq_next c) < 2 ^ 32"

lemma records_limit: "unat kMaximumSessionRecordsPerChannel = 2 ^ 32"
  by (simp add: kMaximumSessionRecordsPerChannel_def)

lemma new_counter_ok [simp]: "counter_ok new_counter" "used new_counter = 0"
  by (simp_all add: counter_ok_def used_def new_counter_def)

lemma advance_used:
  assumes "counter_ok c" and "\<not> sq_exhausted c"
  shows "counter_ok (advance c)" and "used (advance c) = Suc (used c)"
    and "used c = unat (sq_next c)"
proof -
  have lt: "unat (sq_next c) < 2 ^ 32" using assms(1) by (simp add: counter_ok_def)
  then have s: "unat (sq_next c + 1) = Suc (unat (sq_next c))"
    by (intro unat_next) (auto simp: unsigned_minus_1_eq_mask mask_eq_exp_minus_1)
  have ge: "sq_next c + 1 \<ge> kMaximumSessionRecordsPerChannel \<longleftrightarrow> Suc (unat (sq_next c)) \<ge> 2 ^ 32"
    by (simp add: word_le_nat_alt records_limit s)
  show "counter_ok (advance c)" using lt by (auto simp: advance_def ge counter_ok_def s)
  show "used (advance c) = Suc (used c)" using assms(2) by (auto simp: advance_def used_def s)
  show "used c = unat (sq_next c)" using assms(2) by (simp add: used_def)
qed

lemma used_le: "counter_ok c \<Longrightarrow> used c \<le> 2 ^ 32"
  by (simp add: counter_ok_def used_def)

text \<open>The four operations as one, on records with their envelope fields.\<close>

datatype protector_kind = SendControl | ReceiveControl | SendMedia | ReceiveMedia

record protector_op =
  po_kind :: protector_kind
  po_clocks :: clocks
  po_channel :: u8
  po_flags :: u8
  po_pts :: u64
  po_data :: bytes

fun counter_of :: "protector_kind \<Rightarrow> protector \<Rightarrow> u8 \<Rightarrow> sequence_counter" where
  "counter_of SendControl p = outgoingControlSequence p"
| "counter_of ReceiveControl p = incomingControlSequence p"
| "counter_of SendMedia p = outgoingMediaSequence p"
| "counter_of ReceiveMedia p = incomingMediaSequence p"

text \<open>The envelope on the wire if the operation succeeds, and the state it leaves.\<close>

definition protector_run_op :: "crypto \<Rightarrow> protector_op \<Rightarrow> protector \<Rightarrow> bytes option \<times> protector" where
  "protector_run_op cr op p =
     (case po_kind op of
        SendControl \<Rightarrow>
          (case protectControl cr (po_clocks op) (po_channel op) (po_flags op) (po_pts op) (po_data op) p of
             (Inl e, p) \<Rightarrow> (None, p) | (Inr r, p) \<Rightarrow> (Some (pp_payload r), p))
      | SendMedia \<Rightarrow>
          (case protectMedia cr (po_clocks op) (po_channel op) (po_flags op) (po_pts op) (po_data op) p of
             (Inl e, p) \<Rightarrow> (None, p) | (Inr r, p) \<Rightarrow> (Some (pp_payload r), p))
      | ReceiveControl \<Rightarrow>
          (case unprotectControl cr (po_clocks op) (po_channel op) (po_flags op) (po_pts op) (po_data op) p of
             (Inl e, p) \<Rightarrow> (None, p) | (Inr r, p) \<Rightarrow> (Some (po_data op), p))
      | ReceiveMedia \<Rightarrow>
          (case unprotectMedia cr (po_clocks op) (po_channel op) (po_flags op) (po_pts op) (po_data op) p of
             (Inl e, p) \<Rightarrow> (None, p) | (Inr r, p) \<Rightarrow> (Some (po_data op), p)))"

lemma read_be8: "sec_readBigEndian64 (be_bytes 8 v @ rest) = v"
  by (simp add: sec_be)

text \<open>
  What a success says: the counter was not exhausted, the envelope carries its number, and that
  one counter moves on; a failure changes nothing.
\<close>

definition accepts_record :: "protector_kind \<Rightarrow> u8 \<Rightarrow> protector \<Rightarrow> protector \<Rightarrow> bytes \<Rightarrow> bool" where
  "accepts_record kind channel p p' envelope \<longleftrightarrow>
     \<not> sq_exhausted (counter_of kind p channel) \<and>
     sec_readBigEndian64 envelope = sq_next (counter_of kind p channel) \<and>
     (\<forall>k ch. counter_of k p' ch =
        (if k = kind \<and> ch = channel then advance (counter_of k p ch) else counter_of k p ch)) \<and>
     (\<forall>ch. outgoingMediaKeys p' ch = outgoingMediaKeys p ch) \<and>
     (channel = 0 \<or> channel = 1 \<or> channel = 3) \<and> (kind = SendMedia \<longrightarrow> channel \<noteq> 0)"

lemma all_kinds: "(\<forall>k. P k) \<longleftrightarrow> P SendControl \<and> P ReceiveControl \<and> P SendMedia \<and> P ReceiveMedia"
  by (metis protector_kind.exhaust)

lemma protectControl_fails: "protectControl cr now ch fl pts d p = (Inl e, p') \<Longrightarrow> p' = p"
  by (auto simp: protectControl_def Let_def split: if_splits sum.splits)

lemma protectMedia_fails: "protectMedia cr now ch fl pts d p = (Inl e, p') \<Longrightarrow> p' = p"
  by (auto simp: protectMedia_def Let_def split: if_splits sum.splits)

lemma unprotectControl_fails: "unprotectControl cr now ch fl pts d p = (Inl e, p') \<Longrightarrow> p' = p"
  by (auto simp: unprotectControl_def Let_def split: if_splits sum.splits)

lemma unprotectMedia_fails: "unprotectMedia cr now ch fl pts d p = (Inl e, p') \<Longrightarrow> p' = p"
  by (auto simp: unprotectMedia_def Let_def split: if_splits sum.splits)

lemma protectControl_accepts:
  "protectControl cr now ch fl pts d p = (Inr r, p') \<Longrightarrow> accepts_record SendControl ch p p' (pp_payload r)"
  by (auto simp: protectControl_def accepts_record_def all_kinds Let_def sec_be protector_keys
      split: if_splits sum.splits)

lemma protectMedia_accepts:
  "protectMedia cr now ch fl pts d p = (Inr r, p') \<Longrightarrow> accepts_record SendMedia ch p p' (pp_payload r)"
  by (auto simp: protectMedia_def accepts_record_def all_kinds Let_def sec_be protector_keys
      split: if_splits sum.splits)

lemma unprotectControl_accepts:
  "unprotectControl cr now ch fl pts d p = (Inr r, p') \<Longrightarrow> accepts_record ReceiveControl ch p p' d"
  by (auto simp: unprotectControl_def accepts_record_def all_kinds Let_def protector_keys
      split: if_splits sum.splits)

lemma unprotectMedia_accepts:
  "unprotectMedia cr now ch fl pts d p = (Inr r, p') \<Longrightarrow> accepts_record ReceiveMedia ch p p' d"
  by (auto simp: unprotectMedia_def accepts_record_def all_kinds Let_def protector_keys
      split: if_splits sum.splits)

lemmas protector_fails = protectControl_fails protectMedia_fails unprotectControl_fails
  unprotectMedia_fails
lemmas protector_accepts = protectControl_accepts protectMedia_accepts unprotectControl_accepts
  unprotectMedia_accepts

lemma protector_op_cases:
  assumes "protector_run_op cr op p = (r, p')"
  obtains "r = None" and "p' = p"
  | envelope where "r = Some envelope" and "accepts_record (po_kind op) (po_channel op) p p' envelope"
  using assms
  by (auto simp: protector_run_op_def dest: protector_fails protector_accepts
      split: protector_kind.splits prod.splits sum.splits)

subsection \<open>Runs\<close>

text \<open>A run of one end, with the log of what succeeded: kind, channel and envelope.\<close>

record protector_run =
  pn_state :: protector
  pn_log :: "(protector_kind \<times> u8 \<times> bytes) list"

definition protector_step :: "crypto \<Rightarrow> protector_run \<Rightarrow> protector_op \<Rightarrow> protector_run" where
  "protector_step cr s op =
     (case protector_run_op cr op (pn_state s) of
        (None, p) \<Rightarrow> s\<lparr>pn_state := p\<rparr>
      | (Some envelope, p) \<Rightarrow>
          s\<lparr>pn_state := p, pn_log := pn_log s @ [(po_kind op, po_channel op, envelope)]\<rparr>)"

definition sequences :: "protector_kind \<Rightarrow> u8 \<Rightarrow> (protector_kind \<times> u8 \<times> bytes) list \<Rightarrow> nat list" where
  "sequences k ch log = map (\<lambda>(_, _, e). unat (sec_readBigEndian64 e))
     (filter (\<lambda>(k', ch', _). k' = k \<and> ch' = ch) log)"

definition run_in_order :: "protector \<Rightarrow> protector_run \<Rightarrow> bool" where
  "run_in_order p0 s \<longleftrightarrow>
     (\<forall>k ch. counter_ok (counter_of k (pn_state s) ch) \<and>
        sequences k ch (pn_log s) = [0..<used (counter_of k (pn_state s) ch)]) \<and>
     (\<forall>ch. outgoingMediaKeys (pn_state s) ch = outgoingMediaKeys p0 ch) \<and>
     (\<forall>(k, ch, e) \<in> set (pn_log s). k = SendMedia \<longrightarrow> ch = 1 \<or> ch = 3)"

lemma run_in_order_step:
  assumes "run_in_order p0 s"
  shows "run_in_order p0 (protector_step cr s op)"
proof -
  obtain r p where op: "protector_run_op cr op (pn_state s) = (r, p)" by fastforce
  then show ?thesis
  proof (cases rule: protector_op_cases)
    case 1
    then show ?thesis using assms by (simp add: protector_step_def op run_in_order_def)
  next
    case (2 envelope)
    let ?k = "po_kind op" and ?ch = "po_channel op"
    let ?c = "counter_of ?k (pn_state s) ?ch"
    have acc: "\<not> sq_exhausted ?c" "sec_readBigEndian64 envelope = sq_next ?c"
      "\<And>k ch. counter_of k p ch = (if k = ?k \<and> ch = ?ch then advance (counter_of k (pn_state s) ch)
        else counter_of k (pn_state s) ch)"
      "\<And>ch. outgoingMediaKeys p ch = outgoingMediaKeys (pn_state s) ch"
      "?k = SendMedia \<Longrightarrow> ?ch = 1 \<or> ?ch = 3"
      using 2(2) by (auto simp: accepts_record_def)
    have inv: "counter_ok (counter_of k (pn_state s) ch)"
      "sequences k ch (pn_log s) = [0..<used (counter_of k (pn_state s) ch)]" for k ch
      using assms by (simp_all add: run_in_order_def)
    note adv = advance_used[OF inv(1) acc(1)]
    have "sequences k ch (pn_log s @ [(?k, ?ch, envelope)]) = [0..<used (counter_of k p ch)]" for k ch
      using inv(2)[of k ch] adv acc(2,3) by (auto simp: sequences_def)
    moreover have "counter_ok (counter_of k p ch)" for k ch
      using inv(1)[of k ch] adv acc(3) by auto
    ultimately show ?thesis
      using assms acc(4,5) by (auto simp: protector_step_def op 2(1) run_in_order_def)
  qed
qed

interpretation protector_machine: machine "protector_step cr" "run_in_order p0" for cr p0
  by unfold_locales (rule run_in_order_step)

definition fresh_run :: "protector \<Rightarrow> protector_run" where
  "fresh_run p = \<lparr>pn_state = p, pn_log = []\<rparr>"

lemma run_in_order_fresh:
  "createSessionProtector role keys now st = Inr p \<Longrightarrow> run_in_order p (fresh_run p)"
  by (auto simp: createSessionProtector_def sessionProtector_def run_in_order_def fresh_run_def
      sequences_def all_kinds split: if_splits)

lemma run_in_order_run:
  assumes "createSessionProtector role keys now st = Inr p"
  shows "run_in_order p (foldl (protector_step cr) (fresh_run p) ops)"
  by (rule protector_machine.run_inv[OF run_in_order_fresh[OF assms]])

subsection \<open>The two ends of a session\<close>

definition synced :: "protector \<Rightarrow> protector \<Rightarrow> bool" where
  "synced a b \<longleftrightarrow>
     outgoingControl a = incomingControl b \<and> outgoingVideo a = incomingVideo b \<and>
     outgoingStats a = incomingStats b \<and>
     outgoingControlSequence a = incomingControlSequence b \<and>
     outgoingMediaSequence a = incomingMediaSequence b"

definition other_role :: "session_role \<Rightarrow> session_role" where
  "other_role r = (if r = Server then Client else Server)"

lemma synced_fresh:
  assumes "createSessionProtector r keys now st = Inr a"
    and "createSessionProtector (other_role r) keys now' st' = Inr b"
  shows "synced a b"
  using assms
  by (cases r) (auto simp: createSessionProtector_def sessionProtector_def other_role_def synced_def
      split: if_splits)

text \<open>A record as a frame carries it, in clear and sealed.\<close>

record wire_record =
  wr_media :: bool
  wr_channel :: u8
  wr_flags :: u8
  wr_pts :: u64
  wr_payload :: bytes

definition seal :: "crypto \<Rightarrow> clocks \<Rightarrow> wire_record \<Rightarrow> protector \<Rightarrow> (security_error + wire_record) \<times> protector"
where
  "seal cr now r p =
     (case (if wr_media r then protectMedia else protectControl)
             cr now (wr_channel r) (wr_flags r) (wr_pts r) (wr_payload r) p of
        (Inl e, p) \<Rightarrow> (Inl e, p)
      | (Inr pp, p) \<Rightarrow> (Inr (r\<lparr>wr_flags := pp_flags pp, wr_payload := pp_payload pp\<rparr>), p))"

definition open_record :: "crypto \<Rightarrow> clocks \<Rightarrow> wire_record \<Rightarrow> protector \<Rightarrow> (security_error + bytes) \<times> protector"
where
  "open_record cr now r p =
     (if wr_media r then unprotectMedia else unprotectControl)
       cr now (wr_channel r) (wr_flags r) (wr_pts r) (wr_payload r) p"

fun seal_all :: "crypto \<Rightarrow> clocks \<Rightarrow> wire_record list \<Rightarrow> protector \<Rightarrow> security_error + wire_record list" where
  "seal_all cr now [] p = Inr []"
| "seal_all cr now (r # rs) p =
     (case seal cr now r p of
        (Inl e, _) \<Rightarrow> Inl e
      | (Inr s, p) \<Rightarrow> (case seal_all cr now rs p of Inl e \<Rightarrow> Inl e | Inr ss \<Rightarrow> Inr (s # ss)))"

fun open_all :: "crypto \<Rightarrow> clocks \<Rightarrow> wire_record list \<Rightarrow> protector \<Rightarrow> security_error + bytes list" where
  "open_all cr now [] p = Inr []"
| "open_all cr now (s # ss) p =
     (case open_record cr now s p of
        (Inl e, _) \<Rightarrow> Inl e
      | (Inr d, p) \<Rightarrow> (case open_all cr now ss p of Inl e \<Rightarrow> Inl e | Inr ds \<Rightarrow> Inr (d # ds)))"

lemma length_aad: "length (envelopeAuthenticationData n ch fl pts sq domain) = 24 + length domain"
  by (simp add: envelopeAuthenticationData_def sec_be)

lemma encrypted_flag_set: "(fl OR kEncryptedFlag) AND kEncryptedFlag \<noteq> (0 :: u8)"
proof
  assume "(fl OR kEncryptedFlag) AND kEncryptedFlag = 0"
  then have "\<not> bit ((fl OR kEncryptedFlag) AND kEncryptedFlag) 1" by simp
  then show False by (simp add: kEncryptedFlag_def bit_simps)
qed

lemma open_seal_control:
  assumes hm: "hmac_sized cr" and sy: "synced a b" and live: "\<not> protector_expired now b"
    and s: "protectControl cr now' ch fl pts d a = (Inr r, a')"
  shows "\<exists>b'. unprotectControl cr now ch (pp_flags r) pts (pp_payload r) b = (Inr d, b') \<and>
     synced a' b' \<and> \<not> protector_expired now b'"
proof -
  let ?c = "outgoingControlSequence a ch"
  let ?n = "8 + length d + 32"
  let ?in = "envelopeAuthenticationData ?n ch fl pts (sq_next ?c) kControlDomain @ d"
  from s obtain tag where tag: "c_hmac cr (ck_key (outgoingAuthenticatedKeys a ch)) ?in = Some tag"
    and r: "r = \<lparr>pp_flags = fl, pp_payload = be_bytes 8 (sq_next ?c) @ d @ tag\<rparr>"
    and a': "a' = a\<lparr>outgoingControlSequence := (outgoingControlSequence a)(ch := advance ?c)\<rparr>"
    and g: "ch = 0 \<or> ch = 3" "fl AND kEncryptedFlag = 0" "length d \<le> kMaximumControlPlaintext"
      "\<not> sq_exhausted ?c"
    by (auto simp: protectControl_def Let_def sec_be hmacSha256_def protector_sizes
        split: if_splits option.splits)
  from hm tag have len: "length tag = 32" by (auto simp: hmac_sized_def)
  have k: "incomingAuthenticatedKeys b ch = outgoingAuthenticatedKeys a ch"
    using sy by (simp add: synced_def protector_keys)
  have q: "incomingControlSequence b ch = ?c" using sy by (simp add: synced_def)
  let ?e = "be_bytes 8 (sq_next ?c) @ d @ tag"
  have e: "length ?e = 8 + length d + 32" "sec_readBigEndian64 ?e = sq_next ?c"
    "take (8 + length d + 32 - 8 - 32) (drop 8 ?e) = d"
    "drop (8 + (8 + length d + 32 - 8 - 32)) ?e = tag"
    by (simp_all add: len read_be8)
  let ?b' = "b\<lparr>incomingControlSequence := (incomingControlSequence b)(ch := advance ?c)\<rparr>"
  have "unprotectControl cr now ch fl pts ?e b = (Inr d, ?b')"
    unfolding unprotectControl_def protector_sizes Let_def e k q hmacSha256_def tag
    using g live by (auto simp: e)
  moreover have "synced a' ?b'" using sy by (simp add: a' synced_def)
  moreover have "\<not> protector_expired now ?b'" using live by (simp add: protector_expired_def)
  ultimately show ?thesis by (auto simp: r)
qed

lemma open_seal_media:
  assumes ae: "aead_correct cr" and sy: "synced a b" and live: "\<not> protector_expired now b"
    and s: "protectMedia cr now' ch fl pts d a = (Inr r, a')"
  shows "\<exists>b'. unprotectMedia cr now ch (pp_flags r) pts (pp_payload r) b = (Inr d, b') \<and>
     synced a' b' \<and> \<not> protector_expired now b'"
proof -
  let ?c = "outgoingMediaSequence a ch" and ?k = "outgoingMediaKeys a ch"
  let ?fl = "fl OR kEncryptedFlag"
  let ?nonce = "mediaNonce (ck_noncePrefix ?k) (sq_next ?c)"
  let ?aad = "envelopeAuthenticationData (8 + length d + 16) ch ?fl pts (sq_next ?c) kMediaDomain"
  from s obtain cipher tag where enc: "c_encrypt cr (ck_key ?k) ?nonce ?aad d = Some (cipher, tag)"
    and r: "r = \<lparr>pp_flags = ?fl, pp_payload = be_bytes 8 (sq_next ?c) @ cipher @ tag\<rparr>"
    and a': "a' = a\<lparr>outgoingMediaSequence := (outgoingMediaSequence a)(ch := advance ?c)\<rparr>"
    and g: "ch = 1 \<or> ch = 3" "\<not> length d > kMaximumWirePayload - 8 - 16" "\<not> sq_exhausted ?c"
      "\<not> length d > INT_MAX" "\<not> length ?aad > INT_MAX"
    by (auto simp: protectMedia_def Let_def sec_be encryptChaCha_def protector_sizes
        split: if_splits option.splits)
  from ae enc have len: "length cipher = length d" "length tag = 16"
    and dec: "c_decrypt cr (ck_key ?k) ?nonce ?aad cipher tag = Inr d"
    unfolding aead_correct_def by blast+
  have k: "incomingMediaKeys b ch = ?k" using sy by (simp add: synced_def protector_keys)
  have q: "incomingMediaSequence b ch = ?c" using sy by (simp add: synced_def)
  have size: "\<not> length d + 24 > kMaximumWirePayload"
    using g(2) by (simp add: kMaximumWirePayload_def)
  let ?e = "be_bytes 8 (sq_next ?c) @ cipher @ tag"
  have e: "length ?e = 8 + length d + 16" "sec_readBigEndian64 ?e = sq_next ?c"
    "take (8 + length d + 16 - 8 - 16) (drop 8 ?e) = cipher"
    "drop (8 + (8 + length d + 16 - 8 - 16)) ?e = tag"
    by (simp_all add: len read_be8)
  let ?b' = "b\<lparr>incomingMediaSequence := (incomingMediaSequence b)(ch := advance ?c)\<rparr>"
  have "unprotectMedia cr now ch ?fl pts ?e b = (Inr d, ?b')"
    unfolding unprotectMedia_def protector_sizes Let_def e k q decryptChaCha_def dec
    using g live size encrypted_flag_set[of fl] by (auto simp: len)
  moreover have "synced a' ?b'" using sy by (simp add: a' synced_def)
  moreover have "\<not> protector_expired now ?b'" using live by (simp add: protector_expired_def)
  ultimately show ?thesis by (auto simp: r)
qed

lemma open_seal:
  assumes "aead_correct cr" and "hmac_sized cr" and "synced a b" and "\<not> protector_expired now b"
    and "seal cr now' r a = (Inr s, a')"
  shows "\<exists>b'. open_record cr now s b = (Inr (wr_payload r), b') \<and> synced a' b' \<and>
     \<not> protector_expired now b'"
proof (cases "wr_media r")
  case True
  then obtain pp where pp: "protectMedia cr now' (wr_channel r) (wr_flags r) (wr_pts r) (wr_payload r) a = (Inr pp, a')"
    and s: "s = r\<lparr>wr_flags := pp_flags pp, wr_payload := pp_payload pp\<rparr>"
    using assms(5) by (auto simp: seal_def split: prod.splits sum.splits)
  from open_seal_media[OF assms(1,3,4) pp] True show ?thesis by (simp add: open_record_def s)
next
  case False
  then obtain pp where pp: "protectControl cr now' (wr_channel r) (wr_flags r) (wr_pts r) (wr_payload r) a = (Inr pp, a')"
    and s: "s = r\<lparr>wr_flags := pp_flags pp, wr_payload := pp_payload pp\<rparr>"
    using assms(5) by (auto simp: seal_def split: prod.splits sum.splits)
  from open_seal_control[OF assms(2,3,4) pp] False show ?thesis by (simp add: open_record_def s)
qed

lemma open_all_seal_all:
  assumes "aead_correct cr" and "hmac_sized cr"
  shows "synced a b \<Longrightarrow> \<not> protector_expired now b \<Longrightarrow> seal_all cr now' rs a = Inr ss \<Longrightarrow>
     open_all cr now ss b = Inr (map wr_payload rs)"
proof (induction rs arbitrary: a b ss)
  case Nil
  then show ?case by simp
next
  case (Cons r rs)
  from Cons.prems(3) obtain s a' ss' where s: "seal cr now' r a = (Inr s, a')"
    and ss': "seal_all cr now' rs a' = Inr ss'" and ss: "ss = s # ss'"
    by (auto split: prod.splits sum.splits)
  from open_seal[OF assms Cons.prems(1,2) s] obtain b'
    where "open_record cr now s b = (Inr (wr_payload r), b')" "synced a' b'" "\<not> protector_expired now b'"
    by blast
  with Cons.IH[OF _ _ ss'] show ?case by (simp add: ss)
qed

subsection \<open>Properties\<close>

text \<open>
  A stand-in for OpenSSL that meets the two hypotheses, for the witnesses: the tag sums the input,
  encryption adds the key's first byte.
\<close>

definition toy_crypto :: crypto where
  "toy_crypto =
     \<lparr>c_hmac = (\<lambda>key data. Some (replicate 31 0 @ [sum_list data + sum_list key])),
      c_hkdf = (\<lambda>key salt info n. Some (map word_of_nat [0..<n])),
      c_encrypt = (\<lambda>key nonce aad plain.
         Some (map (\<lambda>b. b + hd key) plain, replicate 15 0 @ [sum_list aad + sum_list plain])),
      c_decrypt = (\<lambda>key nonce aad cipher tag.
         (let plain = map (\<lambda>b. b - hd key) cipher
          in if tag = replicate 15 0 @ [sum_list aad + sum_list plain] then Inr plain
             else Inl AuthenticationFailed))\<rparr>"

definition toy_keys :: session_keys where
  "toy_keys =
     (let k = (\<lambda>b. \<lparr>ck_key = replicate 32 b, ck_noncePrefix = replicate 4 b\<rparr>)
      in \<lparr>controlAtoB = k 1, controlBtoA = k 2, videoAtoB = k 3, videoBtoA = k 4,
          statsAtoB = k 5, statsBtoA = k 6\<rparr>)"

lemma toy_crypto_ok: "aead_correct toy_crypto" "hmac_sized toy_crypto"
  by (auto simp: aead_correct_def hmac_sized_def toy_crypto_def comp_def Let_def)

definition toy_protector :: "session_role \<Rightarrow> protector" where
  "toy_protector role = sessionProtector role toy_keys (1000 + kMaximumSessionLifetimeSeconds) 0"

lemma toy_protector: "createSessionProtector role toy_keys 1000 0 = Inr (toy_protector role)"
  by (simp add: createSessionProtector_def toy_protector_def kMaximumSessionLifetimeSeconds_def
      word_less_nat_alt unsigned_minus_1_eq_mask mask_eq_exp_minus_1)

text \<open>
  Property C11: what one end of an authenticated session seals, in any mix of control and media
  records on any channels, the other end opens in the order sent to the same plaintexts,
  for either direction, as long as the receiving end's session has not expired.
\<close>

theorem session_roundtrip:
  assumes "aead_correct cr" and "hmac_sized cr"
    and "createSessionProtector role keys t st = Inr a"
    and "createSessionProtector (other_role role) keys t' st' = Inr b"
    and "\<not> protector_expired now b"
    and "seal_all cr now' records a = Inr sealed"
  shows "open_all cr now sealed b = Inr (map wr_payload records)"
  using open_all_seal_all[OF assms(1,2) synced_fresh[OF assms(3,4)] assms(5,6)] .

definition toy_records :: "wire_record list" where
  "toy_records =
     [\<lparr>wr_media = False, wr_channel = 0, wr_flags = 0, wr_pts = 7, wr_payload = [1, 2, 3]\<rparr>,
      \<lparr>wr_media = True, wr_channel = 1, wr_flags = 1, wr_pts = 8, wr_payload = [4, 5]\<rparr>]"

definition toy_clocks :: clocks where
  "toy_clocks = \<lparr>unixSeconds = 1001, steadyClock = 1\<rparr>"

lemma toy_live: "\<not> protector_expired toy_clocks (toy_protector role)"
  by (simp add: protector_expired_def toy_clocks_def toy_protector_def sessionProtector_def
      kMaximumSessionLifetimeSeconds_def seconds_def word_le_nat_alt)

lemma toy_protects:
  "\<exists>r p'. protectControl toy_crypto toy_clocks 0 0 7 [1, 2, 3] (toy_protector Client) = (Inr r, p') \<and>
     outgoingMediaSequence p' = (\<lambda>_. new_counter) \<and> \<not> protector_expired toy_clocks p'"
  using toy_live[of Client]
  by (simp add: protectControl_def Let_def hmacSha256_def toy_crypto_def kMaximumControlPlaintext_def
      toy_protector_def sessionProtector_def new_counter_def protector_expired_def)

lemma toy_seals:
  "\<exists>sealed. seal_all toy_crypto toy_clocks toy_records (toy_protector Client) = Inr sealed \<and>
     length sealed = 2"
proof -
  obtain r p' where c: "protectControl toy_crypto toy_clocks 0 0 7 [1, 2, 3] (toy_protector Client) = (Inr r, p')"
    and p': "outgoingMediaSequence p' = (\<lambda>_. new_counter)" "\<not> protector_expired toy_clocks p'"
    using toy_protects by blast
  have "(1 :: u8) AND kEncryptedFlag = 0" by (simp add: kEncryptedFlag_def)
  then have "\<exists>r' p''. protectMedia toy_crypto toy_clocks 1 1 8 [4, 5] p' = (Inr r', p'')"
    by (simp add: protectMedia_def Let_def encryptChaCha_def toy_crypto_def kMaximumWirePayload_def
        protector_sizes INT_MAX_def length_aad kMediaDomain_def p' new_counter_def)
  with c show ?thesis by (auto simp: toy_records_def seal_def)
qed

theorem session_roundtrip_witness:
  "\<exists>sealed. seal_all toy_crypto toy_clocks toy_records (toy_protector Client) = Inr sealed \<and>
     length sealed = 2 \<and>
     open_all toy_crypto toy_clocks sealed (toy_protector Server) = Inr (map wr_payload toy_records)"
proof -
  obtain sealed where s: "seal_all toy_crypto toy_clocks toy_records (toy_protector Client) = Inr sealed"
    "length sealed = 2"
    using toy_seals by blast
  have "createSessionProtector (other_role Client) toy_keys 1000 0 = Inr (toy_protector Server)"
    by (simp add: other_role_def toy_protector)
  then have "open_all toy_crypto toy_clocks sealed (toy_protector Server) = Inr (map wr_payload toy_records)"
    by (rule session_roundtrip[OF toy_crypto_ok toy_protector[of Client] _ toy_live s(1)])
  with s show ?thesis by blast
qed

text \<open>The key and nonce a logged media record was sealed under.\<close>

definition media_nonces :: "protector \<Rightarrow> (protector_kind \<times> u8 \<times> bytes) list \<Rightarrow> (bytes \<times> bytes) list" where
  "media_nonces p log =
     map (\<lambda>(_, ch, e). (ck_key (outgoingMediaKeys p ch),
            mediaNonce (ck_noncePrefix (outgoingMediaKeys p ch)) (sec_readBigEndian64 e)))
       (filter (\<lambda>(k, _, _). k = SendMedia) log)"

lemma distinct_by_class:
  assumes "\<And>c. distinct (map g (filter (\<lambda>x. f x = c) xs))"
  shows "distinct (map (\<lambda>x. (f x, g x)) xs)"
  using assms
proof (induction xs)
  case Nil
  then show ?case by simp
next
  case (Cons x xs)
  have "distinct (map g (filter (\<lambda>y. f y = c) xs))" for c
    using Cons.prems[of c] by (auto split: if_splits)
  with Cons.IH Cons.prems[of "f x"] show ?case by auto
qed

text \<open>
  Property C10: no nonce is used twice.  Whatever an end does with its session, in any order and with
  any failures between, the key and nonce pairs of the media records it sealed are pairwise
  different, when the video and statistics keys of its direction are; and no more than
  \<open>2\<^sup>32\<close> records are sealed under one channel's key.
\<close>

theorem media_nonces_unique:
  assumes "createSessionProtector role keys t st = Inr p"
    and "ck_key (outgoingMediaKeys p 1) \<noteq> ck_key (outgoingMediaKeys p 3)"
  shows "let log = pn_log (foldl (protector_step cr) (fresh_run p) ops)
         in distinct (media_nonces p log) \<and> length (sequences SendMedia ch log) \<le> 2 ^ 32"
proof -
  define s where "s = foldl (protector_step cr) (fresh_run p) ops"
  have inv: "run_in_order p s" unfolding s_def by (rule run_in_order_run[OF assms(1)])
  then have seqs: "sequences k c (pn_log s) = [0..<used (counter_of k (pn_state s) c)]"
    and ok: "counter_ok (counter_of k (pn_state s) c)" for k c
    by (simp_all add: run_in_order_def)
  define xs where "xs = map snd (filter (\<lambda>(k, _, _). k = SendMedia) (pn_log s))"
  have chans: "\<And>c e. (c, e) \<in> set xs \<Longrightarrow> c = 1 \<or> c = 3"
    using inv by (fastforce simp: run_in_order_def xs_def)
  have "map (\<lambda>x. unat (sec_readBigEndian64 (snd x))) (filter (\<lambda>x. fst x = c) xs) =
      sequences SendMedia c (pn_log s)" for c
    by (auto simp: xs_def sequences_def filter_map comp_def intro!: arg_cong2[where f = map] filter_cong)
  then have "distinct (map (\<lambda>x. (fst x, unat (sec_readBigEndian64 (snd x)))) xs)"
    by (intro distinct_by_class) (simp add: seqs)
  then have d: "distinct xs" and i: "inj_on (\<lambda>x. (fst x, unat (sec_readBigEndian64 (snd x)))) (set xs)"
    by (simp_all add: distinct_map)
  let ?f = "\<lambda>x. (ck_key (outgoingMediaKeys p (fst x)),
      mediaNonce (ck_noncePrefix (outgoingMediaKeys p (fst x))) (sec_readBigEndian64 (snd x)))"
  have "inj_on ?f (set xs)"
  proof (rule inj_onI)
    fix x y
    assume xy: "x \<in> set xs" "y \<in> set xs" "?f x = ?f y"
    with chans[of "fst x" "snd x"] chans[of "fst y" "snd y"] assms(2)
    have ch: "fst x = fst y" by auto
    with xy(3) have "sec_readBigEndian64 (snd x) = sec_readBigEndian64 (snd y)"
      by (auto simp: mediaNonce_be dest: be_bytes_inj[rotated])
    with ch i xy(1,2) show "x = y" by (auto dest: inj_onD)
  qed
  with d have "distinct (map ?f xs)" by (simp add: distinct_map)
  moreover have "media_nonces p (pn_log s) = map ?f xs"
    by (simp add: media_nonces_def xs_def case_prod_beta comp_def)
  moreover have "length (sequences SendMedia ch (pn_log s)) \<le> 2 ^ 32"
    using used_le[OF ok, of SendMedia ch] by (simp add: seqs)
  ultimately show ?thesis by (simp add: Let_def s_def)
qed

theorem media_nonces_unique_witness:
  "let log = pn_log (foldl (protector_step toy_crypto) (fresh_run (toy_protector Client))
       [\<lparr>po_kind = SendMedia, po_clocks = toy_clocks, po_channel = 1, po_flags = 0, po_pts = 0, po_data = [9]\<rparr>])
   in distinct (media_nonces (toy_protector Client) log) \<and>
      length (sequences SendMedia 1 log) \<le> 2 ^ 32"
  by (rule media_nonces_unique[OF toy_protector]) code_simp

text \<open>
  Property C9: a receiver takes each record once, in order.  Over any run, the sequence numbers
  of the records an end accepted on a channel are exactly \<open>0, 1, 2, \<dots>\<close> in that order: nothing
  is replayed, reordered, skipped or accepted past the limit of \<open>2\<^sup>32\<close> records.
\<close>

theorem records_accepted_in_order:
  assumes "createSessionProtector role keys t st = Inr p"
  shows "let log = pn_log (foldl (protector_step cr) (fresh_run p) ops);
             numbers = sequences kind ch log
         in numbers = [0..<length numbers] \<and> length numbers \<le> 2 ^ 32"
proof -
  have inv: "run_in_order p (foldl (protector_step cr) (fresh_run p) ops)"
    by (rule run_in_order_run[OF assms])
  let ?n = "used (counter_of kind (pn_state (foldl (protector_step cr) (fresh_run p) ops)) ch)"
  from inv have "sequences kind ch (pn_log (foldl (protector_step cr) (fresh_run p) ops)) = [0..<?n]"
    and "counter_ok (counter_of kind (pn_state (foldl (protector_step cr) (fresh_run p) ops)) ch)"
    by (simp_all add: run_in_order_def)
  with used_le show ?thesis by (simp add: Let_def)
qed

theorem records_accepted_in_order_witness:
  "let log = pn_log (foldl (protector_step toy_crypto) (fresh_run (toy_protector Server))
        [\<lparr>po_kind = ReceiveControl, po_clocks = toy_clocks, po_channel = 0, po_flags = 0, po_pts = 0,
          po_data = replicate 40 0\<rparr>]);
       numbers = sequences ReceiveControl 0 log
   in numbers = [0..<length numbers] \<and> length numbers \<le> 2 ^ 32"
  by (rule records_accepted_in_order[OF toy_protector])

definition control_input :: "u8 \<Rightarrow> u8 \<Rightarrow> u64 \<Rightarrow> u64 \<Rightarrow> bytes \<Rightarrow> bytes" where
  "control_input ch fl pts sq d =
     envelopeAuthenticationData (kSequenceBytes + length d + kControlTagBytes) ch fl pts sq kControlDomain @ d"

lemma control_input_inject:
  "control_input ch fl pts sq d = control_input ch' fl' pts' sq' d' \<longleftrightarrow>
     ch = ch' \<and> fl = fl' \<and> pts = pts' \<and> sq = sq' \<and> d = d'"
proof
  assume eq: "control_input ch fl pts sq d = control_input ch' fl' pts' sq' d'"
  have l: "length (envelopeAuthenticationData n c f p q kControlDomain) =
      length (envelopeAuthenticationData n' c' f' p' q' kControlDomain)" for n c f p q n' c' f' p' q'
    by (simp add: length_aad)
  from eq have *: "d = d'" and "envelopeAuthenticationData (kSequenceBytes + length d + kControlTagBytes) ch fl pts sq kControlDomain
      = envelopeAuthenticationData (kSequenceBytes + length d' + kControlTagBytes) ch' fl' pts' sq' kControlDomain"
    unfolding control_input_def append_eq_same_length[OF l] by blast+
  then show "ch = ch' \<and> fl = fl' \<and> pts = pts' \<and> sq = sq' \<and> d = d'"
    by (auto simp: envelopeAuthenticationData_def sec_be append_eq_same_length
        dest: be_bytes_inj[rotated])
qed simp

lemma control_record_tag:
  assumes "unprotectControl cr now ch fl pts envelope p = (Inr d, p')"
  shows "\<exists>tag. c_hmac cr (ck_key (incomingAuthenticatedKeys p ch))
             (control_input ch fl pts (sq_next (incomingControlSequence p ch)) d) = Some tag \<and>
           envelope = be_bytes 8 (sq_next (incomingControlSequence p ch)) @ d @ tag \<and>
           (\<forall>ch' fl' pts' sq' d'.
              control_input ch' fl' pts' sq' d' =
                control_input ch fl pts (sq_next (incomingControlSequence p ch)) d \<longleftrightarrow>
              (ch', fl', pts', sq', d') = (ch, fl, pts, sq_next (incomingControlSequence p ch), d))"
proof -
  let ?n = "length envelope - 8 - 32"
  from assms have len: "40 \<le> length envelope"
    and sq: "be_value (take 8 envelope) = sq_next (incomingControlSequence p ch)"
    and d: "d = take ?n (drop 8 envelope)"
    and tag: "c_hmac cr (ck_key (incomingAuthenticatedKeys p ch))
      (envelopeAuthenticationData (length envelope) ch fl pts (be_value (take 8 envelope)) kControlDomain @ d)
        = Some (drop (8 + ?n) envelope)"
    by (auto simp: unprotectControl_def Let_def sec_be protector_sizes hmacSha256_def
        split: if_splits sum.splits option.splits)
  have "length envelope = kSequenceBytes + length d + kControlTagBytes"
    using len by (simp add: d protector_sizes)
  with tag sq have 1: "c_hmac cr (ck_key (incomingAuthenticatedKeys p ch))
      (control_input ch fl pts (sq_next (incomingControlSequence p ch)) d) = Some (drop (8 + ?n) envelope)"
    by (simp add: control_input_def)
  have "envelope = take 8 envelope @ take ?n (drop 8 envelope) @ drop (8 + ?n) envelope"
    by (metis append_take_drop_id drop_drop add.commute)
  moreover have "be_bytes 8 (be_value (take 8 envelope) :: u64) = take 8 envelope"
    using len by (intro be_bytes_be_value) simp_all
  ultimately have 2: "envelope = be_bytes 8 (sq_next (incomingControlSequence p ch)) @ d @ drop (8 + ?n) envelope"
    using sq d by metis
  from 1 2 show ?thesis unfolding control_input_inject by auto
qed

text \<open>
  An accepted control record was authenticated as it stands.  Its tag is the MAC, under the
  key of its channel and direction, of an input that determines the channel, the flags, the
  timestamp, the sequence number and the plaintext: no other combination of them has the
  same input.
\<close>

theorem control_record_authentic:
  assumes "unprotectControl cr now ch fl pts envelope p = (Inr d, p')"
  shows "\<exists>tag. c_hmac cr (ck_key (incomingAuthenticatedKeys p ch))
             (control_input ch fl pts (sq_next (incomingControlSequence p ch)) d) = Some tag \<and>
           envelope = be_bytes 8 (sq_next (incomingControlSequence p ch)) @ d @ tag \<and>
           (\<forall>ch' fl' pts' sq' d'.
              control_input ch' fl' pts' sq' d' =
                control_input ch fl pts (sq_next (incomingControlSequence p ch)) d \<longleftrightarrow>
              (ch', fl', pts', sq', d') = (ch, fl, pts, sq_next (incomingControlSequence p ch), d))"
  using assms by (rule control_record_tag)

theorem control_record_authentic_witness:
  "\<exists>envelope p' tag. unprotectControl toy_crypto toy_clocks 0 0 7 envelope (toy_protector Server) =
       (Inr [1, 2, 3], p') \<and>
     c_hmac toy_crypto (ck_key (incomingAuthenticatedKeys (toy_protector Server) 0))
       (control_input 0 0 7 (sq_next (incomingControlSequence (toy_protector Server) 0)) [1, 2, 3]) = Some tag"
proof -
  obtain r a' where r: "protectControl toy_crypto toy_clocks 0 0 7 [1, 2, 3] (toy_protector Client) = (Inr r, a')"
    using toy_protects by blast
  have flags: "pp_flags r = 0"
    using r by (auto simp: protectControl_def Let_def split: if_splits sum.splits)
  have "synced (toy_protector Client) (toy_protector Server)"
    by (rule synced_fresh[OF toy_protector[of Client]]) (simp add: other_role_def, rule toy_protector)
  from open_seal_control[OF toy_crypto_ok(2) this toy_live r] flags obtain b' where
    b: "unprotectControl toy_crypto toy_clocks 0 0 7 (pp_payload r) (toy_protector Server) = (Inr [1, 2, 3], b')"
    by auto
  from control_record_authentic[OF b] b show ?thesis by blast
qed

end
