(* ===== verification/PairingStore.thy ===== *)
theory PairingStore
  imports RateLimiter Control
begin

text \<open>
  The store of pairing records, \<open>windows/security/src/pairing_store.cpp\<close>.  The file system is one
  directory of files; what its calls and DPAPI do is a record of parameters \<open>storage_os\<close>.  \<open>save\<close>
  returns every file system it leaves on its way, in order, so that what a crash can leave is
  part of the model.
\<close>

subsection \<open>Windows\<close>

text \<open>
  A directory that may not exist yet and its files.  \<open>CreateFileW\<close> reports
  \<open>ERROR_FILE_NOT_FOUND\<close> for a file that is not there and \<open>ERROR_PATH_NOT_FOUND\<close> when the
  directory is not.
\<close>

record file_system =
  fs_directory :: bool
  fs_files :: "string \<rightharpoonup> bytes"

record storage_os =
  os_protect :: "bytes \<Rightarrow> bytes \<Rightarrow> bytes option"
  os_unprotect :: "bytes \<Rightarrow> bytes \<Rightarrow> bytes option"
  os_createDirectories :: bool
  os_createTemporary :: bool
  os_written :: "nat option"
  os_move :: bool
  os_open :: bool
  os_read :: bool
  os_delete :: bool

text \<open>
  \<open>os_written\<close> is \<^const>\<open>None\<close> when every write and the flush succeed, and \<open>Some n\<close> when the file
  is left with its first \<open>n\<close> bytes.  DPAPI gives back what it protected, for the entropy it was
  protected with, and nothing for another.
\<close>

definition dpapi_correct :: "storage_os \<Rightarrow> bool" where
  "dpapi_correct os \<longleftrightarrow> (\<forall>plain entropy blob. os_protect os plain entropy = Some blob \<longrightarrow>
     blob \<noteq> [] \<and> os_unprotect os blob entropy = Some plain \<and>
     (\<forall>other. other \<noteq> entropy \<longrightarrow> os_unprotect os blob other = None))"

subsection \<open>The record and its bytes\<close>

record pairing_record =
  pr_serviceId :: string
  pr_deviceId :: string
  pr_key :: bytes
  pr_createdUnixSeconds :: u64
  pr_recordExpires :: u64

record pairing_store =
  ps_hasDirectory :: bool
  ps_serviceId :: string

definition kPlainMagic :: string where "kPlainMagic = ''RCPAIR01''"
definition kFileMagic :: string where "kFileMagic = ''RCDPAPI1''"
definition kPlainBytes :: nat where "kPlainBytes = 8 + 16 + 16 + 8 + 8 + 32"
definition kMaxFileBytes :: nat where "kMaxFileBytes = 64 * 1024"

fun validId_loop :: "string \<Rightarrow> bool" where
  "validId_loop [] = True"
| "validId_loop (c # cs) = (if \<not> isLowerHex c then False else validId_loop cs)"

definition validId :: "string \<Rightarrow> bool" where
  "validId ident = (if length ident \<noteq> 16 then False else validId_loop ident)"

definition appendU32 :: "u32 \<Rightarrow> bytes" where
  "appendU32 value =
     [ucast (drop_bit 24 value), ucast (drop_bit 16 value), ucast (drop_bit 8 value), ucast value]"

definition appendU64 :: "u64 \<Rightarrow> bytes" where
  "appendU64 value = map (\<lambda>shift. ucast (drop_bit shift value)) [56, 48, 40, 32, 24, 16, 8, 0]"

definition readU32 :: "bytes \<Rightarrow> u32" where
  "readU32 data = push_bit 24 (ucast (data ! 0)) OR push_bit 16 (ucast (data ! 1)) OR
     push_bit 8 (ucast (data ! 2)) OR ucast (data ! 3)"

definition readU64 :: "bytes \<Rightarrow> u64" where
  "readU64 data = foldl (\<lambda>value b. push_bit 8 value OR ucast b) 0 (take 8 data)"

lemma store_be [be_simps]:
  "appendU32 v = be_bytes 4 v" "appendU64 w = be_bytes 8 w" "readU64 bs = be_value (take 8 bs)"
  by (simp_all add: appendU32_def appendU64_def readU64_def be_bytes_numeral be_value_def)

definition entropyFor :: "string \<Rightarrow> bytes" where
  "entropyFor serviceId = bytes_of_string (''RemoteCam DPAPI pairing record v1'' @ serviceId)"

definition protect :: "storage_os \<Rightarrow> bytes \<Rightarrow> string \<Rightarrow> security_error + bytes" where
  "protect os plaintext serviceId =
     (case os_protect os plaintext (entropyFor serviceId) of
        None \<Rightarrow> Inl StorageFailure | Some blob \<Rightarrow> Inr blob)"

definition unprotect :: "storage_os \<Rightarrow> bytes \<Rightarrow> string \<Rightarrow> security_error + bytes" where
  "unprotect os data serviceId =
     (if length data = 0 \<or> length data > 4294967295 then Inl CorruptRecord
      else case os_unprotect os data (entropyFor serviceId) of
             None \<Rightarrow> Inl CorruptRecord | Some plain \<Rightarrow> Inr plain)"

definition readFile :: "storage_os \<Rightarrow> file_system \<Rightarrow> string \<Rightarrow> security_error + bytes" where
  "readFile os fs path =
     (case (if fs_directory fs then fs_files fs path else None) of
        None \<Rightarrow> if fs_directory fs then Inl NotFound else Inl StorageFailure
      | Some contents \<Rightarrow>
          if \<not> os_open os then Inl StorageFailure
          else if length contents = 0 \<or> length contents > kMaxFileBytes then Inl CorruptRecord
          else if \<not> os_read os then Inl StorageFailure
          else Inr contents)"

definition record_path :: "string \<Rightarrow> string" where
  "record_path deviceId = deviceId @ ''.rcpair''"

definition plain_record :: "pairing_record \<Rightarrow> bytes" where
  "plain_record r =
     bytes_of_string kPlainMagic @ bytes_of_string (pr_serviceId r) @
     bytes_of_string (pr_deviceId r) @ appendU64 (pr_createdUnixSeconds r) @
     appendU64 (pr_recordExpires r) @ pr_key r"

text \<open>\<open>tag\<close> is the process identifier and the value of the counter, as \<open>to_wstring\<close> prints them.\<close>

definition store_save ::
  "storage_os \<Rightarrow> string \<Rightarrow> pairing_store \<Rightarrow> pairing_record \<Rightarrow> file_system \<Rightarrow>
     security_error \<times> file_system list" where
  "store_save os tag store record fs =
     (if \<not> validId (ps_serviceId store) \<or> pr_serviceId record \<noteq> ps_serviceId store \<or>
         \<not> validId (pr_deviceId record) \<or>
         pr_recordExpires record \<le> pr_createdUnixSeconds record \<or> \<not> ps_hasDirectory store
      then (InvalidArgument, [])
      else
        (case protect os (plain_record record) (ps_serviceId store) of
           Inl e \<Rightarrow> (e, [])
         | Inr encrypted \<Rightarrow>
             (let fileBytes = bytes_of_string kFileMagic @
                    appendU32 (word_of_nat (length encrypted)) @ encrypted
              in if \<not> os_createDirectories os then (StorageFailure, [])
                 else
                   (let fs1 = fs\<lparr>fs_directory := True\<rparr>;
                        target = record_path (pr_deviceId record);
                        temporary = target @ ''.tmp.'' @ tag
                    in if \<not> os_createTemporary os \<or> fs_files fs1 temporary \<noteq> None
                       then (StorageFailure, [fs1])
                       else
                         (let fs2 = fs1\<lparr>fs_files := (fs_files fs1)(temporary \<mapsto> [])\<rparr>;
                              fs3 = fs2\<lparr>fs_files := (fs_files fs2)(temporary \<mapsto>
                                (case os_written os of None \<Rightarrow> fileBytes | Some n \<Rightarrow> take n fileBytes))\<rparr>
                          in if os_written os \<noteq> None \<or> \<not> os_move os
                             then (StorageFailure,
                                   [fs1, fs2, fs3] @
                                   (if os_delete os then [fs3\<lparr>fs_files := (fs_files fs3)(temporary := None)\<rparr>] else []))
                             else (SecNone,
                                   [fs1, fs2, fs3,
                                    fs3\<lparr>fs_files := (fs_files fs3)(target \<mapsto> fileBytes,
                                          temporary := None)\<rparr>]))))))"

text \<open>The file system \<open>save\<close> ends in.\<close>

definition save_result :: "security_error \<times> file_system list \<Rightarrow> file_system \<Rightarrow> file_system" where
  "save_result r fs = (if snd r = [] then fs else last (snd r))"

definition store_load ::
  "storage_os \<Rightarrow> pairing_store \<Rightarrow> string \<Rightarrow> file_system \<Rightarrow> security_error + pairing_record" where
  "store_load os store deviceId fs =
     (if \<not> validId (ps_serviceId store) \<or> \<not> validId deviceId \<or> \<not> ps_hasDirectory store
      then Inl InvalidArgument
      else case readFile os fs (record_path deviceId) of
        Inl e \<Rightarrow> Inl e
      | Inr fileBytes \<Rightarrow>
          if length fileBytes < length kFileMagic + 4 \<or>
             take 8 fileBytes \<noteq> bytes_of_string kFileMagic then Inl CorruptRecord
          else
            (let encryptedSize = readU32 (drop 8 fileBytes)
             in if unat encryptedSize \<noteq> length fileBytes - length kFileMagic - 4 then Inl CorruptRecord
                else case unprotect os (drop 12 fileBytes) (ps_serviceId store) of
                  Inl e \<Rightarrow> Inl e
                | Inr plaintext \<Rightarrow>
                    if length plaintext \<noteq> kPlainBytes \<or>
                       take 8 plaintext \<noteq> bytes_of_string kPlainMagic then Inl CorruptRecord
                    else
                      (let parsed =
                         \<lparr>pr_serviceId = string_of_bytes (take 16 (drop 8 plaintext)),
                          pr_deviceId = string_of_bytes (take 16 (drop 24 plaintext)),
                          pr_key = take 32 (drop 56 plaintext),
                          pr_createdUnixSeconds = readU64 (drop 40 plaintext),
                          pr_recordExpires = readU64 (drop 48 plaintext)\<rparr>
                       in if pr_serviceId parsed \<noteq> ps_serviceId store \<or>
                             pr_deviceId parsed \<noteq> deviceId \<or>
                             pr_recordExpires parsed \<le> pr_createdUnixSeconds parsed
                          then Inl CorruptRecord else Inr parsed)))"

definition store_erase ::
  "storage_os \<Rightarrow> pairing_store \<Rightarrow> string \<Rightarrow> file_system \<Rightarrow> security_error \<times> file_system" where
  "store_erase os store deviceId fs =
     (if \<not> validId deviceId \<or> \<not> ps_hasDirectory store then (InvalidArgument, fs)
      else
        (let path = record_path deviceId
         in if \<not> fs_directory fs then (StorageFailure, fs)
            else if fs_files fs path = None then (SecNone, fs)
            else if os_delete os then (SecNone, fs\<lparr>fs_files := (fs_files fs)(path := None)\<rparr>)
            else (StorageFailure, fs)))"

subsection \<open>Lemmas\<close>

lemma validId_loop: "validId_loop s \<longleftrightarrow> list_all isLowerHex s"
  by (induction s) auto

lemma validId_valid: "validId s \<longleftrightarrow> validDeviceId s"
  by (simp add: validId_def validDeviceId_def validId_loop)

lemma validId_length: "validId s \<Longrightarrow> length s = 16"
  by (simp add: validId_def split: if_splits)

lemma readU32_be: "length bs \<ge> 4 \<Longrightarrow> readU32 bs = be_value (take 4 bs)"
  by (cases bs; cases "tl bs"; cases "tl (tl bs)"; cases "tl (tl (tl bs))")
    (auto simp: readU32_def be_value_def push_bit_or or.assoc push_bit_push_bit)

lemma length_kFileMagic [simp]: "length kFileMagic = 8"
  by (simp add: kFileMagic_def)

lemma length_kPlainMagic [simp]: "length kPlainMagic = 8"
  by (simp add: kPlainMagic_def)

lemma store_load_file:
  assumes ok: "validId (ps_serviceId store)" "validId (pr_deviceId r)" "ps_hasDirectory store"
    and r: "pr_serviceId r = ps_serviceId store" "length (pr_key r) = 32"
      "pr_createdUnixSeconds r < pr_recordExpires r"
    and io: "os_open os" "os_read os" "fs_directory fs"
    and blob: "os_unprotect os blob (entropyFor (ps_serviceId store)) = Some (plain_record r)" "blob \<noteq> []"
    and size: "length blob + 12 \<le> kMaxFileBytes"
    and stored: "fs_files fs (record_path (pr_deviceId r)) =
      Some (bytes_of_string kFileMagic @ appendU32 (word_of_nat (length blob)) @ blob)"
  shows "store_load os store (pr_deviceId r) fs = Inr r"
proof -
  let ?f = "bytes_of_string kFileMagic @ be_bytes 4 (word_of_nat (length blob) :: u32) @ blob"
  have n: "unat (word_of_nat (length blob) :: u32) = length blob"
    using size by (intro unat_word_of_nat) (simp add: kMaxFileBytes_def)
  have read: "readFile os fs (record_path (pr_deviceId r)) = Inr ?f"
    using size io by (simp add: readFile_def stored store_be)
  have f: "take 8 ?f = bytes_of_string kFileMagic" "drop 12 ?f = blob"
    "readU32 (drop 8 ?f) = (word_of_nat (length blob) :: u32)"
    "length ?f = 12 + length blob"
    by (simp_all add: readU32_be)
  have un: "unprotect os blob (ps_serviceId store) = Inr (plain_record r)"
    using blob size by (simp add: unprotect_def kMaxFileBytes_def)
  have l: "length (pr_serviceId r) = 16" "length (pr_deviceId r) = 16"
    using ok r(1) by (simp_all add: validId_length)
  have p: "length (plain_record r) = kPlainBytes"
    "take 8 (plain_record r) = bytes_of_string kPlainMagic"
    "take 16 (drop 8 (plain_record r)) = bytes_of_string (pr_serviceId r)"
    "take 16 (drop 24 (plain_record r)) = bytes_of_string (pr_deviceId r)"
    "readU64 (drop 40 (plain_record r)) = pr_createdUnixSeconds r"
    "readU64 (drop 48 (plain_record r)) = pr_recordExpires r"
    "take 32 (drop 56 (plain_record r)) = pr_key r"
    using l r(2) by (simp_all add: plain_record_def kPlainBytes_def store_be)
  show ?thesis
    unfolding store_load_def read sum.case Let_def f p un
    using ok r l n by (simp add: not_le)
qed

lemma protect_error: "protect os plain ident \<noteq> Inl SecNone"
  by (simp add: protect_def split: option.splits)

lemma last_save:
  assumes "store_save os tag store r fs = (SecNone, steps)"
  shows "\<exists>blob. protect os (plain_record r) (ps_serviceId store) = Inr blob \<and>
     fs_directory (save_result (SecNone, steps) fs) \<and>
     fs_files (save_result (SecNone, steps) fs) (record_path (pr_deviceId r)) =
       Some (bytes_of_string kFileMagic @ appendU32 (word_of_nat (length blob)) @ blob) \<and>
     validId (ps_serviceId store) \<and> validId (pr_deviceId r) \<and> ps_hasDirectory store \<and>
     pr_serviceId r = ps_serviceId store \<and> pr_createdUnixSeconds r < pr_recordExpires r"
  using assms
  by (auto simp: store_save_def save_result_def Let_def not_le protect_error split: if_splits sum.splits)

subsection \<open>Properties\<close>

text \<open>A stand-in for Windows for the witnesses: the blob is the entropy's length, the entropy, the data.\<close>

definition toy_os :: storage_os where
  "toy_os =
     \<lparr>os_protect = (\<lambda>plain entropy.
        if length plain + length entropy > 200 then None
        else Some (word_of_nat (length entropy) # entropy @ plain)),
      os_unprotect = (\<lambda>blob entropy.
        (case blob of [] \<Rightarrow> None
         | n # rest \<Rightarrow> if take (unat n) rest = entropy \<and> unat n \<le> length rest
                       then Some (drop (unat n) rest) else None)),
      os_createDirectories = True, os_createTemporary = True, os_written = None,
      os_move = True, os_open = True, os_read = True, os_delete = True\<rparr>"

lemma toy_os_correct: "dpapi_correct toy_os"
proof -
  have n: "unat (word_of_nat n :: u8) = n" if "n \<le> 200" for n
    using that by (intro unat_word_of_nat) simp
  show ?thesis by (auto simp: dpapi_correct_def toy_os_def n)
qed

lemma toy_os_bounded: "os_protect toy_os plain entropy = Some blob \<Longrightarrow> length blob + 12 \<le> kMaxFileBytes"
  by (auto simp: toy_os_def kMaxFileBytes_def split: if_splits)

definition toy_store :: pairing_store where
  "toy_store = \<lparr>ps_hasDirectory = True, ps_serviceId = ''0123456789abcdef''\<rparr>"

definition toy_record :: pairing_record where
  "toy_record = \<lparr>pr_serviceId = ''0123456789abcdef'', pr_deviceId = ''fedcba9876543210'',
     pr_key = replicate 32 7, pr_createdUnixSeconds = 100, pr_recordExpires = - 1\<rparr>"

definition toy_fs :: file_system where
  "toy_fs = \<lparr>fs_directory = False, fs_files = Map.empty\<rparr>"

lemma toy_valid: "validId ''0123456789abcdef''" "validId ''fedcba9876543210''"
  by code_simp+

lemma toy_saves:
  "\<exists>steps. store_save toy_os ''1.0'' toy_store toy_record toy_fs = (SecNone, steps)"
  using toy_valid
  by (simp add: store_save_def toy_store_def toy_record_def toy_fs_def toy_os_def protect_def
      plain_record_def entropyFor_def store_be kPlainMagic_def Let_def word_le_nat_alt
      unsigned_minus_1_eq_mask mask_eq_exp_minus_1)

text \<open>
  Property C37: what \<open>save\<close> reports saved, \<open>load\<close> gives back, field for field, and a store of any other
  PC identity on the same files refuses it as corrupt.  The one exception is a protected record that makes the
  file longer than 64 KiB, which \<open>save\<close> writes and \<open>load\<close> refuses as corrupt.
\<close>

theorem pairing_save_load:
  assumes "dpapi_correct os"
    and "store_save os tag store r fs = (SecNone, steps)"
    and "length (pr_key r) = 32" and "os_open os" and "os_read os"
    and "validId other" and "other \<noteq> ps_serviceId store"
  shows "\<exists>contents. fs_files (save_result (SecNone, steps) fs) (record_path (pr_deviceId r)) = Some contents \<and>
     store_load os store (pr_deviceId r) (save_result (SecNone, steps) fs) =
       (if length contents \<le> 64 * 1024 then Inr r else Inl CorruptRecord) \<and>
     store_load os (store\<lparr>ps_serviceId := other\<rparr>) (pr_deviceId r) (save_result (SecNone, steps) fs) =
       Inl CorruptRecord"
proof -
  let ?fs = "save_result (SecNone, steps) fs"
  from last_save[OF assms(2)] obtain blob where
    p: "protect os (plain_record r) (ps_serviceId store) = Inr blob"
    and d: "fs_directory ?fs"
    and f: "fs_files ?fs (record_path (pr_deviceId r)) =
       Some (bytes_of_string kFileMagic @ appendU32 (word_of_nat (length blob)) @ blob)"
    and v: "validId (ps_serviceId store)" "validId (pr_deviceId r)" "ps_hasDirectory store"
    and r: "pr_serviceId r = ps_serviceId store" "pr_createdUnixSeconds r < pr_recordExpires r"
    by blast
  from p have os: "os_protect os (plain_record r) (entropyFor (ps_serviceId store)) = Some blob"
    by (simp add: protect_def split: option.splits)
  then have b: "blob \<noteq> []" "os_unprotect os blob (entropyFor (ps_serviceId store)) = Some (plain_record r)"
    and wrong: "\<And>e. e \<noteq> entropyFor (ps_serviceId store) \<Longrightarrow> os_unprotect os blob e = None"
    using assms(1) unfolding dpapi_correct_def by blast+
  let ?contents = "bytes_of_string kFileMagic @ appendU32 (word_of_nat (length blob)) @ blob"
  have l: "length ?contents = length blob + 12" by (simp add: store_be)
  have other: "unprotect os blob other = Inl CorruptRecord"
    using assms(7) by (simp add: unprotect_def wrong entropyFor_def)
  have refused: "store_load os (store\<lparr>ps_serviceId := other\<rparr>) (pr_deviceId r) ?fs = Inl CorruptRecord"
    using v d f assms(4-6) other by (simp add: store_load_def readFile_def store_be Let_def)
  show ?thesis
  proof (cases "length ?contents \<le> 64 * 1024")
    case True
    then have "length blob + 12 \<le> kMaxFileBytes" unfolding l kMaxFileBytes_def .
    then have "store_load os store (pr_deviceId r) ?fs = Inr r"
      by (intro store_load_file[OF v r(1) assms(3) r(2) assms(4,5) d b(2,1) _ f])
    with True f refused show ?thesis by auto
  next
    case False
    then have "store_load os store (pr_deviceId r) ?fs = Inl CorruptRecord"
      using v d f assms(4) l by (simp add: store_load_def readFile_def kMaxFileBytes_def)
    with False f refused show ?thesis by auto
  qed
qed

theorem pairing_save_load_witness:
  "\<exists>steps. store_load toy_os toy_store ''fedcba9876543210'' (save_result (SecNone, steps) toy_fs) = Inr toy_record \<and>
     store_load toy_os (toy_store\<lparr>ps_serviceId := ''fedcba9876543210''\<rparr>) ''fedcba9876543210''
       (save_result (SecNone, steps) toy_fs) = Inl CorruptRecord"
proof -
  obtain steps where s: "store_save toy_os ''1.0'' toy_store toy_record toy_fs = (SecNone, steps)"
    using toy_saves by blast
  have d: "pr_deviceId toy_record = ''fedcba9876543210''" by (simp add: toy_record_def)
  have l: "length contents \<le> 64 * 1024"
    if "fs_files (save_result (SecNone, steps) toy_fs) (record_path (pr_deviceId toy_record)) = Some contents" for contents
    using that last_save[OF s] toy_os_bounded
    by (auto simp: protect_def store_be kMaxFileBytes_def split: option.splits)
  have "length (pr_key toy_record) = 32" "os_open toy_os" "os_read toy_os" "validId ''fedcba9876543210''"
    "''fedcba9876543210'' \<noteq> ps_serviceId toy_store"
    by (simp_all add: toy_record_def toy_os_def toy_store_def toy_valid)
  from pairing_save_load[OF toy_os_correct s this] obtain contents where
    "fs_files (save_result (SecNone, steps) toy_fs) (record_path (pr_deviceId toy_record)) = Some contents"
    "store_load toy_os toy_store (pr_deviceId toy_record) (save_result (SecNone, steps) toy_fs) =
       (if length contents \<le> 64 * 1024 then Inr toy_record else Inl CorruptRecord)"
    "store_load toy_os (toy_store\<lparr>ps_serviceId := ''fedcba9876543210''\<rparr>) (pr_deviceId toy_record)
       (save_result (SecNone, steps) toy_fs) = Inl CorruptRecord"
    by blast
  with l show ?thesis by (intro exI[of _ steps]) (simp add: d)
qed

text \<open>
  Property C36: saving is atomic.  In every state of the directory that \<open>save\<close> passes through, the
  device's record is either the one before or the complete new one, and no other file but the
  temporary one is touched.  When \<open>save\<close> succeeds the record is the new one and the temporary file is gone.  When it
  fails every file is as before, except that a temporary file it has made stays behind, with a
  first part of the protected bytes, if it cannot be deleted.
\<close>

theorem pairing_save_atomic:
  "let (e, steps) = store_save os tag store r fs;
       final = fs_files (save_result (e, steps) fs);
       target = record_path (pr_deviceId r);
       temporary = target @ ''.tmp.'' @ tag;
       complete = (\<lambda>contents. \<exists>blob. protect os (plain_record r) (ps_serviceId store) = Inr blob \<and>
         contents = bytes_of_string kFileMagic @ appendU32 (word_of_nat (length blob)) @ blob)
   in list_all (\<lambda>s.
        (fs_files s target = fs_files fs target \<or> (\<exists>contents. complete contents \<and> fs_files s target = Some contents)) \<and>
        (\<forall>f. f = target \<or> f = temporary \<or> fs_files s f = fs_files fs f)) steps \<and>
      (if e = SecNone
       then (\<exists>contents. complete contents \<and> final = (fs_files fs)(target \<mapsto> contents, temporary := None))
       else final = fs_files fs \<or>
         \<not> os_delete os \<and> fs_files fs temporary = None \<and>
         (\<exists>contents n. complete contents \<and> final = (fs_files fs)(temporary \<mapsto> take n contents)))"
proof -
  have whole: "\<not> (\<forall>n. f(t \<mapsto> bs) \<noteq> f(t \<mapsto> take n bs))" for f :: "string \<rightharpoonup> bytes" and t bs
    by (simp, rule exI[of _ "length bs"]) simp
  show ?thesis
    by (auto simp: store_save_def save_result_def Let_def protect_error fun_upd_idem whole simp del: take_append
      split: if_splits sum.splits option.splits)
qed

text \<open>
  A file system without the pairings directory, as before the first pairing, makes \<open>load\<close>
  report a storage failure where a missing record in an existing directory is reported as not
  found, and makes \<open>erase\<close> of a record that is not there fail where it otherwise succeeds.
\<close>

theorem load_without_directory:
  assumes "validId (ps_serviceId store)" and "validId deviceId" and "ps_hasDirectory store"
    and "fs_files fs (record_path deviceId) = None"
  shows "store_load os store deviceId fs =
       (if fs_directory fs then Inl NotFound else Inl StorageFailure) \<and>
     store_erase os store deviceId fs =
       (if fs_directory fs then SecNone else StorageFailure, fs)"
  using assms by (simp add: store_load_def readFile_def store_erase_def Let_def)

theorem load_without_directory_witness:
  "store_load toy_os toy_store ''fedcba9876543210'' toy_fs =
     (if fs_directory toy_fs then Inl NotFound else Inl StorageFailure) \<and>
   store_erase toy_os toy_store ''fedcba9876543210'' toy_fs =
     (if fs_directory toy_fs then SecNone else StorageFailure, toy_fs)"
  by (rule load_without_directory) (simp_all add: toy_store_def toy_fs_def toy_valid)

end
