(* ===== verification/StoredSecurity.thy ===== *)
theory StoredSecurity
  imports Protector PairingStore
begin

text \<open>
  Authentication of a paired phone: the proofs and session keys of
  \<open>windows/security/src/crypto.cpp\<close> and its \<open>StoredSessionSecurity\<close>, over the pairing store, the
  attempt policy and the session protector.  The random nonce, the file system and the two
  clocks are arguments; one reading of the clocks stands for the readings an operation makes.
\<close>

subsection \<open>Proofs and keys\<close>

definition hkdfSha256 :: "crypto \<Rightarrow> bytes \<Rightarrow> bytes \<Rightarrow> bytes \<Rightarrow> nat \<Rightarrow> security_error + bytes" where
  "hkdfSha256 cr key salt info n =
     (case c_hkdf cr key salt info n of None \<Rightarrow> Inl CryptoFailure | Some out \<Rightarrow> Inr out)"

definition authenticationInput :: "bool \<Rightarrow> string \<Rightarrow> string \<Rightarrow> bytes \<Rightarrow> bytes \<Rightarrow> bytes" where
  "authenticationInput fromServer serviceId deviceId serverNonce clientNonce =
     bytes_of_string (if fromServer then ''RemoteCam server authentication proof v1''
                      else ''RemoteCam client authentication proof v1'') @
     appendLengthPrefixed (bytes_of_string deviceId) @
     appendLengthPrefixed (bytes_of_string serviceId) @ serverNonce @ clientNonce"

definition pendingKey :: "string \<Rightarrow> string \<Rightarrow> string" where
  "pendingKey source deviceId = source @ [CHR 0x00] @ deviceId"

definition validCanonicalId :: "string \<Rightarrow> bool" where
  "validCanonicalId value \<longleftrightarrow> (if length value \<noteq> 16 then False else list_all isLowerHex value)"

definition makeAuthenticationProof ::
  "crypto \<Rightarrow> bytes \<Rightarrow> bool \<Rightarrow> string \<Rightarrow> string \<Rightarrow> bytes \<Rightarrow> bytes \<Rightarrow> security_error + bytes" where
  "makeAuthenticationProof cr pairingKey fromServer serviceId deviceId serverNonce clientNonce =
     (if \<not> validCanonicalId serviceId \<or> \<not> validCanonicalId deviceId then Inl InvalidArgument
      else hmacSha256 cr pairingKey
             (authenticationInput fromServer serviceId deviceId serverNonce clientNonce))"

definition take_channel_keys :: "bytes \<Rightarrow> nat \<Rightarrow> channel_keys" where
  "take_channel_keys material offset =
     \<lparr>ck_key = take 32 (drop offset material), ck_noncePrefix = take 4 (drop (offset + 32) material)\<rparr>"

definition deriveSessionKeys ::
  "crypto \<Rightarrow> bytes \<Rightarrow> string \<Rightarrow> string \<Rightarrow> bytes \<Rightarrow> bytes \<Rightarrow> security_error + session_keys" where
  "deriveSessionKeys cr pairingKey serviceId deviceId serverNonce clientNonce =
     (if \<not> validCanonicalId serviceId \<or> \<not> validCanonicalId deviceId then Inl InvalidArgument
      else
        (let salt = serverNonce @ clientNonce;
             info = bytes_of_string ''RemoteCam session keys v1'' @
               appendLengthPrefixed (bytes_of_string deviceId) @
               appendLengthPrefixed (bytes_of_string serviceId)
         in case hkdfSha256 cr pairingKey salt info (6 * (32 + 4)) of
              Inl e \<Rightarrow> Inl e
            | Inr material \<Rightarrow>
                Inr \<lparr>controlAtoB = take_channel_keys material 0,
                     controlBtoA = take_channel_keys material 36,
                     videoAtoB = take_channel_keys material 72,
                     videoBtoA = take_channel_keys material 108,
                     statsAtoB = take_channel_keys material 144,
                     statsBtoA = take_channel_keys material 180\<rparr>))"

subsection \<open>The server's side of authentication\<close>

record authentication_challenge =
  ach_serverNonce :: bytes
  ach_expires :: u64

record authentication_result =
  are_serverProof :: bytes
  are_protector :: protector

record pending_authentication =
  pa_record :: pairing_record
  pa_challenge :: authentication_challenge
  pa_attemptId :: u64

record stored_security =
  ss_store :: pairing_store
  ss_serviceId :: string
  ss_config :: policy_config
  ss_policy :: policy
  ss_pending :: "string \<rightharpoonup> pending_authentication"

definition new_stored_security :: "pairing_store \<Rightarrow> string \<Rightarrow> policy_config \<Rightarrow> stored_security" where
  "new_stored_security store serviceId config =
     \<lparr>ss_store = store, ss_serviceId = serviceId, ss_config = config, ss_policy = new_policy,
      ss_pending = Map.empty\<rparr>"

text \<open>What the outside gives one operation: Windows, OpenSSL, the files, a nonce and the clocks.\<close>

record security_env =
  se_os :: storage_os
  se_crypto :: crypto
  se_files :: file_system
  se_random :: "bytes option"
  se_steady :: time_point

definition beginAuthentication ::
  "security_env \<Rightarrow> string \<Rightarrow> string \<Rightarrow> u64 \<Rightarrow> stored_security \<Rightarrow>
     (security_error + authentication_challenge) \<times> stored_security" where
  "beginAuthentication env source deviceId nowUnixSeconds s =
     (if source = [] \<or> length source > 256 \<or> \<not> validCanonicalId (ss_serviceId s) \<or>
         \<not> validCanonicalId deviceId \<or> nowUnixSeconds > - 1 - 10
      then (Inl InvalidArgument, s)
      else
        (case beginAttempt (ss_config s) source (se_steady env) (ss_policy s) of
           (Inl e, policy) \<Rightarrow> (Inl e, s\<lparr>ss_policy := policy\<rparr>)
         | (Inr attemptId, policy) \<Rightarrow>
             (let s = s\<lparr>ss_policy := policy\<rparr>
              in case store_load (se_os env) (ss_store s) deviceId (se_files env) of
                   Inl e \<Rightarrow> (Inl e, s)
                 | Inr record \<Rightarrow>
                     if pr_recordExpires record \<noteq> - 1 \<and> pr_recordExpires record \<le> nowUnixSeconds
                     then (Inl Expired, s)
                     else (case se_random env of
                             None \<Rightarrow> (Inl CryptoFailure, s)
                           | Some nonce \<Rightarrow>
                               (let generated = \<lparr>ach_serverNonce = nonce,
                                                 ach_expires = nowUnixSeconds + 10\<rparr>
                                in (Inr generated,
                                    s\<lparr>ss_pending := (ss_pending s)(pendingKey source deviceId \<mapsto>
                                        \<lparr>pa_record = record, pa_challenge = generated,
                                         pa_attemptId = attemptId\<rparr>)\<rparr>))))))"

definition finishAuthentication ::
  "security_env \<Rightarrow> string \<Rightarrow> string \<Rightarrow> bytes \<Rightarrow> bytes \<Rightarrow> u64 \<Rightarrow> stored_security \<Rightarrow>
     (security_error + authentication_result) \<times> stored_security" where
  "finishAuthentication env source deviceId clientNonce clientProof nowUnixSeconds s =
     (if source = [] \<or> length source > 256 \<or> \<not> validCanonicalId deviceId
      then (Inl InvalidArgument, s)
      else
        (case ss_pending s (pendingKey source deviceId) of
           None \<Rightarrow>
             (case beginAttempt (ss_config s) source (se_steady env) (ss_policy s) of
                (Inl e, policy) \<Rightarrow> (Inl e, s\<lparr>ss_policy := policy\<rparr>)
              | (Inr unsolicited, policy) \<Rightarrow>
                  (Inl AuthenticationFailed,
                   s\<lparr>ss_policy := finishAttempt (ss_config s) unsolicited False (se_steady env) policy\<rparr>))
         | Some pending \<Rightarrow>
             (let s = s\<lparr>ss_pending := (ss_pending s)(pendingKey source deviceId := None)\<rparr>;
                  finishPolicy = (\<lambda>success. s\<lparr>ss_policy :=
                    finishAttempt (ss_config s) (pa_attemptId pending) success (se_steady env) (ss_policy s)\<rparr>);
                  record = pa_record pending;
                  challenge = pa_challenge pending
              in if nowUnixSeconds \<ge> ach_expires challenge \<or>
                    (pr_recordExpires record \<noteq> - 1 \<and> nowUnixSeconds \<ge> pr_recordExpires record)
                 then (Inl Expired, finishPolicy False)
                 else
                   (case makeAuthenticationProof (se_crypto env) (pr_key record) False (ss_serviceId s)
                           deviceId (ach_serverNonce challenge) clientNonce of
                      Inl e \<Rightarrow> (Inl e, finishPolicy False)
                    | Inr expected \<Rightarrow>
                        if expected \<noteq> clientProof then (Inl AuthenticationFailed, finishPolicy False)
                        else
                          (case makeAuthenticationProof (se_crypto env) (pr_key record) True
                                  (ss_serviceId s) deviceId (ach_serverNonce challenge) clientNonce of
                             Inl e \<Rightarrow> (Inl e, finishPolicy False)
                           | Inr serverProof \<Rightarrow>
                               (case deriveSessionKeys (se_crypto env) (pr_key record) (ss_serviceId s)
                                       deviceId (ach_serverNonce challenge) clientNonce of
                                  Inl e \<Rightarrow> (Inl e, finishPolicy False)
                                | Inr keys \<Rightarrow>
                                    (case createSessionProtector Server keys nowUnixSeconds (se_steady env) of
                                       Inl e \<Rightarrow> (Inl e, finishPolicy False)
                                     | Inr p \<Rightarrow>
                                         (Inr \<lparr>are_serverProof = serverProof, are_protector = p\<rparr>,
                                          finishPolicy True))))))))"

subsection \<open>Lemmas\<close>

lemma validCanonicalId_length: "validCanonicalId s \<Longrightarrow> length s = 16"
  by (simp add: validCanonicalId_def split: if_splits)

lemma validCanonicalId_valid: "validCanonicalId s \<longleftrightarrow> validId s"
  by (simp add: validCanonicalId_def validId_def validId_loop)

lemma pendingKey_inject:
  assumes "validCanonicalId d" and "validCanonicalId d'"
  shows "pendingKey s d = pendingKey s' d' \<longleftrightarrow> s = s' \<and> d = d'"
proof -
  have "length d = length d'" using assms by (simp add: validCanonicalId_length)
  then show ?thesis by (auto simp: pendingKey_def append_eq_append_conv)
qed

lemma length_appendLengthPrefixed: "length (appendLengthPrefixed bs) = 8 + length bs"
  by (simp add: appendLengthPrefixed_def sec_appendLittleEndian64_def)

lemma appendLengthPrefixed_inject:
  "length bs = length cs \<Longrightarrow> appendLengthPrefixed bs @ r = appendLengthPrefixed cs @ s \<longleftrightarrow> bs = cs \<and> r = s"
  by (simp add: appendLengthPrefixed_def)

lemma authenticationInput_inject:
  assumes "validCanonicalId s" "validCanonicalId d" "validCanonicalId s'" "validCanonicalId d'"
    and "length n = 32" "length n' = 32"
  shows "authenticationInput f s d n c = authenticationInput f' s' d' n' c' \<longleftrightarrow>
     (f, s, d, n, c) = (f', s', d', n', c')"
proof -
  let ?dom = "\<lambda>f. bytes_of_string (if f then ''RemoteCam server authentication proof v1''
    else ''RemoteCam client authentication proof v1'')"
  have "length (?dom f) = length (?dom f')" by simp
  moreover have "?dom f = ?dom f' \<longleftrightarrow> f = f'" by (cases f; cases f') simp_all
  ultimately show ?thesis
    using assms
    by (auto simp: authenticationInput_def append_eq_same_length appendLengthPrefixed_inject
        validCanonicalId_length)
qed

text \<open>A success, taken apart.\<close>

lemma finishAuthentication_success:
  assumes "finishAuthentication env source deviceId clientNonce clientProof now s = (Inr r, s')"
  obtains pending keys where "ss_pending s (pendingKey source deviceId) = Some pending"
    and "now < ach_expires (pa_challenge pending)"
    and "pr_recordExpires (pa_record pending) = - 1 \<or> now < pr_recordExpires (pa_record pending)"
    and "makeAuthenticationProof (se_crypto env) (pr_key (pa_record pending)) False (ss_serviceId s)
           deviceId (ach_serverNonce (pa_challenge pending)) clientNonce = Inr clientProof"
    and "makeAuthenticationProof (se_crypto env) (pr_key (pa_record pending)) True (ss_serviceId s)
           deviceId (ach_serverNonce (pa_challenge pending)) clientNonce = Inr (are_serverProof r)"
    and "deriveSessionKeys (se_crypto env) (pr_key (pa_record pending)) (ss_serviceId s)
           deviceId (ach_serverNonce (pa_challenge pending)) clientNonce = Inr keys"
    and "createSessionProtector Server keys now (se_steady env) = Inr (are_protector r)"
    and "s' = s\<lparr>ss_pending := (ss_pending s)(pendingKey source deviceId := None),
           ss_policy := finishAttempt (ss_config s) (pa_attemptId pending) True (se_steady env) (ss_policy s)\<rparr>"
  using assms
  by (auto simp: finishAuthentication_def Let_def not_le split: if_splits option.splits sum.splits prod.splits)

lemma finishAuthentication_frame:
  assumes "finishAuthentication env source deviceId clientNonce clientProof now s = (r, s')"
  shows "ss_serviceId s' = ss_serviceId s \<and> ss_store s' = ss_store s \<and> ss_config s' = ss_config s \<and>
     (r \<noteq> Inl InvalidArgument \<or> s' \<noteq> s \<longrightarrow> ss_pending s' = (ss_pending s)(pendingKey source deviceId := None))"
  using assms
  by (auto simp: finishAuthentication_def Let_def fun_upd_idem
      split: if_splits option.splits sum.splits prod.splits)

subsection \<open>Runs\<close>

text \<open>
  A run of the server: each operation comes with what the outside gives it.  The logs keep every
  challenge put out and every one that was answered with success, under its key.
\<close>

datatype security_op =
    BeginAuth security_env string string u64
  | FinishAuth security_env string string bytes bytes u64

record security_run =
  sr_state :: stored_security
  sr_issued :: "(string \<times> pending_authentication) list"
  sr_succeeded :: "(string \<times> pending_authentication) list"

fun security_step :: "security_run \<Rightarrow> security_op \<Rightarrow> security_run" where
  "security_step s (BeginAuth env source deviceId now) =
     (case beginAuthentication env source deviceId now (sr_state s) of
        (Inl e, st) \<Rightarrow> s\<lparr>sr_state := st\<rparr>
      | (Inr c, st) \<Rightarrow>
          s\<lparr>sr_state := st,
            sr_issued := sr_issued s @ (case ss_pending st (pendingKey source deviceId) of
              None \<Rightarrow> [] | Some p \<Rightarrow> [(pendingKey source deviceId, p)])\<rparr>)"
| "security_step s (FinishAuth env source deviceId clientNonce clientProof now) =
     (case finishAuthentication env source deviceId clientNonce clientProof now (sr_state s) of
        (Inl e, st) \<Rightarrow> s\<lparr>sr_state := st\<rparr>
      | (Inr r, st) \<Rightarrow>
          s\<lparr>sr_state := st,
            sr_succeeded := sr_succeeded s @
              (case ss_pending (sr_state s) (pendingKey source deviceId) of
                 None \<Rightarrow> [] | Some p \<Rightarrow> [(pendingKey source deviceId, p)])\<rparr>)"

definition security_inv :: "security_run \<Rightarrow> bool" where
  "security_inv s \<longleftrightarrow>
     (\<forall>k p. count_list (sr_succeeded s) (k, p) +
        (if ss_pending (sr_state s) k = Some p then 1 else 0) \<le> count_list (sr_issued s) (k, p)) \<and>
     distinct (map (\<lambda>(k, p). pa_attemptId p) (sr_issued s)) \<and>
     (\<forall>(k, p) \<in> set (sr_issued s).
        unat (pa_attemptId p) < unat (nextAttemptId (ss_policy (sr_state s))))"

lemma nextAttemptId_begin:
  assumes "beginAttempt cfg peer now p = (r, q)"
  shows "unat (nextAttemptId p) \<le> unat (nextAttemptId q)"
proof (cases r)
  case (Inl e)
  with beginAttempt_refused[of cfg peer now p e q] assms show ?thesis by auto
next
  case (Inr ident)
  note b = beginAttempt_admitted[OF assms[unfolded Inr]]
  with unat_next[OF b(3)] show ?thesis by simp
qed

lemma nextAttemptId_finish [simp]: "nextAttemptId (finishAttempt cfg ident ok now p) = nextAttemptId p"
  by (simp add: finishAttempt_def Let_def split: option.splits)

lemma beginAuthentication_success:
  assumes "beginAuthentication env source deviceId now s = (Inr c, s')"
  obtains rcd attemptId policy where
    "beginAttempt (ss_config s) source (se_steady env) (ss_policy s) = (Inr attemptId, policy)"
    and "store_load (se_os env) (ss_store s) deviceId (se_files env) = Inr rcd"
    and "pr_recordExpires rcd = - 1 \<or> now < pr_recordExpires rcd"
    and "se_random env = Some (ach_serverNonce c)" and "ach_expires c = now + 10"
    and "s' = s\<lparr>ss_policy := policy, ss_pending := (ss_pending s)(pendingKey source deviceId \<mapsto>
           \<lparr>pa_record = rcd, pa_challenge = c, pa_attemptId = attemptId\<rparr>)\<rparr>"
    and "validCanonicalId (ss_serviceId s)" "validCanonicalId deviceId" "source \<noteq> []" "length source \<le> 256"
    and "now \<le> - 1 - 10"
  using assms
  by (auto simp: beginAuthentication_def Let_def not_le not_less
      split: if_splits option.splits sum.splits prod.splits)

lemma beginAuthentication_failure:
  assumes "beginAuthentication env source deviceId now s = (Inl e, s')"
  shows "ss_pending s' = ss_pending s \<and>
     unat (nextAttemptId (ss_policy s)) \<le> unat (nextAttemptId (ss_policy s'))"
  using assms
  by (auto simp: beginAuthentication_def Let_def split: if_splits option.splits sum.splits prod.splits
      dest: nextAttemptId_begin)

lemma finishAuthentication_failure:
  assumes "finishAuthentication env source deviceId clientNonce clientProof now s = (Inl e, s')"
  shows "(\<forall>k p. ss_pending s' k = Some p \<longrightarrow> ss_pending s k = Some p) \<and>
     unat (nextAttemptId (ss_policy s)) \<le> unat (nextAttemptId (ss_policy s'))"
  using assms
  by (auto simp: finishAuthentication_def Let_def
      split: if_splits option.splits sum.splits prod.splits dest: nextAttemptId_begin)

lemma security_inv_begin:
  assumes inv: "security_inv s"
  shows "security_inv (security_step s (BeginAuth env source deviceId now))"
proof -
  obtain r st where b: "beginAuthentication env source deviceId now (sr_state s) = (r, st)" by fastforce
  show ?thesis
  proof (cases r)
    case (Inl e)
    from beginAuthentication_failure[OF b[unfolded Inl]] inv show ?thesis
      by (fastforce simp: security_inv_def b Inl)
  next
    case (Inr c)
    let ?k = "pendingKey source deviceId"
    from beginAuthentication_success[OF b[unfolded Inr]] obtain rcd attemptId policy where
      ba: "beginAttempt (ss_config (sr_state s)) source (se_steady env) (ss_policy (sr_state s)) = (Inr attemptId, policy)"
      and st: "st = (sr_state s)\<lparr>ss_policy := policy, ss_pending := (ss_pending (sr_state s))(?k \<mapsto>
           \<lparr>pa_record = rcd, pa_challenge = c, pa_attemptId = attemptId\<rparr>)\<rparr>"
      by metis
    note ids = beginAttempt_admitted(1-3)[OF ba] 
    have next': "unat (nextAttemptId policy) = Suc (unat attemptId)"
      using ids unat_next by simp
    have lt: "\<And>k p. (k, p) \<in> set (sr_issued s) \<Longrightarrow> unat (pa_attemptId p) < unat attemptId"
      using inv ids(1) by (fastforce simp: security_inv_def)
    let ?p = "\<lparr>pa_record = rcd, pa_challenge = c, pa_attemptId = attemptId\<rparr>"
    have "count_list (sr_succeeded s) (k, p) + (if ((ss_pending (sr_state s))(?k \<mapsto> ?p)) k = Some p then 1 else 0)
        \<le> count_list (sr_issued s @ [(?k, ?p)]) (k, p)" for k p
    proof -
      have "count_list (sr_succeeded s) (k, p) + (if ss_pending (sr_state s) k = Some p then 1 else 0)
          \<le> count_list (sr_issued s) (k, p)"
        using inv by (simp add: security_inv_def)
      then show ?thesis by (auto split: if_splits)
    qed
    moreover have "attemptId \<notin> (\<lambda>(k, p). pa_attemptId p) ` set (sr_issued s)"
      using lt by fastforce
    moreover have "\<And>k p. (k, p) \<in> set (sr_issued s) \<Longrightarrow> unat (pa_attemptId p) < Suc (unat attemptId)"
      using lt by (meson less_SucI)
    ultimately show ?thesis
      using inv by (auto simp: security_inv_def b Inr st next' split: prod.splits)
  qed
qed

lemma security_inv_finish:
  assumes inv: "security_inv s"
  shows "security_inv (security_step s (FinishAuth env source deviceId clientNonce clientProof now))"
proof -
  obtain r st where f: "finishAuthentication env source deviceId clientNonce clientProof now (sr_state s) = (r, st)"
    by fastforce
  show ?thesis
  proof (cases r)
    case (Inl e)
    note fail = finishAuthentication_failure[OF f[unfolded Inl]]
    have "count_list (sr_succeeded s) (k, p) + (if ss_pending st k = Some p then 1 else 0)
        \<le> count_list (sr_issued s) (k, p)" for k p
    proof -
      have "count_list (sr_succeeded s) (k, p) + (if ss_pending (sr_state s) k = Some p then 1 else 0)
          \<le> count_list (sr_issued s) (k, p)"
        using inv by (simp add: security_inv_def)
      with fail show ?thesis by (auto split: if_splits)
    qed
    with inv fail show ?thesis by (fastforce simp: security_inv_def f Inl)
  next
    case (Inr res)
    let ?k = "pendingKey source deviceId"
    from finishAuthentication_success[OF f[unfolded Inr]] obtain pending where
      p: "ss_pending (sr_state s) ?k = Some pending"
      and st: "st = (sr_state s)\<lparr>ss_pending := (ss_pending (sr_state s))(?k := None),
           ss_policy := finishAttempt (ss_config (sr_state s)) (pa_attemptId pending) True (se_steady env)
             (ss_policy (sr_state s))\<rparr>"
      by metis
    have "count_list (sr_succeeded s @ [(?k, pending)]) (k, q) +
        (if ((ss_pending (sr_state s))(?k := None)) k = Some q then 1 else 0)
        \<le> count_list (sr_issued s) (k, q)" for k q
    proof -
      have "count_list (sr_succeeded s) (k, q) + (if ss_pending (sr_state s) k = Some q then 1 else 0)
          \<le> count_list (sr_issued s) (k, q)"
        using inv by (simp add: security_inv_def)
      with p show ?thesis by (auto split: if_splits)
    qed
    with inv show ?thesis by (simp add: security_inv_def f Inr p st)
  qed
qed

interpretation stored_machine: machine security_step security_inv
proof
  fix s e
  assume "security_inv s"
  then show "security_inv (security_step s e)"
    by (cases e) (simp_all only: security_inv_begin security_inv_finish)
qed

definition fresh_security_run :: "pairing_store \<Rightarrow> string \<Rightarrow> policy_config \<Rightarrow> security_run" where
  "fresh_security_run store serviceId config =
     \<lparr>sr_state = new_stored_security store serviceId config, sr_issued = [], sr_succeeded = []\<rparr>"

lemma security_inv_run:
  "security_inv (foldl security_step (fresh_security_run store serviceId config) ops)"
  by (rule stored_machine.run_inv)
    (simp add: security_inv_def fresh_security_run_def new_stored_security_def)

lemma count_list_distinct_map: "distinct (map f xs) \<Longrightarrow> count_list xs x \<le> 1"
  by (induction xs) (auto simp: count_list_0_iff)

subsection \<open>Properties\<close>

text \<open>
  Property C8: a challenge is good for one authentication.  Over any run of the server, whoever asks and
  answers, every success answers a challenge that was issued for its source and device, and
  no challenge is answered with success twice.
\<close>

theorem challenge_single_use:
  "let s = foldl security_step (fresh_security_run store serviceId config) ops
   in count_list (sr_succeeded s) (k, p) \<le> count_list (sr_issued s) (k, p) \<and>
      count_list (sr_issued s) (k, p) \<le> 1"
proof -
  have inv: "security_inv (foldl security_step (fresh_security_run store serviceId config) ops)"
    by (rule security_inv_run)
  then have "count_list (sr_succeeded (foldl security_step (fresh_security_run store serviceId config) ops)) (k, p)
      \<le> count_list (sr_issued (foldl security_step (fresh_security_run store serviceId config) ops)) (k, p)"
    unfolding security_inv_def by (meson add_leD1)
  moreover from inv have "count_list (sr_issued (foldl security_step (fresh_security_run store serviceId config) ops)) (k, p) \<le> 1"
    by (intro count_list_distinct_map[where f = "\<lambda>(k, p). pa_attemptId p"]) (simp add: security_inv_def)
  ultimately show ?thesis by (simp add: Let_def)
qed

text \<open>HMAC takes a key and a message of any length; it does not fail.\<close>

definition hmac_total :: "crypto \<Rightarrow> bool" where
  "hmac_total cr \<longleftrightarrow> (\<forall>key data. c_hmac cr key data \<noteq> None)"

lemma hmac_total_proof:
  assumes "hmac_total cr" "validCanonicalId s" "validCanonicalId d"
  shows "\<exists>pr. makeAuthenticationProof cr key f s d n c = Inr pr"
  using assms
  by (auto simp: hmac_total_def makeAuthenticationProof_def hmacSha256_def split: option.splits)

lemma handshake_completes:
  assumes "hmac_total (se_crypto env')"
    and "beginAuthentication env source deviceId t s = (Inr challenge, s1)"
    and "store_load (se_os env) (ss_store s) deviceId (se_files env) = Inr r"
    and "makeAuthenticationProof (se_crypto env') (pr_key r) False (ss_serviceId s) deviceId
           (ach_serverNonce challenge) clientNonce = Inr clientProof"
    and "deriveSessionKeys (se_crypto env') (pr_key r) (ss_serviceId s) deviceId
           (ach_serverNonce challenge) clientNonce = Inr keys"
    and "createSessionProtector Client keys t' steady = Inr phone"
    and "t' < ach_expires challenge" and "pr_recordExpires r = - 1 \<or> t' < pr_recordExpires r"
  shows "\<exists>pc s2. finishAuthentication env' source deviceId clientNonce clientProof t' s1 = (Inr pc, s2) \<and>
     makeAuthenticationProof (se_crypto env') (pr_key r) True (ss_serviceId s) deviceId
       (ach_serverNonce challenge) clientNonce = Inr (are_serverProof pc) \<and>
     synced phone (are_protector pc) \<and> synced (are_protector pc) phone"
proof -
  from beginAuthentication_success[OF assms(2)] obtain rcd attemptId policy where
    rcd: "store_load (se_os env) (ss_store s) deviceId (se_files env) = Inr rcd"
    and s1: "s1 = s\<lparr>ss_policy := policy, ss_pending := (ss_pending s)(pendingKey source deviceId \<mapsto>
         \<lparr>pa_record = rcd, pa_challenge = challenge, pa_attemptId = attemptId\<rparr>)\<rparr>"
    and v: "validCanonicalId (ss_serviceId s)" "validCanonicalId deviceId" "source \<noteq> []" "length source \<le> 256"
    by metis
  have r: "rcd = r" using rcd assms(3) by simp
  obtain sp where sp: "makeAuthenticationProof (se_crypto env') (pr_key r) True (ss_serviceId s) deviceId
      (ach_serverNonce challenge) clientNonce = Inr sp"
    using hmac_total_proof[OF assms(1) v(1,2)] by blast
  obtain pc where pc: "createSessionProtector Server keys t' (se_steady env') = Inr pc"
    using assms(6) by (auto simp: createSessionProtector_def split: if_splits)
  have "finishAuthentication env' source deviceId clientNonce clientProof t' s1 =
      (Inr \<lparr>are_serverProof = sp, are_protector = pc\<rparr>,
       s1\<lparr>ss_pending := (ss_pending s1)(pendingKey source deviceId := None),
          ss_policy := finishAttempt (ss_config s) attemptId True (se_steady env') policy\<rparr>)"
    using v assms(4,5,7,8) sp pc by (auto simp: finishAuthentication_def Let_def s1 r)
  moreover have "synced phone pc"
    using synced_fresh[OF assms(6), of t' "se_steady env'" pc] pc by (simp add: other_role_def)
  moreover have "synced pc phone"
    using synced_fresh[OF pc, of t' steady phone] assms(6) by (simp add: other_role_def)
  ultimately show ?thesis using sp by fastforce
qed

definition toy_saved :: file_system where
  "toy_saved = save_result (store_save toy_os ''1.0'' toy_store toy_record toy_fs) toy_fs"

definition toy_env :: security_env where
  "toy_env = \<lparr>se_os = toy_os, se_crypto = toy_crypto, se_files = toy_saved,
     se_random = Some (replicate 32 3), se_steady = 0\<rparr>"

definition toy_server :: stored_security where
  "toy_server = new_stored_security toy_store ''0123456789abcdef'' default_policy_config"

lemma toy_loads: "store_load toy_os toy_store ''fedcba9876543210'' toy_saved = Inr toy_record"
proof -
  obtain steps where s: "store_save toy_os ''1.0'' toy_store toy_record toy_fs = (SecNone, steps)"
    using toy_saves by blast
  from last_save[OF s] obtain blob where
    p: "protect toy_os (plain_record toy_record) (ps_serviceId toy_store) = Inr blob"
    and l: "fs_directory toy_saved" "fs_files toy_saved (record_path (pr_deviceId toy_record)) =
       Some (bytes_of_string kFileMagic @ appendU32 (word_of_nat (length blob)) @ blob)"
    and v: "validId (ps_serviceId toy_store)" "validId (pr_deviceId toy_record)" "ps_hasDirectory toy_store"
      "pr_serviceId toy_record = ps_serviceId toy_store"
      "pr_createdUnixSeconds toy_record < pr_recordExpires toy_record"
    unfolding toy_saved_def s by blast
  from p have os: "os_protect toy_os (plain_record toy_record) (entropyFor (ps_serviceId toy_store)) = Some blob"
    by (simp add: protect_def split: option.splits)
  with toy_os_correct toy_os_bounded[OF os] have b: "blob \<noteq> []" "length blob + 12 \<le> kMaxFileBytes"
    "os_unprotect toy_os blob (entropyFor (ps_serviceId toy_store)) = Some (plain_record toy_record)"
    unfolding dpapi_correct_def by blast+
  have io: "os_open toy_os" "os_read toy_os" "length (pr_key toy_record) = 32"
    by (simp_all add: toy_os_def toy_record_def)
  have "store_load toy_os toy_store (pr_deviceId toy_record) toy_saved = Inr toy_record"
    by (rule store_load_file[OF v(1-4) io(3) v(5) io(1,2) l(1) b(3,1,2) l(2)])
  then show ?thesis by (simp add: toy_record_def)
qed

lemma toy_begins:
  "\<exists>s1. beginAuthentication toy_env ''10.0.0.2'' ''fedcba9876543210'' 1000 toy_server =
     (Inr \<lparr>ach_serverNonce = replicate 32 3, ach_expires = 1010\<rparr>, s1)"
proof -
  obtain policy where p: "beginAttempt default_policy_config ''10.0.0.2'' 0 new_policy = (Inr 1, policy)"
    by (simp add: beginAttempt_def allowed_def prune_def new_policy_def default_policy_config_def
        expiredBlock_def peerAttempts_def)
  have m: "\<not> (1000 :: u64) > - 1 - 10" "pr_recordExpires toy_record = - 1"
    by (simp_all add: word_less_nat_alt toy_record_def)
  show ?thesis
    using toy_valid toy_loads p m
    by (simp add: beginAuthentication_def toy_server_def new_stored_security_def toy_env_def
        validCanonicalId_valid Let_def)
qed

lemma toy_hmac_total: "hmac_total toy_crypto"
  by (simp add: hmac_total_def toy_crypto_def)

text \<open>A complete exchange, with everything the property asks for.\<close>

lemma toy_exchange:
  "\<exists>s1 clientProof keys phone.
     beginAuthentication toy_env ''10.0.0.2'' ''fedcba9876543210'' 1000 toy_server =
       (Inr \<lparr>ach_serverNonce = replicate 32 3, ach_expires = 1010\<rparr>, s1) \<and>
     makeAuthenticationProof (se_crypto toy_env) (pr_key toy_record) False (ss_serviceId toy_server)
       ''fedcba9876543210'' (replicate 32 3) (replicate 32 5) = Inr clientProof \<and>
     deriveSessionKeys (se_crypto toy_env) (pr_key toy_record) (ss_serviceId toy_server)
       ''fedcba9876543210'' (replicate 32 3) (replicate 32 5) = Inr keys \<and>
     createSessionProtector Client keys 1001 0 = Inr phone \<and> hmac_total (se_crypto toy_env) \<and>
     store_load (se_os toy_env) (ss_store toy_server) ''fedcba9876543210'' (se_files toy_env) = Inr toy_record \<and>
     (1001 :: u64) < 1010 \<and> pr_recordExpires toy_record = - 1"
proof -
  have v: "validCanonicalId (ss_serviceId toy_server)" "validCanonicalId ''fedcba9876543210''"
    using toy_valid by (simp_all add: validCanonicalId_valid toy_server_def new_stored_security_def)
  have total: "hmac_total (se_crypto toy_env)" by (simp add: toy_env_def toy_hmac_total)
  obtain s1 where b: "beginAuthentication toy_env ''10.0.0.2'' ''fedcba9876543210'' 1000 toy_server =
      (Inr \<lparr>ach_serverNonce = replicate 32 3, ach_expires = 1010\<rparr>, s1)"
    using toy_begins by blast
  obtain clientProof where p: "makeAuthenticationProof (se_crypto toy_env) (pr_key toy_record) False
      (ss_serviceId toy_server) ''fedcba9876543210'' (replicate 32 3) (replicate 32 5) = Inr clientProof"
    using hmac_total_proof[OF total v] by blast
  obtain keys where k: "deriveSessionKeys (se_crypto toy_env) (pr_key toy_record)
      (ss_serviceId toy_server) ''fedcba9876543210'' (replicate 32 3) (replicate 32 5) = Inr keys"
    using v by (simp add: deriveSessionKeys_def hkdfSha256_def toy_env_def toy_crypto_def Let_def)
  obtain phone where ph: "createSessionProtector Client keys 1001 0 = Inr phone"
    by (simp add: createSessionProtector_def kMaximumSessionLifetimeSeconds_def word_less_nat_alt)
  have l: "store_load (se_os toy_env) (ss_store toy_server) ''fedcba9876543210'' (se_files toy_env) = Inr toy_record"
    using toy_loads by (simp add: toy_env_def toy_server_def new_stored_security_def)
  have "(1001 :: u64) < 1010" "pr_recordExpires toy_record = - 1"
    by (simp_all add: word_less_nat_alt toy_record_def)
  with b p k ph total l show ?thesis by blast
qed

text \<open>The PC accepts the answer of that exchange.\<close>

lemma toy_accepted:
  "\<exists>s1 clientProof pc s2.
     beginAuthentication toy_env ''10.0.0.2'' ''fedcba9876543210'' 1000 toy_server =
       (Inr \<lparr>ach_serverNonce = replicate 32 3, ach_expires = 1010\<rparr>, s1) \<and>
     (\<exists>b. clientProof = replicate 31 0 @ [b]) \<and>
     finishAuthentication toy_env ''10.0.0.2'' ''fedcba9876543210'' (replicate 32 5) clientProof 1001 s1 = (Inr pc, s2)"
proof -
  from toy_exchange obtain s1 clientProof keys phone where
    b: "beginAuthentication toy_env ''10.0.0.2'' ''fedcba9876543210'' 1000 toy_server =
       (Inr \<lparr>ach_serverNonce = replicate 32 3, ach_expires = 1010\<rparr>, s1)"
    and p: "makeAuthenticationProof (se_crypto toy_env) (pr_key toy_record) False (ss_serviceId toy_server)
       ''fedcba9876543210'' (replicate 32 3) (replicate 32 5) = Inr clientProof"
    and k: "deriveSessionKeys (se_crypto toy_env) (pr_key toy_record) (ss_serviceId toy_server)
       ''fedcba9876543210'' (replicate 32 3) (replicate 32 5) = Inr keys"
    and ph: "createSessionProtector Client keys 1001 0 = Inr phone"
    and c: "hmac_total (se_crypto toy_env)"
    and l: "store_load (se_os toy_env) (ss_store toy_server) ''fedcba9876543210'' (se_files toy_env) = Inr toy_record"
    and e: "(1001 :: u64) < 1010" "pr_recordExpires toy_record = - 1"
    by blast
  have "\<exists>pc s2. finishAuthentication toy_env ''10.0.0.2'' ''fedcba9876543210'' (replicate 32 5) clientProof 1001 s1 =
       (Inr pc, s2) \<and>
     makeAuthenticationProof (se_crypto toy_env) (pr_key toy_record) True (ss_serviceId toy_server)
       ''fedcba9876543210'' (ach_serverNonce \<lparr>ach_serverNonce = replicate 32 3, ach_expires = 1010\<rparr>)
       (replicate 32 5) = Inr (are_serverProof pc) \<and>
     synced phone (are_protector pc) \<and> synced (are_protector pc) phone"
    by (rule handshake_completes[OF c b l _ _ ph]) (simp_all only: authentication_challenge.select_convs p k e simp_thms)
  moreover have "\<exists>b. clientProof = replicate 31 0 @ [b]"
    using p by (auto simp: makeAuthenticationProof_def hmacSha256_def toy_env_def toy_crypto_def split: if_splits)
  ultimately show ?thesis using b by blast
qed

text \<open>
  Property C2: the handshake works for the phone that knows the key.  When the PC has issued a challenge
  to a device, the phone that holds the stored pairing key and answers before the challenge
  expires is accepted; the server proof it gets back is the one it can compute itself; and
  the protector the PC ends with is in step, in both directions, with the one the phone
  derives from the same key and nonces.
\<close>

theorem handshake_establishes_session:
  assumes "hmac_total (se_crypto env')"
    and "beginAuthentication env source deviceId t s = (Inr challenge, s1)"
    and "store_load (se_os env) (ss_store s) deviceId (se_files env) = Inr r"
    and "makeAuthenticationProof (se_crypto env') (pr_key r) False (ss_serviceId s) deviceId
           (ach_serverNonce challenge) clientNonce = Inr clientProof"
    and "deriveSessionKeys (se_crypto env') (pr_key r) (ss_serviceId s) deviceId
           (ach_serverNonce challenge) clientNonce = Inr keys"
    and "createSessionProtector Client keys t' steady = Inr phone"
    and "t' < ach_expires challenge" and "pr_recordExpires r = - 1 \<or> t' < pr_recordExpires r"
  shows "\<exists>pc s2. finishAuthentication env' source deviceId clientNonce clientProof t' s1 = (Inr pc, s2) \<and>
     makeAuthenticationProof (se_crypto env') (pr_key r) True (ss_serviceId s) deviceId
       (ach_serverNonce challenge) clientNonce = Inr (are_serverProof pc) \<and>
     synced phone (are_protector pc) \<and> synced (are_protector pc) phone"
  using assms by (rule handshake_completes)

theorem handshake_establishes_session_witness:
  "\<exists>s1 clientProof phone pc s2.
     beginAuthentication toy_env ''10.0.0.2'' ''fedcba9876543210'' 1000 toy_server =
       (Inr \<lparr>ach_serverNonce = replicate 32 3, ach_expires = 1010\<rparr>, s1) \<and>
     finishAuthentication toy_env ''10.0.0.2'' ''fedcba9876543210'' (replicate 32 5) clientProof 1001 s1 =
       (Inr pc, s2) \<and> synced phone (are_protector pc)"
proof -
  from toy_exchange obtain s1 clientProof keys phone where
    b: "beginAuthentication toy_env ''10.0.0.2'' ''fedcba9876543210'' 1000 toy_server =
       (Inr \<lparr>ach_serverNonce = replicate 32 3, ach_expires = 1010\<rparr>, s1)"
    and p: "makeAuthenticationProof (se_crypto toy_env) (pr_key toy_record) False (ss_serviceId toy_server)
       ''fedcba9876543210'' (replicate 32 3) (replicate 32 5) = Inr clientProof"
    and k: "deriveSessionKeys (se_crypto toy_env) (pr_key toy_record) (ss_serviceId toy_server)
       ''fedcba9876543210'' (replicate 32 3) (replicate 32 5) = Inr keys"
    and ph: "createSessionProtector Client keys 1001 0 = Inr phone"
    and c: "hmac_total (se_crypto toy_env)"
    and l: "store_load (se_os toy_env) (ss_store toy_server) ''fedcba9876543210'' (se_files toy_env) = Inr toy_record"
    and e: "(1001 :: u64) < 1010" "pr_recordExpires toy_record = - 1"
    by blast
  have "\<exists>pc s2. finishAuthentication toy_env ''10.0.0.2'' ''fedcba9876543210'' (replicate 32 5) clientProof 1001 s1 =
       (Inr pc, s2) \<and>
     makeAuthenticationProof (se_crypto toy_env) (pr_key toy_record) True (ss_serviceId toy_server)
       ''fedcba9876543210'' (ach_serverNonce \<lparr>ach_serverNonce = replicate 32 3, ach_expires = 1010\<rparr>)
       (replicate 32 5) = Inr (are_serverProof pc) \<and>
     synced phone (are_protector pc) \<and> synced (are_protector pc) phone"
    by (rule handshake_establishes_session[OF c b l _ _ ph]) (simp_all only: authentication_challenge.select_convs p k e simp_thms)
  with b show ?thesis by blast
qed

text \<open>
  No proof stands in for another.  The inputs of two authentication proofs are equal only
  when they are for the same side, PC, device and both nonces; so a recorded client proof is
  never a server proof, nor a proof for another PC, device or challenge.
\<close>

theorem authentication_input_unique:
  assumes "validCanonicalId s" "validCanonicalId d" "validCanonicalId s'" "validCanonicalId d'"
    and "length n = 32" "length n' = 32"
  shows "authenticationInput f s d n c = authenticationInput f' s' d' n' c' \<longleftrightarrow>
     (f, s, d, n, c) = (f', s', d', n', c')"
  using assms by (rule authenticationInput_inject)

theorem authentication_input_unique_witness:
  "authenticationInput False ''0123456789abcdef'' ''fedcba9876543210'' (replicate 32 1) [2] =
     authenticationInput True ''0123456789abcdef'' ''fedcba9876543210'' (replicate 32 1) [2] \<longleftrightarrow>
   (False, ''0123456789abcdef'', ''fedcba9876543210'', replicate 32 (1::u8), [2::u8]) =
     (True, ''0123456789abcdef'', ''fedcba9876543210'', replicate 32 1, [2])"
  by (rule authentication_input_unique) (use toy_valid in \<open>simp_all add: validCanonicalId_valid\<close>)

lemma accepted_answer:
  assumes "finishAuthentication env source deviceId clientNonce clientProof now s = (Inr r, s')"
  shows "\<exists>pending. ss_pending s (pendingKey source deviceId) = Some pending \<and>
     now < ach_expires (pa_challenge pending) \<and>
     (pr_recordExpires (pa_record pending) = - 1 \<or> now < pr_recordExpires (pa_record pending)) \<and>
     c_hmac (se_crypto env) (pr_key (pa_record pending))
       (authenticationInput False (ss_serviceId s) deviceId
          (ach_serverNonce (pa_challenge pending)) clientNonce) = Some clientProof \<and>
     ss_pending s' (pendingKey source deviceId) = None"
proof -
  from finishAuthentication_success[OF assms] obtain pending where
    p: "ss_pending s (pendingKey source deviceId) = Some pending"
      "now < ach_expires (pa_challenge pending)"
      "pr_recordExpires (pa_record pending) = - 1 \<or> now < pr_recordExpires (pa_record pending)"
      "makeAuthenticationProof (se_crypto env) (pr_key (pa_record pending)) False (ss_serviceId s)
         deviceId (ach_serverNonce (pa_challenge pending)) clientNonce = Inr clientProof"
      "ss_pending s' (pendingKey source deviceId) = None"
    by (metis fun_upd_same stored_security.select_convs(5) stored_security.surjective
        stored_security.update_convs(4) stored_security.update_convs(5))
  from p(4) have "c_hmac (se_crypto env) (pr_key (pa_record pending))
       (authenticationInput False (ss_serviceId s) deviceId
          (ach_serverNonce (pa_challenge pending)) clientNonce) = Some clientProof"
    by (simp add: makeAuthenticationProof_def hmacSha256_def split: if_splits option.splits)
  with p show ?thesis by blast
qed

text \<open>
  Nobody is let in without the key.  If an answer is accepted, then a challenge for that
  source and device is pending and neither it nor the pairing record has expired, the answer
  is the MAC, under the record's pairing key, of the client's input for this PC, device,
  challenge and client nonce, and the challenge is no longer pending.
\<close>

theorem authentication_requires_key:
  assumes "finishAuthentication env source deviceId clientNonce clientProof now s = (Inr r, s')"
  shows "\<exists>pending. ss_pending s (pendingKey source deviceId) = Some pending \<and>
     now < ach_expires (pa_challenge pending) \<and>
     (pr_recordExpires (pa_record pending) = - 1 \<or> now < pr_recordExpires (pa_record pending)) \<and>
     c_hmac (se_crypto env) (pr_key (pa_record pending))
       (authenticationInput False (ss_serviceId s) deviceId
          (ach_serverNonce (pa_challenge pending)) clientNonce) = Some clientProof \<and>
     ss_pending s' (pendingKey source deviceId) = None"
  using assms by (rule accepted_answer)

theorem authentication_requires_key_witness:
  "\<exists>(s1 :: stored_security) clientProof (pending :: pending_authentication).
     ss_pending s1 (pendingKey ''10.0.0.2'' ''fedcba9876543210'') = Some pending \<and>
     c_hmac (se_crypto toy_env) (pr_key (pa_record pending))
       (authenticationInput False (ss_serviceId s1) ''fedcba9876543210''
          (ach_serverNonce (pa_challenge pending)) (replicate 32 5)) = Some clientProof"
proof -
  from toy_accepted obtain s1 clientProof pc s2 where
    "finishAuthentication toy_env ''10.0.0.2'' ''fedcba9876543210'' (replicate 32 5) clientProof 1001 s1 = (Inr pc, s2)"
    by blast
  from authentication_requires_key[OF this] obtain pending where
    "ss_pending s1 (pendingKey ''10.0.0.2'' ''fedcba9876543210'') = Some pending"
    "c_hmac (se_crypto toy_env) (pr_key (pa_record pending))
       (authenticationInput False (ss_serviceId s1) ''fedcba9876543210''
          (ach_serverNonce (pa_challenge pending)) (replicate 32 5)) = Some clientProof"
    by (elim exE conjE)
  then show ?thesis by (intro exI conjI) assumption+
qed

end
