(* ===== verification/Session.thy ===== *)
theory Session
  imports Wire AnnexB Messages StoredSecurity
begin

text \<open>
  The session of one phone on the PC: \<open>SessionController\<close> of
  \<open>windows/backend/src/session_controller.cpp\<close>.  A handler runs to completion on the network
  thread and is one function on the controller's state; what it does to the outside is
  appended to a trace of effects, in the order the code does it.  The parts of \<open>drainQueue\<close>
  between which the code gives up its lock are functions of their own, so that steps of
  another thread can be put between them.  The clocks, the outcome of the \<open>n\<close>-th send and of
  the \<open>n\<close>-th call of the consumer come from the environment of a step.
\<close>

subsection \<open>Types\<close>

datatype session_state = Disconnected | AwaitingHello | AwaitingTrust | Ready | Streaming | Failed

fun stateName :: "session_state \<Rightarrow> string" where
  "stateName Disconnected = ''disconnected''"
| "stateName AwaitingHello = ''awaiting_hello''"
| "stateName AwaitingTrust = ''awaiting_trust''"
| "stateName Ready = ''ready''"
| "stateName Streaming = ''streaming''"
| "stateName Failed = ''failed''"

fun sec_errorText :: "security_error \<Rightarrow> string" where
  "sec_errorText SecNone = ''none''"
| "sec_errorText Unavailable = ''required cryptography is unavailable''"
| "sec_errorText InvalidArgument = ''invalid argument''"
| "sec_errorText CryptoFailure = ''cryptographic operation failed''"
| "sec_errorText InvalidPoint = ''invalid group element''"
| "sec_errorText AuthenticationFailed = ''authentication failed''"
| "sec_errorText SequenceMismatch = ''unexpected sequence number''"
| "sec_errorText SequenceExhausted = ''sequence space exhausted''"
| "sec_errorText Expired = ''attempt expired''"
| "sec_errorText RateLimited = ''attempt rate limited''"
| "sec_errorText NotFound = ''record not found''"
| "sec_errorText StorageFailure = ''secure storage failed''"
| "sec_errorText CorruptRecord = ''secure record is corrupt''"

definition isPcToPhoneMessage :: "string \<Rightarrow> bool" where
  "isPcToPhoneMessage ty \<longleftrightarrow> ty \<in> set
     [''server_info'', ''ready'', ''set_format'', ''set_camera'', ''set_control'',
      ''request_keyframe'', ''set_preview'', ''stats'', ''auth_challenge'', ''auth_confirm'']"

definition finiteCameraState :: "camera_state \<Rightarrow> bool" where
  "finiteCameraState c \<longleftrightarrow> dbl_isfinite (cs_zoom c) \<and> dbl_isfinite (cs_focus c) \<and>
     dbl_isfinite (cs_iso c) \<and> dbl_isfinite (cs_exposureSeconds c) \<and>
     dbl_isfinite (cs_exposureBias c) \<and> dbl_isfinite (cs_whiteBalanceKelvin c)"

text \<open>\<open>rfind(':')\<close> and the part before it, the whole when there is none.\<close>

definition sourceAddress :: "string \<Rightarrow> string" where
  "sourceAddress peer =
     (if CHR '':'' \<notin> set peer then peer
      else rev (tl (dropWhile (\<lambda>c. c \<noteq> CHR '':'') (rev peer))))"

text \<open>\<open>std::to_string\<close>.\<close>

fun decimal :: "nat \<Rightarrow> string" where
  "decimal n = (if n < 10 then [char_of (48 + n)] else decimal (n div 10) @ [char_of (48 + n mod 10)])"

declare decimal.simps [simp del]

datatype hresult = S_OK | E_INVALIDARG | ERROR_INVALID_DATA | ERROR_NOT_READY | ERROR_BUSY | SEND_FAILED

definition succeeded :: "hresult \<Rightarrow> bool" where
  "succeeded hr \<longleftrightarrow> hr = S_OK"

record trust_policy =
  tp_trusted :: "hello_values \<Rightarrow> bool"
  tp_allowsUnauthenticated :: bool

definition rejectingTrustPolicy :: trust_policy where
  "rejectingTrustPolicy = \<lparr>tp_trusted = (\<lambda>_. False), tp_allowsUnauthenticated = False\<rparr>"

record encoded_access_unit =
  eu_bytes :: bytes
  eu_codec :: codec
  eu_keyframe :: bool
  eu_pts :: u64
  eu_generation :: u64

record session_config =
  serverName :: string
  sn_serviceId :: string
  initialStream :: stream_config
  helloTimeout :: int
  trustTimeout :: int
  progressTimeout :: int
  formatAckTimeout :: int
  videoTimeout :: int
  idleTimeout :: int
  maxQueuedAccessUnits :: nat
  maxQueuedBytes :: nat
  encryptMedia :: bool

definition milliseconds :: "int \<Rightarrow> int" where
  "milliseconds ms = ms * 1000000"

definition default_session_config :: session_config where
  "default_session_config =
     \<lparr>serverName = ''Windows PC'', sn_serviceId = ''0000000000000000'',
      initialStream = conservativeDefault, helloTimeout = 5000, trustTimeout = 10000,
      progressTimeout = 10000, formatAckTimeout = 5000, videoTimeout = 5000,
      idleTimeout = 15000, maxQueuedAccessUnits = 8, maxQueuedBytes = 20 * 1024 * 1024,
      encryptMedia = False\<rparr>"

text \<open>
  The effects: a frame handed to the connection with the message in it and whether the send
  succeeded, an event for the observer, the connection closed, and the consumer's two calls.
\<close>

datatype effect =
    Sent message frame bool
  | Notified string string
  | Closed
  | ConsumerReset stream_config u64
  | Consumed encoded_access_unit bool

subsection \<open>State\<close>

record metrics =
  m_state :: session_state
  m_connections :: u64
  m_controlMessages :: u64
  m_videoFrames :: u64
  m_videoBytes :: u64
  m_malformedMessages :: u64
  m_droppedFrames :: u64
  m_queueDepth :: nat
  m_queueBytes :: nat
  m_trusted :: bool
  m_waitingForKeyframe :: bool
  m_streamGeneration :: u64
  m_pendingFormatGeneration :: u64

text \<open>
  The controller: its metrics and the members after them.  \<open>s_connection\<close> is the address of the
  connected peer, \<open>s_watchdog\<close> whether the watchdog thread runs, and \<open>s_out\<close> is the trace.
\<close>

record session = metrics +
  s_config :: session_config
  s_trustPolicy :: "trust_policy option"
  s_security :: "stored_security option"
  s_protector :: "protector option"
  s_connection :: "string option"
  s_hasConsumer :: bool
  s_hello :: "hello_values option"
  s_caps :: "caps_values option"
  s_streamConfig :: stream_config
  s_queue :: "(u64 \<times> encoded_access_unit) list"
  s_pendingStreamConfig :: "stream_config option"
  s_nextFormatGeneration :: u64
  s_nextQueueToken :: u64
  s_draining :: bool
  s_resettingConsumer :: bool
  s_connectedAt :: time_point
  s_trustAt :: time_point
  s_readyAt :: time_point
  s_pendingFormatAt :: time_point
  s_streamingAt :: time_point
  s_lastVideoAt :: time_point
  s_lastActivity :: time_point
  s_receivedVideo :: bool
  s_watchdog :: bool
  s_out :: "effect list"

text \<open>The constructors: with a trust policy, or with session security.\<close>

definition new_session ::
  "session_config \<Rightarrow> trust_policy option \<Rightarrow> stored_security option \<Rightarrow> bool \<Rightarrow> session" where
  "new_session config policy security hasConsumer =
     \<lparr>m_state = Disconnected, m_connections = 0, m_controlMessages = 0, m_videoFrames = 0,
      m_videoBytes = 0, m_malformedMessages = 0, m_droppedFrames = 0, m_queueDepth = 0,
      m_queueBytes = 0, m_trusted = False, m_waitingForKeyframe = True, m_streamGeneration = 0,
      m_pendingFormatGeneration = 0, s_config = config, s_trustPolicy = policy,
      s_security = security, s_protector = None, s_connection = None,
      s_hasConsumer = hasConsumer, s_hello = None, s_caps = None,
      s_streamConfig = initialStream config, s_queue = [], s_pendingStreamConfig = None,
      s_nextFormatGeneration = 1, s_nextQueueToken = 1, s_draining = False,
      s_resettingConsumer = False, s_connectedAt = 0, s_trustAt = 0, s_readyAt = 0,
      s_pendingFormatAt = 0, s_streamingAt = 0, s_lastVideoAt = 0, s_lastActivity = 0,
      s_receivedVideo = False, s_watchdog = False, s_out = []\<rparr>"

definition session_with_policy :: "session_config \<Rightarrow> trust_policy \<Rightarrow> bool \<Rightarrow> session" where
  "session_with_policy config policy hasConsumer = new_session config (Some policy) None hasConsumer"

definition session_with_security :: "session_config \<Rightarrow> stored_security \<Rightarrow> bool \<Rightarrow> session" where
  "session_with_security config security hasConsumer = new_session config None (Some security) hasConsumer"

record session_env =
  sv_now :: time_point
  sv_unix :: u64
  sv_security :: security_env
  sv_send :: "nat \<Rightarrow> bool"
  sv_consume :: "nat \<Rightarrow> bool"

definition sv_clocks :: "session_env \<Rightarrow> clocks" where
  "sv_clocks env = \<lparr>unixSeconds = sv_unix env, steadyClock = se_steady (sv_security env)\<rparr>"

subsection \<open>Effects\<close>

definition effect :: "effect \<Rightarrow> session \<Rightarrow> session" where
  "effect e s = s\<lparr>s_out := s_out s @ [e]\<rparr>"

definition notify :: "string \<Rightarrow> string \<Rightarrow> session \<Rightarrow> session" where
  "notify kind detail s = effect (Notified kind detail) s"

definition close_connection :: "session \<Rightarrow> session" where
  "close_connection s = effect Closed s"

fun is_sent :: "effect \<Rightarrow> bool" where
  "is_sent (Sent _ _ _) = True" | "is_sent _ = False"

fun is_consumed :: "effect \<Rightarrow> bool" where
  "is_consumed (Consumed _ _) = True" | "is_consumed _ = False"

text \<open>\<open>connection.send\<close>, whose outcome the environment decides.\<close>

definition connection_send :: "session_env \<Rightarrow> message \<Rightarrow> u8 \<Rightarrow> u8 \<Rightarrow> bytes \<Rightarrow> session \<Rightarrow> hresult \<times> session" where
  "connection_send env m channel flags payload s =
     (let ok = sv_send env (length (filter is_sent (s_out s)));
          fr = \<lparr>fr_channel = channel, fr_flags = flags, fr_ptsMicros = 0, fr_payload = payload\<rparr>
      in (if ok then S_OK else SEND_FAILED, effect (Sent m fr ok) s))"

subsection \<open>Sending\<close>

text \<open>\<open>sendControl\<close> on a connection: in clear without a protector, sealed with one.\<close>

definition sendControl_on :: "session_env \<Rightarrow> message \<Rightarrow> u8 \<Rightarrow> session \<Rightarrow> hresult \<times> session" where
  "sendControl_on env m channel s =
     (let payload = message_encode m
      in case s_protector s of
           None \<Rightarrow> connection_send env m channel 0 payload s
         | Some p \<Rightarrow>
             (case (if channel = channelStats \<and> encryptMedia (s_config s)
                    then protectMedia else protectControl)
                     (se_crypto (sv_security env)) (sv_clocks env) channel 0 0 payload p of
                (Inl e, p) \<Rightarrow>
                  (ERROR_INVALID_DATA,
                   notify ''security.protect_failed'' (sec_errorText e) (s\<lparr>s_protector := Some p\<rparr>))
              | (Inr pp, p) \<Rightarrow>
                  connection_send env m channel (pp_flags pp) (pp_payload pp)
                    (s\<lparr>s_protector := Some p\<rparr>)))"

text \<open>The public \<open>sendControl\<close>, for the UI and the bitrate controller.\<close>

definition sendControl :: "session_env \<Rightarrow> message \<Rightarrow> u8 \<Rightarrow> session \<Rightarrow> hresult \<times> session" where
  "sendControl env m channel s =
     (if s_connection s = None \<or> \<not> m_trusted s \<or> (m_state s \<noteq> Ready \<and> m_state s \<noteq> Streaming)
      then (ERROR_NOT_READY, s)
      else sendControl_on env m channel s)"

definition protocolFailure :: "string \<Rightarrow> session \<Rightarrow> session" where
  "protocolFailure detail s =
     close_connection (notify ''protocol.failure'' detail (s\<lparr>m_state := Failed\<rparr>))"

definition malformedControl :: "string \<Rightarrow> session \<Rightarrow> session" where
  "malformedControl detail s =
     notify ''control.malformed'' detail (s\<lparr>m_malformedMessages := m_malformedMessages s + 1\<rparr>)"

definition resetConsumer :: "stream_config \<Rightarrow> u64 \<Rightarrow> session \<Rightarrow> session" where
  "resetConsumer config generation s =
     (if s_hasConsumer s then effect (ConsumerReset config generation) s else s)"

definition resetQueueLocked :: "bool \<Rightarrow> session \<Rightarrow> session" where
  "resetQueueLocked countDrops s =
     s\<lparr>m_droppedFrames :=
         (if countDrops then m_droppedFrames s + word_of_nat (length (s_queue s)) else m_droppedFrames s),
       s_queue := [], m_queueDepth := 0, m_queueBytes := 0, m_waitingForKeyframe := True\<rparr>"

subsection \<open>Connecting and disconnecting\<close>

definition onConnected :: "session_env \<Rightarrow> string \<Rightarrow> session \<Rightarrow> session" where
  "onConnected env peer s =
     (let s = s\<lparr>s_watchdog := False, s_protector := None, s_connection := Some peer,
                m_connections := m_connections s + 1, m_state := AwaitingHello, m_trusted := False,
                m_waitingForKeyframe := True, s_hello := None, s_caps := None, s_queue := [],
                s_pendingStreamConfig := None, s_nextFormatGeneration := 1, s_nextQueueToken := 1,
                s_draining := False, s_resettingConsumer := False, m_queueDepth := 0,
                m_queueBytes := 0, m_streamGeneration := 0, m_pendingFormatGeneration := 0,
                s_streamConfig := initialStream (s_config s), s_receivedVideo := False,
                s_connectedAt := sv_now env, s_lastActivity := sv_now env\<rparr>;
          configValid = (validDeviceId (sn_serviceId (s_config s)) \<and>
                         stream_config_valid (s_streamConfig s))
      in if \<not> configValid then
           close_connection
             (notify ''session.configuration''
                ''invalid service id or initial stream configuration'' (s\<lparr>m_state := Failed\<rparr>))
         else
           (notify ''session.state'' (stateName AwaitingHello) s)\<lparr>s_watchdog := True\<rparr>)"

definition onDisconnected :: "bool \<Rightarrow> session \<Rightarrow> session" where
  "onDisconnected orderly s =
     (let s = s\<lparr>s_watchdog := False, s_protector := None, s_connection := None,
                m_state := Disconnected, m_trusted := False, s_hello := None, s_caps := None,
                s_pendingStreamConfig := None, m_pendingFormatGeneration := 0,
                m_streamGeneration := 0, s_resettingConsumer := False, s_receivedVideo := False\<rparr>;
          s = resetQueueLocked True s
      in notify ''session.state''
           (if orderly then stateName Disconnected else ''disconnected_with_error'') s)"

subsection \<open>The queue\<close>

text \<open>
  \<open>drainQueue\<close> in the pieces its locks make: entering, taking the front, the consumer's call, and
  removing the unit that was consumed.
\<close>

definition drain_enter :: "session \<Rightarrow> session option" where
  "drain_enter s = (if s_draining s then None else Some (s\<lparr>s_draining := True\<rparr>))"

definition drain_take :: "session \<Rightarrow> (u64 \<times> encoded_access_unit) option \<times> session" where
  "drain_take s =
     (if s_queue s = [] \<or> \<not> s_hasConsumer s \<or> s_resettingConsumer s
      then (None, s\<lparr>s_draining := False\<rparr>) else (Some (hd (s_queue s)), s))"

definition drain_consume :: "session_env \<Rightarrow> u64 \<times> encoded_access_unit \<Rightarrow> session \<Rightarrow> bool \<times> session" where
  "drain_consume env queued s =
     (let consumed = sv_consume env (length (filter is_consumed (s_out s)))
      in (consumed, effect (Consumed (snd queued) consumed) s))"

definition drain_finish :: "u64 \<times> encoded_access_unit \<Rightarrow> bool \<Rightarrow> session \<Rightarrow> session" where
  "drain_finish queued consumed s =
     (if \<not> consumed then s\<lparr>s_draining := False\<rparr>
      else
        (let s = (case s_queue s of
                    [] \<Rightarrow> s
                  | front # rest \<Rightarrow>
                      if fst front = fst queued
                      then s\<lparr>m_queueBytes := m_queueBytes s - length (eu_bytes (snd front)),
                             s_queue := rest\<rparr>
                      else s)
         in s\<lparr>m_queueDepth := length (s_queue s)\<rparr>))"

function drain_loop :: "session_env \<Rightarrow> session \<Rightarrow> session" where
  "drain_loop env s =
     (case drain_take s of
        (None, s) \<Rightarrow> s
      | (Some queued, s1) \<Rightarrow>
          (case drain_consume env queued s1 of
             (consumed, s2) \<Rightarrow>
               if consumed then drain_loop env (drain_finish queued consumed s2)
               else drain_finish queued consumed s2))"
  by pat_completeness auto
termination
  by (relation "measure (\<lambda>(env, s). length (s_queue s))")
    (auto simp: drain_take_def drain_consume_def drain_finish_def effect_def Let_def neq_Nil_conv
      split: if_splits)

declare drain_loop.simps [simp del]

definition drainQueue :: "session_env \<Rightarrow> session \<Rightarrow> session" where
  "drainQueue env s = (case drain_enter s of None \<Rightarrow> s | Some s \<Rightarrow> drain_loop env s)"

subsection \<open>Control messages\<close>

definition generation_text :: "u64 \<Rightarrow> string" where
  "generation_text generation = ''generation '' @ decimal (unat generation)"

definition handleFormatAck :: "session_env \<Rightarrow> message \<Rightarrow> session \<Rightarrow> session" where
  "handleFormatAck env message s =
     (case parseFormatAck message of
        None \<Rightarrow> malformedControl ''format_ack has an invalid generation'' s
      | Some generation \<Rightarrow>
          (case s_pendingStreamConfig s of
             Some applied \<Rightarrow>
               if m_pendingFormatGeneration s = generation \<and> \<not> s_resettingConsumer s then
                 (let s = resetQueueLocked True s;
                      s = s\<lparr>s_streamConfig := applied, s_pendingStreamConfig := None,
                            m_streamGeneration := generation, m_pendingFormatGeneration := 0,
                            m_waitingForKeyframe := True, s_resettingConsumer := True,
                            s_receivedVideo := False, s_lastActivity := sv_now env,
                            s_streamingAt := sv_now env, s_lastVideoAt := sv_now env\<rparr>;
                      s = resetConsumer applied generation s;
                      s = s\<lparr>s_resettingConsumer := False\<rparr>;
                      s = notify ''stream.reset'' (generation_text generation) s
                  in case sendControl_on env requestKeyframe channelControl s of
                       (hr, s) \<Rightarrow>
                         if \<not> succeeded hr
                         then protocolFailure ''could not request a recovery keyframe'' s else s)
               else protocolFailure ''format_ack does not match the pending generation'' s
           | None \<Rightarrow> protocolFailure ''format_ack does not match the pending generation'' s))"

definition handleFormatReject :: "session_env \<Rightarrow> message \<Rightarrow> session \<Rightarrow> session" where
  "handleFormatReject env message s =
     (case parseFormatReject message of
        None \<Rightarrow> malformedControl ''format_reject has an invalid v1 shape'' s
      | Some rejection \<Rightarrow>
          if s_pendingStreamConfig s \<noteq> None \<and>
             m_pendingFormatGeneration s = fr_generation rejection \<and> \<not> s_resettingConsumer s then
            (let s = resetQueueLocked True s;
                 s = s\<lparr>s_pendingStreamConfig := None, m_pendingFormatGeneration := 0,
                       m_waitingForKeyframe := True, s_receivedVideo := False,
                       s_lastActivity := sv_now env, s_streamingAt := sv_now env,
                       s_lastVideoAt := sv_now env\<rparr>;
                 s = notify ''stream.format_rejected''
                       (generation_text (fr_generation rejection) @ '': '' @ fr_code rejection) s
             in case sendControl_on env requestKeyframe channelControl s of
                  (hr, s) \<Rightarrow>
                    if \<not> succeeded hr
                    then protocolFailure ''could not request a recovery keyframe'' s else s)
          else protocolFailure ''format_reject does not match the pending generation'' s)"

text \<open>
  The trust decision of \<open>handleHello\<close>: trusted, paired, the standing opt-out, a challenge to send.
  \<^const>\<open>None\<close> is the error on which the handshake stops.
\<close>

definition hello_trust ::
  "session_env \<Rightarrow> string \<Rightarrow> hello_values \<Rightarrow> session \<Rightarrow>
     (bool \<times> bool \<times> bool \<times> authentication_challenge option) option \<times> session" where
  "hello_trust env peer parsed s =
     (case s_trustPolicy s of
        Some policy \<Rightarrow>
          (let allowUnauthenticated = tp_allowsUnauthenticated policy;
               trusted = tp_trusted policy parsed
           in (Some (trusted, trusted \<and> \<not> allowUnauthenticated, allowUnauthenticated, None), s))
      | None \<Rightarrow>
          (case s_security s of
             None \<Rightarrow> (Some (False, False, False, None), s)
           | Some security \<Rightarrow>
               (case beginAuthentication (sv_security env) (sourceAddress peer)
                       (h_deviceId parsed) (sv_unix env) security of
                  (Inr generated, security) \<Rightarrow>
                    (Some (False, True, False, Some generated), s\<lparr>s_security := Some security\<rparr>)
                | (Inl e, security) \<Rightarrow>
                    (let s = s\<lparr>s_security := Some security\<rparr>
                     in if e \<noteq> NotFound then
                          (None, protocolFailure ''could not begin authenticated session''
                                   (notify ''security.authentication_failed'' (sec_errorText e) s))
                        else (Some (False, False, False, None), s)))))"

definition handleHello :: "session_env \<Rightarrow> string \<Rightarrow> message \<Rightarrow> session \<Rightarrow> session" where
  "handleHello env peer message s =
     (case parseHello message of
        None \<Rightarrow>
          protocolFailure ''invalid hello''
            (notify ''handshake.failure'' ''hello has an invalid v1 identity shape'' s)
      | Some parsed \<Rightarrow>
          if h_version parsed \<noteq> kProtocolVersion then
            protocolFailure ''unsupported protocol version''
              (notify ''handshake.failure'' ''peer protocol must be exactly v1'' s)
          else
            (case hello_trust env peer parsed s of
               (None, s) \<Rightarrow> s
             | (Some (trusted, paired, allowUnauthenticated, challenge), s) \<Rightarrow>
                 (let s = s\<lparr>s_hello := Some parsed, m_trusted := trusted,
                            m_state := (if trusted then Ready else AwaitingTrust),
                            s_lastActivity := sv_now env, s_trustAt := sv_now env,
                            s_readyAt := (if trusted then sv_now env else s_readyAt s)\<rparr>
                  in case sendControl_on env
                            (serverInfo (serverName (s_config s)) (sn_serviceId (s_config s)) paired
                               allowUnauthenticated [''h264'', ''hevc'']) channelControl s of
                       (infoHr, s) \<Rightarrow>
                         if \<not> succeeded infoHr then
                           protocolFailure ''server_info send failed''
                             (notify ''handshake.failure'' ''could not send server_info'' s)
                         else
                           (case (case challenge of
                                    Some c \<Rightarrow>
                                      (case sendControl_on env
                                              (authChallenge \<lparr>ac_serverNonce = ach_serverNonce c,
                                                 ac_expiresUnixSeconds = ach_expires c\<rparr>)
                                              channelControl s of
                                         (hr, s) \<Rightarrow>
                                           if \<not> succeeded hr
                                           then (False, protocolFailure
                                                   ''authentication challenge send failed'' s)
                                           else (True, s))
                                  | None \<Rightarrow>
                                      if trusted then
                                        (case sendControl_on env (ready (s_streamConfig s))
                                                channelControl s of
                                           (hr, s) \<Rightarrow>
                                             if \<not> succeeded hr
                                             then (False, protocolFailure ''ready send failed''
                                                     (notify ''handshake.failure'' ''could not send ready'' s))
                                             else (True, s))
                                      else (True, s)) of
                              (False, s) \<Rightarrow> s
                            | (True, s) \<Rightarrow>
                                (let s = (if trusted \<and> allowUnauthenticated
                                          then notify ''security.unauthenticated''
                                                 (h_deviceName parsed @ '' ('' @ h_deviceId parsed @ '')'') s
                                          else s)
                                 in notify ''session.state''
                                      (stateName (if trusted then Ready else AwaitingTrust)) s)))))"

text \<open>Its caller has checked that there is session security, so only the identity can be missing.\<close>

definition handleAuthResponse :: "session_env \<Rightarrow> string \<Rightarrow> message \<Rightarrow> session \<Rightarrow> session" where
  "handleAuthResponse env peer message s =
     (case parseAuthResponse message of
        None \<Rightarrow> malformedControl ''auth_response has an invalid v1 shape'' s
      | Some response \<Rightarrow>
          (case (s_hello s, s_security s) of
             (Some identity, Some security) \<Rightarrow>
               (case finishAuthentication (sv_security env) (sourceAddress peer) (h_deviceId identity)
                       (ar_clientNonce response) (ar_clientProof response) (sv_unix env) security of
                  (Inl e, security) \<Rightarrow>
                    protocolFailure ''session authentication proof rejected''
                      (notify ''security.authentication_failed'' (sec_errorText e)
                         (s\<lparr>s_security := Some security\<rparr>))
                | (Inr authenticated, security) \<Rightarrow>
                    (let s = s\<lparr>s_security := Some security\<rparr>;
                         confirmation = \<lparr>acf_serverProof = are_serverProof authenticated,
                           acf_sessionExpiresUnixSeconds =
                             pr_expiresUnixSeconds (are_protector authenticated)\<rparr>
                     in case sendControl_on env (authConfirm confirmation) channelControl s of
                          (confirmHr, s) \<Rightarrow>
                            if \<not> succeeded confirmHr
                            then protocolFailure ''authentication confirmation send failed'' s
                            else
                              (let s = s\<lparr>s_protector := Some (are_protector authenticated),
                                         m_trusted := True, m_state := Ready,
                                         s_readyAt := sv_now env, s_lastActivity := sv_now env\<rparr>
                               in case sendControl_on env (ready (s_streamConfig s)) channelControl s of
                                    (readyHr, s) \<Rightarrow>
                                      if \<not> succeeded readyHr
                                      then protocolFailure ''authenticated ready send failed'' s
                                      else notify ''session.state'' (stateName Ready)
                                             (notify ''security.authenticated'' (h_deviceId identity) s))))
           | _ \<Rightarrow> protocolFailure ''authentication has no peer identity'' s))"

text \<open>\<open>stream_start\<close>, and the messages that only report: each is checked and noted as activity.\<close>

definition handleStreamStart :: "session_env \<Rightarrow> message \<Rightarrow> session \<Rightarrow> session" where
  "handleStreamStart env message s =
     (if msg_fields message \<noteq> [] then malformedControl ''stream_start has unexpected v1 fields'' s
      else if m_state s = Ready \<and> s_pendingStreamConfig s = None \<and> \<not> s_resettingConsumer s then
        (let config = s_streamConfig s;
             generation = m_streamGeneration s;
             s = s\<lparr>m_state := Streaming, s_resettingConsumer := True, s_streamingAt := sv_now env,
                   s_lastVideoAt := sv_now env, s_lastActivity := sv_now env,
                   s_receivedVideo := False\<rparr>;
             s = resetConsumer config generation s;
             s = s\<lparr>s_resettingConsumer := False\<rparr>
         in notify ''session.state'' (stateName Streaming)
              (notify ''stream.reset'' (generation_text generation) s))
      else protocolFailure ''stream_start is valid exactly once after ready'' s)"

definition reported :: "session_env \<Rightarrow> bool \<Rightarrow> string \<Rightarrow> string \<Rightarrow> string \<Rightarrow> session \<Rightarrow> session" where
  "reported env ok malformed kind detail s =
     (if \<not> ok then malformedControl malformed s
      else notify kind detail (s\<lparr>s_lastActivity := sv_now env\<rparr>))"

definition handleReport :: "session_env \<Rightarrow> message \<Rightarrow> session \<Rightarrow> session" where
  "handleReport env message s =
     (if msg_type message = ''caps'' then
        (case parseCaps message of
           None \<Rightarrow> malformedControl ''caps has an invalid v1 shape'' s
         | Some parsed \<Rightarrow>
             notify ''phone.caps'' ''received''
               (s\<lparr>s_caps := Some parsed, s_lastActivity := sv_now env\<rparr>))
      else if msg_type message = ''stream_start'' then handleStreamStart env message s
      else if msg_type message = ''orientation'' then
        reported env (case parseOrientation message of
                        None \<Rightarrow> False | Some p \<Rightarrow> dbl_isfinite (or_degrees p))
          ''orientation has an invalid v1 shape'' ''phone.orientation'' ''received'' s
      else if msg_type message = ''thermal'' then
        reported env (case parseThermal message of
                        None \<Rightarrow> False
                      | Some p \<Rightarrow> p = ''nominal'' \<or> p = ''fair'' \<or> p = ''serious'' \<or> p = ''critical'')
          ''thermal has an invalid v1 shape'' ''phone.thermal'' ''received'' s
      else if msg_type message = ''battery'' then
        reported env (case parseBattery message of
                        None \<Rightarrow> False
                      | Some p \<Rightarrow> dbl_isfinite (ba_level p) \<and> \<not> dbl_less (ba_level p) dbl_zero \<and>
                                  \<not> dbl_less dbl_one (ba_level p))
          ''battery has an invalid v1 shape'' ''phone.battery'' ''received'' s
      else if msg_type message = ''camera_state'' then
        reported env (case parseCameraState message of None \<Rightarrow> False | Some p \<Rightarrow> finiteCameraState p)
          ''camera_state has an invalid v1 shape'' ''phone.camera_state'' ''received'' s
      else if msg_type message = ''error'' then
        (case parseError message of
           None \<Rightarrow> malformedControl ''error has an invalid v1 shape'' s
         | Some parsed \<Rightarrow> reported env True [] ''phone.error'' (de_code parsed) s)
      else notify ''control.unknown'' (msg_type message) s)"

definition handleControl :: "session_env \<Rightarrow> string \<Rightarrow> frame \<Rightarrow> session \<Rightarrow> session" where
  "handleControl env peer fr s =
     (case message_decode (fr_payload fr) of
        Inl (e, cborError) \<Rightarrow>
          malformedControl (control_errorText e @ '': '' @ cbor_errorText cborError) s
      | Inr message \<Rightarrow>
          (let s = s\<lparr>m_controlMessages := m_controlMessages s + 1\<rparr>;
               state = m_state s;
               trusted = m_trusted s
           in if msg_type message = ''hello'' then
                if state \<noteq> AwaitingHello
                then protocolFailure ''hello is only valid as the first control message'' s
                else handleHello env peer message s
              else if state = AwaitingHello
                then protocolFailure ''first control message must be hello'' s
              else if msg_type message = ''auth_response'' then
                if state \<noteq> AwaitingTrust \<or> s_security s = None
                then protocolFailure ''auth_response is valid only during authentication'' s
                else handleAuthResponse env peer message s
              else if \<not> trusted then notify ''control.unauthenticated'' (msg_type message) s
              else if state \<noteq> Ready \<and> state \<noteq> Streaming
                then protocolFailure ''control message is invalid in the current session state'' s
              else if isPcToPhoneMessage (msg_type message)
                then protocolFailure (''phone sent PC-to-phone message '' @ msg_type message) s
              else if msg_type message = ''format_ack'' then handleFormatAck env message s
              else if msg_type message = ''format_reject'' then handleFormatReject env message s
              else handleReport env message s))"

subsection \<open>Video\<close>

definition annexb_of :: "codec \<Rightarrow> annexb_codec" where
  "annexb_of c = (if c = Hevc then AnnexbHevc else AnnexbH264)"

definition handleVideo :: "session_env \<Rightarrow> frame \<Rightarrow> session \<Rightarrow> session" where
  "handleVideo env fr s =
     (let codec = sc_codec (s_streamConfig s);
          generation = m_streamGeneration s;
          transitionPending = (s_pendingStreamConfig s \<noteq> None \<or> s_resettingConsumer s)
      in if \<not> m_trusted s then notify ''video.unauthenticated'' ''ignored'' s
         else if m_state s \<noteq> Streaming \<or> transitionPending then
           notify ''video.out_of_state''
             (if transitionPending then ''format transition pending'' else ''stream_start not received'')
             (s\<lparr>m_droppedFrames := m_droppedFrames s + 1\<rparr>)
         else
           (let report = inspect (fr_payload fr) (annexb_of codec);
                flagMatchesBitstream = (isKeyframe fr = hasKeyframeSlice report)
            in if \<not> isAnnexB report \<or> \<not> hasVideoSlice report \<or> \<not> flagMatchesBitstream \<or>
                  (isKeyframe fr \<and> \<not> isSelfContainedKeyframe report) then
                 (let s = resetQueueLocked True (s\<lparr>m_droppedFrames := m_droppedFrames s + 1\<rparr>);
                      reason =
                        (if isAnnexB report \<and> \<not> hasVideoSlice report
                         then ''access unit has no video slice''
                         else if isAnnexB report \<and> \<not> flagMatchesBitstream
                         then ''keyframe flag disagrees with the bitstream''
                         else if isAnnexB report then ''keyframe is not independently decodable''
                         else ''payload is not Annex-B'')
                  in snd (sendControl_on env requestKeyframe channelControl
                            (notify ''video.invalid'' reason s)))
               else if m_waitingForKeyframe s \<and> \<not> isKeyframe fr
                 then s\<lparr>m_droppedFrames := m_droppedFrames s + 1\<rparr>
               else
                 (let s = s\<lparr>m_waitingForKeyframe := (if isKeyframe fr then False else m_waitingForKeyframe s),
                            s_lastActivity := sv_now env, s_lastVideoAt := sv_now env,
                            s_receivedVideo := True\<rparr>
                  in if length (s_queue s) \<ge> maxQueuedAccessUnits (s_config s) \<or>
                        m_queueBytes s + length (fr_payload fr) > maxQueuedBytes (s_config s) then
                       (let s = resetQueueLocked True s;
                            s = s\<lparr>m_droppedFrames := m_droppedFrames s + 1\<rparr>
                        in snd (sendControl_on env requestKeyframe channelControl
                                  (notify ''video.backpressure''
                                     ''queue flushed; recovery keyframe requested'' s)))
                     else
                       (let unit = \<lparr>eu_bytes = fr_payload fr, eu_codec = codec,
                                    eu_keyframe = isKeyframe fr, eu_pts = fr_ptsMicros fr,
                                    eu_generation = generation\<rparr>;
                            s = s\<lparr>s_queue := s_queue s @ [(s_nextQueueToken s, unit)],
                                  s_nextQueueToken := s_nextQueueToken s + 1,
                                  m_queueDepth := Suc (length (s_queue s)),
                                  m_queueBytes := m_queueBytes s + length (fr_payload fr),
                                  m_videoFrames := m_videoFrames s + 1,
                                  m_videoBytes := m_videoBytes s + word_of_nat (length (fr_payload fr))\<rparr>
                        in drainQueue env s))))"

subsection \<open>Frames\<close>

text \<open>The payload a frame carries once the protector has opened it, and the protector after.\<close>

definition open_frame ::
  "session_env \<Rightarrow> bool \<Rightarrow> frame \<Rightarrow> protector \<Rightarrow> (security_error + bytes) \<times> protector" where
  "open_frame env encrypt fr p =
     (let open_with = (\<lambda>operation. operation (se_crypto (sv_security env)) (sv_clocks env)
            (fr_channel fr) (fr_flags fr) (fr_ptsMicros fr) (fr_payload fr) p)
      in if fr_channel fr = channelControl then open_with unprotectControl
         else if fr_channel fr = channelVideo then
           (if encrypt then open_with unprotectMedia
            else if fr_flags fr AND kEncrypted = 0 then (Inr (fr_payload fr), p)
            else (Inl InvalidArgument, p))
         else if fr_channel fr = channelStats then
           (if encrypt then open_with unprotectMedia else open_with unprotectControl)
         else (Inl InvalidArgument, p))"

definition dispatch_frame :: "session_env \<Rightarrow> string \<Rightarrow> frame \<Rightarrow> session \<Rightarrow> session" where
  "dispatch_frame env peer fr s =
     (if fr_channel fr \<noteq> channelVideo \<and> isKeyframe fr
      then protocolFailure ''keyframe flag is valid only on the video channel'' s
      else if fr_channel fr = channelAudio then s
      else if fr_channel fr = channelVideo then handleVideo env fr s
      else if fr_channel fr = channelControl then handleControl env peer fr s
      else if fr_channel fr = channelStats
        then protocolFailure ''stats channel is PC-to-phone in v1'' s
      else protocolFailure ''unknown channel has no authenticated v1 schema'' s)"

definition onFrame :: "session_env \<Rightarrow> string \<Rightarrow> frame \<Rightarrow> session \<Rightarrow> session" where
  "onFrame env peer fr s =
     (if fr_flags fr AND kEndOfFragment \<noteq> 0 then protocolFailure ''fragmentation is forbidden in v1'' s
      else case s_protector s of
        Some p \<Rightarrow>
          if fr_channel fr = channelAudio then s
          else
            (case open_frame env (encryptMedia (s_config s)) fr p of
               (Inl e, p) \<Rightarrow>
                 protocolFailure (''session envelope rejected: '' @ sec_errorText e)
                   (s\<lparr>s_protector := Some p\<rparr>)
             | (Inr plaintext, p) \<Rightarrow>
                 dispatch_frame env peer
                   (fr\<lparr>fr_payload := plaintext, fr_flags := fr_flags fr AND NOT kEncrypted\<rparr>)
                   (s\<lparr>s_protector := Some p\<rparr>))
      | None \<Rightarrow>
          if fr_flags fr AND kEncrypted \<noteq> 0
          then protocolFailure ''encrypted payload received before session authentication'' s
          else dispatch_frame env peer fr s)"

subsection \<open>The UI and the watchdog\<close>

definition sendFormat :: "session_env \<Rightarrow> stream_config \<Rightarrow> session \<Rightarrow> hresult \<times> session" where
  "sendFormat env config s =
     (if \<not> stream_config_valid config then (E_INVALIDARG, s)
      else if s_connection s = None \<or> \<not> m_trusted s \<or> m_state s \<noteq> Streaming then (ERROR_NOT_READY, s)
      else if s_pendingStreamConfig s \<noteq> None \<or> s_resettingConsumer s then (ERROR_BUSY, s)
      else
        (let generation = s_nextFormatGeneration s;
             s = s\<lparr>s_nextFormatGeneration := generation + 1, s_pendingStreamConfig := Some config,
                   m_pendingFormatGeneration := generation, s_pendingFormatAt := sv_now env\<rparr>;
             s = resetQueueLocked True s
         in case sendControl_on env (setFormat config generation) channelControl s of
              (hr, s) \<Rightarrow>
                if \<not> succeeded hr
                then (hr, s\<lparr>s_pendingStreamConfig := None, m_pendingFormatGeneration := 0\<rparr>)
                else (hr, notify ''stream.format_pending'' (generation_text generation) s)))"

definition sendPreview :: "session_env \<Rightarrow> bool \<Rightarrow> session \<Rightarrow> hresult \<times> session" where
  "sendPreview env enabled s = sendControl env (setPreview enabled) channelControl s"

definition sendCamera :: "session_env \<Rightarrow> string \<Rightarrow> string option \<Rightarrow> session \<Rightarrow> hresult \<times> session" where
  "sendCamera env lens position s = sendControl env (setCamera lens position) channelControl s"

definition sendControls :: "session_env \<Rightarrow> camera_controls \<Rightarrow> session \<Rightarrow> hresult \<times> session" where
  "sendControls env controls s = sendControl env (setControl controls) channelControl s"

definition sendStats :: "session_env \<Rightarrow> stats_values \<Rightarrow> session \<Rightarrow> hresult \<times> session" where
  "sendStats env values s = sendControl env (stats values) channelStats s"

definition session_requestKeyframe :: "session_env \<Rightarrow> session \<Rightarrow> hresult \<times> session" where
  "session_requestKeyframe env s = sendControl env requestKeyframe channelControl s"

definition setConsumer :: "session_env \<Rightarrow> bool \<Rightarrow> session \<Rightarrow> session" where
  "setConsumer env present s =
     (let s = s\<lparr>s_hasConsumer := present\<rparr>;
          reset = (present \<and> m_state s = Streaming \<and> s_pendingStreamConfig s = None \<and>
                   \<not> s_resettingConsumer s);
          s = (if reset
               then (let s = s\<lparr>s_resettingConsumer := True\<rparr>;
                         s = resetConsumer (s_streamConfig s) (m_streamGeneration s) s
                     in s\<lparr>s_resettingConsumer := False\<rparr>)
               else s)
      in drainQueue env s)"

text \<open>One pass of the watchdog's loop: the reason it closes the session for, if it does.\<close>

definition watchdog_reason :: "time_point \<Rightarrow> session \<Rightarrow> string option" where
  "watchdog_reason now s =
     (if m_state s = AwaitingHello \<and> now - s_connectedAt s > milliseconds (helloTimeout (s_config s))
      then Some ''hello timeout''
      else if m_state s = AwaitingTrust \<and> now - s_trustAt s > milliseconds (trustTimeout (s_config s))
      then Some ''trust timeout''
      else if s_pendingStreamConfig s \<noteq> None \<and>
              now - s_pendingFormatAt s > milliseconds (formatAckTimeout (s_config s))
      then Some ''format acknowledgement timeout''
      else if m_state s = Ready \<and> now - s_readyAt s > milliseconds (progressTimeout (s_config s))
      then Some ''stream progress timeout''
      else if m_state s = Streaming \<and>
              now - (if s_receivedVideo s then s_lastVideoAt s else s_streamingAt s) >
                milliseconds (videoTimeout (s_config s))
      then Some (if s_receivedVideo s then ''video idle timeout'' else ''first video timeout'')
      else if now - s_lastActivity s > milliseconds (idleTimeout (s_config s))
      then Some ''idle timeout''
      else None)"

definition watchdog_tick :: "session_env \<Rightarrow> session \<Rightarrow> session" where
  "watchdog_tick env s =
     (if \<not> s_watchdog s then s
      else if s_connection s = None then s\<lparr>s_watchdog := False\<rparr>
      else case watchdog_reason (sv_now env) s of
        None \<Rightarrow> s
      | Some reason \<Rightarrow>
          close_connection (notify ''session.timeout'' reason
            (s\<lparr>m_state := Failed, s_watchdog := False\<rparr>)))"

end
