(* ===== verification/SessionInv.thy ===== *)
theory SessionInv
  imports Session
begin

text \<open>
  What the session controller promises: the invariant of its state, kept by every operation on
  every path (\<open>machine\<close>, interpreted on \<open>session_step\<close>), and the properties that rest on it.
\<close>

subsection \<open>Operations and runs\<close>

datatype session_op =
    OpConnected session_env string
  | OpFrame session_env string frame
  | OpDisconnected bool
  | OpPreview session_env bool
  | OpCamera session_env string "string option"
  | OpControls session_env camera_controls
  | OpFormat session_env stream_config
  | OpStats session_env stats_values
  | OpKeyframe session_env
  | OpConsumer session_env bool
  | OpWatchdog session_env

fun session_step :: "session \<Rightarrow> session_op \<Rightarrow> session" where
  "session_step s (OpConnected env peer) = onConnected env peer s"
| "session_step s (OpFrame env peer fr) = onFrame env peer fr s"
| "session_step s (OpDisconnected orderly) = onDisconnected orderly s"
| "session_step s (OpPreview env enabled) = snd (sendPreview env enabled s)"
| "session_step s (OpCamera env lens position) = snd (sendCamera env lens position s)"
| "session_step s (OpControls env controls) = snd (sendControls env controls s)"
| "session_step s (OpFormat env config) = snd (sendFormat env config s)"
| "session_step s (OpStats env values) = snd (sendStats env values s)"
| "session_step s (OpKeyframe env) = snd (session_requestKeyframe env s)"
| "session_step s (OpConsumer env present) = setConsumer env present s"
| "session_step s (OpWatchdog env) = watchdog_tick env s"

subsection \<open>The invariant\<close>

definition live :: "session_state \<Rightarrow> bool" where
  "live st \<longleftrightarrow> st = AwaitingHello \<or> st = AwaitingTrust \<or> st = Ready \<or> st = Streaming"

text \<open>On what the trust in a peer rests: a policy that accepts its hello, or a protector.\<close>

definition authorised :: "session \<Rightarrow> bool" where
  "authorised s \<longleftrightarrow>
     (case s_trustPolicy s of
        Some policy \<Rightarrow> (case s_hello s of None \<Rightarrow> False | Some h \<Rightarrow> tp_trusted policy h)
      | None \<Rightarrow> s_protector s \<noteq> None)"

definition trust_inv :: "session \<Rightarrow> bool" where
  "trust_inv s \<longleftrightarrow>
     (m_state s = Ready \<or> m_state s = Streaming \<longrightarrow> m_trusted s) \<and>
     (m_state s = AwaitingHello \<or> m_state s = AwaitingTrust \<or> m_state s = Disconnected \<longrightarrow> \<not> m_trusted s) \<and>
     (live (m_state s) \<or> m_trusted s \<longrightarrow> s_connection s \<noteq> None) \<and>
     (m_state s = AwaitingTrust \<or> m_trusted s \<longrightarrow> s_hello s \<noteq> None) \<and>
     (m_trusted s \<longrightarrow> authorised s) \<and>
     (s_protector s \<noteq> None \<longrightarrow> m_trusted s) \<and>
     (s_trustPolicy s = None \<or> s_security s = None)"

definition unit_ok :: "session \<Rightarrow> encoded_access_unit \<Rightarrow> bool" where
  "unit_ok s u \<longleftrightarrow>
     eu_generation u = m_streamGeneration s \<and> eu_codec u = sc_codec (s_streamConfig s) \<and>
     (let report = inspect (eu_bytes u) (annexb_of (eu_codec u))
      in isAnnexB report \<and> hasVideoSlice report \<and> eu_keyframe u = hasKeyframeSlice report \<and>
         (eu_keyframe u \<longrightarrow> isSelfContainedKeyframe report))"

definition queue_inv :: "session \<Rightarrow> bool" where
  "queue_inv s \<longleftrightarrow>
     length (s_queue s) \<le> maxQueuedAccessUnits (s_config s) \<and>
     m_queueDepth s = length (s_queue s) \<and>
     m_queueBytes s = sum_list (map (length \<circ> eu_bytes \<circ> snd) (s_queue s)) \<and>
     m_queueBytes s \<le> maxQueuedBytes (s_config s) \<and>
     (s_queue s \<noteq> [] \<longrightarrow> m_trusted s \<and> s_pendingStreamConfig s = None \<and> \<not> m_waitingForKeyframe s) \<and>
     list_all (unit_ok s \<circ> snd) (s_queue s) \<and>
     \<not> s_draining s \<and> \<not> s_resettingConsumer s"

definition format_inv :: "session \<Rightarrow> bool" where
  "format_inv s \<longleftrightarrow>
     (live (m_state s) \<longrightarrow> stream_config_valid (s_streamConfig s)) \<and>
     (case s_pendingStreamConfig s of
        None \<Rightarrow> m_pendingFormatGeneration s = 0
      | Some c \<Rightarrow> stream_config_valid c \<and> (m_state s = Streaming \<or> m_state s = Failed))"

definition session_inv :: "session \<Rightarrow> bool" where
  "session_inv s \<longleftrightarrow> trust_inv s \<and> queue_inv s \<and> format_inv s"

lemmas inv_defs = session_inv_def trust_inv_def queue_inv_def format_inv_def authorised_def
  unit_ok_def live_def

text \<open>The trace plays no part, and of the protector only whether there is one.\<close>

lemma session_inv_out [simp]: "session_inv (s\<lparr>s_out := x\<rparr>) = session_inv s"
  by (simp add: inv_defs comp_def cong: option.case_cong)

lemma session_inv_effects [simp]:
  "session_inv (effect e s) = session_inv s" "session_inv (notify k d s) = session_inv s"
  "session_inv (close_connection s) = session_inv s"
  by (simp_all add: effect_def notify_def close_connection_def)

lemma session_inv_protector:
  "(p = None \<longleftrightarrow> s_protector s = None) \<Longrightarrow> session_inv (s\<lparr>s_protector := p\<rparr>) = session_inv s"
  by (auto simp: inv_defs comp_def split: option.splits)

lemma session_inv_protector_out:
  "(p = None \<longleftrightarrow> s_protector s = None) \<Longrightarrow> session_inv (s\<lparr>s_protector := p, s_out := x\<rparr>) = session_inv s"
  using session_inv_protector[of p s] session_inv_out[of x "s\<lparr>s_protector := p\<rparr>"]
  by (simp del: session_inv_out)

text \<open>What sending changes: the protector's counters and the trace.\<close>

lemma sendControl_on_frame:
  assumes "sendControl_on env m ch s = (hr, s')"
  obtains p x where "s' = s\<lparr>s_protector := p, s_out := s_out s @ x\<rparr>"
    and "p = None \<longleftrightarrow> s_protector s = None"
proof (cases "s_protector s")
  case None
  with assms show ?thesis
    by (intro that[where p = None and x = "drop (length (s_out s)) (s_out s')"])
      (auto simp: sendControl_on_def connection_send_def effect_def Let_def)
next
  case (Some p)
  with assms show ?thesis
    by (intro that[where p = "s_protector s'" and x = "drop (length (s_out s)) (s_out s')"])
      (auto simp: sendControl_on_def connection_send_def effect_def notify_def Let_def
        split: prod.splits sum.splits if_splits)
qed

lemma session_inv_send:
  "sendControl_on env m ch s = (hr, s') \<Longrightarrow> session_inv s' = session_inv s"
  by (erule sendControl_on_frame) (simp add: session_inv_protector)

lemma session_inv_failed: "session_inv s \<Longrightarrow> session_inv (s\<lparr>m_state := Failed\<rparr>)"
  by (auto simp: inv_defs comp_def split: option.splits)

lemma session_inv_protocolFailure: "session_inv s \<Longrightarrow> session_inv (protocolFailure d s)"
  by (simp add: protocolFailure_def session_inv_failed)

lemma session_inv_malformed: "session_inv s \<Longrightarrow> session_inv (malformedControl d s)"
  by (simp add: malformedControl_def) (simp add: inv_defs comp_def cong: option.case_cong)

lemma session_inv_reset_consumer [simp]: "session_inv (resetConsumer c g s) = session_inv s"
  by (simp add: resetConsumer_def)

lemma session_inv_reset_queue: "session_inv s \<Longrightarrow> session_inv (resetQueueLocked c s)"
  by (auto simp: resetQueueLocked_def inv_defs comp_def split: option.splits)

subsection \<open>Draining\<close>

text \<open>While the drain runs, the invariant holds but for the flag that says so.\<close>

lemma drain_take_cases:
  assumes "drain_take s = (r, s')"
  obtains "r = None" and "s' = s\<lparr>s_draining := False\<rparr>"
  | q rest where "r = Some q" and "s' = s" and "s_queue s = q # rest"
    and "s_hasConsumer s" and "\<not> s_resettingConsumer s"
  using assms by (cases "s_queue s") (auto simp: drain_take_def split: if_splits)

text \<open>What every unit handed over keeps, the drain keeps.\<close>

lemma drain_loop_keeps:
  assumes "P s"
    and "\<And>s. P s \<Longrightarrow> P (s\<lparr>s_draining := False\<rparr>)"
    and "\<And>s q rest b. P s \<Longrightarrow> s_queue s = q # rest \<Longrightarrow> s_hasConsumer s \<Longrightarrow>
           P (drain_finish q b (effect (Consumed (snd q) b) s))"
  shows "P (drain_loop env s)"
  using assms(1)
proof (induction env s rule: drain_loop.induct)
  case (1 env s)
  obtain r s1 where t: "drain_take s = (r, s1)" by fastforce
  then show ?case
  proof (cases rule: drain_take_cases)
    case 1
    with t "1.prems" show ?thesis by (subst drain_loop.simps) (simp add: assms(2))
  next
    case (2 q rest)
    obtain c s2 where c: "drain_consume env q s1 = (c, s2)" by fastforce
    then have "s2 = effect (Consumed (snd q) c) s" using 2 by (auto simp: drain_consume_def Let_def)
    then have f: "P (drain_finish q c s2)" using "1.prems" 2 by (simp add: assms(3))
    show ?thesis
      using "1.IH"[OF t[symmetric] 2(1) c[symmetric]] t 2(1) c f
      by (cases c; subst drain_loop.simps) simp_all
  qed
qed

lemma session_inv_out_draining:
  "session_inv (s\<lparr>s_out := x, s_draining := b\<rparr>) = session_inv (s\<lparr>s_draining := b\<rparr>)"
  by (simp add: inv_defs comp_def cong: option.case_cong)

lemma session_inv_effect_draining:
  "session_inv ((effect e s)\<lparr>s_draining := b\<rparr>) = session_inv (s\<lparr>s_draining := b\<rparr>)"
  "s_queue (effect e s) = s_queue s"
  by (simp_all add: effect_def session_inv_out_draining)

lemma not_draining: "\<not> s_draining s \<Longrightarrow> (s :: session)\<lparr>s_draining := False\<rparr> = s"
  by (cases s) simp

lemma session_inv_not_draining: "session_inv s \<Longrightarrow> s\<lparr>s_draining := False\<rparr> = s"
  by (simp add: session_inv_def queue_inv_def not_draining)

lemma drain_finish_inv:
  assumes "session_inv (s\<lparr>s_draining := False\<rparr>)" and "s_queue s = q # rest"
  shows "session_inv ((drain_finish q b s)\<lparr>s_draining := False\<rparr>)"
proof (cases b)
  case True
  with assms show ?thesis
    by (auto simp: drain_finish_def inv_defs comp_def split: option.splits)
next
  case False
  with assms(1) show ?thesis by (simp add: drain_finish_def)
qed

lemma session_inv_drain_loop:
  assumes "session_inv (s\<lparr>s_draining := False\<rparr>)"
  shows "session_inv ((drain_loop env s)\<lparr>s_draining := False\<rparr>)"
  using assms
  by (rule drain_loop_keeps[where P = "\<lambda>s. session_inv (s\<lparr>s_draining := False\<rparr>)"])
    (simp_all add: drain_finish_inv session_inv_effect_draining)

text \<open>The drain has ended when its loop has.\<close>

lemma drain_loop_ends: "\<not> s_draining (drain_loop env s)"
proof (induction env s rule: drain_loop.induct)
  case (1 env s)
  obtain r s1 where t: "drain_take s = (r, s1)" by fastforce
  then show ?case
  proof (cases rule: drain_take_cases)
    case 1
    with t show ?thesis by (subst drain_loop.simps) simp
  next
    case (2 q rest)
    obtain c s2 where c: "drain_consume env q s1 = (c, s2)" by fastforce
    show ?thesis
      using "1.IH"[OF t[symmetric] 2(1) c[symmetric]] t 2(1) c
      by (cases c; subst drain_loop.simps) (simp_all add: drain_finish_def)
  qed
qed

lemma session_inv_drain:
  assumes "session_inv s"
  shows "session_inv (drainQueue env s)"
proof -
  let ?t = "drain_loop env (s\<lparr>s_draining := True\<rparr>)"
  have "session_inv (?t\<lparr>s_draining := False\<rparr>)"
    using assms by (intro session_inv_drain_loop) (simp add: session_inv_not_draining)
  then have "session_inv ?t" by (simp add: not_draining drain_loop_ends)
  with assms show ?thesis by (simp add: drainQueue_def drain_enter_def)
qed

subsection \<open>Control messages\<close>

lemma session_inv_consumer_reset:
  assumes "session_inv (s\<lparr>s_resettingConsumer := False\<rparr>)"
  shows "session_inv ((resetConsumer c g s)\<lparr>s_resettingConsumer := False\<rparr>)"
  using assms by (simp add: resetConsumer_def effect_def inv_defs comp_def cong: option.case_cong)

lemma session_inv_or_failure:
  "session_inv (snd r) \<Longrightarrow>
   session_inv (case r of (hr, s) \<Rightarrow> if \<not> succeeded hr then protocolFailure d s else s)"
  by (auto simp: session_inv_protocolFailure split: prod.splits)

lemma session_inv_snd_send: "session_inv s \<Longrightarrow> session_inv (snd (sendControl_on env m ch s))"
  by (cases "sendControl_on env m ch s") (simp add: session_inv_send)

lemma session_inv_format_ack:
  assumes "session_inv s" and "m_trusted s" and "m_state s = Ready \<or> m_state s = Streaming"
  shows "session_inv (handleFormatAck env message s)"
proof (cases "parseFormatAck message")
  case None
  then show ?thesis using assms by (simp add: handleFormatAck_def session_inv_malformed)
next
  case g: (Some generation)
  show ?thesis
  proof (cases "\<exists>applied. s_pendingStreamConfig s = Some applied \<and> m_pendingFormatGeneration s = generation \<and>
      \<not> s_resettingConsumer s")
    case False
    then show ?thesis using g assms
      by (auto simp: handleFormatAck_def session_inv_protocolFailure split: option.splits)
  next
    case True
    then obtain applied where p: "s_pendingStreamConfig s = Some applied"
      "m_pendingFormatGeneration s = generation" "\<not> s_resettingConsumer s" by blast
    let ?s = "(resetQueueLocked True s)\<lparr>s_streamConfig := applied, s_pendingStreamConfig := None,
                            m_streamGeneration := generation, m_pendingFormatGeneration := 0,
                            m_waitingForKeyframe := True, s_resettingConsumer := True,
                            s_receivedVideo := False, s_lastActivity := sv_now env,
                            s_streamingAt := sv_now env, s_lastVideoAt := sv_now env\<rparr>"
    have "session_inv (?s\<lparr>s_resettingConsumer := False\<rparr>)"
      using assms p by (auto simp: resetQueueLocked_def inv_defs split: option.splits)
    then have "session_inv ((resetConsumer applied generation ?s)\<lparr>s_resettingConsumer := False\<rparr>)"
      by (rule session_inv_consumer_reset)
    then show ?thesis using g p
      by (auto simp: handleFormatAck_def Let_def intro!: session_inv_or_failure session_inv_snd_send)
  qed
qed

lemma session_inv_format_reject:
  assumes "session_inv s" and "m_trusted s" and "m_state s = Ready \<or> m_state s = Streaming"
  shows "session_inv (handleFormatReject env message s)"
proof -
  have "session_inv ((resetQueueLocked True s)\<lparr>s_pendingStreamConfig := None, m_pendingFormatGeneration := 0,
                       m_waitingForKeyframe := True, s_receivedVideo := False,
                       s_lastActivity := sv_now env, s_streamingAt := sv_now env,
                       s_lastVideoAt := sv_now env\<rparr>)"
    using assms by (auto simp: resetQueueLocked_def inv_defs split: option.splits)
  then show ?thesis using assms
    by (auto simp: handleFormatReject_def Let_def session_inv_malformed session_inv_protocolFailure
        intro!: session_inv_or_failure session_inv_snd_send split: option.splits)
qed

text \<open>Fields that the invariant does not read.\<close>

lemma session_inv_activity:
  "session_inv s \<Longrightarrow> session_inv (s\<lparr>s_lastActivity := t\<rparr>)"
  "session_inv s \<Longrightarrow> session_inv (s\<lparr>s_caps := c, s_lastActivity := t\<rparr>)"
  "session_inv s \<Longrightarrow> session_inv (s\<lparr>m_controlMessages := n\<rparr>)"
  "session_inv s \<Longrightarrow> session_inv (s\<lparr>m_droppedFrames := n\<rparr>)"
  "session_inv s \<Longrightarrow> session_inv (s\<lparr>s_hasConsumer := h\<rparr>)"
  "session_inv s \<Longrightarrow> session_inv (s\<lparr>s_watchdog := h\<rparr>)"
  by (simp_all add: inv_defs comp_def cong: option.case_cong)

lemma session_inv_reported: "session_inv s \<Longrightarrow> session_inv (reported env ok m k d s)"
  by (simp add: reported_def session_inv_malformed session_inv_activity)

lemma session_inv_stream_start:
  assumes "session_inv s"
  shows "session_inv (handleStreamStart env message s)"
proof (cases "msg_fields message = [] \<and> m_state s = Ready \<and> s_pendingStreamConfig s = None \<and> \<not> s_resettingConsumer s")
  case True
  let ?s = "s\<lparr>m_state := Streaming, s_resettingConsumer := True, s_streamingAt := sv_now env,
                   s_lastVideoAt := sv_now env, s_lastActivity := sv_now env,
                   s_receivedVideo := False\<rparr>"
  have "session_inv (?s\<lparr>s_resettingConsumer := False\<rparr>)"
    using assms True by (auto simp: inv_defs comp_def split: option.splits)
  then have "session_inv ((resetConsumer (s_streamConfig s) (m_streamGeneration s) ?s)\<lparr>s_resettingConsumer := False\<rparr>)"
    by (rule session_inv_consumer_reset)
  then show ?thesis using True by (simp add: handleStreamStart_def Let_def)
next
  case False
  then show ?thesis using assms
    by (auto simp: handleStreamStart_def Let_def session_inv_malformed session_inv_protocolFailure)
qed

lemma session_inv_report: "session_inv s \<Longrightarrow> session_inv (handleReport env message s)"
  by (simp add: handleReport_def session_inv_malformed session_inv_activity session_inv_stream_start
      session_inv_reported split: option.split)

subsection \<open>The handshake\<close>

lemma session_inv_security:
  "session_inv s \<Longrightarrow> (sec = None \<longleftrightarrow> s_security s = None) \<Longrightarrow> session_inv (s\<lparr>s_security := sec\<rparr>)"
  by (auto simp: inv_defs comp_def split: option.splits)

text \<open>Every way the trust decision can end.\<close>

lemma hello_trust_cases:
  assumes "hello_trust env peer parsed s = (r, s')"
  obtains policy where "s_trustPolicy s = Some policy" and "s' = s"
      and "r = Some (tp_trusted policy parsed, tp_trusted policy parsed \<and> \<not> tp_allowsUnauthenticated policy,
             tp_allowsUnauthenticated policy, None)"
  | "s_trustPolicy s = None" and "s_security s = None" and "s' = s" and "r = Some (False, False, False, None)"
  | security e security' where "s_trustPolicy s = None" and "s_security s = Some security"
      and "r = None" and "e \<noteq> NotFound"
      and "beginAuthentication (sv_security env) (sourceAddress peer) (h_deviceId parsed) (sv_unix env) security
             = (Inl e, security')"
      and "s' = protocolFailure ''could not begin authenticated session''
             (notify ''security.authentication_failed'' (sec_errorText e) (s\<lparr>s_security := Some security'\<rparr>))"
  | security security' where "s_trustPolicy s = None" and "s_security s = Some security"
      and "s' = s\<lparr>s_security := Some security'\<rparr>" and "r = Some (False, False, False, None)"
      and "beginAuthentication (sv_security env) (sourceAddress peer) (h_deviceId parsed) (sv_unix env) security
             = (Inl NotFound, security')"
  | security security' c where "s_trustPolicy s = None" and "s_security s = Some security"
      and "s' = s\<lparr>s_security := Some security'\<rparr>" and "r = Some (False, True, False, Some c)"
      and "beginAuthentication (sv_security env) (sourceAddress peer) (h_deviceId parsed) (sv_unix env) security
             = (Inr c, security')"
proof (cases "s_trustPolicy s")
  case (Some policy)
  with assms show ?thesis by (intro that(1)) (auto simp: hello_trust_def Let_def)
next
  case p: None
  show ?thesis
  proof (cases "s_security s")
    case None
    with p assms show ?thesis by (intro that(2)) (auto simp: hello_trust_def Let_def)
  next
    case (Some security)
    obtain b security' where b: "beginAuthentication (sv_security env) (sourceAddress peer)
        (h_deviceId parsed) (sv_unix env) security = (b, security')" by fastforce
    show ?thesis
    proof (cases b)
      case (Inl e)
      show ?thesis
      proof (cases "e = NotFound")
        case True
        with p Some b Inl assms show ?thesis by (intro that(4)) (auto simp: hello_trust_def Let_def)
      next
        case False
        with p Some b Inl assms show ?thesis by (intro that(3)) (auto simp: hello_trust_def Let_def)
      qed
    next
      case (Inr c)
      with p Some b assms show ?thesis by (intro that(5)) (auto simp: hello_trust_def Let_def)
    qed
  qed
qed

lemma hello_trust_decided:
  assumes "hello_trust env peer parsed s = (Some (trusted, paired, allow, c), s')"
  obtains sec where "s' = s\<lparr>s_security := sec\<rparr>" and "sec = None \<longleftrightarrow> s_security s = None"
    and "trusted \<Longrightarrow> \<exists>policy. s_trustPolicy s = Some policy \<and> tp_trusted policy parsed"
proof -
  from assms have "s' = s\<lparr>s_security := s_security s'\<rparr>"
    and "s_security s' = None \<longleftrightarrow> s_security s = None"
    and "trusted \<Longrightarrow> \<exists>policy. s_trustPolicy s = Some policy \<and> tp_trusted policy parsed"
    by (cases rule: hello_trust_cases; simp)+
  then show ?thesis by (rule that)
qed

text \<open>The state after the decision, when there is one, and before the answers are sent.\<close>

lemma session_inv_hello_decided:
  assumes "session_inv s" and "m_state s = AwaitingHello"
    and "hello_trust env peer parsed s = (Some (trusted, paired, allow, c), s')"
  shows "session_inv (s'\<lparr>s_hello := Some parsed, m_trusted := trusted,
           m_state := (if trusted then Ready else AwaitingTrust), s_lastActivity := t1,
           s_trustAt := t2, s_readyAt := t3\<rparr>)"
proof -
  from assms(1,2) have i: "\<not> m_trusted s" "s_protector s = None" "s_queue s = []"
    "s_pendingStreamConfig s = None" "m_pendingFormatGeneration s = 0" "s_connection s \<noteq> None"
    "stream_config_valid (s_streamConfig s)" "m_queueDepth s = 0" "m_queueBytes s = 0"
    "\<not> s_draining s" "\<not> s_resettingConsumer s" "s_trustPolicy s = None \<or> s_security s = None"
    by (auto simp: inv_defs split: option.splits)
  obtain sec where s': "s' = s\<lparr>s_security := sec\<rparr>" and sec: "sec = None \<longleftrightarrow> s_security s = None"
    and t: "trusted \<Longrightarrow> \<exists>policy. s_trustPolicy s = Some policy \<and> tp_trusted policy parsed"
    using hello_trust_decided[OF assms(3)] by blast
  show ?thesis
  proof (cases trusted)
    case True
    then obtain policy where "s_trustPolicy s = Some policy" "tp_trusted policy parsed" using t by blast
    then show ?thesis using i sec True unfolding s' by (simp add: inv_defs)
  next
    case False
    then show ?thesis using i sec unfolding s' by (simp add: inv_defs)
  qed
qed

lemma session_inv_hello:
  assumes "session_inv s" and "m_state s = AwaitingHello"
  shows "session_inv (handleHello env peer message s)"
proof (cases "parseHello message")
  case None
  then show ?thesis using assms by (simp add: handleHello_def session_inv_protocolFailure)
next
  case (Some parsed)
  obtain r s1 where h: "hello_trust env peer parsed s = (r, s1)" by fastforce
  show ?thesis
  proof (cases r)
    case None
    have "session_inv s1" using h[unfolded None]
      by (cases rule: hello_trust_cases)
        (simp_all add: assms session_inv_protocolFailure session_inv_security)
    then show ?thesis using Some h None assms by (simp add: handleHello_def session_inv_protocolFailure)
  next
    case d: (Some d)
    obtain trusted paired allow c where "d = (trusted, paired, allow, c)" by (cases d) auto
    note hd = h[unfolded d this]
    note i = session_inv_hello_decided[OF assms hd]
    show ?thesis
    proof (cases trusted)
      case True
      with i Some hd assms show ?thesis
        by (simp add: handleHello_def Let_def case_prod_beta session_inv_snd_send
            session_inv_protocolFailure split: option.split)
    next
      case False
      with i[where ?t3.0 = "s_readyAt s1"] Some hd assms show ?thesis
        by (simp add: handleHello_def Let_def case_prod_beta session_inv_snd_send
            session_inv_protocolFailure split: option.split)
    qed
  qed
qed

lemma session_inv_authenticated:
  assumes "session_inv s" and "m_state s = AwaitingTrust" and "s_trustPolicy s = None"
  shows "session_inv (s\<lparr>s_protector := Some p, m_trusted := True, m_state := Ready,
           s_readyAt := t1, s_lastActivity := t2\<rparr>)"
proof -
  from assms have i: "\<not> m_trusted s" "s_queue s = []" "s_hello s \<noteq> None"
    "s_pendingStreamConfig s = None" "m_pendingFormatGeneration s = 0" "s_connection s \<noteq> None"
    "stream_config_valid (s_streamConfig s)" "m_queueDepth s = 0" "m_queueBytes s = 0"
    "\<not> s_draining s" "\<not> s_resettingConsumer s"
    by (auto simp: inv_defs split: option.splits)
  then show ?thesis using assms(3) by (simp add: inv_defs)
qed

lemma sendControl_on_snd:
  "snd (sendControl_on env m ch s) =
     s\<lparr>s_protector := s_protector (snd (sendControl_on env m ch s)),
       s_out := s_out (snd (sendControl_on env m ch s))\<rparr>"
  by (cases "sendControl_on env m ch s") (auto elim: sendControl_on_frame)

text \<open>A send leaves every field but the protector and the trace.\<close>

lemma sendControl_on_fields [simp]:
  "m_state (snd (sendControl_on env m ch s)) = m_state s"
  "m_trusted (snd (sendControl_on env m ch s)) = m_trusted s"
  "m_streamGeneration (snd (sendControl_on env m ch s)) = m_streamGeneration s"
  "m_pendingFormatGeneration (snd (sendControl_on env m ch s)) = m_pendingFormatGeneration s"
  "m_waitingForKeyframe (snd (sendControl_on env m ch s)) = m_waitingForKeyframe s"
  "s_trustPolicy (snd (sendControl_on env m ch s)) = s_trustPolicy s"
  "s_security (snd (sendControl_on env m ch s)) = s_security s"
  "s_config (snd (sendControl_on env m ch s)) = s_config s"
  "s_hello (snd (sendControl_on env m ch s)) = s_hello s"
  "s_caps (snd (sendControl_on env m ch s)) = s_caps s"
  "s_queue (snd (sendControl_on env m ch s)) = s_queue s"
  "s_streamConfig (snd (sendControl_on env m ch s)) = s_streamConfig s"
  "s_pendingStreamConfig (snd (sendControl_on env m ch s)) = s_pendingStreamConfig s"
  "s_connection (snd (sendControl_on env m ch s)) = s_connection s"
  "s_hasConsumer (snd (sendControl_on env m ch s)) = s_hasConsumer s"
  "s_watchdog (snd (sendControl_on env m ch s)) = s_watchdog s"
  by (subst sendControl_on_snd, simp)+

lemma session_inv_auth_response:
  assumes "session_inv s" and "m_state s = AwaitingTrust"
  shows "session_inv (handleAuthResponse env peer message s)"
proof (cases "\<exists>r i sec. parseAuthResponse message = Some r \<and> s_hello s = Some i \<and> s_security s = Some sec")
  case False
  then show ?thesis using assms
    by (auto simp: handleAuthResponse_def session_inv_malformed session_inv_protocolFailure
        split: option.splits)
next
  case True
  then obtain response identity security where m: "parseAuthResponse message = Some response"
    "s_hello s = Some identity" "s_security s = Some security" by blast
  obtain b security' where f: "finishAuthentication (sv_security env) (sourceAddress peer)
      (h_deviceId identity) (ar_clientNonce response) (ar_clientProof response) (sv_unix env) security
      = (b, security')" by fastforce
  have i: "session_inv (s\<lparr>s_security := Some security'\<rparr>)"
    by (rule session_inv_security) (simp_all add: assms m)
  have t: "s_trustPolicy s = None" using assms(1) m by (simp add: session_inv_def trust_inv_def)
  show ?thesis
  proof (cases b)
    case (Inl e)
    then show ?thesis using m f i by (simp add: handleAuthResponse_def session_inv_protocolFailure)
  next
    case (Inr authenticated)
    then show ?thesis using m f i t assms(2)
      by (simp add: handleAuthResponse_def Let_def case_prod_beta session_inv_snd_send
          session_inv_protocolFailure session_inv_authenticated)
  qed
qed

lemma session_inv_if:
  "(c \<Longrightarrow> session_inv a) \<Longrightarrow> (\<not> c \<Longrightarrow> session_inv b) \<Longrightarrow> session_inv (if c then a else b)"
  by simp

lemma session_inv_control:
  assumes "session_inv s"
  shows "session_inv (handleControl env peer fr s)"
proof (cases "message_decode (fr_payload fr)")
  case (Inl e)
  then show ?thesis using assms
    by (simp add: handleControl_def session_inv_malformed split: prod.split)
next
  case (Inr message)
  let ?s = "s\<lparr>m_controlMessages := m_controlMessages s + 1\<rparr>"
  have i: "session_inv ?s" by (rule session_inv_activity) (rule assms)
  have t: "m_trusted ?s" "m_state ?s = Ready \<or> m_state ?s = Streaming"
    if "\<not> \<not> m_trusted ?s" "\<not> (m_state ?s \<noteq> Ready \<and> m_state ?s \<noteq> Streaming)"
    using that by auto
  have a: "m_state ?s = AwaitingTrust" if "\<not> (m_state ?s \<noteq> AwaitingTrust \<or> s_security ?s = None)"
    using that by auto
  show ?thesis
    unfolding handleControl_def Inr sum.case Let_def
    by (intro session_inv_if session_inv_protocolFailure[OF i] session_inv_hello[OF i]
        session_inv_auth_response[OF i a] session_inv_format_ack[OF i t]
        session_inv_format_reject[OF i t] session_inv_report[OF i])
      (simp_all only: not_not not_False_eq_True session_inv_effects i)
qed

subsection \<open>Video and frames\<close>

lemma session_inv_received:
  assumes "session_inv s"
  shows "session_inv (s\<lparr>m_waitingForKeyframe := (if k then False else m_waitingForKeyframe s),
           s_lastActivity := t1, s_lastVideoAt := t2, s_receivedVideo := True\<rparr>)"
  using assms by (auto simp: inv_defs comp_def split: option.splits)

text \<open>A unit that passed every check and fits is queued.\<close>

lemma session_inv_enqueue:
  assumes "session_inv s" and "unit_ok s u" and "m_trusted s" and "s_pendingStreamConfig s = None"
    and "\<not> m_waitingForKeyframe s" and "length (s_queue s) < maxQueuedAccessUnits (s_config s)"
    and "m_queueBytes s + length (eu_bytes u) \<le> maxQueuedBytes (s_config s)"
  shows "session_inv (s\<lparr>s_queue := s_queue s @ [(token, u)], s_nextQueueToken := n,
           m_queueDepth := Suc (length (s_queue s)),
           m_queueBytes := m_queueBytes s + length (eu_bytes u), m_videoFrames := v, m_videoBytes := b\<rparr>)"
  (is "session_inv ?t")
proof -
  have "trust_inv ?t" "format_inv ?t"
    using assms(1)
    by (simp_all add: session_inv_def trust_inv_def format_inv_def authorised_def live_def
        cong: option.case_cong)
  moreover have "queue_inv ?t"
    using assms by (clarsimp simp: session_inv_def queue_inv_def unit_ok_def comp_def Let_def)
  ultimately show ?thesis by (simp add: session_inv_def)
qed

text \<open>The ways a video frame can go, and the session after the checks and with the unit queued.\<close>

definition received :: "session_env \<Rightarrow> frame \<Rightarrow> session \<Rightarrow> session" where
  "received env fr s = s\<lparr>m_waitingForKeyframe := (if isKeyframe fr then False else m_waitingForKeyframe s),
     s_lastActivity := sv_now env, s_lastVideoAt := sv_now env, s_receivedVideo := True\<rparr>"

definition unit_of :: "frame \<Rightarrow> session \<Rightarrow> encoded_access_unit" where
  "unit_of fr s = \<lparr>eu_bytes = fr_payload fr, eu_codec = sc_codec (s_streamConfig s),
     eu_keyframe = isKeyframe fr, eu_pts = fr_ptsMicros fr, eu_generation = m_streamGeneration s\<rparr>"

definition enqueued :: "frame \<Rightarrow> session \<Rightarrow> session" where
  "enqueued fr s = s\<lparr>s_queue := s_queue s @ [(s_nextQueueToken s, unit_of fr s)],
     s_nextQueueToken := s_nextQueueToken s + 1, m_queueDepth := Suc (length (s_queue s)),
     m_queueBytes := m_queueBytes s + length (fr_payload fr), m_videoFrames := m_videoFrames s + 1,
     m_videoBytes := m_videoBytes s + word_of_nat (length (fr_payload fr))\<rparr>"

definition dropped :: "session \<Rightarrow> session" where
  "dropped s = s\<lparr>m_droppedFrames := m_droppedFrames s + 1\<rparr>"

lemma handleVideo_cases:
  obtains (unauthenticated) "\<not> m_trusted s" and "handleVideo env fr s = notify ''video.unauthenticated'' ''ignored'' s"
  | (out_of_state) detail where "m_trusted s" and "handleVideo env fr s = notify ''video.out_of_state'' detail (dropped s)"
  | (invalid) reason where "m_trusted s" and "m_state s = Streaming"
      and "handleVideo env fr s = snd (sendControl_on env requestKeyframe channelControl
             (notify ''video.invalid'' reason (resetQueueLocked True (dropped s))))"
  | (waiting) "m_trusted s" and "m_state s = Streaming" and "m_waitingForKeyframe s" and "\<not> isKeyframe fr"
      and "handleVideo env fr s = dropped s"
  | (overflow) "m_trusted s" and "m_state s = Streaming"
      and "handleVideo env fr s = snd (sendControl_on env requestKeyframe channelControl
             (notify ''video.backpressure'' ''queue flushed; recovery keyframe requested''
               (dropped (resetQueueLocked True (received env fr s)))))"
  | (queued) "m_trusted s" and "m_state s = Streaming" and "s_pendingStreamConfig s = None"
      and "\<not> s_resettingConsumer s" and "unit_ok s (unit_of fr s)" and "\<not> m_waitingForKeyframe (received env fr s)"
      and "length (s_queue s) < maxQueuedAccessUnits (s_config s)"
      and "m_queueBytes s + length (fr_payload fr) \<le> maxQueuedBytes (s_config s)"
      and "handleVideo env fr s = drainQueue env (enqueued fr (received env fr s))"
proof (cases "m_trusted s \<and> m_state s = Streaming \<and> s_pendingStreamConfig s = None \<and> \<not> s_resettingConsumer s")
  case False
  then show ?thesis
    by (cases "m_trusted s") (auto simp: handleVideo_def dropped_def Let_def intro: unauthenticated out_of_state)
next
  case active: True
  let ?report = "inspect (fr_payload fr) (annexb_of (sc_codec (s_streamConfig s)))"
  let ?bad = "\<not> isAnnexB ?report \<or> \<not> hasVideoSlice ?report \<or>
    \<not> (isKeyframe fr = hasKeyframeSlice ?report) \<or> (isKeyframe fr \<and> \<not> isSelfContainedKeyframe ?report)"
  let ?wait = "m_waitingForKeyframe s \<and> \<not> isKeyframe fr"
  let ?full = "length (s_queue s) \<ge> maxQueuedAccessUnits (s_config s) \<or>
      m_queueBytes s + length (fr_payload fr) > maxQueuedBytes (s_config s)"
  have inactive: "(\<not> m_trusted s) = False"
    "(m_state s \<noteq> Streaming \<or> s_pendingStreamConfig s \<noteq> None \<or> s_resettingConsumer s) = False"
    using active by auto
  define reason where "reason =
      (if isAnnexB ?report \<and> \<not> hasVideoSlice ?report then ''access unit has no video slice''
       else if isAnnexB ?report \<and> \<not> (isKeyframe fr = hasKeyframeSlice ?report)
       then ''keyframe flag disagrees with the bitstream''
       else if isAnnexB ?report then ''keyframe is not independently decodable''
       else ''payload is not Annex-B'')"
  have selectors: "s_queue (received env fr s) = s_queue s" "s_config (received env fr s) = s_config s"
    "m_queueBytes (received env fr s) = m_queueBytes s" "m_trusted (received env fr s) = m_trusted s"
    "s_nextQueueToken (received env fr s) = s_nextQueueToken s" "m_videoFrames (received env fr s) = m_videoFrames s"
    "m_videoBytes (received env fr s) = m_videoBytes s" "s_streamConfig (received env fr s) = s_streamConfig s"
    "m_streamGeneration (received env fr s) = m_streamGeneration s"
    by (simp_all add: received_def unit_of_def)
  have eq: "handleVideo env fr s =
      (if ?bad then snd (sendControl_on env requestKeyframe channelControl
             (notify ''video.invalid'' reason (resetQueueLocked True (dropped s))))
       else if ?wait then dropped s
       else if ?full then snd (sendControl_on env requestKeyframe channelControl
             (notify ''video.backpressure'' ''queue flushed; recovery keyframe requested''
               (dropped (resetQueueLocked True (received env fr s)))))
       else drainQueue env (enqueued fr (received env fr s)))"
    unfolding handleVideo_def Let_def inactive if_False reason_def[symmetric] dropped_def[symmetric]
      received_def[symmetric] enqueued_def selectors unit_of_def ..
  consider "?bad" | "\<not> ?bad" "?wait" | "\<not> ?bad" "\<not> ?wait" "?full" | "\<not> ?bad" "\<not> ?wait" "\<not> ?full"
    by blast
  then show ?thesis
  proof cases
    case 1
    note e = eq[unfolded if_P[OF 1]]
    show ?thesis using active by (intro invalid[OF _ _ e]) simp_all
  next
    case 2
    note e = eq[unfolded if_not_P[OF 2(1)] if_P[OF 2(2)]]
    show ?thesis using active 2(2) by (intro waiting[OF _ _ _ _ e]) simp_all
  next
    case 3
    note e = eq[unfolded if_not_P[OF 3(1)] if_not_P[OF 3(2)] if_P[OF 3(3)]]
    show ?thesis using active by (intro overflow[OF _ _ e]) simp_all
  next
    case 4
    note e = eq[unfolded if_not_P[OF 4(1)] if_not_P[OF 4(2)] if_not_P[OF 4(3)]]
    have "unit_ok s (unit_of fr s)" using 4(1) by (simp add: unit_ok_def unit_of_def)
    moreover have "\<not> m_waitingForKeyframe (received env fr s)" using 4(2) by (auto simp: received_def)
    ultimately show ?thesis using active 4(3) by (intro queued[OF _ _ _ _ _ _ _ _ e]) simp_all
  qed
qed

lemma session_inv_dropped: "session_inv s \<Longrightarrow> session_inv (dropped s)"
  by (simp add: dropped_def session_inv_activity)

lemma session_inv_checked: "session_inv s \<Longrightarrow> session_inv (received env fr s)"
  unfolding received_def by (rule session_inv_received)

lemma session_inv_queued:
  assumes "session_inv s" and "m_trusted s" and "s_pendingStreamConfig s = None"
    and "unit_ok s (unit_of fr s)" and "\<not> m_waitingForKeyframe (received env fr s)"
    and "length (s_queue s) < maxQueuedAccessUnits (s_config s)"
    and "m_queueBytes s + length (fr_payload fr) \<le> maxQueuedBytes (s_config s)"
  shows "session_inv (enqueued fr (received env fr s))"
proof -
  have u: "unit_ok (received env fr s) (unit_of fr s)" using assms(4) by (auto simp: unit_ok_def received_def Let_def)
  have "unit_of fr (received env fr s) = unit_of fr s" "eu_bytes (unit_of fr s) = fr_payload fr"
    by (simp_all add: unit_of_def received_def)
  then show ?thesis
    using session_inv_enqueue[OF session_inv_checked[OF assms(1)] u] assms
    by (simp add: enqueued_def received_def)
qed

lemma session_inv_video: "session_inv s \<Longrightarrow> session_inv (handleVideo env fr s)"
  by (cases env fr s rule: handleVideo_cases)
    (simp_all add: session_inv_checked session_inv_queued session_inv_drain session_inv_snd_send
      session_inv_reset_queue session_inv_dropped)

lemma session_inv_dispatch: "session_inv s \<Longrightarrow> session_inv (dispatch_frame env peer fr s)"
  by (simp add: dispatch_frame_def session_inv_protocolFailure session_inv_video session_inv_control)

lemma session_inv_frame: "session_inv s \<Longrightarrow> session_inv (onFrame env peer fr s)"
  by (auto simp: onFrame_def session_inv_protocolFailure session_inv_dispatch session_inv_protector
      split: option.split prod.split sum.split)

subsection \<open>Connections, the UI and the watchdog\<close>

text \<open>What no operation changes: the configuration, and which of the two kinds of trust there is.\<close>

lemma session_inv_connected:
  assumes "session_inv s"
  shows "session_inv (onConnected env peer s)"
proof -
  have "s_trustPolicy s = None \<or> s_security s = None"
    using assms by (simp add: session_inv_def trust_inv_def)
  then show ?thesis by (auto simp: onConnected_def Let_def session_inv_activity inv_defs notify_def
        close_connection_def effect_def)
qed

lemma session_inv_disconnected: "session_inv s \<Longrightarrow> session_inv (onDisconnected orderly s)"
  by (simp add: onDisconnected_def Let_def) (simp add: resetQueueLocked_def inv_defs)

lemma session_inv_sendControl: "session_inv s \<Longrightarrow> session_inv (snd (sendControl env m ch s))"
  by (simp add: sendControl_def session_inv_snd_send)

lemma session_inv_format_pending:
  assumes "session_inv s" and "m_trusted s" and "m_state s = Streaming" and "stream_config_valid config"
  shows "session_inv (resetQueueLocked True (s\<lparr>s_nextFormatGeneration := n, s_pendingStreamConfig := Some config,
           m_pendingFormatGeneration := g, s_pendingFormatAt := t\<rparr>))"
  using assms by (simp add: resetQueueLocked_def inv_defs cong: option.case_cong)

lemma session_inv_format_cancelled:
  assumes "session_inv s" and "s_pendingStreamConfig s \<noteq> None"
  shows "session_inv (s\<lparr>s_pendingStreamConfig := None, m_pendingFormatGeneration := 0\<rparr>)"
  using assms by (auto simp: inv_defs comp_def split: option.splits)

lemma session_inv_sendFormat:
  assumes "session_inv s"
  shows "session_inv (snd (sendFormat env config s))"
  using assms
  by (simp add: sendFormat_def Let_def case_prod_beta session_inv_snd_send session_inv_format_pending
      session_inv_format_cancelled resetQueueLocked_def[THEN arg_cong[where f = s_pendingStreamConfig]])

lemma session_inv_setConsumer:
  assumes "session_inv s"
  shows "session_inv (setConsumer env present s)"
proof -
  have i: "session_inv (s\<lparr>s_hasConsumer := present\<rparr>)" by (rule session_inv_activity) (rule assms)
  have r: "s\<lparr>s_hasConsumer := present, s_resettingConsumer := False\<rparr> = s\<lparr>s_hasConsumer := present\<rparr>"
    using assms by (simp add: session_inv_def queue_inv_def)
  have "session_inv ((resetConsumer c g (s\<lparr>s_hasConsumer := present, s_resettingConsumer := True\<rparr>))
      \<lparr>s_resettingConsumer := False\<rparr>)" for c g
    by (rule session_inv_consumer_reset) (use i r in simp)
  then show ?thesis using i
    by (cases present) (simp_all add: setConsumer_def Let_def session_inv_drain)
qed

lemma session_inv_watchdog: "session_inv s \<Longrightarrow> session_inv (watchdog_tick env s)"
  by (auto simp: watchdog_tick_def session_inv_failed session_inv_activity split: option.split)

lemma session_step_inv: "session_inv s \<Longrightarrow> session_inv (session_step s e)"
  by (cases e) (simp_all add: session_inv_connected session_inv_frame session_inv_disconnected
      session_inv_sendControl session_inv_sendFormat session_inv_setConsumer session_inv_watchdog
      sendPreview_def sendCamera_def sendControls_def sendStats_def session_requestKeyframe_def)

interpretation session_machine: machine session_step session_inv
  by unfold_locales (rule session_step_inv)

end
