(* ===== verification/SessionDemo.thy ===== *)
theory SessionDemo
  imports SessionInv
begin

text \<open>
  A sample session, up to the first frames of video, at which the properties of the session are
  applied: a PC with the pairing opt-out, and a phone that takes it.
\<close>

definition demo_env :: "time_point \<Rightarrow> bool \<Rightarrow> session_env" where
  "demo_env now consumes = \<lparr>sv_now = now, sv_unix = 1000, sv_security = toy_env,
     sv_send = (\<lambda>_. True), sv_consume = (\<lambda>_. consumes)\<rparr>"

definition demo_policy :: trust_policy where
  "demo_policy = \<lparr>tp_trusted = h_allowUnauthenticated, tp_allowsUnauthenticated = True\<rparr>"

definition demo_hello :: hello_values where
  "demo_hello = sample_hello\<lparr>h_allowUnauthenticated := True\<rparr>"

definition control_frame :: "message \<Rightarrow> frame" where
  "control_frame m = \<lparr>fr_channel = channelControl, fr_flags = 0, fr_ptsMicros = 0,
     fr_payload = message_encode m\<rparr>"

definition demo_new :: session where
  "demo_new = session_with_policy default_session_config demo_policy True"

text \<open>A connection up to streaming, from any state of the controller with that policy and consumer.\<close>

definition demo_controller :: "session \<Rightarrow> bool" where
  "demo_controller s \<longleftrightarrow> s_config s = default_session_config \<and> s_trustPolicy s = Some demo_policy \<and>
     s_hasConsumer s"

definition connect_demo :: "session \<Rightarrow> session" where
  "connect_demo s = session_step s (OpConnected (demo_env 0 True) ''10.0.0.2:5000'')"

definition greet_demo :: "session \<Rightarrow> session" where
  "greet_demo s = session_step s
     (OpFrame (demo_env 1 True) ''10.0.0.2:5000'' (control_frame (hello_message demo_hello)))"

definition start_demo :: "session \<Rightarrow> session" where
  "start_demo s = session_step s
     (OpFrame (demo_env 2 True) ''10.0.0.2:5000'' (control_frame streamStart))"

definition demo_connected :: session where
  "demo_connected = connect_demo demo_new"

definition demo_ready :: session where
  "demo_ready = greet_demo demo_connected"

definition demo_streaming :: session where
  "demo_streaming = start_demo demo_ready"

lemma control_frame_decodes:
  "message_ok m \<Longrightarrow> length (message_encode m) div 1024 = 0 \<Longrightarrow> message_decode (fr_payload (control_frame m)) = Inr m"
  by (simp add: control_frame_def message_decode_encode payload_bound)

lemma control_frame_flags [simp]:
  "fr_flags (control_frame m) = 0" "fr_channel (control_frame m) = channelControl"
  "isKeyframe (control_frame m) = False"
  by (simp_all add: control_frame_def isKeyframe_def)

lemma demo_hello_ok: "hello_ok demo_hello"
proof -
  have "validDeviceId ''0123456789abcdef''" by code_simp
  then show ?thesis
    by (simp add: hello_ok_def demo_hello_def sample_hello_def kProtocolVersion_def texts_ok_def
        kMaxCollectionElements_nat ascii_text_ok)
qed

lemma demo_hello_decodes:
  "message_decode (fr_payload (control_frame (hello_message demo_hello))) = Inr (hello_message demo_hello)"
  "parseHello (hello_message demo_hello) = Some demo_hello"
proof -
  have "length (message_encode (hello_message demo_hello)) div 1024 = 0" by code_simp
  then show "message_decode (fr_payload (control_frame (hello_message demo_hello))) = Inr (hello_message demo_hello)"
    by (intro control_frame_decodes hello_codec.build_ok demo_hello_ok)
  show "parseHello (hello_message demo_hello) = Some demo_hello"
    by (rule hello_codec.parse_build) (rule demo_hello_ok)
qed

lemma stream_start_decodes: "message_decode (fr_payload (control_frame streamStart)) = Inr streamStart"
proof (rule control_frame_decodes)
  show "message_ok streamStart"
    unfolding streamStart_def makeMessage_def by (intro message_okI fields_ok_Nil)
      (simp_all add: ascii_text_ok kMaxCollectionElements_nat)
  show "length (message_encode streamStart) div 1024 = 0" by code_simp
qed

lemma default_config_ok:
  "validDeviceId (sn_serviceId default_session_config)" "stream_config_valid conservativeDefault"
proof -
  have "validDeviceId ''0000000000000000''" "stream_config_valid conservativeDefault" by code_simp+
  then show "validDeviceId (sn_serviceId default_session_config)"
    "stream_config_valid conservativeDefault"
    by (simp_all add: default_session_config_def)
qed

lemma default_config_limits:
  "initialStream default_session_config = conservativeDefault"
  "maxQueuedAccessUnits default_session_config = 8" "maxQueuedBytes default_session_config = 20971520"
  "encryptMedia default_session_config = False"
  by (simp_all add: default_session_config_def)

lemmas demo_simps = demo_env_def demo_policy_def kEndOfFragment_def kEncrypted_def channelControl_def
  channelVideo_def channelAudio_def channelStats_def notify_def effect_def close_connection_def
  sendControl_on_def connection_send_def succeeded_def resetConsumer_def

lemma connect_demo_state:
  assumes "demo_controller s"
  shows
  "m_state (connect_demo s) = AwaitingHello" "s_protector (connect_demo s) = None"
  "s_trustPolicy (connect_demo s) = Some demo_policy" "s_config (connect_demo s) = default_session_config"
  "s_connectedAt (connect_demo s) = 0" "s_pendingStreamConfig (connect_demo s) = None"
  "s_resettingConsumer (connect_demo s) = False" "s_streamConfig (connect_demo s) = conservativeDefault"
  "s_hasConsumer (connect_demo s)" "m_streamGeneration (connect_demo s) = 0" "s_queue (connect_demo s) = []"
  "\<not> s_draining (connect_demo s)" "m_waitingForKeyframe (connect_demo s)" "s_nextFormatGeneration (connect_demo s) = 1"
  "s_connection (connect_demo s) = Some ''10.0.0.2:5000''" "s_nextQueueToken (connect_demo s) = 1"
  "m_queueBytes (connect_demo s) = 0" "m_pendingFormatGeneration (connect_demo s) = 0"
  using assms
  by (simp_all add: connect_demo_def demo_controller_def onConnected_def default_config_ok
      default_config_limits Let_def demo_simps)

lemma demo_new_controller: "demo_controller demo_new"
  by (simp add: demo_controller_def demo_new_def session_with_policy_def new_session_def)

lemmas demo_connected_state = connect_demo_state[OF demo_new_controller, folded demo_connected_def]

lemma demo_hello_values:
  "msg_type (hello_message demo_hello) = ''hello''" "h_version demo_hello = kProtocolVersion"
  "h_allowUnauthenticated demo_hello"
  by (simp_all add: hello_message_def hello_def makeMessage_def Let_def demo_hello_def sample_hello_def
      kProtocolVersion_def)

lemma greet_demo_state:
  assumes "demo_controller s"
  shows
  "m_state (greet_demo (connect_demo s)) = Ready" "m_trusted (greet_demo (connect_demo s))" "s_protector (greet_demo (connect_demo s)) = None"
  "s_trustPolicy (greet_demo (connect_demo s)) = Some demo_policy" "s_config (greet_demo (connect_demo s)) = default_session_config"
  "s_readyAt (greet_demo (connect_demo s)) = 1" "s_pendingStreamConfig (greet_demo (connect_demo s)) = None"
  "s_resettingConsumer (greet_demo (connect_demo s)) = False" "s_streamConfig (greet_demo (connect_demo s)) = conservativeDefault"
  "s_hasConsumer (greet_demo (connect_demo s))" "m_streamGeneration (greet_demo (connect_demo s)) = 0" "s_queue (greet_demo (connect_demo s)) = []"
  "\<not> s_draining (greet_demo (connect_demo s))" "m_waitingForKeyframe (greet_demo (connect_demo s))" "s_nextFormatGeneration (greet_demo (connect_demo s)) = 1"
  "s_connection (greet_demo (connect_demo s)) = Some ''10.0.0.2:5000''" "s_nextQueueToken (greet_demo (connect_demo s)) = 1"
  "m_queueBytes (greet_demo (connect_demo s)) = 0" "m_pendingFormatGeneration (greet_demo (connect_demo s)) = 0"
  "s_hello (greet_demo (connect_demo s)) = Some demo_hello"
  by (simp_all add: greet_demo_def onFrame_def dispatch_frame_def handleControl_def demo_hello_decodes
      handleHello_def hello_trust_def demo_hello_values connect_demo_state[OF assms] Let_def demo_simps)

lemmas demo_ready_state = greet_demo_state[OF demo_new_controller, folded demo_connected_def demo_ready_def]

lemma stream_start_values: "msg_type streamStart = ''stream_start''" "msg_fields streamStart = []"
  by (simp_all add: streamStart_def makeMessage_def)

lemma start_demo_state:
  assumes "demo_controller s"
  shows
  "m_state (start_demo (greet_demo (connect_demo s))) = Streaming" "m_trusted (start_demo (greet_demo (connect_demo s)))" "s_protector (start_demo (greet_demo (connect_demo s))) = None"
  "s_trustPolicy (start_demo (greet_demo (connect_demo s))) = Some demo_policy" "s_config (start_demo (greet_demo (connect_demo s))) = default_session_config"
  "s_pendingStreamConfig (start_demo (greet_demo (connect_demo s))) = None"
  "s_resettingConsumer (start_demo (greet_demo (connect_demo s))) = False" "s_streamConfig (start_demo (greet_demo (connect_demo s))) = conservativeDefault"
  "s_hasConsumer (start_demo (greet_demo (connect_demo s)))" "m_streamGeneration (start_demo (greet_demo (connect_demo s))) = 0" "s_queue (start_demo (greet_demo (connect_demo s))) = []"
  "\<not> s_draining (start_demo (greet_demo (connect_demo s)))" "m_waitingForKeyframe (start_demo (greet_demo (connect_demo s)))" "s_nextFormatGeneration (start_demo (greet_demo (connect_demo s))) = 1"
  "s_connection (start_demo (greet_demo (connect_demo s))) = Some ''10.0.0.2:5000''" "s_nextQueueToken (start_demo (greet_demo (connect_demo s))) = 1"
  "m_queueBytes (start_demo (greet_demo (connect_demo s))) = 0" "m_pendingFormatGeneration (start_demo (greet_demo (connect_demo s))) = 0"
  by (simp_all add: start_demo_def onFrame_def dispatch_frame_def handleControl_def stream_start_decodes
      handleReport_def handleStreamStart_def isPcToPhoneMessage_def greet_demo_state[OF assms] Let_def
      demo_simps stream_start_values)

lemmas demo_streaming_state = start_demo_state[OF demo_new_controller,
  folded demo_connected_def demo_ready_def demo_streaming_def]

text \<open>An H.264 keyframe with its parameter sets, and a frame that depends on it.\<close>

definition demo_keyframe :: frame where
  "demo_keyframe = \<lparr>fr_channel = channelVideo, fr_flags = kKeyframe, fr_ptsMicros = 0,
     fr_payload = [0, 0, 0, 1, 0x67, 1, 0, 0, 0, 1, 0x68, 1, 0, 0, 0, 1, 0x65, 1]\<rparr>"

definition demo_delta :: frame where
  "demo_delta = \<lparr>fr_channel = channelVideo, fr_flags = 0, fr_ptsMicros = 33000,
     fr_payload = [0, 0, 0, 1, 0x41, 1]\<rparr>"

lemma demo_inspect:
  "let r = inspect (fr_payload demo_keyframe) AnnexbH264
   in isAnnexB r \<and> hasVideoSlice r \<and> hasKeyframeSlice r \<and> isSelfContainedKeyframe r"
  "let r = inspect (fr_payload demo_delta) AnnexbH264
   in isAnnexB r \<and> hasVideoSlice r \<and> \<not> hasKeyframeSlice r"
  by code_simp+

lemma demo_frames [simp]:
  "isKeyframe demo_keyframe" "\<not> isKeyframe demo_delta"
  "fr_channel demo_keyframe = channelVideo" "fr_channel demo_delta = channelVideo"
  "fr_flags demo_keyframe = kKeyframe" "fr_flags demo_delta = 0"
  "fr_ptsMicros demo_keyframe = 0" "fr_ptsMicros demo_delta = 33000"
  "length (fr_payload demo_keyframe) = 18" "length (fr_payload demo_delta) = 6"
  by (simp_all add: demo_keyframe_def demo_delta_def isKeyframe_def kKeyframe_def)

definition demo_unit :: "frame \<Rightarrow> encoded_access_unit" where
  "demo_unit fr = \<lparr>eu_bytes = fr_payload fr, eu_codec = H264, eu_keyframe = isKeyframe fr,
     eu_pts = fr_ptsMicros fr, eu_generation = 0\<rparr>"

text \<open>The keyframe is consumed; the frame after it finds the consumer busy and stays queued.\<close>

definition demo_playing :: session where
  "demo_playing = session_step demo_streaming (OpFrame (demo_env 3 True) ''10.0.0.2:5000'' demo_keyframe)"

definition demo_busy :: session where
  "demo_busy = session_step demo_playing (OpFrame (demo_env 4 False) ''10.0.0.2:5000'' demo_delta)"

lemma conservative_codec: "sc_codec conservativeDefault = H264"
  by (simp add: conservativeDefault_def)

lemma demo_env_now: "sv_now (demo_env now consumes) = now"
  by (simp add: demo_env_def)

lemma demo_drain_one:
  assumes "\<not> s_draining s" and "s_queue s = [(t, u)]" and "s_hasConsumer s" and "\<not> s_resettingConsumer s"
  shows "drainQueue (demo_env now consumes) s =
     (if consumes then s\<lparr>s_out := s_out s @ [Consumed u True], m_queueBytes := m_queueBytes s - length (eu_bytes u),
                         s_queue := [], m_queueDepth := 0\<rparr>
      else s\<lparr>s_out := s_out s @ [Consumed u False]\<rparr>)"
  using assms
  by (cases s) (simp add: drainQueue_def drain_enter_def drain_loop.simps drain_take_def drain_consume_def
      drain_finish_def demo_env_def effect_def Let_def)

lemma demo_playing_state:
  "m_state demo_playing = Streaming" "m_trusted demo_playing" "s_protector demo_playing = None"
  "s_config demo_playing = default_session_config"
  "s_pendingStreamConfig demo_playing = None"
  "s_resettingConsumer demo_playing = False" "s_streamConfig demo_playing = conservativeDefault"
  "s_hasConsumer demo_playing" "m_streamGeneration demo_playing = 0" "s_queue demo_playing = []"
  "\<not> s_draining demo_playing" "\<not> m_waitingForKeyframe demo_playing" 
  "s_nextQueueToken demo_playing = 2" "m_queueBytes demo_playing = 0"
  "s_out demo_playing = s_out demo_streaming @ [Consumed (demo_unit demo_keyframe) True]"
  using demo_inspect(1)
  by (simp_all add: demo_playing_def onFrame_def dispatch_frame_def handleVideo_def annexb_of_def
      demo_streaming_state conservative_codec default_config_limits demo_drain_one demo_unit_def kKeyframe_def Let_def demo_simps(2-7) demo_env_now)

lemma demo_busy_state:
  "m_state demo_busy = Streaming" "m_trusted demo_busy" "s_protector demo_busy = None"
  "s_pendingStreamConfig demo_busy = None" "s_resettingConsumer demo_busy = False" 
  "s_streamConfig demo_busy = conservativeDefault" "s_hasConsumer demo_busy" "m_streamGeneration demo_busy = 0"
  "s_queue demo_busy = [(2, demo_unit demo_delta)]" "\<not> s_draining demo_busy" "s_nextQueueToken demo_busy = 3"
  "s_config demo_busy = default_session_config"
  using demo_inspect(2)
  by (simp_all add: demo_busy_def onFrame_def dispatch_frame_def handleVideo_def annexb_of_def
      demo_playing_state conservative_codec default_config_limits demo_drain_one demo_unit_def Let_def demo_simps(2-7) demo_env_now)

end
