(* ===== verification/SessionProps.thy ===== *)
theory SessionProps
  imports SessionDemo
begin

text \<open>
  The properties of the session controller: what its operations leave alone, how its states follow
  each other, what reaches the wire, the consumer and the UI, and the deadlines.
\<close>

subsection \<open>What the handlers leave alone\<close>

definition stamp :: "session \<Rightarrow> session_config \<times> trust_policy option \<times> string option \<times> bool \<times> bool \<times>
    time_point \<times> time_point \<times> time_point" where
  "stamp s = (s_config s, s_trustPolicy s, s_connection s, s_watchdog s, s_hasConsumer s,
     s_connectedAt s, s_trustAt s, s_readyAt s)"

text \<open>A step within a state: nothing of the stamp changes, and the state only to \<^const>\<open>Failed\<close>.\<close>

definition stays :: "session \<Rightarrow> session \<Rightarrow> bool" where
  "stays s s' \<longleftrightarrow> stamp s' = stamp s \<and> (m_state s' = m_state s \<or> m_state s' = Failed)"

lemma stays_trans: "stays s s' \<Longrightarrow> stays s' s'' \<Longrightarrow> stays s s''"
  by (auto simp: stays_def)

lemma stays_refl [simp]: "stays s s"
  by (simp add: stays_def)

lemma stays_effects:
  "stays s s' \<Longrightarrow> stays s (effect e s')" "stays s s' \<Longrightarrow> stays s (notify k d s')"
  "stays s s' \<Longrightarrow> stays s (close_connection s')" "stays s s' \<Longrightarrow> stays s (protocolFailure d s')"
  "stays s s' \<Longrightarrow> stays s (malformedControl d s')" "stays s s' \<Longrightarrow> stays s (resetConsumer c g s')"
  "stays s s' \<Longrightarrow> stays s (resetQueueLocked b s')"
  by (auto simp: stays_def stamp_def effect_def notify_def close_connection_def protocolFailure_def
      malformedControl_def resetConsumer_def resetQueueLocked_def)

lemma stays_send: "stays s s' \<Longrightarrow> stays s (snd (sendControl_on env m ch s'))"
  by (subst sendControl_on_snd) (simp add: stays_def stamp_def)

lemma stays_fields:
  "stays s s' \<Longrightarrow> stays s (s'\<lparr>s_protector := p\<rparr>)"
  "stays s s' \<Longrightarrow> stays s (s'\<lparr>s_resettingConsumer := r\<rparr>)"
  "stays s s' \<Longrightarrow> stays s (s'\<lparr>s_draining := d\<rparr>)"
  "stays s s' \<Longrightarrow> stays s (s'\<lparr>m_controlMessages := n\<rparr>)"
  "stays s s' \<Longrightarrow> stays s (s'\<lparr>m_droppedFrames := n\<rparr>)"
  "stays s s' \<Longrightarrow> stays s (s'\<lparr>s_lastActivity := t\<rparr>)"
  "stays s s' \<Longrightarrow> stays s (s'\<lparr>s_caps := c, s_lastActivity := t\<rparr>)"
  "stays s s' \<Longrightarrow> stays s (s'\<lparr>s_pendingStreamConfig := psc, m_pendingFormatGeneration := g\<rparr>)"
  by (simp_all add: stays_def stamp_def)

lemma stays_if: "(c \<Longrightarrow> stays s a) \<Longrightarrow> (\<not> c \<Longrightarrow> stays s b) \<Longrightarrow> stays s (if c then a else b)"
  by simp

lemma stays_drain_finish: "stays s s' \<Longrightarrow> stays s (drain_finish q c s')"
  by (auto simp: stays_def stamp_def drain_finish_def Let_def split: list.split)

lemma stays_drain_loop: "stays s s' \<Longrightarrow> stays s (drain_loop env s')"
  by (rule drain_loop_keeps[where P = "stays s"])
    (assumption | rule stays_fields stays_effects stays_drain_finish)+

lemma stays_drain: "stays s s' \<Longrightarrow> stays s (drainQueue env s')"
  by (auto simp: drainQueue_def drain_enter_def stays_drain_loop stays_fields)

lemmas stays_intros = stays_effects stays_send stays_fields stays_drain

lemma stays_format_ack: "stays s s' \<Longrightarrow> stays s (handleFormatAck env message s')"
proof -
  assume a: "stays s s'"
  then have "stays s ((resetQueueLocked True s')\<lparr>s_streamConfig := c, s_pendingStreamConfig := None,
                            m_streamGeneration := g, m_pendingFormatGeneration := 0,
                            m_waitingForKeyframe := True, s_resettingConsumer := True,
                            s_receivedVideo := False, s_lastActivity := t1,
                            s_streamingAt := t2, s_lastVideoAt := t3\<rparr>)" for c g t1 t2 t3
    by (simp add: stays_def stamp_def resetQueueLocked_def)
  with a show ?thesis
    by (auto simp: handleFormatAck_def Let_def case_prod_beta split: option.split intro!: stays_intros)
qed

lemma stays_format_reject: "stays s s' \<Longrightarrow> stays s (handleFormatReject env message s')"
proof -
  assume a: "stays s s'"
  then have "stays s ((resetQueueLocked True s')\<lparr>s_pendingStreamConfig := None, m_pendingFormatGeneration := 0,
                       m_waitingForKeyframe := True, s_receivedVideo := False,
                       s_lastActivity := t1, s_streamingAt := t2, s_lastVideoAt := t3\<rparr>)" for t1 t2 t3
    by (simp add: stays_def stamp_def resetQueueLocked_def)
  with a show ?thesis
    by (auto simp: handleFormatReject_def Let_def case_prod_beta split: option.split intro!: stays_intros)
qed

lemma stays_reported: "stays s s' \<Longrightarrow> stays s (reported env ok m k d s')"
  by (simp add: reported_def stays_intros)

lemma stays_video_states:
  "stays s s' \<Longrightarrow> stays s (received env fr s')" "stays s s' \<Longrightarrow> stays s (enqueued fr s')"
  "stays s s' \<Longrightarrow> stays s (dropped s')"
  by (simp_all add: stays_def stamp_def received_def enqueued_def dropped_def)

lemma stays_video: "stays s (handleVideo env fr s)"
  by (cases env fr s rule: handleVideo_cases) (simp_all add: stays_intros stays_video_states)

subsection \<open>The order of the states\<close>

fun rank :: "session_state \<Rightarrow> nat" where
  "rank Disconnected = 0" | "rank AwaitingHello = 1" | "rank AwaitingTrust = 2"
| "rank Ready = 3" | "rank Streaming = 4" | "rank Failed = 5"

lemma rank_le_Failed [simp]: "rank st \<le> 5"
  by (cases st) simp_all

lemma rank_inject: "rank st = rank st' \<longleftrightarrow> st = st'"
  by (cases st; cases st') simp_all

text \<open>
  A step of a session that neither connects nor disconnects it: the states go in one direction, and
  the time a state was entered is not set again while in it.
\<close>

definition advances :: "session \<Rightarrow> session \<Rightarrow> bool" where
  "advances s s' \<longleftrightarrow>
     s_config s' = s_config s \<and> s_trustPolicy s' = s_trustPolicy s \<and> s_connection s' = s_connection s \<and>
     s_connectedAt s' = s_connectedAt s \<and> rank (m_state s) \<le> rank (m_state s') \<and>
     (live (m_state s') \<longrightarrow> live (m_state s)) \<and>
     (m_state s' = m_state s \<longrightarrow> s_trustAt s' = s_trustAt s \<and> s_readyAt s' = s_readyAt s) \<and>
     (m_state s' = Failed \<or> s_watchdog s' = s_watchdog s)"

lemma advances_trans:
  assumes "advances s s'" and "advances s' s''"
  shows "advances s s''"
proof -
  have "m_state s' = m_state s" if "m_state s'' = m_state s"
    using that assms by (simp add: advances_def flip: rank_inject)
  moreover have "m_state s'' = Failed" if "m_state s' = Failed"
    using that assms(2) rank_inject[of "m_state s''" Failed] rank_le_Failed[of "m_state s''"]
    by (simp add: advances_def)
  ultimately show ?thesis using assms by (auto simp: advances_def)
qed

lemma advances_stays: "stays s s' \<Longrightarrow> advances s s'"
  by (auto simp: stays_def stamp_def advances_def live_def)

lemma advances_failure: "advances s s' \<Longrightarrow> stays s' s'' \<Longrightarrow> advances s s''"
  by (blast intro: advances_trans advances_stays)

lemma advances_hello:
  assumes "m_state s = AwaitingHello"
  shows "advances s (handleHello env peer message s)"
proof (cases "parseHello message")
  case None
  then show ?thesis
    by (auto simp: handleHello_def intro!: advances_stays stays_effects)
next
  case (Some parsed)
  obtain r s1 where h: "hello_trust env peer parsed s = (r, s1)" by fastforce
  have sec: "stays s (s\<lparr>s_security := x\<rparr>)" for x by (simp add: stays_def stamp_def)
  from h have s1: "stays s s1"
    by (cases rule: hello_trust_cases) (simp_all add: stays_effects sec)
  show ?thesis
  proof (cases r)
    case None
    then show ?thesis using Some h s1
      by (auto simp: handleHello_def intro!: advances_stays stays_effects)
  next
    case d: (Some d)
    obtain trusted paired allow c where d': "d = (trusted, paired, allow, c)" by (cases d) auto
    note hd = h[unfolded d d']
    let ?s = "s1\<lparr>s_hello := Some parsed, m_trusted := trusted,
                            m_state := (if trusted then Ready else AwaitingTrust),
                            s_lastActivity := sv_now env, s_trustAt := sv_now env,
                            s_readyAt := (if trusted then sv_now env else s_readyAt s1)\<rparr>"
    obtain sec where s1_eq: "s1 = s\<lparr>s_security := sec\<rparr>" using hello_trust_decided[OF hd] by blast
    have a: "advances s ?s" using assms by (simp add: advances_def s1_eq live_def)
    have "stays ?s (handleHello env peer message s)" if "h_version parsed = kProtocolVersion"
      using Some hd that
      by (cases trusted; cases c; simp add: handleHello_def Let_def case_prod_beta stays_intros)
    moreover have "stays s (handleHello env peer message s)" if "h_version parsed \<noteq> kProtocolVersion"
      using Some that by (simp add: handleHello_def stays_effects)
    ultimately show ?thesis using a by (blast intro: advances_failure advances_stays)
  qed
qed

lemma advances_auth_response:
  assumes "m_state s = AwaitingTrust"
  shows "advances s (handleAuthResponse env peer message s)"
proof (cases "\<exists>r i sec. parseAuthResponse message = Some r \<and> s_hello s = Some i \<and> s_security s = Some sec")
  case False
  then show ?thesis
    by (auto simp: handleAuthResponse_def intro!: advances_stays stays_effects split: option.splits)
next
  case True
  then obtain response identity security where m: "parseAuthResponse message = Some response"
    "s_hello s = Some identity" "s_security s = Some security" by blast
  obtain b security' where f: "finishAuthentication (sv_security env) (sourceAddress peer)
      (h_deviceId identity) (ar_clientNonce response) (ar_clientProof response) (sv_unix env) security
      = (b, security')" by fastforce
  have sec: "stays s (s\<lparr>s_security := x\<rparr>)" for x by (simp add: stays_def stamp_def)
  show ?thesis
  proof (cases b)
    case (Inl e)
    then show ?thesis using m f by (simp add: handleAuthResponse_def advances_stays stays_effects sec)
  next
    case (Inr authenticated)
    let ?confirm = "sendControl_on env (authConfirm \<lparr>acf_serverProof = are_serverProof authenticated,
                           acf_sessionExpiresUnixSeconds =
                             pr_expiresUnixSeconds (are_protector authenticated)\<rparr>) channelControl
        (s\<lparr>s_security := Some security'\<rparr>)"
    let ?s = "(snd ?confirm)\<lparr>s_protector := Some (are_protector authenticated),
                                         m_trusted := True, m_state := Ready,
                                         s_readyAt := sv_now env, s_lastActivity := sv_now env\<rparr>"
    have c: "stays s (snd ?confirm)" by (rule stays_send) (rule sec)
    then have a: "advances s ?s" using assms by (auto simp: advances_def stays_def stamp_def live_def)
    show ?thesis
    proof (cases "succeeded (fst ?confirm)")
      case True
      then have "stays ?s (handleAuthResponse env peer message s)"
        using m f Inr by (simp add: handleAuthResponse_def Let_def case_prod_beta stays_intros)
      with a show ?thesis by (rule advances_failure)
    next
      case False
      then show ?thesis using m f Inr c
        by (simp add: handleAuthResponse_def Let_def case_prod_beta advances_stays stays_effects)
    qed
  qed
qed

lemma advances_stream_start: "advances s (handleStreamStart env message s)"
proof (cases "msg_fields message = [] \<and> m_state s = Ready \<and> s_pendingStreamConfig s = None \<and> \<not> s_resettingConsumer s")
  case True
  let ?s = "s\<lparr>m_state := Streaming, s_resettingConsumer := True, s_streamingAt := sv_now env,
                   s_lastVideoAt := sv_now env, s_lastActivity := sv_now env,
                   s_receivedVideo := False\<rparr>"
  have "advances s ?s" using True by (simp add: advances_def live_def)
  moreover have "stays ?s (handleStreamStart env message s)"
    using True by (simp add: handleStreamStart_def Let_def stays_intros)
  ultimately show ?thesis by (rule advances_failure)
next
  case False
  then show ?thesis by (auto simp: handleStreamStart_def Let_def advances_stays stays_effects)
qed

lemma advances_report: "advances s (handleReport env message s)"
  by (simp add: handleReport_def advances_stays stays_intros stays_reported advances_stream_start
      split: option.split)

lemma advances_if: "(c \<Longrightarrow> advances s a) \<Longrightarrow> (\<not> c \<Longrightarrow> advances s b) \<Longrightarrow> advances s (if c then a else b)"
  by simp

lemma advances_control: "advances s (handleControl env peer fr s)"
proof (cases "message_decode (fr_payload fr)")
  case (Inl e)
  then show ?thesis by (simp add: handleControl_def advances_stays stays_effects split: prod.split)
next
  case (Inr message)
  let ?s = "s\<lparr>m_controlMessages := m_controlMessages s + 1\<rparr>"
  have "advances ?s (handleControl env peer fr s)"
    unfolding handleControl_def Inr sum.case Let_def
    by (intro advances_if advances_hello advances_auth_response advances_report
        advances_stays[OF stays_format_ack[OF stays_refl]]
        advances_stays[OF stays_format_reject[OF stays_refl]] advances_stays[OF stays_effects(4)[OF stays_refl]]
        advances_stays[OF stays_effects(2)[OF stays_refl]]) (simp_all only: not_not de_Morgan_disj)
  moreover have "advances s ?s" by (simp add: advances_stays stays_fields)
  ultimately show ?thesis by (rule advances_trans[rotated])
qed

lemma advances_dispatch: "advances s (dispatch_frame env peer fr s)"
  by (simp add: dispatch_frame_def advances_control advances_stays stays_effects stays_video)

lemma advances_frame: "advances s (onFrame env peer fr s)"
proof -
  have "advances s (s\<lparr>s_protector := p\<rparr>)" for p by (simp add: advances_stays stays_fields)
  then show ?thesis
    by (auto simp: onFrame_def advances_stays stays_intros advances_dispatch
        intro: advances_trans[OF _ advances_dispatch] split: option.split prod.split sum.split)
qed

text \<open>The operations of the UI and the watchdog.\<close>

fun reconnects :: "session_op \<Rightarrow> bool" where
  "reconnects (OpConnected _ _) = True" | "reconnects (OpDisconnected _) = True"
| "reconnects _ = False"

lemma stays_sendControl: "stays s (snd (sendControl env m ch s))"
  by (simp add: sendControl_def stays_intros)

lemma stays_sendFormat: "stays s (snd (sendFormat env config s))"
proof -
  have "stays s (s\<lparr>s_nextFormatGeneration := n, s_pendingStreamConfig := Some config,
                   m_pendingFormatGeneration := g, s_pendingFormatAt := t\<rparr>)" for n g t
    by (simp add: stays_def stamp_def)
  then show ?thesis by (simp add: sendFormat_def Let_def case_prod_beta stays_intros)
qed

lemma advances_setConsumer: "advances s (setConsumer env present s)"
proof -
  have "advances s (s\<lparr>s_hasConsumer := present\<rparr>)" by (simp add: advances_def)
  moreover have "stays (s\<lparr>s_hasConsumer := present\<rparr>) (setConsumer env present s)"
    by (simp add: setConsumer_def Let_def stays_intros)
  ultimately show ?thesis by (rule advances_failure)
qed

lemma advances_watchdog:
  "s_connection s \<noteq> None \<Longrightarrow> advances s (watchdog_tick env s)"
  by (auto simp: watchdog_tick_def advances_def notify_def close_connection_def effect_def live_def
      split: option.split)

lemma watchdog_failed: "m_state s = Failed \<Longrightarrow> advances s (watchdog_tick env s)"
  by (auto simp: watchdog_tick_def advances_def notify_def close_connection_def effect_def live_def
      split: option.split)

lemma advances_step:
  assumes "session_inv s" and "\<not> reconnects e" and "m_state s \<noteq> Disconnected"
  shows "advances s (session_step s e)"
proof (cases e)
  case (OpWatchdog env)
  have "m_state s = Failed \<or> s_connection s \<noteq> None"
    using assms(1,3) by (cases "m_state s") (auto simp: session_inv_def trust_inv_def live_def)
  with OpWatchdog show ?thesis by (auto simp: advances_watchdog watchdog_failed)
qed (use assms in \<open>simp_all add: advances_frame advances_setConsumer advances_stays stays_sendControl
    stays_sendFormat sendPreview_def sendCamera_def sendControls_def sendStats_def
    session_requestKeyframe_def\<close>)

lemma advances_not_disconnected:
  "advances s s' \<Longrightarrow> m_state s \<noteq> Disconnected \<Longrightarrow> m_state s' \<noteq> Disconnected"
  by (cases "m_state s") (auto simp: advances_def)

lemma advances_run:
  assumes "session_inv s" and "list_all (Not \<circ> reconnects) es" and "m_state s \<noteq> Disconnected"
  shows "advances s (foldl session_step s es)"
  using assms
proof (induction es arbitrary: s)
  case Nil
  then show ?case by (simp add: advances_stays)
next
  case (Cons e es)
  then have a: "advances s (session_step s e)" by (simp add: advances_step)
  with Cons have "advances (session_step s e) (foldl session_step (session_step s e) es)"
    by (simp add: session_step_inv advances_not_disconnected)
  with a show ?case by (simp add: advances_trans)
qed

subsection \<open>Runs from a new controller\<close>

lemma session_inv_new:
  "policy = None \<or> security = None \<Longrightarrow> session_inv (new_session config policy security present)"
  by (auto simp: new_session_def inv_defs)

text \<open>The watchdog runs in every live state.\<close>

definition watched_inv :: "session \<Rightarrow> bool" where
  "watched_inv s \<longleftrightarrow> session_inv s \<and> (live (m_state s) \<longrightarrow> s_watchdog s)"

lemma watched_connected: "live (m_state (onConnected env peer s)) \<longrightarrow> s_watchdog (onConnected env peer s)"
  by (simp add: onConnected_def Let_def live_def notify_def close_connection_def effect_def)

lemma watched_disconnected: "\<not> live (m_state (onDisconnected orderly s))"
  by (simp add: onDisconnected_def Let_def live_def notify_def effect_def resetQueueLocked_def)

lemma live_advances: "advances s s' \<Longrightarrow> live (m_state s') \<Longrightarrow> live (m_state s) \<and> s_watchdog s' = s_watchdog s"
  by (cases "m_state s' = Failed") (simp_all add: live_def[of Failed] advances_def)

lemma live_step:
  assumes "\<not> reconnects e" and "live (m_state (session_step s e))"
  shows "live (m_state s)"
proof (cases e)
  case (OpWatchdog env)
  then show ?thesis using assms
    by (auto simp: watchdog_tick_def live_def notify_def close_connection_def effect_def
        split: if_splits option.splits)
next
  case OpFrame
  then show ?thesis using assms(2) by (auto dest: live_advances[OF advances_frame])
next
  case OpConsumer
  then show ?thesis using assms(2) by (auto dest: live_advances[OF advances_setConsumer])
next
  case OpFormat
  then show ?thesis using assms(2) by (auto dest: live_advances[OF advances_stays[OF stays_sendFormat]])
qed (use assms in \<open>auto dest: live_advances[OF advances_stays[OF stays_sendControl]]
    simp: sendPreview_def sendCamera_def sendControls_def sendStats_def session_requestKeyframe_def\<close>)

lemma watched_step: "watched_inv s \<Longrightarrow> watched_inv (session_step s e)"
proof -
  assume w: "watched_inv s"
  then have i: "session_inv (session_step s e)" by (simp add: watched_inv_def session_step_inv)
  have "live (m_state (session_step s e)) \<longrightarrow> s_watchdog (session_step s e)"
  proof (cases "reconnects e")
    case True
    then show ?thesis
    proof (cases e)
      case (OpConnected env peer)
      show ?thesis unfolding OpConnected session_step.simps by (rule watched_connected)
    next
      case (OpDisconnected orderly)
      then show ?thesis by (simp add: watched_disconnected)
    qed simp_all
  next
    case False
    show ?thesis
    proof (cases "m_state s = Disconnected")
      case True
      then have "\<not> live (m_state (session_step s e))"
        using live_step[OF False, of s] True by (auto simp: live_def[of Disconnected])
      then show ?thesis by blast
    next
      case d: False
      then have "advances s (session_step s e)" using w False by (simp add: watched_inv_def advances_step)
      then show ?thesis using w by (auto simp: watched_inv_def dest: live_advances)
    qed
  qed
  with i show ?thesis by (simp add: watched_inv_def)
qed

interpretation watched_machine: machine session_step watched_inv
  by unfold_locales (rule watched_step)

lemma watched_new: "policy = None \<or> security = None \<Longrightarrow> watched_inv (new_session config policy security present)"
  by (simp add: watched_inv_def session_inv_new) (simp add: new_session_def live_def)

text \<open>When a handshake state must be over.\<close>

definition deadline :: "session \<Rightarrow> time_point" where
  "deadline s =
     (case m_state s of
        AwaitingHello \<Rightarrow> s_connectedAt s + milliseconds (helloTimeout (s_config s))
      | AwaitingTrust \<Rightarrow> s_trustAt s + milliseconds (trustTimeout (s_config s))
      | _ \<Rightarrow> s_readyAt s + milliseconds (progressTimeout (s_config s)))"

lemma watchdog_fires:
  assumes "watched_inv s" and "m_state s \<in> {AwaitingHello, AwaitingTrust, Ready}"
    and "sv_now env > deadline s"
  shows "\<exists>reason. watchdog_tick env s =
     close_connection (notify ''session.timeout'' reason (s\<lparr>m_state := Failed, s_watchdog := False\<rparr>))"
proof -
  have "s_watchdog s" "s_connection s \<noteq> None"
    using assms(1,2) by (auto simp: watched_inv_def session_inv_def trust_inv_def live_def)
  moreover have "watchdog_reason (sv_now env) s \<noteq> None"
    using assms(2,3) by (auto simp: watchdog_reason_def deadline_def)
  ultimately show ?thesis by (auto simp: watchdog_tick_def)
qed

lemma deadline_advances:
  "advances s s' \<Longrightarrow> m_state s' = m_state s \<Longrightarrow> deadline s' = deadline s"
  by (cases "m_state s") (simp_all add: advances_def deadline_def)

text \<open>
  Property C29: no phone can stall in the handshake.  After any run, once a session is in one of the
  states before streaming, no sequence of frames, UI calls and watchdog passes that leaves it in
  that state moves the deadline of the state, and the first pass of the watchdog after the
  deadline fails the session and closes its connection.
\<close>

theorem handshake_deadline:
  assumes "policy = None \<or> security = None"
    and "s = foldl session_step (new_session config policy security present) before"
    and "m_state s \<in> {AwaitingHello, AwaitingTrust, Ready}"
    and "list_all (Not \<circ> reconnects) during"
    and "s' = foldl session_step s during" and "m_state s' = m_state s"
    and "sv_now env > deadline s"
  shows "\<exists>reason. watchdog_tick env s' =
     close_connection (notify ''session.timeout'' reason (s'\<lparr>m_state := Failed, s_watchdog := False\<rparr>))"
proof (rule watchdog_fires)
  have w: "watched_inv s"
    unfolding assms(2) by (rule watched_machine.run_inv) (rule watched_new, rule assms(1))
  then show "watched_inv s'" unfolding assms(5) by (rule watched_machine.run_inv)
  show "m_state s' \<in> {AwaitingHello, AwaitingTrust, Ready}" using assms(3,6) by simp
  have "m_state s \<noteq> Disconnected" using assms(3) by auto
  then have "advances s s'"
    unfolding assms(5) using w assms(4) by (intro advances_run) (simp_all add: watched_inv_def)
  then show "sv_now env > deadline s'" using assms(6,7) by (simp add: deadline_advances)
qed

theorem handshake_deadline_witness:
  "\<exists>reason. let s = session_step demo_connected (OpPreview (demo_env 1 True) True)
     in watchdog_tick (demo_env 5000000001 True) s =
       close_connection (notify ''session.timeout'' reason (s\<lparr>m_state := Failed, s_watchdog := False\<rparr>))"
  unfolding Let_def
proof (rule handshake_deadline)
  show "demo_connected = foldl session_step (new_session default_session_config (Some demo_policy) None True)
      [OpConnected (demo_env 0 True) ''10.0.0.2:5000'']"
    by (simp add: demo_connected_def connect_demo_def demo_new_def session_with_policy_def)
  show "session_step demo_connected (OpPreview (demo_env 1 True) True) =
      foldl session_step demo_connected [OpPreview (demo_env 1 True) True]" by simp
  show "m_state (session_step demo_connected (OpPreview (demo_env 1 True) True)) = m_state demo_connected"
    by (simp add: sendPreview_def sendControl_def demo_connected_state)
  show "sv_now (demo_env 5000000001 True) > deadline demo_connected"
    by (simp add: deadline_def demo_connected_state milliseconds_def default_session_config_def demo_env_now)
qed (simp_all add: demo_connected_state)

lemma watched_run:
  "policy = None \<or> security = None \<Longrightarrow>
   watched_inv (foldl session_step (new_session config policy security present) es)"
  by (rule watched_machine.run_inv) (rule watched_new)

text \<open>
  A session's states go one way.  After any run, no sequence of operations that neither
  connects nor disconnects the session takes it back to an earlier state, makes a failed session
  live again, or changes its trust policy, its configuration or the peer it talks to.
\<close>

theorem session_states_advance:
  assumes "policy = None \<or> security = None"
    and "s = foldl session_step (new_session config policy security present) before"
    and "m_state s \<noteq> Disconnected" and "list_all (Not \<circ> reconnects) during"
    and "s' = foldl session_step s during"
  shows "rank (m_state s) \<le> rank (m_state s') \<and> m_state s' \<noteq> Disconnected \<and>
     s_trustPolicy s' = s_trustPolicy s \<and> s_config s' = s_config s \<and> s_connection s' = s_connection s"
proof -
  have "session_inv s" using watched_run[OF assms(1)] assms(2) by (simp add: watched_inv_def)
  then have "advances s s'" unfolding assms(5) using assms(3,4) by (intro advances_run)
  then show ?thesis using advances_not_disconnected assms(3) by (simp add: advances_def)
qed

theorem session_states_advance_witness:
  "rank (m_state demo_ready) \<le> rank (m_state demo_streaming) \<and> m_state demo_streaming \<noteq> Disconnected \<and>
     s_trustPolicy demo_streaming = s_trustPolicy demo_ready \<and> s_config demo_streaming = s_config demo_ready \<and>
     s_connection demo_streaming = s_connection demo_ready"
proof (rule session_states_advance)
  show "demo_ready = foldl session_step (new_session default_session_config (Some demo_policy) None True)
      [OpConnected (demo_env 0 True) ''10.0.0.2:5000'',
       OpFrame (demo_env 1 True) ''10.0.0.2:5000'' (control_frame (hello_message demo_hello))]"
    by (simp add: demo_ready_def greet_demo_def demo_connected_def connect_demo_def demo_new_def session_with_policy_def)
  show "demo_streaming = foldl session_step demo_ready
      [OpFrame (demo_env 2 True) ''10.0.0.2:5000'' (control_frame streamStart)]"
    by (simp add: demo_streaming_def start_demo_def)
qed (simp_all add: demo_ready_state)

subsection \<open>Trust\<close>

text \<open>What a controller is made with stays with it.\<close>

lemma constant_advances:
  "advances s s' \<Longrightarrow> s_trustPolicy s' = s_trustPolicy s \<and> s_config s' = s_config s"
  by (simp add: advances_def)

lemma constant_step:
  assumes "watched_inv s"
  shows "s_trustPolicy (session_step s e) = s_trustPolicy s \<and> s_config (session_step s e) = s_config s"
proof (cases e)
  case (OpConnected env peer)
  then show ?thesis
    by (simp add: onConnected_def Let_def notify_def close_connection_def effect_def)
next
  case (OpDisconnected orderly)
  then show ?thesis by (simp add: onDisconnected_def Let_def notify_def effect_def resetQueueLocked_def)
next
  case (OpWatchdog env)
  then show ?thesis
    by (simp add: watchdog_tick_def notify_def close_connection_def effect_def split: option.split)
qed (simp_all add: constant_advances[OF advances_frame] constant_advances[OF advances_setConsumer]
    constant_advances[OF advances_stays[OF stays_sendFormat]]
    constant_advances[OF advances_stays[OF stays_sendControl]] sendPreview_def sendCamera_def
    sendControls_def sendStats_def session_requestKeyframe_def)

lemma constant_run:
  "watched_inv s \<Longrightarrow> s_trustPolicy (foldl session_step s es) = s_trustPolicy s \<and>
     s_config (foldl session_step s es) = s_config s"
proof (induction es arbitrary: s)
  case (Cons e es)
  then show ?case using constant_step[of s e] by (simp add: watched_step)
qed simp

text \<open>
  Trust is never taken for granted.  After any run of the controller, a peer is trusted, and
  the session ready or streaming, only when the trust policy accepts the hello it sent, or, for
  a controller with session security, while the protector of an authenticated handshake is in
  place; and a peer that is not connected is not trusted.
\<close>

theorem trust_is_granted:
  assumes "policy = None \<or> security = None"
    and "s = foldl session_step (new_session config policy security present) es"
    and "m_trusted s \<or> m_state s = Ready \<or> m_state s = Streaming"
  shows "s_connection s \<noteq> None \<and>
     (case policy of
        Some p \<Rightarrow> (\<exists>h. s_hello s = Some h \<and> tp_trusted p h)
      | None \<Rightarrow> (\<exists>protector. s_protector s = Some protector))"
proof -
  have w: "watched_inv s" using watched_run[OF assms(1)] assms(2) by simp
  have p: "s_trustPolicy s = policy"
    using constant_run[OF watched_new[OF assms(1)]] assms(2) by (simp add: new_session_def)
  from w assms(3) have "authorised s" "s_connection s \<noteq> None"
    by (auto simp: watched_inv_def session_inv_def trust_inv_def)
  then show ?thesis by (auto simp: authorised_def p split: option.splits)
qed

theorem trust_is_granted_witness:
  "s_connection demo_ready \<noteq> None \<and>
     (case Some demo_policy of
        Some p \<Rightarrow> (\<exists>h. s_hello demo_ready = Some h \<and> tp_trusted p h)
      | None \<Rightarrow> (\<exists>protector. s_protector demo_ready = Some protector))"
proof (rule trust_is_granted)
  show "demo_ready = foldl session_step (new_session default_session_config (Some demo_policy) None True)
      [OpConnected (demo_env 0 True) ''10.0.0.2:5000'',
       OpFrame (demo_env 1 True) ''10.0.0.2:5000'' (control_frame (hello_message demo_hello))]"
    by (simp add: demo_ready_def greet_demo_def demo_connected_def connect_demo_def demo_new_def session_with_policy_def)
qed (simp_all add: demo_ready_state)

subsection \<open>What goes out in clear\<close>

text \<open>
  What it is for a frame to carry a message sealed by a protector: the eight bytes of a sequence
  number, the message's encoding, and the MAC of both, with the channel, the flags and the
  timestamp, under the outgoing key of the channel; or, for statistics in a session that
  encrypts, the number and the authenticated encryption of the encoding under the statistics key,
  with the number in the nonce.
\<close>

definition sealed_under :: "crypto \<Rightarrow> bool \<Rightarrow> protector \<Rightarrow> message \<Rightarrow> frame \<Rightarrow> bool" where
  "sealed_under cr encrypt p m fr \<longleftrightarrow>
     (if fr_channel fr = channelStats \<and> encrypt
      then fr_flags fr = kEncryptedFlag \<and>
        (\<exists>sequence cipher tag. fr_payload fr = be_bytes 8 sequence @ cipher @ tag \<and>
           c_encrypt cr (ck_key (outgoingStats p)) (mediaNonce (ck_noncePrefix (outgoingStats p)) sequence)
             (envelopeAuthenticationData (8 + length (message_encode m) + 16) channelStats (fr_flags fr)
                (fr_ptsMicros fr) sequence kMediaDomain) (message_encode m) = Some (cipher, tag))
      else fr_flags fr = 0 \<and>
        (\<exists>sequence tag. fr_payload fr = be_bytes 8 sequence @ message_encode m @ tag \<and>
           c_hmac cr (ck_key (outgoingAuthenticatedKeys p (fr_channel fr)))
             (control_input (fr_channel fr) (fr_flags fr) (fr_ptsMicros fr) sequence (message_encode m)) = Some tag))"

definition handshake_message :: "message \<Rightarrow> bool" where
  "handshake_message m \<longleftrightarrow> msg_type m \<in> {''server_info'', ''auth_challenge'', ''auth_confirm''}"

text \<open>How a message sent since the state \<open>s0\<close> of the session went out.\<close>

definition sent_properly :: "session \<Rightarrow> session_env \<Rightarrow> session \<Rightarrow> message \<Rightarrow> frame \<Rightarrow> bool" where
  "sent_properly s0 env s m fr \<longleftrightarrow>
     s_protector s0 = None \<and> handshake_message m \<and> fr_payload fr = message_encode m \<and> fr_flags fr = 0 \<or>
     (\<exists>p. s_protector s = Some p \<and>
        sealed_under (se_crypto (sv_security env)) (encryptMedia (s_config s)) p m fr)"

definition all_sealed :: "session \<Rightarrow> session_env \<Rightarrow> session \<Rightarrow> bool" where
  "all_sealed s0 env s \<longleftrightarrow>
     (s_protector s = None \<longrightarrow> s_protector s0 = None) \<and>
     (\<forall>m fr ok. Sent m fr ok \<in> set (drop (length (s_out s0)) (s_out s)) \<longrightarrow> sent_properly s0 env s m fr)"

text \<open>Sealing keeps the keys, so what was sealed before is sealed under the protector after.\<close>

definition same_keys :: "protector \<Rightarrow> protector \<Rightarrow> bool" where
  "same_keys p p' \<longleftrightarrow> outgoingStats p' = outgoingStats p \<and> outgoingControl p' = outgoingControl p"

lemma sealed_same_keys: "same_keys p p' \<Longrightarrow> sealed_under cr e p' m fr = sealed_under cr e p m fr"
  by (simp add: sealed_under_def same_keys_def outgoingAuthenticatedKeys_def)

lemma protect_keys:
  "protectControl cr now ch fl pts d p = (r, p') \<Longrightarrow> same_keys p p'"
  "protectMedia cr now ch fl pts d p = (r, p') \<Longrightarrow> same_keys p p'"
  by (auto simp: protectControl_def protectMedia_def same_keys_def Let_def split: if_splits sum.splits)

lemma protectControl_seals:
  assumes "protectControl cr now ch 0 0 (message_encode m) p = (Inr r, p')"
    and "\<not> (ch = channelStats \<and> e)"
  shows "sealed_under cr e p' m \<lparr>fr_channel = ch, fr_flags = pp_flags r, fr_ptsMicros = 0, fr_payload = pp_payload r\<rparr>"
proof -
  let ?sq = "sq_next (outgoingControlSequence p ch)"
  from assms(1) obtain tag where tag: "c_hmac cr (ck_key (outgoingAuthenticatedKeys p ch))
      (control_input ch 0 0 ?sq (message_encode m)) = Some tag"
    and r: "pp_flags r = 0" "pp_payload r = be_bytes 8 ?sq @ message_encode m @ tag"
    by (auto simp: protectControl_def control_input_def hmacSha256_def Let_def sec_be
        split: if_splits sum.splits option.splits)
  have "sealed_under cr e p m \<lparr>fr_channel = ch, fr_flags = pp_flags r, fr_ptsMicros = 0, fr_payload = pp_payload r\<rparr>"
    unfolding sealed_under_def frame.simps using assms(2) tag r by auto
  then show ?thesis using sealed_same_keys[OF protect_keys(1)[OF assms(1)]] by blast
qed

lemma protectMedia_seals:
  assumes "protectMedia cr now channelStats 0 0 (message_encode m) p = (Inr r, p')"
  shows "sealed_under cr True p' m \<lparr>fr_channel = channelStats, fr_flags = pp_flags r, fr_ptsMicros = 0,
    fr_payload = pp_payload r\<rparr>"
proof -
  let ?sq = "sq_next (outgoingMediaSequence p channelStats)"
  have c: "channelStats \<noteq> 1" by (simp add: channelStats_def)
  from assms obtain cipher tag where tag: "c_encrypt cr (ck_key (outgoingStats p))
      (mediaNonce (ck_noncePrefix (outgoingStats p)) ?sq)
      (envelopeAuthenticationData (8 + length (message_encode m) + 16) channelStats kEncryptedFlag 0 ?sq kMediaDomain)
      (message_encode m) = Some (cipher, tag)"
    and r: "pp_flags r = kEncryptedFlag" "pp_payload r = be_bytes 8 ?sq @ cipher @ tag"
    by (auto simp: protectMedia_def encryptChaCha_def outgoingMediaKeys_def Let_def sec_be c
        protector_sizes split: if_splits sum.splits option.splits)
  have "sealed_under cr True p m \<lparr>fr_channel = channelStats, fr_flags = pp_flags r, fr_ptsMicros = 0,
      fr_payload = pp_payload r\<rparr>"
    unfolding sealed_under_def frame.simps using tag r by auto
  then show ?thesis using sealed_same_keys[OF protect_keys(2)[OF assms(1)]] by blast
qed

lemma all_sealed_refl: "all_sealed s env s"
  by (simp add: all_sealed_def)

lemma all_sealed_protector:
  assumes "all_sealed s0 env s"
    and "s_protector s = None \<or> (\<exists>p. s_protector s = Some p \<and> same_keys p p')"
  shows "all_sealed s0 env (s\<lparr>s_protector := Some p'\<rparr>)"
proof -
  have "sent_properly s0 env (s\<lparr>s_protector := Some p'\<rparr>) m fr" if "sent_properly s0 env s m fr" for m fr
    using that assms(2) by (auto simp: sent_properly_def sealed_same_keys)
  then show ?thesis using assms(1) by (auto simp: all_sealed_def)
qed

lemma all_sealed_sent:
  assumes "all_sealed s0 env s" and "sent_properly s0 env s m fr"
  shows "all_sealed s0 env (effect (Sent m fr ok) s)"
proof -
  let ?n = "length (s_out s0)"
  have e: "sent_properly s0 env (effect x s) = sent_properly s0 env s" for x
    by (intro ext) (simp add: sent_properly_def effect_def)
  have "e' \<in> set (drop ?n (s_out s)) \<or> e' = Sent m fr ok"
    if "e' \<in> set (drop ?n (s_out s @ [Sent m fr ok]))" for e'
    using that set_drop_subset[of "?n - length (s_out s)" "[Sent m fr ok]"] by auto
  then show ?thesis using assms by (auto simp: all_sealed_def e) (auto simp: effect_def)
qed

lemma all_sealed_not_sent [simp]:
  assumes "\<not> is_sent e"
  shows "all_sealed s0 env (effect e s) = all_sealed s0 env s"
proof -
  have "Sent m fr ok \<in> set (drop n (xs @ [e])) \<longleftrightarrow> Sent m fr ok \<in> set (drop n xs)" for m fr ok n xs
    using assms by (cases "n - length xs") auto
  then show ?thesis by (simp add: all_sealed_def effect_def sent_properly_def)
qed

lemma all_sealed_send:
  assumes "all_sealed s0 env s" and "s_protector s \<noteq> None \<or> handshake_message m"
  shows "all_sealed s0 env (snd (sendControl_on env m ch s))"
proof (cases "s_protector s")
  case None
  have "s_protector s0 = None" using assms(1) None by (simp add: all_sealed_def)
  then have "sent_properly s0 env s m \<lparr>fr_channel = ch, fr_flags = 0, fr_ptsMicros = 0, fr_payload = message_encode m\<rparr>"
    using assms(2) None by (simp add: sent_properly_def)
  from all_sealed_sent[OF assms(1) this] show ?thesis
    by (simp add: sendControl_on_def connection_send_def Let_def None)
next
  case (Some p)
  let ?media = "ch = channelStats \<and> encryptMedia (s_config s)"
  obtain r p' where r: "(if ?media then protectMedia else protectControl)
      (se_crypto (sv_security env)) (sv_clocks env) ch 0 0 (message_encode m) p = (r, p')" by fastforce
  then have "same_keys p p'" by (auto intro: protect_keys split: if_splits)
  with assms(1) Some have s: "all_sealed s0 env (s\<lparr>s_protector := Some p'\<rparr>)" by (intro all_sealed_protector) auto
  show ?thesis
  proof (cases r)
    case (Inl e)
    with r s show ?thesis by (simp add: sendControl_on_def Some notify_def Let_def)
  next
    case (Inr pp)
    have "sealed_under (se_crypto (sv_security env)) (encryptMedia (s_config s)) p' m
        \<lparr>fr_channel = ch, fr_flags = pp_flags pp, fr_ptsMicros = 0, fr_payload = pp_payload pp\<rparr>"
    proof (cases ?media)
      case True
      with r Inr have "protectMedia (se_crypto (sv_security env)) (sv_clocks env) channelStats 0 0
          (message_encode m) p = (Inr pp, p')" by simp
      from protectMedia_seals[OF this] True show ?thesis by simp
    next
      case False
      with r Inr have "protectControl (se_crypto (sv_security env)) (sv_clocks env) ch 0 0
          (message_encode m) p = (Inr pp, p')" by (auto split: if_splits)
      from protectControl_seals[OF this False] show ?thesis .
    qed
    then have "sent_properly s0 env (s\<lparr>s_protector := Some p'\<rparr>) m
        \<lparr>fr_channel = ch, fr_flags = pp_flags pp, fr_ptsMicros = 0, fr_payload = pp_payload pp\<rparr>"
      by (simp add: sent_properly_def)
    from all_sealed_sent[OF s this] r Inr show ?thesis
      by (simp add: sendControl_on_def connection_send_def Some Let_def)
  qed
qed

lemma all_sealed_fields [simp]:
  "all_sealed s0 env (s\<lparr>m_state := v0\<rparr>) = all_sealed s0 env s"
  "all_sealed s0 env (s\<lparr>m_connections := v1\<rparr>) = all_sealed s0 env s"
  "all_sealed s0 env (s\<lparr>m_controlMessages := v2\<rparr>) = all_sealed s0 env s"
  "all_sealed s0 env (s\<lparr>m_videoFrames := v3\<rparr>) = all_sealed s0 env s"
  "all_sealed s0 env (s\<lparr>m_videoBytes := v4\<rparr>) = all_sealed s0 env s"
  "all_sealed s0 env (s\<lparr>m_malformedMessages := v5\<rparr>) = all_sealed s0 env s"
  "all_sealed s0 env (s\<lparr>m_droppedFrames := v6\<rparr>) = all_sealed s0 env s"
  "all_sealed s0 env (s\<lparr>m_queueDepth := v7\<rparr>) = all_sealed s0 env s"
  "all_sealed s0 env (s\<lparr>m_queueBytes := v8\<rparr>) = all_sealed s0 env s"
  "all_sealed s0 env (s\<lparr>m_trusted := v9\<rparr>) = all_sealed s0 env s"
  "all_sealed s0 env (s\<lparr>m_waitingForKeyframe := v10\<rparr>) = all_sealed s0 env s"
  "all_sealed s0 env (s\<lparr>m_streamGeneration := v11\<rparr>) = all_sealed s0 env s"
  "all_sealed s0 env (s\<lparr>m_pendingFormatGeneration := v12\<rparr>) = all_sealed s0 env s"
  "all_sealed s0 env (s\<lparr>s_security := v13\<rparr>) = all_sealed s0 env s"
  "all_sealed s0 env (s\<lparr>s_connection := v15\<rparr>) = all_sealed s0 env s"
  "all_sealed s0 env (s\<lparr>s_hasConsumer := v16\<rparr>) = all_sealed s0 env s"
  "all_sealed s0 env (s\<lparr>s_hello := v17\<rparr>) = all_sealed s0 env s"
  "all_sealed s0 env (s\<lparr>s_caps := v18\<rparr>) = all_sealed s0 env s"
  "all_sealed s0 env (s\<lparr>s_streamConfig := v19\<rparr>) = all_sealed s0 env s"
  "all_sealed s0 env (s\<lparr>s_queue := v20\<rparr>) = all_sealed s0 env s"
  "all_sealed s0 env (s\<lparr>s_pendingStreamConfig := v21\<rparr>) = all_sealed s0 env s"
  "all_sealed s0 env (s\<lparr>s_nextFormatGeneration := v22\<rparr>) = all_sealed s0 env s"
  "all_sealed s0 env (s\<lparr>s_nextQueueToken := v23\<rparr>) = all_sealed s0 env s"
  "all_sealed s0 env (s\<lparr>s_draining := v24\<rparr>) = all_sealed s0 env s"
  "all_sealed s0 env (s\<lparr>s_resettingConsumer := v25\<rparr>) = all_sealed s0 env s"
  "all_sealed s0 env (s\<lparr>s_connectedAt := v26\<rparr>) = all_sealed s0 env s"
  "all_sealed s0 env (s\<lparr>s_trustAt := v27\<rparr>) = all_sealed s0 env s"
  "all_sealed s0 env (s\<lparr>s_readyAt := v28\<rparr>) = all_sealed s0 env s"
  "all_sealed s0 env (s\<lparr>s_pendingFormatAt := v29\<rparr>) = all_sealed s0 env s"
  "all_sealed s0 env (s\<lparr>s_streamingAt := v30\<rparr>) = all_sealed s0 env s"
  "all_sealed s0 env (s\<lparr>s_lastVideoAt := v31\<rparr>) = all_sealed s0 env s"
  "all_sealed s0 env (s\<lparr>s_lastActivity := v32\<rparr>) = all_sealed s0 env s"
  "all_sealed s0 env (s\<lparr>s_receivedVideo := v33\<rparr>) = all_sealed s0 env s"
  "all_sealed s0 env (s\<lparr>s_watchdog := v34\<rparr>) = all_sealed s0 env s"
  by (simp_all add: all_sealed_def sent_properly_def)

lemma all_sealed_effects [simp]:
  "all_sealed s0 env (notify k d s) = all_sealed s0 env s" "all_sealed s0 env (close_connection s) = all_sealed s0 env s"
  "all_sealed s0 env (protocolFailure d s) = all_sealed s0 env s" "all_sealed s0 env (malformedControl d s) = all_sealed s0 env s"
  "all_sealed s0 env (resetConsumer c g s) = all_sealed s0 env s" "all_sealed s0 env (resetQueueLocked b s) = all_sealed s0 env s"
  "all_sealed s0 env (effect (Consumed u b) s) = all_sealed s0 env s"
  by (simp_all add: notify_def close_connection_def protocolFailure_def malformedControl_def
      resetConsumer_def resetQueueLocked_def)

lemma protector_kept [simp]:
  "s_protector (effect e s) = s_protector s" "s_protector (notify k d s) = s_protector s"
  "s_protector (close_connection s) = s_protector s" "s_protector (protocolFailure d s) = s_protector s"
  "s_protector (malformedControl d s) = s_protector s" "s_protector (resetConsumer c g s) = s_protector s"
  "s_protector (resetQueueLocked b s) = s_protector s"
  "s_protector (snd (sendControl_on env m ch s)) = None \<longleftrightarrow> s_protector s = None"
proof -
  show "s_protector (snd (sendControl_on env m ch s)) = None \<longleftrightarrow> s_protector s = None"
    by (cases "sendControl_on env m ch s") (auto elim: sendControl_on_frame)
qed (simp_all add: notify_def close_connection_def effect_def protocolFailure_def
      malformedControl_def resetConsumer_def resetQueueLocked_def)

lemma handshake_messages [simp]:
  "handshake_message (serverInfo a b c d e)" "handshake_message (authChallenge ch)"
  "handshake_message (authConfirm cf)"
  by (simp_all add: handshake_message_def serverInfo_def authChallenge_def authConfirm_def
      makeMessage_def Let_def)

lemma all_sealed_drain_loop: "all_sealed s0 env s \<Longrightarrow> all_sealed s0 env (drain_loop env s)"
  by (rule drain_loop_keeps[where P = "all_sealed s0 env"])
    (auto simp: drain_finish_def Let_def all_sealed_effects split: list.split)

lemma all_sealed_drain: "all_sealed s0 env s \<Longrightarrow> all_sealed s0 env (drainQueue env s)"
  by (simp add: drainQueue_def drain_enter_def all_sealed_drain_loop)

lemma all_sealed_format_ack:
  "all_sealed s0 env s \<Longrightarrow> s_protector s \<noteq> None \<Longrightarrow> all_sealed s0 env (handleFormatAck env message s)"
  by (auto simp: handleFormatAck_def Let_def case_prod_beta all_sealed_send split: option.split)

lemma all_sealed_format_reject:
  "all_sealed s0 env s \<Longrightarrow> s_protector s \<noteq> None \<Longrightarrow> all_sealed s0 env (handleFormatReject env message s)"
  by (auto simp: handleFormatReject_def Let_def case_prod_beta all_sealed_send split: option.split)

lemma all_sealed_reported: "all_sealed s0 env s \<Longrightarrow> all_sealed s0 env (reported env ok m k d s)"
  by (simp add: reported_def)

lemma all_sealed_stream_start: "all_sealed s0 env s \<Longrightarrow> all_sealed s0 env (handleStreamStart env message s)"
  by (simp add: handleStreamStart_def Let_def)

lemma all_sealed_report: "all_sealed s0 env s \<Longrightarrow> all_sealed s0 env (handleReport env message s)"
  by (simp add: handleReport_def all_sealed_reported all_sealed_stream_start split: option.split)

lemma all_sealed_if: "(c \<Longrightarrow> all_sealed s0 env a) \<Longrightarrow> (\<not> c \<Longrightarrow> all_sealed s0 env b) \<Longrightarrow> all_sealed s0 env (if c then a else b)"
  by simp

text \<open>Without a trust policy, the answer to a hello is a handshake message.\<close>

lemma all_sealed_hello:
  assumes "all_sealed s0 env s" and "s_trustPolicy s = None"
  shows "all_sealed s0 env (handleHello env peer message s)"
proof (cases "parseHello message")
  case None
  then show ?thesis using assms by (simp add: handleHello_def)
next
  case (Some parsed)
  obtain r s1 where h: "hello_trust env peer parsed s = (r, s1)" by fastforce
  from h assms have s1: "all_sealed s0 env s1"
    by (cases rule: hello_trust_cases) (simp_all only: all_sealed_effects all_sealed_fields)
  from h assms(2) have r: "r = None \<or> (\<exists>paired allow c. r = Some (False, paired, allow, c))"
    by (cases rule: hello_trust_cases) auto
  from r consider "r = None" | paired allow c where "r = Some (False, paired, allow, c)" by blast
  then show ?thesis
  proof cases
    case 1
    with Some h s1 assms(1) show ?thesis by (simp add: handleHello_def)
  next
    case 2
    with Some h s1 assms(1) show ?thesis
      by (cases c) (simp_all add: handleHello_def Let_def case_prod_beta all_sealed_send)
  qed
qed

text \<open>With session security, the trusted sessions are the ones with a protector.\<close>

definition secured :: "session \<Rightarrow> bool" where
  "secured s \<longleftrightarrow> s_trustPolicy s = None \<and> (m_trusted s \<longleftrightarrow> s_protector s \<noteq> None) \<and>
     (m_state s = AwaitingTrust \<longrightarrow> \<not> m_trusted s)"

lemma watched_secured: "watched_inv s \<Longrightarrow> s_trustPolicy s = None \<Longrightarrow> secured s"
  by (auto simp: secured_def watched_inv_def session_inv_def trust_inv_def authorised_def)

lemma all_sealed_auth_response:
  assumes "all_sealed s0 env s" and "s_protector s = None"
  shows "all_sealed s0 env (handleAuthResponse env peer message s)"
proof (cases "\<exists>r i sec. parseAuthResponse message = Some r \<and> s_hello s = Some i \<and> s_security s = Some sec")
  case False
  then show ?thesis using assms by (auto simp: handleAuthResponse_def split: option.splits)
next
  case True
  then obtain response identity security where m: "parseAuthResponse message = Some response"
    "s_hello s = Some identity" "s_security s = Some security" by blast
  obtain b security' where f: "finishAuthentication (sv_security env) (sourceAddress peer)
      (h_deviceId identity) (ar_clientNonce response) (ar_clientProof response) (sv_unix env) security
      = (b, security')" by fastforce
  then show ?thesis using m assms
    by (cases b) (simp_all add: handleAuthResponse_def Let_def case_prod_beta all_sealed_send all_sealed_protector)
qed

lemma all_sealed_control:
  assumes "all_sealed s0 env s" and "secured s"
  shows "all_sealed s0 env (handleControl env peer fr s)"
proof (cases "message_decode (fr_payload fr)")
  case (Inl e)
  then show ?thesis using assms by (simp add: handleControl_def split: prod.split)
next
  case (Inr message)
  have p: "s_protector s \<noteq> None" if "\<not> \<not> m_trusted s" using that assms(2) by (simp add: secured_def)
  have a: "s_protector s = None" if "m_state s = AwaitingTrust" using that assms(2) by (auto simp: secured_def)
  have t: "s_trustPolicy s = None" using assms(2) by (simp add: secured_def)
  show ?thesis
    unfolding handleControl_def Inr sum.case Let_def
    by (intro all_sealed_if all_sealed_hello all_sealed_auth_response all_sealed_report
        all_sealed_format_ack all_sealed_format_reject) (use assms(1) p a t in simp_all)
qed

lemma all_sealed_video:
  assumes "all_sealed s0 env s" and "secured s"
  shows "all_sealed s0 env (handleVideo env fr s)"
proof -
  have "m_trusted s \<Longrightarrow> s_protector s \<noteq> None" using assms(2) by (simp add: secured_def)
  then show ?thesis
    by (cases env fr s rule: handleVideo_cases)
      (use assms in \<open>simp_all add: all_sealed_send all_sealed_drain received_def enqueued_def dropped_def\<close>)
qed

lemma all_sealed_dispatch:
  "all_sealed s0 env s \<Longrightarrow> secured s \<Longrightarrow> all_sealed s0 env (dispatch_frame env peer fr s)"
  by (simp add: dispatch_frame_def all_sealed_video all_sealed_control)

text \<open>Opening a frame keeps the outgoing keys, and nothing has been sent by then.\<close>

lemma all_sealed_frame:
  assumes "secured s"
  shows "all_sealed s env (onFrame env peer fr s)"
proof (cases "s_protector s")
  case None
  then show ?thesis by (simp add: onFrame_def all_sealed_refl all_sealed_dispatch assms)
next
  case (Some p)
  have a: "all_sealed s env (s\<lparr>s_protector := Some p'\<rparr>)" for p' by (simp add: all_sealed_def)
  have t: "secured (s\<lparr>s_protector := Some p'\<rparr>)" for p' using assms Some by (auto simp: secured_def)
  show ?thesis
    using Some by (auto simp: onFrame_def all_sealed_refl a t intro!: all_sealed_dispatch
        split: prod.split sum.split)
qed

lemma all_sealed_connected:
  "Sent m fr ok \<notin> set (drop (length (s_out s)) (s_out (onConnected env peer s)))"
  by (simp add: onConnected_def close_connection_def notify_def effect_def Let_def)

lemma all_sealed_disconnected:
  "Sent m fr ok \<notin> set (drop (length (s_out s)) (s_out (onDisconnected orderly s)))"
  by (simp add: onDisconnected_def resetQueueLocked_def notify_def effect_def Let_def)

lemma all_sealed_sendControl:
  "all_sealed s0 env s \<Longrightarrow> secured s \<Longrightarrow> all_sealed s0 env (snd (sendControl env m ch s))"
  by (simp add: sendControl_def secured_def all_sealed_send)

lemma all_sealed_sendFormat:
  "all_sealed s0 env s \<Longrightarrow> secured s \<Longrightarrow> all_sealed s0 env (snd (sendFormat env config s))"
  by (simp add: sendFormat_def Let_def case_prod_beta secured_def all_sealed_send)

lemma all_sealed_setConsumer: "all_sealed s0 env s \<Longrightarrow> all_sealed s0 env (setConsumer env present s)"
  by (simp add: setConsumer_def Let_def all_sealed_drain)

lemma all_sealed_watchdog: "all_sealed s0 env s \<Longrightarrow> all_sealed s0 env (watchdog_tick env s)"
  by (simp add: watchdog_tick_def split: option.split)

text \<open>The environment of a step, which has the cryptography it uses; a disconnect needs none.\<close>

fun op_env :: "session_op \<Rightarrow> session_env option" where
  "op_env (OpConnected env peer) = Some env"
| "op_env (OpFrame env peer fr) = Some env"
| "op_env (OpDisconnected orderly) = None"
| "op_env (OpPreview env enabled) = Some env"
| "op_env (OpCamera env lens position) = Some env"
| "op_env (OpControls env controls) = Some env"
| "op_env (OpFormat env config) = Some env"
| "op_env (OpStats env values) = Some env"
| "op_env (OpKeyframe env) = Some env"
| "op_env (OpConsumer env present) = Some env"
| "op_env (OpWatchdog env) = Some env"

lemma all_sealed_step:
  assumes "secured s"
    and "Sent m fr ok \<in> set (drop (length (s_out s)) (s_out (session_step s e)))"
  shows "\<exists>env. op_env e = Some env \<and> sent_properly s env (session_step s e) m fr"
proof -
  have "all_sealed s env (session_step s e)" if "op_env e = Some env" "\<forall>peer. e \<noteq> OpConnected env peer" for env
    using that by (cases e) (simp_all add: assms(1) all_sealed_refl all_sealed_frame all_sealed_sendControl
      all_sealed_sendFormat all_sealed_setConsumer all_sealed_watchdog sendPreview_def sendCamera_def
      sendControls_def sendStats_def session_requestKeyframe_def)
  then show ?thesis
    using assms(2) by (cases e) (simp_all add: all_sealed_connected all_sealed_disconnected all_sealed_def, blast+)
qed

end
