(* ===== verification/SessionStream.thy ===== *)
theory SessionStream
  imports SessionProps
begin

text \<open>
  The stream side of the session controller: the format negotiation as a small protocol that the
  controller refines, what the consumer is given, and what an untrusted peer can change.
\<close>

subsection \<open>Steps that leave the stream alone\<close>

fun consumer_effect :: "effect \<Rightarrow> bool" where
  "consumer_effect (ConsumerReset _ _) = True" | "consumer_effect (Consumed _ _) = True"
| "consumer_effect _ = False"

definition consumer_trace :: "session \<Rightarrow> effect list" where
  "consumer_trace s = filter consumer_effect (s_out s)"

definition before_streaming :: "session_state \<Rightarrow> bool" where
  "before_streaming st \<longleftrightarrow> st = AwaitingHello \<or> st = AwaitingTrust \<or> st = Ready"

definition stream_state :: "session \<Rightarrow> (stream_config \<times> u64 \<times> stream_config option \<times> u64 \<times> u64) \<times>
    ((u64 \<times> encoded_access_unit) list \<times> bool \<times> bool) \<times> effect list" where
  "stream_state s =
     ((s_streamConfig s, m_streamGeneration s, s_pendingStreamConfig s, m_pendingFormatGeneration s,
       s_nextFormatGeneration s),
      (s_queue s, m_waitingForKeyframe s, s_hasConsumer s), consumer_trace s)"

text \<open>A quiet step: the stream is as it was, and the session does not start streaming.\<close>

definition quiet :: "session \<Rightarrow> session \<Rightarrow> bool" where
  "quiet s s' \<longleftrightarrow> stream_state s' = stream_state s \<and>
     (m_state s' = Streaming \<longrightarrow> m_state s = Streaming) \<and>
     (before_streaming (m_state s') \<longrightarrow> before_streaming (m_state s))"

lemma quiet_refl [simp]: "quiet s s"
  by (simp add: quiet_def)

lemma quiet_trans: "quiet s s' \<Longrightarrow> quiet s' s'' \<Longrightarrow> quiet s s''"
  by (simp add: quiet_def)

lemma quiet_if: "(c \<Longrightarrow> quiet s a) \<Longrightarrow> (\<not> c \<Longrightarrow> quiet s b) \<Longrightarrow> quiet s (if c then a else b)"
  by simp

lemmas quiet_defs = quiet_def stream_state_def consumer_trace_def before_streaming_def

lemma quiet_effects:
  "quiet s s' \<Longrightarrow> quiet s (notify k d s')"
  "quiet s s' \<Longrightarrow> quiet s (close_connection s')" "quiet s s' \<Longrightarrow> quiet s (protocolFailure d s')"
  "quiet s s' \<Longrightarrow> quiet s (malformedControl d s')"
  by (auto simp: quiet_defs effect_def notify_def close_connection_def protocolFailure_def
      malformedControl_def)

lemma consumer_trace_send: "consumer_trace (snd (sendControl_on env m ch s)) = consumer_trace s"
  by (auto simp: consumer_trace_def sendControl_on_def connection_send_def effect_def notify_def Let_def
      split: option.split sum.split prod.split)

lemma nextFormatGeneration_send [simp]:
  "s_nextFormatGeneration (snd (sendControl_on env m ch s)) = s_nextFormatGeneration s"
  by (subst sendControl_on_snd) simp

lemma quiet_send: "quiet s s' \<Longrightarrow> quiet s (snd (sendControl_on env m ch s'))"
  by (simp add: quiet_def stream_state_def consumer_trace_send)

lemma quiet_fields:
  "quiet s s' \<Longrightarrow> quiet s (s'\<lparr>s_protector := p\<rparr>)"
  "quiet s s' \<Longrightarrow> quiet s (s'\<lparr>s_security := sec\<rparr>)"
  "quiet s s' \<Longrightarrow> quiet s (s'\<lparr>s_resettingConsumer := r\<rparr>)"
  "quiet s s' \<Longrightarrow> quiet s (s'\<lparr>m_controlMessages := n\<rparr>)"
  "quiet s s' \<Longrightarrow> quiet s (s'\<lparr>m_droppedFrames := n\<rparr>)"
  "quiet s s' \<Longrightarrow> quiet s (s'\<lparr>s_lastActivity := t\<rparr>)"
  "quiet s s' \<Longrightarrow> quiet s (s'\<lparr>s_caps := c, s_lastActivity := t\<rparr>)"
  by (simp_all add: quiet_defs)

lemmas quiet_intros = quiet_effects quiet_send quiet_fields

lemma quiet_hello:
  assumes "m_state s = AwaitingHello"
  shows "quiet s (handleHello env peer message s)"
proof (cases "parseHello message")
  case None
  then show ?thesis by (simp add: handleHello_def quiet_effects)
next
  case (Some parsed)
  obtain r s1 where h: "hello_trust env peer parsed s = (r, s1)" by fastforce
  then have s1: "quiet s s1" by (cases rule: hello_trust_cases) (simp_all add: quiet_effects quiet_fields)
  show ?thesis
  proof (cases r)
    case None
    then show ?thesis using Some h s1 by (simp add: handleHello_def quiet_effects)
  next
    case d: (Some d)
    obtain trusted paired allow c where d': "d = (trusted, paired, allow, c)" by (cases d) auto
    note hd = h[unfolded d d']
    have "quiet s (s1\<lparr>s_hello := Some parsed, m_trusted := trusted,
                            m_state := (if trusted then Ready else AwaitingTrust),
                            s_lastActivity := t1, s_trustAt := t2, s_readyAt := t3\<rparr>)" for t1 t2 t3
      using s1 assms by (simp add: quiet_defs)
    note q = this this[where ?t3.0 = "s_readyAt s1"]
    show ?thesis
    proof (cases trusted)
      case True
      with q Some hd s1 show ?thesis
        by (cases c) (simp_all add: handleHello_def Let_def case_prod_beta quiet_intros)
    next
      case False
      with q Some hd s1 show ?thesis
        by (cases c) (simp_all add: handleHello_def Let_def case_prod_beta quiet_intros)
    qed
  qed
qed

lemma quiet_auth_response:
  assumes "m_state s = AwaitingTrust"
  shows "quiet s (handleAuthResponse env peer message s)"
proof (cases "\<exists>r i sec. parseAuthResponse message = Some r \<and> s_hello s = Some i \<and> s_security s = Some sec")
  case False
  then show ?thesis by (auto simp: handleAuthResponse_def quiet_effects split: option.splits)
next
  case True
  then obtain response identity security where m: "parseAuthResponse message = Some response"
    "s_hello s = Some identity" "s_security s = Some security" by blast
  obtain b security' where f: "finishAuthentication (sv_security env) (sourceAddress peer)
      (h_deviceId identity) (ar_clientNonce response) (ar_clientProof response) (sv_unix env) security
      = (b, security')" by fastforce
  have "quiet s (s'\<lparr>s_protector := p, m_trusted := True, m_state := Ready, s_readyAt := t1,
      s_lastActivity := t2\<rparr>)" if "quiet s s'" for s' p t1 t2
    using that assms by (simp add: quiet_defs)
  then show ?thesis using m f
    by (cases b) (simp_all add: handleAuthResponse_def Let_def case_prod_beta quiet_intros)
qed

lemma quiet_reported: "quiet s (reported env ok m k d s)"
  by (simp add: reported_def quiet_intros)

lemma quiet_report:
  "msg_type message \<noteq> ''stream_start'' \<Longrightarrow> quiet s (handleReport env message s)"
  by (simp add: handleReport_def quiet_reported quiet_intros split: option.split)

subsection \<open>The format protocol\<close>

text \<open>
  What a change of format promises: one change at a time, each with a number of its own; the
  configuration in force replaced by the pending one when, and only when, the phone acknowledges
  its number; the pending one dropped when, and only when, the phone rejects its number.
\<close>

record format_spec =
  fs_current :: stream_config
  fs_generation :: u64
  fs_pending :: "(stream_config \<times> u64) option"
  fs_next :: u64

datatype format_event =
    Restarted
  | Ended
  | Requested stream_config bool
  | Acknowledged u64
  | Rejected u64
  | Silent

inductive format_protocol ::
  "stream_config \<Rightarrow> format_event \<Rightarrow> format_spec \<Rightarrow> format_spec \<Rightarrow> bool" for initial where
  restarted: "format_protocol initial Restarted f
     \<lparr>fs_current = initial, fs_generation = 0, fs_pending = None, fs_next = 1\<rparr>"
| ended: "format_protocol initial Ended f (f\<lparr>fs_generation := 0, fs_pending := None\<rparr>)"
| requested: "fs_pending f = None \<Longrightarrow> stream_config_valid c \<Longrightarrow> format_protocol initial (Requested c True) f
     (f\<lparr>fs_pending := Some (c, fs_next f), fs_next := fs_next f + 1\<rparr>)"
| not_sent: "fs_pending f = None \<Longrightarrow> format_protocol initial (Requested c False) f (f\<lparr>fs_next := fs_next f + 1\<rparr>)"
| refused: "format_protocol initial (Requested c False) f f"
| acknowledged: "fs_pending f = Some (c, g) \<Longrightarrow> format_protocol initial (Acknowledged g) f
     (f\<lparr>fs_current := c, fs_generation := g, fs_pending := None\<rparr>)"
| rejected: "fs_pending f = Some (c, g) \<Longrightarrow> format_protocol initial (Rejected g) f (f\<lparr>fs_pending := None\<rparr>)"
| mismatched: "a = Acknowledged g \<or> a = Rejected g \<Longrightarrow> \<forall>c. fs_pending f \<noteq> Some (c, g) \<Longrightarrow> format_protocol initial a f f"
| silent: "format_protocol initial Silent f f"

text \<open>
  What the controller hears: an answer is a control message of a trusted phone whose session is
  ready or streaming, read from the payload the protector has opened when there is one.
\<close>

definition frame_plaintext :: "session_env \<Rightarrow> frame \<Rightarrow> session \<Rightarrow> bytes option" where
  "frame_plaintext env fr s =
     (case s_protector s of
        None \<Rightarrow> if fr_flags fr AND kEncrypted = 0 then Some (fr_payload fr) else None
      | Some p \<Rightarrow>
          (case fst (open_frame env (encryptMedia (s_config s)) fr p) of
             Inl e \<Rightarrow> None | Inr plaintext \<Rightarrow> Some plaintext))"

definition message_answer :: "message \<Rightarrow> format_event" where
  "message_answer m =
     (if msg_type m = ''format_ack'' then
        (case parseFormatAck m of None \<Rightarrow> Silent | Some g \<Rightarrow> Acknowledged g)
      else if msg_type m = ''format_reject'' then
        (case parseFormatReject m of None \<Rightarrow> Silent | Some r \<Rightarrow> Rejected (fr_generation r))
      else Silent)"

definition listens :: "session \<Rightarrow> bool" where
  "listens s \<longleftrightarrow> m_trusted s \<and> (m_state s = Ready \<or> m_state s = Streaming) \<and> \<not> s_resettingConsumer s"

definition payload_answer :: "bytes \<Rightarrow> session \<Rightarrow> format_event" where
  "payload_answer plaintext s =
     (if \<not> listens s then Silent
      else case message_decode plaintext of Inl e \<Rightarrow> Silent | Inr m \<Rightarrow> message_answer m)"

definition frame_answer :: "session_env \<Rightarrow> frame \<Rightarrow> session \<Rightarrow> format_event" where
  "frame_answer env fr s =
     (if fr_channel fr \<noteq> channelControl \<or> isKeyframe fr \<or> fr_flags fr AND kEndOfFragment \<noteq> 0 then Silent
      else case frame_plaintext env fr s of None \<Rightarrow> Silent | Some plaintext \<Rightarrow> payload_answer plaintext s)"

fun heard_event :: "session \<Rightarrow> session_op \<Rightarrow> format_event" where
  "heard_event s (OpConnected env peer) = Restarted"
| "heard_event s (OpDisconnected orderly) = Ended"
| "heard_event s (OpFormat env c) = Requested c (succeeded (fst (sendFormat env c s)))"
| "heard_event s (OpFrame env peer fr) = frame_answer env fr s"
| "heard_event s e = Silent"

definition abs_format :: "session \<Rightarrow> format_spec" where
  "abs_format s =
     \<lparr>fs_current = s_streamConfig s, fs_generation = m_streamGeneration s,
      fs_pending = map_option (\<lambda>c. (c, m_pendingFormatGeneration s)) (s_pendingStreamConfig s),
      fs_next = s_nextFormatGeneration s\<rparr>"

lemma quiet_abs_format: "quiet s s' \<Longrightarrow> abs_format s' = abs_format s"
  by (simp add: quiet_def stream_state_def abs_format_def)

lemma abs_format_kept [simp]:
  "abs_format (notify k d s) = abs_format s" "abs_format (effect e s) = abs_format s"
  "abs_format (close_connection s) = abs_format s"
  "abs_format (protocolFailure d s) = abs_format s" "abs_format (malformedControl d s) = abs_format s"
  "abs_format (resetConsumer c g s) = abs_format s" "abs_format (resetQueueLocked b s) = abs_format s"
  "abs_format (s\<lparr>s_resettingConsumer := r\<rparr>) = abs_format s"
  "abs_format (s\<lparr>s_draining := r\<rparr>) = abs_format s"
  "abs_format (s\<lparr>s_hasConsumer := r\<rparr>) = abs_format s"
  "abs_format (s\<lparr>m_droppedFrames := n\<rparr>) = abs_format s"
  "abs_format (s\<lparr>m_controlMessages := n\<rparr>) = abs_format s"
  "abs_format (s\<lparr>s_protector := p\<rparr>) = abs_format s"
  "abs_format (snd (sendControl_on env m ch s)) = abs_format s"
  by (simp_all add: abs_format_def notify_def effect_def close_connection_def protocolFailure_def
      malformedControl_def resetConsumer_def resetQueueLocked_def)

lemma abs_format_drain [simp]: "abs_format (drainQueue env s) = abs_format s"
proof -
  have "abs_format (drain_loop env t) = abs_format t" for t
    by (rule drain_loop_keeps[where P = "\<lambda>s. abs_format s = abs_format t"])
      (auto simp: drain_finish_def abs_format_def effect_def Let_def split: list.split)
  then show ?thesis by (simp add: drainQueue_def drain_enter_def)
qed

lemma abs_format_video [simp]: "abs_format (handleVideo env fr s) = abs_format s"
proof -
  have "abs_format (received env fr t) = abs_format t" "abs_format (enqueued fr t) = abs_format t"
    "abs_format (dropped t) = abs_format t" for t
    by (simp_all add: abs_format_def received_def enqueued_def dropped_def)
  then show ?thesis by (cases env fr s rule: handleVideo_cases) simp_all
qed

lemma format_stream_start: "abs_format (handleStreamStart env message s) = abs_format s"
proof -
  have "abs_format (s\<lparr>m_state := Streaming, s_resettingConsumer := r, s_streamingAt := t1,
      s_lastVideoAt := t2, s_lastActivity := t3, s_receivedVideo := v\<rparr>) = abs_format s" for r t1 t2 t3 v
    by (simp add: abs_format_def)
  then show ?thesis by (simp add: handleStreamStart_def Let_def)
qed

lemma abs_format_report: "abs_format (handleReport env message s) = abs_format s"
proof (cases "msg_type message = ''stream_start''")
  case True
  then show ?thesis by (simp add: handleReport_def format_stream_start)
next
  case False
  then show ?thesis by (intro quiet_abs_format quiet_report)
qed

text \<open>An answer does what it says, and anything else leaves the format alone.\<close>

lemma format_ack_step:
  assumes "\<not> s_resettingConsumer s"
  shows "format_protocol initial (case parseFormatAck message of None \<Rightarrow> Silent | Some g \<Rightarrow> Acknowledged g)
    (abs_format s) (abs_format (handleFormatAck env message s))"
proof (cases "parseFormatAck message")
  case None
  then show ?thesis by (simp add: handleFormatAck_def silent)
next
  case (Some g)
  show ?thesis
  proof (cases "\<exists>c. s_pendingStreamConfig s = Some c \<and> m_pendingFormatGeneration s = g")
    case False
    then have "abs_format (handleFormatAck env message s) = abs_format s"
      by (auto simp: handleFormatAck_def Some split: option.split)
    with False Some show ?thesis by (auto intro!: mismatched simp: abs_format_def)
  next
    case True
    then obtain c where m: "s_pendingStreamConfig s = Some c" "m_pendingFormatGeneration s = g" by blast
    have "abs_format (t\<lparr>s_streamConfig := c, s_pendingStreamConfig := None, m_streamGeneration := g,
        m_pendingFormatGeneration := 0, m_waitingForKeyframe := True, s_resettingConsumer := True,
        s_receivedVideo := False, s_lastActivity := t1, s_streamingAt := t2, s_lastVideoAt := t3\<rparr>) =
        (abs_format t)\<lparr>fs_current := c, fs_generation := g, fs_pending := None\<rparr>" for t t1 t2 t3
      by (simp add: abs_format_def)
    with m Some assms have "abs_format (handleFormatAck env message s) =
        (abs_format s)\<lparr>fs_current := c, fs_generation := g, fs_pending := None\<rparr>"
      by (simp add: handleFormatAck_def Let_def case_prod_beta)
    moreover have "fs_pending (abs_format s) = Some (c, g)" using m by (simp add: abs_format_def)
    ultimately show ?thesis by (simp add: Some acknowledged)
  qed
qed

lemma format_reject_step:
  assumes "\<not> s_resettingConsumer s"
  shows "format_protocol initial
    (case parseFormatReject message of None \<Rightarrow> Silent | Some r \<Rightarrow> Rejected (fr_generation r))
    (abs_format s) (abs_format (handleFormatReject env message s))"
proof (cases "parseFormatReject message")
  case None
  then show ?thesis by (simp add: handleFormatReject_def silent)
next
  case (Some r)
  show ?thesis
  proof (cases "\<exists>c. s_pendingStreamConfig s = Some c \<and> m_pendingFormatGeneration s = fr_generation r")
    case False
    then have "abs_format (handleFormatReject env message s) = abs_format s"
      by (auto simp: handleFormatReject_def Some)
    with False Some show ?thesis by (auto intro!: mismatched simp: abs_format_def)
  next
    case True
    then obtain c where m: "s_pendingStreamConfig s = Some c" "m_pendingFormatGeneration s = fr_generation r" by blast
    have "abs_format (t\<lparr>s_pendingStreamConfig := None, m_pendingFormatGeneration := 0,
        m_waitingForKeyframe := True, s_receivedVideo := False, s_lastActivity := t1, s_streamingAt := t2,
        s_lastVideoAt := t3\<rparr>) = (abs_format t)\<lparr>fs_pending := None\<rparr>" for t t1 t2 t3
      by (simp add: abs_format_def)
    with m Some assms have "abs_format (handleFormatReject env message s) = (abs_format s)\<lparr>fs_pending := None\<rparr>"
      by (simp add: handleFormatReject_def Let_def case_prod_beta)
    moreover have "fs_pending (abs_format s) = Some (c, fr_generation r)" using m by (simp add: abs_format_def)
    ultimately show ?thesis by (simp add: Some rejected)
  qed
qed

text \<open>While the session does not listen to answers, no control message touches the format.\<close>

lemma format_ack_unheard:
  "s_resettingConsumer s \<Longrightarrow> abs_format (handleFormatAck env message s) = abs_format s"
  "s_resettingConsumer s \<Longrightarrow> abs_format (handleFormatReject env message s) = abs_format s"
  by (auto simp: handleFormatAck_def handleFormatReject_def split: option.split)

lemma abs_format_if: "(c \<Longrightarrow> abs_format a = f) \<Longrightarrow> (\<not> c \<Longrightarrow> abs_format b = f) \<Longrightarrow> abs_format (if c then a else b) = f"
  by simp

lemma format_control_step:
  "format_protocol initial (payload_answer (fr_payload fr) s) (abs_format s) (abs_format (handleControl env peer fr s))"
proof (cases "message_decode (fr_payload fr)")
  case (Inl e)
  then show ?thesis by (simp add: handleControl_def payload_answer_def silent split: prod.split)
next
  case (Inr message)
  let ?s = "s\<lparr>m_controlMessages := m_controlMessages s + 1\<rparr>"
  have l: "abs_format ?s = abs_format s" "s_resettingConsumer ?s = s_resettingConsumer s" by simp_all
  have q: "abs_format t = abs_format s" if "quiet ?s t" for t using quiet_abs_format[OF that] by simp
  show ?thesis
  proof (cases "listens s \<and> (msg_type message = ''format_ack'' \<or> msg_type message = ''format_reject'')")
    case True
    then have n: "\<not> s_resettingConsumer s" "payload_answer (fr_payload fr) s = message_answer message"
      by (simp_all add: payload_answer_def listens_def Inr)
    show ?thesis
    proof (cases "msg_type message = ''format_ack''")
      case ack: True
      then have "handleControl env peer fr s = handleFormatAck env message ?s"
        using True by (auto simp: handleControl_def Inr Let_def listens_def isPcToPhoneMessage_def)
      then show ?thesis using format_ack_step[of ?s] n ack by (simp add: message_answer_def)
    next
      case False
      with True have rej: "msg_type message = ''format_reject''" by simp
      then have "handleControl env peer fr s = handleFormatReject env message ?s"
        using True by (auto simp: handleControl_def Inr Let_def listens_def isPcToPhoneMessage_def)
      then show ?thesis using format_reject_step[of ?s] n rej by (simp add: message_answer_def)
    qed
  next
    case False
    then have a: "payload_answer (fr_payload fr) s = Silent"
      by (auto simp: payload_answer_def message_answer_def Inr)
    have "s_resettingConsumer s" if "\<not> \<not> m_trusted s" "\<not> (m_state s \<noteq> Ready \<and> m_state s \<noteq> Streaming)"
      "msg_type message = ''format_ack'' \<or> msg_type message = ''format_reject''"
      using False that by (auto simp: listens_def)
    then have "abs_format (handleControl env peer fr s) = abs_format s"
      unfolding handleControl_def Inr sum.case Let_def
      by (intro abs_format_if) (simp_all add: q quiet_hello quiet_auth_response abs_format_report format_ack_unheard)
    then show ?thesis by (simp add: a silent)
  qed
qed

lemma format_dispatch_step:
  "format_protocol initial
     (if fr_channel fr \<noteq> channelControl \<or> isKeyframe fr then Silent else payload_answer (fr_payload fr) s)
     (abs_format s) (abs_format (dispatch_frame env peer fr s))"
  using format_control_step[of initial fr s env peer]
  by (auto simp: dispatch_frame_def silent channelControl_def channelVideo_def channelAudio_def)

lemma keyframe_encrypted [simp]: "isKeyframe (fr\<lparr>fr_payload := x, fr_flags := fr_flags fr AND NOT kEncrypted\<rparr>) = isKeyframe fr"
proof -
  have "NOT kEncrypted AND kKeyframe = kKeyframe" by (simp add: kEncrypted_def kKeyframe_def)
  then show ?thesis by (simp add: isKeyframe_def and.assoc)
qed

lemma payload_answer_protector [simp]: "payload_answer x (s\<lparr>s_protector := p\<rparr>) = payload_answer x s"
  by (simp add: payload_answer_def listens_def)

lemma format_frame_step:
  "format_protocol initial (frame_answer env fr s) (abs_format s) (abs_format (onFrame env peer fr s))"
proof (cases "fr_flags fr AND kEndOfFragment = 0")
  case False
  then show ?thesis by (simp add: onFrame_def frame_answer_def silent)
next
  case flags: True
  show ?thesis
  proof (cases "s_protector s")
    case None
    show ?thesis
    proof (cases "fr_flags fr AND kEncrypted = 0")
      case True
      with None flags show ?thesis
        using format_dispatch_step[of initial fr s env peer]
        by (auto simp: onFrame_def frame_answer_def frame_plaintext_def split: if_splits)
    qed (use None flags in \<open>simp add: onFrame_def frame_answer_def frame_plaintext_def silent\<close>)
  next
    case (Some p)
    obtain r p' where o: "open_frame env (encryptMedia (s_config s)) fr p = (r, p')" by fastforce
    show ?thesis
    proof (cases r)
      case (Inl e)
      with Some flags o show ?thesis by (simp add: onFrame_def frame_answer_def frame_plaintext_def silent)
    next
      case (Inr plaintext)
      let ?fr = "fr\<lparr>fr_payload := plaintext, fr_flags := fr_flags fr AND NOT kEncrypted\<rparr>"
      have "format_protocol initial (frame_answer env fr s) (abs_format s)
          (abs_format (dispatch_frame env peer ?fr (s\<lparr>s_protector := Some p'\<rparr>)))"
        using format_dispatch_step[of initial ?fr "s\<lparr>s_protector := Some p'\<rparr>" env peer]
        by (auto simp: frame_answer_def frame_plaintext_def Some o Inr flags split: if_splits)
      then show ?thesis using Some flags o Inr
        by (auto simp: onFrame_def frame_answer_def silent channelAudio_def channelControl_def)
    qed
  qed
qed

lemma format_sendFormat:
  "format_protocol initial (Requested c (succeeded (fst (sendFormat env c s)))) (abs_format s)
     (abs_format (snd (sendFormat env c s)))"
proof (cases "stream_config_valid c \<and> s_connection s \<noteq> None \<and> m_trusted s \<and> m_state s = Streaming \<and>
    s_pendingStreamConfig s = None \<and> \<not> s_resettingConsumer s")
  case False
  then have "abs_format (snd (sendFormat env c s)) = abs_format s" "\<not> succeeded (fst (sendFormat env c s))"
    by (auto simp: sendFormat_def succeeded_def)
  then show ?thesis by (simp add: refused)
next
  case True
  let ?s = "resetQueueLocked True (s\<lparr>s_nextFormatGeneration := s_nextFormatGeneration s + 1,
      s_pendingStreamConfig := Some c, m_pendingFormatGeneration := s_nextFormatGeneration s,
      s_pendingFormatAt := sv_now env\<rparr>)"
  let ?send = "sendControl_on env (setFormat c (s_nextFormatGeneration s)) channelControl ?s"
  have none: "fs_pending (abs_format s) = None" using True by (simp add: abs_format_def)
  have p: "abs_format ?s = (abs_format s)\<lparr>fs_pending := Some (c, fs_next (abs_format s)),
      fs_next := fs_next (abs_format s) + 1\<rparr>"
    by (simp only: abs_format_kept) (simp add: abs_format_def)
  have q: "abs_format (t\<lparr>s_pendingStreamConfig := None, m_pendingFormatGeneration := 0\<rparr>) =
      (abs_format t)\<lparr>fs_pending := None\<rparr>" for t
    by (simp add: abs_format_def)
  show ?thesis
  proof (cases "succeeded (fst ?send)")
    case ok: True
    then have "abs_format (snd (sendFormat env c s)) = abs_format ?s" "succeeded (fst (sendFormat env c s))"
      using True by (auto simp: sendFormat_def Let_def case_prod_beta)
    then show ?thesis using True none by (simp only: p requested)
  next
    case False
    have n: "(abs_format s)\<lparr>fs_next := n, fs_pending := None\<rparr> = (abs_format s)\<lparr>fs_next := n\<rparr>" for n
      using none by (cases "abs_format s") simp
    then have "abs_format (snd (sendFormat env c s)) =
        (abs_format s)\<lparr>fs_next := fs_next (abs_format s) + 1\<rparr>" "\<not> succeeded (fst (sendFormat env c s))"
      using True False p by (auto simp: sendFormat_def Let_def case_prod_beta q n)
    then show ?thesis using none by (simp only: not_sent)
  qed
qed

lemma format_connected:
  "abs_format (onConnected env peer s) =
     \<lparr>fs_current = initialStream (s_config s), fs_generation = 0, fs_pending = None, fs_next = 1\<rparr>"
  by (simp add: onConnected_def Let_def abs_format_def notify_def effect_def close_connection_def)

lemma format_disconnected:
  "abs_format (onDisconnected orderly s) = (abs_format s)\<lparr>fs_generation := 0, fs_pending := None\<rparr>"
  by (simp add: onDisconnected_def Let_def) (simp add: abs_format_def)

lemma abs_format_watchdog: "abs_format (watchdog_tick env s) = abs_format s"
  by (simp add: watchdog_tick_def split: option.split) (simp add: abs_format_def)

lemma abs_format_setConsumer: "abs_format (setConsumer env present s) = abs_format s"
  by (simp add: setConsumer_def Let_def)

lemma abs_format_sendControl: "abs_format (snd (sendControl env m ch s)) = abs_format s"
  by (simp add: sendControl_def)

lemma format_refines_step:
  "format_protocol (initialStream (s_config s)) (heard_event s e) (abs_format s) (abs_format (session_step s e))"
  by (cases e) (simp_all add: restarted ended silent format_connected format_disconnected format_sendFormat
    format_frame_step abs_format_watchdog abs_format_setConsumer abs_format_sendControl
    sendPreview_def sendCamera_def sendControls_def sendStats_def session_requestKeyframe_def)

text \<open>
  Property C5: a change of format is a transaction.  Every operation of the controller is a step of the
  format protocol, with what the controller heard as its label.  A new connection starts from the
  configured stream.  A request succeeds only for a valid configuration when none is pending,
  and gives the pending change the next number.  A frame is an answer only when the phone is
  trusted, the session ready or streaming, and its opened payload is a \<open>format_ack\<close> or a
  \<open>format_reject\<close>: an acknowledgement of the pending number puts exactly the pending
  configuration in force, with that number; a rejection of the pending number drops it and keeps
  the one in force; an answer with any other number, and every other frame and operation, leaves
  the format alone.
\<close>

theorem format_protocol_refined:
  "format_protocol (initialStream (s_config s)) (heard_event s e) (abs_format s) (abs_format (session_step s e))"
  by (rule format_refines_step)

subsection \<open>What the consumer is given\<close>

text \<open>
  The consumer's side of the trace: the last reset, whether no unit has been handed over since, and
  whether every unit so far came after a reset, had its codec and generation, and was a
  keyframe when it was the first.
\<close>

record delivery =
  dl_reset :: "(stream_config \<times> u64) option"
  dl_fresh :: bool
  dl_ok :: bool

fun deliver :: "delivery \<Rightarrow> effect \<Rightarrow> delivery" where
  "deliver d (ConsumerReset c g) = d\<lparr>dl_reset := Some (c, g), dl_fresh := True\<rparr>"
| "deliver d (Consumed u b) =
     d\<lparr>dl_fresh := False,
       dl_ok := dl_ok d \<and>
         (case dl_reset d of
            None \<Rightarrow> False
          | Some (c, g) \<Rightarrow> eu_generation u = g \<and> eu_codec u = sc_codec c \<and> (dl_fresh d \<longrightarrow> eu_keyframe u))\<rparr>"
| "deliver d _ = d"

definition delivered :: "effect list \<Rightarrow> delivery" where
  "delivered es = foldl deliver \<lparr>dl_reset = None, dl_fresh = False, dl_ok = True\<rparr> es"

definition delivery_state :: "session \<Rightarrow> delivery" where
  "delivery_state s = delivered (s_out s)"

lemma delivered_filter: "delivered (filter consumer_effect es) = delivered es"
proof -
  have "foldl deliver d (filter consumer_effect es) = foldl deliver d es" for d
  proof (induction es arbitrary: d)
    case (Cons e es)
    then show ?case by (cases e) simp_all
  qed simp
  then show ?thesis by (simp add: delivered_def)
qed

lemma delivery_state_trace: "delivery_state s = delivered (consumer_trace s)"
  by (simp add: delivery_state_def consumer_trace_def delivered_filter)

lemma delivery_quiet: "quiet s s' \<Longrightarrow> delivery_state s' = delivery_state s"
  by (simp add: delivery_state_trace quiet_def stream_state_def)

lemma delivered_snoc [simp]: "delivered (es @ [e]) = deliver (delivered es) e"
  by (simp add: delivered_def)

lemma delivery_effect: "delivery_state (effect e s) = deliver (delivery_state s) e"
  by (simp add: delivery_state_def delivered_def effect_def)

definition delivery_inv :: "session \<Rightarrow> bool" where
  "delivery_inv s \<longleftrightarrow> s_hasConsumer s \<and> dl_ok (delivery_state s) \<and>
     (before_streaming (m_state s) \<longrightarrow> s_queue s = [] \<and> m_waitingForKeyframe s) \<and>
     (m_state s = Streaming \<longrightarrow>
        dl_reset (delivery_state s) = Some (s_streamConfig s, m_streamGeneration s) \<and>
        (dl_fresh (delivery_state s) \<longrightarrow>
           (if s_queue s = [] then m_waitingForKeyframe s else eu_keyframe (snd (hd (s_queue s))))))"

lemma delivery_inv_quiet:
  assumes "quiet s s'" and "delivery_inv s"
  shows "delivery_inv s'"
proof -
  have f: "s_hasConsumer s' = s_hasConsumer s" "s_queue s' = s_queue s"
    "m_waitingForKeyframe s' = m_waitingForKeyframe s" "s_streamConfig s' = s_streamConfig s"
    "m_streamGeneration s' = m_streamGeneration s"
    "m_state s' = Streaming \<Longrightarrow> m_state s = Streaming"
    "before_streaming (m_state s') \<Longrightarrow> before_streaming (m_state s)"
    using assms(1) by (simp_all add: quiet_def stream_state_def)
  show ?thesis
    using assms(2) f(6,7) unfolding delivery_inv_def f(1-5) delivery_quiet[OF assms(1)] by blast
qed

text \<open>The fields the invariant reads, in one place.\<close>

lemma delivery_inv_cong:
  assumes "delivery_inv s" and "s_hasConsumer s' = s_hasConsumer s" and "delivery_state s' = delivery_state s"
    and "m_state s' = m_state s" and "s_queue s' = s_queue s" and "m_waitingForKeyframe s' = m_waitingForKeyframe s"
    and "s_streamConfig s' = s_streamConfig s" and "m_streamGeneration s' = m_streamGeneration s"
  shows "delivery_inv s'"
  using assms by (simp add: delivery_inv_def)

lemma delivery_reset_queue: "delivery_inv s \<Longrightarrow> delivery_inv (resetQueueLocked b s)"
  by (simp add: delivery_inv_def resetQueueLocked_def delivery_state_def)

text \<open>A reset of the consumer with the configuration that is in force, the queue empty.\<close>

lemma delivery_consumer_reset:
  assumes "s_hasConsumer s" and "dl_ok (delivery_state s)" and "m_state s = Streaming"
    and "s_queue s = []" and "m_waitingForKeyframe s"
  shows "delivery_inv (resetConsumer (s_streamConfig s) (m_streamGeneration s) s)"
  using assms
  by (simp add: resetConsumer_def delivery_inv_def before_streaming_def delivery_effect)
    (simp add: effect_def)

definition deliverable :: "session \<Rightarrow> bool" where
  "deliverable s \<longleftrightarrow> delivery_inv s \<and> m_state s = Streaming \<and> list_all (unit_ok s \<circ> snd) (s_queue s)"

lemma deliverable_consume:
  assumes "deliverable s" and "s_queue s = q # rest"
  shows "deliverable (drain_finish q b (effect (Consumed (snd q) b) s))"
  using assms
  by (cases b) (auto simp: deliverable_def delivery_inv_def drain_finish_def effect_def delivery_state_def
      delivered_def before_streaming_def unit_ok_def comp_def Let_def)

lemma deliverable_drain: "deliverable s \<Longrightarrow> deliverable (drain_loop env s)"
  by (rule drain_loop_keeps[where P = deliverable], assumption)
    (simp_all add: deliverable_consume, simp add: deliverable_def delivery_inv_def delivery_state_def
      unit_ok_def comp_def)

lemma delivery_drain:
  assumes "session_inv s" and "delivery_inv s" and "m_state s = Streaming"
  shows "delivery_inv (drainQueue env s)"
proof -
  have "deliverable (s\<lparr>s_draining := True\<rparr>)"
    using assms by (simp add: deliverable_def delivery_inv_def delivery_state_def unit_ok_def comp_def
        session_inv_def queue_inv_def)
  then have "deliverable (drain_loop env (s\<lparr>s_draining := True\<rparr>))" by (rule deliverable_drain)
  then show ?thesis using assms(2) by (simp add: drainQueue_def drain_enter_def deliverable_def)
qed

lemma delivery_format_ack:
  assumes "session_inv s" and "delivery_inv s" and "m_state s = Ready \<or> m_state s = Streaming"
  shows "delivery_inv (handleFormatAck env message s)"
proof (cases "\<exists>g c. parseFormatAck message = Some g \<and> s_pendingStreamConfig s = Some c \<and>
    m_pendingFormatGeneration s = g \<and> \<not> s_resettingConsumer s")
  case False
  then have "quiet s (handleFormatAck env message s)"
    by (auto simp: handleFormatAck_def quiet_effects split: option.split)
  then show ?thesis using assms(2) by (rule delivery_inv_quiet)
next
  case True
  then obtain g c where m: "parseFormatAck message = Some g" "s_pendingStreamConfig s = Some c"
    "m_pendingFormatGeneration s = g" "\<not> s_resettingConsumer s" by blast
  let ?s = "(resetQueueLocked True s)\<lparr>s_streamConfig := c, s_pendingStreamConfig := None,
      m_streamGeneration := g, m_pendingFormatGeneration := 0, m_waitingForKeyframe := True,
      s_resettingConsumer := True, s_receivedVideo := False, s_lastActivity := sv_now env,
      s_streamingAt := sv_now env, s_lastVideoAt := sv_now env\<rparr>"
  have "m_state s = Streaming" using assms(1,3) m(2) by (auto simp: session_inv_def format_inv_def)
  then have d: "delivery_inv (resetConsumer (s_streamConfig ?s) (m_streamGeneration ?s) ?s)"
    using assms(2)
    by (intro delivery_consumer_reset) (simp_all add: delivery_inv_def delivery_state_def resetQueueLocked_def)
  have "quiet (resetConsumer c g ?s) (handleFormatAck env message s)"
    using m by (simp add: handleFormatAck_def Let_def case_prod_beta quiet_intros)
  then show ?thesis using d by (simp add: delivery_inv_quiet)
qed

lemma delivery_format_reject:
  assumes "delivery_inv s"
  shows "delivery_inv (handleFormatReject env message s)"
proof (cases "\<exists>r c. parseFormatReject message = Some r \<and> s_pendingStreamConfig s = Some c \<and>
    m_pendingFormatGeneration s = fr_generation r \<and> \<not> s_resettingConsumer s")
  case False
  then have "quiet s (handleFormatReject env message s)"
    by (auto simp: handleFormatReject_def quiet_effects split: option.split)
  then show ?thesis using assms by (rule delivery_inv_quiet)
next
  case True
  then obtain r c where m: "parseFormatReject message = Some r" "s_pendingStreamConfig s = Some c"
    "m_pendingFormatGeneration s = fr_generation r" "\<not> s_resettingConsumer s" by blast
  let ?s = "(resetQueueLocked True s)\<lparr>s_pendingStreamConfig := None, m_pendingFormatGeneration := 0,
      m_waitingForKeyframe := True, s_receivedVideo := False, s_lastActivity := sv_now env,
      s_streamingAt := sv_now env, s_lastVideoAt := sv_now env\<rparr>"
  have d: "delivery_inv ?s"
    using delivery_reset_queue[OF assms, of True]
    by (rule delivery_inv_cong) (simp_all add: delivery_state_def resetQueueLocked_def)
  have "quiet ?s (handleFormatReject env message s)"
    using m by (simp add: handleFormatReject_def Let_def case_prod_beta quiet_intros)
  then show ?thesis using d by (simp add: delivery_inv_quiet)
qed

lemma delivery_stream_start:
  assumes "delivery_inv s"
  shows "delivery_inv (handleStreamStart env message s)"
proof (cases "msg_fields message = [] \<and> m_state s = Ready \<and> s_pendingStreamConfig s = None \<and> \<not> s_resettingConsumer s")
  case False
  then have "quiet s (handleStreamStart env message s)"
    by (auto simp: handleStreamStart_def Let_def quiet_effects)
  then show ?thesis using assms by (rule delivery_inv_quiet)
next
  case True
  let ?s = "s\<lparr>m_state := Streaming, s_resettingConsumer := True, s_streamingAt := sv_now env,
                   s_lastVideoAt := sv_now env, s_lastActivity := sv_now env,
                   s_receivedVideo := False\<rparr>"
  have d: "delivery_inv (resetConsumer (s_streamConfig ?s) (m_streamGeneration ?s) ?s)"
    using assms True
    by (intro delivery_consumer_reset) (simp_all add: delivery_inv_def delivery_state_def before_streaming_def)
  have "quiet (resetConsumer (s_streamConfig s) (m_streamGeneration s) ?s) (handleStreamStart env message s)"
    using True by (simp add: handleStreamStart_def Let_def quiet_intros)
  then show ?thesis using d by (simp add: delivery_inv_quiet)
qed

lemma delivery_report: "delivery_inv s \<Longrightarrow> delivery_inv (handleReport env message s)"
  by (cases "msg_type message = ''stream_start''")
    (simp add: handleReport_def delivery_stream_start, blast intro: delivery_inv_quiet quiet_report)

lemma delivery_control:
  assumes "session_inv s" and "delivery_inv s"
  shows "delivery_inv (handleControl env peer fr s)"
proof (cases "message_decode (fr_payload fr)")
  case (Inl e)
  then have "quiet s (handleControl env peer fr s)"
    by (simp add: handleControl_def quiet_effects split: prod.split)
  then show ?thesis using assms(2) by (rule delivery_inv_quiet)
next
  case (Inr message)
  let ?s = "s\<lparr>m_controlMessages := m_controlMessages s + 1\<rparr>"
  have i: "session_inv ?s" by (rule session_inv_activity) (rule assms)
  have d: "delivery_inv ?s" using assms(2) by (rule delivery_inv_quiet[rotated]) (simp add: quiet_fields)
  have delivery_if: "delivery_inv (if c then a else b)"
    if "c \<Longrightarrow> delivery_inv a" "\<not> c \<Longrightarrow> delivery_inv b" for c a b
    using that by simp
  have q: "delivery_inv t" if "quiet ?s t" for t using that d by (rule delivery_inv_quiet)
  show ?thesis
    unfolding handleControl_def Inr sum.case Let_def
    by (intro delivery_if delivery_format_ack[OF i d] delivery_format_reject[OF d] delivery_report[OF d]
        q[OF quiet_hello] q[OF quiet_auth_response] q[OF quiet_effects(3)[OF quiet_refl]]
        q[OF quiet_effects(1)[OF quiet_refl]])
      (simp_all only: not_not de_Morgan_disj de_Morgan_conj)
qed

lemma quiet_dropped: "quiet s s' \<Longrightarrow> quiet s (dropped s')"
  by (simp add: dropped_def quiet_fields)

lemma delivery_received:
  assumes "delivery_inv s" and "m_state s = Streaming"
  shows "delivery_inv (resetQueueLocked b (received env fr s))"
  using assms by (simp add: delivery_inv_def resetQueueLocked_def received_def delivery_state_def before_streaming_def)

text \<open>A unit is queued first only when it is a keyframe or nothing was waiting for one.\<close>

lemma delivery_enqueued:
  assumes "delivery_inv s" and "m_state s = Streaming" and "\<not> m_waitingForKeyframe (received env fr s)"
  shows "delivery_inv (enqueued fr (received env fr s))"
  using assms
  by (cases "s_queue s") (auto simp: delivery_inv_def received_def enqueued_def unit_of_def
      delivery_state_def before_streaming_def split: if_splits)

lemma delivery_video:
  assumes "session_inv s" and "delivery_inv s"
  shows "delivery_inv (handleVideo env fr s)"
proof (cases env fr s rule: handleVideo_cases)
  case unauthenticated
  then show ?thesis using assms(2) by (simp add: delivery_inv_quiet[OF quiet_effects(1)[OF quiet_refl]])
next
  case (out_of_state detail)
  have "quiet s (handleVideo env fr s)" by (simp add: out_of_state quiet_effects quiet_dropped)
  then show ?thesis using assms(2) by (rule delivery_inv_quiet)
next
  case (invalid reason)
  have "delivery_inv (dropped s)"
    using assms(2) by (rule delivery_inv_quiet[rotated]) (simp add: quiet_dropped)
  then have "delivery_inv (resetQueueLocked True (dropped s))" by (rule delivery_reset_queue)
  then show ?thesis unfolding invalid(3) by (rule delivery_inv_quiet[rotated]) (simp add: quiet_intros)
next
  case waiting
  then show ?thesis using assms(2) by (simp add: delivery_inv_quiet[OF quiet_dropped[OF quiet_refl]])
next
  case overflow
  have "delivery_inv (resetQueueLocked True (received env fr s))"
    using assms(2) overflow(2) by (rule delivery_received)
  then show ?thesis unfolding overflow(3)
    by (rule delivery_inv_quiet[rotated]) (simp add: quiet_intros quiet_dropped)
next
  case queued
  have u: "session_inv (enqueued fr (received env fr s))" using assms(1) queued(1,3,5-8) by (rule session_inv_queued)
  have "m_state (enqueued fr (received env fr s)) = Streaming" using queued(2) by (simp add: enqueued_def received_def)
  then show ?thesis unfolding queued(9)
    using u delivery_enqueued[OF assms(2) queued(2,6)] by (intro delivery_drain)
qed

lemma delivery_dispatch:
  "session_inv s \<Longrightarrow> delivery_inv s \<Longrightarrow> delivery_inv (dispatch_frame env peer fr s)"
  by (simp add: dispatch_frame_def delivery_control delivery_video
      delivery_inv_quiet[OF quiet_effects(3)[OF quiet_refl]])

lemma delivery_frame:
  assumes "session_inv s" and "delivery_inv s"
  shows "delivery_inv (onFrame env peer fr s)"
proof -
  have q: "delivery_inv t" if "quiet s t" for t using that assms(2) by (rule delivery_inv_quiet)
  have p: "delivery_inv (dispatch_frame env peer fr' (s\<lparr>s_protector := Some p\<rparr>))"
    if "s_protector s \<noteq> None" for fr' p
    using that assms(1) by (intro delivery_dispatch q) (simp_all add: quiet_fields session_inv_protector)
  show ?thesis
    using p q assms
    by (auto simp: onFrame_def delivery_dispatch quiet_effects quiet_fields split: option.split prod.split sum.split)
qed

lemma delivery_connected: "delivery_inv s \<Longrightarrow> delivery_inv (onConnected env peer s)"
  by (simp add: onConnected_def Let_def notify_def close_connection_def delivery_inv_def delivery_effect
      before_streaming_def) (simp add: effect_def delivery_state_def)

lemma delivery_disconnected: "delivery_inv s \<Longrightarrow> delivery_inv (onDisconnected orderly s)"
  by (simp add: onDisconnected_def Let_def notify_def delivery_inv_def delivery_effect before_streaming_def)
    (simp add: effect_def delivery_state_def resetQueueLocked_def)

lemma delivery_sendControl: "delivery_inv s \<Longrightarrow> delivery_inv (snd (sendControl env m ch s))"
  by (erule delivery_inv_quiet[rotated]) (simp add: sendControl_def quiet_intros)

lemma delivery_sendFormat:
  assumes "delivery_inv s"
  shows "delivery_inv (snd (sendFormat env c s))"
proof -
  have a: "delivery_inv (resetQueueLocked True (s\<lparr>s_nextFormatGeneration := n, s_pendingStreamConfig := Some c,
      m_pendingFormatGeneration := g, s_pendingFormatAt := t\<rparr>))" for n g t
    using delivery_reset_queue[OF assms, of True]
    by (rule delivery_inv_cong) (simp_all add: delivery_state_def resetQueueLocked_def)
  have b: "delivery_inv (t\<lparr>s_pendingStreamConfig := None, m_pendingFormatGeneration := 0\<rparr>)"
    if "delivery_inv t" for t
    using that by (rule delivery_inv_cong) (simp_all add: delivery_state_def)
  have c: "delivery_inv (snd (sendControl_on env m ch t))" "delivery_inv (notify k d t)"
    if "delivery_inv t" for t m ch k d
    using that by (rule delivery_inv_quiet[rotated], simp add: quiet_intros)+
  show ?thesis using assms a b c by (simp add: sendFormat_def Let_def case_prod_beta)
qed

lemma delivery_watchdog: "delivery_inv s \<Longrightarrow> delivery_inv (watchdog_tick env s)"
proof -
  assume d: "delivery_inv s"
  have "quiet s (watchdog_tick env s)"
    by (auto simp: watchdog_tick_def quiet_defs notify_def close_connection_def effect_def split: option.split)
  then show ?thesis using d by (rule delivery_inv_quiet)
qed

fun changes_consumer :: "session_op \<Rightarrow> bool" where
  "changes_consumer (OpConsumer _ _) = True" | "changes_consumer _ = False"

text \<open>The operations of a session whose consumer stays the one it was made with.\<close>

definition stream_step :: "session \<Rightarrow> session_op \<Rightarrow> session" where
  "stream_step s e = (if changes_consumer e then s else session_step s e)"

definition stream_inv :: "session \<Rightarrow> bool" where
  "stream_inv s \<longleftrightarrow> session_inv s \<and> delivery_inv s"

lemma stream_step_inv: "stream_inv s \<Longrightarrow> stream_inv (stream_step s e)"
  by (cases e) (simp_all add: stream_inv_def stream_step_def session_inv_connected session_inv_frame
      session_inv_disconnected session_inv_sendControl session_inv_sendFormat session_inv_watchdog
      delivery_connected delivery_frame delivery_disconnected delivery_sendControl delivery_sendFormat
      delivery_watchdog sendPreview_def sendCamera_def sendControls_def sendStats_def
      session_requestKeyframe_def)

interpretation stream_machine: machine stream_step stream_inv
  by unfold_locales (rule stream_step_inv)

lemma stream_run_same:
  "list_all (Not \<circ> changes_consumer) es \<Longrightarrow> foldl stream_step s es = foldl session_step s es"
  by (induction es arbitrary: s) (simp_all add: stream_step_def)

lemma stream_delivery_ok:
  assumes "policy = None \<or> security = None" and "list_all (Not \<circ> changes_consumer) es"
  shows "dl_ok (delivered (s_out (foldl session_step (new_session config policy security True) es)))"
proof -
  have "stream_inv (new_session config policy security True)"
    using assms(1) by (simp add: stream_inv_def session_inv_new)
      (simp add: delivery_inv_def new_session_def delivery_state_def delivered_def before_streaming_def)
  then have "stream_inv (foldl stream_step (new_session config policy security True) es)"
    by (rule stream_machine.run_inv)
  then show ?thesis
    by (simp add: stream_run_same[OF assms(2)] stream_inv_def delivery_inv_def delivery_state_def)
qed

text \<open>
  Property C6: the decoder always starts from a keyframe.  In any run in which the consumer is not
  exchanged, over any number of connections and format changes, and whatever the phone sends,
  every unit handed to the consumer comes after a reset, has the codec and the generation of
  the last reset, and is a keyframe when it is the first since that reset.
\<close>

theorem consumer_starts_at_keyframe:
  assumes "policy = None \<or> security = None" and "list_all (Not \<circ> changes_consumer) es"
  shows "dl_ok (delivered (s_out (foldl session_step (new_session config policy security True) es)))"
  using assms by (rule stream_delivery_ok)

theorem consumer_starts_at_keyframe_witness:
  "dl_ok (delivered (s_out demo_playing)) \<and> Consumed (demo_unit demo_keyframe) True \<in> set (s_out demo_playing)"
proof -
  let ?es = "[OpConnected (demo_env 0 True) ''10.0.0.2:5000'',
       OpFrame (demo_env 1 True) ''10.0.0.2:5000'' (control_frame (hello_message demo_hello)),
       OpFrame (demo_env 2 True) ''10.0.0.2:5000'' (control_frame streamStart),
       OpFrame (demo_env 3 True) ''10.0.0.2:5000'' demo_keyframe]"
  have "demo_playing = foldl session_step (new_session default_session_config (Some demo_policy) None True) ?es"
    by (simp add: demo_playing_def demo_streaming_def start_demo_def demo_ready_def greet_demo_def demo_connected_def connect_demo_def demo_new_def
        session_with_policy_def)
  then show ?thesis
    using consumer_starts_at_keyframe[of "Some demo_policy" None ?es default_session_config]
    by (simp add: demo_playing_state)
qed

text \<open>
  Property C12: the queue in front of the decoder is bounded and clean.  After any run, with either kind of
  trust and whatever the phone sends, the queue holds at most the configured number of access
  units and bytes, its byte count is exact, and every unit in it is an Annex-B access unit with
  a video slice, of the codec and the generation in force, whose keyframe flag agrees with its
  bitstream and which, when it is a keyframe, can be decoded by itself.
\<close>

theorem queue_bounded:
  "list_all (\<lambda>s0. let s = foldl session_step s0 es in
       length (s_queue s) \<le> maxQueuedAccessUnits config \<and> m_queueDepth s = length (s_queue s) \<and>
       m_queueBytes s = sum_list (map (length \<circ> eu_bytes \<circ> snd) (s_queue s)) \<and>
       m_queueBytes s \<le> maxQueuedBytes config \<and> list_all (unit_ok s \<circ> snd) (s_queue s))
     [session_with_policy config policy present, session_with_security config security present]"
proof -
  have run: "watched_inv (foldl session_step (new_session config p sec present) es)"
    "s_config (foldl session_step (new_session config p sec present) es) = config"
    if "p = None \<or> sec = None" for p sec
    using watched_run[OF that] constant_run[OF watched_new[OF that]] by (simp_all add: new_session_def)
  have bounded: "length (s_queue s) \<le> maxQueuedAccessUnits config \<and> m_queueDepth s = length (s_queue s) \<and>
      m_queueBytes s = sum_list (map (length \<circ> eu_bytes \<circ> snd) (s_queue s)) \<and>
      m_queueBytes s \<le> maxQueuedBytes config \<and>
      sum_list (map (length \<circ> eu_bytes \<circ> snd) (s_queue s)) \<le> maxQueuedBytes config \<and>
      list_all (unit_ok s \<circ> snd) (s_queue s)"
    if "watched_inv s" "s_config s = config" for s
    using that by (simp add: watched_inv_def session_inv_def queue_inv_def)
  show ?thesis
    unfolding session_with_policy_def session_with_security_def Let_def list.pred_inject
    by (simp add: bounded run)
qed

end
