(* ===== verification/SessionFaults.thy ===== *)
theory SessionFaults
  imports SessionStream
begin

text \<open>
  Two ways in which the controller gives a decoder frames it cannot decode, and what an untrusted
  peer can do.
\<close>

subsection \<open>A consumer that comes late\<close>

lemma demo_busy_run:
  "demo_busy = foldl session_step (session_with_policy default_session_config demo_policy True)
     [OpConnected (demo_env 0 True) ''10.0.0.2:5000'',
      OpFrame (demo_env 1 True) ''10.0.0.2:5000'' (control_frame (hello_message demo_hello)),
      OpFrame (demo_env 2 True) ''10.0.0.2:5000'' (control_frame streamStart),
      OpFrame (demo_env 3 True) ''10.0.0.2:5000'' demo_keyframe,
      OpFrame (demo_env 4 False) ''10.0.0.2:5000'' demo_delta]"
  by (simp add: demo_busy_def demo_playing_def demo_streaming_def start_demo_def demo_ready_def
      greet_demo_def demo_connected_def connect_demo_def demo_new_def)

lemma late_consumer_out:
  "s_out (session_step demo_busy (OpConsumer (demo_env 5 True) True)) =
     s_out demo_busy @ [ConsumerReset conservativeDefault 0, Consumed (demo_unit demo_delta) True]"
  by (simp add: setConsumer_def resetConsumer_def effect_def demo_busy_state demo_drain_one Let_def)

text \<open>
  A consumer exchanged in the middle of a stream is started on a frame it cannot decode.  The
  controller is connected, streaming, and has one unit queued behind a keyframe that the old
  consumer took.  \<open>setConsumer\<close> resets the new consumer, which has seen nothing, and hands it
  that unit first: it is not a keyframe, the queue is not flushed and no keyframe is asked for.
\<close>

theorem late_consumer_starts_at_delta:
  "let before = foldl session_step (session_with_policy default_session_config demo_policy True)
         [OpConnected (demo_env 0 True) ''10.0.0.2:5000'',
          OpFrame (demo_env 1 True) ''10.0.0.2:5000'' (control_frame (hello_message demo_hello)),
          OpFrame (demo_env 2 True) ''10.0.0.2:5000'' (control_frame streamStart),
          OpFrame (demo_env 3 True) ''10.0.0.2:5000'' demo_keyframe,
          OpFrame (demo_env 4 False) ''10.0.0.2:5000'' demo_delta];
       s = session_step before (OpConsumer (demo_env 5 True) True)
   in s_out s = s_out before @ [ConsumerReset conservativeDefault 0, Consumed (demo_unit demo_delta) True] \<and>
      \<not> eu_keyframe (demo_unit demo_delta) \<and> \<not> dl_ok (delivered (s_out s))"
proof -
  have k: "\<not> eu_keyframe (demo_unit demo_delta)" by (simp add: demo_unit_def)
  have "\<not> dl_ok (delivered (s_out demo_busy @ [ConsumerReset conservativeDefault 0, Consumed (demo_unit demo_delta) True]))"
    using k by (simp add: delivered_def)
  then show ?thesis unfolding demo_busy_run[symmetric] Let_def late_consumer_out using k by simp
qed

subsection \<open>A drain that outlives its connection\<close>

definition demo_keyframe2 :: frame where
  "demo_keyframe2 = demo_keyframe\<lparr>fr_ptsMicros := 1000000\<rparr>"

lemma demo_keyframe2 [simp]:
  "isKeyframe demo_keyframe2" "fr_channel demo_keyframe2 = channelVideo" "fr_flags demo_keyframe2 = kKeyframe"
  "fr_ptsMicros demo_keyframe2 = 1000000" "fr_payload demo_keyframe2 = fr_payload demo_keyframe"
  by (simp_all add: demo_keyframe2_def demo_keyframe_def isKeyframe_def kKeyframe_def)

text \<open>A keyframe that finds the consumer busy is the first unit of its connection.\<close>

lemma stalled_state:
  assumes "demo_controller s0" and "isKeyframe fr" and "fr_channel fr = channelVideo"
    and "fr_flags fr = kKeyframe" and "fr_payload fr = fr_payload demo_keyframe"
    and "s = session_step (start_demo (greet_demo (connect_demo s0)))
           (OpFrame (demo_env now False) ''10.0.0.2:5000'' fr)"
  shows "s_queue s = [(1, demo_unit fr)]" "s_hasConsumer s" "\<not> s_resettingConsumer s" "\<not> s_draining s"
    "s_config s = default_session_config" "s_trustPolicy s = Some demo_policy" "m_state s = Streaming"
    "\<not> m_waitingForKeyframe s" "m_trusted s" "s_protector s = None" "s_pendingStreamConfig s = None"
    "s_streamConfig s = conservativeDefault" "m_streamGeneration s = 0"
    "m_queueBytes s = 18" "s_out s = s_out (start_demo (greet_demo (connect_demo s0))) @ [Consumed (demo_unit fr) False]"
  using demo_inspect(1)
  by (simp_all add: assms(2-6) onFrame_def dispatch_frame_def handleVideo_def annexb_of_def
      start_demo_state[OF assms(1)] conservative_codec default_config_limits demo_drain_one demo_unit_def
      kKeyframe_def demo_simps(2-7) demo_env_now Let_def)

text \<open>
  Thread A drains the queue: it has entered, taken the first unit, and the consumer has taken it.
  Before A gets the lock back to remove the unit, the network thread sees the connection end and
  the next one begin, up to a keyframe that finds the consumer busy; then A finishes.
\<close>

definition race_before :: session where
  "race_before = session_step demo_streaming (OpFrame (demo_env 3 False) ''10.0.0.2:5000'' demo_keyframe)"

definition race_consumed :: session where
  "race_consumed = (case drain_enter race_before of
     Some s \<Rightarrow> snd (drain_consume (demo_env 4 True) (1, demo_unit demo_keyframe) s))"

definition race_reconnected :: session where
  "race_reconnected = session_step (start_demo (greet_demo (connect_demo
       (session_step race_consumed (OpDisconnected True)))))
     (OpFrame (demo_env 5 False) ''10.0.0.2:5000'' demo_keyframe2)"

definition race_after :: session where
  "race_after = drain_finish (1, demo_unit demo_keyframe) True race_reconnected"

lemma race_before_queue: "s_queue race_before = [(1, demo_unit demo_keyframe)]" "demo_controller race_before"
  "\<not> s_draining race_before" "s_hasConsumer race_before" "\<not> s_resettingConsumer race_before"
  using stalled_state[OF demo_new_controller, of demo_keyframe race_before 3]
  by (simp_all add: race_before_def demo_streaming_def demo_ready_def demo_connected_def demo_controller_def)

lemma race_controller: "demo_controller (session_step race_consumed (OpDisconnected True))"
  using race_before_queue
  by (simp add: race_consumed_def drain_enter_def drain_consume_def onDisconnected_def demo_controller_def
      resetQueueLocked_def notify_def effect_def Let_def)

text \<open>
  A drain can remove a unit it has not consumed.  Queue tokens start again at 1 with each
  connection.  When a drain that has consumed unit 1 of one connection gets the lock back after
  the next connection has queued its own unit 1, it removes that one, a keyframe which the
  consumer has only refused so far: the queue is then empty, no keyframe is waited for, and the
  next frame of the new connection goes to a decoder that never had its keyframe.
\<close>

theorem stale_drain_drops_keyframe:
  "drain_take (the (drain_enter race_before)) =
     (Some (1, demo_unit demo_keyframe), the (drain_enter race_before)) \<and>
   s_queue race_reconnected = [(1, demo_unit demo_keyframe2)] \<and>
   last (s_out race_reconnected) = Consumed (demo_unit demo_keyframe2) False \<and>
   s_queue race_after = [] \<and> s_out race_after = s_out race_reconnected \<and>
   s_out (session_step race_after (OpFrame (demo_env 6 True) ''10.0.0.2:5000'' demo_delta)) =
     s_out race_after @ [Consumed (demo_unit demo_delta) True] \<and> \<not> eu_keyframe (demo_unit demo_delta)"
proof -
  let ?s = "session_step race_consumed (OpDisconnected True)"
  note r = stalled_state[OF race_controller, of demo_keyframe2 race_reconnected 5]
  have q: "s_queue race_reconnected = [(1, demo_unit demo_keyframe2)]"
    and o: "last (s_out race_reconnected) = Consumed (demo_unit demo_keyframe2) False"
    using r by (simp_all add: race_reconnected_def)
  have a: "s_queue race_after = []" "s_out race_after = s_out race_reconnected"
    using q by (simp_all add: race_after_def drain_finish_def)
  have f: "m_state race_after = Streaming" "\<not> m_waitingForKeyframe race_after" "m_trusted race_after"
    "s_protector race_after = None" "s_pendingStreamConfig race_after = None" "\<not> s_draining race_after"
    "\<not> s_resettingConsumer race_after" "s_hasConsumer race_after" "s_config race_after = default_session_config"
    "s_streamConfig race_after = conservativeDefault" "m_streamGeneration race_after = 0"
    "m_queueBytes race_after = 0"
    using r q by (simp_all add: race_after_def drain_finish_def race_reconnected_def demo_unit_def)
  have d: "s_out (session_step race_after (OpFrame (demo_env 6 True) ''10.0.0.2:5000'' demo_delta)) =
     s_out race_after @ [Consumed (demo_unit demo_delta) True]"
    using demo_inspect(2)
    by (simp add: onFrame_def dispatch_frame_def handleVideo_def annexb_of_def a(1) f conservative_codec
        default_config_limits demo_drain_one demo_unit_def demo_env_now demo_simps(2-7) Let_def)
  have "drain_take (the (drain_enter race_before)) =
     (Some (1, demo_unit demo_keyframe), the (drain_enter race_before))"
    using race_before_queue by (simp add: drain_take_def drain_enter_def)
  then show ?thesis using q o a d by (simp add: demo_unit_def)
qed

end
