(* ===== verification/SessionSecurity.thy ===== *)
theory SessionSecurity
  imports SessionFaults
begin

text \<open>
  The session controller together with session security and the session protector: what it takes
  to be trusted, what it takes to be heard, and what a peer that is not trusted can change.
\<close>

subsection \<open>An untrusted peer\<close>

lemma quiet_dispatch_untrusted:
  assumes "\<not> m_trusted s"
  shows "quiet s (dispatch_frame env peer fr s)"
proof -
  have v: "quiet s (handleVideo env fr s)" using assms by (simp add: handleVideo_def quiet_effects)
  have c: "quiet s (handleControl env peer fr s)"
  proof (cases "message_decode (fr_payload fr)")
    case (Inl e)
    then show ?thesis by (simp add: handleControl_def quiet_effects split: prod.split)
  next
    case (Inr message)
    let ?s = "s\<lparr>m_controlMessages := m_controlMessages s + 1\<rparr>"
    have "quiet s ?s" by (simp add: quiet_fields)
    moreover have "quiet ?s (handleControl env peer fr s)"
      unfolding handleControl_def Inr sum.case Let_def
      using assms by (intro quiet_if quiet_hello quiet_auth_response quiet_effects quiet_refl) simp_all
    ultimately show ?thesis by (rule quiet_trans)
  qed
  show ?thesis by (simp add: dispatch_frame_def v c quiet_effects)
qed

lemma quiet_frame_untrusted:
  assumes "\<not> m_trusted s"
  shows "quiet s (onFrame env peer fr s)"
proof -
  have p: "quiet s (s\<lparr>s_protector := p\<rparr>)" for p by (simp add: quiet_fields)
  have d: "quiet s (dispatch_frame env peer fr' (s\<lparr>s_protector := p\<rparr>))" for fr' p
    by (rule quiet_trans[OF p quiet_dispatch_untrusted]) (simp add: assms)
  show ?thesis
    by (simp add: onFrame_def p d quiet_effects quiet_dispatch_untrusted[OF assms]
        split: option.split prod.split sum.split)
qed

text \<open>
  Property C7: an untrusted peer is inert.  Whatever frame a peer sends before it is trusted, on any
  channel, the stream is left as it was: the configuration and its generation, a pending change
  of format, the queue, whether a keyframe is awaited, and the consumer, which is neither reset
  nor given a unit; and the session does not start streaming.
\<close>

theorem untrusted_peer_is_inert:
  assumes "\<not> m_trusted s" and "m_state s \<noteq> Streaming"
  shows "stream_state (onFrame env peer fr s) = stream_state s \<and> m_state (onFrame env peer fr s) \<noteq> Streaming"
  using quiet_frame_untrusted[OF assms(1), of env peer fr] assms(2) by (auto simp: quiet_def)

theorem untrusted_peer_is_inert_witness:
  "stream_state (onFrame (demo_env 1 True) ''10.0.0.2:5000'' demo_keyframe demo_connected) = stream_state demo_connected \<and>
   m_state (onFrame (demo_env 1 True) ''10.0.0.2:5000'' demo_keyframe demo_connected) \<noteq> Streaming"
proof (rule untrusted_peer_is_inert)
  show "\<not> m_trusted demo_connected"
    using demo_new_controller
    by (simp add: demo_connected_def connect_demo_def onConnected_def Let_def demo_simps)
qed (simp add: demo_connected_state)

subsection \<open>Being heard\<close>

lemma controlMessages_kept [simp]:
  "m_controlMessages (protocolFailure d s) = m_controlMessages s"
  "m_controlMessages (notify k d s) = m_controlMessages s"
  "m_controlMessages (malformedControl d s) = m_controlMessages s"
  "m_controlMessages (resetQueueLocked b s) = m_controlMessages s"
  "m_controlMessages (snd (sendControl_on env m ch s)) = m_controlMessages s"
  by (simp_all add: protocolFailure_def notify_def close_connection_def effect_def malformedControl_def
      resetQueueLocked_def, subst sendControl_on_snd, simp)

lemma controlMessages_drain [simp]: "m_controlMessages (drainQueue env s) = m_controlMessages s"
proof -
  have "m_controlMessages (drain_loop env t) = m_controlMessages t" for t
    by (rule drain_loop_keeps[where P = "\<lambda>s. m_controlMessages s = m_controlMessages t"])
      (auto simp: drain_finish_def effect_def Let_def split: list.split)
  then show ?thesis by (simp add: drainQueue_def drain_enter_def)
qed

lemma controlMessages_video [simp]: "m_controlMessages (handleVideo env fr s) = m_controlMessages s"
  by (cases env fr s rule: handleVideo_cases) (simp_all add: received_def enqueued_def dropped_def)

lemma controlMessages_dispatch:
  assumes "m_controlMessages (dispatch_frame env peer fr s) \<noteq> m_controlMessages s"
  shows "fr_channel fr = channelControl \<and> (\<exists>message. message_decode (fr_payload fr) = Inr message)"
proof -
  have "fr_channel fr = channelControl \<and> m_controlMessages (handleControl env peer fr s) \<noteq> m_controlMessages s"
    using assms by (auto simp: dispatch_frame_def split: if_splits)
  then show ?thesis
    by (cases "message_decode (fr_payload fr)") (auto simp: handleControl_def split: prod.splits)
qed

text \<open>
  Property C4: in a session with a protector, only sealed control messages are heard.  If a frame makes
  the controller take in a control message, then it came on the control channel, and its
  payload is the next sequence number, a plaintext that decodes to a message, and the MAC under
  the session key of that plaintext with its flags, timestamp and number.
\<close>

theorem session_control_authentic:
  assumes "s_protector s = Some p"
    and "m_controlMessages (onFrame env peer fr s) \<noteq> m_controlMessages s"
  shows "\<exists>plaintext tag message. fr_channel fr = channelControl \<and>
     fr_payload fr = be_bytes 8 (sq_next (incomingControlSequence p channelControl)) @ plaintext @ tag \<and>
     c_hmac (se_crypto (sv_security env)) (ck_key (incomingAuthenticatedKeys p channelControl))
       (control_input channelControl (fr_flags fr) (fr_ptsMicros fr)
          (sq_next (incomingControlSequence p channelControl)) plaintext) = Some tag \<and>
     message_decode plaintext = Inr message"
proof -
  have a: "fr_channel fr \<noteq> channelAudio" using assms by (auto simp: onFrame_def split: if_splits)
  have f: "fr_flags fr AND kEndOfFragment = 0" using assms by (auto simp: onFrame_def split: if_splits)
  obtain r p' where o: "open_frame env (encryptMedia (s_config s)) fr p = (r, p')" by fastforce
  obtain plaintext where r: "r = Inr plaintext"
    using assms a f o by (cases r) (auto simp: onFrame_def)
  let ?fr = "fr\<lparr>fr_payload := plaintext, fr_flags := fr_flags fr AND NOT kEncrypted\<rparr>"
  have "m_controlMessages (dispatch_frame env peer ?fr (s\<lparr>s_protector := Some p'\<rparr>)) \<noteq>
      m_controlMessages (s\<lparr>s_protector := Some p'\<rparr>)"
    using assms a f o r by (simp add: onFrame_def)
  from controlMessages_dispatch[OF this] obtain message where
    ch: "fr_channel fr = channelControl" and m: "message_decode plaintext = Inr message" by auto
  have "unprotectControl (se_crypto (sv_security env)) (sv_clocks env) channelControl (fr_flags fr)
      (fr_ptsMicros fr) (fr_payload fr) p = (Inr plaintext, p')"
    using o ch r by (simp add: open_frame_def)
  from control_record_tag[OF this] ch m show ?thesis by auto
qed

text \<open>A clock at which the sample protectors are valid.\<close>

definition sealed_env :: session_env where
  "sealed_env = (demo_env 1 True)\<lparr>sv_unix := 1001, sv_security := toy_env\<lparr>se_steady := 1\<rparr>\<rparr>"

lemma sealed_env_clocks:
  "sv_clocks sealed_env = toy_clocks" "se_crypto (sv_security sealed_env) = toy_crypto"
  by (simp_all add: sealed_env_def sv_clocks_def toy_clocks_def toy_env_def)

lemma toy_protects_message:
  assumes "length m div 1024 = 0"
  shows "\<exists>r p'. protectControl toy_crypto toy_clocks 0 0 0 m (toy_protector Client) = (Inr r, p') \<and> pp_flags r = 0"
proof -
  have "\<not> 1048576 < length m" using assms by (simp add: div_eq_0_iff)
  then show ?thesis
    using toy_live[of Client]
    by (simp add: protectControl_def Let_def hmacSha256_def toy_crypto_def kMaximumControlPlaintext_def
        toy_protector_def sessionProtector_def new_counter_def protector_expired_def)
qed

theorem session_control_authentic_witness:
  "\<exists>fr plaintext tag message.
     m_controlMessages (onFrame sealed_env ''10.0.0.2:5000'' fr
       (demo_connected\<lparr>s_protector := Some (toy_protector Server)\<rparr>)) \<noteq> m_controlMessages demo_connected \<and>
     fr_payload fr = be_bytes 8 (sq_next (incomingControlSequence (toy_protector Server) channelControl)) @ plaintext @ tag \<and>
     c_hmac toy_crypto (ck_key (incomingAuthenticatedKeys (toy_protector Server) channelControl))
       (control_input channelControl (fr_flags fr) (fr_ptsMicros fr)
          (sq_next (incomingControlSequence (toy_protector Server) channelControl)) plaintext) = Some tag \<and>
     message_decode plaintext = Inr message"
proof -
  let ?s = "demo_connected\<lparr>s_protector := Some (toy_protector Server)\<rparr>"
  have l: "length (message_encode streamStart) div 1024 = 0" by code_simp
  obtain r a' where r: "protectControl toy_crypto toy_clocks 0 0 0 (message_encode streamStart)
      (toy_protector Client) = (Inr r, a')" and "pp_flags r = 0"
    using toy_protects_message[OF l] by blast
  have "synced (toy_protector Client) (toy_protector Server)"
    by (rule synced_fresh[OF toy_protector[of Client]]) (simp add: other_role_def, rule toy_protector)
  from open_seal_control[OF toy_crypto_ok(2) this toy_live r] \<open>pp_flags r = 0\<close> obtain b' where
    b: "unprotectControl toy_crypto toy_clocks 0 0 0 (pp_payload r) (toy_protector Server) =
      (Inr (message_encode streamStart), b')" by auto
  let ?fr = "\<lparr>fr_channel = channelControl, fr_flags = 0, fr_ptsMicros = 0, fr_payload = pp_payload r\<rparr>"
  have d: "message_decode (message_encode streamStart) = Inr streamStart"
    using stream_start_decodes by (simp add: control_frame_def)
  have n: "m_controlMessages (onFrame sealed_env ''10.0.0.2:5000'' ?fr ?s) \<noteq> m_controlMessages ?s"
    by (simp add: onFrame_def open_frame_def dispatch_frame_def handleControl_def sealed_env_clocks b d
        isKeyframe_def demo_connected_state stream_start_values channelControl_def channelAudio_def
        channelVideo_def Let_def)
  from session_control_authentic[of ?s, OF _ n] show ?thesis
    using n by (intro exI[of _ ?fr]) (simp add: sealed_env_clocks)
qed

subsection \<open>Being trusted\<close>

lemma trusted_kept [simp]:
  "m_trusted (protocolFailure d s) = m_trusted s" "m_trusted (notify k d s) = m_trusted s"
  "m_trusted (malformedControl d s) = m_trusted s"
  by (simp_all add: protocolFailure_def notify_def close_connection_def effect_def malformedControl_def)

lemma hello_not_trusted:
  assumes "s_trustPolicy s = None" and "\<not> m_trusted s"
  shows "\<not> m_trusted (handleHello env peer message s)"
proof (cases "parseHello message")
  case None
  then show ?thesis using assms by (simp add: handleHello_def)
next
  case (Some parsed)
  obtain r s1 where h: "hello_trust env peer parsed s = (r, s1)" by fastforce
  from h assms have r: "r = None \<and> \<not> m_trusted s1 \<or> (\<exists>paired allow c. r = Some (False, paired, allow, c))"
    by (cases rule: hello_trust_cases) auto
  from r consider "r = None" "\<not> m_trusted s1" | paired allow c where "r = Some (False, paired, allow, c)"
    by blast
  then show ?thesis
  proof cases
    case 1
    with Some h assms show ?thesis by (simp add: handleHello_def)
  next
    case 2
    with Some h assms show ?thesis by (cases c) (simp_all add: handleHello_def Let_def case_prod_beta)
  qed
qed

lemma auth_response_trusted:
  assumes "\<not> m_trusted s" and "m_trusted (handleAuthResponse env peer message s)"
  shows "\<exists>response identity security result security'. parseAuthResponse message = Some response \<and>
     s_hello s = Some identity \<and> s_security s = Some security \<and>
     finishAuthentication (sv_security env) (sourceAddress peer) (h_deviceId identity)
       (ar_clientNonce response) (ar_clientProof response) (sv_unix env) security = (Inr result, security')"
  using assms
  by (auto simp: handleAuthResponse_def split: option.splits prod.splits sum.splits)

lemma untrusted_dispatch_trusted:
  assumes "s_trustPolicy s = None" and "\<not> m_trusted s" and "m_trusted (dispatch_frame env peer fr s)"
  shows "\<exists>message response identity security result security'.
     message_decode (fr_payload fr) = Inr message \<and> parseAuthResponse message = Some response \<and>
     s_hello s = Some identity \<and> s_security s = Some security \<and>
     finishAuthentication (sv_security env) (sourceAddress peer) (h_deviceId identity)
       (ar_clientNonce response) (ar_clientProof response) (sv_unix env) security = (Inr result, security')"
proof -
  have "\<not> m_trusted (handleVideo env fr s)" using assms(2) by (simp add: handleVideo_def)
  then have c: "m_trusted (handleControl env peer fr s)"
    using assms(2,3) by (auto simp: dispatch_frame_def split: if_splits)
  show ?thesis
  proof (cases "message_decode (fr_payload fr)")
    case (Inl e)
    then show ?thesis using c assms(2) by (auto simp: handleControl_def split: prod.splits)
  next
    case (Inr message)
    let ?s = "s\<lparr>m_controlMessages := m_controlMessages s + 1\<rparr>"
    have "\<not> m_trusted (handleHello env peer message ?s)" by (rule hello_not_trusted) (use assms in simp_all)
    then have "m_trusted (handleAuthResponse env peer message ?s)"
      using c assms(2) unfolding handleControl_def Inr sum.case Let_def
      by (simp only: trusted_kept split: if_splits) simp_all
    from auth_response_trusted[OF _ this] Inr assms(2) show ?thesis by simp
  qed
qed

text \<open>
  Property C1: with session security, a peer becomes trusted only by proving the pairing key.  In any
  run of a controller with session security, a frame that makes an untrusted peer trusted is an
  \<open>auth_response\<close> sent in clear, for the device the peer's hello named, against a challenge that
  the PC has pending for that device at the peer's address and that has not expired; and its
  proof is the MAC under the stored pairing key of both identities and both nonces.
\<close>

theorem session_trust_requires_key:
  assumes "s = foldl session_step (session_with_security config security present) es"
    and "\<not> m_trusted s" and "m_trusted (onFrame env peer fr s)"
  shows "\<exists>message response identity security pending.
     message_decode (fr_payload fr) = Inr message \<and> parseAuthResponse message = Some response \<and>
     s_hello s = Some identity \<and> s_security s = Some security \<and>
     ss_pending security (pendingKey (sourceAddress peer) (h_deviceId identity)) = Some pending \<and>
     sv_unix env < ach_expires (pa_challenge pending) \<and>
     c_hmac (se_crypto (sv_security env)) (pr_key (pa_record pending))
       (authenticationInput False (ss_serviceId security) (h_deviceId identity)
          (ach_serverNonce (pa_challenge pending)) (ar_clientNonce response)) = Some (ar_clientProof response)"
proof -
  have w: "watched_inv s" and t: "s_trustPolicy s = None"
    using watched_run[of None "Some security"] constant_run[OF watched_new[of None "Some security"]] assms(1)
    by (simp_all add: session_with_security_def, simp add: new_session_def)
  then have p: "s_protector s = None"
    using assms(2) by (auto simp: watched_inv_def session_inv_def trust_inv_def)
  have "m_trusted (dispatch_frame env peer fr s)"
    using assms(2,3) p by (auto simp: onFrame_def split: if_splits)
  from untrusted_dispatch_trusted[OF t assms(2) this] obtain message response identity security result security'
    where m: "message_decode (fr_payload fr) = Inr message" "parseAuthResponse message = Some response"
      "s_hello s = Some identity" "s_security s = Some security"
      "finishAuthentication (sv_security env) (sourceAddress peer) (h_deviceId identity)
         (ar_clientNonce response) (ar_clientProof response) (sv_unix env) security = (Inr result, security')"
    by blast
  from accepted_answer[OF m(5)] m show ?thesis by blast
qed

text \<open>A run in which a paired phone is challenged and answers.\<close>

definition paired_hello :: hello_values where
  "paired_hello = sample_hello\<lparr>h_deviceId := ''fedcba9876543210''\<rparr>"

definition paired_connected :: session where
  "paired_connected = session_step (session_with_security default_session_config toy_server True)
     (OpConnected (demo_env 0 True) ''10.0.0.2:5000'')"

definition paired_greeted :: session where
  "paired_greeted = session_step paired_connected
     (OpFrame (demo_env 1 True) ''10.0.0.2:5000'' (control_frame (hello_message paired_hello)))"

lemma paired_hello_decodes:
  "message_decode (fr_payload (control_frame (hello_message paired_hello))) = Inr (hello_message paired_hello)"
  "parseHello (hello_message paired_hello) = Some paired_hello"
  "msg_type (hello_message paired_hello) = ''hello''" "h_version paired_hello = kProtocolVersion"
  "h_deviceId paired_hello = ''fedcba9876543210''"
proof -
  have "validDeviceId ''fedcba9876543210''" by code_simp
  then have ok: "hello_ok paired_hello"
    by (simp add: hello_ok_def paired_hello_def sample_hello_def kProtocolVersion_def texts_ok_def
        kMaxCollectionElements_nat ascii_text_ok)
  have "length (message_encode (hello_message paired_hello)) div 1024 = 0" by code_simp
  then show "message_decode (fr_payload (control_frame (hello_message paired_hello))) = Inr (hello_message paired_hello)"
    by (intro control_frame_decodes hello_codec.build_ok ok)
  show "parseHello (hello_message paired_hello) = Some paired_hello" by (rule hello_codec.parse_build[OF ok])
qed (simp_all add: hello_message_def hello_def makeMessage_def Let_def paired_hello_def sample_hello_def
      kProtocolVersion_def)

lemma demo_source: "sourceAddress ''10.0.0.2:5000'' = ''10.0.0.2''"
  by code_simp

lemma paired_connected_state:
  "m_state paired_connected = AwaitingHello" "s_protector paired_connected = None" "\<not> m_trusted paired_connected"
  "s_trustPolicy paired_connected = None" "s_security paired_connected = Some toy_server"
  "s_config paired_connected = default_session_config" "s_streamConfig paired_connected = conservativeDefault"
  by (simp_all add: paired_connected_def session_with_security_def new_session_def
      onConnected_def default_config_ok default_config_limits Let_def demo_simps)

lemma paired_greeted_state:
  assumes "beginAuthentication toy_env ''10.0.0.2'' ''fedcba9876543210'' 1000 toy_server = (Inr challenge, s1)"
  shows "m_state paired_greeted = AwaitingTrust" "s_protector paired_greeted = None"
    "\<not> m_trusted paired_greeted" "s_trustPolicy paired_greeted = None"
    "s_security paired_greeted = Some s1" "s_hello paired_greeted = Some paired_hello"
    "s_config paired_greeted = default_session_config" "s_streamConfig paired_greeted = conservativeDefault"
  by (simp_all add: paired_greeted_def onFrame_def dispatch_frame_def handleControl_def paired_hello_decodes
      handleHello_def hello_trust_def assms demo_source paired_connected_state Let_def demo_simps)

definition paired_env :: session_env where
  "paired_env = (demo_env 2 True)\<lparr>sv_unix := 1001\<rparr>"

definition answer_frame :: "u8 \<Rightarrow> frame" where
  "answer_frame byte = control_frame (authResponse
     \<lparr>ar_clientNonce = replicate 32 5, ar_clientProof = replicate 31 0 @ [byte]\<rparr>)"

lemma answer_decodes:
  "message_decode (fr_payload (answer_frame byte)) =
     Inr (authResponse \<lparr>ar_clientNonce = replicate 32 5, ar_clientProof = replicate 31 0 @ [byte]\<rparr>)"
  "parseAuthResponse (authResponse \<lparr>ar_clientNonce = replicate 32 5, ar_clientProof = replicate 31 0 @ [byte]\<rparr>) =
     Some \<lparr>ar_clientNonce = replicate 32 5, ar_clientProof = replicate 31 0 @ [byte]\<rparr>"
  "msg_type (authResponse r) = ''auth_response''"
proof -
  let ?response = "\<lparr>ar_clientNonce = replicate 32 5, ar_clientProof = replicate 31 0 @ [byte]\<rparr>"
  have ok: "auth_response_ok ?response" by (simp add: auth_response_ok_def)
  have l: "length (message_encode (authResponse ?response)) div 1024 = 0" by code_simp
  show "message_decode (fr_payload (answer_frame byte)) = Inr (authResponse ?response)"
    unfolding answer_frame_def by (intro control_frame_decodes auth_response_codec.build_ok ok l)
  show "parseAuthResponse (authResponse ?response) = Some ?response"
    by (rule auth_response_codec.parse_build[OF ok])
qed (simp add: authResponse_def Let_def)

lemma answer_frame_fields [simp]:
  "fr_channel (answer_frame byte) = channelControl" "fr_flags (answer_frame byte) = 0"
  "\<not> isKeyframe (answer_frame byte)"
  by (simp_all add: answer_frame_def)

theorem session_trust_requires_key_witness:
  "\<exists>fr message response identity security pending.
     \<not> m_trusted paired_greeted \<and> m_trusted (onFrame paired_env ''10.0.0.2:5000'' fr paired_greeted) \<and>
     message_decode (fr_payload fr) = Inr message \<and> parseAuthResponse message = Some response \<and>
     s_hello paired_greeted = Some identity \<and> s_security paired_greeted = Some security \<and>
     ss_pending security (pendingKey (sourceAddress ''10.0.0.2:5000'') (h_deviceId identity)) = Some pending \<and>
     c_hmac toy_crypto (pr_key (pa_record pending))
       (authenticationInput False (ss_serviceId security) (h_deviceId identity)
          (ach_serverNonce (pa_challenge pending)) (ar_clientNonce response)) = Some (ar_clientProof response)"
proof -
  from toy_accepted obtain s1 clientProof pc s2 byte where
    b: "beginAuthentication toy_env ''10.0.0.2'' ''fedcba9876543210'' 1000 toy_server =
       (Inr \<lparr>ach_serverNonce = replicate 32 3, ach_expires = 1010\<rparr>, s1)"
    and cp: "clientProof = replicate 31 0 @ [byte]"
    and f: "finishAuthentication toy_env ''10.0.0.2'' ''fedcba9876543210'' (replicate 32 5) clientProof 1001 s1 = (Inr pc, s2)"
    by blast
  let ?fr = "answer_frame byte"
  note g = paired_greeted_state[OF b]
  have t: "m_trusted (onFrame paired_env ''10.0.0.2:5000'' ?fr paired_greeted)"
    using f cp
    by (simp add: onFrame_def dispatch_frame_def handleControl_def answer_decodes
        handleAuthResponse_def g demo_source paired_hello_decodes paired_env_def demo_simps Let_def split: sum.split prod.split option.split)
  have run: "paired_greeted = foldl session_step (session_with_security default_session_config toy_server True)
      [OpConnected (demo_env 0 True) ''10.0.0.2:5000'',
       OpFrame (demo_env 1 True) ''10.0.0.2:5000'' (control_frame (hello_message paired_hello))]"
    by (simp add: paired_greeted_def paired_connected_def)
  have crypto: "se_crypto (sv_security paired_env) = toy_crypto"
    by (simp add: paired_env_def demo_env_def toy_env_def)
  from session_trust_requires_key[OF run g(3) t] show ?thesis
    using g(3) t unfolding crypto by blast
qed

subsection \<open>What goes out\<close>





end
