(* ===== verification/Abr.thy ===== *)
theory Abr
  imports Interfaces
begin

text \<open>
  The adaptive bitrate controller of the receiver, \<open>windows/platform/src/abr_controller.cpp\<close>: one
  sample of the queue, the drops and the throughput in, one target bitrate out.  The integers are
  those of the code, with their wrap-around.
\<close>

subsection \<open>The controller\<close>

definition kGrowthSamplesBeforeBackoff :: u32 where "kGrowthSamplesBeforeBackoff = 2"
definition kStableSamplesBeforeRecovery :: u32 where "kStableSamplesBeforeRecovery = 10"

definition percent :: "u64 \<Rightarrow> u64 \<Rightarrow> u64 \<Rightarrow> u64" where
  "percent value numerator denominator = value * numerator div denominator"

record abr_sample =
  as_queueDepth :: u32
  as_droppedFrames :: u64
  as_throughput :: u64

record abr_controller =
  ab_minimum :: u64
  ab_maximum :: u64
  ab_target :: u64
  ab_previousDrops :: u64
  ab_previousQueueDepth :: u32
  ab_growing :: u32
  ab_stable :: u32
  ab_haveSample :: bool

text \<open>\<open>std::clamp\<close>, whose lower bound must not exceed the upper one.\<close>

definition clamp :: "u64 \<Rightarrow> u64 \<Rightarrow> u64 \<Rightarrow> u64" where
  "clamp v lo hi = (if v < lo then lo else if hi < v then hi else v)"

definition new_abr :: "u64 \<Rightarrow> u64 \<Rightarrow> u64 \<Rightarrow> abr_controller" where
  "new_abr initial lo hi =
     \<lparr>ab_minimum = min lo hi, ab_maximum = max lo hi,
      ab_target = clamp initial (min lo hi) (max lo hi), ab_previousDrops = 0,
      ab_previousQueueDepth = 0, ab_growing = 0, ab_stable = 0, ab_haveSample = False\<rparr>"

definition observe :: "abr_controller \<Rightarrow> abr_sample \<Rightarrow> abr_controller" where
  "observe c sample =
     (let newDrops = (ab_haveSample c \<and> as_droppedFrames sample > ab_previousDrops c);
          queueGrowing = (ab_haveSample c \<and> as_queueDepth sample > ab_previousQueueDepth c);
          c = c\<lparr>ab_growing := (if queueGrowing then ab_growing c + 1 else 0)\<rparr>;
          c = (if newDrops \<or> ab_growing c \<ge> kGrowthSamplesBeforeBackoff then
                 c\<lparr>ab_target := max (ab_minimum c) (percent (ab_target c) 80 100), ab_growing := 0,
                   ab_stable := 0\<rparr>
               else if as_queueDepth sample = 0 \<and> \<not> newDrops then
                 (let c = c\<lparr>ab_stable := ab_stable c + 1\<rparr>
                  in if ab_stable c \<ge> kStableSamplesBeforeRecovery then
                       (let ceiling = (if as_throughput sample \<noteq> 0
                                       then max (ab_minimum c)
                                              (min (ab_maximum c) (percent (as_throughput sample) 85 100))
                                       else ab_maximum c);
                            raised = max (ab_target c + 1) (percent (ab_target c) 105 100)
                        in c\<lparr>ab_target := clamp raised (ab_minimum c) ceiling, ab_stable := 0\<rparr>)
                     else c)
               else c\<lparr>ab_stable := 0\<rparr>)
      in c\<lparr>ab_previousDrops := as_droppedFrames sample, ab_previousQueueDepth := as_queueDepth sample,
           ab_haveSample := True\<rparr>)"

subsection \<open>The bounds of the target\<close>

definition abr_inv :: "abr_controller \<Rightarrow> bool" where
  "abr_inv c \<longleftrightarrow> ab_minimum c \<le> ab_target c \<and> ab_target c \<le> ab_maximum c"

text \<open>A wrapped product is no larger than the product.\<close>

lemma percent_le: "n \<le> d \<Longrightarrow> d \<noteq> 0 \<Longrightarrow> percent v n d \<le> v"
proof -
  assume nd: "n \<le> d" and d: "d \<noteq> 0"
  have "unat (v * n) \<le> unat v * unat n" by (simp add: unat_word_ariths)
  also have "\<dots> \<le> unat v * unat d" using nd by (simp add: word_le_nat_alt)
  finally have "unat (v * n) div unat d \<le> unat v * unat d div unat d" by (rule div_le_mono)
  moreover have "unat d \<noteq> 0" using d by (simp add: unat_eq_zero)
  ultimately have "unat (v * n) div unat d \<le> unat v" by simp
  then show ?thesis by (simp add: percent_def word_le_nat_alt unat_div)
qed

lemma clamp_bounds: "lo \<le> hi \<Longrightarrow> lo \<le> clamp v lo hi \<and> clamp v lo hi \<le> hi"
  by (auto simp: clamp_def)

lemma observe_limits [simp]:
  "ab_minimum (observe c s) = ab_minimum c" "ab_maximum (observe c s) = ab_maximum c"
  by (simp_all add: observe_def Let_def)

text \<open>What each of the four ways one sample can go leaves behind.\<close>

definition backs_off :: "abr_controller \<Rightarrow> abr_sample \<Rightarrow> bool" where
  "backs_off c s \<longleftrightarrow> ab_haveSample c \<and>
     (as_droppedFrames s > ab_previousDrops c \<or>
      as_queueDepth s > ab_previousQueueDepth c \<and> ab_growing c + 1 \<ge> kGrowthSamplesBeforeBackoff)"

definition recovery_ceiling :: "abr_controller \<Rightarrow> abr_sample \<Rightarrow> u64" where
  "recovery_ceiling c s =
     (if as_throughput s \<noteq> 0 then max (ab_minimum c) (min (ab_maximum c) (percent (as_throughput s) 85 100))
      else ab_maximum c)"

lemma observe_backoff:
  "backs_off c s \<Longrightarrow>
     ab_target (observe c s) = max (ab_minimum c) (percent (ab_target c) 80 100) \<and> ab_stable (observe c s) = 0"
  by (auto simp: observe_def backs_off_def Let_def)

lemma observe_steady:
  assumes "\<not> backs_off c s"
  shows "ab_target (observe c s) =
      (if as_queueDepth s = 0 \<and> ab_stable c + 1 \<ge> kStableSamplesBeforeRecovery
       then clamp (max (ab_target c + 1) (percent (ab_target c) 105 100)) (ab_minimum c) (recovery_ceiling c s)
       else ab_target c) \<and>
    ab_stable (observe c s) =
      (if as_queueDepth s = 0 \<and> ab_stable c + 1 < kStableSamplesBeforeRecovery then ab_stable c + 1 else 0)"
  using assms
  by (auto simp: observe_def backs_off_def recovery_ceiling_def Let_def kGrowthSamplesBeforeBackoff_def not_le)

lemma recovery_ceiling_limits:
  "ab_minimum c \<le> ab_maximum c \<Longrightarrow>
     ab_minimum c \<le> recovery_ceiling c s \<and> recovery_ceiling c s \<le> ab_maximum c"
  by (auto simp: recovery_ceiling_def max_def min_def)

lemma observe_inv:
  assumes "abr_inv c"
  shows "abr_inv (observe c s)"
proof (cases "backs_off c s")
  case True
  have "percent (ab_target c) 80 100 \<le> ab_target c" by (rule percent_le) simp_all
  then show ?thesis
    using assms observe_backoff[OF True] by (auto simp: abr_inv_def max_def)
next
  case False
  have "ab_minimum c \<le> ab_maximum c" using assms by (auto simp: abr_inv_def)
  note lim = recovery_ceiling_limits[OF this, of s]
  show ?thesis
    using assms observe_steady[OF False] lim clamp_bounds[of "ab_minimum c" "recovery_ceiling c s"]
    by (auto simp: abr_inv_def intro: order_trans)
qed

interpretation abr_machine: machine observe abr_inv
  by unfold_locales (rule observe_inv)

subsection \<open>Properties\<close>

lemma new_abr_inv: "abr_inv (new_abr initial lo hi)"
  using clamp_bounds[of "min lo hi" "max lo hi" initial]
  by (simp add: abr_inv_def new_abr_def min_le_iff_disj le_max_iff_disj)

lemma abr_run_limits:
  "ab_minimum (foldl observe c ss) = ab_minimum c \<and> ab_maximum (foldl observe c ss) = ab_maximum c"
  by (induction ss arbitrary: c) simp_all

text \<open>
  The target bitrate stays within the configured limits.  Whatever the samples, the
  target never leaves the interval between the two limits, in whichever order they were given.
\<close>

theorem abr_target_bounded:
  "let c = foldl observe (new_abr initial lo hi) samples
   in min lo hi \<le> ab_target c \<and> ab_target c \<le> max lo hi"
  using abr_machine.run_inv[OF new_abr_inv, of initial lo hi samples]
    abr_run_limits[of "new_abr initial lo hi" samples]
  by (simp add: Let_def abr_inv_def) (simp add: new_abr_def)

text \<open>A sample can only raise the target at the end of a stable period.\<close>

lemma observe_keeps_low:
  assumes "abr_inv c" and "ab_stable c + 1 < kStableSamplesBeforeRecovery"
  shows "ab_target (observe c s) \<le> ab_target c \<and>
    (ab_stable (observe c s) = 0 \<or> ab_stable (observe c s) = ab_stable c + 1)"
proof (cases "backs_off c s")
  case True
  have "percent (ab_target c) 80 100 \<le> ab_target c" by (rule percent_le) simp_all
  then show ?thesis
    using assms(1) observe_backoff[OF True] by (simp add: abr_inv_def)
next
  case False
  moreover have "\<not> kStableSamplesBeforeRecovery \<le> ab_stable c + 1" using assms(2) by simp
  ultimately show ?thesis using observe_steady[of c s] by simp
qed

lemma run_keeps_low:
  "abr_inv c \<Longrightarrow> unat (ab_stable c) + length ss < 10 \<Longrightarrow>
     ab_target (foldl observe c ss) \<le> ab_target c"
proof (induction ss arbitrary: c)
  case Nil
  then show ?case by simp
next
  case (Cons s ss)
  have small: "unat (ab_stable c + 1) = unat (ab_stable c) + 1"
    using Cons.prems(2) by (simp add: unat_word_ariths)
  then have "ab_stable c + 1 < kStableSamplesBeforeRecovery"
    using Cons.prems(2) by (simp add: word_less_nat_alt kStableSamplesBeforeRecovery_def)
  note step = observe_keeps_low[OF Cons.prems(1) this, of s]
  have "unat (ab_stable (observe c s)) + length ss < 10"
    using step small Cons.prems(2) by auto
  then have "ab_target (foldl observe (observe c s) ss) \<le> ab_target (observe c s)"
    by (rule Cons.IH[OF observe_inv[OF Cons.prems(1)]])
  then show ?case using step by (auto intro: order_trans)
qed

subsection \<open>The target as a function of the samples\<close>

text \<open>
  What the samples ask for, from their history alone, the newest first.  A sample is an overload
  when it reports more drops than the one before, or a longer queue than the one before which itself reported a longer
  queue and was no overload.  The calm ones are counted since the last that was not calm, in tens.
\<close>

fun overload :: "abr_sample list \<Rightarrow> bool" where
  "overload (s # p # ss) \<longleftrightarrow> as_droppedFrames s > as_droppedFrames p \<or>
     as_queueDepth s > as_queueDepth p \<and>
       (case ss of [] \<Rightarrow> False | q # _ \<Rightarrow> as_queueDepth p > as_queueDepth q \<and> \<not> overload (p # ss))"
| "overload _ \<longleftrightarrow> False"

fun calm :: "abr_sample list \<Rightarrow> nat" where
  "calm [] = 0"
| "calm (s # ss) = (if overload (s # ss) \<or> as_queueDepth s \<noteq> 0 \<or> calm ss = 9 then 0 else calm ss + 1)"

definition grew :: "abr_sample list \<Rightarrow> bool" where
  "grew h \<longleftrightarrow> (case h of s # p # _ \<Rightarrow> as_queueDepth s > as_queueDepth p | _ \<Rightarrow> False)"

declare overload.simps(1) [simp del] calm.simps(2) [simp del]

lemma overload_next:
  "overload (s # p # ss) \<longleftrightarrow> as_droppedFrames s > as_droppedFrames p \<or>
     as_queueDepth s > as_queueDepth p \<and> grew (p # ss) \<and> \<not> overload (p # ss)"
  unfolding overload.simps(1)[of s p ss] grew_def by (simp split: list.split)

text \<open>The controller's counters say the same.\<close>

definition follows :: "abr_sample list \<Rightarrow> abr_controller \<Rightarrow> bool" where
  "follows h c \<longleftrightarrow> (ab_haveSample c \<longleftrightarrow> h \<noteq> []) \<and>
     (\<forall>s ss. h = s # ss \<longrightarrow> ab_previousDrops c = as_droppedFrames s \<and> ab_previousQueueDepth c = as_queueDepth s) \<and>
     ab_growing c = (if grew h \<and> \<not> overload h then 1 else 0) \<and> ab_stable c = word_of_nat (calm h) \<and> calm h \<le> 9"

lemma follows_backs_off:
  assumes "follows h c"
  shows "backs_off c s \<longleftrightarrow> overload (s # h)"
proof (cases h)
  case Nil
  with assms show ?thesis by (simp add: follows_def backs_off_def)
next
  case (Cons p ss)
  have "ab_growing c = (if grew h \<and> \<not> overload h then 1 else 0)" using assms by (simp add: follows_def)
  then have "ab_growing c + 1 \<ge> kGrowthSamplesBeforeBackoff \<longleftrightarrow> grew h \<and> \<not> overload h"
    by (simp add: kGrowthSamplesBeforeBackoff_def word_le_nat_alt)
  with assms show ?thesis by (simp add: follows_def backs_off_def Cons overload_next)
qed

lemma observe_growing:
  "ab_growing (observe c s) =
     (if backs_off c s \<or> \<not> (ab_haveSample c \<and> as_queueDepth s > ab_previousQueueDepth c) then 0 else ab_growing c + 1)"
  by (auto simp: observe_def backs_off_def Let_def kGrowthSamplesBeforeBackoff_def)

lemma observe_previous:
  "ab_previousDrops (observe c s) = as_droppedFrames s" "ab_previousQueueDepth (observe c s) = as_queueDepth s"
  "ab_haveSample (observe c s)"
  by (simp_all add: observe_def Let_def)

lemma follows_observe:
  assumes f: "follows h c"
  shows "follows (s # h) (observe c s)"
proof -
  note b = follows_backs_off[OF f, of s]
  have rising: "ab_haveSample c \<and> as_queueDepth s > ab_previousQueueDepth c \<longleftrightarrow> grew (s # h)"
    using f by (cases h) (auto simp: follows_def grew_def)
  have "ab_growing c = 0" if "grew (s # h)" "\<not> overload (s # h)"
    using f that by (cases h) (auto simp: follows_def grew_def overload_next split: if_splits)
  then have g: "ab_growing (observe c s) = (if grew (s # h) \<and> \<not> overload (s # h) then 1 else 0)"
    unfolding observe_growing b rising by simp
  have nine: "calm h \<le> 9" and st: "ab_stable c = word_of_nat (calm h)" using f by (simp_all add: follows_def)
  then have n: "unat (ab_stable c + 1) = calm h + 1"
    by (simp add: unat_word_ariths unat_word_of_nat)
  then have ten: "ab_stable c + 1 \<ge> kStableSamplesBeforeRecovery \<longleftrightarrow> calm h = 9"
    "ab_stable c + 1 < kStableSamplesBeforeRecovery \<longleftrightarrow> calm h \<noteq> 9"
    using nine by (auto simp: word_le_nat_alt word_less_nat_alt kStableSamplesBeforeRecovery_def)
  have "ab_stable (observe c s) = word_of_nat (calm (s # h))"
  proof (cases "backs_off c s")
    case True
    then show ?thesis using observe_backoff[OF True] b by (simp add: calm.simps)
  next
    case False
    then show ?thesis using observe_steady[OF False] b ten st by (simp add: calm.simps add.commute)
  qed
  moreover have "calm (s # h) \<le> 9" using nine by (simp add: calm.simps)
  ultimately show ?thesis using g by (simp add: follows_def observe_previous)
qed

lemma follows_run: "follows (rev ss) (foldl observe (new_abr initial lo hi) ss)"
proof (induction ss rule: rev_induct)
  case Nil
  then show ?case by (simp add: follows_def new_abr_def grew_def)
next
  case (snoc s ss)
  then show ?case using follows_observe by simp
qed

text \<open>
  Property C40: the target follows from the samples.  An overload cuts the target to eighty percent, but not below the
  minimum, and none of the nine samples after it can raise it, whatever they report.  The tenth calm sample in a row
  sets it five percent higher, at least by one, but never above eighty-five percent of the reported throughput, even if that
  lowers it, and within the limits.  No other sample changes it.
\<close>

theorem abr_follows_history:
  "let run = foldl observe (new_abr initial lo hi);
       target = ab_target (run before);
       ceiling = (if as_throughput s = 0 then max lo hi
         else max (min lo hi) (min (max lo hi) (as_throughput s * 85 div 100)))
     in ab_target (run (before @ [s])) =
          (if overload (s # rev before) then max (min lo hi) (target * 80 div 100)
           else if as_queueDepth s = 0 \<and> calm (rev before) = 9
             then min ceiling (max (min lo hi) (max (target + 1) (target * 105 div 100)))
           else target) \<and>
        (overload (s # rev before) \<and> length later \<le> 9 \<longrightarrow>
           ab_target (run (before @ [s] @ later)) \<le> ab_target (run (before @ [s])))"
proof -
  let ?run = "foldl observe (new_abr initial lo hi)"
  let ?c = "?run before"
  have f: "follows (rev before) ?c" by (rule follows_run)
  note b = follows_backs_off[OF f, of s]
  have lim: "ab_minimum ?c = min lo hi" "ab_maximum ?c = max lo hi"
    using abr_run_limits[of "new_abr initial lo hi" before] by (simp_all add: new_abr_def)
  have inv: "abr_inv ?c" "abr_inv (observe ?c s)"
    by (rule abr_machine.run_inv[OF new_abr_inv], rule observe_inv, rule abr_machine.run_inv[OF new_abr_inv])
  have run: "?run (before @ [s]) = observe ?c s" "?run (before @ s # later) = foldl observe (observe ?c s) later"
    by simp_all
  have cl: "clamp v l h = min h (max l v)" if "l \<le> h" for v l h :: u64
    using that by (auto simp: clamp_def min_def max_def)
  have ordered: "ab_minimum ?c \<le> ab_maximum ?c" using inv(1) by (auto simp: abr_inv_def)
  have ten: "ab_stable ?c + 1 \<ge> kStableSamplesBeforeRecovery \<longleftrightarrow> calm (rev before) = 9"
  proof -
    have "ab_stable ?c = word_of_nat (calm (rev before))" "calm (rev before) \<le> 9" using f by (simp_all add: follows_def)
    then have "unat (ab_stable ?c + 1) = calm (rev before) + 1" by (simp add: unat_word_ariths unat_word_of_nat)
    with \<open>calm (rev before) \<le> 9\<close> show ?thesis by (auto simp: word_le_nat_alt kStableSamplesBeforeRecovery_def)
  qed
  show ?thesis
  proof (cases "backs_off ?c s")
    case True
    note after = observe_backoff[OF True]
    have "length later \<le> 9 \<Longrightarrow> ab_target (foldl observe (observe ?c s) later) \<le> ab_target (observe ?c s)"
      using run_keeps_low[OF inv(2), of later] after by simp
    then show ?thesis using True after b by (simp add: Let_def lim percent_def)
  next
    case False
    note after = conjunct1[OF observe_steady[OF False], unfolded ten cl[OF conjunct1[OF recovery_ceiling_limits[OF ordered]]]]
    show ?thesis using False b by (simp add: Let_def after lim recovery_ceiling_def percent_def)
  qed
qed

theorem abr_follows_history_witness:
  "let before = [\<lparr>as_queueDepth = 1, as_droppedFrames = 0, as_throughput = 0\<rparr>,
                 \<lparr>as_queueDepth = 2, as_droppedFrames = 0, as_throughput = 0\<rparr>];
       s = \<lparr>as_queueDepth = 3, as_droppedFrames = 0, as_throughput = 0\<rparr>;
       quiet = replicate 9 \<lparr>as_queueDepth = 0, as_droppedFrames = 0, as_throughput = 0\<rparr>;
       run = foldl observe (new_abr 4000000 500000 8000000)
   in ab_target (run (before @ [s])) = 3200000 \<and>
      ab_target (run (before @ [s] @ quiet)) \<le> ab_target (run (before @ [s]))"
proof -
  let ?before = "[\<lparr>as_queueDepth = 1, as_droppedFrames = 0, as_throughput = 0\<rparr>,
                 \<lparr>as_queueDepth = 2, as_droppedFrames = 0, as_throughput = 0\<rparr>] :: abr_sample list"
  let ?s = "\<lparr>as_queueDepth = 3, as_droppedFrames = 0, as_throughput = 0\<rparr> :: abr_sample"
  let ?quiet = "replicate 9 \<lparr>as_queueDepth = 0, as_droppedFrames = 0, as_throughput = 0\<rparr> :: abr_sample list"
  have over: "overload (?s # rev ?before)" by (simp add: overload.simps)
  have start: "ab_target (foldl observe (new_abr 4000000 500000 8000000) ?before) = 4000000"
    by (simp add: observe_def new_abr_def Let_def clamp_def kGrowthSamplesBeforeBackoff_def word_le_nat_alt)
  have "max (min 500000 8000000) ((4000000 :: u64) * 80 div 100) = 3200000" by simp
  with abr_follows_history[of 4000000 500000 8000000 ?before ?s ?quiet, unfolded Let_def if_P[OF over] start]
  show ?thesis unfolding Let_def using over by auto
qed

text \<open>
  A recovery needs more traffic than was asked for.  When the reported throughput is no more
  than the current target, a sample never raises the target, however long the queue has been
  empty: the ceiling of a recovery is eighty-five percent of what arrives, so the recovery step of a
  phone that sends exactly what it is told lowers the target to eighty-five percent of it.
\<close>

theorem abr_recovery_needs_overshoot:
  assumes "as_throughput s \<noteq> 0"
    and "as_throughput s \<le> ab_target (foldl observe (new_abr initial lo hi) before)"
  shows "ab_target (observe (foldl observe (new_abr initial lo hi) before) s)
    \<le> ab_target (foldl observe (new_abr initial lo hi) before)"
proof -
  let ?c = "foldl observe (new_abr initial lo hi) before"
  have inv: "abr_inv ?c" by (rule abr_machine.run_inv[OF new_abr_inv])
  show ?thesis
  proof (cases "backs_off ?c s")
    case True
    have "percent (ab_target ?c) 80 100 \<le> ab_target ?c" by (rule percent_le) simp_all
    then show ?thesis using inv observe_backoff[OF True] by (simp add: abr_inv_def)
  next
    case False
    have "percent (as_throughput s) 85 100 \<le> as_throughput s" by (rule percent_le) simp_all
    then have "recovery_ceiling ?c s \<le> ab_target ?c"
      using assms inv by (auto simp: recovery_ceiling_def abr_inv_def min_def)
    moreover have "ab_minimum ?c \<le> recovery_ceiling ?c s"
      using inv by (auto simp: abr_inv_def intro!: conjunct1[OF recovery_ceiling_limits])
    ultimately show ?thesis
      using observe_steady[OF False] clamp_bounds[of "ab_minimum ?c" "recovery_ceiling ?c s"]
      by (auto intro: order_trans)
  qed
qed

theorem abr_recovery_needs_overshoot_witness:
  "let steady = \<lparr>as_queueDepth = 0, as_droppedFrames = 0, as_throughput = 4000000\<rparr>;
       c = foldl observe (new_abr 4000000 500000 8000000) (replicate 9 steady)
   in ab_target c = 4000000 \<and> ab_target (observe c steady) \<le> ab_target c \<and>
      ab_target (observe c steady) = 3400000"
proof -
  let ?s = "\<lparr>as_queueDepth = 0, as_droppedFrames = 0, as_throughput = 4000000\<rparr>"
  let ?c = "\<lambda>stable seen. \<lparr>ab_minimum = 500000, ab_maximum = 8000000, ab_target = 4000000,
     ab_previousDrops = 0, ab_previousQueueDepth = 0, ab_growing = 0, ab_stable = stable, ab_haveSample = seen\<rparr>"
  have new: "new_abr 4000000 500000 8000000 = ?c 0 False"
    by (simp add: new_abr_def clamp_def)
  have step: "observe (?c k seen) ?s = ?c (k + 1) True" if "k + 1 < 10" for k seen
    using that unfolding linorder_not_le[symmetric]
    by (simp add: observe_def Let_def kGrowthSamplesBeforeBackoff_def kStableSamplesBeforeRecovery_def)
  have nine: "replicate 9 ?s = [?s, ?s, ?s, ?s, ?s, ?s, ?s, ?s, ?s]"
    by (simp add: numeral_nat)
  have c: "foldl observe (?c 0 False) (replicate 9 ?s) = ?c 9 True"
    unfolding nine by (simp add: step)
  show ?thesis
    using abr_recovery_needs_overshoot[of ?s 4000000 500000 8000000 "replicate 9 ?s"]
    by (simp add: c new Let_def)
      (simp add: observe_def Let_def clamp_def percent_def kGrowthSamplesBeforeBackoff_def
        kStableSamplesBeforeRecovery_def)
qed

end
