(* ===== verification/ShmRing.thy ===== *)
theory ShmRing
  imports Interfaces
begin

text \<open>
  The shared-memory frame ring between the producer and the virtual camera,
  \<open>windows/common/src/shm_ring.cpp\<close>: the header in the shared section, the \<open>FrameRing\<close> object of a
  process, and its operations except the publication and the reading of a frame, which run
  concurrently and are in \<open>RingSeqlock\<close>.  What the operations ask of Windows (the objects by name,
  the mutex, the clock and the table of processes) is an argument of each of them.
\<close>

subsection \<open>Results\<close>

datatype hresult = S_OK | S_FALSE | E_FAIL | E_POINTER | E_INVALIDARG | E_ACCESSDENIED
  | HRESULT_FROM_WIN32 u32

fun FAILED :: "hresult \<Rightarrow> bool" where
  "FAILED S_OK = False"
| "FAILED S_FALSE = False"
| "FAILED (HRESULT_FROM_WIN32 e) = (e \<noteq> 0)"
| "FAILED _ = True"

definition ERROR_FILE_NOT_FOUND :: u32 where "ERROR_FILE_NOT_FOUND = 2"
definition ERROR_TOO_MANY_OPEN_FILES :: u32 where "ERROR_TOO_MANY_OPEN_FILES = 4"
definition ERROR_INVALID_HANDLE :: u32 where "ERROR_INVALID_HANDLE = 6"
definition ERROR_INVALID_DATA :: u32 where "ERROR_INVALID_DATA = 13"
definition ERROR_INVALID_PARAMETER :: u32 where "ERROR_INVALID_PARAMETER = 87"
definition ERROR_INSUFFICIENT_BUFFER :: u32 where "ERROR_INSUFFICIENT_BUFFER = 122"
definition ERROR_ALREADY_EXISTS :: u32 where "ERROR_ALREADY_EXISTS = 183"
definition ERROR_NOT_FOUND :: u32 where "ERROR_NOT_FOUND = 1168"
definition ERROR_TIMEOUT :: u32 where "ERROR_TIMEOUT = 1460"
definition ERROR_INVALID_STATE :: u32 where "ERROR_INVALID_STATE = 5023"
definition STILL_ACTIVE :: u32 where "STILL_ACTIVE = 259"

definition hrFromLastError :: "u32 \<Rightarrow> hresult" where
  "hrFromLastError err = (if err = 0 then E_FAIL else HRESULT_FROM_WIN32 err)"

subsection \<open>The shared header\<close>

definition kRingMagic :: u32 where "kRingMagic = 0x4D414352"
definition kRingVersion :: u32 where "kRingVersion = 3"
definition kRingSlots :: u32 where "kRingSlots = 4"
definition kFourccNv12 :: u32 where "kFourccNv12 = 0x3231564E"
definition kRingMaxWidth :: u32 where "kRingMaxWidth = 3840"
definition kRingMaxHeight :: u32 where "kRingMaxHeight = 2160"
definition kRingSlotBytes :: u32 where "kRingSlotBytes = kRingMaxWidth * kRingMaxHeight * 3 div 2"

record frame_info =
  fi_width :: u32
  fi_height :: u32
  fi_stride :: u32
  fi_format :: u32
  fi_ptsMicros :: u64
  fi_writeSeq :: u64
  fi_bytesUsed :: u32

text \<open>
  The arrays over the slots are one function to the slot's fields, and the pixels of a slot one
  function of the offset; the code indexes them by a remainder modulo \<open>kRingSlots\<close> only.
\<close>

record ring_slot =
  sl_seq :: u64
  sl_pts :: u64
  sl_bytesUsed :: u32
  sl_width :: u32
  sl_height :: u32
  sl_stride :: u32

record ring_header =
  rh_magic :: u32
  rh_version :: u32
  rh_slotCount :: u32
  rh_slotBytes :: u32
  rh_formatGeneration :: u32
  rh_width :: u32
  rh_height :: u32
  rh_stride :: u32
  rh_format :: u32
  rh_consumerCount :: u32
  rh_consumerGeneration :: u32
  rh_ownerPid :: u32
  rh_ownerStartTime :: u64
  rh_requestedWidth :: u32
  rh_requestedHeight :: u32
  rh_requestedFormat :: u32
  rh_requestedGeneration :: u32
  rh_writeSeq :: u64
  rh_lastWriteQpc :: u64
  rh_slots :: "nat \<Rightarrow> ring_slot"
  rh_pixels :: "nat \<Rightarrow> nat \<Rightarrow> u8"

definition empty_slot :: ring_slot where
  "empty_slot = \<lparr>sl_seq = 0, sl_pts = 0, sl_bytesUsed = 0, sl_width = 0, sl_height = 0, sl_stride = 0\<rparr>"

definition zero_header :: ring_header where
  "zero_header =
     \<lparr>rh_magic = 0, rh_version = 0, rh_slotCount = 0, rh_slotBytes = 0, rh_formatGeneration = 0,
      rh_width = 0, rh_height = 0, rh_stride = 0, rh_format = 0, rh_consumerCount = 0,
      rh_consumerGeneration = 0, rh_ownerPid = 0, rh_ownerStartTime = 0, rh_requestedWidth = 0,
      rh_requestedHeight = 0, rh_requestedFormat = 0, rh_requestedGeneration = 0, rh_writeSeq = 0,
      rh_lastWriteQpc = 0, rh_slots = (\<lambda>_. empty_slot), rh_pixels = (\<lambda>_ _. 0)\<rparr>"

definition geometryIsSane :: "frame_info \<Rightarrow> bool" where
  "geometryIsSane info =
     (if fi_width info = 0 \<or> fi_height info = 0 then False
      else if fi_width info > kRingMaxWidth \<or> fi_height info > kRingMaxHeight then False
      else if and (or (fi_width info) (fi_height info)) 1 \<noteq> 0 then False
      else if fi_stride info < fi_width info then False
      else if fi_format info \<noteq> kFourccNv12 then False
      else (let plane = (ucast (fi_stride info) :: u64) * ucast (fi_height info);
                total = plane + plane div 2
            in total \<le> ucast (fi_bytesUsed info) \<and> fi_bytesUsed info \<le> kRingSlotBytes))"

definition hasActiveConsumer :: "ring_header \<Rightarrow> bool" where
  "hasActiveConsumer h \<longleftrightarrow> rh_consumerCount h \<noteq> 0"

definition resetPublishedFrames :: "ring_header \<Rightarrow> ring_header" where
  "resetPublishedFrames h =
     h\<lparr>rh_formatGeneration := 0, rh_width := 0, rh_height := 0, rh_stride := 0, rh_format := 0,
       rh_writeSeq := 0, rh_lastWriteQpc := 0, rh_slots := (\<lambda>_. empty_slot)\<rparr>"

text \<open>The four fixed fields \<open>create\<close> and \<open>open\<close> check before they use a header.\<close>

definition layout_ok :: "ring_header \<Rightarrow> bool" where
  "layout_ok h \<longleftrightarrow> rh_magic h = kRingMagic \<and> rh_version h = kRingVersion \<and>
     rh_slotCount h = kRingSlots \<and> rh_slotBytes h = kRingSlotBytes"

subsection \<open>The environment of a call\<close>

text \<open>
  What \<open>WaitForSingleObject\<close> answers, and what \<open>OpenProcess\<close>, \<open>GetExitCodeProcess\<close> and
  \<open>GetProcessTimes\<close> tell of a process: the error of a failed open, or the exit code when it could be
  read and the start time, 0 when it could not.
\<close>

datatype wait_answer = WAIT_OBJECT_0 | WAIT_ABANDONED | WAIT_TIMEOUT | WAIT_FAILED u32

datatype process_answer = NoProcess u32 | Process "u32 option" u64

text \<open>
  One call's answers: the security descriptor, the section (\<open>Inl\<close> the error, or whether it
  existed before), the event, the mutex and the view (\<open>Some\<close> the error), the wait for the mutex of so
  many milliseconds, and the identity of the calling process.
\<close>

record ring_env =
  re_descriptor :: hresult
  re_section :: "u32 + bool"
  re_event :: "u32 option"
  re_mutex :: "u32 option"
  re_view :: "u32 option"
  re_guard :: "u32 \<Rightarrow> wait_answer"
  re_pid :: u32
  re_startTime :: u64
  re_process :: "u32 \<Rightarrow> process_answer"

text \<open>What \<open>lockWriteGuard\<close> makes of the answer, and the wait of up to \<open>timeoutMillis\<close> before it.\<close>

definition lock_result :: "wait_answer \<Rightarrow> hresult" where
  "lock_result wait =
     (case wait of
        WAIT_OBJECT_0 \<Rightarrow> S_OK
      | WAIT_ABANDONED \<Rightarrow> S_OK
      | WAIT_TIMEOUT \<Rightarrow> HRESULT_FROM_WIN32 ERROR_TIMEOUT
      | WAIT_FAILED e \<Rightarrow> hrFromLastError e)"

definition lockWriteGuard :: "(u32 \<Rightarrow> wait_answer) \<Rightarrow> u32 \<Rightarrow> hresult" where
  "lockWriteGuard waitForSingleObject timeoutMillis = lock_result (waitForSingleObject timeoutMillis)"

text \<open>The default of its second parameter.\<close>

definition kGuardTimeout :: u32 where
  "kGuardTimeout = 5000"

text \<open>
  Inside \<open>WaitForSingleObject\<close>: what the mutex is to the caller at some instant, and what the wait makes
  of it.  It ends when the mutex can be had, or fails, or the time is over (\<open>Inl\<close>); else it goes on
  with a millisecond less, or for ever.
\<close>

datatype guard_state = GuardFree | GuardAbandoned | GuardHeld | GuardFailed u32

definition INFINITE :: u32 where
  "INFINITE = 0xFFFFFFFF"

definition waitForSingleObject :: "u32 \<Rightarrow> guard_state \<Rightarrow> wait_answer + u32" where
  "waitForSingleObject millis guard =
     (case guard of
        GuardFree \<Rightarrow> Inl WAIT_OBJECT_0
      | GuardAbandoned \<Rightarrow> Inl WAIT_ABANDONED
      | GuardFailed e \<Rightarrow> Inl (WAIT_FAILED e)
      | GuardHeld \<Rightarrow>
          if millis = 0 then Inl WAIT_TIMEOUT
          else Inr (if millis = INFINITE then INFINITE else millis - 1))"

definition producerClaimIsLive :: "(u32 \<Rightarrow> process_answer) \<Rightarrow> u32 \<Rightarrow> u64 \<Rightarrow> bool" where
  "producerClaimIsLive process pid startTime =
     (if pid = 0 then False
      else case process pid of
        NoProcess err \<Rightarrow> \<not> (err = ERROR_INVALID_PARAMETER \<or> err = ERROR_NOT_FOUND)
      | Process exitCode actualStart \<Rightarrow>
          (if (case exitCode of Some code \<Rightarrow> code \<noteq> STILL_ACTIVE | None \<Rightarrow> False) then False
           else if startTime \<noteq> 0 \<and> actualStart \<noteq> 0 \<and> actualStart \<noteq> startTime then False
           else True))"

subsection \<open>The FrameRing object\<close>

text \<open>The handles and the view are their presence.\<close>

record frame_ring =
  fr_section :: bool
  fr_event :: bool
  fr_view :: bool
  fr_writeGuard :: bool
  fr_owner :: bool
  fr_producerClaim :: bool
  fr_consumerGeneration :: u32
  fr_rejectedLogged :: bool

definition new_ring :: frame_ring where
  "new_ring = \<lparr>fr_section = False, fr_event = False, fr_view = False, fr_writeGuard = False,
     fr_owner = False, fr_producerClaim = False, fr_consumerGeneration = 0, fr_rejectedLogged = False\<rparr>"

text \<open>
  \<open>close\<close> waits for the mutex, but only to release it again: it goes on without it when the wait
  fails.
\<close>

definition close_consumer :: "frame_ring \<Rightarrow> ring_header \<Rightarrow> ring_header" where
  "close_consumer r h =
     (if fr_owner r \<and> fr_view r then
        (let previous = rh_consumerCount h; h = h\<lparr>rh_consumerCount := previous - 1\<rparr>
         in if previous = 0 then h\<lparr>rh_consumerCount := 0\<rparr> else h)
      else h)"

definition close_claim :: "ring_env \<Rightarrow> frame_ring \<Rightarrow> ring_header \<Rightarrow> ring_header" where
  "close_claim env r h =
     (if fr_producerClaim r \<and> fr_view r \<and> rh_ownerPid h = re_pid env \<and> rh_ownerStartTime h = re_startTime env
      then h\<lparr>rh_ownerStartTime := 0, rh_ownerPid := 0\<rparr>
      else h)"

definition ring_close :: "ring_env \<Rightarrow> frame_ring \<times> ring_header \<Rightarrow> frame_ring \<times> ring_header" where
  "ring_close env =
     (\<lambda>(r, h).
        (r\<lparr>fr_producerClaim := False, fr_view := False, fr_section := False, fr_event := False,
           fr_writeGuard := False, fr_owner := False, fr_consumerGeneration := 0\<rparr>,
         close_claim env r (close_consumer r h)))"

definition mapView :: "ring_env \<Rightarrow> frame_ring \<times> ring_header \<Rightarrow> hresult \<times> frame_ring \<times> ring_header" where
  "mapView env =
     (\<lambda>(r, h).
        case re_view env of
          Some e \<Rightarrow> (hrFromLastError e, ring_close env (r\<lparr>fr_view := False\<rparr>, h))
        | None \<Rightarrow> (S_OK, r\<lparr>fr_view := True\<rparr>, h))"

text \<open>The header \<open>create\<close> writes in a section it is the first to create: the zeroes of the mapping,
  the layout, one consumer of generation 1, and the magic last.\<close>

definition fresh_header :: ring_header where
  "fresh_header =
     zero_header\<lparr>rh_slotCount := kRingSlots, rh_slotBytes := kRingSlotBytes, rh_version := kRingVersion,
       rh_consumerGeneration := 1, rh_consumerCount := 1, rh_magic := kRingMagic\<rparr>"

text \<open>A consumer that comes to a ring with no consumer begins a new generation.\<close>

definition reopened_header :: "ring_header \<Rightarrow> ring_header" where
  "reopened_header h =
     (let next = rh_consumerGeneration h + 1;
          h = h\<lparr>rh_consumerGeneration := next\<rparr>;
          h = (if next = 0 then h\<lparr>rh_consumerGeneration := 1\<rparr> else h)
      in (resetPublishedFrames h)\<lparr>rh_requestedWidth := 0, rh_requestedHeight := 0, rh_requestedFormat := 0,
           rh_requestedGeneration := 0, rh_consumerCount := 1\<rparr>)"

definition attach_consumer ::
  "ring_env \<Rightarrow> bool \<Rightarrow> frame_ring \<times> ring_header \<Rightarrow> hresult \<times> frame_ring \<times> ring_header" where
  "attach_consumer env existed =
     (\<lambda>(r, h).
        let attached = (\<lambda>h. (S_OK, r\<lparr>fr_owner := True, fr_consumerGeneration := rh_consumerGeneration h\<rparr>, h))
        in if \<not> existed then attached fresh_header
           else if \<not> layout_ok h then (HRESULT_FROM_WIN32 ERROR_INVALID_DATA, ring_close env (r, h))
           else if rh_consumerCount h = 0 then attached (reopened_header h)
           else if rh_consumerCount h = -1 then
             (HRESULT_FROM_WIN32 ERROR_TOO_MANY_OPEN_FILES, ring_close env (r, h))
           else attached (h\<lparr>rh_consumerCount := rh_consumerCount h + 1\<rparr>))"

definition ring_create :: "ring_env \<Rightarrow> frame_ring \<times> ring_header \<Rightarrow> hresult \<times> frame_ring \<times> ring_header" where
  "ring_create env s =
     (let (r, h) = ring_close env s
      in if FAILED (re_descriptor env) then (re_descriptor env, r, h)
         else case re_section env of
           Inl e \<Rightarrow> (HRESULT_FROM_WIN32 e, r, h)
         | Inr existed \<Rightarrow>
             (let r = r\<lparr>fr_section := True\<rparr>
              in case re_event env of
                Some e \<Rightarrow> (hrFromLastError e, ring_close env (r, h))
              | None \<Rightarrow>
                  (let r = r\<lparr>fr_event := True\<rparr>
                   in case re_mutex env of
                     Some e \<Rightarrow> (hrFromLastError e, ring_close env (r, h))
                   | None \<Rightarrow>
                       (case mapView env (r\<lparr>fr_writeGuard := True\<rparr>, h) of
                          (hr, r, h) \<Rightarrow>
                            if FAILED hr then (hr, r, h)
                            else if FAILED (lockWriteGuard (re_guard env) kGuardTimeout)
                              then (lockWriteGuard (re_guard env) kGuardTimeout, ring_close env (r, h))
                            else attach_consumer env existed (r, h)))))"

definition attach_opened ::
  "ring_env \<Rightarrow> bool \<Rightarrow> frame_ring \<times> ring_header \<Rightarrow> hresult \<times> frame_ring \<times> ring_header" where
  "attach_opened env writable =
     (\<lambda>(r, h).
        let opened = (\<lambda>r h. (S_OK, r\<lparr>fr_consumerGeneration := rh_consumerGeneration h\<rparr>, h))
        in if \<not> layout_ok h then (HRESULT_FROM_WIN32 ERROR_INVALID_DATA, ring_close env (r, h))
           else if \<not> hasActiveConsumer h then (HRESULT_FROM_WIN32 ERROR_FILE_NOT_FOUND, ring_close env (r, h))
           else if writable then
             (if producerClaimIsLive (re_process env) (rh_ownerPid h) (rh_ownerStartTime h)
              then (HRESULT_FROM_WIN32 ERROR_ALREADY_EXISTS, ring_close env (r, h))
              else opened (r\<lparr>fr_producerClaim := True\<rparr>)
                     (h\<lparr>rh_ownerStartTime := re_startTime env, rh_ownerPid := re_pid env\<rparr>))
           else opened r h)"

definition ring_open ::
  "ring_env \<Rightarrow> bool \<Rightarrow> frame_ring \<times> ring_header \<Rightarrow> hresult \<times> frame_ring \<times> ring_header" where
  "ring_open env writable s =
     (let (r, h) = ring_close env s
      in case re_section env of
           Inl e \<Rightarrow> (hrFromLastError e, r, h)
         | Inr _ \<Rightarrow>
             (let r = r\<lparr>fr_section := True\<rparr>
              in case re_event env of
                Some e \<Rightarrow> (hrFromLastError e, ring_close env (r, h))
              | None \<Rightarrow>
                  (let r = r\<lparr>fr_event := True\<rparr>
                   in if writable \<and> re_mutex env \<noteq> None
                      then (hrFromLastError (the (re_mutex env)), ring_close env (r, h))
                      else case mapView env (r\<lparr>fr_writeGuard := writable\<rparr>, h) of
                        (hr, r, h) \<Rightarrow>
                          if FAILED hr then (hr, r, h)
                          else if writable \<and> FAILED (lockWriteGuard (re_guard env) kGuardTimeout)
                            then (lockWriteGuard (re_guard env) kGuardTimeout, ring_close env (r, h))
                          else attach_opened env writable (r, h))))"

definition requestGeometry ::
  "u32 \<Rightarrow> u32 \<Rightarrow> u32 \<Rightarrow> frame_ring \<Rightarrow> ring_header \<Rightarrow> hresult \<times> ring_header" where
  "requestGeometry width height format r h =
     (if \<not> fr_view r then (HRESULT_FROM_WIN32 ERROR_INVALID_STATE, h)
      else if \<not> fr_owner r then (E_ACCESSDENIED, h)
      else if width = 0 \<or> height = 0 \<or> format = 0 then (E_INVALIDARG, h)
      else if width > kRingMaxWidth \<or> height > kRingMaxHeight then (E_INVALIDARG, h)
      else if rh_requestedWidth h = width \<and> rh_requestedHeight h = height \<and> rh_requestedFormat h = format
        then (S_OK, h)
      else (let next = rh_requestedGeneration h + 1;
                h = h\<lparr>rh_requestedWidth := width, rh_requestedHeight := height, rh_requestedFormat := format,
                      rh_requestedGeneration := next\<rparr>
            in (S_OK, if next = 0 then h\<lparr>rh_requestedGeneration := 1\<rparr> else h)))"

definition requestedGeometry :: "frame_ring \<Rightarrow> ring_header \<Rightarrow> hresult \<times> (u32 \<times> u32 \<times> u32) option" where
  "requestedGeometry r h =
     (if \<not> fr_view r then (HRESULT_FROM_WIN32 ERROR_INVALID_STATE, None)
      else if rh_requestedGeneration h = 0 then (S_FALSE, None)
      else (S_OK, Some (rh_requestedWidth h, rh_requestedHeight h, rh_requestedFormat h)))"

definition millisSinceLastWrite :: "u64 \<Rightarrow> u64 \<Rightarrow> frame_ring \<Rightarrow> ring_header \<Rightarrow> u64" where
  "millisSinceLastWrite now freq r h =
     (if \<not> fr_view r then -1
      else if rh_writeSeq h = 0 then -1
      else if now < rh_lastWriteQpc h then -1
      else (now - rh_lastWriteQpc h) * 1000 div freq)"

subsection \<open>The geometry a consumer may rely on\<close>

lemma slot_bytes: "unat kRingSlotBytes = 12441600" "unat kRingMaxWidth = 3840" "unat kRingMaxHeight = 2160"
  by (simp_all add: kRingSlotBytes_def kRingMaxWidth_def kRingMaxHeight_def)

lemma unat_wider: "unat (ucast (x :: u32) :: u64) = unat x"
proof -
  have "unat x < 2 ^ 32" using unsigned_less[of x] by simp
  then show ?thesis by (simp add: unsigned_ucast_eq take_bit_nat_eq_self)
qed

lemma even_word: "even (x :: 'a :: len word) \<longleftrightarrow> even (unat x)" if "LENGTH('a) > 1"
  using that by (simp add: even_iff_mod_2_eq_zero word_unat_eq_iff unat_mod)

lemma even_word_or: "and (or (x :: u32) y) 1 = 0 \<longleftrightarrow> even (unat x) \<and> even (unat y)"
  by (simp add: and_one_eq even_or_iff even_word flip: even_iff_mod_2_eq_zero)

text \<open>
  \<open>geometryIsSane\<close> over the integers: a frame passes exactly when its dimensions are even, not zero and
  within the ring's limits, a row fits its stride, it is NV12, and the two planes of that stride
  fit in the bytes of the frame, which fit in a slot; no product wraps around.
\<close>

lemma geometryIsSane_iff:
  "geometryIsSane info \<longleftrightarrow>
     (let w = unat (fi_width info); h = unat (fi_height info); s = unat (fi_stride info)
      in 0 < w \<and> w \<le> 3840 \<and> 0 < h \<and> h \<le> 2160 \<and> even w \<and> even h \<and> w \<le> s \<and>
         fi_format info = kFourccNv12 \<and>
         s * h + s * h div 2 \<le> unat (fi_bytesUsed info) \<and> unat (fi_bytesUsed info) \<le> 12441600)"
proof (cases "0 < unat (fi_height info) \<and> unat (fi_height info) \<le> 2160")
  case False
  then show ?thesis
    by (auto simp: geometryIsSane_def Let_def word_less_nat_alt word_le_nat_alt slot_bytes unat_eq_zero)
next
  case True
  let ?plane = "(ucast (fi_stride info) :: u64) * ucast (fi_height info)"
  let ?n = "unat (fi_stride info) * unat (fi_height info)"
  have "?n < 2 ^ 32 * 2160"
    using True by (intro mult_less_le_imp_less) (use unsigned_less[of "fi_stride info"] in simp_all)
  then have n: "?n + ?n div 2 < 2 ^ 64" by simp
  have plane: "unat ?plane = ?n" using n by (simp add: unat_word_ariths unat_wider)
  have "unat (?plane + ?plane div 2) = ?n + ?n div 2"
    using n by (simp add: unat_word_ariths(1) plane unat_div)
  then have "?plane + ?plane div 2 \<le> ucast (fi_bytesUsed info) \<longleftrightarrow> ?n + ?n div 2 \<le> unat (fi_bytesUsed info)"
    by (simp add: word_le_nat_alt unat_wider)
  then show ?thesis
    using True
    by (auto simp: geometryIsSane_def Let_def even_word_or word_le_nat_alt word_less_nat_alt slot_bytes unat_gt_0
        unat_eq_zero not_le not_less)
qed

end
