(* ===== verification/RingWorld.thy ===== *)
theory RingWorld
  imports ShmRing
begin

text \<open>
  The processes that share the ring: which of them live, their \<open>FrameRing\<close> objects, and the section,
  which exists while any of them holds a handle to it.  The mutex makes each of \<open>create\<close>, \<open>open\<close> and
  \<open>close\<close> one step.
\<close>

subsection \<open>Outcomes of the operations\<close>

text \<open>A closed object, with some of its handles opened again.\<close>

definition reopening :: "frame_ring \<Rightarrow> bool \<Rightarrow> bool \<Rightarrow> bool \<Rightarrow> bool \<Rightarrow> frame_ring" where
  "reopening r sec ev guard view =
     r\<lparr>fr_producerClaim := False, fr_view := view, fr_section := sec, fr_event := ev,
       fr_writeGuard := guard, fr_owner := False, fr_consumerGeneration := 0\<rparr>"

lemma ring_close_reopening:
  "ring_close env (reopening r a b c d, h) = (reopening r False False False False, h)"
  by (simp add: reopening_def ring_close_def close_claim_def close_consumer_def)

lemma ring_close_eq:
  "ring_close env (r, h) = (reopening r False False False False, close_claim env r (close_consumer r h))"
  by (simp add: reopening_def ring_close_def)

lemma reopening_simps [simp]:
  "(reopening r a b c d)\<lparr>fr_section := x\<rparr> = reopening r x b c d"
  "(reopening r a b c d)\<lparr>fr_event := x\<rparr> = reopening r a x c d"
  "(reopening r a b c d)\<lparr>fr_writeGuard := x\<rparr> = reopening r a b x d"
  "(reopening r a b c d)\<lparr>fr_view := x\<rparr> = reopening r a b c x"
  "\<not> fr_owner (reopening r a b c d)" "\<not> fr_producerClaim (reopening r a b c d)"
  "(reopening r a b c d)\<lparr>fr_producerClaim := False\<rparr> = reopening r a b c d"
  "reopening (reopening r a b c d) w x y z = reopening r w x y z"
  "fr_section (reopening r a b c d) = a" "fr_view (reopening r a b c d) = d"
  by (simp_all add: reopening_def)

text \<open>The header a consumer leaves when it attaches.\<close>

definition attached_header :: "bool \<Rightarrow> ring_header \<Rightarrow> ring_header" where
  "attached_header existed h =
     (if \<not> existed then fresh_header
      else if rh_consumerCount h = 0 then reopened_header h
      else h\<lparr>rh_consumerCount := rh_consumerCount h + 1\<rparr>)"

lemma mapView_reopening:
  "mapView env (reopening r a b c d, h) =
     (case re_view env of Some e \<Rightarrow> (hrFromLastError e, reopening r False False False False, h)
      | None \<Rightarrow> (S_OK, reopening r a b c True, h))"
  by (simp add: mapView_def ring_close_reopening split: option.split)

lemma FAILED_last_error [simp]: "FAILED (hrFromLastError e)" "\<not> FAILED S_OK"
  by (simp_all add: hrFromLastError_def)

lemma attach_consumer_eq:
  "attach_consumer env existed (reopening r True True True True, h) =
     (if existed \<and> (\<not> layout_ok h \<or> rh_consumerCount h = -1)
      then (if \<not> layout_ok h then HRESULT_FROM_WIN32 ERROR_INVALID_DATA else HRESULT_FROM_WIN32 ERROR_TOO_MANY_OPEN_FILES,
            reopening r False False False False, h)
      else (S_OK, (reopening r True True True True)\<lparr>fr_owner := True,
              fr_consumerGeneration := rh_consumerGeneration (attached_header existed h)\<rparr>, attached_header existed h))"
  by (simp add: attach_consumer_def ring_close_reopening attached_header_def)

text \<open>A call of \<open>create\<close> either fails and leaves what \<open>close\<close> leaves, or attaches a consumer.\<close>

lemma ring_create_cases:
  obtains (failed) hr where "ring_create env (r, h) = (hr, ring_close env (r, h))"
  | (attached) existed where "re_section env = Inr existed"
      and "existed \<Longrightarrow> layout_ok (snd (ring_close env (r, h))) \<and> rh_consumerCount (snd (ring_close env (r, h))) \<noteq> -1"
      and "ring_create env (r, h) =
        (S_OK, (reopening r True True True True)\<lparr>fr_owner := True, fr_consumerGeneration :=
             rh_consumerGeneration (attached_header existed (snd (ring_close env (r, h))))\<rparr>,
         attached_header existed (snd (ring_close env (r, h))))"
proof -
  obtain h' where close: "ring_close env (r, h) = (reopening r False False False False, h')"
    by (simp add: ring_close_eq)
  note calls = ring_create_def close ring_close_reopening mapView_reopening attach_consumer_eq
  show ?thesis
  proof (cases "re_section env")
    case (Inl e)
    then have "ring_create env (r, h) =
        (if FAILED (re_descriptor env) then re_descriptor env else HRESULT_FROM_WIN32 e, ring_close env (r, h))"
      by (simp add: calls)
    then show ?thesis by (rule failed)
  next
    case (Inr existed)
    consider "FAILED (re_descriptor env)" | e where "\<not> FAILED (re_descriptor env)" "re_event env = Some e"
      | e where "\<not> FAILED (re_descriptor env)" "re_event env = None" "re_mutex env = Some e"
      | e where "\<not> FAILED (re_descriptor env)" "re_event env = None" "re_mutex env = None" "re_view env = Some e"
      | "\<not> FAILED (re_descriptor env)" "re_event env = None" "re_mutex env = None" "re_view env = None"
        "FAILED (lockWriteGuard (re_guard env) kGuardTimeout)"
      | "\<not> FAILED (re_descriptor env)" "re_event env = None" "re_mutex env = None" "re_view env = None"
        "\<not> FAILED (lockWriteGuard (re_guard env) kGuardTimeout)"
      by (cases "re_event env"; cases "re_mutex env"; cases "re_view env"; blast)
    then show ?thesis
    proof cases
      case 6
      show ?thesis
      proof (cases "existed \<and> (\<not> layout_ok h' \<or> rh_consumerCount h' = -1)")
        case True
        then show ?thesis using 6 by (intro failed) (simp add: calls Inr)
      next
        case False
        show ?thesis
          by (rule attached[OF Inr]) (use False 6 in \<open>auto simp: calls Inr\<close>)
      qed
    qed (rule failed, simp add: calls Inr)+
  qed
qed

text \<open>A call of \<open>open\<close> either fails likewise, or attaches a reader or the producer.\<close>

lemma ring_open_cases:
  obtains (failed) hr where "ring_open env writable (r, h) = (hr, ring_close env (r, h))"
  | (opened) existed where "re_section env = Inr existed"
      and "layout_ok (snd (ring_close env (r, h)))" and "hasActiveConsumer (snd (ring_close env (r, h)))"
      and "writable \<Longrightarrow> \<not> producerClaimIsLive (re_process env) (rh_ownerPid (snd (ring_close env (r, h))))
             (rh_ownerStartTime (snd (ring_close env (r, h))))"
      and "ring_open env writable (r, h) =
        (S_OK, (reopening r True True writable True)\<lparr>fr_producerClaim := writable,
             fr_consumerGeneration := rh_consumerGeneration (snd (ring_close env (r, h)))\<rparr>,
         if writable then (snd (ring_close env (r, h)))\<lparr>rh_ownerStartTime := re_startTime env, rh_ownerPid := re_pid env\<rparr>
         else snd (ring_close env (r, h)))"
proof -
  obtain h' where close: "ring_close env (r, h) = (reopening r False False False False, h')"
    by (simp add: ring_close_eq)
  note calls = ring_open_def close ring_close_reopening mapView_reopening attach_opened_def
  show ?thesis
  proof (cases "re_section env")
    case (Inl e)
    then have "ring_open env writable (r, h) = (hrFromLastError e, ring_close env (r, h))"
      by (simp add: calls)
    then show ?thesis by (rule failed)
  next
    case (Inr existed)
    show ?thesis
    proof (cases "re_event env = None \<and> (writable \<longrightarrow> re_mutex env = None) \<and> re_view env = None \<and>
        (writable \<longrightarrow> \<not> FAILED (lockWriteGuard (re_guard env) kGuardTimeout)) \<and> layout_ok h' \<and> hasActiveConsumer h' \<and>
        (writable \<longrightarrow> \<not> producerClaimIsLive (re_process env) (rh_ownerPid h') (rh_ownerStartTime h'))")
      case True
      show ?thesis
      proof (rule opened[OF Inr])
        show "ring_open env writable (r, h) =
          (S_OK, (reopening r True True writable True)\<lparr>fr_producerClaim := writable,
               fr_consumerGeneration := rh_consumerGeneration (snd (ring_close env (r, h)))\<rparr>,
           if writable then (snd (ring_close env (r, h)))\<lparr>rh_ownerStartTime := re_startTime env, rh_ownerPid := re_pid env\<rparr>
           else snd (ring_close env (r, h)))"
          using True by (cases writable) (simp_all add: calls Inr Let_def)
      qed (use True in \<open>simp_all add: close\<close>)
    next
      case False
      then have "\<exists>hr. ring_open env writable (r, h) = (hr, ring_close env (r, h))"
        by (cases writable) (auto simp: calls Inr Let_def split: option.split)
      then show ?thesis using failed by blast
    qed
  qed
qed

subsection \<open>The processes and their objects\<close>

record ring_world =
  rw_header :: ring_header
  rw_procs :: "u32 \<Rightarrow> u64 option"
  rw_rings :: "(u32 \<times> frame_ring) list"
  rw_crashed :: nat

definition empty_world :: ring_world where
  "empty_world = \<lparr>rw_header = zero_header, rw_procs = Map.empty, rw_rings = [], rw_crashed = 0\<rparr>"

definition owners :: "(u32 \<times> frame_ring) list \<Rightarrow> nat" where
  "owners rings = length (filter (fr_owner \<circ> snd) rings)"

definition held :: "(u32 \<times> frame_ring) list \<Rightarrow> bool" where
  "held rings \<longleftrightarrow> list_ex (fr_section \<circ> snd) rings"

definition others :: "nat \<Rightarrow> 'a list \<Rightarrow> 'a list" where
  "others i xs = take i xs @ drop (Suc i) xs"

datatype ring_op = Create | Open bool | Close | Request u32 u32 u32

fun perform :: "ring_op \<Rightarrow> ring_env \<Rightarrow> frame_ring \<times> ring_header \<Rightarrow> frame_ring \<times> ring_header" where
  "perform Create env s = snd (ring_create env s)"
| "perform (Open writable) env s = snd (ring_open env writable s)"
| "perform Close env s = ring_close env s"
| "perform (Request width height format) env s =
     (fst s, snd (requestGeometry width height format (fst s) (snd s)))"

fun is_request :: "ring_op \<Rightarrow> bool" where
  "is_request (Request width height format) = True"
| "is_request _ = False"

text \<open>
  What the code relies on Windows for: a process knows its own id and start time; a section is
  found exactly while some object holds it; and of a living process, \<open>OpenProcess\<close> does not say that it
  does not exist, its exit code is not that of a finished one, and its start time, when it can be
  read, is its own.
\<close>

definition env_truthful ::
  "(u32 \<Rightarrow> u64 option) \<Rightarrow> bool \<Rightarrow> u32 \<Rightarrow> ring_op \<Rightarrow> ring_env \<Rightarrow> bool" where
  "env_truthful procs exists pid c env \<longleftrightarrow>
     re_pid env = pid \<and> procs pid = Some (re_startTime env) \<and>
     (\<forall>existed. re_section env = Inr existed \<longrightarrow> existed = exists \<and> (existed \<or> c = Create)) \<and>
     (\<forall>pid start. procs pid = Some start \<longrightarrow>
        (case re_process env pid of
           NoProcess err \<Rightarrow> err \<noteq> ERROR_INVALID_PARAMETER \<and> err \<noteq> ERROR_NOT_FOUND
         | Process exitCode actualStart \<Rightarrow>
             (exitCode = None \<or> exitCode = Some STILL_ACTIVE) \<and> (actualStart = 0 \<or> actualStart = start)))"

text \<open>Frames are written and read without touching the claim, the consumers and the layout.\<close>

definition same_administration :: "ring_header \<Rightarrow> ring_header \<Rightarrow> bool" where
  "same_administration h h' \<longleftrightarrow>
     rh_magic h' = rh_magic h \<and> rh_version h' = rh_version h \<and> rh_slotCount h' = rh_slotCount h \<and>
     rh_slotBytes h' = rh_slotBytes h \<and> rh_consumerCount h' = rh_consumerCount h \<and>
     rh_consumerGeneration h' = rh_consumerGeneration h \<and> rh_ownerPid h' = rh_ownerPid h \<and>
     rh_ownerStartTime h' = rh_ownerStartTime h"

inductive ring_reach :: "ring_world \<Rightarrow> bool" where
  nothing: "ring_reach empty_world"
| process_starts: "ring_reach w \<Longrightarrow> pid \<noteq> 0 \<Longrightarrow> rw_procs w pid = None \<Longrightarrow>
    ring_reach (w\<lparr>rw_procs := (rw_procs w)(pid \<mapsto> start)\<rparr>)"
| process_dies: "ring_reach w \<Longrightarrow> rw_procs w pid \<noteq> None \<Longrightarrow>
    ring_reach (w\<lparr>rw_procs := (rw_procs w)(pid := None),
      rw_rings := filter (\<lambda>ring. fst ring \<noteq> pid) (rw_rings w),
      rw_crashed := rw_crashed w + owners (filter (\<lambda>ring. fst ring = pid) (rw_rings w))\<rparr>)"
| object_made: "ring_reach w \<Longrightarrow> rw_procs w pid \<noteq> None \<Longrightarrow>
    ring_reach (w\<lparr>rw_rings := rw_rings w @ [(pid, new_ring)]\<rparr>)"
| called: "ring_reach w \<Longrightarrow> i < length (rw_rings w) \<Longrightarrow> rw_rings w ! i = (pid, r) \<Longrightarrow>
    env_truthful (rw_procs w) (held (others i (rw_rings w))) pid c env \<Longrightarrow>
    perform c env (r, rw_header w) = (r', h') \<Longrightarrow>
    ring_reach (w\<lparr>rw_header := h', rw_rings := (rw_rings w)[i := (pid, r')],
      rw_crashed := (if held (others i (rw_rings w)) \<or> is_request c then rw_crashed w else 0)\<rparr>)"
| frames: "ring_reach w \<Longrightarrow> same_administration (rw_header w) h' \<Longrightarrow> ring_reach (w\<lparr>rw_header := h'\<rparr>)"

subsection \<open>The claim and the consumer count\<close>

definition claims :: "(u32 \<times> frame_ring) list \<Rightarrow> nat" where
  "claims rings = length (filter (fr_producerClaim \<circ> snd) rings)"

definition ring_ok :: "(u32 \<Rightarrow> u64 option) \<Rightarrow> ring_header \<Rightarrow> u32 \<times> frame_ring \<Rightarrow> bool" where
  "ring_ok procs h = (\<lambda>(pid, r).
     pid \<noteq> 0 \<and> procs pid \<noteq> None \<and>
     (fr_owner r \<longrightarrow> fr_view r) \<and> (fr_view r \<longrightarrow> fr_section r) \<and>
     (fr_producerClaim r \<longrightarrow> fr_view r \<and> rh_ownerPid h = pid \<and> procs pid = Some (rh_ownerStartTime h)))"

definition rings_inv ::
  "(u32 \<Rightarrow> u64 option) \<Rightarrow> ring_header \<Rightarrow> nat \<Rightarrow> (u32 \<times> frame_ring) list \<Rightarrow> bool" where
  "rings_inv procs h crashed rings \<longleftrightarrow>
     list_all (ring_ok procs h) rings \<and> claims rings \<le> 1 \<and>
     (held rings \<longrightarrow> layout_ok h \<and> unat (rh_consumerCount h) = owners rings + crashed)"

lemma ring_counts [simp]:
  "owners [] = 0" "owners (x # xs) = (if fr_owner (snd x) then 1 else 0) + owners xs"
  "claims [] = 0" "claims (x # xs) = (if fr_producerClaim (snd x) then 1 else 0) + claims xs"
  "held [] = False" "held (x # xs) \<longleftrightarrow> fr_section (snd x) \<or> held xs"
  "owners (xs @ ys) = owners xs + owners ys" "claims (xs @ ys) = claims xs + claims ys"
  "held (xs @ ys) \<longleftrightarrow> held xs \<or> held ys"
  by (simp_all add: owners_def claims_def held_def)

lemma rings_inv_update:
  assumes "i < length xs"
  shows "rings_inv procs h c (xs[i := x]) \<longleftrightarrow> rings_inv procs h c (x # others i xs)"
  using assms by (auto simp: upd_conv_take_nth_drop others_def rings_inv_def)

lemma rings_inv_split:
  assumes "i < length xs" and "xs ! i = x" and "rings_inv procs h c xs"
  shows "rings_inv procs h c (x # others i xs)"
  using rings_inv_update[OF assms(1), of procs h c x] assms by (metis list_update_id)

lemma unheld:
  "list_all (ring_ok procs h) rings \<Longrightarrow> \<not> held rings \<Longrightarrow> owners rings = 0 \<and> claims rings = 0"
  by (induction rings) (auto simp: ring_ok_def)

lemma ring_ok_unclaimed:
  "list_all (ring_ok procs h) rings \<Longrightarrow> claims rings = 0 \<Longrightarrow> list_all (ring_ok procs h') rings"
  by (induction rings) (auto simp: ring_ok_def split: if_splits)

lemma ring_ok_same_owner:
  "list_all (ring_ok procs h) rings \<Longrightarrow> rh_ownerPid h' = rh_ownerPid h \<Longrightarrow>
     rh_ownerStartTime h' = rh_ownerStartTime h \<Longrightarrow> list_all (ring_ok procs h') rings"
  by (simp add: ring_ok_def)

lemma close_header:
  "rh_consumerCount (close_claim env r (close_consumer r h)) =
     (if fr_owner r \<and> fr_view r \<and> rh_consumerCount h \<noteq> 0 then rh_consumerCount h - 1 else rh_consumerCount h)"
  "layout_ok (close_claim env r (close_consumer r h)) = layout_ok h"
  "\<not> fr_producerClaim r \<Longrightarrow> rh_ownerPid (close_claim env r (close_consumer r h)) = rh_ownerPid h"
  "\<not> fr_producerClaim r \<Longrightarrow> rh_ownerStartTime (close_claim env r (close_consumer r h)) = rh_ownerStartTime h"
  by (simp_all add: close_claim_def close_consumer_def layout_ok_def Let_def)

text \<open>Closing an object gives up its claim and its place among the consumers.\<close>

lemma rings_inv_close:
  assumes inv: "rings_inv procs h c ((pid, r) # rs)" and env: "re_pid env = pid" "procs pid = Some (re_startTime env)"
  shows "rings_inv procs (snd (ring_close env (r, h))) (if held rs then c else 0)
    ((pid, reopening r False False False False) # rs)"
proof -
  let ?h = "close_claim env r (close_consumer r h)"
  have own: "ring_ok procs h (pid, r)" and rs: "list_all (ring_ok procs h) rs" and one: "claims ((pid, r) # rs) \<le> 1"
    using inv by (simp_all add: rings_inv_def)
  have "list_all (ring_ok procs ?h) rs"
  proof (cases "fr_producerClaim r")
    case True
    then have "claims rs = 0" using one by simp
    then show ?thesis by (rule ring_ok_unclaimed[OF rs])
  next
    case False
    then show ?thesis by (intro ring_ok_same_owner[OF rs] close_header(3,4))
  qed
  moreover have "unat (rh_consumerCount ?h) = owners rs + c" "layout_ok ?h" if "held rs"
    using inv own that
    by (auto simp: rings_inv_def ring_ok_def close_header unat_minus_one)
  ultimately show ?thesis
    using own one by (auto simp: ring_close_eq rings_inv_def ring_ok_def)
qed

text \<open>Attaching to a ring, with the object closed before.\<close>

lemma reopened_header_admin:
  "rh_consumerCount (reopened_header h) = 1" "layout_ok (reopened_header h) = layout_ok h"
  "rh_ownerPid (reopened_header h) = rh_ownerPid h" "rh_ownerStartTime (reopened_header h) = rh_ownerStartTime h"
  by (simp_all add: reopened_header_def resetPublishedFrames_def layout_ok_def Let_def)

lemma fresh_header_admin:
  "rh_consumerCount fresh_header = 1" "layout_ok fresh_header"
  by (simp_all add: fresh_header_def zero_header_def layout_ok_def)

lemma rings_inv_consumer:
  assumes inv: "rings_inv procs h (if held rs then c else 0) ((pid, reopening r False False False False) # rs)"
    and full: "held rs \<longrightarrow> rh_consumerCount h \<noteq> -1"
    and r': "fr_section r'" "fr_view r'" "fr_owner r'" "\<not> fr_producerClaim r'"
  shows "rings_inv procs (attached_header (held rs) h) (if held rs then c else 0) ((pid, r') # rs)"
proof (cases "held rs")
  case False
  have rs: "list_all (ring_ok procs h) rs" using inv by (simp add: rings_inv_def)
  note none = unheld[OF rs False]
  then have "list_all (ring_ok procs fresh_header) rs" using ring_ok_unclaimed[OF rs] by blast
  then show ?thesis
    using inv r' False none
    by (simp add: rings_inv_def attached_header_def fresh_header_admin) (simp add: ring_ok_def)
next
  case True
  have rs: "list_all (ring_ok procs h) rs" and count: "unat (rh_consumerCount h) = owners rs + c"
    and lay: "layout_ok h"
    using inv True by (simp_all add: rings_inv_def)
  let ?h = "attached_header True h"
  have "list_all (ring_ok procs ?h) rs"
    by (rule ring_ok_same_owner[OF rs]) (simp_all add: attached_header_def reopened_header_admin)
  moreover have "unat (rh_consumerCount ?h) = Suc (owners rs + c)"
  proof (cases "rh_consumerCount h = 0")
    case True
    then show ?thesis using count by (simp add: attached_header_def reopened_header_admin)
  next
    case False
    have "rh_consumerCount h + 1 \<noteq> 0" using full True by (simp add: eq_neg_iff_add_eq_0)
    then have "unat (rh_consumerCount h + 1) = Suc (unat (rh_consumerCount h))"
      using unatSuc[of "rh_consumerCount h"] by (simp add: add.commute)
    then show ?thesis using False count by (simp add: attached_header_def)
  qed
  moreover have "layout_ok ?h" using lay by (simp add: attached_header_def reopened_header_admin) (simp add: layout_ok_def)
  ultimately show ?thesis
    using inv r' True by (simp add: rings_inv_def) (simp add: ring_ok_def)
qed

text \<open>A writer that finds no live claim is the only one.\<close>

lemma live_claim:
  assumes "list_all (ring_ok procs h) rs" and "claims rs \<noteq> 0" and truth: "env_truthful procs exists pid c env"
  shows "producerClaimIsLive (re_process env) (rh_ownerPid h) (rh_ownerStartTime h)"
proof -
  have "rh_ownerPid h \<noteq> 0 \<and> procs (rh_ownerPid h) = Some (rh_ownerStartTime h)"
    using assms(1,2) by (induction rs) (auto simp: ring_ok_def split: if_splits)
  moreover from this truth have "case re_process env (rh_ownerPid h) of
       NoProcess err \<Rightarrow> err \<noteq> ERROR_INVALID_PARAMETER \<and> err \<noteq> ERROR_NOT_FOUND
     | Process exitCode actualStart \<Rightarrow>
         (exitCode = None \<or> exitCode = Some STILL_ACTIVE) \<and> (actualStart = 0 \<or> actualStart = rh_ownerStartTime h)"
    by (simp add: env_truthful_def)
  ultimately show ?thesis
    by (auto simp: producerClaimIsLive_def split: process_answer.splits)
qed

lemma rings_inv_opened:
  assumes inv: "rings_inv procs h c ((pid, reopening r False False False False) # rs)"
    and "held rs" and free: "writable \<Longrightarrow> claims rs = 0"
    and r': "fr_section r'" "fr_view r'" "\<not> fr_owner r'" "fr_producerClaim r' = writable"
    and h': "h' = (if writable then h\<lparr>rh_ownerStartTime := start, rh_ownerPid := pid\<rparr> else h)"
    and "procs pid = Some start"
  shows "rings_inv procs h' c ((pid, r') # rs)"
proof -
  have rs: "list_all (ring_ok procs h) rs" using inv by (simp add: rings_inv_def)
  have "list_all (ring_ok procs h') rs"
    using ring_ok_unclaimed[OF rs free] rs by (cases writable) (simp_all add: h')
  moreover have "layout_ok h' = layout_ok h" "rh_consumerCount h' = rh_consumerCount h"
    by (simp_all add: h' layout_ok_def)
  ultimately show ?thesis
    using inv assms(2,6-) r' free by (auto simp: rings_inv_def ring_ok_def)
qed

lemma perform_inv:
  assumes inv: "rings_inv procs h c ((pid, r) # rs)" and truth: "env_truthful procs (held rs) pid op env"
    and step: "perform op env (r, h) = (r', h')"
  shows "rings_inv procs h' (if held rs \<or> is_request op then c else 0) ((pid, r') # rs)"
proof -
  have env: "re_pid env = pid" "procs pid = Some (re_startTime env)" using truth by (simp_all add: env_truthful_def)
  obtain h1 where close: "ring_close env (r, h) = (reopening r False False False False, h1)"
    by (simp add: ring_close_eq)
  then have closed: "rings_inv procs h1 (if held rs then c else 0) ((pid, reopening r False False False False) # rs)"
    using rings_inv_close[OF inv env] by simp
  have found: "existed = held rs \<and> (existed \<or> op = Create)" if "re_section env = Inr existed" for existed
    using truth that by (auto simp: env_truthful_def)
  show ?thesis
  proof (cases op)
    case Create
    show ?thesis
    proof (cases rule: ring_create_cases[of env r h])
      case (failed hr)
      then show ?thesis using closed step close Create by simp
    next
      case (attached existed)
      then show ?thesis
        using rings_inv_consumer[OF closed, of r'] found step close Create
        by (auto simp: reopening_def)
    qed
  next
    case (Open writable)
    show ?thesis
    proof (cases rule: ring_open_cases[of env writable r h])
      case (failed hr)
      then show ?thesis using closed step close Open by simp
    next
      case (opened existed)
      have rs: "list_all (ring_ok procs h1) rs" and held: "held rs"
        using closed found[OF opened(1)] Open by (auto simp: rings_inv_def)
      have "writable \<Longrightarrow> claims rs = 0"
        using live_claim[OF rs _ truth] opened(4) close by auto
      from rings_inv_opened[OF closed held this, of writable r' h' "re_startTime env"] show ?thesis
        using opened(5) step close Open env held by (auto simp: reopening_def)
    qed
  next
    case Close
    then show ?thesis using closed step close by simp
  next
    case (Request width height format)
    have "same_administration h h'" "r' = r"
      using step Request by (auto simp: requestGeometry_def same_administration_def Let_def)
    then show ?thesis
      using inv Request ring_ok_same_owner[of procs h rs h']
      by (auto simp: rings_inv_def same_administration_def layout_ok_def ring_ok_def)
  qed
qed

lemma ring_ok_more_procs:
  assumes "list_all (ring_ok procs h) rs" and "\<And>pid. procs pid \<noteq> None \<Longrightarrow> procs' pid = procs pid"
  shows "list_all (ring_ok procs' h) rs"
  using assms(1) by (rule list.pred_mono_strong) (auto simp: ring_ok_def assms(2))

definition world_inv :: "ring_world \<Rightarrow> bool" where
  "world_inv w \<longleftrightarrow> rw_procs w 0 = None \<and> rings_inv (rw_procs w) (rw_header w) (rw_crashed w) (rw_rings w)"

lemma rings_inv_dies:
  assumes "rings_inv procs h c rings"
  shows "rings_inv (procs(pid := None)) h (c + owners (filter (\<lambda>ring. fst ring = pid) rings))
    (filter (\<lambda>ring. fst ring \<noteq> pid) rings)"
proof -
  have parts: "owners rings = owners (filter (\<lambda>ring. fst ring = pid) rings) + owners (filter (\<lambda>ring. fst ring \<noteq> pid) rings)"
    "claims (filter (\<lambda>ring. fst ring \<noteq> pid) rings) \<le> claims rings"
    "held (filter (\<lambda>ring. fst ring \<noteq> pid) rings) \<longrightarrow> held rings"
    by (induction rings) auto
  have "list_all (ring_ok (procs(pid := None)) h) (filter (\<lambda>ring. fst ring \<noteq> pid) rings)"
    using assms by (auto simp: rings_inv_def ring_ok_def list_all_iff)
  then show ?thesis using assms parts by (auto simp: rings_inv_def)
qed

lemma ring_reach_inv: "ring_reach w \<Longrightarrow> world_inv w"
proof (induction rule: ring_reach.induct)
  case nothing
  then show ?case by (simp add: world_inv_def empty_world_def rings_inv_def)
next
  case (process_starts w pid start)
  note inv = process_starts.IH[unfolded world_inv_def rings_inv_def]
  have "list_all (ring_ok ((rw_procs w)(pid \<mapsto> start)) (rw_header w)) (rw_rings w)"
    by (rule ring_ok_more_procs[OF conjunct1[OF conjunct2[OF inv]]]) (use process_starts.hyps(3) in fastforce)
  then show ?case using inv process_starts.hyps(2) by (simp add: world_inv_def rings_inv_def)
next
  case (process_dies w pid)
  then show ?case by (simp add: world_inv_def rings_inv_dies)
next
  case (object_made w pid)
  note inv = object_made.IH[unfolded world_inv_def rings_inv_def]
  have "pid \<noteq> 0" using inv object_made.hyps(2) by metis
  then show ?case
    using inv object_made.hyps(2) by (simp add: world_inv_def rings_inv_def ring_ok_def new_ring_def)
next
  case (called w i pid r c env r' h')
  have "rings_inv (rw_procs w) (rw_header w) (rw_crashed w) ((pid, r) # others i (rw_rings w))"
    using called.IH rings_inv_split[OF called.hyps(2,3)] by (simp add: world_inv_def)
  from perform_inv[OF this called.hyps(4,5)] show ?case
    using called.hyps(2) called.IH by (simp add: world_inv_def rings_inv_update)
next
  case (frames w h')
  then show ?case
    using ring_ok_same_owner[of "rw_procs w" "rw_header w" "rw_rings w" h']
    by (simp add: world_inv_def rings_inv_def same_administration_def layout_ok_def)
qed

subsection \<open>A camera, a producer, and a crash\<close>

text \<open>Process 7 opens the camera, process 9 feeds it; any other process cannot be inspected.\<close>

definition quiet_env :: "u32 \<Rightarrow> u64 \<Rightarrow> bool \<Rightarrow> ring_env" where
  "quiet_env pid start existed =
     \<lparr>re_descriptor = S_OK, re_section = Inr existed, re_event = None, re_mutex = None, re_view = None,
      re_guard = (\<lambda>_. WAIT_OBJECT_0), re_pid = pid, re_startTime = start, re_process = (\<lambda>_. NoProcess 5)\<rparr>"

definition camera_ring :: frame_ring where
  "camera_ring = (reopening new_ring True True True True)\<lparr>fr_owner := True, fr_consumerGeneration := 1\<rparr>"

definition producer_ring :: frame_ring where
  "producer_ring = (reopening new_ring True True True True)\<lparr>fr_producerClaim := True, fr_consumerGeneration := 1\<rparr>"

definition fed_header :: ring_header where
  "fed_header = fresh_header\<lparr>rh_ownerStartTime := 200, rh_ownerPid := 9\<rparr>"

definition fed_world :: ring_world where
  "fed_world = \<lparr>rw_header = fed_header, rw_procs = [7 \<mapsto> 100, 9 \<mapsto> 200],
     rw_rings = [(7, camera_ring), (9, producer_ring)], rw_crashed = 0\<rparr>"

definition orphaned_world :: ring_world where
  "orphaned_world = \<lparr>rw_header = fed_header, rw_procs = [9 \<mapsto> 200], rw_rings = [(9, producer_ring)],
     rw_crashed = 1\<rparr>"

lemma quiet_env_truthful:
  "procs pid = Some start \<Longrightarrow> existed = exists \<Longrightarrow> existed \<or> c = Create \<Longrightarrow>
     env_truthful procs exists pid c (quiet_env pid start existed)"
  by (simp add: env_truthful_def quiet_env_def ERROR_INVALID_PARAMETER_def ERROR_NOT_FOUND_def)

lemma fed_header_fields:
  "layout_ok fed_header" "rh_consumerCount fed_header = 1" "rh_consumerGeneration fed_header = 1"
  by (simp_all add: fed_header_def fresh_header_def zero_header_def layout_ok_def)

lemma create_first:
  "ring_create (quiet_env 7 100 False) (new_ring, zero_header) = (S_OK, camera_ring, fresh_header)"
  by (simp add: ring_create_def ring_close_eq quiet_env_def mapView_reopening attach_consumer_eq lockWriteGuard_def lock_result_def
      attached_header_def camera_ring_def close_claim_def close_consumer_def new_ring_def)
    (simp add: fresh_header_def)

lemma open_producer:
  "ring_open (quiet_env 9 200 True) True (new_ring, fresh_header) = (S_OK, producer_ring, fed_header)"
  by (simp add: ring_open_def ring_close_eq quiet_env_def mapView_reopening attach_opened_def lockWriteGuard_def lock_result_def
      producer_ring_def close_claim_def close_consumer_def new_ring_def fed_header_def producerClaimIsLive_def
      fresh_header_admin hasActiveConsumer_def Let_def)
    (simp add: fresh_header_def zero_header_def)

lemma fed_world_reached: "ring_reach fed_world"
proof -
  have "ring_reach (empty_world\<lparr>rw_procs := [7 \<mapsto> 100]\<rparr>)" (is "ring_reach ?w1")
    using ring_reach.process_starts[OF ring_reach.nothing, where pid = 7 and start = 100] by (simp add: empty_world_def)
  then have "ring_reach (?w1\<lparr>rw_rings := [(7, new_ring)]\<rparr>)" (is "ring_reach ?w2")
    using ring_reach.object_made[where w = ?w1 and pid = 7] by (simp add: empty_world_def)
  then have "ring_reach (?w2\<lparr>rw_header := fresh_header, rw_rings := [(7, camera_ring)]\<rparr>)" (is "ring_reach ?w3")
    using ring_reach.called[where w = ?w2 and i = 0 and pid = 7 and r = new_ring and c = Create
        and env = "quiet_env 7 100 False" and r' = camera_ring and h' = fresh_header]
    by (simp add: empty_world_def others_def quiet_env_truthful create_first)
  then have "ring_reach (?w3\<lparr>rw_procs := [7 \<mapsto> 100, 9 \<mapsto> 200]\<rparr>)" (is "ring_reach ?w4")
    using ring_reach.process_starts[where w = ?w3 and pid = 9 and start = 200] by (simp add: empty_world_def fun_upd_twist)
  then have "ring_reach (?w4\<lparr>rw_rings := [(7, camera_ring), (9, new_ring)]\<rparr>)" (is "ring_reach ?w5")
    using ring_reach.object_made[where w = ?w4 and pid = 9] by (simp add: empty_world_def)
  then show ?thesis
    using ring_reach.called[where w = ?w5 and i = 1 and pid = 9 and r = new_ring and c = "Open True"
        and env = "quiet_env 9 200 True" and r' = producer_ring and h' = fed_header]
    by (simp add: empty_world_def others_def quiet_env_truthful open_producer fed_world_def)
      (simp add: camera_ring_def quiet_env_truthful empty_world_def)
qed

lemma orphaned_world_reached: "ring_reach orphaned_world"
proof -
  have "[7 :: u32 \<mapsto> 100, 9 \<mapsto> 200](7 := None) = [9 \<mapsto> (200 :: u64)]" by (simp add: fun_eq_iff)
  then show ?thesis
    using ring_reach.process_dies[OF fed_world_reached, where pid = 7]
    by (simp add: fed_world_def orphaned_world_def camera_ring_def)
qed

subsection \<open>Properties\<close>

text \<open>
  Property C14: the ring has one producer.  However processes start, die, reuse the ids of dead ones, create, open and
  close the ring, at most one \<open>FrameRing\<close> of the living processes holds the producer's claim, and
  then the header names its process, by id and by start time.
\<close>

theorem ring_single_producer:
  assumes "ring_reach w"
  shows "length (filter (fr_producerClaim \<circ> snd) (rw_rings w)) \<le> 1 \<and>
    list_all (\<lambda>(pid, r). fr_producerClaim r \<longrightarrow>
      rh_ownerPid (rw_header w) = pid \<and> rw_procs w pid = Some (rh_ownerStartTime (rw_header w))) (rw_rings w)"
proof -
  have "rings_inv (rw_procs w) (rw_header w) (rw_crashed w) (rw_rings w)"
    using ring_reach_inv[OF assms] by (simp add: world_inv_def)
  then show ?thesis
    by (auto simp: rings_inv_def claims_def ring_ok_def elim!: list.pred_mono_strong)
qed

theorem ring_single_producer_witness:
  "length (filter (fr_producerClaim \<circ> snd) (rw_rings fed_world)) = 1 \<and>
   list_all (\<lambda>(pid, r). fr_producerClaim r \<longrightarrow>
     rh_ownerPid (rw_header fed_world) = pid \<and>
     rw_procs fed_world pid = Some (rh_ownerStartTime (rw_header fed_world))) (rw_rings fed_world)"
  using ring_single_producer[OF fed_world_reached]
  by (simp add: fed_world_def camera_ring_def producer_ring_def)

text \<open>
  Property C33: the consumer count is exact.  While any process holds the section, its layout is the one
  this version writes, and the shared count is the number of open consumers plus the number of
  those whose process died without closing the ring: it never wraps, and a consumer that closes
  or a refused one never disturbs it.
\<close>

theorem ring_consumer_count:
  assumes "ring_reach w" and "list_ex (fr_section \<circ> snd) (rw_rings w)"
  shows "layout_ok (rw_header w) \<and>
    unat (rh_consumerCount (rw_header w)) = length (filter (fr_owner \<circ> snd) (rw_rings w)) + rw_crashed w"
  using ring_reach_inv[OF assms(1)] assms(2) by (simp add: world_inv_def rings_inv_def held_def owners_def)

theorem ring_consumer_count_witness:
  "layout_ok (rw_header fed_world) \<and> unat (rh_consumerCount (rw_header fed_world)) = 1 \<and>
   length (filter (fr_owner \<circ> snd) (rw_rings fed_world)) + rw_crashed fed_world = 1"
  using ring_consumer_count[OF fed_world_reached]
  by (simp add: fed_world_def camera_ring_def producer_ring_def fed_header_fields)

text \<open>
  The count does not notice a crash.  A camera process that dies without closing the ring is
  counted for as long as the producer keeps the section: with no consumer left the header still
  says there is one, of the generation the producer writes for, and the next camera attaches to
  that generation, with its frames, instead of beginning a new one.
\<close>

theorem crashed_consumer_stays_counted:
  "\<exists>w. ring_reach w \<and> filter (fr_owner \<circ> snd) (rw_rings w) = [] \<and> hasActiveConsumer (rw_header w) \<and>
     (\<exists>r \<in> snd ` set (rw_rings w). fr_producerClaim r \<and>
        fr_consumerGeneration r = rh_consumerGeneration (rw_header w)) \<and>
     (let (hr, r, h) = ring_create (quiet_env 11 300 True) (new_ring, rw_header w)
      in hr = S_OK \<and> rh_consumerGeneration h = rh_consumerGeneration (rw_header w) \<and>
         rh_slots h = rh_slots (rw_header w) \<and> rh_consumerCount h = 2)"
proof (intro exI[of _ orphaned_world] conjI orphaned_world_reached)
  show "let (hr, r, h) = ring_create (quiet_env 11 300 True) (new_ring, rw_header orphaned_world)
      in hr = S_OK \<and> rh_consumerGeneration h = rh_consumerGeneration (rw_header orphaned_world) \<and>
         rh_slots h = rh_slots (rw_header orphaned_world) \<and> rh_consumerCount h = 2"
    by (simp add: orphaned_world_def ring_create_def ring_close_eq quiet_env_def mapView_reopening attach_consumer_eq
        lockWriteGuard_def lock_result_def attached_header_def close_claim_def close_consumer_def new_ring_def fed_header_fields)
qed (simp_all add: orphaned_world_def producer_ring_def hasActiveConsumer_def fed_header_fields)

end
