(* ===== verification/RingSeqlock.thy ===== *)
theory RingSeqlock
  imports ShmRing
begin

text \<open>
  The publication and the reading of a frame, \<open>FrameRing::writeFrame\<close> and \<open>FrameRing::readLatest\<close> of
  \<open>windows/common/src/shm_ring.cpp\<close>, as machines whose steps are the accesses to the shared memory: a
  reader and the producer run at the same time, and a copy of pixels is one step per byte.  The
  steps are interleaved in one order, as the acquire and release orderings and fences of the
  code intend.
\<close>

subsection \<open>Publishing a frame\<close>

text \<open>
  Where the producer is in \<open>writeFrame\<close>: at its start, in the wait for the mutex (with the milliseconds the
  wait has left), marking the slot, copying (with the
  bytes copied so far), storing the fields of the slot, looking for the consumer again,
  publishing the slot, and storing the format, the time and the number of frames.
\<close>

datatype writer_pc = WEnter | WWait u32 | WMark | WCopy nat | WPts | WBytes | WWidth | WHeight | WStride | WRecheck
  | WPublish | WGeometry | WQpc | WSeq | WDone hresult

record writer =
  wr_ring :: frame_ring
  wr_src :: "(nat \<Rightarrow> u8) option"
  wr_bytes :: u32
  wr_info :: frame_info
  wr_pc :: writer_pc
  wr_seq :: u64
  wr_slot :: nat
  wr_writingSeq :: u64

definition store_slot :: "nat \<Rightarrow> (ring_slot \<Rightarrow> ring_slot) \<Rightarrow> ring_header \<Rightarrow> ring_header" where
  "store_slot i f h = h\<lparr>rh_slots := (rh_slots h)(i := f (rh_slots h i))\<rparr>"

definition store_pixel :: "nat \<Rightarrow> nat \<Rightarrow> u8 \<Rightarrow> ring_header \<Rightarrow> ring_header" where
  "store_pixel i k b h = h\<lparr>rh_pixels := (rh_pixels h)(i := (rh_pixels h i)(k := b))\<rparr>"

text \<open>The timeout \<open>writeFrame\<close> gives the lock, in place of the default.\<close>

definition kPublishTimeout :: u32 where
  "kPublishTimeout = 0"

definition writer_enter :: "writer \<Rightarrow> writer" where
  "writer_enter w =
     (let done = (\<lambda>hr. w\<lparr>wr_pc := WDone hr\<rparr>)
      in if \<not> fr_view (wr_ring w) then done (HRESULT_FROM_WIN32 ERROR_INVALID_STATE)
         else if wr_src w = None then done E_POINTER
         else if wr_bytes w = 0 \<or> wr_bytes w > kRingSlotBytes then done E_INVALIDARG
         else w\<lparr>wr_pc := WWait kPublishTimeout\<rparr>)"

text \<open>One step of the wait in \<open>lockWriteGuard\<close>, and what follows when it has ended.\<close>

definition writer_wait :: "u32 \<Rightarrow> guard_state \<Rightarrow> writer \<Rightarrow> ring_header \<Rightarrow> writer" where
  "writer_wait millis guard w h =
     (case waitForSingleObject millis guard of
        Inr left \<Rightarrow> w\<lparr>wr_pc := WWait left\<rparr>
      | Inl answer \<Rightarrow>
          (let done = (\<lambda>hr. w\<lparr>wr_pc := WDone hr\<rparr>); guardHr = lock_result answer
           in if FAILED guardHr then done guardHr
              else if rh_magic h \<noteq> kRingMagic \<or> \<not> hasActiveConsumer h \<or>
                rh_consumerGeneration h \<noteq> fr_consumerGeneration (wr_ring w)
                then done (HRESULT_FROM_WIN32 ERROR_FILE_NOT_FOUND)
              else w\<lparr>wr_seq := rh_writeSeq h, wr_slot := unat (rh_writeSeq h mod ucast kRingSlots),
                     wr_pc := WMark\<rparr>))"

definition writer_step :: "guard_state \<Rightarrow> u64 \<Rightarrow> writer \<times> ring_header \<Rightarrow> writer \<times> ring_header" where
  "writer_step guard now =
     (\<lambda>(w, h).
        let i = wr_slot w; info = wr_info w; next = (\<lambda>pc. w\<lparr>wr_pc := pc\<rparr>)
        in case wr_pc w of
             WEnter \<Rightarrow> (writer_enter w, h)
           | WWait millis \<Rightarrow> (writer_wait millis guard w h, h)
           | WMark \<Rightarrow>
               (let slotSeq = sl_seq (rh_slots h i);
                    writingSeq = slotSeq + (if and slotSeq 1 \<noteq> 0 then 2 else 1)
                in (w\<lparr>wr_writingSeq := writingSeq, wr_pc := WCopy 0\<rparr>, store_slot i (sl_seq_update (\<lambda>_. writingSeq)) h))
           | WCopy k \<Rightarrow>
               (if k < unat (wr_bytes w) then (next (WCopy (Suc k)), store_pixel i k (the (wr_src w) k) h)
                else (next WPts, h))
           | WPts \<Rightarrow> (next WBytes, store_slot i (sl_pts_update (\<lambda>_. fi_ptsMicros info)) h)
           | WBytes \<Rightarrow> (next WWidth, store_slot i (sl_bytesUsed_update (\<lambda>_. wr_bytes w)) h)
           | WWidth \<Rightarrow> (next WHeight, store_slot i (sl_width_update (\<lambda>_. fi_width info)) h)
           | WHeight \<Rightarrow> (next WStride, store_slot i (sl_height_update (\<lambda>_. fi_height info)) h)
           | WStride \<Rightarrow> (next WRecheck, store_slot i (sl_stride_update (\<lambda>_. fi_stride info)) h)
           | WRecheck \<Rightarrow>
               (if \<not> hasActiveConsumer h \<or> rh_consumerGeneration h \<noteq> fr_consumerGeneration (wr_ring w)
                then (next (WDone (HRESULT_FROM_WIN32 ERROR_FILE_NOT_FOUND)), h)
                else (next WPublish, h))
           | WPublish \<Rightarrow> (next WGeometry, store_slot i (sl_seq_update (\<lambda>_. wr_writingSeq w + 1)) h)
           | WGeometry \<Rightarrow>
               (next WQpc,
                if rh_width h \<noteq> fi_width info \<or> rh_height h \<noteq> fi_height info \<or>
                   rh_stride h \<noteq> fi_stride info \<or> rh_format h \<noteq> fi_format info
                then h\<lparr>rh_width := fi_width info, rh_height := fi_height info, rh_stride := fi_stride info,
                       rh_format := fi_format info, rh_formatGeneration := rh_formatGeneration h + 1\<rparr>
                else h)
           | WQpc \<Rightarrow> (next WSeq, h\<lparr>rh_lastWriteQpc := now\<rparr>)
           | WSeq \<Rightarrow> (next (WDone S_OK), h\<lparr>rh_writeSeq := wr_seq w + 1\<rparr>)
           | WDone hr \<Rightarrow> (w, h))"

definition writeFrame :: "frame_ring \<Rightarrow> (nat \<Rightarrow> u8) option \<Rightarrow> u32 \<Rightarrow> frame_info \<Rightarrow> writer" where
  "writeFrame r src bytes info =
     \<lparr>wr_ring = r, wr_src = src, wr_bytes = bytes, wr_info = info, wr_pc = WEnter, wr_seq = 0, wr_slot = 0,
      wr_writingSeq = 0\<rparr>"

subsection \<open>Reading the latest frame\<close>

datatype reader_pc = RStart | RSeq | RBefore | RBytes | RWidth | RHeight | RStride | RFormat | RPts
  | RCopy nat | RAfter | RDone hresult

record reader =
  rd_ring :: frame_ring
  rd_dst :: "(nat \<Rightarrow> u8) option"
  rd_capacity :: u32
  rd_info :: frame_info
  rd_pc :: reader_pc
  rd_attempt :: nat
  rd_seq :: u64
  rd_slot :: nat
  rd_before :: u64
  rd_candidate :: frame_info

definition reader_retry :: "reader \<Rightarrow> reader" where
  "reader_retry r = r\<lparr>rd_attempt := Suc (rd_attempt r), rd_pc := RSeq\<rparr>"

definition reader_check :: "reader \<Rightarrow> reader" where
  "reader_check r =
     (if \<not> geometryIsSane (rd_candidate r)
      then r\<lparr>rd_ring := (rd_ring r)\<lparr>fr_rejectedLogged := True\<rparr>, rd_pc := RDone S_FALSE\<rparr>
      else r\<lparr>rd_ring := (rd_ring r)\<lparr>fr_rejectedLogged := False\<rparr>, rd_pc := RCopy 0\<rparr>)"

definition reader_step :: "ring_header \<Rightarrow> reader \<Rightarrow> reader" where
  "reader_step h r =
     (let slot = rh_slots h (rd_slot r); c = rd_candidate r
      in case rd_pc r of
           RStart \<Rightarrow>
             (if \<not> fr_view (rd_ring r) then r\<lparr>rd_pc := RDone (HRESULT_FROM_WIN32 ERROR_INVALID_STATE)\<rparr>
              else if rd_dst r = None then r\<lparr>rd_pc := RDone E_POINTER\<rparr>
              else r\<lparr>rd_attempt := 0, rd_pc := RSeq\<rparr>)
         | RSeq \<Rightarrow>
             (if rd_attempt r < 8 then
                (if rh_writeSeq h = 0 then r\<lparr>rd_pc := RDone S_FALSE\<rparr>
                 else r\<lparr>rd_seq := rh_writeSeq h, rd_slot := unat ((rh_writeSeq h - 1) mod ucast kRingSlots),
                        rd_pc := RBefore\<rparr>)
              else r\<lparr>rd_pc := RDone S_FALSE\<rparr>)
         | RBefore \<Rightarrow>
             (if and (sl_seq slot) 1 \<noteq> 0 then reader_retry r
              else r\<lparr>rd_before := sl_seq slot, rd_pc := RBytes\<rparr>)
         | RBytes \<Rightarrow>
             (if sl_bytesUsed slot = 0 \<or> sl_bytesUsed slot > kRingSlotBytes then reader_retry r
              else if sl_bytesUsed slot > rd_capacity r
                then r\<lparr>rd_pc := RDone (HRESULT_FROM_WIN32 ERROR_INSUFFICIENT_BUFFER)\<rparr>
              else r\<lparr>rd_candidate := c\<lparr>fi_bytesUsed := sl_bytesUsed slot, fi_writeSeq := rd_seq r\<rparr>, rd_pc := RWidth\<rparr>)
         | RWidth \<Rightarrow> r\<lparr>rd_candidate := c\<lparr>fi_width := sl_width slot\<rparr>, rd_pc := RHeight\<rparr>
         | RHeight \<Rightarrow> r\<lparr>rd_candidate := c\<lparr>fi_height := sl_height slot\<rparr>, rd_pc := RStride\<rparr>
         | RStride \<Rightarrow> r\<lparr>rd_candidate := c\<lparr>fi_stride := sl_stride slot\<rparr>, rd_pc := RFormat\<rparr>
         | RFormat \<Rightarrow> r\<lparr>rd_candidate := c\<lparr>fi_format := rh_format h\<rparr>, rd_pc := RPts\<rparr>
         | RPts \<Rightarrow> reader_check (r\<lparr>rd_candidate := c\<lparr>fi_ptsMicros := sl_pts slot\<rparr>\<rparr>)
         | RCopy k \<Rightarrow>
             (if k < unat (fi_bytesUsed c)
              then r\<lparr>rd_dst := Some ((the (rd_dst r))(k := rh_pixels h (rd_slot r) k)), rd_pc := RCopy (Suc k)\<rparr>
              else r\<lparr>rd_pc := RAfter\<rparr>)
         | RAfter \<Rightarrow>
             (if sl_seq slot \<noteq> rd_before r then reader_retry r
              else r\<lparr>rd_info := c, rd_pc := RDone S_OK\<rparr>)
         | RDone hr \<Rightarrow> r)"

definition default_frame_info :: frame_info where
  "default_frame_info = \<lparr>fi_width = 0, fi_height = 0, fi_stride = 0, fi_format = kFourccNv12,
     fi_ptsMicros = 0, fi_writeSeq = 0, fi_bytesUsed = 0\<rparr>"

definition readLatest :: "frame_ring \<Rightarrow> (nat \<Rightarrow> u8) option \<Rightarrow> u32 \<Rightarrow> frame_info \<Rightarrow> reader" where
  "readLatest r dst capacity info =
     \<lparr>rd_ring = r, rd_dst = dst, rd_capacity = capacity, rd_info = info, rd_pc = RStart, rd_attempt = 0,
      rd_seq = 0, rd_slot = 0, rd_before = 0, rd_candidate = default_frame_info\<rparr>"

subsection \<open>Neither side waits\<close>

definition within_attempt :: "reader_pc \<Rightarrow> bool" where
  "within_attempt pc \<longleftrightarrow> pc \<noteq> RStart \<and> pc \<noteq> RSeq \<and> (\<forall>hr. pc \<noteq> RDone hr)"

definition reader_bounded :: "reader \<Rightarrow> bool" where
  "reader_bounded r \<longleftrightarrow>
     (within_attempt (rd_pc r) \<longrightarrow> rd_attempt r < 8) \<and>
     (within_attempt (rd_pc r) \<and> rd_pc r \<noteq> RBefore \<and> rd_pc r \<noteq> RBytes \<longrightarrow>
        fi_bytesUsed (rd_candidate r) \<noteq> 0 \<and> unat (fi_bytesUsed (rd_candidate r)) \<le> 12441600)"

text \<open>The steps a call has left, at most.\<close>

fun attempt_steps :: "u32 \<Rightarrow> reader_pc \<Rightarrow> nat" where
  "attempt_steps bytes RBefore = 12441610"
| "attempt_steps bytes RBytes = 12441609"
| "attempt_steps bytes RWidth = 12441608"
| "attempt_steps bytes RHeight = 12441607"
| "attempt_steps bytes RStride = 12441606"
| "attempt_steps bytes RFormat = 12441605"
| "attempt_steps bytes RPts = 12441604"
| "attempt_steps bytes (RCopy k) = unat bytes - k + 3"
| "attempt_steps bytes RAfter = 2"
| "attempt_steps bytes _ = 0"

definition reader_left :: "reader \<Rightarrow> nat" where
  "reader_left r =
     (case rd_pc r of
        RDone hr \<Rightarrow> 0
      | RStart \<Rightarrow> 8 * 12441610 + 2
      | RSeq \<Rightarrow> (8 - rd_attempt r) * 12441610 + 1
      | pc \<Rightarrow> (7 - rd_attempt r) * 12441610 + attempt_steps (fi_bytesUsed (rd_candidate r)) pc)"

lemma reader_step_bounded: "reader_bounded r \<Longrightarrow> reader_bounded (reader_step h r)"
  by (cases "rd_pc r")
    (auto simp: reader_step_def reader_bounded_def within_attempt_def reader_retry_def reader_check_def Let_def
      not_less word_le_nat_alt slot_bytes)

lemma reader_step_left:
  "reader_bounded r \<Longrightarrow> (\<And>hr. rd_pc r \<noteq> RDone hr) \<Longrightarrow> reader_left (reader_step h r) < reader_left r"
  by (cases "rd_pc r")
    (auto simp: reader_step_def reader_bounded_def within_attempt_def reader_retry_def reader_check_def Let_def
      reader_left_def split: reader_pc.splits)

lemma reader_run_left:
  "reader_bounded r \<Longrightarrow>
     (\<exists>hr. rd_pc (foldl (\<lambda>r h. reader_step h r) r hs) = RDone hr) \<or>
     reader_left (foldl (\<lambda>r h. reader_step h r) r hs) + length hs \<le> reader_left r"
proof (induction hs arbitrary: r)
  case Nil
  then show ?case by simp
next
  case (Cons h hs)
  note IH = Cons.IH[OF reader_step_bounded[OF Cons.prems, of h]]
  show ?case
  proof (cases "\<exists>hr. rd_pc r = RDone hr")
    case True
    then have "reader_step h r = r" for h by (auto simp: reader_step_def)
    then have "foldl (\<lambda>r h. reader_step h r) r (h # hs) = r" by (induction hs) simp_all
    then show ?thesis using True by simp
  next
    case False
    then have "reader_left (reader_step h r) < reader_left r"
      using reader_step_left[OF Cons.prems] by blast
    then show ?thesis using IH by auto
  qed
qed

text \<open>
  The steps a call of the producer has left, at most: one per millisecond its wait may still take, one per
  byte, and the others.
\<close>

fun writer_left :: "u32 \<Rightarrow> writer_pc \<Rightarrow> nat" where
  "writer_left bytes WEnter = unat bytes + 14 + unat kPublishTimeout"
| "writer_left bytes (WWait millis) = unat bytes + 13 + unat millis"
| "writer_left bytes WMark = unat bytes + 12"
| "writer_left bytes (WCopy k) = unat bytes - k + 11"
| "writer_left bytes WPts = 10"
| "writer_left bytes WBytes = 9"
| "writer_left bytes WWidth = 8"
| "writer_left bytes WHeight = 7"
| "writer_left bytes WStride = 6"
| "writer_left bytes WRecheck = 5"
| "writer_left bytes WPublish = 4"
| "writer_left bytes WGeometry = 3"
| "writer_left bytes WQpc = 2"
| "writer_left bytes WSeq = 1"
| "writer_left bytes (WDone hr) = 0"

text \<open>A wait with a limit ends.\<close>

definition wait_limited :: "writer \<Rightarrow> bool" where
  "wait_limited w \<longleftrightarrow> wr_pc w \<noteq> WWait INFINITE"

lemma publish_limited: "kPublishTimeout \<noteq> INFINITE"
  by (simp add: kPublishTimeout_def INFINITE_def)

lemma wait_left:
  assumes "waitForSingleObject millis guard = Inr left" and "millis \<noteq> INFINITE"
  shows "unat left < unat millis" and "left \<noteq> INFINITE"
proof -
  from assms have l: "millis \<noteq> 0" "left = millis - 1"
    by (auto simp: waitForSingleObject_def split: guard_state.splits if_splits)
  then show lt: "unat left < unat millis" by (simp add: unat_minus_one unat_gt_0)
  show "left \<noteq> INFINITE"
  proof
    assume "left = INFINITE"
    with lt have "unat INFINITE < unat millis" by simp
    moreover have "unat millis < 2 ^ LENGTH(32)" by (rule unsigned_less)
    ultimately show False by (simp add: INFINITE_def)
  qed
qed

lemma writer_step_left:
  assumes "wait_limited w" and "\<And>hr. wr_pc w \<noteq> WDone hr"
  shows "writer_left (wr_bytes w) (wr_pc (fst (writer_step guard now (w, h)))) < writer_left (wr_bytes w) (wr_pc w) \<and>
     wr_bytes (fst (writer_step guard now (w, h))) = wr_bytes w \<and>
     wait_limited (fst (writer_step guard now (w, h)))"
proof (cases "wr_pc w")
  case WEnter
  then show ?thesis
    using publish_limited by (simp add: writer_step_def writer_enter_def wait_limited_def Let_def)
next
  case (WWait millis)
  show ?thesis
  proof (cases "waitForSingleObject millis guard")
    case (Inl answer)
    then show ?thesis using WWait by (simp add: writer_step_def writer_wait_def wait_limited_def Let_def)
  next
    case (Inr left)
    then show ?thesis
      using WWait assms(1) wait_left[OF Inr] by (simp add: writer_step_def writer_wait_def wait_limited_def)
  qed
qed (use assms in \<open>auto simp: writer_step_def wait_limited_def Let_def\<close>)

definition writer_moves :: "writer \<Rightarrow> (guard_state \<times> u64 \<times> ring_header) list \<Rightarrow> writer" where
  "writer_moves = foldl (\<lambda>w (guard, now, h). fst (writer_step guard now (w, h)))"

lemma writer_run_left:
  assumes "wait_limited w"
  shows "(\<exists>hr. wr_pc (writer_moves w es) = WDone hr) \<or>
     writer_left (wr_bytes w) (wr_pc (writer_moves w es)) + length es \<le> writer_left (wr_bytes w) (wr_pc w)"
  using assms
proof (induction es arbitrary: w)
  case Nil
  then show ?case by (simp add: writer_moves_def)
next
  case (Cons e es)
  obtain guard now h where e: "e = (guard, now, h)" by (cases e)
  let ?w = "fst (writer_step guard now (w, h))"
  have run: "writer_moves w (e # es) = writer_moves ?w es" by (simp add: writer_moves_def e)
  show ?case
  proof (cases "\<exists>hr. wr_pc w = WDone hr")
    case True
    then have "fst (writer_step guard now (w, h)) = w" for guard now h by (auto simp: writer_step_def Let_def)
    then have "writer_moves w es = w" for es by (induction es) (auto simp: writer_moves_def)
    then show ?thesis using True by simp
  next
    case False
    then have step: "writer_left (wr_bytes w) (wr_pc ?w) < writer_left (wr_bytes w) (wr_pc w)"
      "wr_bytes ?w = wr_bytes w" "wait_limited ?w"
      using writer_step_left[OF Cons.prems, of guard now h] by blast+
    show ?thesis using Cons.IH[OF step(3)] step(1,2) run by auto
  qed
qed

lemma reader_returns:
  assumes "8 * 12441610 + 2 \<le> length hs"
  shows "\<exists>hr. rd_pc (foldl (\<lambda>r h. reader_step h r) (readLatest ring dst capacity info) hs) = RDone hr"
proof -
  have "reader_bounded (readLatest ring dst capacity info)"
    by (simp add: reader_bounded_def readLatest_def within_attempt_def)
  then have "?thesis \<or> reader_left (foldl (\<lambda>r h. reader_step h r) (readLatest ring dst capacity info) hs) = 0"
    using reader_run_left[of "readLatest ring dst capacity info" hs] assms
    by (auto simp: readLatest_def reader_left_def[of "\<lparr>rd_ring = _, rd_dst = _, rd_capacity = _, rd_info = _,
        rd_pc = _, rd_attempt = _, rd_seq = _, rd_slot = _, rd_before = _, rd_candidate = _\<rparr>"])
  moreover have "\<exists>hr. rd_pc r = RDone hr" if "reader_left r = 0" for r
    using that by (cases "rd_pc r") (simp_all add: reader_left_def)
  ultimately show ?thesis by blast
qed

lemma writer_returns:
  assumes "unat bytes + 14 \<le> length es"
  shows "\<exists>hr. wr_pc (writer_moves (writeFrame ring src bytes info) es) = WDone hr"
proof -
  let ?w = "writeFrame ring src bytes info"
  have "wait_limited ?w" by (simp add: wait_limited_def writeFrame_def)
  then have "?thesis \<or> writer_left bytes (wr_pc (writer_moves ?w es)) = 0"
    using writer_run_left[of ?w es] assms by (auto simp: writeFrame_def kPublishTimeout_def)
  moreover have "\<exists>hr. pc = WDone hr" if "writer_left bytes pc = 0" for pc
    using that by (cases pc) simp_all
  ultimately show ?thesis by blast
qed

text \<open>
  Property C15: neither side ever waits for the other.  Whatever the shared memory holds at each of its steps,
  hostile contents included, a call of \<open>readLatest\<close> returns within its eight attempts of at most one
  slot's bytes each.  And whatever the mutex is at each of its steps, held by someone else for as long as it
  likes included, a call of \<open>writeFrame\<close> returns within a step per byte and fourteen more: the wait for
  the mutex, which takes a step per millisecond of its timeout, takes only the one that looks.
\<close>

theorem ring_wait_free:
  "(\<exists>hr. rd_pc (foldl (\<lambda>r h. reader_step h r) (readLatest ring dst capacity info)
      (map memory [0..<8 * 12441610 + 2])) = RDone hr) \<and>
   (\<exists>hr. wr_pc (writer_moves (writeFrame ring src bytes info) (map seen [0..<unat bytes + 14])) = WDone hr)"
  by (intro conjI reader_returns writer_returns) (simp_all only: length_map length_upt diff_zero order_refl)

end
