(* ===== verification/RingReads.thy ===== *)
theory RingReads
  imports RingSeqlock
begin

text \<open>
  The producer and a reader at work on one ring: whatever the interleaving of their steps, with
  producers that die in the middle of a frame and consumers that come and go, what a reader gets
  is a frame as it was published.
\<close>

subsection \<open>The system\<close>

text \<open>
  \<open>sk_log\<close> keeps the frames whose slot was published, in order; \<open>sk_last\<close> how many there were when a
  slot was last published, \<open>sk_announced\<close> when \<open>writeSeq\<close> was last stored, and \<open>sk_since\<close> when the reader
  last loaded it.  They are there for the statements only, like the number of steps.
\<close>

record published =
  pb_src :: "nat \<Rightarrow> u8"
  pb_bytes :: u32
  pb_info :: frame_info

record seqlock =
  sk_header :: ring_header
  sk_writer :: writer
  sk_reader :: reader
  sk_log :: "published list"
  sk_last :: "nat \<Rightarrow> nat"
  sk_announced :: nat
  sk_since :: nat
  sk_steps :: nat

datatype seqlock_event =
    WriterCall frame_ring "(nat \<Rightarrow> u8) option" u32 frame_info
  | WriterStep guard_state u64
  | WriterDies
  | ReaderCall frame_ring "(nat \<Rightarrow> u8) option" u32 frame_info
  | ReaderStep
  | Administers ring_header
  | Reopens

text \<open>Whatever else the processes store in the header, short of a new generation of consumers.\<close>

definition administer :: "ring_header \<Rightarrow> ring_header \<Rightarrow> ring_header" where
  "administer h g =
     g\<lparr>rh_slots := rh_slots h, rh_pixels := rh_pixels h, rh_writeSeq := rh_writeSeq h,
       rh_formatGeneration := rh_formatGeneration h, rh_width := rh_width h, rh_height := rh_height h,
       rh_stride := rh_stride h, rh_format := rh_format h, rh_lastWriteQpc := rh_lastWriteQpc h\<rparr>"

definition published_by :: "writer \<Rightarrow> published" where
  "published_by w = \<lparr>pb_src = the (wr_src w), pb_bytes = wr_bytes w, pb_info = wr_info w\<rparr>"

definition writer_idle :: "writer \<Rightarrow> bool" where
  "writer_idle w \<longleftrightarrow> (case wr_pc w of WDone hr \<Rightarrow> True | _ \<Rightarrow> False)"

definition reader_idle :: "reader \<Rightarrow> bool" where
  "reader_idle r \<longleftrightarrow> (case rd_pc r of RDone hr \<Rightarrow> True | _ \<Rightarrow> False)"

definition writer_moved :: "guard_state \<Rightarrow> u64 \<Rightarrow> seqlock \<Rightarrow> seqlock" where
  "writer_moved wait now s =
     (let w = sk_writer s; (w', h') = writer_step wait now (w, sk_header s);
          s' = s\<lparr>sk_writer := w', sk_header := h'\<rparr>
      in case wr_pc w of
           WPublish \<Rightarrow> s'\<lparr>sk_log := sk_log s @ [published_by w],
                          sk_last := (sk_last s)(wr_slot w := Suc (length (sk_log s)))\<rparr>
         | WSeq \<Rightarrow> s'\<lparr>sk_announced := sk_last s (wr_slot w)\<rparr>
         | _ \<Rightarrow> s')"

definition reader_moved :: "seqlock \<Rightarrow> seqlock" where
  "reader_moved s =
     s\<lparr>sk_reader := reader_step (sk_header s) (sk_reader s),
       sk_since := (if rd_pc (sk_reader s) = RSeq then sk_announced s else sk_since s)\<rparr>"

definition seqlock_event :: "seqlock \<Rightarrow> seqlock_event \<Rightarrow> seqlock" where
  "seqlock_event s e =
     (case e of
        WriterCall r src bytes info \<Rightarrow>
          if writer_idle (sk_writer s) then s\<lparr>sk_writer := writeFrame r src bytes info\<rparr> else s
      | WriterStep wait now \<Rightarrow> writer_moved wait now s
      | WriterDies \<Rightarrow> s\<lparr>sk_writer := (sk_writer s)\<lparr>wr_pc := WDone E_FAIL\<rparr>\<rparr>
      | ReaderCall r dst capacity info \<Rightarrow>
          if reader_idle (sk_reader s) then s\<lparr>sk_reader := readLatest r dst capacity info\<rparr> else s
      | ReaderStep \<Rightarrow> reader_moved s
      | Administers g \<Rightarrow> s\<lparr>sk_header := administer (sk_header s) g\<rparr>
      | Reopens \<Rightarrow> if writer_idle (sk_writer s) then s\<lparr>sk_header := reopened_header (sk_header s)\<rparr> else s)"

definition seqlock_step :: "seqlock \<Rightarrow> seqlock_event \<Rightarrow> seqlock" where
  "seqlock_step s e = seqlock_event (s\<lparr>sk_steps := Suc (sk_steps s)\<rparr>) e"

definition seqlock_start :: seqlock where
  "seqlock_start =
     \<lparr>sk_header = fresh_header, sk_writer = (writeFrame new_ring None 0 default_frame_info)\<lparr>wr_pc := WDone E_FAIL\<rparr>,
      sk_reader = (readLatest new_ring None 0 default_frame_info)\<lparr>rd_pc := RDone E_FAIL\<rparr>,
      sk_log = [], sk_last = (\<lambda>_. 0), sk_announced = 0, sk_since = 0, sk_steps = 0\<rparr>"

subsection \<open>The invariant\<close>

definition stable :: "ring_slot \<Rightarrow> bool" where
  "stable slot \<longleftrightarrow> and (sl_seq slot) 1 = 0"

text \<open>A frame as its description and its pixels, in a slot or in the hands of a reader.\<close>

definition whole_frame :: "frame_info \<Rightarrow> (nat \<Rightarrow> u8) \<Rightarrow> published \<Rightarrow> bool" where
  "whole_frame info pixels f \<longleftrightarrow>
     fi_bytesUsed info = pb_bytes f \<and> fi_width info = fi_width (pb_info f) \<and>
     fi_height info = fi_height (pb_info f) \<and> fi_stride info = fi_stride (pb_info f) \<and>
     fi_ptsMicros info = fi_ptsMicros (pb_info f) \<and>
     (\<forall>k < unat (pb_bytes f). pixels k = pb_src f k)"

definition frame_in :: "ring_header \<Rightarrow> nat \<Rightarrow> published \<Rightarrow> bool" where
  "frame_in h i f \<longleftrightarrow>
     (let sl = rh_slots h i
      in sl_bytesUsed sl = pb_bytes f \<and> sl_width sl = fi_width (pb_info f) \<and>
         sl_height sl = fi_height (pb_info f) \<and> sl_stride sl = fi_stride (pb_info f) \<and>
         sl_pts sl = fi_ptsMicros (pb_info f) \<and> (\<forall>k < unat (pb_bytes f). rh_pixels h i k = pb_src f k))"

definition slots_inv :: "ring_header \<Rightarrow> published list \<Rightarrow> (nat \<Rightarrow> nat) \<Rightarrow> bool" where
  "slots_inv h frames stamp \<longleftrightarrow>
     (\<forall>i. stamp i \<le> length frames \<and>
        (stable (rh_slots h i) \<longrightarrow>
           (if stamp i = 0 then sl_bytesUsed (rh_slots h i) = 0 else frame_in h i (frames ! (stamp i - 1)))))"

text \<open>What of the frame is in the slot, by the point the producer has reached.\<close>

fun writer_stage :: "writer_pc \<Rightarrow> nat" where
  "writer_stage (WCopy k) = 1"
| "writer_stage WPts = 2"
| "writer_stage WBytes = 3"
| "writer_stage WWidth = 4"
| "writer_stage WHeight = 5"
| "writer_stage WStride = 6"
| "writer_stage WRecheck = 7"
| "writer_stage WPublish = 7"
| "writer_stage _ = 0"

definition written_so_far :: "ring_header \<Rightarrow> writer \<Rightarrow> bool" where
  "written_so_far h w \<longleftrightarrow>
     (let sl = rh_slots h (wr_slot w); px = rh_pixels h (wr_slot w); n = writer_stage (wr_pc w); info = wr_info w
      in (\<forall>k < (case wr_pc w of WCopy j \<Rightarrow> j | _ \<Rightarrow> unat (wr_bytes w)). px k = the (wr_src w) k) \<and>
         (n \<ge> 3 \<longrightarrow> sl_pts sl = fi_ptsMicros info) \<and> (n \<ge> 4 \<longrightarrow> sl_bytesUsed sl = wr_bytes w) \<and>
         (n \<ge> 5 \<longrightarrow> sl_width sl = fi_width info) \<and> (n \<ge> 6 \<longrightarrow> sl_height sl = fi_height info) \<and>
         (n \<ge> 7 \<longrightarrow> sl_stride sl = fi_stride info))"

definition writer_inv :: "ring_header \<Rightarrow> writer \<Rightarrow> bool" where
  "writer_inv h w \<longleftrightarrow>
     (writer_stage (wr_pc w) \<ge> 1 \<longrightarrow>
        sl_seq (rh_slots h (wr_slot w)) = wr_writingSeq w \<and> \<not> stable (rh_slots h (wr_slot w)) \<and> written_so_far h w) \<and>
     (wr_pc w \<noteq> WEnter \<and> (\<forall>millis. wr_pc w \<noteq> WWait millis) \<and> \<not> writer_idle w \<longrightarrow>
        wr_seq w = rh_writeSeq h \<and> wr_slot w = unat (rh_writeSeq h mod ucast kRingSlots))"

definition fresh_inv :: "ring_header \<Rightarrow> (nat \<Rightarrow> nat) \<Rightarrow> nat \<Rightarrow> bool" where
  "fresh_inv h stamp announced \<longleftrightarrow>
     (rh_writeSeq h \<noteq> 0 \<longrightarrow> announced \<le> stamp (unat ((rh_writeSeq h - 1) mod ucast kRingSlots)))"

definition count_inv :: "ring_header \<Rightarrow> nat \<Rightarrow> bool" where
  "count_inv h n \<longleftrightarrow> (\<forall>i. unat (sl_seq (rh_slots h i)) \<le> 2 * n)"

fun reader_stage :: "reader_pc \<Rightarrow> nat" where
  "reader_stage RBefore = 1"
| "reader_stage RBytes = 2"
| "reader_stage RWidth = 3"
| "reader_stage RHeight = 4"
| "reader_stage RStride = 5"
| "reader_stage RFormat = 6"
| "reader_stage RPts = 7"
| "reader_stage (RCopy k) = 8"
| "reader_stage RAfter = 9"
| "reader_stage _ = 0"

definition read_so_far :: "ring_header \<Rightarrow> reader \<Rightarrow> bool" where
  "read_so_far h r \<longleftrightarrow>
     (let sl = rh_slots h (rd_slot r); px = rh_pixels h (rd_slot r); n = reader_stage (rd_pc r); c = rd_candidate r
      in (n \<ge> 3 \<longrightarrow> fi_bytesUsed c = sl_bytesUsed sl) \<and> (n \<ge> 4 \<longrightarrow> fi_width c = sl_width sl) \<and>
         (n \<ge> 5 \<longrightarrow> fi_height c = sl_height sl) \<and> (n \<ge> 6 \<longrightarrow> fi_stride c = sl_stride sl) \<and>
         (n \<ge> 8 \<longrightarrow> fi_ptsMicros c = sl_pts sl) \<and>
         (\<forall>k < (case rd_pc r of RCopy j \<Rightarrow> j | RAfter \<Rightarrow> unat (fi_bytesUsed c) | _ \<Rightarrow> 0). the (rd_dst r) k = px k))"

definition result_ok :: "reader \<Rightarrow> published list \<Rightarrow> nat \<Rightarrow> bool" where
  "result_ok r frames since \<longleftrightarrow>
     geometryIsSane (rd_info r) \<and>
     (\<exists>n < length frames. since \<le> Suc n \<and> whole_frame (rd_info r) (the (rd_dst r)) (frames ! n))"

definition reader_inv :: "ring_header \<Rightarrow> reader \<Rightarrow> published list \<Rightarrow> (nat \<Rightarrow> nat) \<Rightarrow> nat \<Rightarrow> bool" where
  "reader_inv h r frames stamp since \<longleftrightarrow>
     (let n = reader_stage (rd_pc r); sl = rh_slots h (rd_slot r)
      in (n \<ge> 1 \<longrightarrow> since \<le> stamp (rd_slot r)) \<and>
         (n \<ge> 2 \<longrightarrow> and (rd_before r) 1 = 0 \<and> unat (rd_before r) \<le> unat (sl_seq sl) \<and>
            (sl_seq sl = rd_before r \<longrightarrow> read_so_far h r)) \<and>
         (n \<ge> 3 \<longrightarrow> fi_bytesUsed (rd_candidate r) \<noteq> 0) \<and>
         (n \<ge> 8 \<longrightarrow> geometryIsSane (rd_candidate r)) \<and>
         (rd_pc r = RDone S_OK \<longrightarrow> result_ok r frames since))"

definition seqlock_inv :: "seqlock \<Rightarrow> bool" where
  "seqlock_inv s \<longleftrightarrow>
     slots_inv (sk_header s) (sk_log s) (sk_last s) \<and> writer_inv (sk_header s) (sk_writer s) \<and>
     fresh_inv (sk_header s) (sk_last s) (sk_announced s) \<and> count_inv (sk_header s) (sk_steps s) \<and>
     reader_inv (sk_header s) (sk_reader s) (sk_log s) (sk_last s) (sk_since s)"

subsection \<open>The reader's side\<close>

text \<open>What a step of anybody else may do to the slots: leave a stable slot alone, or move its number on.\<close>

definition slots_move :: "ring_header \<Rightarrow> ring_header \<Rightarrow> bool" where
  "slots_move h h' \<longleftrightarrow>
     (\<forall>i. unat (sl_seq (rh_slots h i)) < unat (sl_seq (rh_slots h' i)) \<or>
        sl_seq (rh_slots h' i) = sl_seq (rh_slots h i) \<and>
        (stable (rh_slots h i) \<longrightarrow> rh_slots h' i = rh_slots h i \<and> rh_pixels h' i = rh_pixels h i))"

lemma slots_move_same: "rh_slots h' = rh_slots h \<Longrightarrow> rh_pixels h' = rh_pixels h \<Longrightarrow> slots_move h h'"
  by (simp add: slots_move_def)

lemma reader_inv_moves:
  assumes inv: "reader_inv h r frames stamp since" and moves: "slots_move h h'"
    and stamp: "\<And>i. stamp i \<le> stamp' i"
  shows "reader_inv h' r (frames @ later) stamp' since"
proof -
  let ?i = "rd_slot r"
  have kept: "unat (rd_before r) \<le> unat (sl_seq (rh_slots h' ?i)) \<and>
      (sl_seq (rh_slots h' ?i) = rd_before r \<longrightarrow> read_so_far h' r)" if n: "reader_stage (rd_pc r) \<ge> 2"
  proof -
    have b: "and (rd_before r) 1 = 0" "unat (rd_before r) \<le> unat (sl_seq (rh_slots h ?i))"
      "sl_seq (rh_slots h ?i) = rd_before r \<longrightarrow> read_so_far h r"
      using inv n by (simp_all add: reader_inv_def Let_def)
    from moves have "unat (sl_seq (rh_slots h ?i)) < unat (sl_seq (rh_slots h' ?i)) \<or>
        sl_seq (rh_slots h' ?i) = sl_seq (rh_slots h ?i) \<and>
        (stable (rh_slots h ?i) \<longrightarrow> rh_slots h' ?i = rh_slots h ?i \<and> rh_pixels h' ?i = rh_pixels h ?i)"
      unfolding slots_move_def by blast
    then show ?thesis
    proof
      assume "unat (sl_seq (rh_slots h ?i)) < unat (sl_seq (rh_slots h' ?i))"
      then show ?thesis using b(2) by auto
    next
      assume same: "sl_seq (rh_slots h' ?i) = sl_seq (rh_slots h ?i) \<and>
        (stable (rh_slots h ?i) \<longrightarrow> rh_slots h' ?i = rh_slots h ?i \<and> rh_pixels h' ?i = rh_pixels h ?i)"
      then show ?thesis using b by (auto simp: stable_def read_so_far_def)
    qed
  qed
  have "since \<le> stamp' ?i" if "reader_stage (rd_pc r) \<ge> 1"
    using inv that stamp[of ?i] by (auto simp: reader_inv_def Let_def)
  moreover have "result_ok r (frames @ later) since" if "result_ok r frames since"
    using that by (fastforce simp: result_ok_def nth_append)
  ultimately show ?thesis using inv kept by (simp add: reader_inv_def Let_def)
qed

lemma read_result:
  assumes slots: "slots_inv h frames stamp" and inv: "reader_inv h r frames stamp since"
    and pc: "rd_pc r = RAfter" and same: "sl_seq (rh_slots h (rd_slot r)) = rd_before r"
  shows "result_ok (r\<lparr>rd_info := rd_candidate r, rd_pc := RDone S_OK\<rparr>) frames since"
proof -
  let ?i = "rd_slot r"
  have r: "since \<le> stamp ?i" "and (rd_before r) 1 = 0" "read_so_far h r" "fi_bytesUsed (rd_candidate r) \<noteq> 0"
    "geometryIsSane (rd_candidate r)"
    using inv pc same by (simp_all add: reader_inv_def Let_def)
  have used: "sl_bytesUsed (rh_slots h ?i) = fi_bytesUsed (rd_candidate r)"
    using r(3) pc by (simp add: read_so_far_def Let_def)
  have st: "stamp ?i \<le> length frames"
    "stable (rh_slots h ?i) \<longrightarrow> (if stamp ?i = 0 then sl_bytesUsed (rh_slots h ?i) = 0
       else frame_in h ?i (frames ! (stamp ?i - 1)))"
    using slots unfolding slots_inv_def by blast+
  have "stable (rh_slots h ?i)" using r(2) same by (simp add: stable_def)
  then have frame: "stamp ?i \<noteq> 0" "frame_in h ?i (frames ! (stamp ?i - 1))"
    using st(2) used r(4) by (auto split: if_splits)
  then have "whole_frame (rd_candidate r) (the (rd_dst r)) (frames ! (stamp ?i - 1))"
    using r(3) pc by (simp add: read_so_far_def frame_in_def whole_frame_def Let_def)
  moreover have "stamp ?i - 1 < length frames" "since \<le> Suc (stamp ?i - 1)" using frame(1) st(1) r(1) by simp_all
  ultimately show ?thesis using r(5) by (auto simp: result_ok_def)
qed

lemma reader_step_inv:
  assumes slots: "slots_inv h frames stamp" and fresh: "fresh_inv h stamp announced"
    and inv: "reader_inv h r frames stamp since"
  shows "reader_inv h (reader_step h r) frames stamp (if rd_pc r = RSeq then announced else since)"
proof (cases "rd_pc r")
  case RAfter
  then show ?thesis
    using read_result[OF slots inv RAfter] by (simp add: reader_step_def reader_retry_def reader_inv_def Let_def)
next
  case RSeq
  then show ?thesis using fresh by (simp add: reader_step_def reader_inv_def fresh_inv_def Let_def)
next
  case RStart
  then show ?thesis by (simp add: reader_step_def reader_inv_def Let_def)
next
  case RBefore
  then show ?thesis
    using inv by (simp add: reader_step_def reader_inv_def reader_retry_def read_so_far_def Let_def)
next
  case RPts
  then show ?thesis
    using inv by (simp add: reader_step_def reader_inv_def reader_check_def read_so_far_def Let_def)
next
  case (RCopy k)
  then show ?thesis
    using inv by (auto simp: reader_step_def reader_inv_def read_so_far_def Let_def less_Suc_eq)
qed (use inv in \<open>simp_all add: reader_step_def reader_inv_def reader_retry_def read_so_far_def Let_def\<close>)

subsection \<open>The producer's side\<close>

lemma store_slot_simps [simp]:
  "rh_slots (store_slot i f h) = (rh_slots h)(i := f (rh_slots h i))"
  "rh_pixels (store_slot i f h) = rh_pixels h" "rh_writeSeq (store_slot i f h) = rh_writeSeq h"
  "rh_slots (store_pixel i k b h) = rh_slots h" "rh_writeSeq (store_pixel i k b h) = rh_writeSeq h"
  "rh_pixels (store_pixel i k b h) = (rh_pixels h)(i := (rh_pixels h i)(k := b))"
  by (simp_all add: store_slot_def store_pixel_def)

lemma and_one_odd: "and (x :: u64) 1 \<noteq> 0 \<longleftrightarrow> odd x"
  by (simp add: and_one_eq even_iff_mod_2_eq_zero)

definition marker :: "u64 \<Rightarrow> u64" where
  "marker x = x + (if and x 1 \<noteq> 0 then 2 else 1)"

lemma marker_odd: "and (marker x) 1 \<noteq> 0"
  by (simp only: and_one_odd marker_def) simp

lemma marker_next: "and x 1 \<noteq> 0 \<Longrightarrow> and (x + 1) 1 = (0 :: u64)"
  using and_one_odd[of "x + 1"] and_one_odd[of x] by auto

lemma unat_marker:
  assumes "unat x + 3 < 2 ^ 64"
  shows "unat x < unat (marker x)" "unat (marker x) \<le> unat x + 2" "unat (x + 1) = unat x + 1"
  using assms by (simp_all add: marker_def unat_word_ariths(1))

text \<open>A step of the producer, in the shape the proofs use.\<close>

lemma writer_step_marks:
  "wr_pc w = WMark \<Longrightarrow> writer_step wait now (w, h) =
     (w\<lparr>wr_writingSeq := marker (sl_seq (rh_slots h (wr_slot w))), wr_pc := WCopy 0\<rparr>,
      store_slot (wr_slot w) (sl_seq_update (\<lambda>_. marker (sl_seq (rh_slots h (wr_slot w))))) h)"
  by (simp add: writer_step_def marker_def Let_def)

lemma writer_slots_move:
  assumes inv: "writer_inv h w" and count: "count_inv h n" and n: "n < 2 ^ 62"
    and step: "writer_step wait now (w, h) = (w', h')"
  shows "slots_move h h' \<and> count_inv h' (Suc n)"
proof -
  let ?i = "wr_slot w" and ?x = "sl_seq (rh_slots h (wr_slot w))"
  have x: "unat ?x \<le> 2 * n" using count by (simp add: count_inv_def)
  have small: "unat ?x + 3 < 2 ^ 64" using x n by simp
  have odd_slot: "\<not> stable (rh_slots h ?i)" if "writer_stage (wr_pc w) \<ge> 1"
    using inv that by (simp add: writer_inv_def)
  have others: "unat (sl_seq (rh_slots h j)) \<le> 2 * Suc n" for j
    using count by (simp add: count_inv_def le_SucI)
  show ?thesis
  proof (cases "wr_pc w")
    case WMark
    then show ?thesis
      using step unat_marker(1,2)[OF small] x others
      by (auto simp: writer_step_marks slots_move_def count_inv_def)
  next
    case WPublish
    then have "wr_writingSeq w = ?x" using inv by (simp add: writer_inv_def)
    then show ?thesis
      using step WPublish unat_marker(3)[OF small] x others
      by (auto simp: writer_step_def slots_move_def count_inv_def Let_def)
  qed (use step odd_slot others in \<open>auto simp: writer_step_def slots_move_def count_inv_def Let_def split: if_splits\<close>)
qed

text \<open>Before the mutex is held nothing is stored, and the slot is taken as it is got.\<close>

lemma writer_start_inv: "writer_inv h (writer_enter w)" "writer_inv h (writer_wait millis guard w h)"
  by (auto simp: writer_enter_def writer_wait_def writer_inv_def writer_idle_def Let_def split: sum.split)

lemma writer_step_inv:
  assumes inv: "writer_inv h w" and step: "writer_step wait now (w, h) = (w', h')"
  shows "writer_inv h' w'"
proof (cases "wr_pc w")
  case WEnter
  then show ?thesis using step writer_start_inv(1) by (auto simp: writer_step_def Let_def)
next
  case (WWait millis)
  then show ?thesis using step writer_start_inv(2) by (auto simp: writer_step_def Let_def)
next
  case WMark
  then show ?thesis
    using step inv marker_odd
    by (auto simp: writer_step_marks writer_inv_def written_so_far_def stable_def writer_idle_def Let_def)
next
  case (WCopy k)
  then show ?thesis
    using step inv
    by (auto simp: writer_step_def writer_inv_def written_so_far_def writer_idle_def Let_def less_Suc_eq
        split: if_splits)
qed (use step inv in \<open>auto simp: writer_step_def writer_inv_def written_so_far_def writer_idle_def stable_def Let_def
      split: if_splits\<close>)

lemma slots_inv_step:
  assumes slots: "slots_inv h frames stamp" and inv: "writer_inv h w"
    and step: "writer_step wait now (w, h) = (w', h')" and pc: "wr_pc w \<noteq> WPublish"
  shows "slots_inv h' frames stamp"
proof -
  have odd_slot: "\<not> stable (rh_slots h (wr_slot w))" if "writer_stage (wr_pc w) \<ge> 1"
    using inv that by (simp add: writer_inv_def)
  have "stable (rh_slots h' i) \<longrightarrow> rh_slots h' i = rh_slots h i \<and> rh_pixels h' i = rh_pixels h i" for i
  proof (cases "wr_pc w")
    case WMark
    then show ?thesis using step marker_odd by (auto simp: writer_step_marks stable_def)
  qed (use step odd_slot pc in \<open>auto simp: writer_step_def stable_def Let_def split: if_splits\<close>)
  note same = this
  show ?thesis
    unfolding slots_inv_def
  proof (intro allI conjI impI)
    fix i
    show "stamp i \<le> length frames" using slots by (simp add: slots_inv_def)
    assume "stable (rh_slots h' i)"
    with same[of i] have "rh_slots h' i = rh_slots h i" "rh_pixels h' i = rh_pixels h i" "stable (rh_slots h i)"
      by simp_all
    then show "if stamp i = 0 then sl_bytesUsed (rh_slots h' i) = 0 else frame_in h' i (frames ! (stamp i - 1))"
      using slots[unfolded slots_inv_def, THEN spec, of i] by (simp add: frame_in_def split: if_splits)
  qed
qed

lemma slots_inv_publish:
  assumes slots: "slots_inv h frames stamp" and inv: "writer_inv h w" and pc: "wr_pc w = WPublish"
    and step: "writer_step wait now (w, h) = (w', h')"
  shows "slots_inv h' (frames @ [published_by w]) (stamp(wr_slot w := Suc (length frames)))"
proof -
  have h': "h' = store_slot (wr_slot w) (sl_seq_update (\<lambda>_. wr_writingSeq w + 1)) h"
    using step pc by (simp add: writer_step_def Let_def)
  have "frame_in h' (wr_slot w) (published_by w)"
    using inv pc by (simp add: h' writer_inv_def written_so_far_def frame_in_def published_by_def Let_def)
  moreover have "frame_in h' i f = frame_in h i f" if "i \<noteq> wr_slot w" for i f
    using that by (simp add: h' frame_in_def)
  moreover have "stamp i \<le> length frames" "stamp i \<noteq> 0 \<Longrightarrow> stamp i - 1 < length frames" for i
    using slots[unfolded slots_inv_def, rule_format, of i] by linarith+
  ultimately show ?thesis
    using slots by (auto simp: slots_inv_def h' nth_append le_Suc_eq)
qed

lemma fresh_inv_step:
  assumes "fresh_inv h stamp announced" and "writer_step wait now (w, h) = (w', h')" and "wr_pc w \<noteq> WSeq"
    and "\<And>i. stamp i \<le> stamp' i"
  shows "fresh_inv h' stamp' announced"
proof -
  have "rh_writeSeq h' = rh_writeSeq h"
    using assms(2,3) by (cases "wr_pc w") (auto simp: writer_step_def Let_def split: if_splits)
  then show ?thesis using assms(1,4) by (auto simp: fresh_inv_def intro: order_trans)
qed

lemma fresh_inv_announce:
  assumes "writer_inv h w" and "writer_step wait now (w, h) = (w', h')" and "wr_pc w = WSeq"
  shows "fresh_inv h' stamp (stamp (wr_slot w))"
  using assms by (auto simp: writer_step_def fresh_inv_def writer_inv_def writer_idle_def Let_def)

subsection \<open>The system's steps\<close>

lemma writer_moved_inv:
  assumes inv: "seqlock_inv s" and n: "sk_steps s < 2 ^ 62"
  shows "seqlock_inv (writer_moved wait now (s\<lparr>sk_steps := Suc (sk_steps s)\<rparr>))"
proof -
  let ?w = "sk_writer s" and ?h = "sk_header s"
  obtain w' h' where step: "writer_step wait now (?w, ?h) = (w', h')" by (cases "writer_step wait now (?w, ?h)")
  have parts: "slots_inv ?h (sk_log s) (sk_last s)" "writer_inv ?h ?w"
    "fresh_inv ?h (sk_last s) (sk_announced s)" "count_inv ?h (sk_steps s)"
    "reader_inv ?h (sk_reader s) (sk_log s) (sk_last s) (sk_since s)"
    using inv by (simp_all add: seqlock_inv_def)
  note move = writer_slots_move[OF parts(2,4) n step]
  note writer = writer_step_inv[OF parts(2) step]
  have stamps: "sk_last s i \<le> length (sk_log s)" for i using parts(1) by (simp add: slots_inv_def)
  show ?thesis
  proof (cases "wr_pc ?w = WPublish")
    case True
    define stamp where "stamp = (sk_last s)(wr_slot ?w := Suc (length (sk_log s)))"
    have le: "sk_last s i \<le> stamp i" for i using stamps[of i] by (auto simp: stamp_def)
    have slots: "slots_inv h' (sk_log s @ [published_by ?w]) stamp"
      unfolding stamp_def by (rule slots_inv_publish[OF parts(1,2) True step])
    have fresh: "fresh_inv h' stamp (sk_announced s)"
      by (rule fresh_inv_step[OF parts(3) step _ le]) (simp add: True)
    have "seqlock_inv (s\<lparr>sk_steps := Suc (sk_steps s), sk_writer := w', sk_header := h',
        sk_log := sk_log s @ [published_by ?w], sk_last := stamp\<rparr>)"
      using slots fresh writer move reader_inv_moves[OF parts(5) conjunct1[OF move] le]
      by (simp add: seqlock_inv_def)
    then show ?thesis using True by (simp add: writer_moved_def step stamp_def Let_def)
  next
    case False
    note slots = slots_inv_step[OF parts(1,2) step False]
    have reader: "reader_inv h' (sk_reader s) (sk_log s) (sk_last s) (sk_since s)"
      using reader_inv_moves[OF parts(5) conjunct1[OF move], of "sk_last s" "[]"] by simp
    show ?thesis
    proof (cases "wr_pc ?w = WSeq")
      case True
      then show ?thesis
        using slots writer move reader fresh_inv_announce[OF parts(2) step True]
        by (simp add: writer_moved_def step Let_def seqlock_inv_def)
    next
      case other: False
      have "writer_moved wait now (s\<lparr>sk_steps := Suc (sk_steps s)\<rparr>) =
          s\<lparr>sk_steps := Suc (sk_steps s), sk_writer := w', sk_header := h'\<rparr>"
        using False other by (simp add: writer_moved_def step Let_def split: writer_pc.split)
      then show ?thesis
        using slots writer move reader fresh_inv_step[OF parts(3) step other] by (simp add: seqlock_inv_def)
    qed
  qed
qed

lemma count_inv_Suc: "count_inv h n \<Longrightarrow> count_inv h (Suc n)"
  by (simp add: count_inv_def le_SucI)

lemma administer_simps:
  "rh_slots (administer h g) = rh_slots h" "rh_pixels (administer h g) = rh_pixels h"
  "rh_writeSeq (administer h g) = rh_writeSeq h"
  by (simp_all add: administer_def)

lemma inv_same_frames:
  assumes "rh_slots h' = rh_slots h" and "rh_pixels h' = rh_pixels h" and "rh_writeSeq h' = rh_writeSeq h"
  shows "slots_inv h' frames stamp = slots_inv h frames stamp" "writer_inv h' w = writer_inv h w"
    "fresh_inv h' stamp announced = fresh_inv h stamp announced" "count_inv h' n = count_inv h n"
    "reader_inv h' r frames stamp since = reader_inv h r frames stamp since"
  using assms
  by (simp_all add: slots_inv_def writer_inv_def fresh_inv_def count_inv_def reader_inv_def frame_in_def
      written_so_far_def read_so_far_def)

lemma seqlock_step_inv:
  assumes inv: "seqlock_inv s" and n: "sk_steps s < 2 ^ 62" and e: "e \<noteq> Reopens"
  shows "seqlock_inv (seqlock_step s e)"
proof (cases e)
  case (WriterCall r src bytes info)
  then show ?thesis
    using inv by (simp add: seqlock_step_def seqlock_event_def seqlock_inv_def count_inv_Suc writeFrame_def writer_inv_def)
next
  case (WriterStep wait now)
  then show ?thesis
    using writer_moved_inv[OF inv n] by (simp add: seqlock_step_def seqlock_event_def)
next
  case WriterDies
  then show ?thesis
    using inv by (simp add: seqlock_step_def seqlock_event_def seqlock_inv_def count_inv_Suc writer_inv_def writer_idle_def)
next
  case (ReaderCall r dst capacity info)
  then show ?thesis
    using inv by (simp add: seqlock_step_def seqlock_event_def seqlock_inv_def count_inv_Suc readLatest_def reader_inv_def)
next
  case ReaderStep
  then show ?thesis
    using inv reader_step_inv[of "sk_header s" "sk_log s" "sk_last s" "sk_announced s" "sk_reader s" "sk_since s"]
    by (simp add: seqlock_step_def seqlock_event_def seqlock_inv_def count_inv_Suc reader_moved_def split: if_splits)
next
  case (Administers g)
  then show ?thesis
    using inv by (simp add: seqlock_step_def seqlock_event_def seqlock_inv_def count_inv_Suc
        inv_same_frames[OF administer_simps])
qed (use e in simp)

lemma seqlock_steps: "sk_steps (seqlock_step s e) = Suc (sk_steps s)"
  by (cases e) (simp_all add: seqlock_step_def seqlock_event_def writer_moved_def reader_moved_def Let_def
      split: prod.split writer_pc.split)

definition seqlock_live :: "seqlock \<Rightarrow> seqlock_event \<Rightarrow> seqlock" where
  "seqlock_live s e = (if e = Reopens then s\<lparr>sk_steps := Suc (sk_steps s)\<rparr> else seqlock_step s e)"

definition seqlock_bounded :: "seqlock \<Rightarrow> bool" where
  "seqlock_bounded s \<longleftrightarrow> (sk_steps s \<le> 2 ^ 62 \<longrightarrow> seqlock_inv s)"

interpretation seqlock_machine: machine seqlock_live seqlock_bounded
proof
  fix s e
  assume "seqlock_bounded s"
  then show "seqlock_bounded (seqlock_live s e)"
    using seqlock_step_inv[of s e]
    by (auto simp: seqlock_bounded_def seqlock_live_def seqlock_steps) (simp add: seqlock_inv_def count_inv_Suc)
qed

lemma seqlock_live_run:
  "Reopens \<notin> set es \<Longrightarrow> foldl seqlock_live s es = foldl seqlock_step s es \<and>
     sk_steps (foldl seqlock_step s es) = sk_steps s + length es"
  by (induction es arbitrary: s) (auto simp: seqlock_live_def seqlock_steps)

text \<open>
  Property C13: a reader never sees a torn frame.  However the steps of the producer and of a reader are
  interleaved, with producers that die in the middle of a frame and are replaced, and consumers that come
  and go without a new generation, a \<open>readLatest\<close> that returns \<open>S_OK\<close> has copied exactly the bytes and the
  dimensions of one frame whose slot was published, not older than the newest one announced when
  it looked, and its geometry is sane.  (The format is not among them: it is one field of the
  header and not of the slot.)
\<close>

theorem ring_reads_whole_frames:
  assumes "length es \<le> 2 ^ 62" and "Reopens \<notin> set es"
    and "s = foldl seqlock_step seqlock_start es" and "rd_pc (sk_reader s) = RDone S_OK"
  shows "geometryIsSane (rd_info (sk_reader s)) \<and>
    (\<exists>n < length (sk_log s). sk_since s \<le> Suc n \<and>
       whole_frame (rd_info (sk_reader s)) (the (rd_dst (sk_reader s))) (sk_log s ! n))"
proof -
  have "seqlock_inv seqlock_start"
    by (simp add: seqlock_inv_def seqlock_start_def slots_inv_def writer_inv_def fresh_inv_def count_inv_def
        reader_inv_def writeFrame_def readLatest_def fresh_header_def zero_header_def empty_slot_def writer_idle_def
        default_frame_info_def)
  then have "seqlock_bounded (foldl seqlock_live seqlock_start es)"
    by (intro seqlock_machine.run_inv) (simp add: seqlock_bounded_def)
  then have "seqlock_inv s"
    using assms(1,3) seqlock_live_run[OF assms(2), of seqlock_start]
    by (simp add: seqlock_bounded_def seqlock_start_def)
  then show ?thesis using assms(4) by (simp add: seqlock_inv_def reader_inv_def result_ok_def Let_def)
qed

subsection \<open>Runs\<close>

text \<open>A frame of two by two pixels, all of whose bytes are \<open>b\<close>, is written and read.\<close>

definition demo_info :: frame_info where
  "demo_info = \<lparr>fi_width = 2, fi_height = 2, fi_stride = 2, fi_format = kFourccNv12, fi_ptsMicros = 10,
     fi_writeSeq = 0, fi_bytesUsed = 6\<rparr>"

definition attached_ring :: "u32 \<Rightarrow> frame_ring" where
  "attached_ring generation = new_ring\<lparr>fr_section := True, fr_event := True, fr_view := True, fr_writeGuard := True,
     fr_consumerGeneration := generation\<rparr>"

definition demo_write :: "u32 \<Rightarrow> u8 \<Rightarrow> seqlock_event list" where
  "demo_write generation b =
     WriterCall (attached_ring generation) (Some (\<lambda>_. b)) 6 demo_info # replicate 20 (WriterStep GuardFree 5)"

definition demo_read :: "nat \<Rightarrow> seqlock_event list" where
  "demo_read n = ReaderCall (attached_ring 1) (Some (\<lambda>_. 0)) 6 default_frame_info # replicate n ReaderStep"

text \<open>The reader has copied three bytes when the consumers change and a new producer writes its first frame.\<close>

definition torn_run :: "seqlock_event list" where
  "torn_run = demo_write 1 1 @ demo_read 12 @ Reopens # demo_write 2 2 @ replicate 5 ReaderStep"

lemmas machine_steps = seqlock_step_def seqlock_event_def writer_moved_def writer_step_def writeFrame_def
  writer_enter_def attached_ring_def new_ring_def writer_wait_def waitForSingleObject_def lock_result_def kPublishTimeout_def hasActiveConsumer_def kRingSlotBytes_def
  kRingMaxWidth_def kRingMaxHeight_def kRingSlots_def reader_moved_def reader_step_def readLatest_def
  reader_check_def reader_retry_def geometryIsSane_def store_slot_def store_pixel_def writer_idle_def
  reader_idle_def published_by_def demo_info_def seqlock_start_def fresh_header_def zero_header_def
  empty_slot_def default_frame_info_def

lemma demo_steps:
  "replicate 20 x = [x, x, x, x, x, x, x, x, x, x, x, x, x, x, x, x, x, x, x, x]"
  "replicate 17 x = [x, x, x, x, x, x, x, x, x, x, x, x, x, x, x, x, x]"
  "replicate 12 x = [x, x, x, x, x, x, x, x, x, x, x, x]" "replicate 5 x = [x, x, x, x, x]"
  by (simp_all add: numeral_nat)

theorem ring_reads_whole_frames_witness:
  "let s = foldl seqlock_step seqlock_start (demo_write 1 1 @ demo_read 17)
   in rd_pc (sk_reader s) = RDone S_OK \<and> geometryIsSane (rd_info (sk_reader s)) \<and>
      (\<exists>n < length (sk_log s). sk_since s \<le> Suc n \<and>
         whole_frame (rd_info (sk_reader s)) (the (rd_dst (sk_reader s))) (sk_log s ! n))"
proof -
  let ?es = "demo_write 1 1 @ demo_read 17"
  have "rd_pc (sk_reader (foldl seqlock_step seqlock_start ?es)) = RDone S_OK"
    by (simp add: demo_write_def demo_read_def demo_steps machine_steps)
  moreover have "Reopens \<notin> set ?es" "length ?es \<le> 2 ^ 62"
    by (simp_all add: demo_write_def demo_read_def)
  ultimately show ?thesis using ring_reads_whole_frames[of ?es] by (simp add: Let_def)
qed

text \<open>
  A reader that is not a consumer is not safe from a new generation.  A ring opened only for reading does
  not count as a consumer, and when the last consumer leaves and another one comes, the numbers
  of the slots start again at zero.  A reader that was copying the first frame meanwhile finds
  the number it started from: \<open>readLatest\<close> returns \<open>S_OK\<close> with bytes of two frames, three of the old
  one and three of the new one.
\<close>

theorem reopened_ring_tears_reads:
  "let s = foldl seqlock_step seqlock_start torn_run
   in rd_pc (sk_reader s) = RDone S_OK \<and>
      map (the (rd_dst (sk_reader s))) [0, 1, 2, 3, 4, 5] = [1, 1, 1, 2, 2, 2] \<and>
      map (\<lambda>f. map (pb_src f) [0, 1, 2, 3, 4, 5]) (sk_log s) = [[1, 1, 1, 1, 1, 1], [2, 2, 2, 2, 2, 2]]"
  unfolding Let_def torn_run_def demo_write_def demo_read_def demo_steps
  by (simp add: machine_steps reopened_header_def resetPublishedFrames_def)

end
