(* ===== verification/Pairing.thy ===== *)
theory Pairing
  imports StoredSecurity
begin

text \<open>
  Pairing with a six-digit code, \<open>windows/security/src/spake2.cpp\<close>: the SPAKE2 exchange on P-256, the
  password scalar, and the server's side of the protocol.  OpenSSL's curve, its digest, its
  key stretching and its random numbers are parameters; a big number is a \<^typ>\<open>nat\<close>, a fixed
  array of bytes is a list.
\<close>

subsection \<open>What OpenSSL provides\<close>

text \<open>
  \<open>ec_group\<close> holds what the code calls on the curve, over a type of points: \<^const>\<open>None\<close> is a call that
  does not return 1.  \<open>eg_mul n q m\<close> is \<open>EC_POINT_mul\<close>, the generator times \<open>n\<close>, when there is one, plus the point
  \<open>q\<close> times \<open>m\<close>; \<open>eg_available\<close> says whether the group, its contexts and its points could be
  allocated.
\<close>

record 'p ec_group =
  eg_available :: bool
  eg_order :: nat
  eg_decode :: "bytes \<Rightarrow> 'p option"
  eg_encode :: "'p \<Rightarrow> bytes option"
  eg_is_on_curve :: "'p \<Rightarrow> bool"
  eg_is_at_infinity :: "'p \<Rightarrow> bool"
  eg_mul :: "nat option \<Rightarrow> 'p \<Rightarrow> nat \<Rightarrow> 'p option"
  eg_invert :: "'p \<Rightarrow> 'p option"
  eg_add :: "'p \<Rightarrow> 'p \<Rightarrow> 'p option"

text \<open>The digest and scrypt, with its parameters \<open>N\<close>, \<open>r\<close>, \<open>p\<close>, the memory limit and the size asked for.\<close>

record pairing_crypto =
  pc_crypto :: crypto
  pc_sha256 :: "bytes \<Rightarrow> bytes option"
  pc_scrypt :: "bytes \<Rightarrow> bytes \<Rightarrow> u64 \<Rightarrow> u64 \<Rightarrow> u64 \<Rightarrow> u64 \<Rightarrow> nat \<Rightarrow> bytes option"

definition sha256 :: "pairing_crypto \<Rightarrow> bytes \<Rightarrow> security_error + bytes" where
  "sha256 pc data =
     (case pc_sha256 pc data of
        None \<Rightarrow> Inl CryptoFailure
      | Some out \<Rightarrow> if length out \<noteq> 32 then Inl CryptoFailure else Inr out)"

subsection \<open>Points and scalars\<close>

datatype spake_role = RoleA | RoleB

definition kPointM :: bytes where
  "kPointM = [0x02, 0x88, 0x6e, 0x2f, 0x97, 0xac, 0xe4, 0x6e, 0x55, 0xba, 0x9d,
     0xd7, 0x24, 0x25, 0x79, 0xf2, 0x99, 0x3b, 0x64, 0xe1, 0x6e, 0xf3,
     0xdc, 0xab, 0x95, 0xaf, 0xd4, 0x97, 0x33, 0x3d, 0x8f, 0xa1, 0x2f]"

definition kPointN :: bytes where
  "kPointN = [0x03, 0xd8, 0xbb, 0xd6, 0xc6, 0x39, 0xc6, 0x29, 0x37, 0xb0, 0x4d,
     0x99, 0x7f, 0x38, 0xc3, 0x77, 0x07, 0x19, 0xc6, 0x29, 0xd7, 0x01,
     0x4d, 0x49, 0xa2, 0x4b, 0x4f, 0x98, 0xba, 0xa1, 0x29, 0x2b, 0x49]"

definition kPairingLifetimeSeconds :: u64 where "kPairingLifetimeSeconds = 120"
definition kPairingDomain :: string where "kPairingDomain = ''RemoteCam SPAKE2 pairing v1''"
definition kRecordDomain :: string where "kRecordDomain = ''RemoteCam long-term pairing key v1''"

definition loadMaskPoint :: "'p ec_group \<Rightarrow> spake_role \<Rightarrow> security_error + 'p" where
  "loadMaskPoint eg role =
     (case eg_decode eg (if role = RoleA then kPointM else kPointN) of
        None \<Rightarrow> Inl CryptoFailure
      | Some point \<Rightarrow>
          if \<not> eg_is_on_curve eg point \<or> eg_is_at_infinity eg point then Inl CryptoFailure else Inr point)"

definition serializePoint :: "'p ec_group \<Rightarrow> 'p \<Rightarrow> security_error + bytes" where
  "serializePoint eg point =
     (case eg_encode eg point of
        None \<Rightarrow> Inl CryptoFailure
      | Some encoded \<Rightarrow>
          if length encoded = 65 \<and> hd encoded = 0x04 then Inr encoded else Inl CryptoFailure)"

definition parsePeerPoint :: "'p ec_group \<Rightarrow> bytes \<Rightarrow> security_error + 'p" where
  "parsePeerPoint eg encoded =
     (if hd encoded \<noteq> 0x04 then Inl InvalidPoint
      else case eg_decode eg encoded of
        None \<Rightarrow> Inl InvalidPoint
      | Some point \<Rightarrow>
          if eg_is_at_infinity eg point \<or> \<not> eg_is_on_curve eg point then Inl InvalidPoint
          else if \<not> eg_available eg then Inl InvalidPoint
          else case eg_mul eg None point (eg_order eg) of
            None \<Rightarrow> Inl InvalidPoint
          | Some orderCheck \<Rightarrow>
              if \<not> eg_is_at_infinity eg orderCheck then Inl InvalidPoint else Inr point)"

definition validateScalar :: "'p ec_group \<Rightarrow> bytes \<Rightarrow> security_error + nat" where
  "validateScalar eg encoded =
     (let scalar = unat (be_value encoded :: 256 word)
      in if scalar = 0 \<or> scalar \<ge> eg_order eg then Inl InvalidArgument else Inr scalar)"

text \<open>\<open>BN_bn2binpad\<close> into 32 bytes.\<close>

definition encodeScalar :: "nat \<Rightarrow> security_error + bytes" where
  "encodeScalar scalar =
     (if scalar < 2 ^ 256 then Inr (be_bytes 32 (word_of_nat scalar :: 256 word)) else Inl CryptoFailure)"

definition pairingAad :: "bytes \<Rightarrow> bytes" where
  "pairingAad salt = bytes_of_string kPairingDomain @ salt"

subsection \<open>The exchange\<close>

record spake2 =
  sp_role :: spake_role
  sp_identityA :: string
  sp_identityB :: string
  sp_aad :: bytes
  sp_passwordScalar :: nat
  sp_privateScalar :: nat
  sp_publicValue :: bytes
  sp_finished :: bool

record spake2_secrets =
  sk_transcript :: bytes
  sk_sharedPoint :: bytes
  sk_sharedSecret :: bytes
  sk_confirmationKeyA :: bytes
  sk_confirmationKeyB :: bytes
  sk_confirmationA :: bytes
  sk_confirmationB :: bytes

definition createDeterministic ::
  "'p ec_group \<Rightarrow> spake_role \<Rightarrow> string \<Rightarrow> string \<Rightarrow> bytes \<Rightarrow> bytes \<Rightarrow> bytes \<Rightarrow> security_error + spake2" where
  "createDeterministic eg role identityA identityB aad passwordScalar privateScalar =
     (if length identityA > 1024 \<or> length identityB > 1024 \<or> length aad > 4096 then Inl InvalidArgument
      else if \<not> eg_available eg then Inl CryptoFailure
      else case validateScalar eg passwordScalar of
        Inl error \<Rightarrow> Inl error
      | Inr password \<Rightarrow>
          (case validateScalar eg privateScalar of
             Inl error \<Rightarrow> Inl error
           | Inr ephemeral \<Rightarrow>
               (case loadMaskPoint eg role of
                  Inl error \<Rightarrow> Inl CryptoFailure
                | Inr maskPoint \<Rightarrow>
                    (case eg_mul eg (Some ephemeral) maskPoint password of
                       None \<Rightarrow> Inl CryptoFailure
                     | Some publicPoint \<Rightarrow>
                         if eg_is_at_infinity eg publicPoint then Inl CryptoFailure
                         else case serializePoint eg publicPoint of
                           Inl error \<Rightarrow> Inl error
                         | Inr encodedPublic \<Rightarrow>
                             Inr \<lparr>sp_role = role, sp_identityA = identityA, sp_identityB = identityB,
                               sp_aad = aad, sp_passwordScalar = password, sp_privateScalar = ephemeral,
                               sp_publicValue = encodedPublic, sp_finished = False\<rparr>))))"

text \<open>
  Random scalars are drawn until one is not zero: \<open>draw i\<close> is what the \<open>i\<close>-th call of
  \<open>BN_priv_rand_range_ex\<close> gives.  The loop need not end, so the result is an option.
\<close>

partial_function (option) randomScalar :: "(nat \<Rightarrow> nat option) \<Rightarrow> nat \<Rightarrow> (security_error + nat) option" where
  "randomScalar draw i =
     (case draw i of
        None \<Rightarrow> Some (Inl CryptoFailure)
      | Some scalar \<Rightarrow> if scalar = 0 then randomScalar draw (Suc i) else Some (Inr scalar))"

definition spake_create ::
  "'p ec_group \<Rightarrow> (nat \<Rightarrow> nat option) \<Rightarrow> spake_role \<Rightarrow> string \<Rightarrow> string \<Rightarrow> bytes \<Rightarrow> bytes \<Rightarrow>
     (security_error + spake2) option" where
  "spake_create eg draw role identityA identityB aad passwordScalar =
     (if \<not> eg_available eg then Some (Inl CryptoFailure)
      else case randomScalar draw 0 of
        None \<Rightarrow> None
      | Some (Inl error) \<Rightarrow> Some (Inl error)
      | Some (Inr ephemeral) \<Rightarrow>
          (case encodeScalar ephemeral of
             Inl error \<Rightarrow> Some (Inl error)
           | Inr encoded \<Rightarrow>
               Some (createDeterministic eg role identityA identityB aad passwordScalar encoded)))"

definition publicValue :: "spake2 option \<Rightarrow> bytes" where
  "publicValue sp = (case sp of Some s \<Rightarrow> sp_publicValue s | None \<Rightarrow> replicate 65 0)"

text \<open>The shared point: the peer's point without its mask, times the private scalar.\<close>

definition sharedPoint :: "'p ec_group \<Rightarrow> spake2 \<Rightarrow> 'p \<Rightarrow> security_error + 'p" where
  "sharedPoint eg sp peer =
     (case loadMaskPoint eg (if sp_role sp = RoleA then RoleB else RoleA) of
        Inl error \<Rightarrow> Inl InvalidPoint
      | Inr maskPoint \<Rightarrow>
          (case eg_mul eg None maskPoint (sp_passwordScalar sp) of
             None \<Rightarrow> Inl InvalidPoint
           | Some passwordMask \<Rightarrow>
               (case eg_invert eg passwordMask of
                  None \<Rightarrow> Inl InvalidPoint
                | Some inverted \<Rightarrow>
                    (case eg_add eg peer inverted of
                       None \<Rightarrow> Inl InvalidPoint
                     | Some unmasked \<Rightarrow>
                         if eg_is_at_infinity eg unmasked then Inl InvalidPoint
                         else case eg_mul eg None unmasked (sp_privateScalar sp) of
                           None \<Rightarrow> Inl InvalidPoint
                         | Some shared \<Rightarrow>
                             if eg_is_at_infinity eg shared then Inl InvalidPoint else Inr shared))))"

definition spake_transcript :: "string \<Rightarrow> string \<Rightarrow> bytes \<Rightarrow> bytes \<Rightarrow> bytes \<Rightarrow> bytes \<Rightarrow> bytes" where
  "spake_transcript identityA identityB publicA publicB shared password =
     appendLengthPrefixed (bytes_of_string identityA) @ appendLengthPrefixed (bytes_of_string identityB) @
     appendLengthPrefixed publicA @ appendLengthPrefixed publicB @ appendLengthPrefixed shared @
     appendLengthPrefixed password"

text \<open>The keys and confirmations that follow from a transcript.\<close>

definition spake_secrets ::
  "pairing_crypto \<Rightarrow> bytes \<Rightarrow> bytes \<Rightarrow> bytes \<Rightarrow> security_error + spake2_secrets" where
  "spake_secrets pc aad transcript shared =
     (case sha256 pc transcript of
        Inl error \<Rightarrow> Inl error
      | Inr transcriptHash \<Rightarrow>
          (case hkdfSha256 (pc_crypto pc) (take 16 (drop 16 transcriptHash)) []
                  (bytes_of_string ''ConfirmationKeys'' @ aad) 32 of
             Inl error \<Rightarrow> Inl error
           | Inr confirmationMaterial \<Rightarrow>
               (let keyA = take 16 confirmationMaterial; keyB = take 16 (drop 16 confirmationMaterial)
                in case hmacSha256 (pc_crypto pc) keyA transcript of
                     Inl error \<Rightarrow> Inl error
                   | Inr confirmationA \<Rightarrow>
                       (case hmacSha256 (pc_crypto pc) keyB transcript of
                          Inl error \<Rightarrow> Inl error
                        | Inr confirmationB \<Rightarrow>
                            Inr \<lparr>sk_transcript = transcript, sk_sharedPoint = shared,
                              sk_sharedSecret = take 16 transcriptHash, sk_confirmationKeyA = keyA,
                              sk_confirmationKeyB = keyB, sk_confirmationA = confirmationA,
                              sk_confirmationB = confirmationB\<rparr>))))"

definition spake_finish ::
  "'p ec_group \<Rightarrow> pairing_crypto \<Rightarrow> bytes \<Rightarrow> spake2 option \<Rightarrow> (security_error + spake2_secrets) \<times> spake2 option" where
  "spake_finish eg pc peerPublicValue impl =
     (case impl of
        None \<Rightarrow> (Inl InvalidArgument, impl)
      | Some sp \<Rightarrow>
          if sp_finished sp then (Inl InvalidArgument, impl)
          else if \<not> eg_available eg then (Inl CryptoFailure, impl)
          else case parsePeerPoint eg peerPublicValue of
            Inl error \<Rightarrow> (Inl error, impl)
          | Inr peer \<Rightarrow>
              (case sharedPoint eg sp peer of
                 Inl error \<Rightarrow> (Inl error, impl)
               | Inr shared \<Rightarrow>
                   (case serializePoint eg shared of
                      Inl error \<Rightarrow> (Inl error, impl)
                    | Inr encoded \<Rightarrow>
                        (let publicA = (if sp_role sp = RoleA then sp_publicValue sp else peerPublicValue);
                             publicB = (if sp_role sp = RoleB then sp_publicValue sp else peerPublicValue)
                         in case encodeScalar (sp_passwordScalar sp) of
                              Inl error \<Rightarrow> (Inl error, impl)
                            | Inr password \<Rightarrow>
                                (case spake_secrets pc (sp_aad sp)
                                        (spake_transcript (sp_identityA sp) (sp_identityB sp) publicA publicB
                                          encoded password) encoded of
                                   Inl error \<Rightarrow> (Inl error, impl)
                                 | Inr secrets \<Rightarrow>
                                     (Inr secrets,
                                      Some (sp\<lparr>sp_finished := True, sp_passwordScalar := 0,
                                               sp_privateScalar := 0\<rparr>)))))))"

subsection \<open>The password\<close>

definition isDigit :: "char \<Rightarrow> bool" where
  "isDigit c \<longleftrightarrow> (let n = (of_char c :: nat) in n \<ge> 48 \<and> n \<le> 57)"

definition derivePasswordScalar ::
  "'p ec_group \<Rightarrow> pairing_crypto \<Rightarrow> string \<Rightarrow> bytes \<Rightarrow> security_error + bytes" where
  "derivePasswordScalar eg pc sixDigitCode salt =
     (if length sixDigitCode \<noteq> 6 \<or> \<not> list_all isDigit sixDigitCode
      then Inl InvalidArgument
      else case pc_scrypt pc (bytes_of_string sixDigitCode) salt 32768 8 1 (64 * 1024 * 1024) 40 of
        None \<Rightarrow> Inl CryptoFailure
      | Some stretched \<Rightarrow>
          if \<not> eg_available eg then Inl CryptoFailure
          else (let reduced = unat (be_value stretched :: 320 word) mod eg_order eg
                in if reduced = 0 then Inl CryptoFailure else encodeScalar reduced))"

subsection \<open>The server\<close>

record pairing_offer =
  po_salt :: bytes
  po_publicValueB :: bytes
  po_expiresUnixSeconds :: u64

record pairing_server =
  pv_serviceId :: string
  pv_deviceId :: string
  pv_offer :: pairing_offer
  pv_spake :: "spake2 option"
  pv_secrets :: "spake2_secrets option"
  pv_verified :: bool

text \<open>The random salt, or \<^const>\<open>None\<close> when there is none, and the draws of the private scalar are arguments.\<close>

definition pairing_begin ::
  "'p ec_group \<Rightarrow> pairing_crypto \<Rightarrow> bytes option \<Rightarrow> (nat \<Rightarrow> nat option) \<Rightarrow> string \<Rightarrow> string \<Rightarrow> string \<Rightarrow> u64 \<Rightarrow>
     (security_error + pairing_server) option" where
  "pairing_begin eg pc random draw serviceId deviceId sixDigitCode now =
     (if \<not> validCanonicalId serviceId \<or> \<not> validCanonicalId deviceId \<or> now > -1 - kPairingLifetimeSeconds
      then Some (Inl InvalidArgument)
      else case random of
        None \<Rightarrow> Some (Inl CryptoFailure)
      | Some salt \<Rightarrow>
          (case derivePasswordScalar eg pc sixDigitCode salt of
             Inl error \<Rightarrow> Some (Inl error)
           | Inr password \<Rightarrow>
               (case spake_create eg draw RoleB deviceId serviceId (pairingAad salt) password of
                  None \<Rightarrow> None
                | Some (Inl error) \<Rightarrow> Some (Inl error)
                | Some (Inr exchange) \<Rightarrow>
                    Some (Inr \<lparr>pv_serviceId = serviceId, pv_deviceId = deviceId,
                      pv_offer = \<lparr>po_salt = salt, po_publicValueB = publicValue (Some exchange),
                        po_expiresUnixSeconds = now + kPairingLifetimeSeconds\<rparr>,
                      pv_spake = Some exchange, pv_secrets = None, pv_verified = False\<rparr>))))"

definition receiveCommit ::
  "'p ec_group \<Rightarrow> pairing_crypto \<Rightarrow> bytes \<Rightarrow> pairing_server \<Rightarrow> (security_error + bytes) \<times> pairing_server" where
  "receiveCommit eg pc publicValueA s =
     (if pv_secrets s \<noteq> None then (Inl InvalidArgument, s)
      else case spake_finish eg pc publicValueA (pv_spake s) of
        (Inl error, spake) \<Rightarrow> (Inl error, s\<lparr>pv_spake := spake\<rparr>)
      | (Inr secrets, spake) \<Rightarrow>
          (Inr (sk_confirmationB secrets), s\<lparr>pv_spake := spake, pv_secrets := Some secrets\<rparr>))"

definition recordKeyInfo :: "string \<Rightarrow> string \<Rightarrow> bytes" where
  "recordKeyInfo deviceId serviceId =
     bytes_of_string kRecordDomain @ appendLengthPrefixed (bytes_of_string deviceId) @
     appendLengthPrefixed (bytes_of_string serviceId)"

definition verifyPeer ::
  "pairing_crypto \<Rightarrow> bytes \<Rightarrow> u64 \<Rightarrow> pairing_server \<Rightarrow> (security_error + pairing_record) \<times> pairing_server" where
  "verifyPeer pc confirmationA now s =
     (case pv_secrets s of
        None \<Rightarrow> (Inl InvalidArgument, s)
      | Some secrets \<Rightarrow>
          if pv_verified s then (Inl InvalidArgument, s)
          else if now \<ge> po_expiresUnixSeconds (pv_offer s) then (Inl Expired, s)
          else if confirmationA \<noteq> sk_confirmationA secrets then (Inl AuthenticationFailed, s)
          else case hkdfSha256 (pc_crypto pc) (sk_sharedSecret secrets) (po_salt (pv_offer s))
                      (recordKeyInfo (pv_deviceId s) (pv_serviceId s)) 32 of
            Inl error \<Rightarrow> (Inl error, s)
          | Inr key \<Rightarrow>
              (Inr \<lparr>pr_serviceId = pv_serviceId s, pr_deviceId = pv_deviceId s, pr_key = key,
                 pr_createdUnixSeconds = now, pr_recordExpires = -1\<rparr>,
               s\<lparr>pv_verified := True\<rparr>))"

subsection \<open>The curve\<close>

text \<open>
  What P-256 is documented to be: the points on the curve are a cyclic group of a prime order below
  \<open>2 ^ 256\<close>; \<open>dlog\<close> is the discrete logarithm to the generator, which the code never computes.  The
  calls compute in that group and do not fail, every point but infinity has an uncompressed
  encoding of 65 bytes that decodes to it, and the two constants encode points other than
  infinity.
\<close>

definition curve_laws :: "'p ec_group \<Rightarrow> ('p \<Rightarrow> nat) \<Rightarrow> bool" where
  "curve_laws eg dlog \<longleftrightarrow>
     (\<forall>P. eg_is_on_curve eg P \<longrightarrow> dlog P < eg_order eg \<and> (eg_is_at_infinity eg P \<longleftrightarrow> dlog P = 0) \<and>
        (\<exists>R. eg_invert eg P = Some R \<and> eg_is_on_curve eg R \<and> dlog R = (eg_order eg - dlog P) mod eg_order eg)) \<and>
     (\<forall>P Q. eg_is_on_curve eg P \<and> eg_is_on_curve eg Q \<longrightarrow> (dlog P = dlog Q \<longrightarrow> P = Q) \<and>
        (\<exists>R. eg_add eg P Q = Some R \<and> eg_is_on_curve eg R \<and> dlog R = (dlog P + dlog Q) mod eg_order eg)) \<and>
     (\<forall>n P m. eg_is_on_curve eg P \<longrightarrow>
        (\<exists>R. eg_mul eg n P m = Some R \<and> eg_is_on_curve eg R \<and>
           dlog R = ((case n of None \<Rightarrow> 0 | Some k \<Rightarrow> k) + m * dlog P) mod eg_order eg))"

definition curve_encodes :: "'p ec_group \<Rightarrow> bool" where
  "curve_encodes eg \<longleftrightarrow>
     (\<forall>P. eg_is_on_curve eg P \<and> \<not> eg_is_at_infinity eg P \<longrightarrow>
        (\<exists>encoded. eg_encode eg P = Some encoded \<and> length encoded = 65 \<and> hd encoded = 0x04 \<and>
           eg_decode eg encoded = Some P)) \<and>
     (\<forall>constant \<in> {kPointM, kPointN}. \<exists>P. eg_decode eg constant = Some P \<and> eg_is_on_curve eg P \<and>
        \<not> eg_is_at_infinity eg P)"

definition prime_order :: "nat \<Rightarrow> bool" where
  "prime_order q \<longleftrightarrow> 1 < q \<and> q \<le> 2 ^ 256 \<and> (\<forall>a b. 0 < a \<and> a < q \<and> 0 < b \<and> b < q \<longrightarrow> a * b mod q \<noteq> 0)"

definition curve_correct :: "'p ec_group \<Rightarrow> ('p \<Rightarrow> nat) \<Rightarrow> bool" where
  "curve_correct eg dlog \<longleftrightarrow>
     eg_available eg \<and> prime_order (eg_order eg) \<and> curve_laws eg dlog \<and> curve_encodes eg"

text \<open>
  The digest gives 32 bytes and, like the MAC, takes any input; HKDF-SHA256 gives up to 255 blocks of 32 bytes
  from a key that is not empty, and OpenSSL takes up to 1024 bytes of information for it.
\<close>

definition digests_total :: "pairing_crypto \<Rightarrow> bool" where
  "digests_total pc \<longleftrightarrow> (\<forall>data. \<exists>out. pc_sha256 pc data = Some out \<and> length out = 32) \<and>
     hmac_total (pc_crypto pc) \<and>
     (\<forall>key salt info n. key \<noteq> [] \<and> length info \<le> 1024 \<and> 0 < n \<and> n \<le> 255 * 32 \<longrightarrow>
        c_hkdf (pc_crypto pc) key salt info n \<noteq> None)"

lemma curve_mul:
  "curve_correct eg dlog \<Longrightarrow> eg_is_on_curve eg P \<Longrightarrow>
     \<exists>R. eg_mul eg n P m = Some R \<and> eg_is_on_curve eg R \<and>
       dlog R = ((case n of None \<Rightarrow> 0 | Some k \<Rightarrow> k) + m * dlog P) mod eg_order eg"
  unfolding curve_correct_def curve_laws_def by blast

lemma curve_add:
  "curve_correct eg dlog \<Longrightarrow> eg_is_on_curve eg P \<Longrightarrow> eg_is_on_curve eg Q \<Longrightarrow>
     \<exists>R. eg_add eg P Q = Some R \<and> eg_is_on_curve eg R \<and> dlog R = (dlog P + dlog Q) mod eg_order eg"
  unfolding curve_correct_def curve_laws_def by blast

lemma curve_invert:
  "curve_correct eg dlog \<Longrightarrow> eg_is_on_curve eg P \<Longrightarrow>
     \<exists>R. eg_invert eg P = Some R \<and> eg_is_on_curve eg R \<and> dlog R = (eg_order eg - dlog P) mod eg_order eg"
  unfolding curve_correct_def curve_laws_def by blast

lemma curve_point:
  "curve_correct eg dlog \<Longrightarrow> eg_is_on_curve eg P \<Longrightarrow>
     dlog P < eg_order eg \<and> (eg_is_at_infinity eg P \<longleftrightarrow> dlog P = 0)"
  unfolding curve_correct_def curve_laws_def by blast

lemma curve_inject:
  "curve_correct eg dlog \<Longrightarrow> eg_is_on_curve eg P \<Longrightarrow> eg_is_on_curve eg Q \<Longrightarrow> dlog P = dlog Q \<Longrightarrow> P = Q"
  unfolding curve_correct_def curve_laws_def by blast

lemma curve_order:
  "curve_correct eg dlog \<Longrightarrow> 1 < eg_order eg \<and> eg_order eg \<le> 2 ^ 256 \<and> eg_available eg"
  by (simp add: curve_correct_def prime_order_def)

lemma curve_product:
  "curve_correct eg dlog \<Longrightarrow> 0 < a \<Longrightarrow> a < eg_order eg \<Longrightarrow> 0 < b \<Longrightarrow> b < eg_order eg \<Longrightarrow> a * b mod eg_order eg \<noteq> 0"
  by (simp add: curve_correct_def prime_order_def)

lemma curve_encode:
  "curve_correct eg dlog \<Longrightarrow> eg_is_on_curve eg P \<Longrightarrow> \<not> eg_is_at_infinity eg P \<Longrightarrow>
     \<exists>encoded. eg_encode eg P = Some encoded \<and> length encoded = 65 \<and> hd encoded = 0x04 \<and>
       eg_decode eg encoded = Some P"
  by (simp add: curve_correct_def curve_encodes_def)

lemma mask_points:
  assumes "curve_correct eg dlog"
  obtains P where "loadMaskPoint eg role = Inr P" and "eg_is_on_curve eg P"
proof -
  let ?c = "if role = RoleA then kPointM else kPointN"
  have "\<exists>P. eg_decode eg ?c = Some P \<and> eg_is_on_curve eg P \<and> \<not> eg_is_at_infinity eg P"
    using assms unfolding curve_correct_def curve_encodes_def by (cases role) simp_all
  then obtain P where "eg_decode eg ?c = Some P" "eg_is_on_curve eg P" "\<not> eg_is_at_infinity eg P" by blast
  then show ?thesis by (intro that[of P]) (simp_all add: loadMaskPoint_def)
qed

definition mask_log :: "'p ec_group \<Rightarrow> ('p \<Rightarrow> nat) \<Rightarrow> spake_role \<Rightarrow> nat" where
  "mask_log eg dlog role = (case loadMaskPoint eg role of Inr P \<Rightarrow> dlog P | Inl e \<Rightarrow> 0)"

lemma validateScalar_range:
  "validateScalar eg encoded = Inr scalar \<Longrightarrow>
     0 < scalar \<and> scalar < eg_order eg \<and> scalar = unat (be_value encoded :: 256 word)"
  by (auto simp: validateScalar_def Let_def split: if_splits)

text \<open>What an exchange that was created knows: its scalars, and its point with the mask of its role.\<close>

definition exchange_ok :: "'p ec_group \<Rightarrow> ('p \<Rightarrow> nat) \<Rightarrow> spake2 \<Rightarrow> 'p \<Rightarrow> bool" where
  "exchange_ok eg dlog sp P \<longleftrightarrow>
     \<not> sp_finished sp \<and> 0 < sp_privateScalar sp \<and> sp_privateScalar sp < eg_order eg \<and>
     0 < sp_passwordScalar sp \<and> sp_passwordScalar sp < eg_order eg \<and>
     eg_is_on_curve eg P \<and> \<not> eg_is_at_infinity eg P \<and>
     dlog P = (sp_privateScalar sp + sp_passwordScalar sp * mask_log eg dlog (sp_role sp)) mod eg_order eg \<and>
     hd (sp_publicValue sp) = 0x04 \<and> eg_decode eg (sp_publicValue sp) = Some P"

lemma created_exchange:
  assumes curve: "curve_correct eg dlog"
    and created: "createDeterministic eg role idA idB aad password private = Inr sp"
  obtains P where "exchange_ok eg dlog sp P" and "sp_role sp = role" and "sp_identityA sp = idA"
    and "sp_identityB sp = idB" and "sp_aad sp = aad" and "validateScalar eg password = Inr (sp_passwordScalar sp)"
proof -
  obtain w x where scalars: "validateScalar eg password = Inr w" "validateScalar eg private = Inr x"
    using created by (auto simp: createDeterministic_def split: if_splits sum.splits)
  obtain M where mask: "loadMaskPoint eg role = Inr M" "eg_is_on_curve eg M" using mask_points[OF curve] .
  obtain P where P: "eg_mul eg (Some x) M w = Some P" "eg_is_on_curve eg P"
    "dlog P = (x + w * dlog M) mod eg_order eg"
    using curve_mul[OF curve mask(2), of "Some x" w] by auto
  have fin: "\<not> eg_is_at_infinity eg P"
    using created scalars mask P by (auto simp: createDeterministic_def split: if_splits)
  then obtain encoded where enc: "eg_encode eg P = Some encoded" "length encoded = 65" "hd encoded = 0x04"
    "eg_decode eg encoded = Some P"
    using curve P(2) unfolding curve_correct_def curve_encodes_def by blast
  have sp: "sp = \<lparr>sp_role = role, sp_identityA = idA, sp_identityB = idB, sp_aad = aad, sp_passwordScalar = w,
      sp_privateScalar = x, sp_publicValue = encoded, sp_finished = False\<rparr>"
    using created scalars mask P fin enc by (auto simp: createDeterministic_def serializePoint_def split: if_splits)
  show ?thesis
    by (rule that[of P]) (use scalars mask P fin enc scalars[THEN validateScalar_range] in \<open>simp_all add: sp exchange_ok_def mask_log_def\<close>)
qed

lemma unmask_mod:
  fixes y k q :: nat
  assumes "0 < q" and "y < q"
  shows "((y + k) mod q + (q - k mod q) mod q) mod q = y"
proof -
  have r: "k mod q < q" using assms(1) by simp
  have "((y + k) mod q + (q - k mod q) mod q) mod q = ((y + k mod q) + (q - k mod q)) mod q"
    by (simp only: mod_add_left_eq mod_add_right_eq) (metis mod_add_left_eq mod_add_right_eq)
  also have "(y + k mod q) + (q - k mod q) = y + q" using r by simp
  finally show ?thesis using assms(2) by simp
qed

text \<open>Taking the mask off the peer's point leaves its private scalar times the generator.\<close>

lemma sharedPoint_exchange:
  assumes curve: "curve_correct eg dlog"
    and own: "exchange_ok eg dlog sp P" and peer: "exchange_ok eg dlog sp' Q"
    and roles: "sp_role sp' = (if sp_role sp = RoleA then RoleB else RoleA)"
    and password: "sp_passwordScalar sp' = sp_passwordScalar sp"
  obtains S where "sharedPoint eg sp Q = Inr S" and "eg_is_on_curve eg S" and "\<not> eg_is_at_infinity eg S"
    and "dlog S = sp_privateScalar sp * sp_privateScalar sp' mod eg_order eg"
proof -
  let ?q = "eg_order eg" and ?w = "sp_passwordScalar sp" and ?x = "sp_privateScalar sp" and ?y = "sp_privateScalar sp'"
  have q: "1 < ?q" "?q \<le> 2 ^ 256" using curve_order[OF curve] by simp_all
  have scalars: "0 < ?x" "?x < ?q" "0 < ?y" "?y < ?q" using own peer by (simp_all add: exchange_ok_def)
  have Q: "eg_is_on_curve eg Q" using peer by (simp add: exchange_ok_def)
  obtain M where mask: "loadMaskPoint eg (sp_role sp') = Inr M" "eg_is_on_curve eg M" using mask_points[OF curve] .
  have dQ: "dlog Q = (?y + ?w * dlog M) mod ?q"
    using peer mask(1) by (simp add: exchange_ok_def mask_log_def password)
  obtain W where W: "eg_mul eg None M ?w = Some W" "eg_is_on_curve eg W" "dlog W = ?w * dlog M mod ?q"
    using curve_mul[OF curve mask(2), of None ?w] by auto
  obtain V where V: "eg_invert eg W = Some V" "eg_is_on_curve eg V" "dlog V = (?q - dlog W) mod ?q"
    using curve_invert[OF curve W(2)] by blast
  obtain U where U: "eg_add eg Q V = Some U" "eg_is_on_curve eg U" "dlog U = (dlog Q + dlog V) mod ?q"
    using curve_add[OF curve Q V(2)] by blast
  have "dlog U = ?y" using unmask_mod[of ?q ?y "?w * dlog M"] q scalars by (simp add: U(3) V(3) W(3) dQ)
  then have dU: "dlog U = ?y" "\<not> eg_is_at_infinity eg U" using curve_point[OF curve U(2)] scalars by simp_all
  obtain S where S: "eg_mul eg None U ?x = Some S" "eg_is_on_curve eg S" "dlog S = ?x * ?y mod ?q"
    using curve_mul[OF curve U(2), of None ?x] by (auto simp: dU(1))
  have "\<not> eg_is_at_infinity eg S"
    using curve_point[OF curve S(2)] curve_product[OF curve scalars] S(3) by simp
  moreover have "sharedPoint eg sp Q = Inr S"
    using mask(1) W V U dU(2) S calculation by (simp add: sharedPoint_def flip: roles)
  ultimately show ?thesis using S by (intro that[of S]) simp_all
qed

lemma parse_exchange:
  assumes curve: "curve_correct eg dlog" and peer: "exchange_ok eg dlog sp P"
  shows "parsePeerPoint eg (sp_publicValue sp) = Inr P"
proof -
  have P: "hd (sp_publicValue sp) = 0x04" "eg_decode eg (sp_publicValue sp) = Some P"
    "\<not> eg_is_at_infinity eg P" "eg_is_on_curve eg P"
    using peer by (simp_all add: exchange_ok_def)
  obtain R where R: "eg_mul eg None P (eg_order eg) = Some R" "eg_is_on_curve eg R" "dlog R = 0"
    using curve_mul[OF curve P(4), of None "eg_order eg"] by auto
  then show ?thesis
    using P curve_order[OF curve] curve_point[OF curve R(2)] by (simp add: parsePeerPoint_def)
qed

lemma digests_succeed:
  assumes "digests_total pc"
  shows "k \<noteq> [] \<Longrightarrow> length i \<le> 1024 \<Longrightarrow> \<exists>out. hkdfSha256 (pc_crypto pc) k s i 32 = Inr out"
    and "\<exists>out. hmacSha256 (pc_crypto pc) k d = Inr out"
    and "\<exists>out. sha256 pc d = Inr out \<and> length out = 32"
proof -
  show "k \<noteq> [] \<Longrightarrow> length i \<le> 1024 \<Longrightarrow> \<exists>out. hkdfSha256 (pc_crypto pc) k s i 32 = Inr out"
    using assms by (auto simp: digests_total_def hkdfSha256_def split: option.split)
  have "\<exists>out. c_hmac (pc_crypto pc) k d = Some out" "\<exists>out. pc_sha256 pc d = Some out \<and> length out = 32"
    using assms by (auto simp: digests_total_def hmac_total_def)
  then show "\<exists>out. hmacSha256 (pc_crypto pc) k d = Inr out" "\<exists>out. sha256 pc d = Inr out \<and> length out = 32"
    by (auto simp: hmacSha256_def sha256_def)
qed

lemma secrets_total:
  assumes "digests_total pc" and "length aad \<le> 1008"
  obtains secrets where "spake_secrets pc aad transcript shared = Inr secrets" and "sk_sharedSecret secrets \<noteq> []"
proof -
  obtain hash where hash: "sha256 pc transcript = Inr hash" "length hash = 32"
    using digests_succeed(3)[OF assms(1)] by blast
  have "take 16 (drop 16 hash) \<noteq> []" "length (bytes_of_string ''ConfirmationKeys'' @ aad) \<le> 1024"
    using hash(2) assms(2) by auto
  then obtain m where m: "hkdfSha256 (pc_crypto pc) (take 16 (drop 16 hash)) []
      (bytes_of_string ''ConfirmationKeys'' @ aad) 32 = Inr m"
    using digests_succeed(1)[OF assms(1)] by blast
  obtain ca where ca: "hmacSha256 (pc_crypto pc) (take 16 m) transcript = Inr ca"
    using digests_succeed(2)[OF assms(1)] by blast
  obtain cb where cb: "hmacSha256 (pc_crypto pc) (take 16 (drop 16 m)) transcript = Inr cb"
    using digests_succeed(2)[OF assms(1)] by blast
  have "take 16 hash \<noteq> []" using hash(2) by auto
  then have "\<exists>secrets. spake_secrets pc aad transcript shared = Inr secrets \<and> sk_sharedSecret secrets \<noteq> []"
    unfolding spake_secrets_def hash(1) sum.case m Let_def ca cb by simp
  then show ?thesis using that by blast
qed

text \<open>Both ends compute the same point, so the same transcript and the same secrets.\<close>

lemma exchange_agrees:
  assumes curve: "curve_correct eg dlog" and pc: "digests_total pc"
    and a: "createDeterministic eg RoleA idA idB aad password x = Inr a"
    and b: "createDeterministic eg RoleB idA idB aad password y = Inr b" and aad: "length aad \<le> 1008"
  obtains secrets a' b' where "spake_finish eg pc (sp_publicValue b) (Some a) = (Inr secrets, a')"
    and "spake_finish eg pc (sp_publicValue a) (Some b) = (Inr secrets, b')" and "sk_sharedSecret secrets \<noteq> []"
proof -
  obtain P where P: "exchange_ok eg dlog a P" "sp_role a = RoleA" "sp_identityA a = idA" "sp_identityB a = idB"
    "sp_aad a = aad" "validateScalar eg password = Inr (sp_passwordScalar a)"
    using created_exchange[OF curve a] .
  obtain Q where Q: "exchange_ok eg dlog b Q" "sp_role b = RoleB" "sp_identityA b = idA" "sp_identityB b = idB"
    "sp_aad b = aad" "validateScalar eg password = Inr (sp_passwordScalar b)"
    using created_exchange[OF curve b] .
  have w: "sp_passwordScalar b = sp_passwordScalar a" using P(6) Q(6) by simp
  obtain S where S: "sharedPoint eg a Q = Inr S" "eg_is_on_curve eg S" "\<not> eg_is_at_infinity eg S"
    "dlog S = sp_privateScalar a * sp_privateScalar b mod eg_order eg"
    by (rule sharedPoint_exchange[OF curve P(1) Q(1)]) (simp_all add: P(2) Q(2) w)
  obtain T where T: "sharedPoint eg b P = Inr T" "eg_is_on_curve eg T"
    "dlog T = sp_privateScalar b * sp_privateScalar a mod eg_order eg"
    by (rule sharedPoint_exchange[OF curve Q(1) P(1)]) (simp_all add: P(2) Q(2) w)
  have "T = S" by (rule curve_inject[OF curve T(2) S(2)]) (simp add: S(4) T(3) mult.commute)
  obtain encoded where enc: "serializePoint eg S = Inr encoded"
    using curve_encode[OF curve S(2,3)] by (auto simp: serializePoint_def)
  have "sp_passwordScalar a < 2 ^ 256"
    using P(1) curve_order[OF curve] by (simp add: exchange_ok_def)
  then obtain pw where pw: "encodeScalar (sp_passwordScalar a) = Inr pw" by (simp add: encodeScalar_def)
  let ?t = "spake_transcript idA idB (sp_publicValue a) (sp_publicValue b) encoded pw"
  obtain secrets where secrets: "spake_secrets pc aad ?t encoded = Inr secrets" "sk_sharedSecret secrets \<noteq> []"
    using secrets_total[OF pc aad] .
  have unfinished: "\<not> sp_finished a" "\<not> sp_finished b" using P(1) Q(1) by (simp_all add: exchange_ok_def)
  show ?thesis
    by (rule that[of secrets])
      (simp_all add: spake_finish_def unfinished curve_order[OF curve] parse_exchange[OF curve P(1)]
        parse_exchange[OF curve Q(1)] S(1) T(1) \<open>T = S\<close> enc pw w P(2-5) Q(2-5) secrets)
qed

subsection \<open>The exchange of a pairing\<close>

lemma begin_success:
  assumes "pairing_begin eg pc random draw serviceId deviceId code now = Some (Inr s)"
  obtains salt password y b where "random = Some salt" and "derivePasswordScalar eg pc code salt = Inr password"
    and "createDeterministic eg RoleB deviceId serviceId (pairingAad salt) password y = Inr b"
    and "s = \<lparr>pv_serviceId = serviceId, pv_deviceId = deviceId,
      pv_offer = \<lparr>po_salt = salt, po_publicValueB = sp_publicValue b,
        po_expiresUnixSeconds = now + kPairingLifetimeSeconds\<rparr>,
      pv_spake = Some b, pv_secrets = None, pv_verified = False\<rparr>"
    and "validCanonicalId serviceId" and "validCanonicalId deviceId" and "now \<le> -1 - kPairingLifetimeSeconds"
proof -
  have bad: "\<not> (\<not> validCanonicalId serviceId \<or> \<not> validCanonicalId deviceId \<or> now > -1 - kPairingLifetimeSeconds)"
    (is "\<not> ?bad")
  proof
    assume bad: ?bad
    show False using assms unfolding pairing_begin_def if_P[OF bad] by simp
  qed
  note begun = assms[unfolded pairing_begin_def if_not_P[OF bad]]
  obtain salt where salt: "random = Some salt" using begun by (cases random) simp_all
  note begun = begun[unfolded salt option.case]
  obtain password where pw: "derivePasswordScalar eg pc code salt = Inr password"
    using begun by (cases "derivePasswordScalar eg pc code salt") simp_all
  note begun = begun[unfolded pw sum.case]
  obtain b where b: "spake_create eg draw RoleB deviceId serviceId (pairingAad salt) password = Some (Inr b)"
    using begun by (auto split: option.splits sum.splits)
  then obtain y where y: "createDeterministic eg RoleB deviceId serviceId (pairingAad salt) password y = Inr b"
    by (auto simp: spake_create_def split: if_splits option.splits sum.splits)
  show ?thesis
    by (rule that[OF salt pw y]) (use begun b bad in \<open>simp_all add: publicValue_def not_less\<close>)
qed

text \<open>
  Property C17: a phone with the right code is paired.  Let the PC offer a pairing, and let a phone with the same code
  and the salt of the offer compute the exchange in role A under the same two identities.  The
  phone finishes on the point of the offer, the PC accepts the phone's point and answers with the
  confirmation the phone expects, and, before the offer expires, accepts the phone's; the record it
  then keeps names both and holds the key the phone derives from the same secret.
\<close>

theorem pairing_agrees:
  assumes "curve_correct eg dlog" and "digests_total pc"
    and "pairing_begin eg pc random draw serviceId deviceId code now = Some (Inr s)"
    and "derivePasswordScalar eg pc code (po_salt (pv_offer s)) = Inr password"
    and "createDeterministic eg RoleA deviceId serviceId (pairingAad (po_salt (pv_offer s))) password x = Inr phone"
    and "now' < now + kPairingLifetimeSeconds" and "\<forall>salt. random = Some salt \<longrightarrow> length salt = 16"
  shows "\<exists>secrets phone' s1 s2 key.
    spake_finish eg pc (po_publicValueB (pv_offer s)) (Some phone) = (Inr secrets, phone') \<and>
    receiveCommit eg pc (publicValue (Some phone)) s = (Inr (sk_confirmationB secrets), s1) \<and>
    hkdfSha256 (pc_crypto pc) (sk_sharedSecret secrets) (po_salt (pv_offer s)) (recordKeyInfo deviceId serviceId) 32
      = Inr key \<and>
    verifyPeer pc (sk_confirmationA secrets) now' s1 =
      (Inr \<lparr>pr_serviceId = serviceId, pr_deviceId = deviceId, pr_key = key, pr_createdUnixSeconds = now',
         pr_recordExpires = -1\<rparr>, s2)"
proof -
  obtain salt password' y b where b: "random = Some salt" "derivePasswordScalar eg pc code salt = Inr password'"
    "createDeterministic eg RoleB deviceId serviceId (pairingAad salt) password' y = Inr b"
    "s = \<lparr>pv_serviceId = serviceId, pv_deviceId = deviceId,
      pv_offer = \<lparr>po_salt = salt, po_publicValueB = sp_publicValue b,
        po_expiresUnixSeconds = now + kPairingLifetimeSeconds\<rparr>,
      pv_spake = Some b, pv_secrets = None, pv_verified = False\<rparr>"
    and ids: "validCanonicalId serviceId" "validCanonicalId deviceId"
    using begin_success[OF assms(3)] by metis
  have salt: "po_salt (pv_offer s) = salt" and pw: "password' = password" using assms(4) b(2,4) by simp_all
  have "length salt = 16" using assms(7) b(1) by simp
  then have aad: "length (pairingAad salt) \<le> 1008" by (simp add: pairingAad_def kPairingDomain_def)
  obtain secrets phone' b' where fin: "spake_finish eg pc (sp_publicValue b) (Some phone) = (Inr secrets, phone')"
    "spake_finish eg pc (sp_publicValue phone) (Some b) = (Inr secrets, b')" "sk_sharedSecret secrets \<noteq> []"
    using exchange_agrees[OF assms(1,2) assms(5)[unfolded salt] b(3)[unfolded pw] aad] .
  have "length (recordKeyInfo deviceId serviceId) \<le> 1024"
    using ids by (simp add: recordKeyInfo_def kRecordDomain_def length_appendLengthPrefixed validCanonicalId_length)
  with fin(3) obtain key where key: "hkdfSha256 (pc_crypto pc) (sk_sharedSecret secrets) salt (recordKeyInfo deviceId serviceId) 32 = Inr key"
    using digests_succeed(1)[OF assms(2)] by blast
  have "\<not> now + kPairingLifetimeSeconds \<le> now'" using assms(6) by simp
  then show ?thesis
    using fin key by (simp add: b(4) receiveCommit_def verifyPeer_def publicValue_def)
qed

subsection \<open>Drawing the scalar\<close>

lemma randomScalar_end:
  "randomScalar draw i = None \<longleftrightarrow> (\<forall>j. draw (i + j) = Some 0)"
proof
  assume zero: "\<forall>j. draw (i + j) = Some 0"
  have "\<exists>j. draw (k + j) \<noteq> Some 0" if "randomScalar draw k = Some out" for k out
    using that
  proof (rule randomScalar.raw_induct[where P = "\<lambda>draw k out. \<exists>j. draw (k + j) \<noteq> Some 0", rotated])
    fix rec :: "(nat \<Rightarrow> nat option) \<Rightarrow> nat \<Rightarrow> (security_error + nat) option" and draw k out
    assume later: "\<And>draw k out. rec draw k = Some out \<Longrightarrow> \<exists>j. draw (k + j) \<noteq> Some 0"
      and now: "(case draw k of None \<Rightarrow> Some (Inl CryptoFailure)
        | Some scalar \<Rightarrow> if scalar = 0 then rec draw (Suc k) else Some (Inr scalar)) = Some out"
    show "\<exists>j. draw (k + j) \<noteq> Some 0"
    proof (cases "draw k = Some 0")
      case True
      then have "rec draw (Suc k) = Some out" using now by simp
      then obtain j where "draw (Suc k + j) \<noteq> Some 0" using later by blast
      then show ?thesis by (intro exI[of _ "Suc j"]) simp
    next
      case False
      then show ?thesis by (intro exI[of _ 0]) simp
    qed
  qed
  then show "randomScalar draw i = None" using zero by (metis not_None_eq)
next
  assume none: "randomScalar draw i = None"
  have next_: "draw k = Some 0 \<and> randomScalar draw (Suc k) = None" if "randomScalar draw k = None" for k
    using that by (simp add: randomScalar.simps[of draw k] split: option.splits if_splits)
  have "randomScalar draw (i + j) = None" for j by (induction j) (use none next_ in auto)
  then show "\<forall>j. draw (i + j) = Some 0" using next_ by blast
qed

text \<open>
  An offer is made or refused.  The server's start always returns, an offer or an error,
  unless the random number generator answers every draw of the private scalar with zero.
\<close>

theorem pairing_begin_returns:
  "(\<exists>result. pairing_begin eg pc random draw serviceId deviceId code now = Some result) \<or> (\<forall>i. draw i = Some 0)"
proof (cases "randomScalar draw 0")
  case None
  then show ?thesis using randomScalar_end[of draw 0] by simp
next
  case (Some result)
  then have "\<exists>out. spake_create eg draw role idA idB aad password = Some out" for role idA idB aad password
    by (auto simp: spake_create_def split: sum.splits)
  then have "\<exists>result. pairing_begin eg pc random draw serviceId deviceId code now = Some result"
    by (auto simp: pairing_begin_def split: option.splits sum.splits) (metis not_None_eq)+
  then show ?thesis ..
qed

subsection \<open>What a phone can get out of an offer\<close>

datatype pairing_call = Commit bytes | Verify bytes u64
datatype pairing_outcome = Confirmed "security_error + bytes" | Recorded "security_error + pairing_record"

text \<open>Any calls to the server, as the messages of a phone make them, and what they give.\<close>

fun serve ::
  "'p ec_group \<Rightarrow> pairing_crypto \<Rightarrow> pairing_call list \<Rightarrow> pairing_server \<Rightarrow> (pairing_call \<times> pairing_outcome) list" where
  "serve eg pc [] s = []"
| "serve eg pc (Commit publicValueA # calls) s =
     (let (out, s') = receiveCommit eg pc publicValueA s
      in (Commit publicValueA, Confirmed out) # serve eg pc calls s')"
| "serve eg pc (Verify confirmation now # calls) s =
     (let (out, s') = verifyPeer pc confirmation now s
      in (Verify confirmation now, Recorded out) # serve eg pc calls s')"

fun answered :: "pairing_call \<times> pairing_outcome \<Rightarrow> bool" where
  "answered (call, Confirmed (Inr confirmation)) = True"
| "answered _ = False"

fun recorded :: "pairing_call \<times> pairing_outcome \<Rightarrow> bool" where
  "recorded (call, Recorded (Inr record)) = True"
| "recorded _ = False"

lemma spake_finish_refuses: "spake_finish eg pc A impl = (Inl e, impl') \<Longrightarrow> impl' = impl"
  by (auto simp: spake_finish_def Let_def split: option.splits if_splits sum.splits)

lemma commit_refuses: "receiveCommit eg pc A s = (Inl e, s') \<Longrightarrow> s' = s"
  by (auto simp: receiveCommit_def split: if_splits prod.splits sum.splits dest!: spake_finish_refuses)

lemma verify_refuses: "verifyPeer pc confirmation now s = (Inl e, s') \<Longrightarrow> s' = s"
  by (auto simp: verifyPeer_def split: option.splits if_splits sum.splits)

lemma commit_answers:
  "receiveCommit eg pc A s = (Inr c, s') \<Longrightarrow> \<exists>secrets spake.
     spake_finish eg pc A (pv_spake s) = (Inr secrets, spake) \<and> c = sk_confirmationB secrets \<and> pv_secrets s = None \<and>
     s' = s\<lparr>pv_spake := spake, pv_secrets := Some secrets\<rparr>"
  by (auto simp: receiveCommit_def split: if_splits prod.splits sum.splits)

lemma verify_records:
  "verifyPeer pc confirmation now s = (Inr record, s') \<Longrightarrow> \<exists>secrets key.
     pv_secrets s = Some secrets \<and> \<not> pv_verified s \<and> now < po_expiresUnixSeconds (pv_offer s) \<and>
     confirmation = sk_confirmationA secrets \<and>
     hkdfSha256 (pc_crypto pc) (sk_sharedSecret secrets) (po_salt (pv_offer s))
       (recordKeyInfo (pv_deviceId s) (pv_serviceId s)) 32 = Inr key \<and>
     record = \<lparr>pr_serviceId = pv_serviceId s, pr_deviceId = pv_deviceId s, pr_key = key,
       pr_createdUnixSeconds = now, pr_recordExpires = -1\<rparr> \<and> s' = s\<lparr>pv_verified := True\<rparr>"
  by (auto simp: verifyPeer_def split: option.splits if_splits sum.splits)

text \<open>Once paired, a server answers nothing more.\<close>

lemma serve_paired:
  assumes "pv_secrets s \<noteq> None" and "pv_verified s"
  shows "\<forall>entry \<in> set (serve eg pc calls s). \<not> answered entry \<and> \<not> recorded entry"
proof (induction calls)
  case (Cons call calls)
  have "receiveCommit eg pc A s = (Inl InvalidArgument, s)" for A using assms(1) by (simp add: receiveCommit_def)
  moreover have "verifyPeer pc c t s = (Inl InvalidArgument, s)" for c t using assms by (auto simp: verifyPeer_def)
  ultimately show ?case using Cons by (cases call) simp_all
qed simp

definition earned :: "pairing_crypto \<Rightarrow> pairing_server \<Rightarrow> spake2_secrets \<Rightarrow> pairing_call \<Rightarrow> pairing_record \<Rightarrow> bool" where
  "earned pc s secrets call record \<longleftrightarrow> (\<exists>confirmation now key. call = Verify confirmation now \<and>
     confirmation = sk_confirmationA secrets \<and> now < po_expiresUnixSeconds (pv_offer s) \<and>
     hkdfSha256 (pc_crypto pc) (sk_sharedSecret secrets) (po_salt (pv_offer s))
       (recordKeyInfo (pv_deviceId s) (pv_serviceId s)) 32 = Inr key \<and>
     record = \<lparr>pr_serviceId = pv_serviceId s, pr_deviceId = pv_deviceId s, pr_key = key,
       pr_createdUnixSeconds = now, pr_recordExpires = -1\<rparr>)"

lemma serve_committed:
  assumes "pv_secrets s = Some secrets" and "\<not> pv_verified s"
  shows "(\<forall>entry \<in> set (serve eg pc calls s). \<not> answered entry) \<and>
    length (filter recorded (serve eg pc calls s)) \<le> 1 \<and>
    (\<forall>call record. (call, Recorded (Inr record)) \<in> set (serve eg pc calls s) \<longrightarrow> earned pc s secrets call record)"
proof (induction calls)
  case (Cons call calls)
  have commit: "receiveCommit eg pc A s = (Inl InvalidArgument, s)" for A using assms(1) by (simp add: receiveCommit_def)
  show ?case
  proof (cases call)
    case (Verify c t)
    obtain out s' where out: "verifyPeer pc c t s = (out, s')" by fastforce
    show ?thesis
    proof (cases out)
      case (Inl e)
      then show ?thesis using Cons out verify_refuses[of pc c t s e s'] by (auto simp: Verify)
    next
      case (Inr r)
      then have rec: "s' = s\<lparr>pv_verified := True\<rparr>" "earned pc s secrets (Verify c t) r"
        using verify_records[of pc c t s r s'] out assms(1) by (auto simp: earned_def)
      have quiet: "\<forall>entry \<in> set (serve eg pc calls s'). \<not> answered entry \<and> \<not> recorded entry"
        by (rule serve_paired) (simp_all add: rec assms(1))
      then have "filter recorded (serve eg pc calls s') = []" by (simp add: filter_empty_conv)
      moreover have "(call, Recorded (Inr r)) \<notin> set (serve eg pc calls s')" for call r using quiet by fastforce
      ultimately show ?thesis using quiet rec(2) by (auto simp: Verify out Inr)
    qed
  qed (use Cons commit in auto)
qed simp

lemma serve_pending:
  assumes "pv_secrets s = None" and "\<not> pv_verified s"
  shows "(\<forall>entry \<in> set (serve eg pc calls s). \<not> answered entry \<and> \<not> recorded entry) \<or>
    (\<exists>before publicValueA secrets after. fst (spake_finish eg pc publicValueA (pv_spake s)) = Inr secrets \<and>
      serve eg pc calls s = before @ (Commit publicValueA, Confirmed (Inr (sk_confirmationB secrets))) # after \<and>
      (\<forall>entry \<in> set before. \<not> answered entry \<and> \<not> recorded entry) \<and>
      (\<forall>entry \<in> set after. \<not> answered entry) \<and> length (filter recorded after) \<le> 1 \<and>
      (\<forall>call record. (call, Recorded (Inr record)) \<in> set after \<longrightarrow> earned pc s secrets call record))"
    (is "?quiet calls \<or> ?committed calls")
proof (induction calls)
  case (Cons call calls)
  have skip: "?quiet (call # calls) \<or> ?committed (call # calls)"
    if "serve eg pc (call # calls) s = entry # serve eg pc calls s" "\<not> answered entry" "\<not> recorded entry" for entry
    using Cons
  proof
    assume "?committed calls"
    then obtain before A secrets after where
      "fst (spake_finish eg pc A (pv_spake s)) = Inr secrets"
      "serve eg pc calls s = before @ (Commit A, Confirmed (Inr (sk_confirmationB secrets))) # after"
      "(\<forall>entry \<in> set before. \<not> answered entry \<and> \<not> recorded entry)"
      "(\<forall>entry \<in> set after. \<not> answered entry) \<and> length (filter recorded after) \<le> 1 \<and>
      (\<forall>call record. (call, Recorded (Inr record)) \<in> set after \<longrightarrow> earned pc s secrets call record)"
      by blast
    then have "?committed (call # calls)"
      by (intro exI[of _ "entry # before"] exI[of _ A] exI[of _ secrets] exI[of _ after]) (simp add: that)
    then show ?thesis ..
  qed (simp add: that)
  show ?case
  proof (cases call)
    case (Commit A)
    obtain out s' where out: "receiveCommit eg pc A s = (out, s')" by fastforce
    show ?thesis
    proof (cases out)
      case (Inl e)
      then show ?thesis using out commit_refuses[of eg pc A s e s'] by (intro skip[of "(Commit A, Confirmed (Inl e))"]) (simp_all add: Commit)
    next
      case (Inr c)
      then obtain secrets spake where fin: "spake_finish eg pc A (pv_spake s) = (Inr secrets, spake)"
        "c = sk_confirmationB secrets" "s' = s\<lparr>pv_spake := spake, pv_secrets := Some secrets\<rparr>"
        using commit_answers[of eg pc A s c s'] out by blast
      have "(\<forall>entry \<in> set (serve eg pc calls s'). \<not> answered entry) \<and>
        length (filter recorded (serve eg pc calls s')) \<le> 1 \<and>
        (\<forall>call record. (call, Recorded (Inr record)) \<in> set (serve eg pc calls s') \<longrightarrow> earned pc s' secrets call record)"
        by (rule serve_committed) (simp_all add: fin assms)
      then have "?committed (call # calls)"
        by (intro exI[of _ "[]"] exI[of _ A] exI[of _ secrets] exI[of _ "serve eg pc calls s'"])
          (simp add: Commit out Inr fin(1,2), simp add: fin(3) earned_def)
      then show ?thesis ..
    qed
  next
    case (Verify c t)
    then show ?thesis using assms(1)
      by (intro skip[of "(Verify c t, Recorded (Inl InvalidArgument))"]) (simp_all add: verifyPeer_def)
  qed
qed simp

text \<open>
  Property C16: one offer, one guess, one record.  Whatever calls reach a server after it has made
  its offer, it accepts at most one point, so an opponent tests at most one code, and it issues at
  most one record.  A record comes only for a call, before the offer expires, with the
  confirmation of the secrets that the exchange of this code computed from a point the
  server had accepted before, and it holds the key of those secrets.
\<close>

theorem pairing_record_earned:
  assumes "pairing_begin eg pc random draw serviceId deviceId code now = Some (Inr s)"
  shows "length (filter answered (serve eg pc calls s)) \<le> 1 \<and> length (filter recorded (serve eg pc calls s)) \<le> 1 \<and>
    (\<forall>before call record after. serve eg pc calls s = before @ (call, Recorded (Inr record)) # after \<longrightarrow>
      (\<exists>publicValueA secrets confirmation now' key.
         (Commit publicValueA, Confirmed (Inr (sk_confirmationB secrets))) \<in> set before \<and>
         fst (spake_finish eg pc publicValueA (pv_spake s)) = Inr secrets \<and>
         call = Verify confirmation now' \<and> confirmation = sk_confirmationA secrets \<and>
         now' < now + kPairingLifetimeSeconds \<and>
         hkdfSha256 (pc_crypto pc) (sk_sharedSecret secrets) (po_salt (pv_offer s)) (recordKeyInfo deviceId serviceId) 32
           = Inr key \<and>
         record = \<lparr>pr_serviceId = serviceId, pr_deviceId = deviceId, pr_key = key, pr_createdUnixSeconds = now',
           pr_recordExpires = -1\<rparr>))"
proof -
  have s: "pv_secrets s = None" "\<not> pv_verified s" "pv_serviceId s = serviceId" "pv_deviceId s = deviceId"
    "po_expiresUnixSeconds (pv_offer s) = now + kPairingLifetimeSeconds"
    using begin_success[OF assms] by (metis pairing_server.select_convs pairing_offer.select_convs)+
  consider (quiet) "\<forall>entry \<in> set (serve eg pc calls s). \<not> answered entry \<and> \<not> recorded entry"
    | (committed) before A secrets after where "fst (spake_finish eg pc A (pv_spake s)) = Inr secrets"
      "serve eg pc calls s = before @ (Commit A, Confirmed (Inr (sk_confirmationB secrets))) # after"
      "\<forall>entry \<in> set before. \<not> answered entry \<and> \<not> recorded entry"
      "\<forall>entry \<in> set after. \<not> answered entry" "length (filter recorded after) \<le> 1"
      "\<forall>call record. (call, Recorded (Inr record)) \<in> set after \<longrightarrow> earned pc s secrets call record"
    using serve_pending[OF s(1,2), of eg pc calls] by blast
  then show ?thesis
  proof cases
    case quiet
    then have "filter answered (serve eg pc calls s) = []" "filter recorded (serve eg pc calls s) = []"
      by (simp_all add: filter_empty_conv)
    then show ?thesis using quiet by fastforce
  next
    case committed
    have none: "filter answered before = []" "filter recorded before = []" "filter answered after = []"
      using committed(3,4) by (simp_all add: filter_empty_conv)
    have "\<exists>publicValueA secrets confirmation now' key.
         (Commit publicValueA, Confirmed (Inr (sk_confirmationB secrets))) \<in> set pre \<and>
         fst (spake_finish eg pc publicValueA (pv_spake s)) = Inr secrets \<and>
         call = Verify confirmation now' \<and> confirmation = sk_confirmationA secrets \<and>
         now' < now + kPairingLifetimeSeconds \<and>
         hkdfSha256 (pc_crypto pc) (sk_sharedSecret secrets) (po_salt (pv_offer s)) (recordKeyInfo deviceId serviceId) 32
           = Inr key \<and>
         r = \<lparr>pr_serviceId = serviceId, pr_deviceId = deviceId, pr_key = key, pr_createdUnixSeconds = now',
           pr_recordExpires = -1\<rparr>"
      if split: "serve eg pc calls s = pre @ (call, Recorded (Inr r)) # post" for pre call r post
    proof -
      have "(call, Recorded (Inr r)) \<notin> set before" using committed(3) by fastforce
      then have after: "(Commit A, Confirmed (Inr (sk_confirmationB secrets))) \<in> set pre"
          "(call, Recorded (Inr r)) \<in> set after"
        using split[unfolded committed(2)]
        by (auto simp: append_eq_append_conv2 append_eq_Cons_conv Cons_eq_append_conv)
      then show ?thesis using committed(1,6) unfolding earned_def s(3-5) by blast
    qed
    then show ?thesis using none committed(5) by (simp add: committed(2))
  qed
qed

text \<open>A curve of three points, and the toy digests, for the witnesses.\<close>

definition toy_curve :: "nat ec_group" where
  "toy_curve =
     \<lparr>eg_available = True, eg_order = 3,
      eg_decode = (\<lambda>bs. if length bs = 65 then (if unat (last bs) < 3 then Some (unat (last bs)) else None)
         else if bs = kPointM then Some 1 else if bs = kPointN then Some 2 else None),
      eg_encode = (\<lambda>P. Some ([4] @ replicate 63 0 @ [word_of_nat P])),
      eg_is_on_curve = (\<lambda>P. P < 3), eg_is_at_infinity = (\<lambda>P. P = 0),
      eg_mul = (\<lambda>n P m. Some (((case n of None \<Rightarrow> 0 | Some k \<Rightarrow> k) + m * P) mod 3)),
      eg_invert = (\<lambda>P. Some ((3 - P) mod 3)), eg_add = (\<lambda>P Q. Some ((P + Q) mod 3))\<rparr>"

definition toy_pairing :: pairing_crypto where
  "toy_pairing = \<lparr>pc_crypto = toy_crypto, pc_sha256 = (\<lambda>data. Some (replicate 32 (sum_list data))),
     pc_scrypt = (\<lambda>password salt n r p m size. Some (be_bytes 40 (1 :: 320 word)))\<rparr>"

lemma toy_curve_correct: "curve_correct toy_curve (\<lambda>P. P)"
proof -
  have "a * b mod 3 \<noteq> 0" if "0 < a" "a < 3" "0 < b" "b < 3" for a b :: nat
  proof -
    have "a = 1 \<or> a = 2" "b = 1 \<or> b = 2" using that by auto
    then show ?thesis by auto
  qed
  then have "prime_order 3" by (simp add: prime_order_def)
  moreover have "curve_laws toy_curve (\<lambda>P. P)" by (auto simp: curve_laws_def toy_curve_def)
  moreover have "curve_encodes toy_curve"
  proof -
    have "unat (word_of_nat P :: u8) = P" if "P < 3" for P
      using that by (simp add: unat_of_nat)
    moreover have "kPointN \<noteq> kPointM" "length kPointM = 33" "length kPointN = 33"
      by (simp_all add: kPointM_def kPointN_def)
    ultimately show ?thesis by (auto simp: curve_encodes_def toy_curve_def)
  qed
  ultimately show ?thesis by (simp add: curve_correct_def) (simp add: toy_curve_def)
qed

lemma toy_pairing_total: "digests_total toy_pairing"
  by (simp add: digests_total_def toy_pairing_def toy_hmac_total) (simp add: toy_crypto_def)

definition toy_scalar :: "nat \<Rightarrow> bytes" where
  "toy_scalar k = be_bytes 32 (word_of_nat k :: 256 word)"

lemma toy_scalar_valid: "0 < k \<Longrightarrow> k < 3 \<Longrightarrow> validateScalar toy_curve (toy_scalar k) = Inr k"
proof -
  assume k: "0 < k" "k < 3"
  then have "k = 1 \<or> k = 2" by auto
  then have "unat (be_value (toy_scalar k) :: 256 word) = k"
    by (auto simp: toy_scalar_def be_value_be_bytes)
  then show ?thesis using k by (simp add: validateScalar_def toy_curve_def)
qed

lemma toy_password: "derivePasswordScalar toy_curve toy_pairing ''012345'' salt = Inr (toy_scalar 1)"
  by (simp add: derivePasswordScalar_def toy_pairing_def toy_curve_def be_value_be_bytes encodeScalar_def
      toy_scalar_def isDigit_def)

definition toy_phone :: spake2 where
  "toy_phone = \<lparr>sp_role = RoleA, sp_identityA = ''aaaaaaaaaaaaaaaa'', sp_identityB = ''0123456789abcdef'',
     sp_aad = pairingAad (replicate 16 7), sp_passwordScalar = 1, sp_privateScalar = 1,
     sp_publicValue = [4] @ replicate 63 0 @ [2], sp_finished = False\<rparr>"

definition toy_pc :: spake2 where
  "toy_pc = \<lparr>sp_role = RoleB, sp_identityA = ''aaaaaaaaaaaaaaaa'', sp_identityB = ''0123456789abcdef'',
     sp_aad = pairingAad (replicate 16 7), sp_passwordScalar = 1, sp_privateScalar = 2,
     sp_publicValue = [4] @ replicate 63 0 @ [1], sp_finished = False\<rparr>"

definition toy_offering :: pairing_server where
  "toy_offering = \<lparr>pv_serviceId = ''0123456789abcdef'', pv_deviceId = ''aaaaaaaaaaaaaaaa'',
     pv_offer = \<lparr>po_salt = replicate 16 7, po_publicValueB = sp_publicValue toy_pc, po_expiresUnixSeconds = 1120\<rparr>,
     pv_spake = Some toy_pc, pv_secrets = None, pv_verified = False\<rparr>"

lemma toy_masks:
  "loadMaskPoint toy_curve RoleA = Inr 1" "loadMaskPoint toy_curve RoleB = Inr 2"
  by (simp_all add: loadMaskPoint_def toy_curve_def kPointM_def kPointN_def)

lemma toy_operations:
  "eg_available toy_curve" "eg_is_at_infinity toy_curve P \<longleftrightarrow> P = 0"
  "eg_mul toy_curve (Some k) P m = Some ((k + m * P) mod 3)"
  by (simp_all add: toy_curve_def)

lemma toy_encodes: "serializePoint toy_curve P = Inr ([4] @ replicate 63 0 @ [word_of_nat P])"
  by (simp add: serializePoint_def toy_curve_def)

lemma toy_aad: "length (pairingAad salt) = 27 + length salt"
  by (simp add: pairingAad_def kPairingDomain_def)

lemma toy_creates:
  "createDeterministic toy_curve RoleA ''aaaaaaaaaaaaaaaa'' ''0123456789abcdef'' (pairingAad (replicate 16 7)) (toy_scalar 1)
     (toy_scalar 1) = Inr toy_phone"
  "createDeterministic toy_curve RoleB ''aaaaaaaaaaaaaaaa'' ''0123456789abcdef'' (pairingAad (replicate 16 7)) (toy_scalar 1)
     (toy_scalar 2) = Inr toy_pc"
  by (simp_all add: createDeterministic_def toy_scalar_valid toy_masks toy_operations toy_encodes toy_aad
      toy_phone_def toy_pc_def)

lemma toy_offer_begins:
  "pairing_begin toy_curve toy_pairing (Some (replicate 16 7)) (\<lambda>_. Some 2) ''0123456789abcdef'' ''aaaaaaaaaaaaaaaa'' ''012345'' 1000
     = Some (Inr toy_offering)"
proof -
  have "spake_create toy_curve (\<lambda>_. Some 2) RoleB ''aaaaaaaaaaaaaaaa'' ''0123456789abcdef'' (pairingAad (replicate 16 7)) (toy_scalar 1)
      = Some (Inr toy_pc)"
    using toy_creates(2) by (simp add: spake_create_def randomScalar.simps encodeScalar_def toy_scalar_def toy_curve_def)
  then show ?thesis
    by (simp add: pairing_begin_def toy_password publicValue_def toy_offering_def kPairingLifetimeSeconds_def
        validCanonicalId_def isLowerHex_def)
qed

text \<open>The hypotheses are met: the toy phone and the toy PC pair, one second before the offer expires.\<close>

theorem pairing_agrees_witness:
  "\<exists>secrets phone' s1 s2 key.
    spake_finish toy_curve toy_pairing (po_publicValueB (pv_offer toy_offering)) (Some toy_phone) = (Inr secrets, phone') \<and>
    receiveCommit toy_curve toy_pairing (publicValue (Some toy_phone)) toy_offering = (Inr (sk_confirmationB secrets), s1) \<and>
    verifyPeer toy_pairing (sk_confirmationA secrets) 1119 s1 =
      (Inr \<lparr>pr_serviceId = ''0123456789abcdef'', pr_deviceId = ''aaaaaaaaaaaaaaaa'', pr_key = key,
         pr_createdUnixSeconds = 1119, pr_recordExpires = -1\<rparr>, s2)"
proof -
  have salt: "po_salt (pv_offer toy_offering) = replicate 16 7" by (simp add: toy_offering_def)
  show ?thesis
    using pairing_agrees[OF toy_curve_correct toy_pairing_total toy_offer_begins toy_password[of "po_salt (pv_offer toy_offering)"]
        toy_creates(1)[folded salt], of 1119]
    by (auto simp: kPairingLifetimeSeconds_def)
qed

text \<open>The property at the toy server, for the calls of a phone that commits twice and confirms once.\<close>

theorem pairing_record_earned_witness:
  "length (filter answered (serve toy_curve toy_pairing
      [Commit (publicValue (Some toy_phone)), Commit (publicValue (Some toy_phone)), Verify [] 1119] toy_offering)) \<le> 1"
  using pairing_record_earned[OF toy_offer_begins] by blast

end
