(* ===== verification/Picture.thy ===== *)
theory Picture
  imports Prelude "HOL-Library.Signed_Division"
begin

text \<open>
  The frames the virtual camera shows when there is no phone: NV12 geometry and rectangles,
  \<open>windows/common/src/nv12.cpp\<close>, and the test pattern, \<open>windows/common/src/test_pattern.cpp\<close>.  A buffer
  is the list of its bytes, and a write outside it is \<^const>\<open>None\<close>, the undefined behaviour of the code; a
  C \<open>int\<close> is an \<^typ>\<open>int\<close>, since no product of the sizes of a frame comes near its limits, and its
  division truncates.
\<close>

subsection \<open>Writing into a buffer\<close>

definition memset_buf :: "bytes \<Rightarrow> nat \<Rightarrow> u8 \<Rightarrow> nat \<Rightarrow> bytes option" where
  "memset_buf dst offset v n =
     (if offset + n \<le> length dst then Some (take offset dst @ replicate n v @ drop (offset + n) dst) else None)"

definition store_byte :: "bytes \<Rightarrow> nat \<Rightarrow> u8 \<Rightarrow> bytes option" where
  "store_byte dst offset v = (if offset < length dst then Some (dst[offset := v]) else None)"

text \<open>A loop over an index.\<close>

fun each :: "('i \<Rightarrow> 'a \<Rightarrow> 'a option) \<Rightarrow> 'i list \<Rightarrow> 'a \<Rightarrow> 'a option" where
  "each body [] s = Some s"
| "each body (i # is) s = (case body i s of None \<Rightarrow> None | Some s' \<Rightarrow> each body is s')"

subsection \<open>Planes and rectangles\<close>

record nv12_layout =
  nl_width :: int
  nl_height :: int
  nl_stride :: int
  nl_uvOffset :: nat
  nl_totalSize :: nat

definition default_layout :: nv12_layout where
  "default_layout = \<lparr>nl_width = 0, nl_height = 0, nl_stride = 0, nl_uvOffset = 0, nl_totalSize = 0\<rparr>"

definition nv12Layout :: "int \<Rightarrow> int \<Rightarrow> int \<Rightarrow> nv12_layout" where
  "nv12Layout width height stride =
     (if width \<le> 0 \<or> height \<le> 0 then default_layout
      else (let w = width - width mod 2; h = height - height mod 2;
                s = (if stride > 0 then stride else w); uv = nat s * nat h
            in \<lparr>nl_width = w, nl_height = h, nl_stride = s, nl_uvOffset = uv, nl_totalSize = uv + uv div 2\<rparr>))"

record yuv =
  yuv_y :: u8
  yuv_u :: u8
  yuv_v :: u8

text \<open>The two chroma samples of the blocks \<open>cx0\<close> to \<open>cx1\<close> in the chroma rows \<open>cy0\<close> to \<open>cy1\<close>.\<close>

definition fill_chroma :: "nv12_layout \<Rightarrow> nat \<Rightarrow> nat \<Rightarrow> nat \<Rightarrow> nat \<Rightarrow> yuv \<Rightarrow> bytes \<Rightarrow> bytes option" where
  "fill_chroma layout cx0 cx1 cy0 cy1 colour =
     each (\<lambda>row. let line = nl_uvOffset layout + row * nat (nl_stride layout)
                 in each (\<lambda>col dst. case store_byte dst (line + (col * 2 + 0)) (yuv_u colour) of
                            None \<Rightarrow> None
                          | Some dst \<Rightarrow> store_byte dst (line + (col * 2 + 1)) (yuv_v colour))
                      [cx0..<cx1])
       [cy0..<cy1]"

definition nv12Fill :: "bytes \<Rightarrow> nv12_layout \<Rightarrow> yuv \<Rightarrow> bytes option" where
  "nv12Fill dst layout colour =
     (if nl_totalSize layout = 0 then Some dst
      else case each (\<lambda>row dst. memset_buf dst (row * nat (nl_stride layout)) (yuv_y colour) (nat (nl_width layout)))
                  [0..<nat (nl_height layout)] dst of
        None \<Rightarrow> None
      | Some dst \<Rightarrow>
          fill_chroma layout 0 (nat (nl_width layout sdiv 2)) 0 (nat (nl_height layout sdiv 2)) colour dst)"

definition nv12FillRect ::
  "bytes \<Rightarrow> nv12_layout \<Rightarrow> int \<Rightarrow> int \<Rightarrow> int \<Rightarrow> int \<Rightarrow> yuv \<Rightarrow> bytes option" where
  "nv12FillRect dst layout x y w h colour =
     (if nl_totalSize layout = 0 \<or> w \<le> 0 \<or> h \<le> 0 then Some dst
      else (let x0 = max 0 x; y0 = max 0 y;
                x1 = min (nl_width layout) (x + w); y1 = min (nl_height layout) (y + h)
            in if x0 \<ge> x1 \<or> y0 \<ge> y1 then Some dst
               else case each (\<lambda>row dst. memset_buf dst (row * nat (nl_stride layout) + nat x0) (yuv_y colour)
                              (nat (x1 - x0))) [nat y0..<nat y1] dst of
                 None \<Rightarrow> None
               | Some dst \<Rightarrow>
                   fill_chroma layout (nat (x0 sdiv 2)) (nat (min (nl_width layout sdiv 2) ((x1 + 1) sdiv 2)))
                     (nat (y0 sdiv 2)) (nat (min (nl_height layout sdiv 2) ((y1 + 1) sdiv 2))) colour dst))"

subsection \<open>The test pattern\<close>

definition kWhite :: yuv where "kWhite = \<lparr>yuv_y = 180, yuv_u = 128, yuv_v = 128\<rparr>"
definition kYellow :: yuv where "kYellow = \<lparr>yuv_y = 162, yuv_u = 44, yuv_v = 142\<rparr>"
definition kCyan :: yuv where "kCyan = \<lparr>yuv_y = 131, yuv_u = 156, yuv_v = 44\<rparr>"
definition kGreen :: yuv where "kGreen = \<lparr>yuv_y = 112, yuv_u = 72, yuv_v = 58\<rparr>"
definition kMagenta :: yuv where "kMagenta = \<lparr>yuv_y = 84, yuv_u = 184, yuv_v = 198\<rparr>"
definition kRed :: yuv where "kRed = \<lparr>yuv_y = 65, yuv_u = 100, yuv_v = 212\<rparr>"
definition kBlue :: yuv where "kBlue = \<lparr>yuv_y = 35, yuv_u = 212, yuv_v = 114\<rparr>"
definition kBlack :: yuv where "kBlack = \<lparr>yuv_y = 16, yuv_u = 128, yuv_v = 128\<rparr>"

definition kPlaceholderInk :: yuv where "kPlaceholderInk = \<lparr>yuv_y = 180, yuv_u = 128, yuv_v = 128\<rparr>"
definition kPlaceholderBg :: yuv where "kPlaceholderBg = \<lparr>yuv_y = 35, yuv_u = 212, yuv_v = 114\<rparr>"
definition kWriterInk :: yuv where "kWriterInk = \<lparr>yuv_y = 16, yuv_u = 128, yuv_v = 128\<rparr>"
definition kWriterBg :: yuv where "kWriterBg = \<lparr>yuv_y = 112, yuv_u = 72, yuv_v = 58\<rparr>"

definition kBars :: "yuv list" where
  "kBars = [kWhite, kYellow, kCyan, kGreen, kMagenta, kRed, kBlue, kBlack]"

definition kGlyphW :: nat where "kGlyphW = 5"
definition kGlyphH :: nat where "kGlyphH = 7"

definition kFont :: "(char \<times> bytes) list" where
  "kFont =
   [(CHR '' '', [0x00, 0x00, 0x00, 0x00, 0x00]), (CHR ''-'', [0x08, 0x08, 0x08, 0x08, 0x08]),
    (CHR ''.'', [0x00, 0x60, 0x60, 0x00, 0x00]), (CHR '':'', [0x00, 0x36, 0x36, 0x00, 0x00]),
    (CHR ''0'', [0x3e, 0x51, 0x49, 0x45, 0x3e]), (CHR ''1'', [0x00, 0x42, 0x7f, 0x40, 0x00]),
    (CHR ''2'', [0x42, 0x61, 0x51, 0x49, 0x46]), (CHR ''3'', [0x21, 0x41, 0x45, 0x4b, 0x31]),
    (CHR ''4'', [0x18, 0x14, 0x12, 0x7f, 0x10]), (CHR ''5'', [0x27, 0x45, 0x45, 0x45, 0x39]),
    (CHR ''6'', [0x3c, 0x4a, 0x49, 0x49, 0x30]), (CHR ''7'', [0x01, 0x71, 0x09, 0x05, 0x03]),
    (CHR ''8'', [0x36, 0x49, 0x49, 0x49, 0x36]), (CHR ''9'', [0x06, 0x49, 0x49, 0x29, 0x1e]),
    (CHR ''A'', [0x7e, 0x11, 0x11, 0x11, 0x7e]), (CHR ''B'', [0x7f, 0x49, 0x49, 0x49, 0x36]),
    (CHR ''C'', [0x3e, 0x41, 0x41, 0x41, 0x22]), (CHR ''D'', [0x7f, 0x41, 0x41, 0x22, 0x1c]),
    (CHR ''E'', [0x7f, 0x49, 0x49, 0x49, 0x41]), (CHR ''F'', [0x7f, 0x09, 0x09, 0x09, 0x01]),
    (CHR ''G'', [0x3e, 0x41, 0x49, 0x49, 0x7a]), (CHR ''H'', [0x7f, 0x08, 0x08, 0x08, 0x7f]),
    (CHR ''I'', [0x00, 0x41, 0x7f, 0x41, 0x00]), (CHR ''J'', [0x20, 0x40, 0x41, 0x3f, 0x01]),
    (CHR ''K'', [0x7f, 0x08, 0x14, 0x22, 0x41]), (CHR ''L'', [0x7f, 0x40, 0x40, 0x40, 0x40]),
    (CHR ''M'', [0x7f, 0x02, 0x0c, 0x02, 0x7f]), (CHR ''N'', [0x7f, 0x04, 0x08, 0x10, 0x7f]),
    (CHR ''O'', [0x3e, 0x41, 0x41, 0x41, 0x3e]), (CHR ''P'', [0x7f, 0x09, 0x09, 0x09, 0x06]),
    (CHR ''Q'', [0x3e, 0x41, 0x51, 0x21, 0x5e]), (CHR ''R'', [0x7f, 0x09, 0x19, 0x29, 0x46]),
    (CHR ''S'', [0x46, 0x49, 0x49, 0x49, 0x31]), (CHR ''T'', [0x01, 0x01, 0x7f, 0x01, 0x01]),
    (CHR ''U'', [0x3f, 0x40, 0x40, 0x40, 0x3f]), (CHR ''V'', [0x1f, 0x20, 0x40, 0x20, 0x1f]),
    (CHR ''W'', [0x3f, 0x40, 0x38, 0x40, 0x3f]), (CHR ''X'', [0x63, 0x14, 0x08, 0x14, 0x63]),
    (CHR ''Y'', [0x07, 0x08, 0x70, 0x08, 0x07]), (CHR ''Z'', [0x61, 0x51, 0x49, 0x45, 0x43])]"

definition findGlyph :: "char \<Rightarrow> bytes option" where
  "findGlyph ch = map_of kFont ch"

text \<open>One glyph: its dots in the order of the loops, column by column.\<close>

definition drawGlyph ::
  "nv12_layout \<Rightarrow> int \<Rightarrow> int \<Rightarrow> int \<Rightarrow> bytes \<Rightarrow> yuv \<Rightarrow> bytes \<Rightarrow> bytes option" where
  "drawGlyph layout cursor y scale glyph ink =
     each (\<lambda>col. each (\<lambda>row dst.
         if bit (glyph ! col) row
         then nv12FillRect dst layout (cursor + int col * scale) (y + int row * scale) scale scale ink
         else Some dst) [0..<kGlyphH]) [0..<kGlyphW]"

fun drawText :: "nv12_layout \<Rightarrow> int \<Rightarrow> int \<Rightarrow> int \<Rightarrow> string \<Rightarrow> yuv \<Rightarrow> bytes \<Rightarrow> bytes option" where
  "drawText layout cursor y scale [] ink dst = Some dst"
| "drawText layout cursor y scale (ch # text) ink dst =
     (case (case findGlyph ch of None \<Rightarrow> Some dst | Some glyph \<Rightarrow> drawGlyph layout cursor y scale glyph ink dst) of
        None \<Rightarrow> None
      | Some dst \<Rightarrow> drawText layout (cursor + (int kGlyphW + 1) * scale) y scale text ink dst)"

definition textWidth :: "string \<Rightarrow> int \<Rightarrow> int" where
  "textWidth text scale =
     (let n = int (length text) in if n > 0 then (n * (int kGlyphW + 1) - 1) * scale else 0)"

text \<open>The digits of the frame counter; \<open>cap\<close> is the size of the array, which holds the final null, too.\<close>

function counter_digits :: "nat \<Rightarrow> nat \<Rightarrow> nat \<Rightarrow> string \<Rightarrow> string" where
  "counter_digits cap n divisor out =
     (if divisor > 0 \<and> length out + 1 < cap
      then counter_digits cap n (divisor div 10) (out @ [''0123456789'' ! (n div divisor mod 10)])
      else out)"
  by pat_completeness auto
termination by (relation "measure (\<lambda>(cap, n, divisor, out). divisor)") auto

definition formatCounter :: "nat \<Rightarrow> u64 \<Rightarrow> string" where
  "formatCounter cap frameIndex =
     counter_digits cap (unat (frameIndex mod 1000000)) 100000 (take (cap - 1) ''FRAME '')"

record pattern_regions =
  pr_staticTop :: int
  pr_staticHeight :: int
  pr_movingTop :: int
  pr_movingHeight :: int

definition patternRegions :: "nv12_layout \<Rightarrow> pattern_regions" where
  "patternRegions layout =
     (if nl_height layout \<le> 0
      then \<lparr>pr_staticTop = 0, pr_staticHeight = 0, pr_movingTop = 0, pr_movingHeight = 0\<rparr>
      else (let h = nl_height layout * 2 sdiv 3 + 1;
                static = h - h mod 2;
                static = (if static \<ge> nl_height layout then nl_height layout - 2 else static)
            in \<lparr>pr_staticTop = 0, pr_staticHeight = static, pr_movingTop = static,
                 pr_movingHeight = nl_height layout - static\<rparr>))"

datatype pattern_style = Placeholder | Writer

text \<open>The loop that makes the label fit.\<close>

function labelScale :: "string \<Rightarrow> int \<Rightarrow> int \<Rightarrow> int" where
  "labelScale text width scale =
     (if scale > 1 \<and> textWidth text scale > width then labelScale text width (scale - 1) else scale)"
  by pat_completeness auto
termination by (relation "measure (\<lambda>(text, width, scale). nat scale)") auto

declare counter_digits.simps [simp del] labelScale.simps [simp del]

definition renderStatic :: "nv12_layout \<Rightarrow> pattern_style \<Rightarrow> bytes \<Rightarrow> bytes option" where
  "renderStatic layout style dst =
     (let r = patternRegions layout;
          bg = (if style = Placeholder then kPlaceholderBg else kWriterBg);
          ink = (if style = Placeholder then kPlaceholderInk else kWriterInk);
          label = (if style = Placeholder then ''REMOTECAM - WAITING FOR PHONE'' else ''REMOTECAM - SHM WRITER'');
          barW = nl_width layout sdiv 8
      in case each (\<lambda>i dst. let x = int i * barW
                            in nv12FillRect dst layout x (pr_staticTop r)
                                 (if i = 7 then nl_width layout - x else barW) (pr_staticHeight r) (kBars ! i))
              [0..<8] dst of
           None \<Rightarrow> None
         | Some dst \<Rightarrow>
             (let scale = labelScale label (nl_width layout) (if nl_height layout \<ge> 720 then 4 else 2);
                  labelBoxH = int kGlyphH * scale + 12 * scale sdiv 2;
                  labelBoxY = pr_staticTop r + pr_staticHeight r sdiv 2 - labelBoxH sdiv 2
              in case nv12FillRect dst layout 0 labelBoxY (nl_width layout) labelBoxH bg of
                   None \<Rightarrow> None
                 | Some dst \<Rightarrow>
                     drawText layout ((nl_width layout - textWidth label scale) sdiv 2)
                       (labelBoxY + (labelBoxH - int kGlyphH * scale) sdiv 2) scale label ink dst))"

definition sweepPhase :: "nv12_layout \<Rightarrow> u64 \<Rightarrow> int" where
  "sweepPhase layout frameIndex =
     (let travel = nl_width layout - nl_width layout sdiv 24
      in if travel > 0 then int (unat (frameIndex mod 97)) * travel sdiv 96 else 0)"

definition renderMoving :: "nv12_layout \<Rightarrow> u64 \<Rightarrow> pattern_style \<Rightarrow> bytes \<Rightarrow> bytes option" where
  "renderMoving layout frameIndex style dst =
     (let r = patternRegions layout
      in case nv12FillRect dst layout 0 (pr_movingTop r) (nl_width layout) (pr_movingHeight r) kBlack of
           None \<Rightarrow> None
         | Some dst \<Rightarrow>
             (case nv12FillRect dst layout (sweepPhase layout frameIndex)
                     (pr_movingTop r + pr_movingHeight r sdiv 2) (nl_width layout sdiv 24)
                     (pr_movingHeight r sdiv 2) (if style = Placeholder then kCyan else kMagenta) of
                None \<Rightarrow> None
              | Some dst \<Rightarrow>
                  (let counter = formatCounter 32 frameIndex;
                       scale = (if nl_height layout \<ge> 720 then 5 else 2)
                   in drawText layout ((nl_width layout - textWidth counter scale) sdiv 2)
                        (pr_movingTop r + pr_movingHeight r sdiv 4 - int kGlyphH * scale sdiv 2) scale counter
                        kWhite dst)))"

definition renderPattern :: "bytes \<Rightarrow> nv12_layout \<Rightarrow> u64 \<Rightarrow> pattern_style \<Rightarrow> bytes option" where
  "renderPattern dst layout frameIndex style =
     (if nl_totalSize layout = 0 then Some dst
      else case memset_buf dst 0 0 (nl_totalSize layout) of
        None \<Rightarrow> None
      | Some dst \<Rightarrow>
          (case renderStatic layout style dst of
             None \<Rightarrow> None
           | Some dst \<Rightarrow> renderMoving layout frameIndex style dst))"

subsection \<open>What a write changes\<close>

text \<open>\<open>changes A dst out\<close>: the writes stay inside the buffer, and touch only the offsets \<open>A\<close>.\<close>

definition changes :: "nat set \<Rightarrow> bytes \<Rightarrow> bytes option \<Rightarrow> bool" where
  "changes A dst out \<longleftrightarrow>
     (\<exists>dst'. out = Some dst' \<and> length dst' = length dst \<and> (\<forall>i < length dst. i \<notin> A \<longrightarrow> dst' ! i = dst ! i))"

lemma changes_Some [simp]: "changes A dst (Some dst)" by (simp add: changes_def)

lemma changes_mono: "changes A dst out \<Longrightarrow> A \<inter> {..<length dst} \<subseteq> B \<Longrightarrow> changes B dst out"
  unfolding changes_def by fastforce

lemma changes_bind:
  assumes "changes A dst out" and "\<And>dst'. length dst' = length dst \<Longrightarrow> changes A dst' (f dst')"
  shows "changes A dst (case out of None \<Rightarrow> None | Some dst' \<Rightarrow> f dst')"
proof -
  obtain dst' where dst': "out = Some dst'" "length dst' = length dst"
    "\<forall>i < length dst. i \<notin> A \<longrightarrow> dst' ! i = dst ! i"
    using assms(1) by (auto simp: changes_def)
  then show ?thesis using assms(2)[OF dst'(2)] by (auto simp: changes_def)
qed

lemma changes_each:
  assumes "\<And>i dst'. i \<in> set is \<Longrightarrow> length dst' = length dst \<Longrightarrow> changes A dst' (body i dst')"
  shows "changes A dst (each body is dst)"
  using assms
proof (induction "is" arbitrary: dst)
  case (Cons i "is")
  have "changes A dst (case body i dst of None \<Rightarrow> None | Some dst' \<Rightarrow> each body is dst')"
    by (rule changes_bind) (use Cons in simp_all)
  then show ?case by simp
qed simp

lemma memset_nth:
  assumes "memset_buf dst offset v n = Some dst'" and "i < length dst"
  shows "dst' ! i = (if offset \<le> i \<and> i < offset + n then v else dst ! i)" and "length dst' = length dst"
proof -
  have dst': "offset + n \<le> length dst" "dst' = take offset dst @ replicate n v @ drop (offset + n) dst"
    using assms(1) by (auto simp: memset_buf_def split: if_splits)
  then show "length dst' = length dst" by simp
  show "dst' ! i = (if offset \<le> i \<and> i < offset + n then v else dst ! i)"
    using dst' assms(2) by (auto simp: nth_append)
qed

lemma memset_changes:
  assumes "offset + n \<le> length dst"
  shows "changes {offset..<offset + n} dst (memset_buf dst offset v n)"
proof -
  obtain dst' where dst': "memset_buf dst offset v n = Some dst'" using assms by (simp add: memset_buf_def)
  then have "length dst' = length dst" using assms by (auto simp: memset_buf_def)
  then show ?thesis using memset_nth(1)[OF dst'] by (auto simp: changes_def dst')
qed

lemma store_changes: "offset < length dst \<Longrightarrow> changes {offset} dst (store_byte dst offset v)"
  by (simp add: changes_def store_byte_def)

text \<open>
  \<open>valid_layout\<close> is what \<open>nv12Layout\<close> gives for a picture and a stride that is not shorter than a row.
  \<open>band\<close> is what lies below the row \<open>s\<close>: those rows of the first plane, and half as many of the second.
\<close>

definition valid_layout :: "nv12_layout \<Rightarrow> bool" where
  "valid_layout L \<longleftrightarrow> 0 \<le> nl_width L \<and> even (nl_width L) \<and> 0 \<le> nl_height L \<and> even (nl_height L) \<and>
     nl_width L \<le> nl_stride L \<and> nl_uvOffset L = nat (nl_stride L) * nat (nl_height L) \<and>
     nl_totalSize L = nl_uvOffset L + nl_uvOffset L div 2"

definition band :: "nv12_layout \<Rightarrow> nat \<Rightarrow> nat set" where
  "band L s = {s * nat (nl_stride L)..<nl_uvOffset L} \<union>
     {nl_uvOffset L + s div 2 * nat (nl_stride L)..<nl_totalSize L}"

lemma layout_valid: "width \<le> stride \<Longrightarrow> valid_layout (nv12Layout width height stride)"
  by (auto simp: valid_layout_def nv12Layout_def default_layout_def Let_def minus_mod_eq_div_mult)

lemma row_fits:
  fixes row n k offset stride :: nat
  assumes "row < n" and "offset + k \<le> stride"
  shows "row * stride + offset + k \<le> n * stride"
proof -
  have "Suc row * stride \<le> n * stride" using assms(1) by (intro mult_le_mono1) simp
  then show ?thesis using assms(2) by simp
qed

lemma total_size:
  assumes "valid_layout L"
  shows "nl_totalSize L = nl_uvOffset L + nat (nl_height L div 2) * nat (nl_stride L)"
proof -
  obtain h where h: "nl_height L = 2 * h" "0 \<le> h" using assms by (auto simp: valid_layout_def elim: evenE)
  then have "nl_uvOffset L = 2 * (nat h * nat (nl_stride L))"
    using assms by (simp add: valid_layout_def nat_mult_distrib)
  then show ?thesis using assms h by (simp add: valid_layout_def)
qed

lemma sdiv_nonneg: "0 \<le> a \<Longrightarrow> 0 \<le> b \<Longrightarrow> a sdiv b = a div (b :: int)"
  by (cases "a = 0"; cases "b = 0") (simp_all add: signed_divide_int_def)

lemma chroma_changes:
  assumes L: "valid_layout L" and dst: "nl_totalSize L \<le> length dst"
    and cols: "cx1 \<le> nat (nl_width L div 2)" and rows: "s div 2 \<le> cy0" "cy1 \<le> nat (nl_height L div 2)"
  shows "changes {nl_uvOffset L + s div 2 * nat (nl_stride L)..<nl_totalSize L} dst
    (fill_chroma L cx0 cx1 cy0 cy1 colour dst)" (is "changes ?A dst _")
  unfolding fill_chroma_def Let_def
proof (intro changes_each)
  fix row col and dst1 dst2 :: bytes
  assume row: "row \<in> set [cy0..<cy1]" and col: "col \<in> set [cx0..<cx1]"
    and len: "length dst1 = length dst" "length dst2 = length dst1"
  let ?line = "nl_uvOffset L + row * nat (nl_stride L)"
  have "nat (nl_width L div 2) * 2 \<le> nat (nl_stride L)" using L by (auto simp: valid_layout_def)
  then have "col * 2 + 2 \<le> nat (nl_stride L)" using col cols by simp
  then have fits: "?line + col * 2 + 2 \<le> nl_totalSize L"
    using row_fits[of row "nat (nl_height L div 2)" "col * 2" 2 "nat (nl_stride L)"] row rows(2) total_size[OF L] by simp
  have "s div 2 * nat (nl_stride L) \<le> row * nat (nl_stride L)" using row rows(1) by (intro mult_le_mono1) simp
  then have "?line + col * 2 + k \<ge> nl_uvOffset L + s div 2 * nat (nl_stride L)" for k by linarith
  then have band: "?line + col * 2 + k \<in> ?A" if "k < 2" for k using fits that by simp
  show "changes (?A) dst2 (case store_byte dst2 (?line + (col * 2 + 0)) (yuv_u colour) of
      None \<Rightarrow> None | Some dst \<Rightarrow> store_byte dst (?line + (col * 2 + 1)) (yuv_v colour))"
  proof (rule changes_bind)
    show "changes (?A) dst2 (store_byte dst2 (?line + (col * 2 + 0)) (yuv_u colour))"
      by (rule changes_mono[OF store_changes]) (use fits dst len band[of 0] in auto)
    fix dst3 :: bytes
    assume "length dst3 = length dst2"
    then show "changes (?A) dst3 (store_byte dst3 (?line + (col * 2 + 1)) (yuv_v colour))"
      by (intro changes_mono[OF store_changes]) (use fits dst len band[of 1] in auto)
  qed
qed

lemma rows_changes:
  assumes L: "valid_layout L" and dst: "nl_totalSize L \<le> length dst"
    and cols: "0 \<le> x0" "x0 < x1" "x1 \<le> nl_width L" and rows: "s \<le> nat y0" "y1 \<le> nl_height L"
  shows "changes (band L s) dst
    (each (\<lambda>row dst. memset_buf dst (row * nat (nl_stride L) + nat x0) v (nat (x1 - x0))) [nat y0..<nat y1] dst)"
proof (rule changes_each)
  fix row and dst1 :: bytes
  assume row: "row \<in> set [nat y0..<nat y1]" and len: "length dst1 = length dst"
  let ?o = "row * nat (nl_stride L) + nat x0" and ?n = "nat (x1 - x0)"
  have "nl_width L \<le> nl_stride L" using L by (simp add: valid_layout_def)
  then have "nat x0 + ?n \<le> nat (nl_stride L)" using cols by linarith
  then have fits: "?o + ?n \<le> nl_uvOffset L"
    using row_fits[of row "nat (nl_height L)" "nat x0" ?n "nat (nl_stride L)"] row rows(2) L
    by (simp add: valid_layout_def mult.commute) linarith
  then have "?o + ?n \<le> length dst1" using dst len L by (simp add: valid_layout_def)
  moreover have "s * nat (nl_stride L) \<le> row * nat (nl_stride L)" using row rows(1) by (intro mult_le_mono1) simp
  then have "s * nat (nl_stride L) \<le> ?o" by linarith
  ultimately show "changes (band L s) dst1 (memset_buf dst1 ?o v ?n)"
    by (intro changes_mono[OF memset_changes]) (use fits in \<open>auto simp: band_def\<close>)
qed

lemma FillRect_changes:
  assumes L: "valid_layout L" and dst: "nl_totalSize L \<le> length dst" and y: "int s \<le> max 0 y"
  shows "changes (band L s) dst (nv12FillRect dst L x y w h colour)"
proof -
  let ?x0 = "max 0 x" and ?y0 = "max 0 y" and ?x1 = "min (nl_width L) (x + w)" and ?y1 = "min (nl_height L) (y + h)"
  consider (none) "nl_totalSize L = 0 \<or> w \<le> 0 \<or> h \<le> 0 \<or> ?x0 \<ge> ?x1 \<or> ?y0 \<ge> ?y1"
    | (some) "nl_totalSize L \<noteq> 0" "\<not> w \<le> 0" "\<not> h \<le> 0" "\<not> ?x0 \<ge> ?x1" "\<not> ?y0 \<ge> ?y1"
    by blast
  then show ?thesis
  proof cases
    case none
    then show ?thesis unfolding nv12FillRect_def Let_def by (auto simp del: max.bounded_iff min.bounded_iff)
  next
    case some
    have s: "s \<le> nat ?y0" using y by linarith
    have cy0: "s div 2 \<le> nat (?y0 sdiv 2)"
      using div_le_mono[OF s, of 2] by (simp add: sdiv_nonneg nat_div_distrib)
    have bounds: "0 \<le> nl_width L" "0 \<le> nl_height L" using L by (simp_all add: valid_layout_def)
    have x: "0 \<le> ?x0" "?x0 < ?x1" "?x1 \<le> nl_width L" and y1: "?y1 \<le> nl_height L" using some(4) by linarith+
    have "changes (band L s) dst (case each (\<lambda>row dst. memset_buf dst (row * nat (nl_stride L) + nat ?x0)
        (yuv_y colour) (nat (?x1 - ?x0))) [nat ?y0..<nat ?y1] dst of None \<Rightarrow> None
      | Some dst \<Rightarrow> fill_chroma L (nat (?x0 sdiv 2)) (nat (min (nl_width L sdiv 2) ((?x1 + 1) sdiv 2)))
          (nat (?y0 sdiv 2)) (nat (min (nl_height L sdiv 2) ((?y1 + 1) sdiv 2))) colour dst)"
    proof (rule changes_bind[OF rows_changes[OF L dst x s y1]])
      fix dst1 :: bytes
      assume "length dst1 = length dst"
      then show "changes (band L s) dst1 (fill_chroma L (nat (?x0 sdiv 2)) (nat (min (nl_width L sdiv 2) ((?x1 + 1) sdiv 2)))
          (nat (?y0 sdiv 2)) (nat (min (nl_height L sdiv 2) ((?y1 + 1) sdiv 2))) colour dst1)"
        using dst bounds by (intro changes_mono[OF chroma_changes[OF L _ _ cy0]]) (auto simp: sdiv_nonneg band_def)
    qed
    then show ?thesis using some unfolding nv12FillRect_def Let_def by (simp del: max.bounded_iff min.bounded_iff)
  qed
qed

lemma Glyph_changes:
  assumes "valid_layout L" and "nl_totalSize L \<le> length dst" and "int s \<le> max 0 y" and "0 \<le> scale"
  shows "changes (band L s) dst (drawGlyph L cursor y scale glyph ink dst)"
  unfolding drawGlyph_def
proof (intro changes_each)
  fix col row :: nat and dst1 dst2 :: bytes
  assume len: "length dst1 = length dst" "length dst2 = length dst1"
  have "0 \<le> int row * scale" using assms(4) by simp
  then have "int s \<le> max 0 (y + int row * scale)" using assms(3) by linarith
  then show "changes (band L s) dst2 (if bit (glyph ! col) row
      then nv12FillRect dst2 L (cursor + int col * scale) (y + int row * scale) scale scale ink else Some dst2)"
    using assms len by (auto intro: FillRect_changes)
qed

lemma Text_changes:
  assumes "valid_layout L" and "nl_totalSize L \<le> length dst" and "int s \<le> max 0 y" and "0 \<le> scale"
  shows "changes (band L s) dst (drawText L cursor y scale chars ink dst)"
  using assms(2)
proof (induction chars arbitrary: cursor dst)
  case (Cons ch chars)
  have "changes (band L s) dst
      (case findGlyph ch of None \<Rightarrow> Some dst | Some glyph \<Rightarrow> drawGlyph L cursor y scale glyph ink dst)"
    using Glyph_changes[OF assms(1) Cons.prems assms(3,4)] by (simp split: option.split)
  then show ?case unfolding drawText.simps by (rule changes_bind) (use Cons in simp)
qed simp

lemma labelScale_positive: "0 \<le> scale \<Longrightarrow> 0 \<le> labelScale label width scale"
  by (induction label width scale rule: labelScale.induct) (subst labelScale.simps, simp)

lemma Static_changes:
  assumes "valid_layout L" and "nl_totalSize L \<le> length dst"
  shows "changes (band L 0) dst (renderStatic L style dst)"
  unfolding renderStatic_def Let_def
  by (intro changes_bind changes_each FillRect_changes Text_changes) (simp_all add: assms labelScale_positive)

lemma Moving_changes:
  assumes "valid_layout L" and "nl_totalSize L \<le> length dst" and "0 \<le> pr_movingHeight (patternRegions L)"
    and "int s \<le> pr_movingTop (patternRegions L)"
    and "7 * (if nl_height L \<ge> 720 then 5 else 2) sdiv 2 \<le> pr_movingHeight (patternRegions L) sdiv 4"
  shows "changes (band L s) dst (renderMoving L frameIndex style dst)"
  unfolding renderMoving_def Let_def
  by (intro changes_bind FillRect_changes Text_changes)
    (use assms in \<open>simp_all add: sdiv_nonneg kGlyphH_def max_def split: if_splits\<close>)

lemma Moving_safe:
  assumes "valid_layout L" and "nl_totalSize L \<le> length dst"
  shows "changes (band L 0) dst (renderMoving L frameIndex style dst)"
  unfolding renderMoving_def Let_def
  by (intro changes_bind FillRect_changes Text_changes) (simp_all add: assms)

lemma render_inside:
  assumes "width \<le> stride" and dst: "nl_totalSize (nv12Layout width height stride) \<le> length dst"
  shows "changes {0..<nl_totalSize (nv12Layout width height stride)} dst
    (renderPattern dst (nv12Layout width height stride) frameIndex style)"
proof (cases "nl_totalSize (nv12Layout width height stride) = 0")
  case False
  let ?L = "nv12Layout width height stride"
  have L: "valid_layout ?L" by (rule layout_valid[OF assms(1)])
  have band: "band ?L 0 \<subseteq> {0..<nl_totalSize ?L}" using L by (auto simp: band_def valid_layout_def)
  have "changes {0..<nl_totalSize ?L} dst (case memset_buf dst 0 0 (nl_totalSize ?L) of None \<Rightarrow> None
    | Some dst \<Rightarrow> (case renderStatic ?L style dst of None \<Rightarrow> None
        | Some dst \<Rightarrow> renderMoving ?L frameIndex style dst))"
  proof (rule changes_bind)
    show "changes {0..<nl_totalSize ?L} dst (memset_buf dst 0 0 (nl_totalSize ?L))"
      using memset_changes[of 0 "nl_totalSize ?L" dst 0] dst by simp
    fix dst1 :: bytes
    assume "length dst1 = length dst"
    then have "changes (band ?L 0) dst1 (case renderStatic ?L style dst1 of None \<Rightarrow> None
        | Some dst \<Rightarrow> renderMoving ?L frameIndex style dst)"
      using dst by (intro changes_bind Static_changes Moving_safe) (simp_all add: L)
    then show "changes {0..<nl_totalSize ?L} dst1 (case renderStatic ?L style dst1 of None \<Rightarrow> None
        | Some dst \<Rightarrow> renderMoving ?L frameIndex style dst)"
      by (rule changes_mono) (use band in blast)
  qed
  then show ?thesis using False by (simp add: renderPattern_def)
qed (simp add: renderPattern_def)

subsection \<open>What a rectangle shows\<close>

lemma row_unique:
  fixes row py px stride x0 x1 :: nat
  assumes "row * stride + x0 \<le> py * stride + px" and "py * stride + px < row * stride + x1"
    and "px < stride" and "x1 \<le> stride"
  shows "row = py"
proof (rule ccontr)
  assume "row \<noteq> py"
  then consider "Suc row \<le> py" | "Suc py \<le> row" by linarith
  then show False
  proof cases
    case 1
    then have "Suc row * stride \<le> py * stride" by (intro mult_le_mono1)
    then show False using assms(2,4) by simp
  next
    case 2
    then have "Suc py * stride \<le> row * stride" by (intro mult_le_mono1)
    then show False using assms(1,3) by simp
  qed
qed

lemma rows_luma:
  assumes "each (\<lambda>row dst. memset_buf dst (row * stride + x0) v n) rows dst = Some dst'"
    and "py * stride + px < length dst" and "px < stride" and "x0 + n \<le> stride"
  shows "dst' ! (py * stride + px) =
    (if py \<in> set rows \<and> x0 \<le> px \<and> px < x0 + n then v else dst ! (py * stride + px))"
  using assms(1,2)
proof (induction rows arbitrary: dst)
  case (Cons row rows)
  obtain dst1 where dst1: "memset_buf dst (row * stride + x0) v n = Some dst1"
    "each (\<lambda>row dst. memset_buf dst (row * stride + x0) v n) rows dst1 = Some dst'"
    using Cons.prems(1) by (auto split: option.splits)
  have "dst1 ! (py * stride + px) = (if row = py \<and> x0 \<le> px \<and> px < x0 + n then v else dst ! (py * stride + px))"
    using memset_nth(1)[OF dst1(1) Cons.prems(2)] row_unique[of row stride x0 py px "x0 + n"] assms(3,4) by auto
  then show ?case
    using Cons.IH[OF dst1(2)] memset_nth(2)[OF dst1(1) Cons.prems(2)] Cons.prems(2) by auto
qed simp

lemma changes_keeps:
  "changes A dst (Some dst') \<Longrightarrow> i < length dst \<Longrightarrow> i \<notin> A \<Longrightarrow> dst' ! i = dst ! i"
  by (simp add: changes_def)

lemma pixel_inside:
  assumes "valid_layout L" and "px < nat (nl_width L)" and "py < nat (nl_height L)"
  shows "py * nat (nl_stride L) + px < nl_uvOffset L" and "px < nat (nl_stride L)"
proof -
  have "nl_width L \<le> nl_stride L" using assms(1) by (simp add: valid_layout_def)
  then show px: "px < nat (nl_stride L)" using assms(2) by linarith
  have "py * nat (nl_stride L) + px + 1 \<le> nat (nl_height L) * nat (nl_stride L)"
    by (rule row_fits) (use assms(3) px in simp_all)
  then show "py * nat (nl_stride L) + px < nl_uvOffset L"
    using assms(1) by (simp add: valid_layout_def mult.commute)
qed

lemma FillRect_luma:
  assumes L: "valid_layout L" and dst: "nl_totalSize L \<le> length dst"
    and pixel: "px < nat (nl_width L)" "py < nat (nl_height L)"
    and filled: "nv12FillRect dst L x y w h colour = Some dst'"
  shows "dst' ! (py * nat (nl_stride L) + px) =
    (if x \<le> int px \<and> int px < x + w \<and> y \<le> int py \<and> int py < y + h then yuv_y colour
     else dst ! (py * nat (nl_stride L) + px))"
proof -
  let ?x0 = "max 0 x" and ?y0 = "max 0 y" and ?x1 = "min (nl_width L) (x + w)" and ?y1 = "min (nl_height L) (y + h)"
  let ?o = "py * nat (nl_stride L) + px"
  have o: "?o < nl_uvOffset L" "px < nat (nl_stride L)" using pixel_inside[OF L pixel] .
  have total: "nl_uvOffset L \<le> nl_totalSize L" using L by (simp add: valid_layout_def)
  consider (none) "w \<le> 0 \<or> h \<le> 0 \<or> ?x0 \<ge> ?x1 \<or> ?y0 \<ge> ?y1"
    | (some) "\<not> w \<le> 0" "\<not> h \<le> 0" "\<not> ?x0 \<ge> ?x1" "\<not> ?y0 \<ge> ?y1" by blast
  then show ?thesis
  proof cases
    case none
    then have same: "dst' = dst"
      using filled unfolding nv12FillRect_def Let_def
      by (auto simp del: max.bounded_iff min.bounded_iff split: if_splits)
    have no: "\<not> (x \<le> int px \<and> int px < x + w \<and> y \<le> int py \<and> int py < y + h)"
      using none pixel by linarith
    show ?thesis unfolding same if_not_P[OF no] by (rule refl)
  next
    case some
    have total0: "nl_totalSize L \<noteq> 0" using o total by linarith
    have bounds: "0 \<le> nl_width L" "0 \<le> nl_height L" using L by (simp_all add: valid_layout_def)
    let ?rows = "each (\<lambda>row dst. memset_buf dst (row * nat (nl_stride L) + nat ?x0) (yuv_y colour) (nat (?x1 - ?x0)))
      [nat ?y0..<nat ?y1] dst"
    let ?chroma = "fill_chroma L (nat (?x0 sdiv 2)) (nat (min (nl_width L sdiv 2) ((?x1 + 1) sdiv 2)))
      (nat (?y0 sdiv 2)) (nat (min (nl_height L sdiv 2) ((?y1 + 1) sdiv 2))) colour"
    have "(case ?rows of None \<Rightarrow> None | Some dst \<Rightarrow> ?chroma dst) = Some dst'"
      using filled some total0 unfolding nv12FillRect_def Let_def by (simp del: max.bounded_iff min.bounded_iff)
    then obtain dst1 where dst1: "?rows = Some dst1" "?chroma dst1 = Some dst'" by (auto split: option.splits)
    have x: "0 \<le> ?x0" "?x0 < ?x1" "?x1 \<le> nl_width L" and y1: "?y1 \<le> nl_height L" using some by linarith+
    have len: "length dst1 = length dst"
      using rows_changes[OF L dst x le0 y1, of "yuv_y colour" ?y0] dst1(1) by (simp add: changes_def)
    have "changes {nl_uvOffset L + 0 div 2 * nat (nl_stride L)..<nl_totalSize L} dst1 (?chroma dst1)"
      by (rule chroma_changes[OF L]) (use dst len bounds in \<open>auto simp: sdiv_nonneg\<close>)
    then have kept: "dst' ! ?o = dst1 ! ?o" using changes_keeps[of _ dst1 dst' ?o] dst1(2) o total dst len by simp
    have "nl_width L \<le> nl_stride L" using L by (simp add: valid_layout_def)
    then have "nat ?x0 + nat (?x1 - ?x0) \<le> nat (nl_stride L)" using x by linarith
    then have painted: "dst1 ! ?o = (if py \<in> set [nat ?y0..<nat ?y1] \<and> nat ?x0 \<le> px \<and> px < nat ?x0 + nat (?x1 - ?x0)
        then yuv_y colour else dst ! ?o)"
      by (intro rows_luma[OF dst1(1) _ o(2)]) (use o total dst in linarith)
    have "(nat ?x0 \<le> px \<and> px < nat ?x0 + nat (?x1 - ?x0)) \<longleftrightarrow> x \<le> int px \<and> int px < x + w"
    proof -
      have "nat ?x0 + nat (?x1 - ?x0) = nat ?x1" using x(1,2) by linarith
      moreover have "int px < nl_width L" using pixel(1) by linarith
      ultimately show ?thesis by (simp add: nat_le_iff zless_nat_eq_int_zless)
    qed
    moreover have "py \<in> set [nat ?y0..<nat ?y1] \<longleftrightarrow> y \<le> int py \<and> int py < y + h"
    proof -
      have "int py < nl_height L" using pixel(2) by linarith
      then show ?thesis by (simp add: nat_le_iff zless_nat_eq_int_zless)
    qed
    ultimately have "(py \<in> set [nat ?y0..<nat ?y1] \<and> nat ?x0 \<le> px \<and> px < nat ?x0 + nat (?x1 - ?x0)) \<longleftrightarrow>
        x \<le> int px \<and> int px < x + w \<and> y \<le> int py \<and> int py < y + h" by blast
    then show ?thesis unfolding kept painted by (rule if_cong) (rule refl)+
  qed
qed

text \<open>The dots of a glyph and of a text, and which pixels they cover.\<close>

definition glyph_lit :: "bytes \<Rightarrow> int \<Rightarrow> int \<Rightarrow> int \<Rightarrow> int \<Rightarrow> int \<Rightarrow> bool" where
  "glyph_lit glyph cursor y scale px py \<longleftrightarrow>
     (\<exists>col \<in> {0..<kGlyphW}. \<exists>row \<in> {0..<kGlyphH}. bit (glyph ! col) row \<and>
        cursor + int col * scale \<le> px \<and> px < cursor + int col * scale + scale \<and>
        y + int row * scale \<le> py \<and> py < y + int row * scale + scale)"

fun text_lit :: "string \<Rightarrow> int \<Rightarrow> int \<Rightarrow> int \<Rightarrow> int \<Rightarrow> int \<Rightarrow> bool" where
  "text_lit [] cursor y scale px py = False"
| "text_lit (ch # chars) cursor y scale px py =
     ((case findGlyph ch of None \<Rightarrow> False | Some glyph \<Rightarrow> glyph_lit glyph cursor y scale px py) \<or>
      text_lit chars (cursor + (int kGlyphW + 1) * scale) y scale px py)"

lemma each_paint:
  assumes "\<And>i d d'. i \<in> set is \<Longrightarrow> length d = n \<Longrightarrow> body i d = Some d' \<Longrightarrow>
      length d' = n \<and> d' ! o' = (if P i then v else d ! o')"
    and "each body is dst = Some dst'" and "length dst = n"
  shows "length dst' = n \<and> dst' ! o' = (if \<exists>i \<in> set is. P i then v else dst ! o')"
  using assms
proof (induction "is" arbitrary: dst)
  case (Cons i "is")
  obtain d where d: "body i dst = Some d" "each body is d = Some dst'"
    using Cons.prems(2) by (auto split: option.splits)
  have step: "length d = n \<and> d ! o' = (if P i then v else dst ! o')"
    using Cons.prems(1)[of i dst d] d(1) Cons.prems(3) by simp
  have "length dst' = n \<and> dst' ! o' = (if \<exists>i \<in> set is. P i then v else d ! o')"
    by (rule Cons.IH[OF Cons.prems(1)[OF list.set_intros(2)] d(2)]) (use step in simp_all)
  then show ?case using step by auto
qed simp

lemma changes_length: "changes A dst (Some dst') \<Longrightarrow> length dst' = length dst"
  by (simp add: changes_def)

lemma Glyph_luma:
  assumes L: "valid_layout L" and dst: "nl_totalSize L \<le> length dst"
    and pixel: "px < nat (nl_width L)" "py < nat (nl_height L)" and scale: "0 \<le> scale"
    and drawn: "drawGlyph L cursor y scale glyph ink dst = Some dst'"
  shows "dst' ! (py * nat (nl_stride L) + px) =
    (if glyph_lit glyph cursor y scale (int px) (int py) then yuv_y ink else dst ! (py * nat (nl_stride L) + px))"
proof -
  let ?o = "py * nat (nl_stride L) + px"
  let ?dot = "\<lambda>col row. bit (glyph ! col) row \<and>
    cursor + int col * scale \<le> int px \<and> int px < cursor + int col * scale + scale \<and>
    y + int row * scale \<le> int py \<and> int py < y + int row * scale + scale"
  let ?body = "\<lambda>col row dst. if bit (glyph ! col) row
    then nv12FillRect dst L (cursor + int col * scale) (y + int row * scale) scale scale ink else Some dst"
  have dot: "length d' = length dst \<and> d' ! ?o = (if ?dot col row then yuv_y ink else d ! ?o)"
    if "length d = length dst" "?body col row d = Some d'" for col row d d'
  proof (cases "bit (glyph ! col) row")
    case True
    then have fill: "nv12FillRect d L (cursor + int col * scale) (y + int row * scale) scale scale ink = Some d'"
      using that(2) by simp
    have "changes (band L 0) d (nv12FillRect d L (cursor + int col * scale) (y + int row * scale) scale scale ink)"
      by (rule FillRect_changes[OF L]) (use dst that in simp_all)
    then have "length d' = length dst" using that(1) by (simp add: fill changes_def)
    then show ?thesis using FillRect_luma[OF L _ pixel fill] dst that(1) True by simp
  qed (use that in simp)
  have column: "length d' = length dst \<and> d' ! ?o = (if \<exists>row \<in> set [0..<kGlyphH]. ?dot col row then yuv_y ink else d ! ?o)"
    if "length d = length dst" "each (?body col) [0..<kGlyphH] d = Some d'" for col d d'
    by (rule each_paint[OF _ that(2,1)]) (rule dot)
  have "length dst' = length dst \<and> dst' ! ?o =
    (if \<exists>col \<in> set [0..<kGlyphW]. \<exists>row \<in> set [0..<kGlyphH]. ?dot col row then yuv_y ink else dst ! ?o)"
    by (rule each_paint[OF _ drawn[unfolded drawGlyph_def] refl]) (rule column)
  then show ?thesis unfolding glyph_lit_def set_upt by simp
qed

lemma Text_luma:
  assumes L: "valid_layout L" and pixel: "px < nat (nl_width L)" "py < nat (nl_height L)" and scale: "0 \<le> scale"
    and "nl_totalSize L \<le> length dst" and "drawText L cursor y scale chars ink dst = Some dst'"
  shows "dst' ! (py * nat (nl_stride L) + px) =
    (if text_lit chars cursor y scale (int px) (int py) then yuv_y ink else dst ! (py * nat (nl_stride L) + px))"
  using assms(5,6)
proof (induction chars arbitrary: cursor dst)
  case (Cons ch chars)
  let ?o = "py * nat (nl_stride L) + px"
  let ?glyph = "case findGlyph ch of None \<Rightarrow> Some dst | Some glyph \<Rightarrow> drawGlyph L cursor y scale glyph ink dst"
  let ?lit = "case findGlyph ch of None \<Rightarrow> False | Some glyph \<Rightarrow> glyph_lit glyph cursor y scale (int px) (int py)"
  obtain d where d: "?glyph = Some d" "drawText L (cursor + (int kGlyphW + 1) * scale) y scale chars ink d = Some dst'"
    using Cons.prems(2) by (auto split: option.splits)
  have "changes (band L 0) dst ?glyph"
    using Glyph_changes[OF L Cons.prems(1) _ scale, of 0] by (simp split: option.split)
  then have len: "nl_totalSize L \<le> length d" using Cons.prems(1) by (simp add: d(1) changes_def)
  have "d ! ?o = (if ?lit then yuv_y ink else dst ! ?o)"
    using d(1) Glyph_luma[OF L Cons.prems(1) pixel scale] by (cases "findGlyph ch") simp_all
  then show ?case using Cons.IH[OF len d(2)] by simp
qed simp

lemma glyph_lit_right: "0 < scale \<Longrightarrow> glyph_lit glyph cursor y scale px py \<Longrightarrow> cursor \<le> px \<and> px < cursor + 5 * scale"
proof -
  assume scale: "0 < scale" and "glyph_lit glyph cursor y scale px py"
  then obtain col where col: "col < 5" "cursor + int col * scale \<le> px" "px < cursor + int col * scale + scale"
    by (auto simp: glyph_lit_def kGlyphW_def)
  have "(int col + 1) * scale \<le> 5 * scale" "0 \<le> int col * scale"
    using col(1) scale by (auto intro: mult_right_mono)
  moreover have "(int col + 1) * scale = int col * scale + scale" by (simp add: distrib_right)
  ultimately show ?thesis using col by linarith
qed

lemma text_lit_right: "0 < scale \<Longrightarrow> text_lit chars cursor y scale px py \<Longrightarrow> cursor \<le> px"
proof (induction chars arbitrary: cursor)
  case (Cons ch chars)
  then show ?case
    using glyph_lit_right[of scale _ cursor y px py] Cons.IH[of "cursor + (int kGlyphW + 1) * scale"]
    by (fastforce simp: kGlyphW_def split: option.splits)
qed simp

lemma text_lit_cell:
  assumes "0 < scale" and "k < length chars"
    and "cursor + 6 * scale * int k \<le> px" and "px < cursor + 6 * scale * int (Suc k)"
  shows "text_lit chars cursor y scale px py \<longleftrightarrow>
    (case findGlyph (chars ! k) of None \<Rightarrow> False
     | Some glyph \<Rightarrow> glyph_lit glyph (cursor + 6 * scale * int k) y scale px py)"
  using assms(2-4)
proof (induction chars arbitrary: cursor k)
  case (Cons ch chars)
  show ?case
  proof (cases k)
    case 0
    then have "\<not> text_lit chars (cursor + (int kGlyphW + 1) * scale) y scale px py"
      using text_lit_right[OF assms(1), of chars "cursor + (int kGlyphW + 1) * scale" y px py] Cons.prems(3)
      by (auto simp: kGlyphW_def)
    moreover have "cursor + 6 * scale * int k = cursor" by (simp add: 0)
    ultimately show ?thesis using 0 by (simp only: text_lit.simps nth_Cons_0 simp_thms)
  next
    case (Suc k')
    have "0 \<le> 6 * scale * int k'" using assms(1) by simp
    moreover have "6 * scale * int k = 6 * scale + 6 * scale * int k'" by (simp add: Suc distrib_left)
    ultimately have "cursor + 5 * scale \<le> px" using Cons.prems(2) assms(1) by linarith
    then have "\<not> glyph_lit glyph cursor y scale px py" for glyph
      using glyph_lit_right[OF assms(1), of glyph cursor y px py] by auto
    moreover have "text_lit chars (cursor + 6 * scale) y scale px py \<longleftrightarrow>
        (case findGlyph (chars ! k') of None \<Rightarrow> False
         | Some glyph \<Rightarrow> glyph_lit glyph (cursor + 6 * scale + 6 * scale * int k') y scale px py)"
      by (rule Cons.IH) (use Cons.prems in \<open>simp_all add: Suc algebra_simps\<close>)
    ultimately show ?thesis
      by (simp add: Suc kGlyphW_def algebra_simps split: option.splits)
  qed
qed simp

lemma glyph_lit_dot:
  assumes "0 < scale" and "col < 5" and "row < 7"
  shows "glyph_lit glyph cursor y scale (cursor + int col * scale) (y + int row * scale) \<longleftrightarrow> bit (glyph ! col) row"
proof -
  have "i = j" if "int i * scale \<le> int j * scale" "int j * scale < int i * scale + scale" for i j :: nat
  proof -
    have "int i \<le> int j" using that(1) assms(1) by simp
    moreover have "int j * scale < (int i + 1) * scale" using that(2) by (simp add: distrib_right)
    then have "int j < int i + 1" using assms(1) by (simp only: mult_less_cancel_right)
    ultimately show ?thesis by simp
  qed
  then have same: "i = j" if "y + int i * scale \<le> y + int j * scale" "y + int j * scale < y + int i * scale + scale"
    for i j :: nat and y using that by (simp only: add_le_cancel_left add.assoc add_less_cancel_left)
  show ?thesis
  proof
    assume "glyph_lit glyph cursor y scale (cursor + int col * scale) (y + int row * scale)"
    then obtain c r where "bit (glyph ! c) r" "c = col" "r = row"
      unfolding glyph_lit_def using same by blast
    then show "bit (glyph ! col) row" by simp
  next
    assume "bit (glyph ! col) row"
    then show "glyph_lit glyph cursor y scale (cursor + int col * scale) (y + int row * scale)"
      unfolding glyph_lit_def kGlyphW_def kGlyphH_def using assms
      by (intro bexI[of _ col] bexI[of _ row]) simp_all
  qed
qed


subsection \<open>The counter tells frames apart\<close>

definition counter_number :: "u64 \<Rightarrow> nat" where
  "counter_number frameIndex = unat (frameIndex mod 1000000)"

definition counter_digit :: "nat \<Rightarrow> nat \<Rightarrow> nat" where
  "counter_digit n k = n div 10 ^ (5 - k) mod 10"

lemma counter_text:
  "formatCounter 32 frameIndex =
     ''FRAME '' @ map (\<lambda>k. ''0123456789'' ! counter_digit (counter_number frameIndex) k) [0..<6]"
  by (simp add: formatCounter_def counter_digits.simps counter_number_def counter_digit_def upt_conv_Cons)

lemma counter_number_lt: "counter_number frameIndex < 1000000"
proof -
  have "counter_number frameIndex = unat frameIndex mod 1000000" by (simp add: counter_number_def unat_mod)
  then show ?thesis by simp
qed

lemma counter_digits_determine:
  assumes "n < 1000000" and "m < 1000000" and "n \<noteq> m"
  obtains k where "k < 6" and "counter_digit n k \<noteq> counter_digit m k"
proof -
  have number: "(((((counter_digit n 0 * 10 + counter_digit n 1) * 10 + counter_digit n 2) * 10 + counter_digit n 3) * 10
      + counter_digit n 4) * 10 + counter_digit n 5) = n" if "n < 1000000" for n
  proof -
    have step: "n div 10 ^ Suc k * 10 + n div 10 ^ k mod 10 = n div 10 ^ k" for k
      by (simp only: power_Suc2 div_mult2_eq) simp
    have "counter_digit n 0 = n div 10 ^ 5" using that by (simp add: counter_digit_def)
    then show ?thesis
      using step[of 4] step[of 3] step[of 2] step[of 1] step[of 0] by (simp add: counter_digit_def)
  qed
  have "\<exists>k < 6. counter_digit n k \<noteq> counter_digit m k"
  proof (rule ccontr)
    assume "\<not> ?thesis"
    then have "counter_digit n k = counter_digit m k" if "k < 6" for k using that by blast
    then show False using number[OF assms(1)] number[OF assms(2)] assms(3) by simp
  qed
  then show ?thesis using that by blast
qed

text \<open>Any two digits differ in a dot.\<close>

definition digit_glyph :: "nat \<Rightarrow> bytes" where
  "digit_glyph d = the (findGlyph (''0123456789'' ! d))"

lemma digit_findGlyph: "d < 10 \<Longrightarrow> findGlyph (''0123456789'' ! d) = Some (digit_glyph d)"
proof -
  have "list_all (\<lambda>d. findGlyph (''0123456789'' ! d) \<noteq> None) [0..<10]" by code_simp
  then show "d < 10 \<Longrightarrow> ?thesis" by (auto simp: list_all_iff digit_glyph_def)
qed

lemma digit_glyphs_differ:
  assumes "d < 10" and "e < 10" and "d \<noteq> e"
  obtains col row where "col < 5" and "row < 7" and "bit (digit_glyph d ! col) row \<noteq> bit (digit_glyph e ! col) row"
proof -
  have "list_all (\<lambda>d. list_all (\<lambda>e. d = e \<or>
      list_ex (\<lambda>col. list_ex (\<lambda>row. bit (digit_glyph d ! col) row \<noteq> bit (digit_glyph e ! col) row) [0..<7]) [0..<5])
      [0..<10]) [0..<10]"
    by code_simp
  then have "\<exists>col \<in> {0..<5}. \<exists>row \<in> {0..<7}. bit (digit_glyph d ! col) row \<noteq> bit (digit_glyph e ! col) row"
    unfolding list_all_iff list_ex_iff set_upt using assms by (metis atLeastLessThan_iff le0)
  then show ?thesis using that by (metis atLeastLessThan_iff)
qed

lemma regions_of:
  assumes "valid_layout L" and "84 \<le> nl_height L"
  shows "pr_staticTop (patternRegions L) = 0"
    and "pr_movingTop (patternRegions L) = pr_staticHeight (patternRegions L)"
    and "even (pr_staticHeight (patternRegions L))" and "0 < pr_staticHeight (patternRegions L)"
    and "pr_staticHeight (patternRegions L) + pr_movingHeight (patternRegions L) = nl_height L"
    and "28 \<le> pr_movingHeight (patternRegions L)"
    and "720 \<le> nl_height L \<Longrightarrow> 239 \<le> pr_movingHeight (patternRegions L)"
proof -
  obtain h where h: "nl_height L = 2 * h" "42 \<le> h" using assms by (auto simp: valid_layout_def elim: evenE)
  let ?q = "4 * h div 3 + 1"
  have fits: "\<not> ?q - ?q mod 2 \<ge> 2 * h" using h(2) by presburger
  have sdiv: "2 * h * 2 sdiv 3 = 4 * h div 3" using h(2) by (simp add: sdiv_nonneg)
  have regions: "patternRegions L = \<lparr>pr_staticTop = 0, pr_staticHeight = ?q - ?q mod 2, pr_movingTop = ?q - ?q mod 2,
      pr_movingHeight = 2 * h - (?q - ?q mod 2)\<rparr>"
    using h(2) unfolding patternRegions_def h(1) Let_def sdiv if_not_P[OF fits] by simp
  have static: "pr_staticHeight (patternRegions L) = ?q - ?q mod 2"
    and moving: "pr_movingHeight (patternRegions L) = nl_height L - pr_staticHeight (patternRegions L)"
    unfolding regions h(1) by simp_all
  show "pr_staticTop (patternRegions L) = 0"
    "pr_movingTop (patternRegions L) = pr_staticHeight (patternRegions L)"
    unfolding regions by simp_all
  show "pr_staticHeight (patternRegions L) + pr_movingHeight (patternRegions L) = nl_height L"
    unfolding moving by simp
  show "even (pr_staticHeight (patternRegions L))" unfolding static by presburger
  show "0 < pr_staticHeight (patternRegions L)" unfolding static using h by presburger
  show "28 \<le> pr_movingHeight (patternRegions L)"
    unfolding moving static h(1) using h(2) by presburger
  show "239 \<le> pr_movingHeight (patternRegions L)" if "720 \<le> nl_height L"
    unfolding moving static h(1) using that h(1) by presburger
qed


subsection \<open>The two regions\<close>

text \<open>The bytes of the static region: its rows in the first plane, and half as many in the second.\<close>

definition in_static :: "nv12_layout \<Rightarrow> nat \<Rightarrow> bool" where
  "in_static L i \<longleftrightarrow>
     (let rows = nat (pr_staticHeight (patternRegions L)); stride = nat (nl_stride L)
      in i < rows * stride \<or> (nl_uvOffset L \<le> i \<and> i < nl_uvOffset L + rows div 2 * stride))"

lemma static_outside_band:
  assumes "valid_layout L" and "84 \<le> nl_height L" and "in_static L i"
  shows "i < nl_totalSize L" and "i \<notin> band L (nat (pr_staticHeight (patternRegions L)))"
proof -
  let ?s = "nat (pr_staticHeight (patternRegions L))" and ?stride = "nat (nl_stride L)"
  have s: "?s \<le> nat (nl_height L)" using regions_of(5,6)[OF assms(1,2)] by linarith
  then have "?s * ?stride \<le> nat (nl_height L) * ?stride" "?s div 2 * ?stride \<le> nat (nl_height L div 2) * ?stride"
    by (auto intro!: mult_le_mono1 simp: nat_div_distrib div_le_mono)
  then have rows: "?s * ?stride \<le> nl_uvOffset L" "nl_uvOffset L + ?s div 2 * ?stride \<le> nl_totalSize L"
    using total_size[OF assms(1)] assms(1) by (simp_all only: valid_layout_def mult.commute add_le_cancel_left)
  have "i < ?s * ?stride \<or> nl_uvOffset L \<le> i \<and> i < nl_uvOffset L + ?s div 2 * ?stride"
    using assms(3) by (simp only: in_static_def Let_def)
  then show "i < nl_totalSize L" "i \<notin> band L ?s"
    using rows assms(1) unfolding band_def valid_layout_def atLeastLessThan_iff Un_iff by linarith+
qed

lemma render_parts:
  assumes "renderPattern dst L frameIndex style = Some out" and "length dst = nl_totalSize L" and "nl_totalSize L \<noteq> 0"
    and "valid_layout L"
  obtains base where "renderStatic L style (replicate (nl_totalSize L) 0) = Some base"
    and "length base = nl_totalSize L" and "renderMoving L frameIndex style base = Some out"
proof -
  have "memset_buf dst 0 0 (nl_totalSize L) = Some (replicate (nl_totalSize L) 0)"
    using assms(2) by (simp add: memset_buf_def)
  then obtain base where base: "renderStatic L style (replicate (nl_totalSize L) 0) = Some base"
    "renderMoving L frameIndex style base = Some out"
    using assms(1,3) by (auto simp: renderPattern_def split: option.splits)
  then have "length base = nl_totalSize L"
    using Static_changes[OF assms(4), of "replicate (nl_totalSize L) 0" style] by (simp add: changes_def)
  then show ?thesis using base by (intro that)
qed

lemma half_scale: "(7 * (if nl_height L \<ge> 720 then 5 else 2)) sdiv 2 = (if nl_height L \<ge> 720 then 17 else (7 :: int))"
  by (simp add: sdiv_nonneg)

lemma moving_luma:
  assumes L: "valid_layout L" and height: "84 \<le> nl_height L" and dst: "length dst = nl_totalSize L"
    and out: "renderMoving L frameIndex style dst = Some out"
    and pixel: "px < nat (nl_width L)" "py < nat (nl_height L)" and moving: "pr_movingTop (patternRegions L) \<le> int py"
  shows "out ! (py * nat (nl_stride L) + px) = 180 \<longleftrightarrow>
    (let scale = (if nl_height L \<ge> 720 then 5 else 2)
     in text_lit (formatCounter 32 frameIndex) ((nl_width L - textWidth (formatCounter 32 frameIndex) scale) sdiv 2)
          (pr_movingTop (patternRegions L) + pr_movingHeight (patternRegions L) sdiv 4 - 7 * scale sdiv 2) scale
          (int px) (int py))"
proof -
  let ?r = "patternRegions L" and ?o = "py * nat (nl_stride L) + px" and ?s = "if nl_height L \<ge> 720 then 5 else (2 :: int)"
  let ?sweep = "if style = Placeholder then kCyan else kMagenta"
  let ?x = "(nl_width L - textWidth (formatCounter 32 frameIndex) ?s) sdiv 2"
  let ?y = "pr_movingTop ?r + pr_movingHeight ?r sdiv 4 - 7 * ?s sdiv 2"
  obtain d1 d2 where d: "nv12FillRect dst L 0 (pr_movingTop ?r) (nl_width L) (pr_movingHeight ?r) kBlack = Some d1"
    "nv12FillRect d1 L (sweepPhase L frameIndex) (pr_movingTop ?r + pr_movingHeight ?r sdiv 2) (nl_width L sdiv 24)
       (pr_movingHeight ?r sdiv 2) ?sweep = Some d2"
    "drawText L ?x ?y ?s (formatCounter 32 frameIndex) kWhite d2 = Some out"
    using out unfolding renderMoving_def Let_def kGlyphH_def of_nat_numeral by (auto split: option.splits)
  have len: "length d1 = length dst" "length d2 = length d1"
    using FillRect_changes[OF L, of dst 0 "pr_movingTop ?r" 0 "nl_width L" "pr_movingHeight ?r" kBlack]
      FillRect_changes[OF L, of d1 0 "pr_movingTop ?r + pr_movingHeight ?r sdiv 2" "sweepPhase L frameIndex"
        "nl_width L sdiv 24" "pr_movingHeight ?r sdiv 2" ?sweep] dst
    by (auto simp: d(1,2) changes_def)
  have "d1 ! ?o = 16"
    using FillRect_luma[OF L _ pixel d(1)] dst moving pixel regions_of(2,5)[OF L height]
    by (simp add: kBlack_def) linarith
  then have "d2 ! ?o \<noteq> 180"
    using FillRect_luma[OF L _ pixel d(2)] dst len by (auto simp: kCyan_def kMagenta_def)
  moreover have "out ! ?o = (if text_lit (formatCounter 32 frameIndex) ?x ?y ?s (int px) (int py)
      then yuv_y kWhite else d2 ! ?o)"
    by (rule Text_luma[OF L pixel _ _ d(3)]) (use dst len in auto)
  ultimately show ?thesis unfolding Let_def by (simp add: kWhite_def)
qed

lemma static_kept:
  assumes L: "valid_layout L" and height: "84 \<le> nl_height L" and dst: "length dst = nl_totalSize L"
    and out: "renderMoving L frameIndex style dst = Some out" and i: "in_static L i"
  shows "out ! i = dst ! i"
proof -
  have "7 * (if nl_height L \<ge> 720 then 5 else 2) sdiv 2 \<le> pr_movingHeight (patternRegions L) sdiv 4"
    using regions_of(6,7)[OF L height] by (auto simp: half_scale sdiv_nonneg)
  then have "changes (band L (nat (pr_staticHeight (patternRegions L)))) dst (renderMoving L frameIndex style dst)"
    by (intro Moving_changes[OF L]) (use regions_of[OF L height] dst in auto)
  then show ?thesis using static_outside_band[OF L height i] dst by (intro changes_keeps) (simp_all add: out)
qed

lemma digit_text:
  assumes "k < 6"
  shows "formatCounter 32 frameIndex ! (6 + k) = ''0123456789'' ! counter_digit (counter_number frameIndex) k"
    and "length (formatCounter 32 frameIndex) = 12"
  using assms by (simp_all add: counter_text nth_append)

lemma counters_differ:
  assumes L: "valid_layout L" and height: "84 \<le> nl_height L"
    and width: "(if 720 \<le> nl_height L then 355 else 142) \<le> nl_width L"
    and numbers: "counter_number i \<noteq> counter_number j"
  obtains px py where "px < nat (nl_width L)" and "py < nat (nl_height L)"
    and "pr_movingTop (patternRegions L) \<le> int py"
    and "let scale = (if nl_height L \<ge> 720 then 5 else 2);
             y = pr_movingTop (patternRegions L) + pr_movingHeight (patternRegions L) sdiv 4 - 7 * scale sdiv 2
         in text_lit (formatCounter 32 i) ((nl_width L - textWidth (formatCounter 32 i) scale) sdiv 2) y scale (int px) (int py)
           \<noteq> text_lit (formatCounter 32 j) ((nl_width L - textWidth (formatCounter 32 j) scale) sdiv 2) y scale (int px) (int py)"
proof -
  let ?r = "patternRegions L"
  define scale where "scale = (if nl_height L \<ge> 720 then 5 else (2 :: int))"
  define x where "x = (nl_width L - 71 * scale) sdiv 2"
  define y where "y = pr_movingTop ?r + pr_movingHeight ?r sdiv 4 - 7 * scale sdiv 2"
  have scale: "0 < scale" by (simp add: scale_def)
  obtain k where k: "k < 6" "counter_digit (counter_number i) k \<noteq> counter_digit (counter_number j) k"
    using counter_digits_determine[OF counter_number_lt counter_number_lt numbers] .
  obtain col row where dot: "col < 5" "row < 7"
    "bit (digit_glyph (counter_digit (counter_number i) k) ! col) row \<noteq>
     bit (digit_glyph (counter_digit (counter_number j) k) ! col) row"
    by (rule digit_glyphs_differ[OF _ _ k(2)]) (simp_all add: counter_digit_def)
  define px where "px = x + 6 * scale * int (6 + k) + int col * scale"
  define py where "py = y + int row * scale"
  have lit: "text_lit (formatCounter 32 f) x y scale px py \<longleftrightarrow>
      bit (digit_glyph (counter_digit (counter_number f) k) ! col) row" for f
  proof -
    have "0 \<le> int col * scale" "int col * scale \<le> 4 * scale" using dot(1) scale by auto
    then have "text_lit (formatCounter 32 f) x y scale px py \<longleftrightarrow>
        (case findGlyph (formatCounter 32 f ! (6 + k)) of None \<Rightarrow> False
         | Some glyph \<Rightarrow> glyph_lit glyph (x + 6 * scale * int (6 + k)) y scale px py)"
      by (intro text_lit_cell scale) (use k(1) scale in \<open>simp_all add: px_def digit_text algebra_simps\<close>)
    also have "findGlyph (formatCounter 32 f ! (6 + k)) = Some (digit_glyph (counter_digit (counter_number f) k))"
      unfolding digit_text(1)[OF k(1)] by (rule digit_findGlyph) (simp add: counter_digit_def)
    finally show ?thesis
      using glyph_lit_dot[OF scale dot(1,2), of _ "x + 6 * scale * int (6 + k)" y] by (simp add: px_def py_def)
  qed
  have x: "0 \<le> x" "x + 71 * scale \<le> nl_width L"
    using width scale_def by (auto simp: x_def sdiv_nonneg split: if_splits)
  have "(6 * int (6 + k) + int col) * scale < 71 * scale" using k(1) dot(1) scale by (intro mult_strict_right_mono) auto
  moreover have "0 \<le> 6 * scale * int (6 + k)" "0 \<le> int col * scale" using scale by simp_all
  ultimately have px: "0 \<le> px" "px < nl_width L" using x by (simp_all add: px_def algebra_simps)
  have y: "pr_movingTop ?r \<le> y" "y + 7 * scale \<le> nl_height L"
    using regions_of[OF L height] by (auto simp: y_def scale_def sdiv_nonneg split: if_splits)
  have "int row * scale < 7 * scale" "0 \<le> int row * scale" using dot(2) scale by auto
  then have py: "pr_movingTop ?r \<le> py" "py < nl_height L" using y by (simp_all add: py_def)
  have top: "0 \<le> pr_movingTop ?r" using regions_of(2,4)[OF L height] by simp
  have "textWidth (formatCounter 32 f) scale = 71 * scale" for f
    by (simp add: textWidth_def digit_text(2)[of 0] kGlyphW_def)
  then show ?thesis
    using lit dot(3) px py top
    by (intro that[of "nat px" "nat py"]) (auto simp: Let_def simp flip: scale_def y_def x_def)
qed

lemma layout_dimensions:
  "0 < width \<Longrightarrow> 0 < height \<Longrightarrow> nl_width (nv12Layout width height stride) = width - width mod 2 \<and>
     nl_height (nv12Layout width height stride) = height - height mod 2"
  by (simp add: nv12Layout_def Let_def)

lemma counter_number_eq: "counter_number i = counter_number j \<longleftrightarrow> i mod 1000000 = j mod 1000000"
  by (simp only: counter_number_def unsigned_word_eqI word_unat_eq_iff)

text \<open>
  The two guarantees of the pattern.  In a picture of at least 84 rows in which the counter fits,
  two frames of a style agree in every byte of the static region, padding included, whatever their
  numbers, and two frames whose numbers differ modulo a million differ in a pixel of the moving
  region.
\<close>

theorem pattern_regions_hold:
  fixes width height stride :: int
  defines "L \<equiv> nv12Layout width height stride"
  assumes "width \<le> stride" and "84 \<le> height" and "(if 720 \<le> height then 356 else 142) \<le> width"
    and "length dst = nl_totalSize L" and "length dst' = nl_totalSize L"
    and "renderPattern dst L i style = Some A" and "renderPattern dst' L j style = Some B"
  shows "(\<forall>n. in_static L n \<longrightarrow> A ! n = B ! n) \<and>
    (i mod 1000000 \<noteq> j mod 1000000 \<longrightarrow>
       (\<exists>px py. px < nat (nl_width L) \<and> pr_movingTop (patternRegions L) \<le> int py \<and> py < nat (nl_height L) \<and>
          A ! (py * nat (nl_stride L) + px) \<noteq> B ! (py * nat (nl_stride L) + px)))"
proof -
  have L: "valid_layout L" unfolding L_def by (rule layout_valid[OF assms(2)])
  have "nl_width L = width - width mod 2 \<and> nl_height L = height - height mod 2"
    unfolding L_def using assms(3,4) by (intro layout_dimensions) (auto split: if_splits)
  then have size: "nl_width L = width - width mod 2" "nl_height L = height - height mod 2" by simp_all
  have height: "84 \<le> nl_height L" unfolding size using assms(3) by presburger
  have width: "(if 720 \<le> nl_height L then 355 else 142) \<le> nl_width L"
  proof (cases "720 \<le> height")
    case True
    then show ?thesis unfolding size using assms(4) by simp presburger
  next
    case False
    then have "\<not> 720 \<le> height - height mod 2" by presburger
    then show ?thesis unfolding size using assms(4) False by simp presburger
  qed
  have "0 < nl_width L" using width by presburger
  then have "0 < nl_stride L" using L unfolding valid_layout_def by linarith
  then have "nl_uvOffset L \<noteq> 0" using L height by (simp add: valid_layout_def)
  then have total: "nl_totalSize L \<noteq> 0" using L by (simp add: valid_layout_def)
  obtain base where base: "renderStatic L style (replicate (nl_totalSize L) 0) = Some base"
    "length base = nl_totalSize L" "renderMoving L i style base = Some A"
    using render_parts[OF assms(7,5) total L] .
  obtain base' where base': "renderStatic L style (replicate (nl_totalSize L) 0) = Some base'"
    "renderMoving L j style base' = Some B"
    using render_parts[OF assms(8,6) total L] .
  have "base' = base" using base(1) base'(1) by simp
  note movingB = base'(2)[unfolded this]
  have "\<forall>n. in_static L n \<longrightarrow> A ! n = B ! n"
    using static_kept[OF L height base(2,3)] static_kept[OF L height base(2) movingB] by simp
  moreover have "\<exists>px py. px < nat (nl_width L) \<and> pr_movingTop (patternRegions L) \<le> int py \<and> py < nat (nl_height L) \<and>
      A ! (py * nat (nl_stride L) + px) \<noteq> B ! (py * nat (nl_stride L) + px)"
    if numbers: "i mod 1000000 \<noteq> j mod 1000000"
  proof -
    obtain px py where pixel: "px < nat (nl_width L)" "py < nat (nl_height L)" "pr_movingTop (patternRegions L) \<le> int py"
      and differ: "let scale = (if nl_height L \<ge> 720 then 5 else 2);
             y = pr_movingTop (patternRegions L) + pr_movingHeight (patternRegions L) sdiv 4 - 7 * scale sdiv 2
         in text_lit (formatCounter 32 i) ((nl_width L - textWidth (formatCounter 32 i) scale) sdiv 2) y scale (int px) (int py)
           \<noteq> text_lit (formatCounter 32 j) ((nl_width L - textWidth (formatCounter 32 j) scale) sdiv 2) y scale (int px) (int py)"
      by (rule counters_differ[OF L height width numbers[folded counter_number_eq]])
    have "(A ! (py * nat (nl_stride L) + px) = 180) \<noteq> (B ! (py * nat (nl_stride L) + px) = 180)"
      using differ moving_luma[OF L height base(2,3) pixel] moving_luma[OF L height base(2) movingB pixel]
      by (simp add: Let_def)
    then show ?thesis using pixel by (intro exI[of _ px] exI[of _ py]) auto
  qed
  ultimately show ?thesis by (intro conjI impI)
qed

text \<open>The hypotheses are met at the smallest format the virtual camera offers.\<close>

lemma camera_layout: "0 < nl_totalSize (nv12Layout 640 480 640)"
  by (simp add: nv12Layout_def)

theorem pattern_regions_hold_witness:
  "\<exists>A B. renderPattern (replicate (nl_totalSize (nv12Layout 640 480 640)) 1) (nv12Layout 640 480 640) 7 Placeholder = Some A \<and>
    renderPattern (replicate (nl_totalSize (nv12Layout 640 480 640)) 2) (nv12Layout 640 480 640) 8 Placeholder = Some B \<and>
    (\<exists>px py. A ! (py * nat (nl_stride (nv12Layout 640 480 640)) + px) \<noteq>
       B ! (py * nat (nl_stride (nv12Layout 640 480 640)) + px))"
proof -
  let ?L = "nv12Layout 640 480 640"
  let ?dst = "\<lambda>v :: u8. replicate (nl_totalSize ?L) v"
  obtain A where A: "renderPattern (?dst 1) ?L 7 Placeholder = Some A"
    using render_inside[of 640 640 480 "?dst 1" 7 Placeholder] by (auto simp: changes_def)
  obtain B where B: "renderPattern (?dst 2) ?L 8 Placeholder = Some B"
    using render_inside[of 640 640 480 "?dst 2" 8 Placeholder] by (auto simp: changes_def)
  show ?thesis
    using pattern_regions_hold[OF _ _ _ _ _ A B] A B by auto
qed

end
