(* ===== verification/FrameSource.thy ===== *)
theory FrameSource
  imports RingSeqlock Picture
begin

text \<open>
  The frames of the virtual camera, \<open>windows/vcam/frame_source.cpp\<close>: a frame of the ring when there is
  a fresh one of the right size, and the placeholder otherwise.  The ring is read while its producer runs:
  \<open>seen\<close> is what the shared memory holds at each access of the read, which may be anything, since any
  process of the user can write it.
\<close>

definition kStaleAfterMillis :: u64 where "kStaleAfterMillis = 250"

record frame_source =
  fs_ring :: frame_ring
  fs_ringReady :: bool
  fs_lastWasLive :: bool
  fs_everLogged :: bool
  fs_mismatchLogged :: bool
  fs_requestedWidth :: int
  fs_requestedHeight :: int

definition new_frame_source :: frame_source where
  "new_frame_source = \<lparr>fs_ring = new_ring, fs_ringReady = False, fs_lastWasLive = False, fs_everLogged = False,
     fs_mismatchLogged = False, fs_requestedWidth = 0, fs_requestedHeight = 0\<rparr>"

definition source_start :: "ring_env \<Rightarrow> frame_source \<times> ring_header \<Rightarrow> frame_source \<times> ring_header" where
  "source_start env =
     (\<lambda>(fs, h). case ring_create env (fs_ring fs, h) of
        (hr, r, h) \<Rightarrow>
          (fs\<lparr>fs_requestedWidth := 0, fs_requestedHeight := 0, fs_ring := r, fs_ringReady := \<not> FAILED hr\<rparr>, h))"

definition source_stop :: "ring_env \<Rightarrow> frame_source \<times> ring_header \<Rightarrow> frame_source \<times> ring_header" where
  "source_stop env =
     (\<lambda>(fs, h). case ring_close env (fs_ring fs, h) of
        (r, h) \<Rightarrow>
          (fs\<lparr>fs_ring := r, fs_ringReady := False, fs_requestedWidth := 0, fs_requestedHeight := 0,
              fs_lastWasLive := False, fs_everLogged := False, fs_mismatchLogged := False\<rparr>, h))"

text \<open>The first part of \<open>fill\<close>: the size this consumer picked, for the producer to see.\<close>

definition publishGeometry :: "nv12_layout \<Rightarrow> frame_source \<times> ring_header \<Rightarrow> frame_source \<times> ring_header" where
  "publishGeometry layout =
     (\<lambda>(fs, h).
        if fs_ringReady fs \<and> (nl_width layout \<noteq> fs_requestedWidth fs \<or> nl_height layout \<noteq> fs_requestedHeight fs)
        then (case requestGeometry (word_of_int (nl_width layout)) (word_of_int (nl_height layout)) kFourccNv12
                     (fs_ring fs) h of
                (hr, h) \<Rightarrow>
                  if \<not> FAILED hr
                  then (fs\<lparr>fs_requestedWidth := nl_width layout, fs_requestedHeight := nl_height layout\<rparr>, h)
                  else (fs, h))
        else (fs, h))"

text \<open>
  \<open>memcpy\<close> out of the scratch buffer, of \<open>cap\<close> bytes: \<^const>\<open>None\<close> also for a read outside it.  Then the rest of
  the row of the destination is padded.
\<close>

definition memcpy_buf :: "nat \<Rightarrow> bytes \<Rightarrow> nat \<Rightarrow> (nat \<Rightarrow> u8) \<Rightarrow> nat \<Rightarrow> nat \<Rightarrow> bytes option" where
  "memcpy_buf cap dst offset src from n =
     (if from + n \<le> cap \<and> offset + n \<le> length dst
      then Some (take offset dst @ map (\<lambda>i. src (from + i)) [0..<n] @ drop (offset + n) dst) else None)"

definition copyRow ::
  "nat \<Rightarrow> nat \<Rightarrow> (nat \<Rightarrow> u8) \<Rightarrow> nat \<Rightarrow> nat \<Rightarrow> nat \<Rightarrow> u8 \<Rightarrow> bytes \<Rightarrow> bytes option" where
  "copyRow cap offset src from copyBytes stride pad dst =
     (case memcpy_buf cap dst offset src from copyBytes of
        None \<Rightarrow> None
      | Some dst \<Rightarrow> if copyBytes < stride then memset_buf dst (offset + copyBytes) pad (stride - copyBytes) else Some dst)"

definition copyFrame :: "(nat \<Rightarrow> u8) \<Rightarrow> frame_info \<Rightarrow> nv12_layout \<Rightarrow> bytes \<Rightarrow> bytes option" where
  "copyFrame scratch info layout dst =
     (let src = nv12Layout (sint (fi_width info)) (sint (fi_height info)) (sint (fi_stride info));
          copyBytes = nat (min (nl_stride src) (nl_stride layout));
          stride = nat (nl_stride layout)
      in case each (\<lambda>row. copyRow (unat kRingSlotBytes) (row * stride) scratch (row * nat (nl_stride src)) copyBytes
                      stride 16) [0..<nat (nl_height layout)] dst of
           None \<Rightarrow> None
         | Some dst \<Rightarrow>
             each (\<lambda>row. copyRow (unat kRingSlotBytes) (nl_uvOffset layout + row * stride) scratch
                      (nl_uvOffset src + row * nat (nl_stride src)) copyBytes stride 128)
               [0..<nat (nl_height layout sdiv 2)] dst)"

text \<open>The run of \<open>readLatest\<close> over what it sees.\<close>

definition read_run :: "frame_ring \<Rightarrow> (nat \<Rightarrow> u8) \<Rightarrow> ring_header list \<Rightarrow> reader" where
  "read_run ring scratch seen =
     foldl (\<lambda>r h. reader_step h r) (readLatest ring (Some scratch) kRingSlotBytes default_frame_info) seen"

text \<open>
  \<open>fill\<close>: the clock and its frequency, what the read of the ring sees, the scratch buffer before the
  call, and then the state, the buffer, its layout and the number of the frame.  It returns whether
  the frame is live, with the buffer.
\<close>

definition source_fill ::
  "u64 \<Rightarrow> u64 \<Rightarrow> ring_header list \<Rightarrow> (nat \<Rightarrow> u8) \<Rightarrow> frame_source \<times> ring_header \<Rightarrow> bytes \<Rightarrow> nv12_layout \<Rightarrow> u64 \<Rightarrow>
     (bool \<times> bytes) option \<times> frame_source \<times> ring_header" where
  "source_fill now freq seen scratch s dst layout frameIndex =
     (let (fs, h) = publishGeometry layout s;
          reads = (fs_ringReady fs \<and> millisSinceLastWrite now freq (fs_ring fs) h \<le> kStaleAfterMillis);
          reader = read_run (fs_ring fs) scratch seen;
          fs = (if reads then fs\<lparr>fs_ring := rd_ring reader\<rparr> else fs);
          info = rd_info reader;
          hasFrame = (reads \<and> rd_pc reader = RDone S_OK);
          matches = (fi_width info = word_of_int (nl_width layout) \<and> fi_height info = word_of_int (nl_height layout) \<and>
                     fi_format info = kFourccNv12);
          live = (hasFrame \<and> matches);
          fs = (if hasFrame then fs\<lparr>fs_mismatchLogged := \<not> matches\<rparr> else fs);
          out = (if live then copyFrame (the (rd_dst reader)) info layout dst
                 else renderPattern dst layout frameIndex Placeholder);
          fs = (if \<not> fs_everLogged fs \<or> live \<noteq> fs_lastWasLive fs
                then fs\<lparr>fs_lastWasLive := live, fs_everLogged := True\<rparr> else fs)
      in (map_option (Pair live) out, fs, h))"

subsection \<open>What the reader hands over\<close>

definition reader_sane :: "reader \<Rightarrow> bool" where
  "reader_sane r \<longleftrightarrow> rd_dst r \<noteq> None \<and>
     ((\<exists>k. rd_pc r = RCopy k) \<or> rd_pc r = RAfter \<longrightarrow> geometryIsSane (rd_candidate r)) \<and>
     (rd_pc r = RDone S_OK \<longrightarrow> geometryIsSane (rd_info r))"

lemma reader_step_sane: "reader_sane r \<Longrightarrow> reader_sane (reader_step h r)"
  by (cases "rd_pc r")
    (auto simp: reader_step_def reader_sane_def reader_retry_def reader_check_def Let_def)

lemma read_run_sane: "rd_pc (read_run ring scratch seen) = RDone S_OK \<Longrightarrow> geometryIsSane (rd_info (read_run ring scratch seen))"
proof -
  have "reader_sane (foldl (\<lambda>r h. reader_step h r) r seen)" if "reader_sane r" for r
    using that by (induction seen arbitrary: r) (simp_all add: reader_step_sane)
  moreover have "reader_sane (readLatest ring (Some scratch) kRingSlotBytes default_frame_info)"
    by (simp add: reader_sane_def readLatest_def)
  ultimately have "reader_sane (read_run ring scratch seen)" by (simp add: read_run_def)
  then show "rd_pc (read_run ring scratch seen) = RDone S_OK \<Longrightarrow> ?thesis" by (simp add: reader_sane_def)
qed

lemma sint_small: "unat (x :: u32) < 2 ^ 31 \<Longrightarrow> sint x = int (unat x)"
proof -
  assume small: "unat x < 2 ^ 31"
  have "uint x = int (unat x)" by simp
  moreover from small have "int (unat x) < int (2 ^ 31)" by (simp only: of_nat_less_iff)
  ultimately have "uint x < 2 ^ 31" by simp
  then have "signed_take_bit 31 (uint x) = uint x" 
    by (intro signed_take_bit_int_eq_self) (simp_all add: order_trans[OF _ uint_ge_0])
  then show ?thesis by (simp add: sint_uint)
qed

subsection \<open>Copying a frame\<close>

lemma each_append: "each body (is @ js) s = (case each body is s of None \<Rightarrow> None | Some s' \<Rightarrow> each body js s')"
  by (induction "is" arbitrary: s) (simp_all split: option.split)

lemma memcpy_nth:
  assumes "memcpy_buf cap dst offset src from n = Some dst'"
  shows "length dst' = length dst \<and> (\<forall>i < length dst.
    dst' ! i = (if offset \<le> i \<and> i < offset + n then src (from + (i - offset)) else dst ! i))"
  using assms by (auto simp: memcpy_buf_def nth_append split: if_splits)

lemma copyRow_copies:
  assumes "from + n \<le> cap" and "offset + stride \<le> length dst" and "n \<le> stride"
  obtains dst' where "copyRow cap offset src from n stride pad dst = Some dst'" and "length dst' = length dst"
    and "\<And>i. i < length dst \<Longrightarrow> dst' ! i =
      (if offset \<le> i \<and> i < offset + stride then if i < offset + n then src (from + (i - offset)) else pad else dst ! i)"
proof -
  obtain d where d: "memcpy_buf cap dst offset src from n = Some d" using assms by (simp add: memcpy_buf_def)
  note copied = memcpy_nth[OF d]
  show ?thesis
  proof (cases "n < stride")
    case True
    have "offset + n + (stride - n) \<le> length d" using assms copied by simp
    then obtain d' where d': "memset_buf d (offset + n) pad (stride - n) = Some d'" by (simp add: memset_buf_def)
    have "length d' = length d" using d' by (auto simp: memset_buf_def split: if_splits)
    then show ?thesis
      using that[of d'] d d' True copied memset_nth(1)[OF d'] by (auto simp: copyRow_def)
  next
    case False
    then show ?thesis using that[of d] d copied assms(3) by (auto simp: copyRow_def)
  qed
qed

lemma plane_copied:
  assumes "\<forall>row < k. from + row * srcStride + n \<le> cap" and "base + k * stride \<le> length dst" and "n \<le> stride"
  shows "\<exists>dst'. each (\<lambda>row. copyRow cap (base + row * stride) src (from + row * srcStride) n stride pad) [0..<k] dst
      = Some dst' \<and> length dst' = length dst \<and>
    (\<forall>i < length dst. i < base \<or> base + k * stride \<le> i \<longrightarrow> dst' ! i = dst ! i) \<and>
    (\<forall>row < k. \<forall>col < n. dst' ! (base + row * stride + col) = src (from + row * srcStride + col))"
  using assms(1,2)
proof (induction k)
  case 0
  then show ?case by simp
next
  case (Suc k)
  let ?body = "\<lambda>row. copyRow cap (base + row * stride) src (from + row * srcStride) n stride pad"
  have "\<forall>row < k. from + row * srcStride + n \<le> cap" "base + k * stride \<le> length dst" using Suc.prems by simp_all
  then obtain d where d: "each ?body [0..<k] dst = Some d" "length d = length dst"
    "\<forall>i < length dst. i < base \<or> base + k * stride \<le> i \<longrightarrow> d ! i = dst ! i"
    "\<forall>row < k. \<forall>col < n. d ! (base + row * stride + col) = src (from + row * srcStride + col)"
    using Suc.IH by blast
  have "from + k * srcStride + n \<le> cap" "base + k * stride + stride \<le> length d" using Suc.prems d(2) by simp_all
  then obtain d' where d': "?body k d = Some d'" "length d' = length d" "\<And>i. i < length d \<Longrightarrow> d' ! i =
      (if base + k * stride \<le> i \<and> i < base + k * stride + stride
       then if i < base + k * stride + n then src (from + k * srcStride + (i - (base + k * stride))) else pad else d ! i)"
    using copyRow_copies[of "from + k * srcStride" n cap "base + k * stride" stride d src pad] assms(3) by metis
  have "each ?body [0..<Suc k] dst = Some d'" by (simp add: each_append d(1) d'(1))
  moreover have "d' ! i = dst ! i" if "i < length dst" "i < base \<or> base + Suc k * stride \<le> i" for i
    using that d(3) d'(3)[of i] by (auto simp: d(2))
  moreover have "d' ! (base + row * stride + col) = src (from + row * srcStride + col)"
    if row: "row < Suc k" and col: "col < n" for row col
  proof (cases "row = k")
    case True
    then show ?thesis using col d'(3)[of "base + k * stride + col"] Suc.prems(2) assms(3) by (simp add: d(2))
  next
    case False
    then have row: "row < k" using row by simp
    have "row * stride + col + 1 \<le> k * stride" by (rule row_fits[OF row]) (use col assms(3) in simp)
    then have "d' ! (base + row * stride + col) = d ! (base + row * stride + col)"
      using d'(3)[of "base + row * stride + col"] Suc.prems(2) by (simp add: d(2))
    then show ?thesis using d(4) row col by simp
  qed
  ultimately show ?case using d(2) d'(2) by auto
qed

text \<open>What a viewer sees of a copied frame: the pixels of both planes, row by row.\<close>

definition shows_frame :: "nv12_layout \<Rightarrow> frame_info \<Rightarrow> (nat \<Rightarrow> u8) \<Rightarrow> bytes \<Rightarrow> bool" where
  "shows_frame layout info pixels dst \<longleftrightarrow>
     (let stride = nat (nl_stride layout); from = unat (fi_stride info); uv = from * unat (fi_height info)
      in (\<forall>row col. row < nat (nl_height layout) \<longrightarrow> col < nat (nl_width layout) \<longrightarrow>
            dst ! (row * stride + col) = pixels (row * from + col)) \<and>
         (\<forall>row col. row < nat (nl_height layout div 2) \<longrightarrow> col < nat (nl_width layout) \<longrightarrow>
            dst ! (nl_uvOffset layout + row * stride + col) = pixels (uv + row * from + col)))"

lemma layout_of_nats:
  "0 < w \<Longrightarrow> 0 < h \<Longrightarrow> 0 < s \<Longrightarrow> even w \<Longrightarrow> even h \<Longrightarrow> nv12Layout (int w) (int h) (int s) =
     \<lparr>nl_width = int w, nl_height = int h, nl_stride = int s, nl_uvOffset = s * h, nl_totalSize = s * h + s * h div 2\<rparr>"
proof -
  assume pos: "0 < w" "0 < h" "0 < s" and "even w" "even h"
  then have "int w mod 2 = 0" "int h mod 2 = 0" by (metis even_of_nat even_iff_mod_2_eq_zero)+
  then show ?thesis using pos by (simp add: nv12Layout_def Let_def)
qed

lemma sane_layout:
  assumes "geometryIsSane info"
  defines "src \<equiv> nv12Layout (sint (fi_width info)) (sint (fi_height info)) (sint (fi_stride info))"
  shows "nl_width src = int (unat (fi_width info))" and "nl_height src = int (unat (fi_height info))"
    and "nl_stride src = int (unat (fi_stride info))"
    and "nl_uvOffset src = unat (fi_stride info) * unat (fi_height info)"
    and "valid_layout src" and "nl_totalSize src \<le> unat kRingSlotBytes"
    and "0 < unat (fi_width info)" and "unat (fi_width info) \<le> 3840"
    and "0 < unat (fi_height info)" and "unat (fi_height info) \<le> 2160"
    and "unat (fi_width info) \<le> unat (fi_stride info)"
proof -
  let ?w = "unat (fi_width info)" and ?h = "unat (fi_height info)" and ?s = "unat (fi_stride info)"
  have sane: "0 < ?w" "?w \<le> 3840" "0 < ?h" "?h \<le> 2160" "even ?w" "even ?h" "?w \<le> ?s"
    "?s * ?h + ?s * ?h div 2 \<le> 12441600"
    using assms(1) unfolding geometryIsSane_iff Let_def by linarith+
  have "?s * 1 \<le> ?s * ?h" by (rule mult_le_mono2) (use sane(3) in simp)
  then have "?s \<le> 12441600" using sane(8) by linarith
  then have "?s < 2 ^ 31" by simp
  then have ints: "sint (fi_width info) = int ?w" "sint (fi_height info) = int ?h" "sint (fi_stride info) = int ?s"
    using sane by (auto intro!: sint_small simp del: of_nat_unat)
  have src: "src = \<lparr>nl_width = int ?w, nl_height = int ?h, nl_stride = int ?s, nl_uvOffset = ?s * ?h,
      nl_totalSize = ?s * ?h + ?s * ?h div 2\<rparr>"
    unfolding src_def ints by (rule layout_of_nats) (use sane in linarith)+
  show "nl_width src = int ?w" "nl_height src = int ?h" "nl_stride src = int ?s" "nl_uvOffset src = ?s * ?h"
    unfolding src by simp_all
  show "valid_layout src" unfolding src_def ints by (rule layout_valid) (use sane(7) in \<open>simp only: of_nat_le_iff\<close>)
  show "nl_totalSize src \<le> unat kRingSlotBytes" unfolding src slot_bytes using sane(8) by simp
  show "0 < ?w" "?w \<le> 3840" "0 < ?h" "?h \<le> 2160" "?w \<le> ?s" using sane by simp_all
qed

lemma nat_half: "nat (int n div 2) = n div 2"
  by (simp add: nat_div_distrib)

lemma copied_frame:
  assumes L: "valid_layout L" and dst: "nl_totalSize L \<le> length dst" and sane: "geometryIsSane info"
    and width: "nl_width L = int (unat (fi_width info))" and height: "nl_height L = int (unat (fi_height info))"
  shows "\<exists>dst'. copyFrame scratch info L dst = Some dst' \<and> length dst' = length dst \<and>
    (\<forall>i < length dst. nl_totalSize L \<le> i \<longrightarrow> dst' ! i = dst ! i) \<and> shows_frame L info scratch dst'"
proof -
  let ?w = "unat (fi_width info)" and ?h = "unat (fi_height info)" and ?s = "unat (fi_stride info)"
  let ?src = "nv12Layout (sint (fi_width info)) (sint (fi_height info)) (sint (fi_stride info))"
  let ?stride = "nat (nl_stride L)" and ?n = "nat (min (nl_stride ?src) (nl_stride L))" and ?cap = "unat kRingSlotBytes"
  note src = sane_layout[OF sane]
  have "nl_width L \<le> nl_stride L" using L by (simp add: valid_layout_def)
  moreover have "?w \<le> ?s" by (rule src(11))
  ultimately have n: "?n \<le> ?stride" "?n \<le> ?s" "?w \<le> ?n" unfolding src(3) using width by linarith+
  have half: "nl_totalSize ?src = ?s * ?h + nat (nl_height ?src div 2) * ?s"
    using total_size[OF src(5)] unfolding src(2,3,4) by simp
  have h2: "nat (nl_height ?src div 2) = ?h div 2" unfolding src(2) by (rule nat_half)
  have luma: "0 + row * ?s + ?n \<le> ?cap" if "row < ?h" for row
  proof -
    have "row * ?s + 0 + ?n \<le> ?h * ?s" by (rule row_fits[OF that]) (use n in simp)
    then show ?thesis using src(6) unfolding half by (simp add: mult.commute)
  qed
  have chroma: "?s * ?h + row * ?s + ?n \<le> ?cap" if "row < ?h div 2" for row
  proof -
    have "row * ?s + 0 + ?n \<le> ?h div 2 * ?s" by (rule row_fits[OF that]) (use n in simp)
    then show ?thesis using src(6) unfolding half h2 by linarith
  qed
  have uv: "nl_uvOffset L = ?h * ?stride" using L height by (simp add: valid_layout_def mult.commute)
  have total: "nl_totalSize L = nl_uvOffset L + ?h div 2 * ?stride"
    using total_size[OF L] unfolding height nat_half .
  have "0 + ?h * ?stride \<le> length dst" using dst total uv by simp
  then obtain d where d: "each (\<lambda>row. copyRow ?cap (0 + row * ?stride) scratch (0 + row * ?s) ?n ?stride 16) [0..<?h] dst
      = Some d" "length d = length dst" "\<forall>i < length dst. i < 0 \<or> 0 + ?h * ?stride \<le> i \<longrightarrow> d ! i = dst ! i"
    "\<forall>row < ?h. \<forall>col < ?n. d ! (0 + row * ?stride + col) = scratch (0 + row * ?s + col)"
    using plane_copied[of ?h 0 ?s ?n ?cap 0 ?stride dst scratch 16] luma n(1) by blast
  have "nl_uvOffset L + ?h div 2 * ?stride \<le> length d" using dst total d(2) by simp
  then obtain d' where d': "each (\<lambda>row. copyRow ?cap (nl_uvOffset L + row * ?stride) scratch (?s * ?h + row * ?s) ?n ?stride 128)
      [0..<?h div 2] d = Some d'" "length d' = length d"
    "\<forall>i < length d. i < nl_uvOffset L \<or> nl_uvOffset L + ?h div 2 * ?stride \<le> i \<longrightarrow> d' ! i = d ! i"
    "\<forall>row < ?h div 2. \<forall>col < ?n. d' ! (nl_uvOffset L + row * ?stride + col) = scratch (?s * ?h + row * ?s + col)"
    using plane_copied[of "?h div 2" "?s * ?h" ?s ?n ?cap "nl_uvOffset L" ?stride d scratch 128] chroma n(1) by blast
  have "copyFrame scratch info L dst = Some d'"
    using d(1) d'(1) unfolding copyFrame_def Let_def src(3,4) height
    by (simp only: sdiv_nonneg of_nat_0_le_iff zero_le_numeral nat_half nat_int option.case add_0)
  moreover have "d' ! i = dst ! i" if "i < length dst" "nl_totalSize L \<le> i" for i
    using that d(2,3) d'(3) total uv by simp
  moreover have "d' ! (row * ?stride + col) = scratch (row * ?s + col)" if row: "row < ?h" and col: "col < ?w" for row col
  proof -
    have "row * ?stride + col + 1 \<le> ?h * ?stride" by (rule row_fits[OF row]) (use col n in linarith)
    then have "row * ?stride + col < nl_uvOffset L" using uv by linarith
    then have "d' ! (row * ?stride + col) = d ! (row * ?stride + col)" using d'(3) d(2) dst total by simp
    then show ?thesis using d(4) row col n(3) by simp
  qed
  moreover have "d' ! (nl_uvOffset L + row * ?stride + col) = scratch (?s * ?h + row * ?s + col)"
    if "row < ?h div 2" "col < ?w" for row col
    using d'(4) that n(3) by simp
  ultimately show ?thesis
    using d(2) d'(2) unfolding shows_frame_def Let_def height width
    by (intro exI[of _ d'] conjI allI impI) (simp_all only: nat_half nat_int)
qed

subsection \<open>The camera\<close>

lemma publish_keeps_ring: "fs_ring (fst (publishGeometry layout s)) = fs_ring (fst s)"
  by (cases s) (simp add: publishGeometry_def split: prod.splits)

lemma render_placeholder:
  assumes "width \<le> stride" and "nl_totalSize (nv12Layout width height stride) \<le> length dst"
  shows "\<exists>dst'. renderPattern dst (nv12Layout width height stride) n style = Some dst' \<and> length dst' = length dst \<and>
    (\<forall>i < length dst. nl_totalSize (nv12Layout width height stride) \<le> i \<longrightarrow> dst' ! i = dst ! i)"
  using render_inside[OF assms, of n style] by (auto simp: changes_def)

lemma word_of_int_width:
  assumes "fi_width info = word_of_int w" and "0 \<le> w" and "w < 2 ^ 31"
  shows "w = int (unat (fi_width info))"
proof -
  have "uint (fi_width info) = w" unfolding assms(1) using assms(2,3) by (simp add: uint_word_of_int)
  then show ?thesis by simp
qed

lemma word_of_int_height:
  "fi_height info = word_of_int w \<Longrightarrow> 0 \<le> w \<Longrightarrow> w < 2 ^ 31 \<Longrightarrow> w = int (unat (fi_height info))"
  using word_of_int_width[of "info\<lparr>fi_width := fi_height info\<rparr>" w] by simp

lemma layout_bounds:
  "width < 2 ^ 31 \<Longrightarrow> height < 2 ^ 31 \<Longrightarrow>
     0 \<le> nl_width (nv12Layout width height stride) \<and> nl_width (nv12Layout width height stride) < 2 ^ 31 \<and>
     0 \<le> nl_height (nv12Layout width height stride) \<and> nl_height (nv12Layout width height stride) < 2 ^ 31"
  unfolding nv12Layout_def Let_def default_layout_def by simp presburger

lemma drop_eq:
  assumes "length dst' = length dst" and "\<forall>i < length dst. n \<le> i \<longrightarrow> dst' ! i = dst ! i"
  shows "drop n dst' = drop n dst"
  by (rule nth_equalityI) (use assms in auto)

lemma fill_shows:
  assumes "width \<le> stride" and "width < 2 ^ 31" and "height < 2 ^ 31"
    and "nl_totalSize (nv12Layout width height stride) \<le> length dst"
  shows "\<exists>live dst' s'. source_fill now freq seen scratch s dst (nv12Layout width height stride) frameIndex
      = (Some (live, dst'), s') \<and> length dst' = length dst \<and>
    drop (nl_totalSize (nv12Layout width height stride)) dst' = drop (nl_totalSize (nv12Layout width height stride)) dst \<and>
    (if live
     then (let reader = read_run (fs_ring (fst s)) scratch seen
           in rd_pc reader = RDone S_OK \<and>
              shows_frame (nv12Layout width height stride) (rd_info reader) (the (rd_dst reader)) dst')
     else renderPattern dst (nv12Layout width height stride) frameIndex Placeholder = Some dst')"
proof -
  let ?L = "nv12Layout width height stride"
  obtain fs h where published: "publishGeometry ?L s = (fs, h)" by fastforce
  have ring: "fs_ring fs = fs_ring (fst s)" using publish_keeps_ring[of ?L s] published by simp
  let ?reader = "read_run (fs_ring (fst s)) scratch seen"
  let ?live = "fs_ringReady fs \<and> millisSinceLastWrite now freq (fs_ring fs) h \<le> kStaleAfterMillis \<and>
    rd_pc ?reader = RDone S_OK \<and> fi_width (rd_info ?reader) = word_of_int (nl_width ?L) \<and>
    fi_height (rd_info ?reader) = word_of_int (nl_height ?L) \<and> fi_format (rd_info ?reader) = kFourccNv12"
  let ?out = "if ?live then copyFrame (the (rd_dst ?reader)) (rd_info ?reader) ?L dst
    else renderPattern dst ?L frameIndex Placeholder"
  obtain s' where fill: "source_fill now freq seen scratch s dst ?L frameIndex = (map_option (Pair ?live) ?out, s')"
    unfolding source_fill_def published Let_def prod.case ring by (auto simp: conj_assoc)
  have bounds: "0 \<le> nl_width ?L" "nl_width ?L < 2 ^ 31" "0 \<le> nl_height ?L" "nl_height ?L < 2 ^ 31"
    using layout_bounds[OF assms(2,3)] by simp_all
  show ?thesis
  proof (cases ?live)
    case True
    then obtain dst' where "copyFrame (the (rd_dst ?reader)) (rd_info ?reader) ?L dst = Some dst'"
      "length dst' = length dst" "\<forall>i < length dst. nl_totalSize ?L \<le> i \<longrightarrow> dst' ! i = dst ! i"
      "shows_frame ?L (rd_info ?reader) (the (rd_dst ?reader)) dst'"
      using copied_frame[OF layout_valid[OF assms(1)] assms(4) read_run_sane word_of_int_width word_of_int_height] bounds
      by blast
    then show ?thesis using fill True drop_eq[of dst' dst] by (intro exI[of _ True] exI[of _ dst'] exI[of _ s']) simp
  next
    case False
    obtain dst' where "renderPattern dst ?L frameIndex Placeholder = Some dst'" "length dst' = length dst"
      "\<forall>i < length dst. nl_totalSize ?L \<le> i \<longrightarrow> dst' ! i = dst ! i"
      using render_placeholder[OF assms(1,4)] by blast
    then show ?thesis
      using fill[unfolded if_not_P[OF False]] False drop_eq[of dst' dst]
      by (intro exI[of _ False] exI[of _ dst'] exI[of _ s']) simp
  qed
qed

text \<open>
  Property C24: the camera always has a frame, and never touches foreign memory.  For every picture whose stride is
  not shorter than a row, whatever the shared memory holds at each access of the read, \<open>fill\<close> stays
  inside its scratch buffer and inside the buffer of the picture, and changes no byte beyond the size of the
  layout.  A frame it reports as live shows, pixel by pixel in both planes, the frame that the
  read returned; any other is the placeholder.
\<close>

theorem camera_always_shows:
  assumes "width \<le> stride" and "width < 2 ^ 31" and "height < 2 ^ 31"
    and "nl_totalSize (nv12Layout width height stride) \<le> length dst"
  shows "\<exists>live dst' s'. source_fill now freq seen scratch s dst (nv12Layout width height stride) frameIndex
      = (Some (live, dst'), s') \<and> length dst' = length dst \<and>
    drop (nl_totalSize (nv12Layout width height stride)) dst' = drop (nl_totalSize (nv12Layout width height stride)) dst \<and>
    (if live
     then (let reader = read_run (fs_ring (fst s)) scratch seen
           in rd_pc reader = RDone S_OK \<and>
              shows_frame (nv12Layout width height stride) (rd_info reader) (the (rd_dst reader)) dst')
     else renderPattern dst (nv12Layout width height stride) frameIndex Placeholder = Some dst')"
  using assms by (rule fill_shows)

text \<open>A frame of two by two pixels in the shared memory, and the camera that shows it.\<close>

definition demo_memory :: ring_header where
  "demo_memory = fresh_header\<lparr>rh_writeSeq := 1, rh_lastWriteQpc := 5, rh_format := kFourccNv12,
     rh_slots := (\<lambda>_. \<lparr>sl_seq = 2, sl_pts = 10, sl_bytesUsed = 6, sl_width = 2, sl_height = 2, sl_stride = 2\<rparr>),
     rh_pixels := (\<lambda>_ k. word_of_nat k + 40)\<rparr>"

definition demo_source :: frame_source where
  "demo_source = new_frame_source\<lparr>fs_ring := new_ring\<lparr>fr_view := True, fr_owner := True\<rparr>, fs_ringReady := True\<rparr>"

lemma demo_reader:
  "rd_pc (read_run (fs_ring demo_source) (\<lambda>_. 0) (replicate 17 demo_memory)) = RDone S_OK \<and>
   fi_width (rd_info (read_run (fs_ring demo_source) (\<lambda>_. 0) (replicate 17 demo_memory))) = 2 \<and>
   fi_height (rd_info (read_run (fs_ring demo_source) (\<lambda>_. 0) (replicate 17 demo_memory))) = 2 \<and>
   fi_format (rd_info (read_run (fs_ring demo_source) (\<lambda>_. 0) (replicate 17 demo_memory))) = kFourccNv12"
proof -
  have "replicate 17 x = [x, x, x, x, x, x, x, x, x, x, x, x, x, x, x, x, x]" for x :: ring_header
    by (simp add: numeral_nat)
  then show ?thesis
    by (simp add: read_run_def demo_memory_def demo_source_def new_frame_source_def new_ring_def reader_step_def
        readLatest_def reader_check_def geometryIsSane_def kRingSlotBytes_def kRingMaxWidth_def kRingMaxHeight_def
        kRingSlots_def default_frame_info_def)
qed

lemma demo_layout: "nv12Layout 2 2 2 = \<lparr>nl_width = 2, nl_height = 2, nl_stride = 2, nl_uvOffset = 4, nl_totalSize = 6\<rparr>"
  by (simp add: nv12Layout_def)

lemma demo_live:
  "\<exists>out s'. source_fill 6 1000 (replicate 17 demo_memory) (\<lambda>_. 0) (demo_source, demo_memory) dst (nv12Layout 2 2 2) 0
     = (map_option (Pair True) out, s')"
proof -
  obtain fs h where published: "publishGeometry (nv12Layout 2 2 2) (demo_source, demo_memory) = (fs, h)" by fastforce
  moreover have "fs_ring fs = fs_ring demo_source \<and> fs_ringReady fs \<and> rh_writeSeq h = 1 \<and> rh_lastWriteQpc h = 5"
    using published
    by (simp add: publishGeometry_def requestGeometry_def demo_layout demo_source_def demo_memory_def new_frame_source_def
        new_ring_def fresh_header_def zero_header_def kRingMaxWidth_def kRingMaxHeight_def kFourccNv12_def Let_def) auto
  moreover from this have "millisSinceLastWrite 6 1000 (fs_ring fs) h \<le> kStaleAfterMillis"
    by (simp add: millisSinceLastWrite_def demo_source_def kStaleAfterMillis_def)
  ultimately show ?thesis
    unfolding source_fill_def published Let_def prod.case by (simp add: demo_reader demo_layout) blast
qed

text \<open>The hypotheses are met, and the frame is the live one, in a buffer with two bytes to spare.\<close>

theorem camera_always_shows_witness:
  "\<exists>dst' s'. source_fill 6 1000 (replicate 17 demo_memory) (\<lambda>_. 0) (demo_source, demo_memory) (replicate 8 1)
      (nv12Layout 2 2 2) 0 = (Some (True, dst'), s') \<and> drop 6 dst' = [1, 1]"
proof -
  let ?fill = "source_fill 6 1000 (replicate 17 demo_memory) (\<lambda>_. 0) (demo_source, demo_memory) (replicate 8 1)
      (nv12Layout 2 2 2) 0"
  have size: "nl_totalSize (nv12Layout 2 2 2) = 6" by (simp add: demo_layout)
  then have "\<exists>live dst' s'. ?fill = (Some (live, dst'), s') \<and> drop 6 dst' = drop 6 (replicate 8 1)"
    using camera_always_shows[of 2 2 2 "replicate 8 1" 6 1000 "replicate 17 demo_memory" "\<lambda>_. 0"
        "(demo_source, demo_memory)" 0] by auto
  moreover have "drop 6 (replicate 8 (1 :: u8)) = [1, 1]" by (simp add: numeral_nat)
  moreover obtain out s' where "?fill = (map_option (Pair True) out, s')" using demo_live by blast
  ultimately show ?thesis by (cases out) auto
qed

end
