(* ===== verification/MediaStream.thy ===== *)
theory MediaStream
  imports FrameSource "HOL-Library.Sublist"
begin

text \<open>
  The stream of the virtual camera, \<open>windows/vcam/media_stream.cpp\<close> and \<open>media_format.h\<close>: the formats,
  the sample that answers a request, and the stream itself, whose calls and frame thread are interleaved at
  every lock they take.  Media Foundation's answers are arguments.
\<close>

subsection \<open>Formats\<close>

record video_format =
  vf_width :: u32
  vf_height :: u32
  vf_fpsNumerator :: u32
  vf_fpsDenominator :: u32

abbreviation video_format :: "u32 \<Rightarrow> u32 \<Rightarrow> u32 \<Rightarrow> u32 \<Rightarrow> video_format" where
  "video_format w h n d \<equiv> \<lparr>vf_width = w, vf_height = h, vf_fpsNumerator = n, vf_fpsDenominator = d\<rparr>"

definition kVideoFormats :: "video_format list" where
  "kVideoFormats =
     [video_format 1920 1080 30 1, video_format 1920 1080 60 1, video_format 3840 2160 30 1,
      video_format 3840 2160 60 1, video_format 2560 1440 30 1, video_format 2560 1440 60 1,
      video_format 1280 720 30 1, video_format 1280 720 60 1, video_format 960 540 30 1,
      video_format 960 540 60 1, video_format 640 480 30 1, video_format 640 480 60 1]"

definition kDefaultVideoFormat :: video_format where
  "kDefaultVideoFormat = hd kVideoFormats"

definition isSupportedVideoFormat :: "video_format \<Rightarrow> bool" where
  "isSupportedVideoFormat format \<longleftrightarrow> list_ex (\<lambda>supported. format = supported) kVideoFormats"

definition frameDuration100ns :: "video_format \<Rightarrow> int" where
  "frameDuration100ns format =
     (if vf_fpsNumerator format = 0 then 0
      else 10000000 * uint (vf_fpsDenominator format) sdiv uint (vf_fpsNumerator format))"

subsection \<open>Results and media types\<close>

datatype mf_result = Hr hresult | E_UNEXPECTED | MF_E_SHUTDOWN | MF_E_INVALIDREQUEST | MF_E_INVALIDMEDIATYPE
  | MF_E_INVALID_STATE_TRANSITION

fun mf_failed :: "mf_result \<Rightarrow> bool" where
  "mf_failed (Hr hr) = FAILED hr"
| "mf_failed _ = True"

text \<open>The first result of a sequence of calls that is a failure.\<close>

fun first_failure :: "hresult list \<Rightarrow> hresult option" where
  "first_failure [] = None"
| "first_failure (hr # hrs) = (if FAILED hr then Some hr else first_failure hrs)"

text \<open>
  What a media type answers: the results of reading its two identifiers, whether they are video and NV12, the
  results of reading its size and rate, and those.
\<close>

record media_type =
  my_guids :: "hresult list"
  my_nv12 :: bool
  my_sizes :: "hresult list"
  my_format :: video_format

definition videoFormatFromMediaType :: "media_type \<Rightarrow> mf_result + video_format" where
  "videoFormatFromMediaType type =
     (case first_failure (my_guids type) of
        Some hr \<Rightarrow> Inl (Hr hr)
      | None \<Rightarrow>
          if \<not> my_nv12 type then Inl MF_E_INVALIDMEDIATYPE
          else case first_failure (my_sizes type) of
            Some hr \<Rightarrow> Inl (Hr hr)
          | None \<Rightarrow> if \<not> isSupportedVideoFormat (my_format type) then Inl MF_E_INVALIDMEDIATYPE else Inr (my_format type))"

subsection \<open>One sample\<close>

text \<open>
  What one \<open>ProduceSample\<close> gets: the results of creating and locking the buffer, its pitch for the width asked for, the addresses of its
  first row and of its start, its bytes, the clock and the shared memory of the fill, and the results
  of the calls after the fill, in their order.
\<close>

record sample_env =
  se_before :: "hresult list"
  se_pitch :: "u32 \<Rightarrow> int"
  se_scanline0 :: u64
  se_bufferStart :: u64
  se_buffer :: bytes
  se_now :: u64
  se_freq :: u64
  se_seen :: "ring_header list"
  se_scratch :: "nat \<Rightarrow> u8"
  se_after :: "hresult list"

record sample =
  sm_buffer :: bytes
  sm_time :: int
  sm_duration :: int

text \<open>\<^const>\<open>None\<close> is a write outside the buffer.\<close>

definition produceSample ::
  "sample_env \<Rightarrow> video_format \<Rightarrow> u64 \<Rightarrow> int \<Rightarrow> frame_source \<times> ring_header \<Rightarrow>
     ((mf_result + sample) \<times> frame_source \<times> ring_header) option" where
  "produceSample env format frameIndex timestamp s =
     (case first_failure (se_before env) of
        Some hr \<Rightarrow> Some (Inl (Hr hr), s)
      | None \<Rightarrow>
          if se_pitch env (vf_width format) \<le> 0 \<or> se_scanline0 env = 0 \<or> se_bufferStart env = 0 then Some (Inl E_UNEXPECTED, s)
          else (let layout = nv12Layout (sint (vf_width format)) (sint (vf_height format))
                      (se_pitch env (vf_width format));
                    offset = (if se_scanline0 env \<ge> se_bufferStart env then se_scanline0 env - se_bufferStart env else -1)
                in if nl_totalSize layout = 0 \<or> unat offset > length (se_buffer env) \<or>
                      nl_totalSize layout > length (se_buffer env) - unat offset
                   then Some (Inl (Hr (HRESULT_FROM_WIN32 ERROR_INSUFFICIENT_BUFFER)), s)
                   else case source_fill (se_now env) (se_freq env) (se_seen env) (se_scratch env) s
                               (drop (unat offset) (se_buffer env)) layout frameIndex of
                     (None, s) \<Rightarrow> None
                   | (Some (live, dst), s) \<Rightarrow>
                       (case first_failure (se_after env) of
                          Some hr \<Rightarrow> Some (Inl (Hr hr), s)
                        | None \<Rightarrow>
                            Some (Inr \<lparr>sm_buffer = take (unat offset) (se_buffer env) @ dst, sm_time = timestamp,
                                    sm_duration = frameDuration100ns format\<rparr>, s))))"

subsection \<open>The stream\<close>

definition kMaxPendingRequests :: nat where "kMaxPendingRequests = 8"

text \<open>
  A request's token, which may be null.  Where the frame thread is: it has started, waits for a tick or the
  end, has ticked, holds a request while it produces the sample, has none and gives the request back,
  has one and delivers it, leaves, or has ended without having been joined.
\<close>

type_synonym token = "u64 option"

datatype frame_thread = Started | Waiting u64 | Ticked u64 | Holding u64 token | Returning u64 token
  | Delivering u64 token sample | Leaving | Ended

text \<open>Where the one call that holds the lifecycle lock is.\<close>

datatype lifecycle = NoCall | StartJoin | StartFrames | StartRunning | StartThread | StartUndo
  | StopSignal | StopJoin | StopFrames | StopClear | ConfigureType video_format hresult

record media_stream =
  mt_shutdown :: bool
  mt_running :: bool
  mt_requestOverflowLogged :: bool
  mt_sampleFailureLogged :: bool
  mt_format :: video_format
  mt_tokens :: "token list"
  mt_stopEvent :: bool
  mt_thread :: "frame_thread option"
  mt_threadFormat :: video_format
  mt_call :: lifecycle
  mt_frames :: frame_source
  mt_header :: ring_header
  mt_requested :: "token list"
  mt_delivered :: "(token \<times> sample) list"

definition new_stream :: "ring_header \<Rightarrow> media_stream" where
  "new_stream h = \<lparr>mt_shutdown = False, mt_running = False, mt_requestOverflowLogged = False,
     mt_sampleFailureLogged = False, mt_format = kDefaultVideoFormat, mt_tokens = [], mt_stopEvent = False,
     mt_thread = None, mt_threadFormat = kDefaultVideoFormat, mt_call = NoCall, mt_frames = new_frame_source,
     mt_header = h, mt_requested = [], mt_delivered = []\<rparr>"

definition requestSample :: "token \<Rightarrow> media_stream \<Rightarrow> mf_result \<times> media_stream" where
  "requestSample token s =
     (if mt_shutdown s then (MF_E_SHUTDOWN, s)
      else if \<not> mt_running s then (MF_E_INVALIDREQUEST, s)
      else (let s = (if length (mt_tokens s) \<ge> kMaxPendingRequests
                     then s\<lparr>mt_tokens := tl (mt_tokens s), mt_requestOverflowLogged := True\<rparr> else s)
            in (Hr S_OK, s\<lparr>mt_tokens := mt_tokens s @ [token], mt_requested := mt_requested s @ [token]\<rparr>)))"

text \<open>
  \<open>Configure\<close> up to the end of its first critical section, which goes on when there is no result yet; and its end, where
  \<open>typed\<close> is the result of giving the type to the stream's type handler.
\<close>

definition configure :: "media_type \<Rightarrow> video_format \<Rightarrow> hresult \<Rightarrow> media_stream \<Rightarrow> mf_result option \<times> media_stream" where
  "configure mediaType format typed s =
     (case videoFormatFromMediaType mediaType of
        Inl hr \<Rightarrow> (Some hr, s)
      | Inr parsed \<Rightarrow>
          if parsed \<noteq> format then (Some MF_E_INVALIDMEDIATYPE, s)
          else if mt_shutdown s then (Some MF_E_SHUTDOWN, s)
          else if mt_running s \<and> mt_format s \<noteq> format then (Some MF_E_INVALIDREQUEST, s)
          else (None, s\<lparr>mt_call := ConfigureType format typed\<rparr>))"

definition configure_end :: "video_format \<Rightarrow> hresult \<Rightarrow> media_stream \<Rightarrow> mf_result \<times> media_stream" where
  "configure_end format typed s =
     (let s = s\<lparr>mt_call := NoCall\<rparr>
      in if FAILED typed then (Hr typed, s)
         else if mt_shutdown s then (MF_E_SHUTDOWN, s)
         else (Hr S_OK, s\<lparr>mt_format := format\<rparr>))"

text \<open>The steps of \<open>Start\<close> and of \<open>Stop\<close>, and of the destructor, which stops.\<close>

definition stream_start :: "media_stream \<Rightarrow> media_stream" where
  "stream_start s =
     (if mt_shutdown s \<or> mt_running s then s
      else s\<lparr>mt_tokens := [], mt_requestOverflowLogged := False, mt_sampleFailureLogged := False, mt_call := StartJoin\<rparr>)"

definition stream_stop :: "media_stream \<Rightarrow> media_stream" where
  "stream_stop s = s\<lparr>mt_running := False, mt_call := StopSignal\<rparr>"

definition join_thread :: "lifecycle \<Rightarrow> media_stream \<Rightarrow> media_stream" where
  "join_thread next s =
     (case mt_thread s of
        None \<Rightarrow> s\<lparr>mt_call := next\<rparr>
      | Some w \<Rightarrow> if w = Ended then s\<lparr>mt_thread := None, mt_call := next\<rparr> else s)"

definition lifecycle_step :: "ring_env \<Rightarrow> bool \<Rightarrow> media_stream \<Rightarrow> media_stream" where
  "lifecycle_step env created s =
     (case mt_call s of
        NoCall \<Rightarrow> s
      | StartJoin \<Rightarrow> join_thread StartFrames s
      | StartFrames \<Rightarrow>
          (case source_start env (mt_frames s, mt_header s) of
             (fs, h) \<Rightarrow> s\<lparr>mt_stopEvent := False, mt_frames := fs, mt_header := h, mt_call := StartRunning\<rparr>)
      | StartRunning \<Rightarrow> s\<lparr>mt_running := True, mt_call := StartThread\<rparr>
      | StartThread \<Rightarrow>
          (if created then s\<lparr>mt_thread := Some Started, mt_call := NoCall\<rparr>
           else s\<lparr>mt_running := False, mt_call := StartUndo\<rparr>)
      | StartUndo \<Rightarrow>
          (case source_stop env (mt_frames s, mt_header s) of
             (fs, h) \<Rightarrow> s\<lparr>mt_frames := fs, mt_header := h, mt_call := NoCall\<rparr>)
      | StopSignal \<Rightarrow> s\<lparr>mt_stopEvent := True, mt_call := StopJoin\<rparr>
      | StopJoin \<Rightarrow> join_thread StopFrames s
      | StopFrames \<Rightarrow>
          (case source_stop env (mt_frames s, mt_header s) of
             (fs, h) \<Rightarrow> s\<lparr>mt_frames := fs, mt_header := h, mt_call := StopClear\<rparr>)
      | StopClear \<Rightarrow> s\<lparr>mt_tokens := [], mt_call := NoCall\<rparr>
      | ConfigureType format typed \<Rightarrow> snd (configure_end format typed s))"

text \<open>
  The steps of the frame thread.  \<open>ok\<close> is whether the timer could be created or set, and \<open>ticked\<close> whether the
  wait ends with the timer when the stop event is not set.
\<close>

definition thread_step ::
  "bool \<Rightarrow> bool \<Rightarrow> int \<Rightarrow> sample_env \<Rightarrow> frame_thread \<Rightarrow> media_stream \<Rightarrow> media_stream option" where
  "thread_step ok ticked timestamp env w s =
     (let go = (\<lambda>w. s\<lparr>mt_thread := Some w\<rparr>)
      in case w of
           Started \<Rightarrow> Some ((go (if ok then Waiting 0 else Leaving))\<lparr>mt_threadFormat := mt_format s\<rparr>)
         | Waiting frameIndex \<Rightarrow>
             Some (go (if \<not> ok then Leaving
                       else if mt_stopEvent s then Leaving
                       else if ticked then Ticked (frameIndex + 1)
                       else Waiting frameIndex))
         | Ticked frameIndex \<Rightarrow>
             (if \<not> mt_running s \<or> mt_shutdown s then Some (go Leaving)
              else (case mt_tokens s of
                      [] \<Rightarrow> Some (go (Waiting frameIndex))
                    | token # tokens \<Rightarrow> Some ((go (Holding frameIndex token))\<lparr>mt_tokens := tokens\<rparr>)))
         | Holding frameIndex token \<Rightarrow>
             (case produceSample env (mt_threadFormat s) frameIndex timestamp (mt_frames s, mt_header s) of
                None \<Rightarrow> None
              | Some (Inl hr, fs, h) \<Rightarrow>
                  Some ((go (Returning frameIndex token))\<lparr>mt_frames := fs, mt_header := h, mt_sampleFailureLogged := True\<rparr>)
              | Some (Inr sample, fs, h) \<Rightarrow>
                  Some ((go (Delivering frameIndex token sample))
                          \<lparr>mt_frames := fs, mt_header := h, mt_sampleFailureLogged := False\<rparr>))
         | Returning frameIndex token \<Rightarrow>
             Some ((go (Waiting frameIndex))
                     \<lparr>mt_tokens := (if length (mt_tokens s) < kMaxPendingRequests then token # mt_tokens s else mt_tokens s)\<rparr>)
         | Delivering frameIndex token sample \<Rightarrow>
             (if mt_shutdown s then Some (go Leaving)
              else Some ((go (Waiting frameIndex))\<lparr>mt_delivered := mt_delivered s @ [(token, sample)]\<rparr>))
         | Leaving \<Rightarrow> Some ((go Ended)\<lparr>mt_running := False\<rparr>)
         | Ended \<Rightarrow> Some s)"

text \<open>
  What can happen next: a request, a new format, the calls, a step of the call that holds the lock, a step of the
  thread, the last part of \<open>Shutdown\<close>, and any change of the shared memory by another process.
\<close>

datatype stream_event = RequestSample token | Configure media_type video_format hresult | Start | Stop
  | CallStep ring_env bool | ThreadStep bool bool int sample_env | MarkShutdown | Memory ring_header

definition stream_step :: "media_stream \<Rightarrow> stream_event \<Rightarrow> media_stream option" where
  "stream_step s e =
     (case e of
        RequestSample token \<Rightarrow> Some (snd (requestSample token s))
      | Configure mediaType format typed \<Rightarrow>
          Some (if mt_call s = NoCall then snd (configure mediaType format typed s) else s)
      | Start \<Rightarrow> Some (if mt_call s = NoCall then stream_start s else s)
      | Stop \<Rightarrow> Some (if mt_call s = NoCall then stream_stop s else s)
      | CallStep env created \<Rightarrow> Some (lifecycle_step env created s)
      | ThreadStep ok ticked timestamp env \<Rightarrow>
          (case mt_thread s of None \<Rightarrow> Some s | Some w \<Rightarrow> thread_step ok ticked timestamp env w s)
      | MarkShutdown \<Rightarrow> Some (s\<lparr>mt_shutdown := True\<rparr>)
      | Memory h \<Rightarrow> Some (s\<lparr>mt_header := h\<rparr>))"

fun stream_run :: "stream_event list \<Rightarrow> media_stream \<Rightarrow> media_stream option" where
  "stream_run [] s = Some s"
| "stream_run (e # es) s = (case stream_step s e of None \<Rightarrow> None | Some s' \<Rightarrow> stream_run es s')"

subsection \<open>What holds of every run\<close>

text \<open>The request a thread has taken and not answered.\<close>

fun held :: "frame_thread \<Rightarrow> token list" where
  "held (Holding frameIndex token) = [token]"
| "held (Returning frameIndex token) = [token]"
| "held (Delivering frameIndex token sample) = [token]"
| "held _ = []"

definition thread_held :: "media_stream \<Rightarrow> token list" where
  "thread_held s = (case mt_thread s of None \<Rightarrow> [] | Some w \<Rightarrow> held w)"

text \<open>The calls that work on the frames or make a thread.\<close>

definition exclusive :: "lifecycle \<Rightarrow> bool" where
  "exclusive call \<longleftrightarrow> call \<in> {StartFrames, StartRunning, StartThread, StartUndo, StopFrames, StopClear}"

definition stream_ok :: "media_stream \<Rightarrow> bool" where
  "stream_ok s \<longleftrightarrow> length (mt_tokens s) \<le> 8 \<and>
     subseq (map fst (mt_delivered s) @ thread_held s @ mt_tokens s) (mt_requested s) \<and>
     (exclusive (mt_call s) \<longrightarrow> mt_thread s = None) \<and>
     (mt_running s \<longrightarrow> mt_call s = StartThread \<or> (\<exists>w. mt_thread s = Some w \<and> w \<noteq> Ended))"

lemma subseq_dropped: "subseq (xs @ ys @ zs) rs \<Longrightarrow> subseq (xs @ ys) rs"
  by (erule subseq_order.trans[rotated]) (use list_emb_prefix[of "(=)" "xs @ ys" "xs @ ys" zs] in simp)

lemma subseq_without: "subseq (xs @ ys @ zs) rs \<Longrightarrow> subseq (xs @ zs) rs"
  by (erule subseq_order.trans[rotated]) (intro list_emb_append_mono list_emb_append2 subseq_order.refl)

lemma subseq_later:
  assumes "subseq (xs @ ys) rs" and "ts = ys \<or> ts = tl ys"
  shows "subseq (xs @ ts @ [t]) (rs @ [t])"
proof -
  have "subseq ts ys" using assms(2) by (cases ys) auto
  then have "subseq (xs @ ts) rs"
    using list_emb_append_mono[of "(=)" xs xs ts ys] assms(1) subseq_order.trans by blast
  then show ?thesis using list_emb_append_mono[of "(=)" "xs @ ts" rs "[t]" "[t]"] by simp
qed

lemma requestSample_ok: "stream_ok s \<Longrightarrow> stream_ok (snd (requestSample token s))"
proof -
  assume ok: "stream_ok s"
  let ?held = "map fst (mt_delivered s) @ thread_held s"
  have "subseq (?held @ mt_tokens s) (mt_requested s)" using ok by (simp add: stream_ok_def)
  note later = subseq_later[OF this, of _ token, simplified]
  show ?thesis
    using ok later[of "mt_tokens s"] later[of "tl (mt_tokens s)"]
    by (auto simp: requestSample_def stream_ok_def Let_def kMaxPendingRequests_def thread_held_def)
qed

lemma stop_keeps:
  "stream_ok s \<Longrightarrow> stream_ok (stream_stop s)" "stream_ok s \<Longrightarrow> mt_call s = NoCall \<Longrightarrow> stream_ok (stream_start s)"
  using subseq_dropped[of "map fst (mt_delivered s)" "thread_held s" "mt_tokens s" "mt_requested s"]
  by (auto simp: stream_ok_def stream_stop_def stream_start_def exclusive_def thread_held_def)

lemma lifecycle_ok: "stream_ok s \<Longrightarrow> stream_ok (lifecycle_step env created s)"
  using subseq_dropped[of "map fst (mt_delivered s)" "thread_held s" "mt_tokens s" "mt_requested s"]
  by (cases "mt_call s")
    (auto simp: lifecycle_step_def join_thread_def configure_end_def stream_ok_def exclusive_def thread_held_def Let_def
      split: option.splits prod.splits if_splits)

lemma thread_ok:
  assumes "stream_ok s" and "mt_thread s = Some w" and "thread_step ok ticked timestamp env w s = Some s'"
  shows "stream_ok s'"
  using assms subseq_without[of "map fst (mt_delivered s)" "thread_held s" "mt_tokens s" "mt_requested s"]
  by (cases w)
    (auto simp: thread_step_def stream_ok_def thread_held_def kMaxPendingRequests_def Let_def
      split: option.splits prod.splits sum.splits if_splits list.splits)

lemma step_ok: "stream_ok s \<Longrightarrow> stream_step s e = Some s' \<Longrightarrow> stream_ok s'"
  by (cases e)
    (auto simp: stream_step_def requestSample_ok stop_keeps lifecycle_ok split: option.splits if_splits
      intro: thread_ok, auto simp: stream_ok_def configure_def thread_held_def exclusive_def split: sum.splits)

lemma supported_small:
  assumes "isSupportedVideoFormat format"
  shows "sint (vf_width format) < 2 ^ 31" and "sint (vf_height format) < 2 ^ 31" and "sint (vf_width format) = uint (vf_width format)"
proof -
  show "sint (vf_width format) < 2 ^ 31" "sint (vf_height format) < 2 ^ 31"
    using sint_range_size[of "vf_width format"] sint_range_size[of "vf_height format"] by (simp_all add: word_size)
  have "unat (vf_width format) \<le> 3840" using assms by (auto simp: isSupportedVideoFormat_def kVideoFormats_def)
  then have "unat (vf_width format) < 2 ^ 31" by simp
  then show "sint (vf_width format) = uint (vf_width format)" using sint_small by simp
qed

text \<open>A buffer's pitch is not shorter than a row of the width it was made for, unless it is not positive.\<close>

definition pitch_honest :: "sample_env \<Rightarrow> bool" where
  "pitch_honest env \<longleftrightarrow> (\<forall>width. uint width \<le> se_pitch env width \<or> se_pitch env width \<le> 0)"

lemma sample_inside:
  assumes "isSupportedVideoFormat format" and "pitch_honest env"
  shows "produceSample env format frameIndex timestamp s \<noteq> None"
proof (cases "first_failure (se_before env) = None \<and> \<not> (se_pitch env (vf_width format) \<le> 0 \<or> se_scanline0 env = 0 \<or>
    se_bufferStart env = 0)")
  case True
  let ?pitch = "se_pitch env (vf_width format)"
  let ?L = "nv12Layout (sint (vf_width format)) (sint (vf_height format)) ?pitch"
  let ?offset = "if se_scanline0 env \<ge> se_bufferStart env then se_scanline0 env - se_bufferStart env else -1"
  have pitch: "sint (vf_width format) \<le> ?pitch"
    using assms(2) True supported_small(3)[OF assms(1)] by (auto simp: pitch_honest_def)
  let ?fill = "source_fill (se_now env) (se_freq env) (se_seen env) (se_scratch env) s
    (drop (unat ?offset) (se_buffer env)) ?L frameIndex"
  have proceed: "produceSample env format frameIndex timestamp s =
      (if nl_totalSize ?L = 0 \<or> unat ?offset > length (se_buffer env) \<or>
          nl_totalSize ?L > length (se_buffer env) - unat ?offset
       then Some (Inl (Hr (HRESULT_FROM_WIN32 ERROR_INSUFFICIENT_BUFFER)), s)
       else case ?fill of
         (None, s) \<Rightarrow> None
       | (Some (live, dst), s) \<Rightarrow>
           (case first_failure (se_after env) of
              Some hr \<Rightarrow> Some (Inl (Hr hr), s)
            | None \<Rightarrow> Some (Inr \<lparr>sm_buffer = take (unat ?offset) (se_buffer env) @ dst, sm_time = timestamp,
                sm_duration = frameDuration100ns format\<rparr>, s)))"
    unfolding produceSample_def Let_def conjunct1[OF True] option.case if_not_P[OF conjunct2[OF True]] by (rule refl)
  show ?thesis
  proof (cases "nl_totalSize ?L > length (se_buffer env) - unat ?offset")
    case False
    then have "nl_totalSize ?L \<le> length (drop (unat ?offset) (se_buffer env))" by simp
    from fill_shows[OF pitch supported_small(1,2)[OF assms(1)] this]
    obtain live dst s' where fill: "?fill = (Some (live, dst), s')" by blast
    show ?thesis unfolding proceed fill by (simp split: option.split)
  qed (simp add: proceed)
qed (auto simp: produceSample_def split: option.split)

definition formats_ok :: "media_stream \<Rightarrow> bool" where
  "formats_ok s \<longleftrightarrow> isSupportedVideoFormat (mt_format s) \<and> isSupportedVideoFormat (mt_threadFormat s) \<and>
     (\<forall>format typed. mt_call s = ConfigureType format typed \<longrightarrow> isSupportedVideoFormat format)"

lemma step_formats: "formats_ok s \<Longrightarrow> stream_step s e = Some s' \<Longrightarrow> formats_ok s'"
  by (cases e)
    (auto simp: stream_step_def formats_ok_def requestSample_def configure_def videoFormatFromMediaType_def stream_start_def
      stream_stop_def lifecycle_step_def join_thread_def configure_end_def thread_step_def Let_def
      split: option.splits if_splits lifecycle.splits prod.splits sum.splits frame_thread.splits list.splits)

lemma step_defined:
  assumes "formats_ok s" and "\<And>ok ticked timestamp env. e = ThreadStep ok ticked timestamp env \<Longrightarrow> pitch_honest env"
  shows "stream_step s e \<noteq> None"
proof (cases e)
  case (ThreadStep ok ticked timestamp env)
  have "produceSample env (mt_threadFormat s) n timestamp fs \<noteq> None" for n fs
    by (rule sample_inside) (use assms ThreadStep in \<open>auto simp: formats_ok_def\<close>)
  then show ?thesis
    by (auto simp: stream_step_def thread_step_def ThreadStep Let_def simp del: not_None_eq
        split: option.splits frame_thread.splits list.splits sum.splits)
qed (simp_all add: stream_step_def)

lemma run_ok:
  assumes "formats_ok s" and "stream_ok s" and "\<forall>ok ticked timestamp env. ThreadStep ok ticked timestamp env \<in> set es \<longrightarrow> pitch_honest env"
  shows "\<exists>s'. stream_run es s = Some s' \<and> stream_ok s'"
  using assms
proof (induction es arbitrary: s)
  case (Cons e es)
  obtain s' where s': "stream_step s e = Some s'" using step_defined[OF Cons.prems(1), of e] Cons.prems(3) by auto
  then show ?case
    using Cons.IH[OF step_formats[OF Cons.prems(1) s'] step_ok[OF Cons.prems(2) s']] Cons.prems(3) by simp
qed simp

text \<open>
  Property C23: the stream of the camera is safe and orderly.  In any interleaving of requests, format changes, starts, stops,
  the shutdown, the frame thread and other processes that write the shared memory, as long as Media Foundation's pitches are not
  shorter than a row: no write leaves its buffer, at most eight requests wait, the answered requests
  are among those made, in their order and each at most once, no call starts or stops the frame
  source while there is a frame thread, and outside the calls a running stream has a thread that
  has not ended.
\<close>

theorem camera_stream_safe:
  assumes "\<forall>ok ticked timestamp env. ThreadStep ok ticked timestamp env \<in> set es \<longrightarrow> pitch_honest env"
  shows "\<exists>s. stream_run es (new_stream h) = Some s \<and> length (mt_tokens s) \<le> 8 \<and>
    subseq (map fst (mt_delivered s)) (mt_requested s) \<and>
    (mt_call s \<in> {StartFrames, StartUndo, StopFrames} \<longrightarrow> mt_thread s = None) \<and>
    (mt_running s \<and> mt_call s = NoCall \<longrightarrow> (\<exists>w. mt_thread s = Some w \<and> w \<noteq> Ended))"
proof -
  have "stream_ok (new_stream h)" by (simp add: stream_ok_def new_stream_def thread_held_def exclusive_def)
  moreover have "formats_ok (new_stream h)"
    by (simp add: formats_ok_def new_stream_def isSupportedVideoFormat_def kDefaultVideoFormat_def kVideoFormats_def)
  ultimately obtain s where s: "stream_run es (new_stream h) = Some s" "stream_ok s" using run_ok assms by blast
  have "subseq (map fst (mt_delivered s)) (mt_requested s)"
    using s(2) subseq_dropped[of "map fst (mt_delivered s)" "[]" "thread_held s @ mt_tokens s" "mt_requested s"]
    by (simp add: stream_ok_def)
  then show ?thesis using s by (auto simp: stream_ok_def exclusive_def)
qed

text \<open>A run of a buffer whose pitch is exactly a row.\<close>

definition demo_env :: sample_env where
  "demo_env = \<lparr>se_before = [], se_pitch = uint, se_scanline0 = 8, se_bufferStart = 8, se_buffer = [], se_now = 0, se_freq = 1,
     se_seen = [], se_scratch = (\<lambda>_. 0), se_after = []\<rparr>"

theorem camera_stream_safe_witness:
  "\<exists>s. stream_run [Start, Stop, RequestSample None, ThreadStep True True 0 demo_env] (new_stream zero_header) = Some s \<and>
    length (mt_tokens s) \<le> 8"
  using camera_stream_safe[of "[Start, Stop, RequestSample None, ThreadStep True True 0 demo_env]" zero_header]
  by (auto simp: pitch_honest_def demo_env_def)

end
