(* ===== verification/PixelConvert.thy ===== *)
theory PixelConvert
  imports ShmRing Picture
begin

text \<open>
  The conversion of a BGRA frame to NV12, \<open>windows/platform/src/pixel_convert.cpp\<close>.  The two buffers are lists of
  bytes, and an access outside one of them is \<^const>\<open>None\<close>; the sizes that are checked for overflow are
  64-bit words, the arithmetic on colours is on \<open>int\<close>.
\<close>

definition clampByte :: "int \<Rightarrow> u8" where
  "clampByte value = word_of_int (max 0 (min 255 value))"

definition luma :: "u8 \<Rightarrow> u8 \<Rightarrow> u8 \<Rightarrow> u8" where
  "luma blue green red =
     clampByte (16 + drop_bit 8 (16 * uint blue + 157 * uint green + 47 * uint red + 128))"

definition divideRounded256 :: "int \<Rightarrow> int" where
  "divideRounded256 value = (if value \<ge> 0 then (value + 128) sdiv 256 else - ((- value + 128) sdiv 256))"

definition chromaU :: "int \<Rightarrow> int \<Rightarrow> int \<Rightarrow> u8" where
  "chromaU blue green red = clampByte (128 + divideRounded256 (113 * blue - 87 * green - 26 * red))"

definition chromaV :: "int \<Rightarrow> int \<Rightarrow> int \<Rightarrow> u8" where
  "chromaV blue green red = clampByte (128 + divideRounded256 (- 10 * blue - 102 * green + 112 * red))"

definition requiredBytes :: "u32 \<Rightarrow> u32 \<Rightarrow> u64 option" where
  "requiredBytes stride rows =
     (if rows \<noteq> 0 \<and> (ucast stride :: u64) > -1 div ucast rows then None else Some (ucast stride * ucast rows))"

text \<open>The blue, green and red of the pixel at an offset.\<close>

definition load_pixel :: "bytes \<Rightarrow> nat \<Rightarrow> (u8 \<times> u8 \<times> u8) option" where
  "load_pixel src i = (if i + 2 < length src then Some (src ! i, src ! (i + 1), src ! (i + 2)) else None)"

definition convertLuma :: "bytes \<Rightarrow> nat \<Rightarrow> nat \<Rightarrow> nat \<Rightarrow> nat \<Rightarrow> bytes \<Rightarrow> bytes option" where
  "convertLuma bgra bgraStride nv12Stride row column dst =
     (case load_pixel bgra (row * bgraStride + column * 4) of
        None \<Rightarrow> None
      | Some (blue, green, red) \<Rightarrow> store_byte dst (row * nv12Stride + column) (luma blue green red))"

definition average4 :: "u8 \<Rightarrow> u8 \<Rightarrow> u8 \<Rightarrow> u8 \<Rightarrow> int" where
  "average4 a b c d = (uint a + uint b + uint c + uint d + 2) sdiv 4"

text \<open>The chroma of the block whose first row is twice \<open>row\<close> and whose first column is twice \<open>column\<close>.\<close>

definition convertChroma :: "bytes \<Rightarrow> nat \<Rightarrow> nat \<Rightarrow> nat \<Rightarrow> nat \<Rightarrow> nat \<Rightarrow> bytes \<Rightarrow> bytes option" where
  "convertChroma bgra bgraStride yBytes nv12Stride row column dst =
     (let first = 2 * row * bgraStride + 2 * column * 4; second = first + bgraStride;
          destination = yBytes + row * nv12Stride + 2 * column
      in case (load_pixel bgra first, load_pixel bgra (first + 4), load_pixel bgra second, load_pixel bgra (second + 4)) of
           (Some (b0, g0, r0), Some (b1, g1, r1), Some (b2, g2, r2), Some (b3, g3, r3)) \<Rightarrow>
             (let blue = average4 b0 b1 b2 b3; green = average4 g0 g1 g2 g3; red = average4 r0 r1 r2 r3
              in case store_byte dst destination (chromaU blue green red) of
                   None \<Rightarrow> None
                 | Some dst \<Rightarrow> store_byte dst (destination + 1) (chromaV blue green red))
         | _ \<Rightarrow> None)"

definition bgraToNv12 ::
  "bytes \<Rightarrow> u32 \<Rightarrow> u32 \<Rightarrow> u32 \<Rightarrow> bytes \<Rightarrow> u32 \<Rightarrow> (hresult \<times> bytes) option" where
  "bgraToNv12 bgra bgraStride width height nv12 nv12Stride =
     (if width = 0 \<or> height = 0 \<or> and width 1 \<noteq> 0 \<or> and height 1 \<noteq> 0 then Some (E_INVALIDARG, nv12)
      else if width > -1 div 4 \<or> bgraStride < width * 4 \<or> nv12Stride < width then Some (E_INVALIDARG, nv12)
      else case (requiredBytes bgraStride height, requiredBytes nv12Stride height, requiredBytes nv12Stride (height div 2)) of
        (Some requiredBgra, Some yBytes, Some uvBytes) \<Rightarrow>
          if yBytes > -1 - uvBytes then Some (E_INVALIDARG, nv12)
          else if length bgra < unat requiredBgra \<or> length nv12 < unat (yBytes + uvBytes)
            then Some (HRESULT_FROM_WIN32 ERROR_INSUFFICIENT_BUFFER, nv12)
          else (case each (\<lambda>row. each (convertLuma bgra (unat bgraStride) (unat nv12Stride) row) [0..<unat width])
                       [0..<unat height] nv12 of
                  None \<Rightarrow> None
                | Some nv12 \<Rightarrow>
                    map_option (Pair S_OK)
                      (each (\<lambda>row. each (convertChroma bgra (unat bgraStride) (unat yBytes) (unat nv12Stride) row)
                               [0..<unat width div 2]) [0..<unat height div 2] nv12))
      | _ \<Rightarrow> Some (E_INVALIDARG, nv12))"

subsection \<open>The sizes\<close>

lemma unat_minus_one: "unat (-1 :: 'a :: len word) = 2 ^ LENGTH('a) - 1"
  by (simp add: unsigned_minus_1_eq_mask mask_eq_exp_minus_1)

lemma required_bytes: "requiredBytes stride rows = Some (ucast stride * ucast rows) \<and>
  unat ((ucast stride :: u64) * ucast rows) = unat stride * unat rows"
proof -
  have "unat x \<le> 2 ^ 32 - 1" for x :: u32
  proof -
    have "unat x < 2 ^ 32" using unsigned_less[of x] by simp
    then show ?thesis by simp
  qed
  from this[of stride] this[of rows] have "unat stride * unat rows \<le> (2 ^ 32 - 1) * (2 ^ 32 - 1)" by (rule mult_le_mono)
  then have fits: "unat stride * unat rows < 2 ^ 64" by simp
  then have eq: "unat ((ucast stride :: u64) * ucast rows) = unat stride * unat rows"
    by (simp add: unat_word_ariths(2) unat_wider)
  have "\<not> (ucast stride :: u64) > -1 div ucast rows" if "rows \<noteq> 0"
  proof -
    have "unat rows \<noteq> 0" using that by (simp add: unat_eq_zero)
    have "unat stride * unat rows \<le> unat (-1 :: u64)" using fits by (simp add: unat_minus_one)
    then have "unat stride \<le> unat (-1 :: u64) div unat rows"
      using \<open>unat rows \<noteq> 0\<close> by (simp add: less_eq_div_iff_mult_less_eq)
    then show ?thesis by (simp add: word_le_nat_alt unat_div unat_wider not_less)
  qed
  then show ?thesis using eq by (auto simp: requiredBytes_def)
qed

lemma quarter_word: "(width :: u32) \<le> -1 div 4 \<Longrightarrow> unat (width * 4) = unat width * 4"
proof -
  assume "width \<le> -1 div 4"
  then have "unat width \<le> (2 ^ 32 - 1) div 4" by (simp add: word_le_nat_alt unat_div unat_minus_one)
  then have "unat width * 4 < 2 ^ 32" by simp
  then show ?thesis by (simp add: unat_word_ariths(2))
qed

lemma sum_fits:
  fixes y uv :: u64
  assumes "\<not> y > -1 - uv"
  shows "unat (y + uv) = unat y + unat uv"
proof -
  have "unat (-1 - uv) = 2 ^ 64 - 1 - unat uv" by (subst unat_sub) (simp_all add: unat_minus_one)
  moreover have "unat y \<le> unat (-1 - uv)" using assms by (simp only: not_less word_le_nat_alt)
  moreover have "unat uv < 2 ^ 64" using unsigned_less[of uv] by simp
  ultimately have "unat y + unat uv < 2 ^ 64" by linarith
  then show ?thesis by (simp add: unat_word_ariths(1))
qed

text \<open>What a call that gets past its checks knows.\<close>

lemma convert_checks:
  assumes "bgraToNv12 bgra bgraStride width height nv12 nv12Stride \<noteq> Some (E_INVALIDARG, nv12)"
    and "bgraToNv12 bgra bgraStride width height nv12 nv12Stride \<noteq> Some (HRESULT_FROM_WIN32 ERROR_INSUFFICIENT_BUFFER, nv12)"
  shows "even (unat width)" and "even (unat height)" and "unat width * 4 \<le> unat bgraStride"
    and "unat width \<le> unat nv12Stride" and "unat bgraStride * unat height \<le> length bgra"
    and "unat nv12Stride * unat height + unat nv12Stride * (unat height div 2) \<le> length nv12"
    and "bgraToNv12 bgra bgraStride width height nv12 nv12Stride =
      (case each (\<lambda>row. each (convertLuma bgra (unat bgraStride) (unat nv12Stride) row) [0..<unat width])
             [0..<unat height] nv12 of
         None \<Rightarrow> None
       | Some nv12 \<Rightarrow>
           map_option (Pair S_OK)
             (each (\<lambda>row. each (convertChroma bgra (unat bgraStride) (unat nv12Stride * unat height) (unat nv12Stride) row)
                      [0..<unat width div 2]) [0..<unat height div 2] nv12))"
proof -
  let ?convert = "bgraToNv12 bgra bgraStride width height nv12 nv12Stride"
  have first: "\<not> (width = 0 \<or> height = 0 \<or> and width 1 \<noteq> 0 \<or> and height 1 \<noteq> 0)" (is "\<not> ?first")
  proof
    assume bad: ?first
    show False using assms(1) unfolding bgraToNv12_def if_P[OF bad] by simp
  qed
  have second: "\<not> (width > -1 div 4 \<or> bgraStride < width * 4 \<or> nv12Stride < width)" (is "\<not> ?second")
  proof
    assume bad: ?second
    show False using assms(1) unfolding bgraToNv12_def if_not_P[OF first] if_P[OF bad] by simp
  qed
  note proceed = bgraToNv12_def[of bgra bgraStride width height nv12 nv12Stride, unfolded if_not_P[OF first] if_not_P[OF second]
      conjunct1[OF required_bytes] option.case prod.case]
  let ?y = "(ucast nv12Stride :: u64) * ucast height" and ?uv = "(ucast nv12Stride :: u64) * ucast (height div 2)"
  have third: "\<not> ?y > -1 - ?uv" (is "\<not> ?third")
  proof
    assume bad: ?third
    show False using assms(1) unfolding proceed if_P[OF bad] by simp
  qed
  have fourth: "\<not> (length bgra < unat ((ucast bgraStride :: u64) * ucast height) \<or> length nv12 < unat (?y + ?uv))"
    (is "\<not> ?fourth")
  proof
    assume bad: ?fourth
    show False using assms(2) unfolding proceed if_not_P[OF third] if_P[OF bad] by simp
  qed
  have sum: "unat (?y + ?uv) = unat nv12Stride * unat height + unat nv12Stride * (unat height div 2)"
    unfolding sum_fits[OF third] conjunct2[OF required_bytes] by (simp add: unat_div)
  show "even (unat width)" "even (unat height)"
    using first by (simp_all add: and_one_eq even_word flip: even_iff_mod_2_eq_zero)
  have "width \<le> -1 div 4" "width * 4 \<le> bgraStride" using second by (simp_all only: not_less de_Morgan_disj)
  then show "unat width * 4 \<le> unat bgraStride" using quarter_word[of width] by (simp only: word_le_nat_alt)
  show "unat width \<le> unat nv12Stride" using second by (simp add: word_less_nat_alt not_less)
  show "unat bgraStride * unat height \<le> length bgra"
    using fourth required_bytes[of bgraStride height] by simp
  show "unat nv12Stride * unat height + unat nv12Stride * (unat height div 2) \<le> length nv12"
    using fourth sum by simp
  show "?convert = (case each (\<lambda>row. each (convertLuma bgra (unat bgraStride) (unat nv12Stride) row) [0..<unat width])
             [0..<unat height] nv12 of
         None \<Rightarrow> None
       | Some nv12 \<Rightarrow>
           map_option (Pair S_OK)
             (each (\<lambda>row. each (convertChroma bgra (unat bgraStride) (unat nv12Stride * unat height) (unat nv12Stride) row)
                      [0..<unat width div 2]) [0..<unat height div 2] nv12))"
    unfolding proceed if_not_P[OF third] if_not_P[OF fourth] unfolding conjunct2[OF required_bytes] by (rule refl)
qed

subsection \<open>The pixels\<close>

lemma load_inside: "i + 4 \<le> length src \<Longrightarrow> load_pixel src i = Some (src ! i, src ! (i + 1), src ! (i + 2))"
  by (simp add: load_pixel_def)

definition pixel_luma :: "bytes \<Rightarrow> nat \<Rightarrow> u8" where
  "pixel_luma src i = luma (src ! i) (src ! (i + 1)) (src ! (i + 2))"

definition block_average :: "bytes \<Rightarrow> nat \<Rightarrow> nat \<Rightarrow> nat \<Rightarrow> int" where
  "block_average src i stride channel =
     average4 (src ! (i + channel)) (src ! (i + 4 + channel)) (src ! (i + stride + channel)) (src ! (i + stride + 4 + channel))"

lemma convertLuma_at:
  assumes "row * bgraStride + column * 4 + 4 \<le> length bgra" and "row * nv12Stride + column < length dst"
  shows "convertLuma bgra bgraStride nv12Stride row column dst =
    Some (dst[row * nv12Stride + column := pixel_luma bgra (row * bgraStride + column * 4)])"
  using assms by (simp add: convertLuma_def load_inside store_byte_def pixel_luma_def)

lemma convertChroma_at:
  assumes "2 * row * bgraStride + 2 * column * 4 + bgraStride + 8 \<le> length bgra"
    and "base + row * nv12Stride + 2 * column + 2 \<le> length dst"
  defines "i \<equiv> 2 * row * bgraStride + 2 * column * 4" and "o' \<equiv> base + row * nv12Stride + 2 * column"
  shows "convertChroma bgra bgraStride base nv12Stride row column dst =
    Some (dst[o' := chromaU (block_average bgra i bgraStride 0) (block_average bgra i bgraStride 1) (block_average bgra i bgraStride 2),
      o' + 1 := chromaV (block_average bgra i bgraStride 0) (block_average bgra i bgraStride 1) (block_average bgra i bgraStride 2)])"
  using assms(1,2) unfolding convertChroma_def Let_def i_def[symmetric] o'_def[symmetric]
  by (simp add: load_inside store_byte_def block_average_def o'_def add.assoc)

text \<open>A loop whose steps store at an offset what depends on the offset only.\<close>

definition stores :: "nat set \<Rightarrow> (nat \<Rightarrow> u8) \<Rightarrow> bytes \<Rightarrow> bytes option \<Rightarrow> bool" where
  "stores A f dst out \<longleftrightarrow> (\<exists>dst'. out = Some dst' \<and> length dst' = length dst \<and>
     (\<forall>i < length dst. dst' ! i = (if i \<in> A then f i else dst ! i)))"

lemma stores_each:
  assumes "\<And>i d. i \<in> set is \<Longrightarrow> length d = length dst \<Longrightarrow> stores (A i) f d (body i d)"
  shows "stores (\<Union>i \<in> set is. A i) f dst (each body is dst)"
  using assms
proof (induction "is" arbitrary: dst)
  case Nil
  then show ?case by (simp add: stores_def)
next
  case (Cons i "is")
  obtain d where d: "body i dst = Some d" "length d = length dst"
    "\<forall>k < length dst. d ! k = (if k \<in> A i then f k else dst ! k)"
    using Cons.prems[OF list.set_intros(1) refl] by (auto simp: stores_def)
  have "stores (\<Union>i \<in> set is. A i) f d (each body is d)"
    by (rule Cons.IH) (use Cons.prems d(2) in simp)
  then show ?case using d by (auto simp: stores_def)
qed

definition luma_at :: "bytes \<Rightarrow> nat \<Rightarrow> nat \<Rightarrow> nat \<Rightarrow> u8" where
  "luma_at bgra bgraStride nv12Stride i = pixel_luma bgra (i div nv12Stride * bgraStride + i mod nv12Stride * 4)"

definition chroma_at :: "bytes \<Rightarrow> nat \<Rightarrow> nat \<Rightarrow> nat \<Rightarrow> u8" where
  "chroma_at bgra bgraStride nv12Stride j =
     (let column = j mod nv12Stride div 2; i = 2 * (j div nv12Stride) * bgraStride + 2 * column * 4
      in (if even (j mod nv12Stride) then chromaU else chromaV)
           (block_average bgra i bgraStride 0) (block_average bgra i bgraStride 1) (block_average bgra i bgraStride 2))"

lemma row_column: "column < stride \<Longrightarrow> (row * stride + column) div stride = row \<and> (row * stride + column) mod stride = column"
  for row column stride :: nat
  by simp

lemma luma_plane:
  assumes width: "w * 4 \<le> bgraStride" "w \<le> nv12Stride" and src: "bgraStride * h \<le> length bgra"
    and dst: "nv12Stride * h \<le> length dst"
  shows "stores {i. \<exists>row < h. \<exists>column < w. i = row * nv12Stride + column} (luma_at bgra bgraStride nv12Stride) dst
    (each (\<lambda>row. each (convertLuma bgra bgraStride nv12Stride row) [0..<w]) [0..<h] dst)"
proof -
  have step: "stores {row * nv12Stride + column} (luma_at bgra bgraStride nv12Stride) d
      (convertLuma bgra bgraStride nv12Stride row column d)"
    if "row < h" "column < w" "length d = length dst" for row column d
  proof -
    have "row * bgraStride + column * 4 + 4 \<le> h * bgraStride"
      by (rule row_fits) (use that width(1) in simp_all)
    moreover have "row * nv12Stride + column + 1 \<le> h * nv12Stride"
      by (rule row_fits) (use that width(2) in simp_all)
    ultimately have "convertLuma bgra bgraStride nv12Stride row column d =
        Some (d[row * nv12Stride + column := pixel_luma bgra (row * bgraStride + column * 4)])"
      using src dst that(3) by (intro convertLuma_at) (simp_all add: mult.commute)
    then show ?thesis
      using row_column[of column nv12Stride row] that(2) width(2)
      by (auto simp: stores_def luma_at_def nth_list_update)
  qed
  have "stores (\<Union>row \<in> set [0..<h]. \<Union>column \<in> set [0..<w]. {row * nv12Stride + column})
      (luma_at bgra bgraStride nv12Stride) dst
      (each (\<lambda>row. each (convertLuma bgra bgraStride nv12Stride row) [0..<w]) [0..<h] dst)"
    by (intro stores_each step) simp_all
  moreover have "(\<Union>row \<in> set [0..<h]. \<Union>column \<in> set [0..<w]. {row * nv12Stride + column}) =
      {i. \<exists>row < h. \<exists>column < w. i = row * nv12Stride + column}" by auto
  ultimately show ?thesis by (simp only:)
qed

lemma chroma_plane:
  assumes width: "2 * w * 4 \<le> bgraStride" "2 * w \<le> nv12Stride" and src: "bgraStride * (2 * h) \<le> length bgra"
    and dst: "base + nv12Stride * h \<le> length dst"
  shows "stores {i. \<exists>row < h. \<exists>column < 2 * w. i = base + row * nv12Stride + column}
    (\<lambda>i. chroma_at bgra bgraStride nv12Stride (i - base)) dst
    (each (\<lambda>row. each (convertChroma bgra bgraStride base nv12Stride row) [0..<w]) [0..<h] dst)"
proof -
  let ?f = "\<lambda>i. chroma_at bgra bgraStride nv12Stride (i - base)"
  have step: "stores {base + row * nv12Stride + 2 * column, base + row * nv12Stride + 2 * column + 1} ?f d
      (convertChroma bgra bgraStride base nv12Stride row column d)"
    if "row < h" "column < w" "length d = length dst" for row column d
  proof -
    let ?i = "2 * row * bgraStride + 2 * column * 4" and ?o = "base + row * nv12Stride + 2 * column"
    have "2 * row * bgraStride + 2 * column * 4 + bgraStride + 8 \<le> 2 * h * bgraStride"
      using row_fits[of "2 * row + 1" "2 * h" "2 * column * 4" 8 bgraStride] that(1,2) width(1) by (simp add: algebra_simps)
    moreover have "row * nv12Stride + 2 * column + 2 \<le> h * nv12Stride"
      by (rule row_fits) (use that width(2) in simp_all)
    ultimately have conv: "convertChroma bgra bgraStride base nv12Stride row column d =
      Some (d[?o := chromaU (block_average bgra ?i bgraStride 0) (block_average bgra ?i bgraStride 1) (block_average bgra ?i bgraStride 2),
        ?o + 1 := chromaV (block_average bgra ?i bgraStride 0) (block_average bgra ?i bgraStride 1) (block_average bgra ?i bgraStride 2)])"
      using src dst that(3) by (intro convertChroma_at) (simp_all add: mult.commute)
    have "2 * column < nv12Stride" "2 * column + 1 < nv12Stride" using that(2) width(2) by simp_all
    note at = row_column[OF this(1), of row] row_column[OF this(2), of row]
    have "?f ?o = chromaU (block_average bgra ?i bgraStride 0) (block_average bgra ?i bgraStride 1) (block_average bgra ?i bgraStride 2)"
      using at(1) by (simp add: chroma_at_def Let_def add.assoc)
    moreover have "?f (?o + 1) =
        chromaV (block_average bgra ?i bgraStride 0) (block_average bgra ?i bgraStride 1) (block_average bgra ?i bgraStride 2)"
      using at(2) by (simp add: chroma_at_def Let_def add.assoc)
    ultimately show ?thesis unfolding conv stores_def by (auto simp: nth_list_update simp del: mult_Suc_right)
  qed
  have "stores (\<Union>row \<in> set [0..<h]. \<Union>column \<in> set [0..<w].
        {base + row * nv12Stride + 2 * column, base + row * nv12Stride + 2 * column + 1}) ?f dst
      (each (\<lambda>row. each (convertChroma bgra bgraStride base nv12Stride row) [0..<w]) [0..<h] dst)"
    by (intro stores_each step) simp_all
  moreover have "(\<Union>row \<in> set [0..<h]. \<Union>column \<in> set [0..<w].
        {base + row * nv12Stride + 2 * column, base + row * nv12Stride + 2 * column + 1}) =
      {i. \<exists>row < h. \<exists>column < 2 * w. i = base + row * nv12Stride + column}" (is "?A = ?B")
  proof
    show "?B \<subseteq> ?A"
    proof
      fix i
      assume "i \<in> ?B"
      then obtain row column where i: "row < h" "column < 2 * w" "i = base + row * nv12Stride + column" by blast
      have "column = 2 * (column div 2) \<or> column = 2 * (column div 2) + 1" by presburger
      then show "i \<in> ?A" using i by (intro UN_I[of row] UN_I[of "column div 2"]) auto
    qed
    have "2 * column < 2 * w \<and> 2 * column + 1 < 2 * w" if "column < w" for column using that by simp
    then show "?A \<subseteq> ?B" by (fastforce simp: add.assoc)
  qed
  ultimately show ?thesis by (simp only:)
qed

subsection \<open>The conversion\<close>

lemma convert_planes:
  assumes "bgraToNv12 bgra bgraStride width height nv12 nv12Stride \<noteq> Some (E_INVALIDARG, nv12)"
    and "bgraToNv12 bgra bgraStride width height nv12 nv12Stride \<noteq> Some (HRESULT_FROM_WIN32 ERROR_INSUFFICIENT_BUFFER, nv12)"
  shows "\<exists>out. bgraToNv12 bgra bgraStride width height nv12 nv12Stride = Some (S_OK, out) \<and> length out = length nv12 \<and>
    (\<forall>row < unat height. \<forall>column < unat width. out ! (row * unat nv12Stride + column) =
       pixel_luma bgra (row * unat bgraStride + column * 4)) \<and>
    (\<forall>row < unat height div 2. \<forall>column < unat width.
       out ! (unat nv12Stride * unat height + row * unat nv12Stride + column) =
       chroma_at bgra (unat bgraStride) (unat nv12Stride) (row * unat nv12Stride + column))"
proof -
  let ?w = "unat width" and ?h = "unat height" and ?bs = "unat bgraStride" and ?ns = "unat nv12Stride"
  note checks = convert_checks[OF assms]
  have w: "2 * (?w div 2) = ?w" and h: "2 * (?h div 2) = ?h" using checks(1,2) by simp_all
  have size: "?ns * ?h \<le> length nv12" using checks(6) by linarith
  obtain mid where mid: "each (\<lambda>row. each (convertLuma bgra ?bs ?ns row) [0..<?w]) [0..<?h] nv12 = Some mid"
    "length mid = length nv12"
    "\<forall>i < length nv12. mid ! i =
      (if i \<in> {i. \<exists>row < ?h. \<exists>column < ?w. i = row * ?ns + column} then luma_at bgra ?bs ?ns i else nv12 ! i)"
    using luma_plane[OF checks(3,4,5) size] unfolding stores_def by blast
  have "stores {i. \<exists>row < ?h div 2. \<exists>column < 2 * (?w div 2). i = ?ns * ?h + row * ?ns + column}
      (\<lambda>i. chroma_at bgra ?bs ?ns (i - ?ns * ?h)) mid
      (each (\<lambda>row. each (convertChroma bgra ?bs (?ns * ?h) ?ns row) [0..<?w div 2]) [0..<?h div 2] mid)"
    by (rule chroma_plane) (use checks mid(2) in \<open>simp_all only: w h mult.assoc\<close>)
  then obtain out where out: "each (\<lambda>row. each (convertChroma bgra ?bs (?ns * ?h) ?ns row) [0..<?w div 2]) [0..<?h div 2] mid
      = Some out" "length out = length mid"
    "\<forall>i < length mid. out ! i = (if i \<in> {i. \<exists>row < ?h div 2. \<exists>column < ?w. i = ?ns * ?h + row * ?ns + column}
      then chroma_at bgra ?bs ?ns (i - ?ns * ?h) else mid ! i)"
    unfolding stores_def w by blast
  have "out ! (row * ?ns + column) = pixel_luma bgra (row * ?bs + column * 4)" if "row < ?h" "column < ?w" for row column
  proof -
    have "row * ?ns + column + 1 \<le> ?h * ?ns" by (rule row_fits) (use that checks(4) in simp_all)
    then have inside: "row * ?ns + column < ?ns * ?h" by (simp add: mult.commute)
    then have "row * ?ns + column \<notin> {i. \<exists>row < ?h div 2. \<exists>column < ?w. i = ?ns * ?h + row * ?ns + column}" by auto
    then have "out ! (row * ?ns + column) = mid ! (row * ?ns + column)" using out(3) mid(2) inside size by simp
    also have "\<dots> = luma_at bgra ?bs ?ns (row * ?ns + column)" using mid(3) inside size that by auto
    also have "\<dots> = pixel_luma bgra (row * ?bs + column * 4)"
      using row_column[of column ?ns row] that(2) checks(4) by (simp add: luma_at_def)
    finally show ?thesis .
  qed
  moreover have "out ! (?ns * ?h + row * ?ns + column) = chroma_at bgra ?bs ?ns (row * ?ns + column)"
    if "row < ?h div 2" "column < ?w" for row column
  proof -
    have "row * ?ns + column + 1 \<le> ?h div 2 * ?ns" by (rule row_fits) (use that checks(4) in simp_all)
    then have "?ns * ?h + row * ?ns + column < length mid" using checks(6) mid(2) by (simp add: mult.commute)
    then have "out ! (?ns * ?h + row * ?ns + column) = chroma_at bgra ?bs ?ns (?ns * ?h + row * ?ns + column - ?ns * ?h)"
      using out(3) that by auto
    then show ?thesis by (simp add: add.assoc)
  qed
  moreover have "bgraToNv12 bgra bgraStride width height nv12 nv12Stride = Some (S_OK, out)"
    unfolding checks(7) mid(1) option.case out(1) by simp
  ultimately show ?thesis using out(2) mid(2) by (intro exI[of _ out]) simp
qed

lemma uint_u8: "uint (b :: u8) \<le> 255"
  using unat_u8_lt[of b] by (simp add: uint_nat del: of_nat_unat)

lemma clampByte_value: "0 \<le> v \<Longrightarrow> v \<le> 255 \<Longrightarrow> uint (clampByte v) = v"
  by (simp add: clampByte_def uint_word_of_int)

lemma luma_studio: "16 \<le> uint (luma b g r) \<and> uint (luma b g r) \<le> 235"
proof -
  have bytes: "0 \<le> uint b" "uint b \<le> 255" "0 \<le> uint g" "uint g \<le> 255" "0 \<le> uint r" "uint r \<le> 255"
    by (simp_all add: uint_u8)
  let ?v = "16 + (16 * uint b + 157 * uint g + 47 * uint r + 128) div 256"
  have v: "16 \<le> ?v" "?v \<le> 235" using bytes by linarith+
  have "luma b g r = clampByte ?v" by (simp add: luma_def drop_bit_eq_div)
  then have "uint (luma b g r) = ?v" using clampByte_value[of ?v] v by simp
  then show ?thesis using v by simp
qed

lemma average4_range: "0 \<le> average4 a b c d \<and> average4 a b c d \<le> 255"
proof -
  have "0 \<le> uint a" "0 \<le> uint b" "0 \<le> uint c" "0 \<le> uint d" by simp_all
  moreover from this have "average4 a b c d = (uint a + uint b + uint c + uint d + 2) div 4"
    unfolding average4_def by (intro sdiv_nonneg) linarith+
  ultimately show ?thesis using uint_u8[of a] uint_u8[of b] uint_u8[of c] uint_u8[of d] by linarith
qed

lemma rounded_range: "- k * 256 \<le> v \<Longrightarrow> v \<le> k * 256 + 127 \<Longrightarrow> 0 \<le> k \<Longrightarrow> - k \<le> divideRounded256 v \<and> divideRounded256 v \<le> k"
  by (auto simp: divideRounded256_def sdiv_nonneg)

lemma chroma_range:
  assumes "0 \<le> b \<and> b \<le> 255" and "0 \<le> g \<and> g \<le> 255" and "0 \<le> r \<and> r \<le> 255"
  shows "15 \<le> uint (chromaU b g r) \<and> uint (chromaU b g r) \<le> 241"
    and "16 \<le> uint (chromaV b g r) \<and> uint (chromaV b g r) \<le> 240"
proof -
  have u: "- 113 \<le> divideRounded256 (113 * b - 87 * g - 26 * r) \<and> divideRounded256 (113 * b - 87 * g - 26 * r) \<le> 113"
    by (rule rounded_range) (use assms in linarith)+
  then show "15 \<le> uint (chromaU b g r) \<and> uint (chromaU b g r) \<le> 241"
    unfolding chromaU_def by (subst (1 2) clampByte_value) simp_all
  have v: "- 112 \<le> divideRounded256 (- 10 * b - 102 * g + 112 * r) \<and> divideRounded256 (- 10 * b - 102 * g + 112 * r) \<le> 112"
    by (rule rounded_range) (use assms in linarith)+
  then show "16 \<le> uint (chromaV b g r) \<and> uint (chromaV b g r) \<le> 240"
    unfolding chromaV_def by (subst (1 2) clampByte_value) simp_all
qed

lemma chroma_at_range: "15 \<le> uint (chroma_at bgra bs ns j) \<and> uint (chroma_at bgra bs ns j) \<le> 241"
proof -
  have "0 \<le> block_average bgra i bs c \<and> block_average bgra i bs c \<le> 255" for i c
    unfolding block_average_def by (rule average4_range)
  note ranges = chroma_range[OF this this this]
  show ?thesis
  proof (cases "even (j mod ns)")
    case True
    then show ?thesis using ranges(1) by (simp add: chroma_at_def Let_def)
  next
    case False
    have "15 \<le> (16 :: int)" "240 \<le> (241 :: int)" by simp_all
    then show ?thesis unfolding chroma_at_def Let_def if_not_P[OF False] using ranges(2) by (meson order_trans)
  qed
qed

text \<open>
  Property C34: the conversion is safe and exact.  Whatever sizes, strides and dimensions it is called with, \<open>bgraToNv12\<close> touches
  nothing outside its two buffers, and either leaves the destination as it was and returns an
  error, or returns \<open>S_OK\<close>, with the luma of every pixel at its place, between 16 and 235, and the
  two chroma samples of every block at theirs, between 15 and 241.
\<close>

theorem conversion_safe:
  "\<exists>hr out. bgraToNv12 bgra bgraStride width height nv12 nv12Stride = Some (hr, out) \<and> length out = length nv12 \<and>
    (hr \<noteq> S_OK \<longrightarrow> out = nv12) \<and>
    (hr = S_OK \<longrightarrow>
      (\<forall>row < unat height. \<forall>column < unat width.
         out ! (row * unat nv12Stride + column) = pixel_luma bgra (row * unat bgraStride + column * 4) \<and>
         16 \<le> uint (out ! (row * unat nv12Stride + column)) \<and> uint (out ! (row * unat nv12Stride + column)) \<le> 235) \<and>
      (\<forall>row < unat height div 2. \<forall>column < unat width.
         let i = unat nv12Stride * unat height + row * unat nv12Stride + column
         in out ! i = chroma_at bgra (unat bgraStride) (unat nv12Stride) (row * unat nv12Stride + column) \<and>
            15 \<le> uint (out ! i) \<and> uint (out ! i) \<le> 241))"
proof -
  consider (invalid) "bgraToNv12 bgra bgraStride width height nv12 nv12Stride = Some (E_INVALIDARG, nv12)"
    | (small) "bgraToNv12 bgra bgraStride width height nv12 nv12Stride = Some (HRESULT_FROM_WIN32 ERROR_INSUFFICIENT_BUFFER, nv12)"
    | (converted) "bgraToNv12 bgra bgraStride width height nv12 nv12Stride \<noteq> Some (E_INVALIDARG, nv12)"
        "bgraToNv12 bgra bgraStride width height nv12 nv12Stride \<noteq> Some (HRESULT_FROM_WIN32 ERROR_INSUFFICIENT_BUFFER, nv12)"
    by blast
  then show ?thesis
  proof cases
    case converted
    from convert_planes[OF this] obtain out where out: "bgraToNv12 bgra bgraStride width height nv12 nv12Stride = Some (S_OK, out)"
      "length out = length nv12"
      "\<forall>row < unat height. \<forall>column < unat width. out ! (row * unat nv12Stride + column) =
         pixel_luma bgra (row * unat bgraStride + column * 4)"
      "\<forall>row < unat height div 2. \<forall>column < unat width.
         out ! (unat nv12Stride * unat height + row * unat nv12Stride + column) =
         chroma_at bgra (unat bgraStride) (unat nv12Stride) (row * unat nv12Stride + column)"
      by blast
    show ?thesis
      by (rule exI[of _ S_OK], rule exI[of _ out])
        (simp add: out(1,2) out(3)[rule_format] out(4)[rule_format] Let_def chroma_at_range luma_studio pixel_luma_def)
  qed simp_all
qed

text \<open>A white block of two by two pixels is converted.\<close>

lemma white_block:
  "bgraToNv12 (replicate 16 255) 8 2 2 (replicate 6 0) 2 = Some (S_OK, [235, 235, 235, 235, 128, 128])"
  by code_simp

theorem conversion_safe_witness:
  "\<exists>out. bgraToNv12 (replicate 16 255) 8 2 2 (replicate 6 0) 2 = Some (S_OK, out) \<and>
    (\<forall>row < 2. \<forall>column < 2. out ! (row * 2 + column) = pixel_luma (replicate 16 255) (row * 8 + column * 4))"
  using conversion_safe[of "replicate 16 255" 8 2 2 "replicate 6 0" 2] white_block
  by (auto simp: Let_def)

text \<open>The blue of the primary colour lies outside the studio range of chroma, which ends at 240.\<close>

theorem primary_blue_out_of_range:
  "bgraToNv12 (concat (replicate 4 [255, 0, 0, 255])) 8 2 2 (replicate 6 0) 2 = Some (S_OK, [32, 32, 32, 32, 241, 118])"
  by code_simp

end
