(* ===== verification/Recorder.thy ===== *)
theory Recorder
  imports PixelConvert
begin

text \<open>
  The MP4 recorder, \<open>windows/platform/src/mp4_recorder.cpp\<close>: its queue of frames, its calls and its worker, interleaved
  at the locks they take, the clock of a recording, and the two files it deals with.  The writer is
  Media Foundation's: its results are arguments, and what it leaves in the file is what it was given.
\<close>

subsection \<open>Configurations and frames\<close>

definition kMaximumQueueCapacity :: u64 where "kMaximumQueueCapacity = 16"

definition E_OUTOFMEMORY :: hresult where "E_OUTOFMEMORY = HRESULT_FROM_WIN32 14"
definition ERROR_NOT_ENOUGH_MEMORY :: u32 where "ERROR_NOT_ENOUGH_MEMORY = 8"

record recorder_config =
  cf_outputPath :: string
  cf_width :: u32
  cf_height :: u32
  cf_fpsNumerator :: u32
  cf_fpsDenominator :: u32
  cf_bitrateBitsPerSecond :: u32
  cf_queueCapacity :: u64

definition default_recorder_config :: recorder_config where
  "default_recorder_config = \<lparr>cf_outputPath = '''', cf_width = 1920, cf_height = 1080, cf_fpsNumerator = 30,
     cf_fpsDenominator = 1, cf_bitrateBitsPerSecond = 12000000, cf_queueCapacity = 4\<rparr>"

text \<open>\<open>ordinal\<close> is \<open>CompareStringOrdinal\<close> without case.\<close>

definition hasMp4Extension :: "(string \<Rightarrow> string \<Rightarrow> bool) \<Rightarrow> string \<Rightarrow> bool" where
  "hasMp4Extension ordinal path =
     (if length path < 4 then False else ordinal (drop (length path - 4) path) ''.mp4'')"

definition validateConfig :: "(string \<Rightarrow> string \<Rightarrow> bool) \<Rightarrow> recorder_config \<Rightarrow> hresult" where
  "validateConfig ordinal config =
     (if cf_outputPath config = [] \<or> \<not> hasMp4Extension ordinal (cf_outputPath config) \<or>
         cf_width config = 0 \<or> cf_height config = 0 \<or> and (cf_width config) 1 \<noteq> 0 \<or> and (cf_height config) 1 \<noteq> 0 \<or>
         cf_width config > kRingMaxWidth \<or> cf_height config > kRingMaxHeight \<or> cf_fpsNumerator config = 0 \<or>
         cf_fpsDenominator config = 0 \<or> cf_bitrateBitsPerSecond config = 0 \<or>
         cf_queueCapacity config = 0 \<or> cf_queueCapacity config > kMaximumQueueCapacity
      then E_INVALIDARG
      else (let frameDuration = (10000000 :: u64) * ucast (cf_fpsDenominator config) div ucast (cf_fpsNumerator config);
                bgraBytes = (ucast (cf_width config) :: u64) * ucast (cf_height config) * 4;
                nv12Bytes = (ucast (cf_width config) :: u64) * ucast (cf_height config) * 3 div 2
            in if frameDuration = 0 \<or> bgraBytes > -1 \<or> nv12Bytes > 0xFFFFFFFF then E_INVALIDARG else S_OK))"

record preview_frame =
  bf_pixels :: bytes
  bf_width :: u32
  bf_height :: u32
  bf_stride :: u32
  bf_ptsMicros :: u64

definition validFrame :: "preview_frame \<Rightarrow> recorder_config \<Rightarrow> bool" where
  "validFrame frame config =
     (if bf_width frame \<noteq> cf_width config \<or> bf_height frame \<noteq> cf_height config \<or>
         bf_stride frame < bf_width frame * 4 then False
      else unat ((ucast (bf_stride frame) :: u64) * ucast (bf_height frame)) \<le> length (bf_pixels frame))"

subsection \<open>The clock of a recording\<close>

text \<open>The times of the samples, in units of 100 ns; a \<open>LONGLONG\<close> is an \<^typ>\<open>int\<close> up to its largest value.\<close>

definition kMaximumTime :: int where "kMaximumTime = 9223372036854775807"

record timeline =
  tl_haveOrigin :: bool
  tl_originMicros :: u64
  tl_last :: int
  tl_duration :: int

definition new_timeline :: "recorder_config \<Rightarrow> timeline" where
  "new_timeline config = \<lparr>tl_haveOrigin = False, tl_originMicros = 0, tl_last = -1,
     tl_duration = uint ((10000000 :: u64) * ucast (cf_fpsDenominator config) div ucast (cf_fpsNumerator config))\<rparr>"

definition next_time :: "u64 \<Rightarrow> timeline \<Rightarrow> int \<times> timeline" where
  "next_time ptsMicros t =
     (if \<not> tl_haveOrigin t then (0, t\<lparr>tl_haveOrigin := True, tl_originMicros := ptsMicros, tl_last := 0\<rparr>)
      else (let candidate =
                  (if ptsMicros \<ge> tl_originMicros t
                   then (let delta = ptsMicros - tl_originMicros t
                         in if delta > 9223372036854775807 div 10 then kMaximumTime else uint (delta * 10))
                   else 0);
                minimumNext = (if tl_last t > kMaximumTime - tl_duration t then kMaximumTime
                               else tl_last t + tl_duration t);
                candidate = (if candidate < minimumNext then minimumNext else candidate)
            in (candidate, t\<lparr>tl_last := candidate\<rparr>)))"

subsection \<open>The recorder\<close>

datatype recorder_state = RecIdle | RecStarting | RecRecording | RecFinalizing | RecCompleted | RecFailed
datatype encoder_path = UnknownPath | HardwareTransformsEnabled | SoftwareOnly

record recorder_snapshot =
  rs_state :: recorder_state
  rs_encoderPath :: encoder_path
  rs_submittedFrames :: u64
  rs_writtenFrames :: u64
  rs_droppedFrames :: u64
  rs_duration100ns :: u64
  rs_queuedFrames :: u64
  rs_error :: hresult
  rs_outputPath :: string
  rs_partialPath :: string

definition new_snapshot :: recorder_snapshot where
  "new_snapshot = \<lparr>rs_state = RecIdle, rs_encoderPath = UnknownPath, rs_submittedFrames = 0, rs_writtenFrames = 0,
     rs_droppedFrames = 0, rs_duration100ns = 0, rs_queuedFrames = 0, rs_error = S_OK, rs_outputPath = '''',
     rs_partialPath = ''''\<rparr>"

text \<open>A file of a writer: its samples, each with its time and duration, and whether it was finalized.\<close>

record movie =
  mv_samples :: "(int \<times> int \<times> bytes) list"
  mv_finalized :: bool

text \<open>
  Where the worker is: it opens the writer, has it, waits for a frame, holds one, has written it; ends the file,
  renames it, and publishes the result; or it fails, with the frames it gives up.
\<close>

datatype recorder_thread = RunStarted | RunOpened encoder_path | RunWaiting | RunHolding preview_frame | RunWritten int
  | RunFinalizing | RunFinalize | RunRename | RunRenamed "hresult option" | RunFailing hresult nat
  | RunFailDelete hresult nat | RunFailStatus hresult nat | RunEnded

datatype recorder_call = NoRecorderCall | RecStartDelete recorder_config string | RecStartSession recorder_config string
  | RecStartSnapshot | RecStartThread | RecStartUndo | RecStartFailed | RecStartJoin recorder_config string | RecStopJoin

text \<open>
  The recorder, with the two files: \<open>mr_output\<close> is the file under the output path, \<open>mr_partial\<close> the one under the
  partial path of the session.  \<open>mr_uncounted\<close> is not in the code: it is the number of frames that
  were queued when \<open>start\<close> set the counters to zero.
\<close>

record recorder =
  mr_status :: recorder_snapshot
  mr_queue :: "preview_frame list"
  mr_config :: recorder_config
  mr_partialPath :: string
  mr_sessionActive :: bool
  mr_stopRequested :: bool
  mr_worker :: "recorder_thread option"
  mr_call :: recorder_call
  mr_timeline :: timeline
  mr_output :: "movie option"
  mr_partial :: "movie option"
  mr_uncounted :: nat

definition new_recorder :: "movie option \<Rightarrow> recorder" where
  "new_recorder output = \<lparr>mr_status = new_snapshot, mr_queue = [], mr_config = default_recorder_config, mr_partialPath = '''',
     mr_sessionActive = False, mr_stopRequested = False, mr_worker = None, mr_call = NoRecorderCall,
     mr_timeline = new_timeline default_recorder_config, mr_output = output, mr_partial = None, mr_uncounted = 0\<rparr>"

abbreviation on_status :: "(recorder_snapshot \<Rightarrow> recorder_snapshot) \<Rightarrow> recorder \<Rightarrow> recorder" where
  "on_status f r \<equiv> r\<lparr>mr_status := f (mr_status r)\<rparr>"

datatype recorder_result = RecHr hresult | RecInvalidRequest | RecNotAccepting

text \<open>\<open>enqueue\<close>; a null pointer is \<^const>\<open>None\<close>.\<close>

definition enqueue :: "preview_frame option \<Rightarrow> recorder \<Rightarrow> recorder_result \<times> recorder" where
  "enqueue frame r =
     (case frame of
        None \<Rightarrow> (RecHr E_POINTER, r)
      | Some f \<Rightarrow>
          if \<not> mr_sessionActive r \<or> mr_stopRequested r then (RecNotAccepting, r)
          else if \<not> validFrame f (mr_config r) then (RecHr E_INVALIDARG, r)
          else (let dropped = length (mr_queue r) \<ge> unat (cf_queueCapacity (mr_config r));
                    queue = (if dropped then tl (mr_queue r) else mr_queue r) @ [f]
                in (RecHr (if dropped then S_FALSE else S_OK),
                    on_status (\<lambda>current. current\<lparr>rs_submittedFrames := rs_submittedFrames current + 1,
                        rs_droppedFrames := (if dropped then rs_droppedFrames current + 1 else rs_droppedFrames current),
                        rs_queuedFrames := word_of_nat (length queue)\<rparr>)
                      (r\<lparr>mr_queue := queue\<rparr>))))"

text \<open>
  \<open>start\<close> up to the check of the lifecycle lock, with the full path or the error of \<open>absolutePath\<close>, and \<open>stop\<close>
  up to its join.
\<close>

definition recorder_start ::
  "(string \<Rightarrow> string \<Rightarrow> bool) \<Rightarrow> recorder_config \<Rightarrow> hresult + string \<Rightarrow> string \<Rightarrow> recorder \<Rightarrow> recorder_result \<times> recorder" where
  "recorder_start ordinal requested path partialPath r =
     (if FAILED (validateConfig ordinal requested) then (RecHr (validateConfig ordinal requested), r)
      else case path of
        Inl hr \<Rightarrow> (RecHr hr, r)
      | Inr outputPath \<Rightarrow>
          if mr_sessionActive r then (RecInvalidRequest, r)
          else (RecHr S_OK, r\<lparr>mr_call := RecStartJoin (requested\<lparr>cf_outputPath := outputPath\<rparr>) partialPath\<rparr>))"

definition recorder_stop :: "recorder \<Rightarrow> recorder" where
  "recorder_stop r =
     (let r = r\<lparr>mr_call := RecStopJoin\<rparr>
      in if mr_sessionActive r then r\<lparr>mr_stopRequested := True, mr_sessionActive := False\<rparr> else r)"

definition join_worker :: "recorder_call \<Rightarrow> recorder \<Rightarrow> recorder" where
  "join_worker next r =
     (case mr_worker r of
        None \<Rightarrow> r\<lparr>mr_call := next\<rparr>
      | Some w \<Rightarrow> if w = RunEnded then r\<lparr>mr_worker := None, mr_call := next\<rparr> else r)"

text \<open>
  A step of the call that holds the lifecycle lock; \<open>ok\<close> is whether the stale partial file could be deleted or was
  missing, and whether the worker could be created.
\<close>

definition call_step :: "bool \<Rightarrow> recorder \<Rightarrow> recorder" where
  "call_step ok r =
     (case mr_call r of
        NoRecorderCall \<Rightarrow> r
      | RecStartJoin config partialPath \<Rightarrow> join_worker (RecStartDelete config partialPath) r
      | RecStartDelete config partialPath \<Rightarrow>
          (if ok then r\<lparr>mr_partial := None, mr_call := RecStartSession config partialPath\<rparr>
           else r\<lparr>mr_call := NoRecorderCall\<rparr>)
      | RecStartSession config partialPath \<Rightarrow>
          r\<lparr>mr_config := config, mr_partialPath := partialPath, mr_queue := [], mr_stopRequested := False,
            mr_sessionActive := True, mr_call := RecStartSnapshot\<rparr>
      | RecStartSnapshot \<Rightarrow>
          r\<lparr>mr_status := new_snapshot\<lparr>rs_state := RecStarting, rs_outputPath := cf_outputPath (mr_config r),
              rs_partialPath := mr_partialPath r\<rparr>,
            mr_uncounted := length (mr_queue r), mr_call := RecStartThread\<rparr>
      | RecStartThread \<Rightarrow>
          (if ok then r\<lparr>mr_worker := Some RunStarted, mr_call := NoRecorderCall\<rparr>
           else r\<lparr>mr_call := RecStartUndo\<rparr>)
      | RecStartUndo \<Rightarrow> r\<lparr>mr_sessionActive := False, mr_call := RecStartFailed\<rparr>
      | RecStartFailed \<Rightarrow>
          on_status (\<lambda>current. current\<lparr>rs_state := RecFailed, rs_error := HRESULT_FROM_WIN32 ERROR_NOT_ENOUGH_MEMORY,
              rs_partialPath := ''''\<rparr>) (r\<lparr>mr_call := NoRecorderCall\<rparr>)
      | RecStopJoin \<Rightarrow> join_worker NoRecorderCall r)"

text \<open>
  \<open>openWriter\<close>: what the factory and \<open>open\<close> give with hardware transforms and without, where \<^const>\<open>None\<close> is no
  writer, and the file that is left when an open fails and the partial file is, or is not, deleted.
\<close>

definition openWriter :: "hresult option \<Rightarrow> hresult option \<Rightarrow> hresult + encoder_path" where
  "openWriter hardware software =
     (case hardware of
        None \<Rightarrow> Inl E_OUTOFMEMORY
      | Some first \<Rightarrow>
          if \<not> FAILED first then Inr HardwareTransformsEnabled
          else case software of
            None \<Rightarrow> Inl E_OUTOFMEMORY
          | Some second \<Rightarrow> if \<not> FAILED second then Inr SoftwareOnly else Inl second)"

text \<open>
  What one step of the worker gets: the openings, the result of the write or of the finalization, the error of the
  rename if any, and whether the partial file could be deleted.  The buffer of the conversion is filled
  anew by every frame, so it is given as zeroes.
\<close>

record writer_env =
  we_hardware :: "hresult option"
  we_software :: "hresult option"
  we_left :: "movie option"
  we_result :: hresult
  we_moveError :: "u32 option"
  we_deleted :: bool

definition convert_frame :: "preview_frame \<Rightarrow> recorder_config \<Rightarrow> (hresult \<times> bytes) option" where
  "convert_frame frame config =
     (let layout = nv12Layout (sint (cf_width config)) (sint (cf_height config)) 0
      in bgraToNv12 (bf_pixels frame) (bf_stride frame) (bf_width frame) (bf_height frame)
           (replicate (nl_totalSize layout) 0) (word_of_int (nl_stride layout)))"

text \<open>The steps of \<open>run\<close> and of \<open>discardAndFail\<close>; \<^const>\<open>None\<close> is an access outside a buffer.\<close>

definition run_step :: "writer_env \<Rightarrow> recorder_thread \<Rightarrow> recorder \<Rightarrow> recorder option" where
  "run_step env w r =
     (let go = (\<lambda>w. r\<lparr>mr_worker := Some w\<rparr>)
      in case w of
           RunStarted \<Rightarrow>
             Some (case openWriter (we_hardware env) (we_software env) of
                     Inl hr \<Rightarrow> (go (RunFailing hr 0))\<lparr>mr_partial := we_left env\<rparr>
                   | Inr path \<Rightarrow>
                       (go (RunOpened path))\<lparr>mr_partial := Some \<lparr>mv_samples = [], mv_finalized = False\<rparr>,
                         mr_timeline := new_timeline (mr_config r)\<rparr>)
         | RunOpened path \<Rightarrow>
             Some (on_status (\<lambda>current. current\<lparr>rs_state := RecRecording, rs_encoderPath := path\<rparr>) (go RunWaiting))
         | RunWaiting \<Rightarrow>
             Some (case mr_queue r of
                     [] \<Rightarrow> if mr_stopRequested r then go RunFinalizing else r
                   | frame # queue \<Rightarrow>
                       on_status (\<lambda>current. current\<lparr>rs_queuedFrames := word_of_nat (length queue)\<rparr>)
                         ((go (RunHolding frame))\<lparr>mr_queue := queue\<rparr>))
         | RunHolding frame \<Rightarrow>
             (case convert_frame frame (mr_config r) of
                None \<Rightarrow> None
              | Some (hr, nv12) \<Rightarrow>
                  if FAILED hr then Some (go (RunFailing hr 1))
                  else (let (timestamp, t) = next_time (bf_ptsMicros frame) (mr_timeline r); r = r\<lparr>mr_timeline := t\<rparr>
                        in if FAILED (we_result env)
                           then Some (r\<lparr>mr_worker := Some (RunFailing (we_result env) 1)\<rparr>)
                           else Some (r\<lparr>mr_worker := Some (RunWritten timestamp),
                                  mr_partial := map_option (mv_samples_update (\<lambda>samples. samples @ [(timestamp, tl_duration t, nv12)]))
                                    (mr_partial r)\<rparr>)))
         | RunWritten timestamp \<Rightarrow>
             Some (on_status (\<lambda>current. current\<lparr>rs_writtenFrames := rs_writtenFrames current + 1,
                 rs_duration100ns := word_of_int timestamp + word_of_int (tl_duration (mr_timeline r))\<rparr>) (go RunWaiting))
         | RunFinalizing \<Rightarrow> Some (on_status (\<lambda>current. current\<lparr>rs_state := RecFinalizing\<rparr>) (go RunFinalize))
         | RunFinalize \<Rightarrow>
             Some (if FAILED (we_result env) then go (RunFailing (we_result env) 0)
                   else (go RunRename)\<lparr>mr_partial := map_option (mv_finalized_update (\<lambda>_. True)) (mr_partial r)\<rparr>)
         | RunRename \<Rightarrow>
             Some (case we_moveError env of
                     Some e \<Rightarrow> go (RunRenamed (Some (hrFromLastError e)))
                   | None \<Rightarrow> (go (RunRenamed None))\<lparr>mr_output := mr_partial r, mr_partial := None\<rparr>)
         | RunRenamed failure \<Rightarrow>
             Some (case failure of
                     Some hr \<Rightarrow>
                       on_status (\<lambda>current. current\<lparr>rs_state := RecFailed, rs_error := hr, rs_queuedFrames := 0\<rparr>) (go RunEnded)
                   | None \<Rightarrow>
                       on_status (\<lambda>current. current\<lparr>rs_state := RecCompleted, rs_error := S_OK, rs_queuedFrames := 0,
                           rs_partialPath := ''''\<rparr>) (go RunEnded))
         | RunFailing hr frames \<Rightarrow>
             Some ((go (RunFailDelete hr (frames + length (mr_queue r))))
                     \<lparr>mr_queue := [], mr_stopRequested := True, mr_sessionActive := False\<rparr>)
         | RunFailDelete hr discarded \<Rightarrow>
             Some ((go (RunFailStatus hr discarded))\<lparr>mr_partial := (if we_deleted env then None else mr_partial r)\<rparr>)
         | RunFailStatus hr discarded \<Rightarrow>
             Some (on_status (\<lambda>current. current\<lparr>rs_state := RecFailed, rs_error := hr,
                 rs_droppedFrames := rs_droppedFrames current + word_of_nat discarded, rs_queuedFrames := 0,
                 rs_partialPath := ''''\<rparr>) (go RunEnded))
         | RunEnded \<Rightarrow> Some r)"

datatype recorder_event = Enqueue "preview_frame option"
  | StartRecorder "string \<Rightarrow> string \<Rightarrow> bool" recorder_config "hresult + string" string
  | StopRecorder | RecorderCall bool | RecorderWorker writer_env

definition recorder_step :: "recorder \<Rightarrow> recorder_event \<Rightarrow> recorder option" where
  "recorder_step r e =
     (case e of
        Enqueue frame \<Rightarrow> Some (snd (enqueue frame r))
      | StartRecorder ordinal config path partialPath \<Rightarrow>
          Some (if mr_call r = NoRecorderCall then snd (recorder_start ordinal config path partialPath r) else r)
      | StopRecorder \<Rightarrow> Some (if mr_call r = NoRecorderCall then recorder_stop r else r)
      | RecorderCall ok \<Rightarrow> Some (call_step ok r)
      | RecorderWorker env \<Rightarrow> (case mr_worker r of None \<Rightarrow> Some r | Some w \<Rightarrow> run_step env w r))"

fun recorder_run :: "recorder_event list \<Rightarrow> recorder \<Rightarrow> recorder option" where
  "recorder_run [] r = Some r"
| "recorder_run (e # es) r = (case recorder_step r e of None \<Rightarrow> None | Some r' \<Rightarrow> recorder_run es r')"

subsection \<open>The times of the samples\<close>

definition timeline_ok :: "timeline \<Rightarrow> bool" where
  "timeline_ok t \<longleftrightarrow> 0 \<le> tl_duration t \<and> tl_duration t \<le> kMaximumTime \<and> (tl_haveOrigin t \<longrightarrow> 0 \<le> tl_last t \<and> tl_last t \<le> kMaximumTime)"

lemma next_time_ok:
  assumes "timeline_ok t" and "next_time pts t = (timestamp, t')"
  shows "timeline_ok t'" and "tl_haveOrigin t'" and "tl_last t' = timestamp" and "tl_duration t' = tl_duration t"
    and "0 \<le> timestamp" and "timestamp \<le> kMaximumTime"
    and "tl_haveOrigin t \<Longrightarrow> min kMaximumTime (tl_last t + tl_duration t) \<le> timestamp"
proof -
  have scaled: "uint (delta * 10) \<le> kMaximumTime" if "\<not> delta > 9223372036854775807 div 10" for delta :: u64
  proof -
    have "delta \<le> 922337203685477580" using that by simp
    then have "uint delta \<le> 922337203685477580" by (simp add: word_le_def)
    moreover from this have "uint (delta * 10) = uint delta * 10" by (simp add: uint_word_ariths)
    ultimately show ?thesis by (simp add: kMaximumTime_def)
  qed
  define c where "c = (if pts \<ge> tl_originMicros t
    then (let delta = pts - tl_originMicros t
          in if delta > 9223372036854775807 div 10 then kMaximumTime else uint (delta * 10))
    else 0)"
  define m where "m = (if tl_last t > kMaximumTime - tl_duration t then kMaximumTime else tl_last t + tl_duration t)"
  have top: "0 \<le> kMaximumTime" by (simp add: kMaximumTime_def)
  have c: "0 \<le> c \<and> c \<le> kMaximumTime"
  proof (cases "tl_originMicros t \<le> pts \<and> \<not> pts - tl_originMicros t > 9223372036854775807 div 10")
    case True
    then have "c = uint ((pts - tl_originMicros t) * 10)" unfolding c_def Let_def by (simp only: if_True if_False simp_thms)
    then show ?thesis using scaled[OF conjunct2[OF True]] by (simp only: unsigned_greater_eq simp_thms)
  next
    case False
    then have "c = 0 \<or> c = kMaximumTime" unfolding c_def Let_def by (simp only: if_True if_False split: if_split) blast
    then show ?thesis using top by auto
  qed
  have m: "timeline_ok t \<Longrightarrow> tl_haveOrigin t \<Longrightarrow> 0 \<le> m \<and> m \<le> kMaximumTime" "min kMaximumTime (tl_last t + tl_duration t) \<le> m"
    by (auto simp: m_def timeline_ok_def kMaximumTime_def)
  have result: "(timestamp, t') = (if \<not> tl_haveOrigin t then (0, t\<lparr>tl_haveOrigin := True, tl_originMicros := pts, tl_last := 0\<rparr>)
      else (if c < m then m else c, t\<lparr>tl_last := if c < m then m else c\<rparr>))"
    using assms(2) unfolding next_time_def Let_def c_def m_def by (simp only:)
  show "timeline_ok t'" "tl_haveOrigin t'" "tl_last t' = timestamp" "tl_duration t' = tl_duration t"
    "0 \<le> timestamp" "timestamp \<le> kMaximumTime"
    "tl_haveOrigin t \<Longrightarrow> min kMaximumTime (tl_last t + tl_duration t) \<le> timestamp"
    using result assms(1) c m by (auto simp: timeline_ok_def kMaximumTime_def split: if_splits)
qed

lemma new_timeline_ok: "timeline_ok (new_timeline config)"
proof -
  let ?w = "(10000000 :: u64) * ucast (cf_fpsDenominator config)" and ?v = "ucast (cf_fpsNumerator config) :: u64"
  have "uint (cf_fpsDenominator config) < 2 ^ 32" using uint_bounded[of "cf_fpsDenominator config"] by simp
  then have "uint ?w = 10000000 * uint (cf_fpsDenominator config)" "10000000 * uint (cf_fpsDenominator config) \<le> kMaximumTime"
    by (simp_all add: uint_word_ariths unsigned_ucast_eq kMaximumTime_def take_bit_int_eq_self)
  moreover have "unat (?w div ?v) \<le> unat ?w" by (simp add: unat_div)
  then have "int (unat (?w div ?v)) \<le> int (unat ?w)" by (simp only: of_nat_le_iff)
  then have "uint (?w div ?v) \<le> uint ?w" by simp
  ultimately show ?thesis by (simp add: timeline_ok_def new_timeline_def)
qed

text \<open>The samples of a recording follow one another without overlap, until the clock reaches its largest value.\<close>

definition ordered :: "(int \<times> int \<times> bytes) list \<Rightarrow> bool" where
  "ordered samples \<longleftrightarrow> successively (\<lambda>(time, duration, _) (later, _, _). min kMaximumTime (time + duration) \<le> later) samples \<and>
     (\<forall>(time, _, _) \<in> set samples. 0 \<le> time \<and> time \<le> kMaximumTime)"

lemma ordered_append:
  assumes "ordered samples" and "0 \<le> time" and "time \<le> kMaximumTime"
    and "samples \<noteq> [] \<Longrightarrow> min kMaximumTime (fst (last samples) + fst (snd (last samples))) \<le> time"
  shows "ordered (samples @ [(time, duration, data)])"
  using assms by (cases samples rule: rev_cases) (auto simp: ordered_def successively_append_iff)

subsection \<open>The frames a recorder has\<close>

fun frames_of :: "recorder_thread \<Rightarrow> nat" where
  "frames_of (RunHolding frame) = 1"
| "frames_of (RunWritten timestamp) = 1"
| "frames_of (RunFailing hr frames) = frames"
| "frames_of (RunFailDelete hr discarded) = discarded"
| "frames_of (RunFailStatus hr discarded) = discarded"
| "frames_of _ = 0"

definition worker_frames :: "recorder \<Rightarrow> nat" where
  "worker_frames r = (case mr_worker r of None \<Rightarrow> 0 | Some w \<Rightarrow> frames_of w)"

definition counted :: "recorder \<Rightarrow> bool" where
  "counted r \<longleftrightarrow> rs_submittedFrames (mr_status r) + word_of_nat (mr_uncounted r) =
     rs_writtenFrames (mr_status r) + rs_droppedFrames (mr_status r) + word_of_nat (length (mr_queue r) + worker_frames r)"

text \<open>The configurations that \<open>start\<close> accepts, and the part of a start that has no worker.\<close>

definition capacity_ok :: "recorder_config \<Rightarrow> bool" where
  "capacity_ok config \<longleftrightarrow> 0 < unat (cf_queueCapacity config) \<and> unat (cf_queueCapacity config) \<le> 16"

fun call_ok :: "recorder_call \<Rightarrow> bool" where
  "call_ok (RecStartJoin config partialPath) = capacity_ok config"
| "call_ok (RecStartDelete config partialPath) = capacity_ok config"
| "call_ok (RecStartSession config partialPath) = capacity_ok config"
| "call_ok _ = True"

fun without_worker :: "recorder_call \<Rightarrow> bool" where
  "without_worker NoRecorderCall = False"
| "without_worker (RecStartJoin config partialPath) = False"
| "without_worker RecStopJoin = False"
| "without_worker _ = True"

definition count_ok :: "recorder \<Rightarrow> bool" where
  "count_ok r \<longleftrightarrow> capacity_ok (mr_config r) \<and> call_ok (mr_call r) \<and> (without_worker (mr_call r) \<longrightarrow> mr_worker r = None) \<and>
     length (mr_queue r) \<le> 16 \<and> (mr_call r \<noteq> RecStartSnapshot \<longrightarrow> counted r)"

lemma validated_capacity: "\<not> FAILED (validateConfig ordinal config) \<Longrightarrow> capacity_ok (config\<lparr>cf_outputPath := path\<rparr>)"
  by (auto simp: validateConfig_def capacity_ok_def kMaximumQueueCapacity_def unat_gt_0 word_le_nat_alt not_less split: if_splits)

lemma enqueue_count: "count_ok r \<Longrightarrow> count_ok (snd (enqueue frame r))"
  by (cases "mr_queue r")
    (auto simp: enqueue_def count_ok_def counted_def worker_frames_def capacity_ok_def Let_def split: option.splits)

lemma start_count: "count_ok r \<Longrightarrow> mr_call r = NoRecorderCall \<Longrightarrow> count_ok (snd (recorder_start ordinal config path partialPath r))"
  by (auto simp: recorder_start_def count_ok_def counted_def worker_frames_def validated_capacity split: sum.splits)

lemma stop_count: "count_ok r \<Longrightarrow> mr_call r = NoRecorderCall \<Longrightarrow> count_ok (recorder_stop r)"
  by (auto simp: recorder_stop_def count_ok_def counted_def worker_frames_def Let_def)

lemma call_count: "count_ok r \<Longrightarrow> count_ok (call_step ok r)"
  by (cases "mr_call r")
    (auto simp: call_step_def join_worker_def count_ok_def counted_def worker_frames_def new_snapshot_def split: option.splits if_splits)

lemma run_count: "count_ok r \<Longrightarrow> mr_worker r = Some w \<Longrightarrow> run_step env w r = Some r' \<Longrightarrow> count_ok r'"
  by (cases w)
    (auto simp: run_step_def count_ok_def counted_def worker_frames_def Let_def
      split: option.splits sum.splits list.splits prod.splits if_splits)

lemma conversion_total: "\<exists>hr out. bgraToNv12 bgra bgraStride width height nv12 nv12Stride = Some (hr, out)"
  using convert_planes by blast

lemma run_defined: "run_step env w r \<noteq> None"
proof (cases w)
  case (RunHolding frame)
  obtain hr out where "convert_frame frame (mr_config r) = Some (hr, out)"
    using conversion_total unfolding convert_frame_def Let_def by blast
  then show ?thesis by (simp add: run_step_def RunHolding Let_def split: prod.split)
qed (simp_all add: run_step_def Let_def)

lemma recorder_step_defined: "\<exists>r'. recorder_step r e = Some r'"
  using run_defined by (cases e) (auto simp: recorder_step_def split: option.split)

lemma step_count: "count_ok r \<Longrightarrow> recorder_step r e = Some r' \<Longrightarrow> count_ok r'"
  by (cases e) (auto simp: recorder_step_def enqueue_count start_count stop_count call_count intro: run_count
      split: option.splits if_splits)

text \<open>An invariant of the steps holds after every run, and every run has a result.\<close>

lemma recorder_invariant:
  assumes "\<And>r e r'. P r \<Longrightarrow> recorder_step r e = Some r' \<Longrightarrow> P r'" and "P r"
  shows "\<exists>r'. recorder_run es r = Some r' \<and> P r'"
  using assms(2)
proof (induction es arbitrary: r)
  case (Cons e es)
  obtain r' where "recorder_step r e = Some r'" using recorder_step_defined by blast
  then show ?case using Cons.IH[OF assms(1)[OF Cons.prems]] by simp
qed simp

lemma new_count: "count_ok (new_recorder old)"
  by (simp add: count_ok_def counted_def new_recorder_def worker_frames_def capacity_ok_def default_recorder_config_def
      new_snapshot_def)

subsection \<open>The two files\<close>

definition recording :: "bool \<Rightarrow> nat \<Rightarrow> recorder \<Rightarrow> bool" where
  "recording finalized uncounted r \<longleftrightarrow> (\<exists>m. mr_partial r = Some m \<and> mv_finalized m = finalized \<and> ordered (mv_samples m) \<and>
     timeline_ok (mr_timeline r) \<and>
     rs_writtenFrames (mr_status r) + word_of_nat uncounted = word_of_nat (length (mv_samples m)) \<and>
     (mv_samples m \<noteq> [] \<longrightarrow> tl_haveOrigin (mr_timeline r) \<and> fst (last (mv_samples m)) = tl_last (mr_timeline r) \<and>
        fst (snd (last (mv_samples m))) = tl_duration (mr_timeline r)))"

definition published :: "recorder \<Rightarrow> bool" where
  "published r \<longleftrightarrow> (\<exists>m. mr_output r = Some m \<and> mv_finalized m \<and> ordered (mv_samples m) \<and>
     rs_writtenFrames (mr_status r) = word_of_nat (length (mv_samples m)))"

fun worker_files :: "recorder_thread \<Rightarrow> recorder \<Rightarrow> bool" where
  "worker_files RunStarted r = (rs_state (mr_status r) = RecStarting \<and> rs_writtenFrames (mr_status r) = 0)"
| "worker_files (RunOpened path) r = (rs_state (mr_status r) = RecStarting \<and> recording False 0 r)"
| "worker_files RunWaiting r = (rs_state (mr_status r) = RecRecording \<and> recording False 0 r)"
| "worker_files (RunHolding frame) r = (rs_state (mr_status r) = RecRecording \<and> recording False 0 r)"
| "worker_files (RunWritten timestamp) r = (rs_state (mr_status r) = RecRecording \<and> recording False 1 r)"
| "worker_files RunFinalizing r = (rs_state (mr_status r) = RecRecording \<and> recording False 0 r)"
| "worker_files RunFinalize r = (rs_state (mr_status r) = RecFinalizing \<and> recording False 0 r)"
| "worker_files RunRename r = (rs_state (mr_status r) = RecFinalizing \<and> recording True 0 r)"
| "worker_files (RunRenamed failure) r = (rs_state (mr_status r) = RecFinalizing \<and>
     (case failure of Some hr \<Rightarrow> FAILED hr | None \<Rightarrow> published r))"
| "worker_files (RunFailing hr frames) r = (rs_state (mr_status r) \<noteq> RecCompleted \<and> FAILED hr)"
| "worker_files (RunFailDelete hr discarded) r = (rs_state (mr_status r) \<noteq> RecCompleted \<and> FAILED hr)"
| "worker_files (RunFailStatus hr discarded) r = (rs_state (mr_status r) \<noteq> RecCompleted \<and> FAILED hr)"
| "worker_files RunEnded r = True"

definition settled :: "recorder \<Rightarrow> bool" where
  "settled r \<longleftrightarrow> rs_state (mr_status r) = RecIdle \<or> rs_state (mr_status r) = RecCompleted \<or>
     rs_state (mr_status r) = RecFailed \<and> FAILED (rs_error (mr_status r))"

fun call_files :: "recorder_call \<Rightarrow> recorder \<Rightarrow> bool" where
  "call_files (RecStartSession config partialPath) r = True"
| "call_files RecStartSnapshot r = True"
| "call_files RecStartThread r = (rs_state (mr_status r) = RecStarting \<and> rs_writtenFrames (mr_status r) = 0)"
| "call_files RecStartUndo r = True"
| "call_files RecStartFailed r = True"
| "call_files _ r = (mr_worker r = None \<or> mr_worker r = Some RunEnded \<longrightarrow> settled r)"

definition files_ok :: "movie option \<Rightarrow> recorder \<Rightarrow> bool" where
  "files_ok old r \<longleftrightarrow>
     (mr_output r = old \<or> (\<exists>m. mr_output r = Some m \<and> mv_finalized m \<and> ordered (mv_samples m))) \<and>
     (rs_state (mr_status r) = RecCompleted \<longrightarrow> published r) \<and>
     (\<forall>w. mr_worker r = Some w \<longrightarrow> worker_files w r) \<and>
     (without_worker (mr_call r) \<longrightarrow> mr_worker r = None) \<and> call_files (mr_call r) r"

lemma recording_same:
  "mr_partial r' = mr_partial r \<Longrightarrow> mr_timeline r' = mr_timeline r \<Longrightarrow>
     rs_writtenFrames (mr_status r') = rs_writtenFrames (mr_status r) \<Longrightarrow> recording f n r' = recording f n r"
  by (simp add: recording_def)

lemma published_same:
  "mr_output r' = mr_output r \<Longrightarrow> rs_writtenFrames (mr_status r') = rs_writtenFrames (mr_status r) \<Longrightarrow>
     published r' = published r"
  by (simp add: published_def)

lemma worker_files_same:
  assumes "mr_partial r' = mr_partial r" and "mr_timeline r' = mr_timeline r" and "mr_output r' = mr_output r"
    and "rs_writtenFrames (mr_status r') = rs_writtenFrames (mr_status r)" and "rs_state (mr_status r') = rs_state (mr_status r)"
  shows "worker_files w r' = worker_files w r"
  using recording_same[OF assms(1,2,4)] published_same[OF assms(3,4)] assms(4,5) by (cases w) (auto split: option.split)

lemma enqueue_files: "files_ok old r \<Longrightarrow> files_ok old (snd (enqueue frame r))"
proof -
  assume ok: "files_ok old r"
  have same: "mr_partial (snd (enqueue frame r)) = mr_partial r" "mr_timeline (snd (enqueue frame r)) = mr_timeline r"
    "mr_output (snd (enqueue frame r)) = mr_output r" "mr_call (snd (enqueue frame r)) = mr_call r"
    "mr_worker (snd (enqueue frame r)) = mr_worker r"
    "rs_writtenFrames (mr_status (snd (enqueue frame r))) = rs_writtenFrames (mr_status r)"
    "rs_state (mr_status (snd (enqueue frame r))) = rs_state (mr_status r)"
    "rs_error (mr_status (snd (enqueue frame r))) = rs_error (mr_status r)"
    by (simp_all add: enqueue_def Let_def split: option.split)
  have "call_files (mr_call r) (snd (enqueue frame r)) = call_files (mr_call r) r"
    by (cases "mr_call r") (simp_all add: same settled_def)
  then show ?thesis
    using ok worker_files_same[OF same(1,2,3,6,7)] published_same[OF same(3,6)] by (simp add: files_ok_def same)
qed

lemma start_files:
  "files_ok old r \<Longrightarrow> mr_call r = NoRecorderCall \<Longrightarrow> files_ok old (snd (recorder_start ordinal config path partialPath r))"
proof -
  assume ok: "files_ok old r" and idle: "mr_call r = NoRecorderCall"
  have same: "worker_files w (r\<lparr>mr_call := c\<rparr>) = worker_files w r" for w c by (rule worker_files_same) simp_all
  show ?thesis
    using ok idle by (auto simp: recorder_start_def files_ok_def same published_def settled_def split: sum.split)
qed

lemma stop_files: "files_ok old r \<Longrightarrow> mr_call r = NoRecorderCall \<Longrightarrow> files_ok old (recorder_stop r)"
proof -
  assume ok: "files_ok old r" and idle: "mr_call r = NoRecorderCall"
  have same: "worker_files w (r\<lparr>mr_call := c, mr_stopRequested := s, mr_sessionActive := a\<rparr>) = worker_files w r"
    "worker_files w (r\<lparr>mr_call := c\<rparr>) = worker_files w r" for w c s a by (rule worker_files_same; simp)+
  show ?thesis
    using ok idle by (auto simp: recorder_stop_def files_ok_def Let_def same published_def settled_def)
qed

lemma join_files:
  assumes "files_ok old r" and "\<not> without_worker (mr_call r)"
    and "\<And>r'. settled r' \<Longrightarrow> mr_status r' = mr_status r \<Longrightarrow> call_files next r'"
  shows "files_ok old (join_worker next r)"
proof (cases "mr_worker r = None \<or> mr_worker r = Some RunEnded")
  case True
  then have "settled r" using assms(1,2) by (cases "mr_call r") (simp_all add: files_ok_def)
  then have "call_files next (r\<lparr>mr_worker := None, mr_call := next\<rparr>)" "call_files next (r\<lparr>mr_call := next\<rparr>)"
    by (auto intro!: assms(3) simp: settled_def)
  then show ?thesis using assms(1) True by (auto simp: join_worker_def files_ok_def published_def)
next
  case False
  then show ?thesis using assms(1) by (auto simp: join_worker_def split: option.split)
qed

lemma call_files_ok: "files_ok old r \<Longrightarrow> files_ok old (call_step ok r)"
proof (cases "mr_call r")
  case (RecStartJoin config partialPath)
  then show "files_ok old r \<Longrightarrow> ?thesis" by (simp add: call_step_def) (rule join_files; simp add: settled_def)
next
  case RecStopJoin
  then show "files_ok old r \<Longrightarrow> ?thesis" by (simp add: call_step_def) (rule join_files; simp add: settled_def)
next
  case NoRecorderCall
  then show "files_ok old r \<Longrightarrow> ?thesis" by (simp add: call_step_def)
qed (auto simp: call_step_def files_ok_def published_def settled_def new_snapshot_def ERROR_NOT_ENOUGH_MEMORY_def)

lemma start_of_recording:
  "rs_writtenFrames (mr_status r) = 0 \<Longrightarrow>
     recording False 0 (r\<lparr>mr_worker := w, mr_partial := Some \<lparr>mv_samples = [], mv_finalized = False\<rparr>,
       mr_timeline := new_timeline config\<rparr>)"
  by (simp add: recording_def new_timeline_ok ordered_def)

lemma sample_written:
  assumes "recording False 0 r" and "next_time pts (mr_timeline r) = (timestamp, t)"
  shows "recording False 1 (r\<lparr>mr_timeline := t, mr_worker := w,
    mr_partial := map_option (mv_samples_update (\<lambda>samples. samples @ [(timestamp, tl_duration t, nv12)])) (mr_partial r)\<rparr>)"
proof -
  obtain m where m: "mr_partial r = Some m" "\<not> mv_finalized m" "ordered (mv_samples m)" "timeline_ok (mr_timeline r)"
    "rs_writtenFrames (mr_status r) = word_of_nat (length (mv_samples m))"
    "mv_samples m \<noteq> [] \<Longrightarrow> tl_haveOrigin (mr_timeline r) \<and> fst (last (mv_samples m)) = tl_last (mr_timeline r) \<and>
        fst (snd (last (mv_samples m))) = tl_duration (mr_timeline r)"
    using assms(1) unfolding recording_def by auto
  note t = next_time_ok[OF m(4) assms(2)]
  have "ordered (mv_samples m @ [(timestamp, tl_duration t, nv12)])"
    using m(6) t(5-7) by (intro ordered_append[OF m(3)]) auto
  then show ?thesis using m(1,2,5) t(1-3) by (simp add: recording_def)
qed

lemma files_after:
  assumes "files_ok old r" and "mr_worker r = Some w" and "mr_worker r' = Some w'" and "mr_call r' = mr_call r"
    and "worker_files w' r'" and "rs_state (mr_status r') = RecCompleted \<longrightarrow> published r'" and "w' = RunEnded \<Longrightarrow> settled r'"
    and "mr_output r' = mr_output r \<or> published r'"
  shows "files_ok old r'"
proof -
  have "\<not> without_worker (mr_call r)" using assms(1,2) by (simp add: files_ok_def)
  then have "call_files (mr_call r) r'" using assms(3,7) by (cases "mr_call r") simp_all
  then show ?thesis using assms unfolding files_ok_def published_def by auto
qed

lemma last_error_failed: "FAILED (hrFromLastError e)"
  by (simp add: hrFromLastError_def)

lemma open_failed: "openWriter hardware software = Inl hr \<Longrightarrow> FAILED hr"
  by (auto simp: openWriter_def E_OUTOFMEMORY_def split: option.splits if_splits)

lemma run_files:
  assumes "files_ok old r" and "mr_worker r = Some w" and "run_step env w r = Some r'"
  shows "files_ok old r'"
proof -
  have w: "worker_files w r" and published: "rs_state (mr_status r) = RecCompleted \<Longrightarrow> published r"
    using assms(1,2) by (simp_all add: files_ok_def)
  obtain w' where w': "mr_worker r' = Some w'"
    using assms(2,3) by (cases w) (auto simp: run_step_def Let_def split: option.splits list.splits sum.splits prod.splits if_splits)
  note after = files_after[OF assms(1,2) w']
  show ?thesis
  proof (cases w)
    case (RunHolding frame)
    obtain hr nv12 where c: "convert_frame frame (mr_config r) = Some (hr, nv12)"
      using assms(3) by (cases "convert_frame frame (mr_config r)") (auto simp: run_step_def RunHolding)
    obtain timestamp t where n: "next_time (bf_ptsMicros frame) (mr_timeline r) = (timestamp, t)" by fastforce
    have "recording False 0 r" using w RunHolding by simp
    note written = sample_written[OF this n]
    show ?thesis
      by (rule after) (use assms(3) w w' c n written in \<open>auto simp: run_step_def RunHolding Let_def split: if_splits\<close>)
  next
    case (RunRenamed failure)
    show ?thesis
      by (rule after)
        (use assms(3) w w' in \<open>auto simp: run_step_def RunRenamed settled_def published_def split: option.splits\<close>)
  next
    case RunStarted
    have "recording False 0 (r\<lparr>mr_worker := Some (RunOpened path),
        mr_partial := Some \<lparr>mv_samples = [], mv_finalized = False\<rparr>, mr_timeline := new_timeline (mr_config r)\<rparr>)" for path
      using w RunStarted by (intro start_of_recording) simp
    then show ?thesis
      by (intro after)
        (use assms(3) w w' open_failed in \<open>auto simp: run_step_def RunStarted published_def split: sum.splits\<close>)
  next
    case RunRename
    show ?thesis 
      by (rule after)
        (use assms(3) w w' in \<open>auto simp: run_step_def RunRename recording_def published_def last_error_failed split: option.splits\<close>)
  next
    case RunFinalize
    show ?thesis 
      by (rule after)
        (use assms(3) w w' in \<open>auto simp: run_step_def RunFinalize recording_def published_def split: if_splits\<close>)
  next
    case RunWaiting
    show ?thesis 
      by (rule after)
        (use assms(2,3) w w' RunWaiting in \<open>auto simp: run_step_def recording_def published_def split: if_splits list.splits\<close>)
  next
    case RunEnded
    then show ?thesis using assms by (simp add: run_step_def)
  next
    case (RunOpened path)
    show ?thesis 
      by (rule after)
        (use assms(3) w w' in \<open>auto simp: run_step_def RunOpened recording_def published_def\<close>)
  next
    case (RunWritten path)
    show ?thesis 
      by (rule after)
        (use assms(3) w w' in \<open>auto simp: run_step_def RunWritten recording_def published_def\<close>)
  next
    case (RunFailStatus path)
    show ?thesis 
      by (rule after)
        (use assms(3) w w' in \<open>auto simp: run_step_def RunFailStatus settled_def\<close>)
  qed ((rule after; use assms(3) w w' published in \<open>auto simp: run_step_def recording_def published_def\<close>)+)
qed

lemma step_files: "files_ok old r \<Longrightarrow> recorder_step r e = Some r' \<Longrightarrow> files_ok old r'"
  by (cases e) (auto simp: recorder_step_def enqueue_files start_files stop_files call_files_ok intro: run_files
      split: option.splits if_splits)

lemma new_files: "files_ok old (new_recorder old)"
  by (simp add: files_ok_def new_recorder_def new_snapshot_def settled_def)

lemma run_count_ok: "\<exists>r. recorder_run es (new_recorder old) = Some r \<and> count_ok r"
  by (rule recorder_invariant) (erule (1) step_count, rule new_count)

lemma run_files_ok: "\<exists>r. recorder_run es (new_recorder old) = Some r \<and> files_ok old r"
  by (rule recorder_invariant) (erule (1) step_files, rule new_files)

subsection \<open>What a recorder promises\<close>

text \<open>
  Property C31: a recorder whose calls, frames and worker interleave in any way never holds more than sixteen frames,
  and every frame it took, once a start has reset the counters, is counted once: it was written, it was
  dropped, it is queued or the worker has it.  What the counters missed at the reset is added on the left.
\<close>

theorem recorder_counts_frames:
  "\<exists>r. recorder_run es (new_recorder old) = Some r \<and> length (mr_queue r) \<le> 16 \<and>
     (mr_call r \<noteq> RecStartSnapshot \<longrightarrow>
        rs_submittedFrames (mr_status r) + word_of_nat (mr_uncounted r) =
        rs_writtenFrames (mr_status r) + rs_droppedFrames (mr_status r) +
        word_of_nat (length (mr_queue r) + worker_frames r))"
  using run_count_ok[of es old]
  by (auto simp: count_ok_def counted_def)

definition demo_config :: recorder_config where
  "demo_config = default_recorder_config\<lparr>cf_outputPath := ''a.mp4'', cf_width := 2, cf_height := 2, cf_queueCapacity := 1\<rparr>"

definition demo_frame :: preview_frame where
  "demo_frame = \<lparr>bf_pixels = replicate 16 0, bf_width = 2, bf_height = 2, bf_stride = 8, bf_ptsMicros = 7\<rparr>"

definition demo_worker :: recorder_event where
  "demo_worker = RecorderWorker \<lparr>we_hardware = Some S_OK, we_software = None, we_left = None, we_result = S_OK,
     we_moveError = None, we_deleted = True\<rparr>"

definition demo_start :: "recorder_event list" where
  "demo_start = [StartRecorder (=) demo_config (Inr ''a.mp4'') ''a.partial'', RecorderCall True, RecorderCall True,
     RecorderCall True, RecorderCall True, RecorderCall True]"

definition demo_end :: "recorder_event list" where
  "demo_end = [StopRecorder, RecorderCall True] @ replicate 10 demo_worker @ [RecorderCall True]"

theorem recorder_counts_frames_witness:
  "\<exists>r. recorder_run (demo_start @ [Enqueue (Some demo_frame), Enqueue (Some demo_frame)]) (new_recorder None) = Some r \<and>
     mr_call r \<noteq> RecStartSnapshot \<and> rs_submittedFrames (mr_status r) = 2 \<and> rs_droppedFrames (mr_status r) = 1 \<and>
     rs_submittedFrames (mr_status r) + word_of_nat (mr_uncounted r) =
        rs_writtenFrames (mr_status r) + rs_droppedFrames (mr_status r) +
        word_of_nat (length (mr_queue r) + worker_frames r)"
proof -
  let ?es = "demo_start @ [Enqueue (Some demo_frame), Enqueue (Some demo_frame)]"
  have run: "case recorder_run ?es (new_recorder None) of None \<Rightarrow> False
    | Some r \<Rightarrow> mr_call r = NoRecorderCall \<and> rs_submittedFrames (mr_status r) = 2 \<and> rs_droppedFrames (mr_status r) = 1"
    by code_simp
  show ?thesis using recorder_counts_frames[of ?es None] run by auto
qed

text \<open>
  Property C30: whatever the writer, the file system and the interleaving do, the file under the output path is the one
  that was there or a whole recording: finalized, its samples in order and without overlap; a recorder
  that says it has completed has published such a file with as many samples as it counts written frames, and
  when nothing runs a recorder is idle, has completed, or has failed with an error.
\<close>

theorem recorder_output_whole:
  "\<exists>r. recorder_run es (new_recorder old) = Some r \<and>
     (mr_output r = old \<or> (\<exists>m. mr_output r = Some m \<and> mv_finalized m \<and> ordered (mv_samples m))) \<and>
     (rs_state (mr_status r) = RecCompleted \<longrightarrow>
        (\<exists>m. mr_output r = Some m \<and> mv_finalized m \<and> ordered (mv_samples m) \<and>
           rs_writtenFrames (mr_status r) = word_of_nat (length (mv_samples m)))) \<and>
     (mr_call r = NoRecorderCall \<and> mr_worker r = None \<and> rs_state (mr_status r) \<notin> {RecIdle, RecCompleted} \<longrightarrow>
        rs_state (mr_status r) = RecFailed \<and> FAILED (rs_error (mr_status r)))"
  using run_files_ok[of es old]
  by (auto simp: files_ok_def settled_def published_def)

theorem recorder_output_whole_witness:
  "\<exists>r m. recorder_run (demo_start @ [demo_worker, demo_worker, Enqueue (Some demo_frame)] @ demo_end) (new_recorder None) = Some r \<and>
     rs_state (mr_status r) = RecCompleted \<and> rs_writtenFrames (mr_status r) = 1 \<and>
     mr_output r = Some m \<and> mv_finalized m \<and> rs_writtenFrames (mr_status r) = word_of_nat (length (mv_samples m))"
proof -
  let ?es = "demo_start @ [demo_worker, demo_worker, Enqueue (Some demo_frame)] @ demo_end"
  have run: "case recorder_run ?es (new_recorder None) of None \<Rightarrow> False
    | Some r \<Rightarrow> rs_state (mr_status r) = RecCompleted \<and> rs_writtenFrames (mr_status r) = 1"
    by code_simp
  show ?thesis using recorder_output_whole[of ?es None] run by auto
qed

text \<open>
  A frame that arrives while \<open>start\<close> has activated the session and not yet reset the counters is recorded
  and forgotten: the recording completes with one frame written and none submitted.
\<close>

theorem recorder_start_loses_count:
  "map_option (\<lambda>r. (rs_state (mr_status r), rs_submittedFrames (mr_status r), rs_writtenFrames (mr_status r)))
     (recorder_run (take 4 demo_start @ [Enqueue (Some demo_frame)] @ drop 4 demo_start @ demo_end) (new_recorder None)) =
   Some (RecCompleted, 0, 1)"
  by code_simp

end
