(* ===== verification/Listener.thy ===== *)
theory Listener
  imports Wire ShmRing "HOL-Library.Sublist"
begin

text \<open>
  The listener for phones, \<open>windows/net/src/tcp_listener.cpp\<close>: the thread that accepts, the thread that serves the
  one connection, and the calls \<open>start\<close> and \<open>stop\<close>, interleaved at their atomics, locks and calls of Winsock.  What
  Winsock answers is an argument of the steps; a socket is a number that is not used again, and a receive
  on a socket that has been closed fails.
\<close>

subsection \<open>The listener\<close>

text \<open>\<open>hrFromWsa\<close>: note that an error of zero is a success.\<close>

definition hrFromWsa :: "u32 \<Rightarrow> hresult" where
  "hrFromWsa error = (if error = 0 then S_OK else HRESULT_FROM_WIN32 error)"

definition ERROR_CONNECTION_ABORTED :: u32 where "ERROR_CONNECTION_ABORTED = 1236"

text \<open>The socket of a \<open>Connection\<close> object; what \<open>send\<close> adds is in theory \<open>Sending\<close>.\<close>

record connection =
  cn_open :: bool
  cn_closing :: bool

definition connection_close :: "connection \<Rightarrow> connection" where
  "connection_close c = (if \<not> cn_open c then c else c\<lparr>cn_closing := True, cn_open := False\<rparr>)"

definition connection_valid :: "connection \<Rightarrow> bool" where
  "connection_valid c \<longleftrightarrow> cn_open c \<and> \<not> cn_closing c"

type_synonym socket = nat

datatype accept_thread = AcceptTest | Accepting | AcceptExchange socket | AcceptJoin | AcceptEnded

text \<open>
  Where \<open>serveConnection\<close> is: before the options and the connection object, before it is announced, before
  \<open>onConnected\<close>, in the loop (the test, the check of the connection, the receive, the delivery of frames
  and the checks after it), and on the way out.
\<close>

datatype serve_thread = ServeOptions | ServePublish | ServeConnected | ServeTest | ServeValid | ServeRecv
  | ServeFrames "frame list" wire_error | ServeChecked "frame list" wire_error | ServeAfter wire_error
  | ServeLeave hresult | ServeClear | ServeClose | ServeIdle | ServeEnded

datatype listener_call = NoListenerCall | StopListening | StopActive | StopJoinAccept | StopJoinServe

text \<open>What the handler is told, and what a socket received.\<close>

datatype serve_event = Connected socket | Received socket bytes | GotFrame socket frame | Disconnected socket hresult

record listener =
  ln_stopping :: bool
  ln_listenOpen :: bool
  ln_listening :: bool
  ln_boundPort :: u16
  ln_connectionActive :: bool
  ln_activeConnection :: "socket option"
  ln_accept :: "accept_thread option"
  ln_serve :: "(socket \<times> serve_thread) option"
  ln_connection :: "connection option"
  ln_decoder :: wire_decoder
  ln_joining :: socket
  ln_nextSocket :: socket
  ln_call :: listener_call
  ln_trace :: "serve_event list"

definition new_listener :: listener where
  "new_listener = \<lparr>ln_stopping = False, ln_listenOpen = False, ln_listening = False, ln_boundPort = 0,
     ln_connectionActive = False, ln_activeConnection = None, ln_accept = None, ln_serve = None, ln_connection = None,
     ln_decoder = wire_fresh, ln_joining = 0, ln_nextSocket = 0, ln_call = NoListenerCall, ln_trace = []\<rparr>"

abbreviation tell :: "serve_event \<Rightarrow> listener \<Rightarrow> listener" where
  "tell e l \<equiv> l\<lparr>ln_trace := ln_trace l @ [e]\<rparr>"

text \<open>
  \<open>start\<close>, with the error of each call of Winsock that fails and the port that \<open>getsockname\<close> reports.  It holds
  no lock and the listener has no thread then; \<^const>\<open>None\<close> is the assignment to a thread that
  has not been joined, which ends the process.
\<close>

record listen_env =
  le_status :: hresult
  le_socket :: "u32 option"
  le_exclusive :: "u32 option"
  le_dualStack :: "u32 option"
  le_bind :: "u32 option"
  le_name :: "u16 option"
  le_listen :: "u32 option"

definition listener_start :: "listen_env \<Rightarrow> u16 \<Rightarrow> bool \<Rightarrow> bool \<Rightarrow> listener \<Rightarrow> (hresult \<times> listener) option" where
  "listener_start env port handler loopbackOnly l =
     (if FAILED (le_status env) then Some (le_status env, l)
      else if \<not> handler then Some (E_POINTER, l)
      else if ln_listenOpen l then Some (HRESULT_FROM_WIN32 ERROR_ALREADY_EXISTS, l)
      else (let l = l\<lparr>ln_stopping := False\<rparr>
            in case le_socket env of Some e \<Rightarrow> Some (hrFromWsa e, l) | None \<Rightarrow>
               case le_exclusive env of Some e \<Rightarrow> Some (hrFromWsa e, l) | None \<Rightarrow>
               if \<not> loopbackOnly \<and> le_dualStack env \<noteq> None then Some (hrFromWsa (the (le_dualStack env)), l)
               else case le_bind env of Some e \<Rightarrow> Some (hrFromWsa e, l) | None \<Rightarrow>
               (let l = l\<lparr>ln_boundPort := (case le_name env of Some actual \<Rightarrow> actual | None \<Rightarrow> port)\<rparr>
                in case le_listen env of Some e \<Rightarrow> Some (hrFromWsa e, l) | None \<Rightarrow>
                   if ln_accept l \<noteq> None then None
                   else Some (S_OK, l\<lparr>ln_listenOpen := True, ln_listening := True, ln_accept := Some AcceptTest\<rparr>))))"

text \<open>
  The steps of \<open>stop\<close>; \<^const>\<open>None\<close> is the use of a connection object that no longer exists.
\<close>

definition stop_begin :: "listener \<Rightarrow> listener" where
  "stop_begin l = l\<lparr>ln_stopping := True, ln_call := StopListening\<rparr>"

definition stop_step :: "listener \<Rightarrow> listener option" where
  "stop_step l =
     (case ln_call l of
        NoListenerCall \<Rightarrow> Some l
      | StopListening \<Rightarrow> Some (l\<lparr>ln_listenOpen := False, ln_listening := False, ln_call := StopActive\<rparr>)
      | StopActive \<Rightarrow>
          (case ln_activeConnection l of
             None \<Rightarrow> Some (l\<lparr>ln_call := StopJoinAccept\<rparr>)
           | Some _ \<Rightarrow>
               (case ln_connection l of
                  None \<Rightarrow> None
                | Some c \<Rightarrow> Some (l\<lparr>ln_connection := Some (connection_close c), ln_call := StopJoinAccept\<rparr>)))
      | StopJoinAccept \<Rightarrow>
          Some (if ln_accept l = None \<or> ln_accept l = Some AcceptEnded
                then l\<lparr>ln_accept := None, ln_call := StopJoinServe\<rparr> else l)
      | StopJoinServe \<Rightarrow>
          Some (case ln_serve l of
                  None \<Rightarrow> l\<lparr>ln_call := NoListenerCall\<rparr>
                | Some (s, pc) \<Rightarrow> if pc = ServeEnded then l\<lparr>ln_serve := None, ln_call := NoListenerCall\<rparr> else l))"

text \<open>
  The steps of \<open>acceptLoop\<close>; \<open>accepted\<close> is whether the accept gives a socket, which it cannot once the
  listening socket is closed.  The join of the previous connection's thread waits.
\<close>

definition accept_step :: "bool \<Rightarrow> listener \<Rightarrow> listener" where
  "accept_step accepted l =
     (case ln_accept l of
        None \<Rightarrow> l
      | Some AcceptTest \<Rightarrow> l\<lparr>ln_accept := Some (if ln_stopping l then AcceptEnded else Accepting)\<rparr>
      | Some Accepting \<Rightarrow>
          (if ln_listenOpen l \<and> accepted
           then l\<lparr>ln_accept := Some (AcceptExchange (ln_nextSocket l)), ln_nextSocket := Suc (ln_nextSocket l)\<rparr>
           else l\<lparr>ln_accept := Some AcceptEnded\<rparr>)
      | Some (AcceptExchange s) \<Rightarrow>
          (if ln_connectionActive l then l\<lparr>ln_accept := Some AcceptTest\<rparr>
           else l\<lparr>ln_connectionActive := True, ln_joining := s, ln_accept := Some AcceptJoin\<rparr>)
      | Some AcceptJoin \<Rightarrow>
          (if ln_serve l = None \<or> snd (the (ln_serve l)) = ServeEnded
           then l\<lparr>ln_serve := Some (ln_joining l, ServeOptions), ln_accept := Some AcceptTest\<rparr>
           else l)
      | Some AcceptEnded \<Rightarrow> l)"

datatype receive = RecvBytes bytes | RecvClosed | RecvError u32

text \<open>
  The steps of \<open>serveConnection\<close> and of the thread around it.  A receive that waits is a step that is not
  taken; on a closed socket it can only fail.  \<^const>\<open>None\<close> is the use of a missing connection object.
\<close>

definition serve_step :: "receive \<Rightarrow> socket \<Rightarrow> serve_thread \<Rightarrow> listener \<Rightarrow> listener option" where
  "serve_step result s pc l =
     (let go = (\<lambda>pc. l\<lparr>ln_serve := Some (s, pc)\<rparr>)
      in case pc of
           ServeOptions \<Rightarrow>
             Some ((go ServePublish)\<lparr>ln_connection := Some \<lparr>cn_open = True, cn_closing = False\<rparr>\<rparr>)
         | ServePublish \<Rightarrow> Some ((go ServeConnected)\<lparr>ln_activeConnection := Some s\<rparr>)
         | ServeConnected \<Rightarrow> Some (tell (Connected s) ((go ServeTest)\<lparr>ln_decoder := wire_fresh\<rparr>))
         | ServeTest \<Rightarrow> Some (go (if ln_stopping l then ServeLeave S_OK else ServeValid))
         | ServeIdle \<Rightarrow> Some ((go ServeEnded)\<lparr>ln_connectionActive := False\<rparr>)
         | ServeEnded \<Rightarrow> Some l
         | _ \<Rightarrow>
             (case ln_connection l of
                None \<Rightarrow> None
              | Some c \<Rightarrow>
                  (case pc of
                     ServeValid \<Rightarrow>
                       Some (go (if \<not> connection_valid c then ServeLeave (HRESULT_FROM_WIN32 ERROR_CONNECTION_ABORTED)
                                 else ServeRecv))
                   | ServeRecv \<Rightarrow>
                       (if \<not> cn_open c
                        then Some (go (ServeLeave (if ln_stopping l then S_OK
                               else hrFromWsa (case result of RecvError e \<Rightarrow> e | _ \<Rightarrow> ERROR_CONNECTION_ABORTED))))
                        else case result of
                          RecvClosed \<Rightarrow> Some (go (ServeLeave S_OK))
                        | RecvError e \<Rightarrow> Some (go (ServeLeave (if ln_stopping l then S_OK else hrFromWsa e)))
                        | RecvBytes data \<Rightarrow>
                            (case wire_append (ln_decoder l) data [] of
                               (err, decoder, frames) \<Rightarrow>
                                 Some (tell (Received s data) ((go (ServeFrames frames err))\<lparr>ln_decoder := decoder\<rparr>))))
                   | ServeFrames frames err \<Rightarrow>
                       (case frames of
                          [] \<Rightarrow> Some (go (ServeAfter err))
                        | f # frames \<Rightarrow> Some (tell (GotFrame s f) (go (ServeChecked frames err))))
                   | ServeChecked frames err \<Rightarrow>
                       Some (go (if \<not> connection_valid c then ServeAfter err else ServeFrames frames err))
                   | ServeAfter err \<Rightarrow>
                       Some (go (if \<not> connection_valid c then ServeLeave (HRESULT_FROM_WIN32 ERROR_CONNECTION_ABORTED)
                                 else if err \<noteq> WireNone then ServeLeave E_INVALIDARG
                                 else ServeTest))
                   | ServeLeave reason \<Rightarrow> Some (tell (Disconnected s reason) (go ServeClear))
                   | ServeClear \<Rightarrow> Some ((go ServeClose)\<lparr>ln_activeConnection := None\<rparr>)
                   | ServeClose \<Rightarrow> Some ((go ServeIdle)\<lparr>ln_connection := None\<rparr>)
                   | _ \<Rightarrow> None)))"

text \<open>
  What can happen next: the calls of the owner, which come one after another, a step of a call or of a thread, and a
  close of the connection by whoever the handler gave it to.
\<close>

datatype listener_event = StartListener listen_env u16 bool bool | StopListener | StopStep | AcceptStep bool
  | ServeStep receive | CloseConnection

definition listener_step :: "listener \<Rightarrow> listener_event \<Rightarrow> listener option" where
  "listener_step l e =
     (case e of
        StartListener env port handler loopbackOnly \<Rightarrow>
          (if ln_call l = NoListenerCall then map_option snd (listener_start env port handler loopbackOnly l) else Some l)
      | StopListener \<Rightarrow> Some (if ln_call l = NoListenerCall then stop_begin l else l)
      | StopStep \<Rightarrow> stop_step l
      | AcceptStep accepted \<Rightarrow> Some (accept_step accepted l)
      | ServeStep result \<Rightarrow> (case ln_serve l of None \<Rightarrow> Some l | Some (s, pc) \<Rightarrow> serve_step result s pc l)
      | CloseConnection \<Rightarrow> Some (l\<lparr>ln_connection := map_option connection_close (ln_connection l)\<rparr>))"

fun listener_run :: "listener_event list \<Rightarrow> listener \<Rightarrow> listener option" where
  "listener_run [] l = Some l"
| "listener_run (e # es) l = (case listener_step l e of None \<Rightarrow> None | Some l' \<Rightarrow> listener_run es l')"

subsection \<open>What holds of every run\<close>

fun alive :: "serve_thread \<Rightarrow> bool" where
  "alive pc = (pc \<noteq> ServeOptions \<and> pc \<noteq> ServeIdle \<and> pc \<noteq> ServeEnded)"

fun announced :: "serve_thread \<Rightarrow> bool" where
  "announced pc = (alive pc \<and> pc \<noteq> ServePublish \<and> pc \<noteq> ServeClose)"

fun talking :: "serve_thread \<Rightarrow> bool" where
  "talking pc = (announced pc \<and> pc \<noteq> ServeConnected \<and> pc \<noteq> ServeClear)"

fun served :: "(socket \<times> serve_thread) option \<Rightarrow> (serve_thread \<Rightarrow> bool) \<Rightarrow> bool" where
  "served None P = False"
| "served (Some (s, pc)) P = P pc"

definition threads_ok :: "listener \<Rightarrow> bool" where
  "threads_ok l \<longleftrightarrow>
     (ln_connection l \<noteq> None \<longleftrightarrow> served (ln_serve l) alive) \<and>
     (ln_activeConnection l \<noteq> None \<longleftrightarrow> served (ln_serve l) announced) \<and>
     (ln_connectionActive l \<longleftrightarrow> ln_accept l = Some AcceptJoin \<or> served (ln_serve l) (\<lambda>pc. pc \<noteq> ServeEnded)) \<and>
     (ln_accept l = Some AcceptJoin \<longrightarrow> \<not> served (ln_serve l) (\<lambda>pc. pc \<noteq> ServeEnded)) \<and>
     (ln_call l \<noteq> NoListenerCall \<longrightarrow> ln_stopping l) \<and>
     (ln_call l \<noteq> NoListenerCall \<and> ln_call l \<noteq> StopListening \<longrightarrow> \<not> ln_listenOpen l) \<and>
     (ln_call l = NoListenerCall \<and> \<not> ln_listenOpen l \<longrightarrow> ln_accept l = None \<and> ln_serve l = None) \<and>
     (ln_call l = StopJoinServe \<longrightarrow> ln_accept l = None) \<and>
     (ln_call l = StopJoinAccept \<or> ln_call l = StopJoinServe \<longrightarrow> served (ln_serve l) (\<lambda>pc. pc = ServeValid \<or> pc = ServeRecv) \<longrightarrow>
        \<not> cn_open (the (ln_connection l)))"

lemma start_threads:
  "threads_ok l \<Longrightarrow> ln_call l = NoListenerCall \<Longrightarrow>
     \<exists>hr l'. listener_start env port handler loopbackOnly l = Some (hr, l') \<and> threads_ok l'"
  by (auto simp: listener_start_def threads_ok_def Let_def split: option.split)

lemma served_mono: "served t P \<Longrightarrow> (\<And>pc. P pc \<Longrightarrow> Q pc) \<Longrightarrow> served t Q"
  by (cases t) auto

lemma announced_alive: "served t announced \<Longrightarrow> served t alive"
  by (cases t) auto

lemma announced_connection:
  "threads_ok l \<Longrightarrow> ln_activeConnection l = Some s \<Longrightarrow> \<exists>c. ln_connection l = Some c"
  using announced_alive[of "ln_serve l"] unfolding threads_ok_def by blast

lemma unannounced: "\<not> served t announced \<Longrightarrow> \<not> served t (\<lambda>pc. pc = ServeValid \<or> pc = ServeRecv)"
  by (erule contrapos_nn) (erule served_mono, auto)

lemma stop_threads:
  assumes ok: "threads_ok l"
  shows "\<exists>l'. stop_step l = Some l' \<and> threads_ok l'"
proof (cases "ln_call l")
  case StopActive
  show ?thesis
  proof (cases "ln_activeConnection l")
    case None
    then have "\<not> served (ln_serve l) (\<lambda>pc. pc = ServeValid \<or> pc = ServeRecv)"
      using ok by (intro unannounced) (simp add: threads_ok_def)
    then show ?thesis using ok StopActive None by (simp add: stop_step_def threads_ok_def)
  next
    case (Some s)
    then obtain c where "ln_connection l = Some c" using announced_connection[OF ok] by blast
    then show ?thesis using ok StopActive Some by (simp add: stop_step_def threads_ok_def connection_close_def)
  qed
next
  case StopJoinServe
  show ?thesis
  proof (cases "ln_serve l")
    case None
    then show ?thesis using StopJoinServe ok by (simp add: stop_step_def threads_ok_def)
  next
    case (Some t)
    obtain s pc where t: "t = (s, pc)" by fastforce
    show ?thesis
    proof (cases "pc = ServeEnded")
      case True
      then show ?thesis using StopJoinServe ok Some t by (simp add: stop_step_def threads_ok_def)
    next
      case False
      then show ?thesis using StopJoinServe ok Some t by (simp add: stop_step_def)
    qed
  qed
qed (use ok in \<open>simp_all add: stop_step_def threads_ok_def\<close>)

lemma accept_threads:
  assumes ok: "threads_ok l"
  shows "threads_ok (accept_step accepted l)"
proof -
  consider (None) "ln_accept l = None" | (Test) "ln_accept l = Some AcceptTest" | (Accepting) "ln_accept l = Some Accepting"
    | (Exchange) s where "ln_accept l = Some (AcceptExchange s)" | (Join) "ln_accept l = Some AcceptJoin"
    | (Ended) "ln_accept l = Some AcceptEnded"
    by (cases "ln_accept l") (auto elim: accept_thread.exhaust)
  then show ?thesis
  proof cases
    case Join
    then consider "ln_serve l = None" | s where "ln_serve l = Some (s, ServeEnded)"
      using ok by (cases "ln_serve l") (auto simp: threads_ok_def)
    then show ?thesis by cases (use ok Join in \<open>simp_all add: accept_step_def threads_ok_def\<close>)
  next
    case Accepting
    then show ?thesis using ok by (auto simp: accept_step_def threads_ok_def)
  next
    case Test
    then show ?thesis using ok by (simp add: accept_step_def threads_ok_def)
  next
    case (Exchange s)
    then show ?thesis using ok by (simp add: accept_step_def threads_ok_def)
  qed (use ok in \<open>simp_all add: accept_step_def\<close>)
qed

lemma alive_connection:
  "threads_ok l \<Longrightarrow> ln_serve l = Some (s, pc) \<Longrightarrow> alive pc \<Longrightarrow> \<exists>c. ln_connection l = Some c"
  by (simp add: threads_ok_def)

lemma serve_threads:
  assumes ok: "threads_ok l" and s: "ln_serve l = Some (s, pc)"
  shows "\<exists>l'. serve_step result s pc l = Some l' \<and> threads_ok l'"
proof (cases "alive pc")
  case True
  then obtain c where c: "ln_connection l = Some c" using alive_connection[OF ok s] by blast
  show ?thesis
  proof (cases pc)
    case ServeRecv
    show ?thesis using ok s c unfolding ServeRecv
      by (cases "cn_open c"; cases result) (simp_all add: serve_step_def threads_ok_def split: prod.split)
  next
    case (ServeFrames frames err)
    show ?thesis using ok s c unfolding ServeFrames
      by (cases frames) (simp_all add: serve_step_def threads_ok_def)
  next
    case ServePublish
    show ?thesis using ok s c unfolding ServePublish by (simp add: serve_step_def threads_ok_def connection_valid_def)
  next
    case ServeConnected
    show ?thesis using ok s c unfolding ServeConnected by (simp add: serve_step_def threads_ok_def connection_valid_def)
  next
    case ServeTest
    show ?thesis using ok s c unfolding ServeTest by (simp add: serve_step_def threads_ok_def connection_valid_def)
  next
    case ServeValid
    show ?thesis using ok s c unfolding ServeValid by (simp add: serve_step_def threads_ok_def connection_valid_def)
  next
    case (ServeChecked frames err)
    show ?thesis using ok s c unfolding ServeChecked by (simp add: serve_step_def threads_ok_def connection_valid_def)
  next
    case (ServeAfter err)
    show ?thesis using ok s c unfolding ServeAfter by (simp add: serve_step_def threads_ok_def connection_valid_def)
  next
    case (ServeLeave reason)
    show ?thesis using ok s c unfolding ServeLeave by (simp add: serve_step_def threads_ok_def connection_valid_def)
  next
    case ServeClear
    show ?thesis using ok s c unfolding ServeClear by (simp add: serve_step_def threads_ok_def connection_valid_def)
  next
    case ServeClose
    show ?thesis using ok s c unfolding ServeClose by (simp add: serve_step_def threads_ok_def connection_valid_def)
  qed (use True in simp_all)
next
  case False
  then consider "pc = ServeOptions" | "pc = ServeIdle" | "pc = ServeEnded" by auto
  then show ?thesis by cases (use ok s in \<open>simp_all add: serve_step_def threads_ok_def\<close>)
qed

lemma close_threads:
  "threads_ok l \<Longrightarrow> threads_ok (l\<lparr>ln_connection := map_option connection_close (ln_connection l)\<rparr>)"
  by (cases "ln_connection l") (simp_all add: threads_ok_def connection_close_def)

lemma stop_begins_threads: "threads_ok l \<Longrightarrow> threads_ok (stop_begin l)"
  by (simp add: stop_begin_def threads_ok_def)

lemma step_threads: "threads_ok l \<Longrightarrow> \<exists>l'. listener_step l e = Some l' \<and> threads_ok l'"
proof (cases e)
  case (StartListener env port handler loopbackOnly)
  then show "threads_ok l \<Longrightarrow> ?thesis"
    using start_threads[of l env port handler loopbackOnly] by (auto simp: listener_step_def)
next
  case (ServeStep result)
  then show "threads_ok l \<Longrightarrow> ?thesis"
    using serve_threads by (cases "ln_serve l") (auto simp: listener_step_def)
qed (simp_all add: listener_step_def stop_begins_threads stop_threads accept_threads close_threads)

subsection \<open>What the handler is told\<close>

text \<open>
  The socket whose handler is between \<open>onConnected\<close> and \<open>onDisconnected\<close> after a trace, if the trace keeps to
  one connection at a time; the bytes a socket received in it, and the frames that were handed over.
\<close>

fun call_order :: "socket option \<Rightarrow> serve_event list \<Rightarrow> socket option option" where
  "call_order current [] = Some current"
| "call_order current (Connected s # es) = (if current = None then call_order (Some s) es else None)"
| "call_order current (Received s data # es) = (if current = Some s then call_order current es else None)"
| "call_order current (GotFrame s f # es) = (if current = Some s then call_order current es else None)"
| "call_order current (Disconnected s reason # es) = (if current = Some s then call_order None es else None)"

fun socket_of :: "serve_event \<Rightarrow> socket" where
  "socket_of (Connected s) = s"
| "socket_of (Received s data) = s"
| "socket_of (GotFrame s f) = s"
| "socket_of (Disconnected s reason) = s"

fun event_bytes :: "serve_event \<Rightarrow> bytes" where
  "event_bytes (Received s data) = data"
| "event_bytes _ = []"

fun event_frames :: "serve_event \<Rightarrow> frame list" where
  "event_frames (GotFrame s f) = [f]"
| "event_frames _ = []"

definition bytes_of :: "socket \<Rightarrow> serve_event list \<Rightarrow> bytes" where
  "bytes_of s tr = concat (map event_bytes (filter (\<lambda>e. socket_of e = s) tr))"

definition frames_to :: "socket \<Rightarrow> serve_event list \<Rightarrow> frame list" where
  "frames_to s tr = concat (map event_frames (filter (\<lambda>e. socket_of e = s) tr))"

lemma call_order_append:
  "call_order current (es @ es') = (case call_order current es of None \<Rightarrow> None | Some c \<Rightarrow> call_order c es')"
  by (induction current es rule: call_order.induct) auto

lemma of_trace [simp]:
  "bytes_of s [] = []" "frames_to s [] = []"
  "bytes_of s (tr @ [e]) = bytes_of s tr @ (if socket_of e = s then event_bytes e else [])"
  "frames_to s (tr @ [e]) = frames_to s tr @ (if socket_of e = s then event_frames e else [])"
  by (simp_all add: bytes_of_def frames_to_def)

lemma unmentioned:
  "\<forall>e \<in> set tr. socket_of e < s \<Longrightarrow> bytes_of s tr = [] \<and> frames_to s tr = []"
  by (auto simp: bytes_of_def frames_to_def filter_empty_conv)

fun fresh_serve :: "serve_thread \<Rightarrow> bool" where
  "fresh_serve pc = (pc = ServeOptions \<or> pc = ServePublish \<or> pc = ServeConnected)"

text \<open>The socket that is accepted and not yet served, and the sockets below it.\<close>

fun pending_socket :: "accept_thread option \<Rightarrow> socket \<Rightarrow> socket \<Rightarrow> socket" where
  "pending_socket (Some (AcceptExchange s)) joining next = s"
| "pending_socket (Some AcceptJoin) joining next = joining"
| "pending_socket _ joining next = next"

fun waiting_socket :: "accept_thread option \<Rightarrow> bool" where
  "waiting_socket (Some (AcceptExchange s)) = True"
| "waiting_socket (Some AcceptJoin) = True"
| "waiting_socket _ = False"

fun served_bound :: "(socket \<times> serve_thread) option \<Rightarrow> socket \<Rightarrow> socket" where
  "served_bound None pending = pending"
| "served_bound (Some (s, pc)) pending = (if fresh_serve pc then s else Suc s)"

fun served_below :: "(socket \<times> serve_thread) option \<Rightarrow> socket \<Rightarrow> bool" where
  "served_below None pending = True"
| "served_below (Some (s, pc)) pending = (s < pending)"

definition sockets_ok :: "listener \<Rightarrow> bool" where
  "sockets_ok l \<longleftrightarrow> (let pending = pending_socket (ln_accept l) (ln_joining l) (ln_nextSocket l)
     in (\<forall>e \<in> set (ln_trace l). socket_of e < served_bound (ln_serve l) pending) \<and> served_below (ln_serve l) pending \<and>
        pending + (if waiting_socket (ln_accept l) then 1 else 0) \<le> ln_nextSocket l)"

definition order_ok :: "listener \<Rightarrow> bool" where
  "order_ok l \<longleftrightarrow> call_order None (ln_trace l) =
     Some (case ln_serve l of None \<Rightarrow> None | Some (s, pc) \<Rightarrow> if talking pc then Some s else None)"

text \<open>What a socket got is a prefix of the frames in its bytes, and all of them when the framing ended it.\<close>

definition delivered_ok :: "serve_event list \<Rightarrow> bool" where
  "delivered_ok tr \<longleftrightarrow> (\<forall>s. prefix (frames_to s tr) (fst (parse_stream (bytes_of s tr))) \<and>
     (Disconnected s E_INVALIDARG \<in> set tr \<longrightarrow>
        frames_to s tr = fst (parse_stream (bytes_of s tr)) \<and> fst (snd (parse_stream (bytes_of s tr))) \<noteq> WireNone))"

fun current_ok :: "serve_thread \<Rightarrow> bool \<Rightarrow> frame list \<Rightarrow> frame list \<Rightarrow> wire_error \<Rightarrow> bool" where
  "current_ok (ServeFrames rest err) valid given fs e \<longleftrightarrow> e = err \<and> fs = given @ rest"
| "current_ok (ServeChecked rest err) valid given fs e \<longleftrightarrow> e = err \<and> fs = given @ rest"
| "current_ok (ServeAfter err) valid given fs e \<longleftrightarrow> e = err \<and> prefix given fs \<and> (valid \<longrightarrow> given = fs)"
| "current_ok (ServeLeave reason) valid given fs e \<longleftrightarrow>
     prefix given fs \<and> (reason = E_INVALIDARG \<longrightarrow> given = fs \<and> e \<noteq> WireNone)"
| "current_ok _ valid given fs e \<longleftrightarrow> given = fs \<and> e = WireNone"

definition feed_ok :: "listener \<Rightarrow> bool" where
  "feed_ok l \<longleftrightarrow> (\<forall>s pc. ln_serve l = Some (s, pc) \<and> talking pc \<longrightarrow>
     wire_inv (ln_decoder l) \<and> (\<forall>reason. Disconnected s reason \<notin> set (ln_trace l)) \<and>
     (\<exists>e fs. spec_append (Inr []) (bytes_of s (ln_trace l)) = (e, wire_abs (ln_decoder l), fs) \<and>
        current_ok pc (connection_valid (the (ln_connection l))) (frames_to s (ln_trace l)) fs e))"

definition trace_ok :: "listener \<Rightarrow> bool" where
  "trace_ok l \<longleftrightarrow> sockets_ok l \<and> order_ok l \<and> delivered_ok (ln_trace l) \<and> feed_ok l"

lemma spec_parse:
  "spec_append (Inr []) bs = (e, a, fs) \<Longrightarrow> fst (parse_stream bs) = fs \<and> fst (snd (parse_stream bs)) = e"
  by (auto split: prod.splits)

lemma parse_prefix: "prefix (fst (parse_stream xs)) (fst (parse_stream (xs @ ys)))"
  by (auto simp: parse_stream_append split: prod.splits)

lemma current_ok_closed: "current_ok pc valid given fs e \<Longrightarrow> valid' \<longrightarrow> valid \<Longrightarrow> current_ok pc valid' given fs e"
  by (cases pc) auto

lemma trace_same:
  assumes "trace_ok l" and "ln_trace l' = ln_trace l" and "ln_serve l' = ln_serve l" and "ln_decoder l' = ln_decoder l"
    and "connection_valid (the (ln_connection l')) \<longrightarrow> connection_valid (the (ln_connection l))" and "sockets_ok l'"
  shows "trace_ok l'"
  using assms(1,6) current_ok_closed[OF _ assms(5)] unfolding trace_ok_def order_ok_def feed_ok_def assms(2-4) by blast

lemma start_keeps:
  "listener_start env port handler loopbackOnly l = Some (hr, l') \<Longrightarrow>
     ln_trace l' = ln_trace l \<and> ln_serve l' = ln_serve l \<and> ln_decoder l' = ln_decoder l \<and> ln_connection l' = ln_connection l \<and>
     ln_joining l' = ln_joining l \<and> ln_nextSocket l' = ln_nextSocket l \<and>
     (ln_accept l' = ln_accept l \<or> ln_accept l = None \<and> ln_accept l' = Some AcceptTest)"
  by (auto simp: listener_start_def Let_def split: if_splits option.splits)

lemma start_trace:
  assumes ok: "trace_ok l" and threads: "threads_ok l" "ln_call l = NoListenerCall"
    and start: "listener_start env port handler loopbackOnly l = Some (hr, l')"
  shows "trace_ok l'"
proof (rule trace_same[OF ok])
  show "sockets_ok l'" using ok start_keeps[OF start] by (auto simp: trace_ok_def sockets_ok_def)
qed (use start_keeps[OF start] in simp_all)

lemma close_trace:
  assumes ok: "trace_ok l"
  shows "trace_ok (l\<lparr>ln_connection := map_option connection_close (ln_connection l)\<rparr>)"
  by (rule trace_same[OF ok]; cases "ln_connection l";
      use ok in \<open>simp add: trace_ok_def connection_close_def connection_valid_def sockets_ok_def Let_def\<close>)

lemma no_thread_trace:
  assumes "trace_ok l" and "\<not> served (ln_serve l) (\<lambda>pc. pc \<noteq> ServeEnded)"
    and "ln_serve l' = None \<or> ln_serve l' = Some (s', ServeOptions)" and "ln_trace l' = ln_trace l" and "sockets_ok l'"
  shows "trace_ok l'"
  using assms by (cases "ln_serve l") (auto simp: trace_ok_def order_ok_def feed_ok_def)

lemma listener_stop_keeps:
  "stop_step l = Some l' \<Longrightarrow> ln_trace l' = ln_trace l \<and> ln_decoder l' = ln_decoder l \<and> ln_joining l' = ln_joining l \<and>
     ln_nextSocket l' = ln_nextSocket l \<and> (ln_connection l' = ln_connection l \<or> ln_connection l' = map_option connection_close (ln_connection l)) \<and>
     (ln_accept l' = ln_accept l \<or> ln_accept l = Some AcceptEnded \<and> ln_accept l' = None) \<and>
     (ln_serve l' = ln_serve l \<or> (\<exists>s. ln_call l = StopJoinServe \<and> ln_serve l = Some (s, ServeEnded)))"
  by (cases "ln_call l") (auto simp: stop_step_def split: option.splits if_splits)

lemma stop_trace:
  assumes ok: "trace_ok l" and step: "stop_step l = Some l'"
  shows "trace_ok l'"
proof (cases "ln_call l = StopJoinServe \<and> (\<exists>s. ln_serve l = Some (s, ServeEnded))")
  case True
  then obtain s where s: "ln_serve l = Some (s, ServeEnded)" by blast
  have l': "l' = l\<lparr>ln_serve := None, ln_call := NoListenerCall\<rparr>" using step True s by (simp add: stop_step_def)
  show ?thesis
  proof (rule no_thread_trace[OF ok])
    show "sockets_ok l'" using ok by (auto simp: l' trace_ok_def sockets_ok_def s Let_def)
  qed (simp_all add: l' s)
next
  case False
  show ?thesis
  proof (rule trace_same[OF ok])
    show "sockets_ok l'" using ok listener_stop_keeps[OF step] False by (auto simp: trace_ok_def sockets_ok_def)
  qed (use step False in \<open>(cases "ln_call l"; auto simp: stop_step_def connection_close_def connection_valid_def
      split: option.splits if_splits)+\<close>)
qed

lemma accept_trace:
  assumes ok: "trace_ok l" and threads: "threads_ok l"
  shows "trace_ok (accept_step accepted l)"
proof (cases "ln_accept l = Some AcceptJoin")
  case True
  then have "\<not> served (ln_serve l) (\<lambda>pc. pc \<noteq> ServeEnded)" using threads by (simp add: threads_ok_def)
  moreover from this have "accept_step accepted l = l\<lparr>ln_serve := Some (ln_joining l, ServeOptions), ln_accept := Some AcceptTest\<rparr>"
    using True by (cases "ln_serve l") (auto simp: accept_step_def)
  moreover from calculation have "sockets_ok (accept_step accepted l)"
    using ok True by (cases "ln_serve l") (fastforce simp: trace_ok_def sockets_ok_def Let_def)+
  ultimately show ?thesis by (intro no_thread_trace[OF ok]) simp_all
next
  case False
  show ?thesis
  proof (rule trace_same[OF ok])
    show "sockets_ok (accept_step accepted l)" using ok False
      by (cases "ln_serve l") (fastforce simp: accept_step_def trace_ok_def sockets_ok_def Let_def
        split: accept_thread.splits option.splits if_splits)+
  qed (use False in \<open>auto simp: accept_step_def split: accept_thread.splits option.splits if_splits\<close>)
qed

definition feeding :: "listener \<Rightarrow> socket \<Rightarrow> serve_thread \<Rightarrow> bool" where
  "feeding l s pc \<longleftrightarrow> wire_inv (ln_decoder l) \<and> (\<forall>reason. Disconnected s reason \<notin> set (ln_trace l)) \<and>
     (\<exists>e fs. spec_append (Inr []) (bytes_of s (ln_trace l)) = (e, wire_abs (ln_decoder l), fs) \<and>
        current_ok pc (connection_valid (the (ln_connection l))) (frames_to s (ln_trace l)) fs e)"

lemma feed_feeding: "feed_ok l \<longleftrightarrow> (\<forall>s pc. ln_serve l = Some (s, pc) \<and> talking pc \<longrightarrow> feeding l s pc)"
  by (simp add: feed_ok_def feeding_def)

lemma serve_moved:
  assumes ok: "trace_ok l" and s: "ln_serve l = Some (s, pc)" and s': "ln_serve l' = Some (s, pc')"
    and tr: "ln_trace l' = ln_trace l @ es" and same: "ln_accept l' = ln_accept l" "ln_joining l' = ln_joining l"
      "ln_nextSocket l' = ln_nextSocket l"
    and fresh: "\<forall>e \<in> set es. socket_of e = s" "fresh_serve pc' \<Longrightarrow> es = [] \<and> fresh_serve pc"
    and order: "call_order (if talking pc then Some s else None) es = Some (if talking pc' then Some s else None)"
    and delivered: "delivered_ok (ln_trace l @ es)" and feed: "talking pc' \<Longrightarrow> feeding l' s pc'"
  shows "trace_ok l'"
proof -
  have "sockets_ok l'"
  proof (cases "fresh_serve pc'")
    case True
    then show ?thesis using ok fresh(2) s s' tr same by (auto simp: trace_ok_def sockets_ok_def Let_def)
  next
    case False
    have "\<forall>e \<in> set (ln_trace l). socket_of e < Suc s"
      using ok s by (cases "fresh_serve pc") (auto simp: trace_ok_def sockets_ok_def Let_def less_SucI)
    then show ?thesis using ok fresh(1) False s s' tr same by (auto simp: trace_ok_def sockets_ok_def Let_def)
  qed
  moreover have "order_ok l'" using ok order s s' tr by (simp add: trace_ok_def order_ok_def call_order_append)
  moreover have "feed_ok l'" using feed s' by (simp add: feed_feeding)
  ultimately show ?thesis using delivered tr by (simp add: trace_ok_def)
qed

lemma feeding_now: "trace_ok l \<Longrightarrow> ln_serve l = Some (s, pc) \<Longrightarrow> talking pc \<Longrightarrow> feeding l s pc"
  by (simp add: trace_ok_def feed_feeding)

lemma delivered_now: "trace_ok l \<Longrightarrow> delivered_ok (ln_trace l)"
  by (simp add: trace_ok_def)

lemma delivered_connected: "delivered_ok tr \<Longrightarrow> delivered_ok (tr @ [Connected s])"
  by (auto simp: delivered_ok_def)

lemma delivered_received:
  "delivered_ok tr \<Longrightarrow> Disconnected s E_INVALIDARG \<notin> set tr \<Longrightarrow> delivered_ok (tr @ [Received s data])"
  using prefix_order.trans[OF _ parse_prefix] by (auto simp: delivered_ok_def)

lemma delivered_frame:
  "delivered_ok tr \<Longrightarrow> Disconnected s E_INVALIDARG \<notin> set tr \<Longrightarrow>
     prefix (frames_to s tr @ [f]) (fst (parse_stream (bytes_of s tr))) \<Longrightarrow> delivered_ok (tr @ [GotFrame s f])"
  by (auto simp: delivered_ok_def)

lemma delivered_disconnected:
  "delivered_ok tr \<Longrightarrow>
     (reason = E_INVALIDARG \<Longrightarrow> frames_to s tr = fst (parse_stream (bytes_of s tr)) \<and>
        fst (snd (parse_stream (bytes_of s tr))) \<noteq> WireNone) \<Longrightarrow>
     delivered_ok (tr @ [Disconnected s reason])"
  by (auto simp: delivered_ok_def)

lemma connected_feeding:
  assumes "\<forall>e \<in> set tr. socket_of e < s" and "ln_trace l = tr @ [Connected s]" and "ln_decoder l = wire_fresh"
  shows "feeding l s ServeTest"
proof -
  have "Disconnected s reason \<notin> set tr" for reason using assms(1) by fastforce
  moreover have "spec_append (Inr []) [] = (WireNone, Inr [], [])" using parse_stream_NeedMore[of "[]"] by (simp add: next_frame_def)
  ultimately show ?thesis using assms(2,3) unmentioned[OF assms(1)] by (simp add: feeding_def)
qed

lemma received_feeding:
  assumes now: "feeding l s ServeRecv" and append: "wire_append (ln_decoder l) data [] = (err, decoder, frames)"
    and "ln_trace l' = ln_trace l @ [Received s data]" and "ln_decoder l' = decoder"
  shows "feeding l' s (ServeFrames frames err)"
proof -
  from now have inv: "wire_inv (ln_decoder l)" and none: "\<forall>reason. Disconnected s reason \<notin> set (ln_trace l)"
    and spec: "spec_append (Inr []) (bytes_of s (ln_trace l)) = (WireNone, wire_abs (ln_decoder l), frames_to s (ln_trace l))"
    by (auto simp: feeding_def)
  obtain fs where "wire_inv decoder" "frames = fs" "spec_append (wire_abs (ln_decoder l)) data = (err, wire_abs decoder, fs)"
    using wire_append_refines[OF inv, of data "[]"] append by auto
  then show ?thesis using none spec assms(3,4) by (simp add: feeding_def spec_append_append)
qed

lemma serve_trace:
  assumes ok: "trace_ok l" and threads: "threads_ok l" and s: "ln_serve l = Some (s, pc)"
    and step: "serve_step result s pc l = Some l'"
  shows "trace_ok l'"
proof -
  note moved = serve_moved[OF ok s] and delivered = delivered_now[OF ok]
  have alive: "\<exists>c. ln_connection l = Some c" if "alive pc" using alive_connection[OF threads s that] .
  have now: "feeding l s pc" if "talking pc" using feeding_now[OF ok s that] .
  show ?thesis
  proof (cases pc)
    case ServeConnected
    have l': "l' = tell (Connected s) (l\<lparr>ln_serve := Some (s, ServeTest), ln_decoder := wire_fresh\<rparr>)"
      using step alive ServeConnected by (auto simp: serve_step_def)
    have "\<forall>e \<in> set (ln_trace l). socket_of e < s"
      using ok s ServeConnected by (auto simp: trace_ok_def sockets_ok_def Let_def)
    then show ?thesis using ServeConnected connected_feeding[of "ln_trace l" s l'] delivered_connected[OF delivered]
      by (intro moved[where es = "[Connected s]" and pc' = ServeTest]) (simp_all add: l')
  next
    case ServeRecv
    then obtain c where c: "ln_connection l = Some c" using alive by auto
    have feed: "feeding l s ServeRecv" using now ServeRecv by simp
    show ?thesis
    proof (cases "cn_open c \<and> (\<exists>data. result = RecvBytes data)")
      case True
      then obtain data where data: "result = RecvBytes data" by blast
      obtain err decoder frames where append: "wire_append (ln_decoder l) data [] = (err, decoder, frames)"
        by (metis prod_cases3)
      have l': "l' = tell (Received s data) (l\<lparr>ln_serve := Some (s, ServeFrames frames err), ln_decoder := decoder\<rparr>)"
        using step ServeRecv c True data append by (simp add: serve_step_def)
      have "delivered_ok (ln_trace l @ [Received s data])"
        using feed by (intro delivered_received[OF delivered]) (simp add: feeding_def)
      then show ?thesis using ServeRecv received_feeding[OF feed append, of l']
        by (intro moved[where es = "[Received s data]" and pc' = "ServeFrames frames err"]) (simp_all add: l')
    next
      case False
      then obtain reason where l': "l' = l\<lparr>ln_serve := Some (s, ServeLeave reason)\<rparr>" and "reason \<noteq> E_INVALIDARG"
        using step ServeRecv c by (auto simp: serve_step_def hrFromWsa_def split: receive.splits if_splits)
      then show ?thesis using ServeRecv feed delivered
        by (intro moved[where es = "[]" and pc' = "ServeLeave reason"]) (auto simp: feeding_def)
    qed
  next
    case (ServeFrames frames err)
    then obtain c where c: "ln_connection l = Some c" using alive by auto
    show ?thesis
    proof (cases frames)
      case Nil
      then show ?thesis using step ServeFrames c now delivered
        by (intro moved[where es = "[]" and pc' = "ServeAfter err"]) (auto simp: serve_step_def feeding_def)
    next
      case (Cons f rest)
      have l': "l' = tell (GotFrame s f) (l\<lparr>ln_serve := Some (s, ServeChecked rest err)\<rparr>)"
        using step ServeFrames Cons c by (simp add: serve_step_def)
      obtain e where spec: "spec_append (Inr []) (bytes_of s (ln_trace l)) =
          (e, wire_abs (ln_decoder l), frames_to s (ln_trace l) @ f # rest)"
        using now ServeFrames Cons by (auto simp: feeding_def)
      have "delivered_ok (ln_trace l @ [GotFrame s f])"
        using now ServeFrames spec_parse[OF spec] by (intro delivered_frame[OF delivered]) (simp_all add: feeding_def)
      then show ?thesis using now ServeFrames Cons
        by (intro moved[where es = "[GotFrame s f]" and pc' = "ServeChecked rest err"]) (auto simp: l' feeding_def)
    qed
  next
    case (ServeLeave reason)
    then obtain c where c: "ln_connection l = Some c" using alive by auto
    have l': "l' = tell (Disconnected s reason) (l\<lparr>ln_serve := Some (s, ServeClear)\<rparr>)"
      using step ServeLeave c by (simp add: serve_step_def)
    obtain e fs where spec: "spec_append (Inr []) (bytes_of s (ln_trace l)) = (e, wire_abs (ln_decoder l), fs)"
      and current: "reason = E_INVALIDARG \<longrightarrow> frames_to s (ln_trace l) = fs \<and> e \<noteq> WireNone"
      using now ServeLeave by (auto simp: feeding_def)
    have "delivered_ok (ln_trace l @ [Disconnected s reason])"
      using spec_parse[OF spec] current by (intro delivered_disconnected[OF delivered]) simp
    then show ?thesis using ServeLeave
      by (intro moved[where es = "[Disconnected s reason]" and pc' = ServeClear]) (simp_all add: l')
  next
    case ServeEnded
    then show ?thesis using step ok by (simp add: serve_step_def)
  next
    case ServeTest
    then show ?thesis using step now delivered s
      by (intro moved[where es = "[]" and pc' = "if ln_stopping l then ServeLeave S_OK else ServeValid"])
        (auto simp: serve_step_def feeding_def split: if_splits)
  next
    case ServeValid
    then obtain c where c: "ln_connection l = Some c" using alive by auto
    then show ?thesis using step now delivered s ServeValid
      by (intro moved[where es = "[]" and pc' = "if \<not> connection_valid c
          then ServeLeave (HRESULT_FROM_WIN32 ERROR_CONNECTION_ABORTED) else ServeRecv"])
        (auto simp: serve_step_def feeding_def split: if_splits)
  next
    case (ServeChecked frames err)
    then obtain c where c: "ln_connection l = Some c" using alive by auto
    then show ?thesis using step now delivered s ServeChecked
      by (intro moved[where es = "[]" and pc' = "if \<not> connection_valid c then ServeAfter err else ServeFrames frames err"])
        (auto simp: serve_step_def feeding_def split: if_splits)
  next
    case (ServeAfter err)
    then obtain c where c: "ln_connection l = Some c" using alive by auto
    then show ?thesis using step now delivered s ServeAfter
      by (intro moved[where es = "[]" and pc' = "if \<not> connection_valid c
            then ServeLeave (HRESULT_FROM_WIN32 ERROR_CONNECTION_ABORTED)
            else if err \<noteq> WireNone then ServeLeave E_INVALIDARG else ServeTest"])
        (auto simp: serve_step_def feeding_def split: if_splits)
  next
    case ServeOptions
    then show ?thesis using step delivered s
      by (intro moved[where es = "[]" and pc' = ServePublish]) (auto simp: serve_step_def)
  next
    case ServePublish
    then show ?thesis using step delivered s alive
      by (intro moved[where es = "[]" and pc' = ServeConnected]) (auto simp: serve_step_def)
  next
    case ServeClear
    then show ?thesis using step delivered s alive
      by (intro moved[where es = "[]" and pc' = ServeClose]) (auto simp: serve_step_def)
  next
    case ServeClose
    then show ?thesis using step delivered s alive
      by (intro moved[where es = "[]" and pc' = ServeIdle]) (auto simp: serve_step_def)
  next
    case ServeIdle
    then show ?thesis using step delivered s alive
      by (intro moved[where es = "[]" and pc' = ServeEnded]) (auto simp: serve_step_def)
  qed
qed

lemma step_trace:
  assumes ok: "trace_ok l" and threads: "threads_ok l" and step: "listener_step l e = Some l'"
  shows "trace_ok l'"
proof (cases e)
  case (StartListener env port handler loopbackOnly)
  then show ?thesis using step ok start_trace[OF ok threads] by (auto simp: listener_step_def split: if_splits)
next
  case (ServeStep result)
  then show ?thesis using step ok serve_trace[OF ok threads]
    by (cases "ln_serve l") (auto simp: listener_step_def)
next
  case StopListener
  have "trace_ok (stop_begin l)"
    by (rule trace_same[OF ok]) (use ok in \<open>auto simp: stop_begin_def trace_ok_def sockets_ok_def\<close>)
  then show ?thesis using step ok StopListener by (auto simp: listener_step_def)
qed (use step stop_trace[OF ok] accept_trace[OF ok threads] close_trace[OF ok] in \<open>auto simp: listener_step_def\<close>)

lemma listener_invariant:
  assumes "threads_ok l" and "trace_ok l"
  shows "\<exists>l'. listener_run es l = Some l' \<and> threads_ok l' \<and> trace_ok l'"
  using assms
proof (induction es arbitrary: l)
  case (Cons e es)
  obtain l' where "listener_step l e = Some l'" "threads_ok l'" using step_threads[OF Cons.prems(1)] by blast
  then show ?case using Cons.IH[OF _ step_trace[OF Cons.prems(2,1)]] by auto
qed simp

lemma new_listener_ok: "threads_ok new_listener" "trace_ok new_listener"
  by (simp_all add: new_listener_def threads_ok_def trace_ok_def sockets_ok_def order_ok_def delivered_ok_def feed_ok_def)

lemma decoded:
  "\<exists>d. wire_append wire_fresh bs [] = (fst (snd (parse_stream bs)), d, fst (parse_stream bs))"
  using wire_append_refines[OF wire_inv_fresh, of bs "[]"] by (auto split: prod.splits)

text \<open>
  Property C18: one phone at a time, and only frames it sent.  However the threads, the owner's calls, the closes of the handler
  and the network interleave, the process never assigns to a running thread nor uses a connection that is gone;
  the handler is told of one connection at a time, \<open>onConnected\<close> first, \<open>onDisconnected\<close> once and last; and
  the frames of a connection are a prefix of those in the bytes its socket received, all of them
  before a disconnection for bad framing.
\<close>

theorem listener_serves_in_order:
  "\<exists>l. listener_run es new_listener = Some l \<and> call_order None (ln_trace l) \<noteq> None \<and>
     (\<forall>s. case wire_append wire_fresh (bytes_of s (ln_trace l)) [] of (err, d, frames) \<Rightarrow>
        prefix (frames_to s (ln_trace l)) frames \<and>
        (Disconnected s E_INVALIDARG \<in> set (ln_trace l) \<longrightarrow> frames_to s (ln_trace l) = frames \<and> err \<noteq> WireNone))"
proof -
  obtain l where l: "listener_run es new_listener = Some l" "trace_ok l"
    using listener_invariant[OF new_listener_ok, of es] by blast
  have "case wire_append wire_fresh (bytes_of s (ln_trace l)) [] of (err, d, frames) \<Rightarrow>
      prefix (frames_to s (ln_trace l)) frames \<and>
      (Disconnected s E_INVALIDARG \<in> set (ln_trace l) \<longrightarrow> frames_to s (ln_trace l) = frames \<and> err \<noteq> WireNone)" for s
    using l(2) decoded[of "bytes_of s (ln_trace l)"] by (auto simp: trace_ok_def delivered_ok_def)
  then show ?thesis using l by (auto simp: trace_ok_def order_ok_def)
qed

definition demo_listen :: listen_env where
  "demo_listen = \<lparr>le_status = S_OK, le_socket = None, le_exclusive = None, le_dualStack = None, le_bind = None,
     le_name = Some 7890, le_listen = None\<rparr>"

text \<open>A phone that sends an empty control frame and then a header that announces more than 16 MiB.\<close>

definition demo_bytes :: bytes where
  "demo_bytes = [0, 0, 0, 0, 0, 0, 0, 0, 0, 0, 0, 0, 0, 0, 0, 7] @ [1, 0, 0, 1, 0, 0, 0, 0, 0, 0, 0, 0, 0, 0, 0, 0]"

lemma demo_appended:
  "\<exists>d. wire_append wire_fresh demo_bytes [] =
     (PayloadTooLarge, d, [\<lparr>fr_channel = 0, fr_flags = 0, fr_ptsMicros = 7, fr_payload = []\<rparr>])"
proof -
  have "next_frame demo_bytes = Got \<lparr>fr_channel = 0, fr_flags = 0, fr_ptsMicros = 7, fr_payload = []\<rparr>
      [1, 0, 0, 1, 0, 0, 0, 0, 0, 0, 0, 0, 0, 0, 0, 0]"
    by (simp add: demo_bytes_def next_frame_def be_simps Let_def be_value_def wire_kMaxPayloadBytes_def kKnownMask_def kKeyframe_def kEncrypted_def kEndOfFragment_def)
  moreover have "next_frame [1, 0, 0, 1, 0, 0, 0, 0, 0, 0, 0, 0, 0, 0, 0, 0] = Bad PayloadTooLarge"
    by (simp add: next_frame_def be_simps be_value_def wire_kMaxPayloadBytes_def)
  ultimately have "parse_stream demo_bytes = ([\<lparr>fr_channel = 0, fr_flags = 0, fr_ptsMicros = 7, fr_payload = []\<rparr>],
      PayloadTooLarge, [1, 0, 0, 1, 0, 0, 0, 0, 0, 0, 0, 0, 0, 0, 0, 0])"
    by (simp add: parse_stream_Got parse_stream_Bad)
  then show ?thesis using wire_append_refines[OF wire_inv_fresh, of demo_bytes "[]"] by (auto split: prod.splits)
qed

definition demo_visit :: "listener_event list" where
  "demo_visit = [StartListener demo_listen 0 True False, AcceptStep True, AcceptStep True, AcceptStep True, AcceptStep True] @
     replicate 5 (ServeStep RecvClosed) @ [ServeStep (RecvBytes demo_bytes)] @ replicate 9 (ServeStep RecvClosed)"

lemma demo_visited: "\<exists>l. listener_run demo_visit new_listener = Some l \<and> Disconnected 0 E_INVALIDARG \<in> set (ln_trace l)"
proof -
  obtain d where "wire_append wire_fresh demo_bytes [] =
     (PayloadTooLarge, d, [\<lparr>fr_channel = 0, fr_flags = 0, fr_ptsMicros = 7, fr_payload = []\<rparr>])"
    using demo_appended by blast
  then show ?thesis
    by (simp add: demo_visit_def demo_listen_def new_listener_def listener_step_def listener_start_def accept_step_def serve_step_def
      connection_valid_def Let_def eval_nat_numeral)
qed

theorem listener_serves_in_order_witness:
  "\<exists>l. listener_run demo_visit new_listener = Some l \<and> Disconnected 0 E_INVALIDARG \<in> set (ln_trace l) \<and>
     (case wire_append wire_fresh (bytes_of 0 (ln_trace l)) [] of (err, d, frames) \<Rightarrow>
        frames_to 0 (ln_trace l) = frames \<and> err \<noteq> WireNone)"
proof -
  obtain l where l: "listener_run demo_visit new_listener = Some l" "Disconnected 0 E_INVALIDARG \<in> set (ln_trace l)"
    using demo_visited by blast
  have "case wire_append wire_fresh (bytes_of 0 (ln_trace l)) [] of (err, d, frames) \<Rightarrow>
      prefix (frames_to 0 (ln_trace l)) frames \<and>
      (Disconnected 0 E_INVALIDARG \<in> set (ln_trace l) \<longrightarrow> frames_to 0 (ln_trace l) = frames \<and> err \<noteq> WireNone)"
    using listener_serves_in_order[of demo_visit] l(1) by (elim exE conjE) simp
  then show ?thesis using l by (auto split: prod.splits)
qed

subsection \<open>A stop returns\<close>

text \<open>The next step that a stop needs: its own, or one of the thread it waits for.\<close>

definition stop_turn :: "receive \<Rightarrow> listener \<Rightarrow> listener_event" where
  "stop_turn result l =
     (case ln_call l of
        StopJoinAccept \<Rightarrow> if ln_accept l = None \<or> ln_accept l = Some AcceptEnded then StopStep else AcceptStep True
      | StopJoinServe \<Rightarrow> if ln_serve l = None \<or> snd (the (ln_serve l)) = ServeEnded then StopStep else ServeStep result
      | _ \<Rightarrow> StopStep)"

fun stop_turns :: "receive list \<Rightarrow> listener \<Rightarrow> listener option" where
  "stop_turns [] l = Some l"
| "stop_turns (result # results) l =
     (case listener_step l (stop_turn result l) of None \<Rightarrow> None | Some l' \<Rightarrow> stop_turns results l')"

fun call_rank :: "listener_call \<Rightarrow> nat" where
  "call_rank NoListenerCall = 0"
| "call_rank StopListening = 4"
| "call_rank StopActive = 3"
| "call_rank StopJoinAccept = 2"
| "call_rank StopJoinServe = 1"

fun accept_rank :: "accept_thread option \<Rightarrow> nat" where
  "accept_rank (Some AcceptTest) = 1"
| "accept_rank (Some Accepting) = 2"
| "accept_rank (Some (AcceptExchange s)) = 17"
| "accept_rank (Some AcceptJoin) = 16"
| "accept_rank _ = 0"

fun serve_rank :: "serve_thread \<Rightarrow> nat" where
  "serve_rank ServeOptions = 10"
| "serve_rank ServePublish = 9"
| "serve_rank ServeConnected = 8"
| "serve_rank ServeTest = 5"
| "serve_rank ServeValid = 7"
| "serve_rank ServeRecv = 6"
| "serve_rank (ServeFrames frames err) = 7 + 2 * length frames"
| "serve_rank (ServeChecked frames err) = 8 + 2 * length frames"
| "serve_rank (ServeAfter err) = 6"
| "serve_rank (ServeLeave reason) = 4"
| "serve_rank ServeClear = 3"
| "serve_rank ServeClose = 2"
| "serve_rank ServeIdle = 1"
| "serve_rank ServeEnded = 0"

definition stop_rank :: "listener \<Rightarrow> nat" where
  "stop_rank l = call_rank (ln_call l) + accept_rank (ln_accept l) +
     (case ln_serve l of None \<Rightarrow> 0 | Some (s, pc) \<Rightarrow> serve_rank pc)"

lemma serve_rank_step:
  assumes "serve_step result s pc l = Some l'" and "pc \<noteq> ServeEnded" and "ln_stopping l"
    and "pc = ServeValid \<or> pc = ServeRecv \<Longrightarrow> \<not> cn_open (the (ln_connection l))"
  shows "\<exists>pc'. ln_serve l' = Some (s, pc') \<and> serve_rank pc' < serve_rank pc \<and> ln_call l' = ln_call l \<and> ln_accept l' = ln_accept l"
  using assms by (cases pc) (auto simp: serve_step_def connection_valid_def split: option.splits list.splits if_splits)

lemma stop_progress:
  assumes ok: "threads_ok l" and call: "ln_call l \<noteq> NoListenerCall" and step: "listener_step l (stop_turn result l) = Some l'"
  shows "stop_rank l' < stop_rank l"
proof -
  have stopping: "ln_stopping l" using ok call by (simp add: threads_ok_def)
  have "(\<exists>s pc. ln_call l = StopJoinServe \<and> ln_serve l = Some (s, pc) \<and> pc \<noteq> ServeEnded) \<or>
      (\<exists>a. ln_call l = StopJoinAccept \<and> ln_accept l = Some a \<and> a \<noteq> AcceptEnded) \<or> stop_turn result l = StopStep"
    by (cases "ln_call l"; cases "ln_accept l"; cases "ln_serve l") (auto simp: stop_turn_def split: prod.split)
  then consider (Serve) s pc where "ln_call l = StopJoinServe" "ln_serve l = Some (s, pc)" "pc \<noteq> ServeEnded"
    | (Accept) a where "ln_call l = StopJoinAccept" "ln_accept l = Some a" "a \<noteq> AcceptEnded"
    | (Stop) "stop_turn result l = StopStep"
    by blast
  then show ?thesis
  proof cases
    case Serve
    have "serve_step result s pc l = Some l'" using step Serve by (simp add: listener_step_def stop_turn_def)
    moreover have "pc = ServeValid \<or> pc = ServeRecv \<Longrightarrow> \<not> cn_open (the (ln_connection l))"
      using ok Serve by (simp add: threads_ok_def)
    ultimately show ?thesis using serve_rank_step[OF _ Serve(3) stopping] Serve by (fastforce simp: stop_rank_def)
  next
    case Accept
    have l': "l' = accept_step True l" using step Accept by (simp add: listener_step_def stop_turn_def)
    have "\<not> ln_listenOpen l" "a = AcceptJoin \<longrightarrow> \<not> served (ln_serve l) (\<lambda>pc. pc \<noteq> ServeEnded)"
      using ok Accept by (simp_all add: threads_ok_def)
    then show ?thesis using Accept stopping
      by (cases a; cases "ln_serve l") (auto simp: l' accept_step_def stop_rank_def)
  next
    case Stop
    then have "stop_step l = Some l'" using step by (simp add: listener_step_def)
    then show ?thesis using call Stop
      by (cases "ln_call l") (auto simp: stop_step_def stop_turn_def stop_rank_def split: option.splits if_splits)
  qed
qed

lemma stop_rests: "ln_call l = NoListenerCall \<Longrightarrow> stop_turns results l = Some l"
  by (induction results) (simp_all add: listener_step_def stop_turn_def stop_step_def)

lemma accept_call: "ln_call (accept_step accepted l) = ln_call l"
  by (simp add: accept_step_def split: option.split accept_thread.split)

lemma serve_call: "serve_step result s pc l = Some l' \<Longrightarrow> ln_call l' = ln_call l"
  by (cases pc) (auto simp: serve_step_def split: option.splits list.splits if_splits receive.splits prod.splits)

lemma stop_closed:
  assumes ok: "threads_ok l" and call: "ln_call l \<noteq> NoListenerCall" and step: "listener_step l (stop_turn result l) = Some l'"
    and ended: "ln_call l' = NoListenerCall"
  shows "\<not> ln_listenOpen l'"
proof -
  have shut: "\<not> ln_listenOpen l" if "ln_call l = StopJoinServe" using ok that by (simp add: threads_ok_def)
  have "stop_step l = Some l'"
  proof (cases "stop_turn result l")
    case (AcceptStep accepted)
    then show ?thesis using step ended call by (auto simp: listener_step_def accept_call)
  next
    case (ServeStep received)
    then show ?thesis using step ended call serve_call by (auto simp: listener_step_def split: option.splits)
  qed (use step in \<open>auto simp: listener_step_def stop_turn_def split: listener_call.splits if_splits\<close>)
  then show ?thesis using call ended shut
    by (cases "ln_call l") (auto simp: stop_step_def split: option.splits if_splits)
qed

lemma stop_ends:
  assumes "threads_ok l" and "stop_rank l \<le> length results" and "ln_call l \<noteq> NoListenerCall"
  shows "\<exists>l'. stop_turns results l = Some l' \<and> threads_ok l' \<and> ln_call l' = NoListenerCall \<and> \<not> ln_listenOpen l'"
  using assms
proof (induction results arbitrary: l)
  case Nil
  then show ?case by (cases "ln_call l") (simp_all add: stop_rank_def)
next
  case (Cons result results)
  obtain l' where l': "listener_step l (stop_turn result l) = Some l'" "threads_ok l'"
    using step_threads[OF Cons.prems(1)] by blast
  have "stop_rank l' \<le> length results"
    using stop_progress[OF Cons.prems(1,3) l'(1)] Cons.prems(2) by simp
  show ?case
  proof (cases "ln_call l' = NoListenerCall")
    case True
    then show ?thesis using stop_closed[OF Cons.prems(1,3) l'(1) True] l' by (simp add: stop_rests)
  next
    case False
    then show ?thesis using Cons.IH[OF l'(2) \<open>stop_rank l' \<le> length results\<close>] l'(1) by simp
  qed
qed

lemma stopped_threads:
  "threads_ok l \<Longrightarrow> ln_call l = NoListenerCall \<Longrightarrow> \<not> ln_listenOpen l \<Longrightarrow>
     ln_accept l = None \<and> ln_serve l = None \<and> ln_connection l = None \<and> ln_activeConnection l = None"
  unfolding threads_ok_def by (metis served.simps(1))

text \<open>
  Property C19: a stop returns.  Whatever has happened to the listener, once the owner has called \<open>stop\<close> the call
  needs at most \<open>stop_rank\<close> steps of its own and of the threads it joins, none of which waits for the phone, and then
  neither thread, nor the connection, nor the listening socket is left.
\<close>

theorem listener_stop_returns:
  assumes "listener_run es new_listener = Some l" and "ln_call l \<noteq> NoListenerCall" and "stop_rank l \<le> length results"
  shows "\<exists>l'. stop_turns results l = Some l' \<and> ln_call l' = NoListenerCall \<and> \<not> ln_listenOpen l' \<and>
     ln_accept l' = None \<and> ln_serve l' = None \<and> ln_connection l' = None \<and> ln_activeConnection l' = None"
proof -
  have "threads_ok l" using listener_invariant[OF new_listener_ok, of es] assms(1) by auto
  then show ?thesis using stop_ends[OF _ assms(3,2)] stopped_threads by blast
qed

text \<open>A stop while a connected phone is silent, in the middle of a receive.\<close>

definition demo_stop :: "listener_event list" where
  "demo_stop = [StartListener demo_listen 0 True False, AcceptStep True, AcceptStep True, AcceptStep True, AcceptStep True,
     ServeStep RecvClosed, ServeStep RecvClosed, ServeStep RecvClosed, ServeStep RecvClosed, ServeStep RecvClosed, StopListener]"

theorem listener_stop_returns_witness:
  "\<exists>l l'. listener_run demo_stop new_listener = Some l \<and> ln_serve l = Some (0, ServeRecv) \<and>
     stop_turns (replicate 11 RecvClosed) l = Some l' \<and> ln_call l' = NoListenerCall \<and> ln_serve l' = None \<and> ln_connection l' = None"
proof -
  have "\<exists>l. listener_run demo_stop new_listener = Some l \<and> ln_serve l = Some (0, ServeRecv) \<and>
      ln_call l = StopListening \<and> stop_rank l = 11"
    by (simp add: demo_stop_def demo_listen_def new_listener_def listener_step_def listener_start_def accept_step_def
      serve_step_def stop_begin_def connection_valid_def Let_def stop_rank_def)
  then obtain l where l: "listener_run demo_stop new_listener = Some l" "ln_serve l = Some (0, ServeRecv)"
      "ln_call l \<noteq> NoListenerCall" "stop_rank l = 11"
    by auto
  show ?thesis using listener_stop_returns[OF l(1,3), of "replicate 11 RecvClosed"] l by auto
qed

end
