(* ===== verification/Sending.thy ===== *)
theory Sending
  imports Listener
begin

text \<open>
  Both ends of a connection as streams of frames: \<open>Connection::send\<close> of \<open>windows/net/src/tcp_listener.cpp\<close>, which
  several threads call at once, and the client of the tests and tools, \<open>windows/net/src/tcp_client.cpp\<close>.
  What each call of \<open>send\<close> or \<open>recv\<close> of Winsock does is an argument; a send takes no more than it was
  given, and fails on a socket that has been closed or shut down.
\<close>

subsection \<open>Sending on the listener's connection\<close>

definition INT_MAX :: nat where "INT_MAX = 2147483647"

datatype sent = Sent nat | SendError u32

text \<open>
  The two locks of a connection with the sender that holds \<open>sendMutex\<close>: its frame, the frame's bytes and how many of them
  are sent.  The last two fields are the bytes Winsock has taken and the calls that have come back, with what each had sent.
\<close>

record link =
  lk_connection :: connection
  lk_shutdown :: bool
  lk_sender :: "(frame \<times> bytes \<times> nat) option"
  lk_wire :: bytes
  lk_calls :: "(frame \<times> nat \<times> hresult) list"

definition new_link :: link where
  "new_link = \<lparr>lk_connection = \<lparr>cn_open = True, cn_closing = False\<rparr>, lk_shutdown = False, lk_sender = None,
     lk_wire = [], lk_calls = []\<rparr>"

text \<open>
  A call of \<open>send\<close>, up to the loop.  While another thread holds the lock the call waits: a step that is not
  taken, and the first component says that nothing came back.
\<close>

definition send_enter :: "frame \<Rightarrow> link \<Rightarrow> hresult option \<times> link" where
  "send_enter f k =
     (case wire_encode_frame f [] of (err, data) \<Rightarrow>
        if err \<noteq> WireNone then (Some E_INVALIDARG, k)
        else if lk_sender k \<noteq> None then (None, k)
        else if \<not> connection_valid (lk_connection k) then (Some (HRESULT_FROM_WIN32 ERROR_INVALID_STATE), k)
        else (None, k\<lparr>lk_sender := Some (f, data, 0)\<rparr>))"

text \<open>One turn of the loop of the sender that holds the lock, or its return.\<close>

definition send_step :: "sent \<Rightarrow> link \<Rightarrow> hresult option \<times> link" where
  "send_step result k =
     (case lk_sender k of
        None \<Rightarrow> (None, k)
      | Some (f, data, sent) \<Rightarrow>
          (let return = (\<lambda>hr. (Some hr, k\<lparr>lk_sender := None, lk_calls := lk_calls k @ [(f, sent, hr)]\<rparr>))
           in if sent < length data
              then (let chunk = min (length data - sent) INT_MAX
                    in case result of
                         SendError e \<Rightarrow> return (hrFromWsa e)
                       | Sent n \<Rightarrow>
                           (if \<not> cn_open (lk_connection k) \<or> lk_shutdown k then return (hrFromWsa ERROR_CONNECTION_ABORTED)
                            else if n = 0 then return (HRESULT_FROM_WIN32 ERROR_CONNECTION_ABORTED)
                            else (None, k\<lparr>lk_sender := Some (f, data, sent + min n chunk),
                                     lk_wire := lk_wire k @ take (min n chunk) (drop sent data)\<rparr>)))
              else return S_OK))"

definition shutdownSend :: "link \<Rightarrow> link" where
  "shutdownSend k = (if connection_valid (lk_connection k) then k\<lparr>lk_shutdown := True\<rparr> else k)"

text \<open>What the threads that share a connection do; a close first marks the socket and then waits for the sender.\<close>

datatype link_event = CallSend frame | SendTurn sent | ShutLink | CloseLink

fun link_step :: "link \<Rightarrow> link_event \<Rightarrow> link" where
  "link_step k (CallSend f) = snd (send_enter f k)"
| "link_step k (SendTurn result) = snd (send_step result k)"
| "link_step k ShutLink = shutdownSend k"
| "link_step k CloseLink = k\<lparr>lk_connection := connection_close (lk_connection k)\<rparr>"

fun link_run :: "link_event list \<Rightarrow> link \<Rightarrow> link" where
  "link_run [] k = k"
| "link_run (e # es) k = link_run es (link_step k e)"

definition close_waits :: "link \<Rightarrow> bool" where
  "close_waits k \<longleftrightarrow> lk_sender k \<noteq> None"

subsection \<open>What is on the wire\<close>

text \<open>The bytes of one call that came back, and of the one that is running.\<close>

fun call_bytes :: "frame \<times> nat \<times> hresult \<Rightarrow> bytes" where
  "call_bytes (f, n, hr) = take n (frame_bytes f)"

fun sender_bytes :: "(frame \<times> bytes \<times> nat) option \<Rightarrow> bytes" where
  "sender_bytes None = []"
| "sender_bytes (Some (f, data, n)) = take n data"

fun call_ok :: "frame \<times> nat \<times> hresult \<Rightarrow> bool" where
  "call_ok (f, n, hr) = (frame_ok f \<and> n \<le> length (frame_bytes f) \<and> (hr = S_OK \<longrightarrow> n = length (frame_bytes f)))"

fun torn :: "frame \<times> nat \<times> hresult \<Rightarrow> bool" where
  "torn (f, n, hr) = (hr \<noteq> S_OK \<and> n \<noteq> 0)"

fun honest :: "link_event \<Rightarrow> bool" where
  "honest (SendTurn (SendError e)) = (e \<noteq> 0)"
| "honest _ = True"

definition link_ok :: "link \<Rightarrow> bool" where
  "link_ok k \<longleftrightarrow>
     lk_wire k = concat (map call_bytes (lk_calls k)) @ sender_bytes (lk_sender k) \<and>
     list_all call_ok (lk_calls k) \<and>
     (case lk_sender k of None \<Rightarrow> True
      | Some (f, data, n) \<Rightarrow> frame_ok f \<and> data = frame_bytes f \<and> n \<le> length data)"

lemma send_enter_ok: "link_ok k \<Longrightarrow> link_ok (snd (send_enter f k))"
  by (cases "lk_sender k") (auto simp: send_enter_def link_ok_def wire_encode_frame_eq frame_ok_def)

lemma send_step_ok:
  assumes "link_ok k" and "\<forall>e. result = SendError e \<longrightarrow> e \<noteq> 0"
  shows "link_ok (snd (send_step result k))"
proof (cases "lk_sender k")
  case None
  then show ?thesis using assms by (simp add: send_step_def)
next
  case (Some t)
  obtain f n where t: "t = (f, frame_bytes f, n)" "frame_ok f" "n \<le> length (frame_bytes f)"
    using assms(1) Some by (cases t) (auto simp: link_ok_def)
  have wire: "lk_wire k = concat (map call_bytes (lk_calls k)) @ take n (frame_bytes f)"
      "list_all call_ok (lk_calls k)"
    using assms(1) Some t by (simp_all add: link_ok_def)
  show ?thesis
  proof (cases "n < length (frame_bytes f)")
    case True
    show ?thesis
    proof (cases result)
      case (Sent m)
      then show ?thesis using Some t wire True
        by (auto simp: send_step_def link_ok_def Let_def take_add hrFromWsa_def ERROR_CONNECTION_ABORTED_def)
    next
      case (SendError e)
      then show ?thesis using Some t wire True assms(2) by (simp add: send_step_def link_ok_def hrFromWsa_def)
    qed
  next
    case False
    then show ?thesis using Some t wire by (simp add: send_step_def link_ok_def)
  qed
qed

lemma link_step_ok: "link_ok k \<Longrightarrow> honest e \<Longrightarrow> link_ok (link_step k e)"
proof (cases e)
  case (SendTurn result)
  then show "link_ok k \<Longrightarrow> honest e \<Longrightarrow> ?thesis" by (cases result) (auto intro: send_step_ok)
next
  case (CallSend f)
  then show "link_ok k \<Longrightarrow> honest e \<Longrightarrow> ?thesis" by (simp add: send_enter_ok)
qed (auto simp: shutdownSend_def link_ok_def)

lemma link_run_ok: "link_ok k \<Longrightarrow> list_all honest es \<Longrightarrow> link_ok (link_run es k)"
  by (induction es arbitrary: k) (auto intro: link_step_ok)

lemma new_link_ok: "link_ok new_link"
  by (simp add: link_ok_def new_link_def)

definition sent_frames :: "link \<Rightarrow> frame list" where
  "sent_frames k = map fst (filter (\<lambda>(f, n, hr). hr = S_OK) (lk_calls k))"

lemma calls_bytes:
  "list_all call_ok calls \<Longrightarrow> list_all (Not \<circ> torn) calls \<Longrightarrow>
     concat (map call_bytes calls) = concat (map frame_bytes (map fst (filter (\<lambda>(f, n, hr). hr = S_OK) calls))) \<and>
     list_all frame_ok (map fst (filter (\<lambda>(f, n, hr). hr = S_OK) calls))"
  by (induction calls) (auto split: if_splits)

text \<open>A close cancels the send that is running: it comes back at its next turn, and then the close returns.\<close>

lemma close_cancels_send:
  "\<not> cn_open (lk_connection k) \<Longrightarrow> close_waits k \<Longrightarrow>
     fst (send_step result k) \<noteq> None \<and> \<not> close_waits (snd (send_step result k))"
  by (cases "lk_sender k"; cases result) (auto simp: close_waits_def send_step_def Let_def split: if_splits)

text \<open>A frame that is not complete asks for more bytes, and is no error.\<close>

lemma next_frame_prefix:
  assumes "frame_ok f" and "n < length (frame_bytes f)"
  shows "next_frame (take n (frame_bytes f)) = NeedMore"
proof (cases "next_frame (take n (frame_bytes f))")
  case (Got g rest)
  have "take n (frame_bytes f) = frame_bytes g @ rest" using next_frame_only[OF Got] by simp
  then have "frame_bytes f = frame_bytes g @ rest @ drop n (frame_bytes f)"
    by (metis append.assoc append_take_drop_id)
  then have "next_frame (frame_bytes f) = Got g (rest @ drop n (frame_bytes f))"
    using next_frame_frame_bytes[of g "rest @ drop n (frame_bytes f)"] next_frame_only[OF Got] by simp
  then show ?thesis using next_frame_frame_bytes[OF assms(1), of "[]"] assms(2) by simp
next
  case (Bad e)
  have "16 \<le> n" using Bad assms(2) by (auto simp: next_frame_def Let_def split: if_splits)
  then have "next_frame (frame_bytes f) = Bad e"
    using Bad assms(2) by (auto simp: next_frame_def Let_def split: if_splits)
  then show ?thesis using next_frame_frame_bytes[OF assms(1), of "[]"] by simp
qed simp

text \<open>
  Property C20: the frames of concurrent senders stay whole.  However the calls of \<open>send\<close>, the partial sends, the shutdowns and
  closes interleave, unless a call has failed with part of its frame sent, the peer's decoder reads, in any
  chunks, exactly the frames of the calls that returned \<open>S_OK\<close>, in the order they had the lock, and at
  most one more that is being sent, with no framing error.
\<close>

theorem sends_stay_whole:
  assumes "list_all honest es" and "link_run es new_link = k" and "list_all (Not \<circ> torn) (lk_calls k)"
    and "concat chunks = lk_wire k"
  shows "\<exists>d more. wire_feed wire_fresh chunks [] = (WireNone, d, sent_frames k @ more) \<and>
     more = (case lk_sender k of Some (f, data, n) \<Rightarrow> if n = length data then [f] else [] | None \<Rightarrow> [])"
proof -
  have ok: "link_ok k" using link_run_ok[OF new_link_ok assms(1)] assms(2) by simp
  let ?more = "case lk_sender k of Some (f, data, n) \<Rightarrow> if n = length data then [f] else [] | None \<Rightarrow> []"
  have calls: "concat (map call_bytes (lk_calls k)) = concat (map frame_bytes (sent_frames k))"
      "list_all frame_ok (sent_frames k)"
    using calls_bytes[OF _ assms(3)] ok by (simp_all add: link_ok_def sent_frames_def)
  have "\<exists>r. parse_stream (sender_bytes (lk_sender k)) = (?more, WireNone, r)"
  proof (cases "lk_sender k")
    case None
    then show ?thesis by (simp add: parse_stream_NeedMore next_frame_def)
  next
    case (Some t)
    then obtain f n where t: "t = (f, frame_bytes f, n)" "frame_ok f" "n \<le> length (frame_bytes f)"
      using ok by (cases t) (auto simp: link_ok_def)
    show ?thesis
    proof (cases "n = length (frame_bytes f)")
      case True
      then show ?thesis using Some t parse_stream_frames[of "[f]" "[]"]
        by (simp add: parse_stream_NeedMore[of "[]"] next_frame_def)
    next
      case False
      then show ?thesis using Some t next_frame_prefix[of f n] by (simp add: parse_stream_NeedMore)
    qed
  qed
  then obtain r where "parse_stream (concat chunks) = (sent_frames k @ ?more, WireNone, r)"
    using parse_stream_frames[OF calls(2), of "sender_bytes (lk_sender k)"] ok calls(1) assms(4)
    by (auto simp: link_ok_def)
  then show ?thesis using wire_feed_spec[OF wire_inv_fresh, of chunks "[]"] by (auto split: prod.splits)
qed

text \<open>
  Two senders; Winsock takes the first frame in two parts, and the second sender, which gets the lock after it, is in
  the middle of its own.
\<close>

definition demo_frame :: "u8 \<Rightarrow> bytes \<Rightarrow> frame" where
  "demo_frame channel payload = \<lparr>fr_channel = channel, fr_flags = 0, fr_ptsMicros = 0, fr_payload = payload\<rparr>"

definition demo_sends :: "link_event list" where
  "demo_sends = [CallSend (demo_frame 1 [5, 6]), SendTurn (Sent 7), CallSend (demo_frame 0 []), SendTurn (Sent 100),
     SendTurn (Sent 0), CallSend (demo_frame 0 []), SendTurn (Sent 15)]"

lemma demo_frame_bytes:
  "frame_bytes (demo_frame 1 [5, 6]) = [0, 0, 0, 2, 1, 0, 0, 0, 0, 0, 0, 0, 0, 0, 0, 0, 5, 6]"
  "frame_bytes (demo_frame 0 []) = [0, 0, 0, 0, 0, 0, 0, 0, 0, 0, 0, 0, 0, 0, 0, 0]"
  by (simp_all add: demo_frame_def frame_bytes_def be_bytes_numeral)

lemma demo_encoded: "length payload < 100 \<Longrightarrow>
    wire_encode_frame (demo_frame channel payload) [] = (WireNone, frame_bytes (demo_frame channel payload))"
  by (simp add: wire_encode_frame_eq demo_frame_def wire_kMaxPayloadBytes_def)

lemmas demo_send = demo_frame_bytes demo_encoded send_enter_def send_step_def new_link_def connection_valid_def INT_MAX_def Let_def

theorem sends_stay_whole_witness:
  "\<exists>d. wire_feed wire_fresh
     [[0, 0, 0], [2, 1, 0, 0, 0, 0, 0, 0, 0, 0, 0, 0, 0, 5, 6, 0, 0, 0, 0], [0, 0, 0, 0, 0, 0, 0, 0, 0, 0, 0]] [] =
       (WireNone, d, [demo_frame 1 [5, 6]]) \<and> sent_frames (link_run demo_sends new_link) = [demo_frame 1 [5, 6]]"
proof -
  let ?k = "link_run demo_sends new_link"
  have k: "lk_calls ?k = [(demo_frame 1 [5, 6], 18, S_OK)]" "lk_sender ?k = Some (demo_frame 0 [], frame_bytes (demo_frame 0 []), 15)"
      "lk_wire ?k = frame_bytes (demo_frame 1 [5, 6]) @ take 15 (frame_bytes (demo_frame 0 []))"
    by (simp_all add: demo_sends_def demo_send)
  have "sent_frames ?k = [demo_frame 1 [5, 6]]" by (simp add: sent_frames_def k)
  moreover have "list_all honest demo_sends" by (simp add: demo_sends_def)
  ultimately show ?thesis
    using sends_stay_whole[of demo_sends ?k "[[0, 0, 0], [2, 1, 0, 0, 0, 0, 0, 0, 0, 0, 0, 0, 0, 5, 6, 0, 0, 0, 0], [0, 0, 0, 0, 0, 0, 0, 0, 0, 0, 0]]"]
    by (simp add: k demo_frame_bytes)
qed

text \<open>
  A send that fails half-way, at the two-second timeout for instance, comes back with an error and leaves the connection
  open behind a torn frame: the next call returns \<open>S_OK\<close>, and the peer reads a frame that nobody sent, with
  the second frame's header for its payload.
\<close>

theorem torn_send_poisons_the_next:
  "\<exists>k. link_run [CallSend (demo_frame 1 (replicate 16 9)), SendTurn (Sent 16), SendTurn (SendError 10060),
         CallSend (demo_frame 0 []), SendTurn (Sent 16), SendTurn (Sent 0)] new_link = k \<and>
     connection_valid (lk_connection k) \<and> sent_frames k = [demo_frame 0 []] \<and>
     (\<exists>d. wire_feed wire_fresh [lk_wire k] [] = (WireNone, d, [demo_frame 1 (replicate 16 0)]))"
proof -
  let ?zero = "[0, 0, 0, 0, 0, 0, 0, 0, 0, 0, 0, 0, 0, 0, 0, 0]"
  have a: "frame_bytes (demo_frame 1 (replicate 16 x)) = [0, 0, 0, 16, 1, 0, 0, 0, 0, 0, 0, 0, 0, 0, 0, 0] @ replicate 16 x" for x
    by (simp add: demo_frame_def frame_bytes_def be_bytes_numeral)
  let ?k = "link_run [CallSend (demo_frame 1 (replicate 16 9)), SendTurn (Sent 16), SendTurn (SendError 10060),
         CallSend (demo_frame 0 []), SendTurn (Sent 16), SendTurn (Sent 0)] new_link"
  have k: "lk_wire ?k = [0, 0, 0, 16, 1, 0, 0, 0, 0, 0, 0, 0, 0, 0, 0, 0] @ ?zero"
      "connection_valid (lk_connection ?k)" "sent_frames ?k = [demo_frame 0 []]"
    by (simp_all add: demo_send a sent_frames_def hrFromWsa_def)
  have zero: "?zero = replicate 16 0" by (simp add: numeral_eq_Suc)
  have "frame_ok (demo_frame 1 (replicate 16 0))"
    by (simp add: frame_ok_def demo_frame_def wire_kMaxPayloadBytes_def)
  then have "parse_stream (lk_wire ?k) = ([demo_frame 1 (replicate 16 0)], WireNone, [])"
    using parse_stream_frames[of "[demo_frame 1 (replicate 16 0)]" "[]"]
    by (simp only: k zero a[symmetric]) (simp add: parse_stream_NeedMore next_frame_def)
  then have "\<exists>d. wire_feed wire_fresh [lk_wire ?k] [] = (WireNone, d, [demo_frame 1 (replicate 16 0)])"
    using wire_feed_spec[OF wire_inv_fresh, of "[lk_wire ?k]" "[]"] by (auto simp del: wire_feed.simps link_run.simps split: prod.splits)
  then show ?thesis using k by blast
qed

end
