(* ===== verification/Client.thy ===== *)
theory Client
  imports Sending
begin

text \<open>
  The client of the tools and tests, \<open>windows/net/src/tcp_client.cpp\<close>, which plays the phone: connecting, sending framed
  bytes and receiving frame by frame with a timeout, and the path of its frames to the handler of the listener.
  What getaddrinfo and Winsock answer is an argument.
\<close>

subsection \<open>The client\<close>

definition ERROR_HOST_UNREACHABLE :: u32 where "ERROR_HOST_UNREACHABLE = 1232"
definition WSAEWOULDBLOCK :: u32 where "WSAEWOULDBLOCK = 10035"
definition WSAETIMEDOUT :: u32 where "WSAETIMEDOUT = 10060"

text \<open>Unlike \<^const>\<open>hrFromWsa\<close> of the listener, an error of zero is a failure.\<close>

definition wsaFailure :: "u32 \<Rightarrow> hresult" where
  "wsaFailure error = (if error = 0 then E_FAIL else HRESULT_FROM_WIN32 error)"

text \<open>The last field is the bytes received since the client connected.\<close>

record client =
  cl_open :: bool
  cl_peer :: string
  cl_decoder :: wire_decoder
  cl_pending :: "frame list"
  cl_bytes :: bytes

definition client_close :: "client \<Rightarrow> client" where
  "client_close c = c\<lparr>cl_open := False\<rparr>"

text \<open>What becomes of each address that the lookup found, in its order.\<close>

datatype attempt_result = NoSocket u32 | NoDelayFailed u32 | ConnectFailed u32 | Reached

fun try_addresses :: "attempt_result list \<Rightarrow> hresult \<Rightarrow> hresult" where
  "try_addresses [] latest = latest"
| "try_addresses (NoSocket e # rest) latest = try_addresses rest (wsaFailure e)"
| "try_addresses (NoDelayFailed e # rest) latest = try_addresses rest (wsaFailure e)"
| "try_addresses (ConnectFailed e # rest) latest = try_addresses rest (wsaFailure e)"
| "try_addresses (Reached # rest) latest = S_OK"

definition client_connect :: "hresult \<Rightarrow> string \<Rightarrow> u16 \<Rightarrow> string \<Rightarrow> u32 \<Rightarrow> attempt_result list \<Rightarrow> client \<Rightarrow> hresult \<times> client" where
  "client_connect status host port service lookup addresses c =
     (if FAILED status then (status, c)
      else if host = [] \<or> port = 0 then (E_INVALIDARG, c)
      else (let c = (client_close c)\<lparr>cl_decoder := wire_fresh, cl_pending := [], cl_bytes := []\<rparr>
            in if lookup \<noteq> 0 then (HRESULT_FROM_WIN32 lookup, c)
               else (let hr = try_addresses addresses (HRESULT_FROM_WIN32 ERROR_HOST_UNREACHABLE)
                     in (hr, if Reached \<in> set addresses then c\<lparr>cl_open := True, cl_peer := host @ '':'' @ service\<rparr> else c))))"

subsection \<open>Sending\<close>

text \<open>
  The loop of \<open>sendBytesLocked\<close>, with what has been handed to Winsock; it holds the lock that \<open>close\<close> takes.  \<^const>\<open>None\<close> is a
  loop that is still waiting when the results run out.
\<close>

fun send_loop :: "sent list \<Rightarrow> bytes \<Rightarrow> nat \<Rightarrow> bytes \<Rightarrow> (hresult \<times> bytes) option" where
  "send_loop results data sent wire =
     (if length data \<le> sent then Some (S_OK, wire)
      else case results of
             [] \<Rightarrow> None
           | SendError e # rest \<Rightarrow> Some (wsaFailure e, wire)
           | Sent n # rest \<Rightarrow>
               (let chunk = min n (min (length data - sent) INT_MAX)
                in if n = 0 then Some (HRESULT_FROM_WIN32 ERROR_CONNECTION_ABORTED, wire)
                   else send_loop rest data (sent + chunk) (wire @ take chunk (drop sent data))))"

declare send_loop.simps [simp del]

definition sendBytesLocked :: "sent list \<Rightarrow> bytes \<Rightarrow> client \<Rightarrow> (hresult \<times> bytes) option" where
  "sendBytesLocked results data c =
     (if \<not> cl_open c then Some (HRESULT_FROM_WIN32 ERROR_INVALID_STATE, []) else send_loop results data 0 [])"

definition sendRaw :: "sent list \<Rightarrow> bytes option \<Rightarrow> nat \<Rightarrow> client \<Rightarrow> (hresult \<times> bytes) option" where
  "sendRaw results pointer n c =
     (if pointer = None \<and> n \<noteq> 0 then Some (E_POINTER, [])
      else sendBytesLocked results (case pointer of None \<Rightarrow> [] | Some data \<Rightarrow> take n data) c)"

definition client_send :: "sent list \<Rightarrow> frame \<Rightarrow> client \<Rightarrow> (hresult \<times> bytes) option" where
  "client_send results f c =
     (case wire_encode_frame f [] of (err, data) \<Rightarrow>
        if err \<noteq> WireNone then Some (E_INVALIDARG, []) else sendRaw results (Some data) (length data) c)"

lemma send_loop_all:
  "send_loop results data sent wire = Some (hr, wire') \<Longrightarrow> sent \<le> length data \<Longrightarrow> \<not> FAILED hr \<Longrightarrow>
     wire' = wire @ drop sent data"
proof (induction results data sent wire rule: send_loop.induct)
  case (1 results data sent wire)
  show ?case
  proof (cases "length data \<le> sent")
    case True
    then show ?thesis using 1 by (simp add: send_loop.simps)
  next
    case False
    then obtain n rest where results: "results = Sent n # rest" "n \<noteq> 0"
      using "1.prems" by (auto simp: send_loop.simps[of results] Let_def wsaFailure_def ERROR_CONNECTION_ABORTED_def
        split: list.splits sent.splits if_splits)
    let ?chunk = "min n (min (length data - sent) INT_MAX)"
    have "send_loop rest data (sent + ?chunk) (wire @ take ?chunk (drop sent data)) = Some (hr, wire')"
      using "1.prems"(1) False results by (simp add: send_loop.simps[of "_ # _"] Let_def)
    then have "wire' = (wire @ take ?chunk (drop sent data)) @ drop (sent + ?chunk) data"
      using "1.IH"[OF False results(1) refl refl results(2)] "1.prems"(2,3) False by simp
    moreover have "take ?chunk (drop sent data) @ drop (sent + ?chunk) data = drop sent data"
      by (metis add.commute append_take_drop_id drop_drop)
    ultimately show ?thesis by simp
  qed
qed

lemma client_send_whole:
  "client_send results f c = Some (S_OK, wire) \<Longrightarrow> wire = frame_bytes f \<and> frame_ok f"
  using send_loop_all[of results "frame_bytes f" 0 "[]" S_OK wire]
  by (auto simp: client_send_def sendRaw_def sendBytesLocked_def wire_encode_frame_eq frame_ok_def split: if_splits)

subsection \<open>Receiving\<close>

text \<open>
  The loop of \<open>receive\<close>: what \<open>recv\<close> returns each time, until a frame is complete.  \<^const>\<open>None\<close> is a loop that is
  still waiting.
\<close>

fun receive_loop :: "receive list \<Rightarrow> client \<Rightarrow> (hresult \<times> frame option \<times> client) option" where
  "receive_loop results c =
     (case cl_pending c of
        f # rest \<Rightarrow> Some (S_OK, Some f, c\<lparr>cl_pending := rest\<rparr>)
      | [] \<Rightarrow>
          (case results of
             [] \<Rightarrow> None
           | RecvClosed # results \<Rightarrow> Some (HRESULT_FROM_WIN32 ERROR_CONNECTION_ABORTED, None, c)
           | RecvError e # results \<Rightarrow>
               Some (if e = WSAETIMEDOUT \<or> e = WSAEWOULDBLOCK then HRESULT_FROM_WIN32 ERROR_TIMEOUT else HRESULT_FROM_WIN32 e, None, c)
           | RecvBytes data # results \<Rightarrow>
               (case wire_append (cl_decoder c) data [] of
                  (err, decoder, frames) \<Rightarrow>
                    (let c = c\<lparr>cl_decoder := decoder, cl_bytes := cl_bytes c @ data, cl_pending := frames\<rparr>
                     in if err \<noteq> WireNone then Some (E_INVALIDARG, None, c) else receive_loop results c))))"

declare receive_loop.simps [simp del]

definition client_receive :: "u32 option \<Rightarrow> receive list \<Rightarrow> client \<Rightarrow> (hresult \<times> frame option \<times> client) option" where
  "client_receive timeoutError results c =
     (case cl_pending c of
        f # rest \<Rightarrow> Some (S_OK, Some f, c\<lparr>cl_pending := rest\<rparr>)
      | [] \<Rightarrow>
          (if \<not> cl_open c then Some (HRESULT_FROM_WIN32 ERROR_INVALID_STATE, None, c)
           else case timeoutError of
                  Some e \<Rightarrow> Some (wsaFailure e, None, c)
                | None \<Rightarrow> receive_loop results c))"

text \<open>Calls of \<open>receive\<close> one after another, with the frames that the calls gave.\<close>

fun receive_all :: "(u32 option \<times> receive list) list \<Rightarrow> client \<Rightarrow> (frame list \<times> client) option" where
  "receive_all [] c = Some ([], c)"
| "receive_all ((timeoutError, results) # calls) c =
     (case client_receive timeoutError results c of None \<Rightarrow> None
      | Some (hr, out, c') \<Rightarrow> map_option (map_prod (\<lambda>fs. (case out of None \<Rightarrow> [] | Some f \<Rightarrow> [f]) @ fs) id) (receive_all calls c'))"

definition client_ok :: "frame list \<Rightarrow> client \<Rightarrow> bool" where
  "client_ok taken c \<longleftrightarrow> wire_inv (cl_decoder c) \<and>
     (\<exists>e. spec_append (Inr []) (cl_bytes c) = (e, wire_abs (cl_decoder c), taken @ cl_pending c))"

lemma receive_loop_ok:
  "receive_loop results c = Some (hr, out, c') \<Longrightarrow> client_ok taken c \<Longrightarrow>
     client_ok (taken @ (case out of None \<Rightarrow> [] | Some f \<Rightarrow> [f])) c' \<and> (hr = S_OK \<longleftrightarrow> out \<noteq> None)"
proof (induction results c rule: receive_loop.induct)
  case (1 results c)
  show ?case
  proof (cases "cl_pending c")
    case (Cons f rest)
    then show ?thesis using "1.prems" by (auto simp: receive_loop.simps client_ok_def)
  next
    case Nil
    show ?thesis
    proof (cases "\<exists>data rest. results = RecvBytes data # rest")
      case False
      then show ?thesis using "1.prems" Nil
        by (auto simp: receive_loop.simps[of results] split: list.splits receive.splits if_splits)
    next
      case True
      then obtain data rest where results: "results = RecvBytes data # rest" by blast
      obtain err decoder frames where a: "wire_append (cl_decoder c) data [] = (err, decoder, frames)" by (metis prod_cases3)
      let ?c = "c\<lparr>cl_decoder := decoder, cl_bytes := cl_bytes c @ data, cl_pending := frames\<rparr>"
      have inv: "wire_inv (cl_decoder c)" and e: "\<exists>e. spec_append (Inr []) (cl_bytes c) = (e, wire_abs (cl_decoder c), taken)"
        using "1.prems"(2) Nil by (simp_all add: client_ok_def)
      have "spec_append (wire_abs (cl_decoder c)) data = (err, wire_abs decoder, frames)" "wire_inv decoder"
        using wire_append_refines[OF inv, of data "[]"] a by auto
      then have c: "client_ok taken ?c" using e by (auto simp: client_ok_def spec_append_append)
      show ?thesis
      proof (cases "err = WireNone")
        case True
        then have "receive_loop rest ?c = Some (hr, out, c')"
          using "1.prems"(1) Nil results a by (simp add: receive_loop.simps[of "_ # _"])
        then show ?thesis using "1.IH"[OF Nil results refl a[symmetric] refl refl] True c by simp
      next
        case False
        then show ?thesis using "1.prems"(1) Nil results a c by (auto simp: receive_loop.simps[of "_ # _"])
      qed
    qed
  qed
qed

lemma client_receive_ok:
  assumes "client_receive t results c = Some (hr, out, c')" and "client_ok taken c"
  shows "client_ok (taken @ (case out of None \<Rightarrow> [] | Some f \<Rightarrow> [f])) c'"
proof (cases "cl_pending c = [] \<and> cl_open c \<and> t = None")
  case True
  then show ?thesis using receive_loop_ok[OF _ assms(2)] assms(1) by (simp add: client_receive_def)
next
  case False
  then show ?thesis using assms by (auto simp: client_receive_def client_ok_def split: list.splits option.splits if_splits)
qed

lemma receive_all_ok:
  "receive_all calls c = Some (frames, c') \<Longrightarrow> client_ok taken c \<Longrightarrow> client_ok (taken @ frames) c'"
proof (induction calls arbitrary: c taken frames)
  case (Cons call calls)
  obtain t results where call: "call = (t, results)" by fastforce
  obtain hr out c1 fs where one: "client_receive t results c = Some (hr, out, c1)" "receive_all calls c1 = Some (fs, c')"
      "frames = (case out of None \<Rightarrow> [] | Some f \<Rightarrow> [f]) @ fs"
    using Cons.prems(1) by (auto simp: call split: option.splits)
  then show ?case using Cons.IH[OF one(2) client_receive_ok[OF one(1) Cons.prems(2)]] by simp
qed simp

lemma client_connected:
  assumes "client_connect status host port service lookup addresses c = (S_OK, c')"
  shows "cl_decoder c' = wire_fresh \<and> cl_pending c' = [] \<and> cl_bytes c' = []"
  using assms by (cases status) (auto simp: client_connect_def Let_def split: if_splits)

lemma client_fresh: "cl_decoder c = wire_fresh \<Longrightarrow> cl_pending c = [] \<Longrightarrow> cl_bytes c = [] \<Longrightarrow> client_ok [] c"
  using wire_inv_fresh spec_append_Nil[OF wire_inv_fresh] by (simp add: client_ok_def wire_abs_def wire_fresh_def wire_pending_def)

text \<open>
  Property C22: the client loses no frame.  After a connect that succeeds, whatever \<open>recv\<close> returns (chunks cut anywhere,
  timeouts, errors, a close), the frames that the calls of \<open>receive\<close> gave, followed by those kept for the
  next call, are the frames in the bytes received, in order: none is lost at a timeout or at a framing error.
\<close>

theorem client_receives_in_order:
  assumes "client_connect status host port service lookup addresses c = (S_OK, c')"
    and "receive_all calls c' = Some (frames, c'')"
  shows "case wire_append wire_fresh (cl_bytes c'') [] of (err, d, fs) \<Rightarrow> frames @ cl_pending c'' = fs"
proof -
  have "client_ok [] c'" using client_fresh client_connected[OF assms(1)] by blast
  from receive_all_ok[OF assms(2) this] show ?thesis
    using decoded[of "cl_bytes c''"] by (auto simp: client_ok_def split: prod.splits)
qed

text \<open>A frame that arrives in two parts, with a timeout between them.\<close>

definition demo_client :: client where
  "demo_client = \<lparr>cl_open = False, cl_peer = [], cl_decoder = wire_fresh, cl_pending = [], cl_bytes = []\<rparr>"

definition demo_receives :: "(u32 option \<times> receive list) list" where
  "demo_receives = [(None, [RecvBytes [0, 0, 0], RecvError 10060]), (None, [RecvClosed])]"

theorem client_receives_in_order_witness:
  "\<exists>c. receive_all demo_receives (snd (client_connect S_OK ''pc'' 7890 ''7890'' 0 [ConnectFailed 10061, Reached] demo_client)) = Some ([], c) \<and>
     cl_bytes c = [0, 0, 0] \<and>
     (case wire_append wire_fresh [0, 0, 0] [] of (err, d, fs) \<Rightarrow> cl_pending c = fs)"
proof -
  let ?c = "snd (client_connect S_OK ''pc'' 7890 ''7890'' 0 [ConnectFailed 10061, Reached] demo_client)"
  have connect: "client_connect S_OK ''pc'' 7890 ''7890'' 0 [ConnectFailed 10061, Reached] demo_client = (S_OK, ?c)"
    by (simp add: client_connect_def)
  obtain d where d: "wire_append wire_fresh [0, 0, 0] [] = (WireNone, d, [])"
    using decoded[of "[0, 0, 0]"] by (auto simp: parse_stream_NeedMore next_frame_def)
  have "\<exists>c. receive_all demo_receives ?c = Some ([], c) \<and> cl_bytes c = [0, 0, 0]"
    by (simp add: demo_receives_def client_connect_def client_receive_def receive_loop.simps[of "_ # _"] d demo_client_def client_close_def Let_def)
  then obtain c where c: "receive_all demo_receives ?c = Some ([], c)" "cl_bytes c = [0, 0, 0]" by blast
  show ?thesis using client_receives_in_order[OF connect c(1)] c by (auto split: prod.splits)
qed

subsection \<open>From the phone to the handler\<close>

text \<open>The frames that a client sends one after another, if all its calls succeed, and what they put on the wire.\<close>

fun send_all :: "(sent list \<times> frame) list \<Rightarrow> client \<Rightarrow> bytes option" where
  "send_all [] c = Some []"
| "send_all ((results, f) # calls) c =
     (case client_send results f c of
        Some (S_OK, wire) \<Rightarrow> map_option ((@) wire) (send_all calls c)
      | _ \<Rightarrow> None)"

lemma send_all_wire:
  "send_all calls c = Some wire \<Longrightarrow> wire = concat (map frame_bytes (map snd calls)) \<and> list_all frame_ok (map snd calls)"
  by (induction calls c arbitrary: wire rule: send_all.induct)
    (auto dest!: client_send_whole split: option.splits prod.splits hresult.splits)

lemma parse_of_prefix:
  assumes "prefix bs (concat (map frame_bytes fs))" and "list_all frame_ok fs"
  shows "prefix (fst (parse_stream bs)) fs \<and> fst (snd (parse_stream bs)) = WireNone"
proof -
  obtain rest where "concat (map frame_bytes fs) = bs @ rest" using assms(1) by (auto elim: prefixE)
  moreover have "parse_stream (concat (map frame_bytes fs)) = (fs, WireNone, [])"
    using parse_stream_frames[OF assms(2), of "[]"] by (simp add: parse_stream_NeedMore next_frame_def)
  ultimately have "parse_stream (bs @ rest) = (fs, WireNone, [])" by simp
  then show ?thesis using parse_stream_append[of bs rest] by (auto split: prod.splits if_splits)
qed

text \<open>
  Property C21: from the phone to the handler.  When all sends of a client succeeded and what a socket of the listener has
  received is a prefix of what they sent, then in any run of the listener's threads the handler gets a
  prefix of the client's frames, unchanged and in order, and never a disconnection for bad framing.
\<close>

theorem phone_frames_reach_handler:
  assumes "send_all calls c = Some wire" and "listener_run es new_listener = Some l"
    and "prefix (bytes_of s (ln_trace l)) wire"
  shows "prefix (frames_to s (ln_trace l)) (map snd calls) \<and> Disconnected s E_INVALIDARG \<notin> set (ln_trace l)"
proof -
  have "delivered_ok (ln_trace l)"
    using listener_invariant[OF new_listener_ok, of es] assms(2) by (auto simp: trace_ok_def)
  moreover have "prefix (fst (parse_stream (bytes_of s (ln_trace l)))) (map snd calls) \<and>
      fst (snd (parse_stream (bytes_of s (ln_trace l)))) = WireNone"
    using parse_of_prefix[of "bytes_of s (ln_trace l)" "map snd calls"] send_all_wire[OF assms(1)] assms(3) by simp
  ultimately show ?thesis unfolding delivered_ok_def by (meson prefix_order.trans)
qed

definition demo_arrival :: "listener_event list" where
  "demo_arrival = [StartListener demo_listen 0 True False, AcceptStep True, AcceptStep True, AcceptStep True, AcceptStep True] @
     replicate 5 (ServeStep RecvClosed) @ [ServeStep (RecvBytes [0, 0, 0])]"

theorem phone_frames_reach_handler_witness:
  "\<exists>l. listener_run demo_arrival new_listener = Some l \<and> bytes_of 0 (ln_trace l) = [0, 0, 0] \<and>
     prefix (frames_to 0 (ln_trace l)) [demo_frame 0 []] \<and> Disconnected 0 E_INVALIDARG \<notin> set (ln_trace l)"
proof -
  obtain d where d: "wire_append wire_fresh [0, 0, 0] [] = (WireNone, d, [])"
    using decoded[of "[0, 0, 0]"] by (auto simp: parse_stream_NeedMore next_frame_def)
  have "\<exists>l. listener_run demo_arrival new_listener = Some l \<and> bytes_of 0 (ln_trace l) = [0, 0, 0]"
    by (simp add: demo_arrival_def demo_listen_def new_listener_def listener_step_def listener_start_def accept_step_def serve_step_def
      connection_valid_def Let_def eval_nat_numeral d bytes_of_def)
  then obtain l where l: "listener_run demo_arrival new_listener = Some l" "bytes_of 0 (ln_trace l) = [0, 0, 0]" by blast
  have "send_all [([Sent 9, Sent 7], demo_frame 0 [])] (demo_client\<lparr>cl_open := True\<rparr>) = Some (frame_bytes (demo_frame 0 []))"
    by (simp add: client_send_def sendRaw_def sendBytesLocked_def send_loop.simps[of "_ # _"] send_loop.simps[of "[]"] demo_send)
  then show ?thesis
    using phone_frames_reach_handler[of "[([Sent 9, Sent 7], demo_frame 0 [])]" _ _ demo_arrival l 0] l
    by (simp add: demo_frame_bytes)
qed

end
