(* ===== verification/Live.thy ===== *)
theory Live
  imports SessionStream AnnexB ShmRing
begin

text \<open>
  The application's consumer of video, \<open>windows/app/live_media_pipeline.cpp\<close>, and the synchronous pipeline behind it,
  \<open>windows/platform/src/video_pipeline.cpp\<close>: the bounded queue that the network thread fills, the worker that
  empties it into a decoder, and the recovery from drops and failures.  What the decoder, the transform, the
  effects and the sink answer is an argument.
\<close>

subsection \<open>One access unit through the pipeline\<close>

record texture_frame =
  tx_texture :: nat
  tx_arraySlice :: u32
  tx_width :: u32
  tx_height :: u32
  tx_ptsMicros :: u64

record platform_unit =
  pu_bytes :: bytes
  pu_codec :: annexb_codec
  pu_keyframe :: bool
  pu_ptsMicros :: u64

datatype pipeline_result = Published | InvalidAnnexB | KeyframeMissingParameterSets | DecoderNeedsMoreInput
  | DecodeFailed | TransformFailed | EffectFailed | SinkFailed

text \<open>The interfaces of the pipeline; the effects, which may be missing, change the frame they are given.\<close>

record stages =
  sg_decode :: "bytes \<Rightarrow> u64 \<Rightarrow> hresult \<times> texture_frame"
  sg_transform :: "texture_frame \<Rightarrow> hresult \<times> texture_frame"
  sg_effects :: "(texture_frame \<Rightarrow> hresult \<times> texture_frame) option"
  sg_sink :: "texture_frame \<Rightarrow> hresult"

text \<open>The outcome, whether the decoder was called, and the frame that the sink was given.\<close>

definition video_push :: "stages \<Rightarrow> platform_unit \<Rightarrow> (pipeline_result \<times> hresult) \<times> bool \<times> texture_frame option" where
  "video_push sg u =
     (let report = inspect (pu_bytes u) (pu_codec u)
      in if \<not> isAnnexB report then ((InvalidAnnexB, E_INVALIDARG), False, None)
         else if pu_keyframe u \<and> (\<not> hasKeyframeSlice report \<or> \<not> hasParameterSets report)
         then ((KeyframeMissingParameterSets, E_INVALIDARG), False, None)
         else (case sg_decode sg (pu_bytes u) (pu_ptsMicros u) of (decodeHr, decoded) \<Rightarrow>
           if decodeHr = S_FALSE then ((DecoderNeedsMoreInput, S_FALSE), True, None)
           else if FAILED decodeHr then ((DecodeFailed, decodeHr), True, None)
           else (let decoded = decoded\<lparr>tx_ptsMicros := pu_ptsMicros u\<rparr>
                 in case sg_transform sg decoded of (transformHr, transformed) \<Rightarrow>
                   if FAILED transformHr then ((TransformFailed, transformHr), True, None)
                   else (let transformed = transformed\<lparr>tx_ptsMicros := tx_ptsMicros decoded\<rparr>;
                             (effectHr, shown) = (case sg_effects sg of None \<Rightarrow> (S_OK, transformed) | Some effects \<Rightarrow> effects transformed)
                         in if FAILED effectHr then ((EffectFailed, effectHr), True, None)
                            else (let sinkHr = sg_sink sg shown
                                  in if FAILED sinkHr then ((SinkFailed, sinkHr), True, Some shown)
                                     else ((Published, S_OK), True, Some shown))))))"

text \<open>The way a frame takes to the sink: decoded and transformed, each with the time of the unit, and through the effects.\<close>

definition reaches_sink :: "stages \<Rightarrow> platform_unit \<Rightarrow> texture_frame \<Rightarrow> bool" where
  "reaches_sink sg u shown \<longleftrightarrow>
     (\<exists>decodeHr decoded transformHr transformed.
        sg_decode sg (pu_bytes u) (pu_ptsMicros u) = (decodeHr, decoded) \<and> decodeHr \<noteq> S_FALSE \<and> \<not> FAILED decodeHr \<and>
        sg_transform sg (decoded\<lparr>tx_ptsMicros := pu_ptsMicros u\<rparr>) = (transformHr, transformed) \<and> \<not> FAILED transformHr \<and>
        (case sg_effects sg of
           None \<Rightarrow> shown = transformed\<lparr>tx_ptsMicros := pu_ptsMicros u\<rparr>
         | Some effects \<Rightarrow> \<exists>effectHr. effects (transformed\<lparr>tx_ptsMicros := pu_ptsMicros u\<rparr>) = (effectHr, shown) \<and> \<not> FAILED effectHr))"

text \<open>
  Property C27: a unit through the pipeline.  The decoder is called for Annex-B data, when a unit that says it is a
  keyframe has a keyframe slice and parameter sets, and for nothing else.  The sink is called exactly with the frame that the
  decoder, the transform and, if there are any, the effects made of the unit without a failure, the time of the wire
  header restored after the decoder and after the transform, whatever they say; the effects come last and may change it.  The
  outcome is \<open>Published\<close> exactly when the sink was called and did not fail; a sink that drops the frame and answers \<open>S_FALSE\<close>, as the
  camera's does when its slots are full, has not failed.  \<open>SinkFailed\<close> is a sink that failed, with its error.  The detail is
  \<open>S_OK\<close> for \<open>Published\<close>, \<open>S_FALSE\<close> for a decoder that needs more input, and a failure for everything else.
\<close>

theorem pipeline_push_stages:
  assumes "video_push sg u = ((result, hr), decoded, shown)"
  shows "(decoded \<longleftrightarrow> isAnnexB (inspect (pu_bytes u) (pu_codec u)) \<and>
       (\<not> pu_keyframe u \<or> hasKeyframeSlice (inspect (pu_bytes u) (pu_codec u)) \<and> hasParameterSets (inspect (pu_bytes u) (pu_codec u)))) \<and>
     (\<forall>t. shown = Some t \<longleftrightarrow> decoded \<and> reaches_sink sg u t) \<and>
     (result = Published \<longleftrightarrow> (\<exists>t. shown = Some t \<and> \<not> FAILED (sg_sink sg t))) \<and>
     (result = SinkFailed \<longleftrightarrow> (\<exists>t. shown = Some t \<and> FAILED (sg_sink sg t) \<and> hr = sg_sink sg t)) \<and>
     (if result = Published then hr = S_OK else if result = DecoderNeedsMoreInput then hr = S_FALSE else FAILED hr)"
proof -
  let ?report = "inspect (pu_bytes u) (pu_codec u)"
  let ?bad = "\<not> isAnnexB ?report \<or> pu_keyframe u \<and> (\<not> hasKeyframeSlice ?report \<or> \<not> hasParameterSets ?report)"
  show ?thesis
  proof (cases ?bad)
    case True
    then show ?thesis using assms by (auto simp: video_push_def Let_def split: if_splits)
  next
    case False
    obtain decodeHr d where d: "sg_decode sg (pu_bytes u) (pu_ptsMicros u) = (decodeHr, d)" by fastforce
    obtain transformHr t where t: "sg_transform sg (d\<lparr>tx_ptsMicros := pu_ptsMicros u\<rparr>) = (transformHr, t)" by fastforce
    show ?thesis
      using False assms d t
      by (auto simp: video_push_def reaches_sink_def Let_def split: prod.splits if_splits option.splits)
  qed
qed

subsection \<open>The queue and the worker\<close>

definition kMaxQueuedUnits :: nat where "kMaxQueuedUnits = 8"
definition kMaxQueuedBytes :: nat where "kMaxQueuedBytes = 20 * 1024 * 1024"

fun platformCodec :: "codec \<Rightarrow> annexb_codec" where
  "platformCodec Hevc = AnnexbHevc"
| "platformCodec H264 = AnnexbH264"

text \<open>
  Where the worker is: in the wait, with a unit that it has taken, before it clears the queue after a decoder
  could not be made or a push failed, and before it reports the failure.
\<close>

datatype live_worker = LiveWaiting | LiveHolding nat encoded_access_unit | LiveClear | LiveRecover hresult | LiveReport hresult
  | LiveEnded

text \<open>What the decoders were given, and the failures and requests for keyframes.\<close>

datatype live_event = DecoderMade annexb_codec | DecoderGone | Fed nat encoded_access_unit | Flushed
  | PostedFailure hresult | RequestedKeyframe

text \<open>Units are numbered by the calls of \<open>consume\<close>; the number and the trace are not part of the object.\<close>

record live =
  lv_queue :: "(nat \<times> encoded_access_unit) list"
  lv_queueBytes :: nat
  lv_waitingForKeyframe :: bool
  lv_pendingReset :: "(stream_config \<times> u64) option"
  lv_requester :: bool
  lv_frameRate :: u32
  lv_codec :: "annexb_codec option"
  lv_pipeline :: bool
  lv_worker :: "live_worker option"
  lv_stopping :: bool
  lv_consumed :: nat
  lv_trace :: "live_event list"

definition new_live :: live where
  "new_live = \<lparr>lv_queue = [], lv_queueBytes = 0, lv_waitingForKeyframe = True, lv_pendingReset = None, lv_requester = False,
     lv_frameRate = 30, lv_codec = None, lv_pipeline = False, lv_worker = None, lv_stopping = False, lv_consumed = 0, lv_trace = []\<rparr>"

definition requestRecoveryKeyframe :: "live \<Rightarrow> live" where
  "requestRecoveryKeyframe v = (if lv_requester v then v\<lparr>lv_trace := lv_trace v @ [RequestedKeyframe]\<rparr> else v)"

text \<open>The request of a keyframe takes the lock again; it changes nothing that the lock guards.\<close>

definition live_consume :: "encoded_access_unit \<Rightarrow> live \<Rightarrow> live" where
  "live_consume u v =
     (let i = lv_consumed v; v = v\<lparr>lv_consumed := Suc i\<rparr>
      in if lv_waitingForKeyframe v \<and> \<not> eu_keyframe u then v
         else if length (lv_queue v) \<ge> kMaxQueuedUnits \<or> lv_queueBytes v + length (eu_bytes u) > kMaxQueuedBytes
         then requestRecoveryKeyframe (v\<lparr>lv_queue := [], lv_queueBytes := 0, lv_waitingForKeyframe := True\<rparr>)
         else v\<lparr>lv_waitingForKeyframe := (if eu_keyframe u then False else lv_waitingForKeyframe v),
                lv_queue := lv_queue v @ [(i, u)], lv_queueBytes := lv_queueBytes v + length (eu_bytes u)\<rparr>)"

definition live_reset :: "stream_config \<Rightarrow> u64 \<Rightarrow> live \<Rightarrow> live" where
  "live_reset config generation v =
     v\<lparr>lv_frameRate := (if sc_fps config \<noteq> 0 then sc_fps config else lv_frameRate v), lv_queue := [], lv_queueBytes := 0,
       lv_waitingForKeyframe := True, lv_pendingReset := Some (config, generation)\<rparr>"

text \<open>\<open>created\<close> is what the factory of decoders returns.\<close>

definition selectCodec :: "hresult \<Rightarrow> annexb_codec \<Rightarrow> live \<Rightarrow> hresult \<times> live" where
  "selectCodec created codec v =
     (if lv_codec v = Some codec \<and> lv_pipeline v then (S_OK, v)
      else (let v = v\<lparr>lv_pipeline := False, lv_trace := lv_trace v @ [DecoderGone]\<rparr>
            in if FAILED created then (created, v)
               else (S_OK, v\<lparr>lv_pipeline := True, lv_codec := Some codec, lv_trace := lv_trace v @ [DecoderMade codec]\<rparr>)))"

definition platform_unit_of :: "encoded_access_unit \<Rightarrow> platform_unit" where
  "platform_unit_of u = \<lparr>pu_bytes = eu_bytes u, pu_codec = platformCodec (eu_codec u), pu_keyframe = eu_keyframe u, pu_ptsMicros = eu_pts u\<rparr>"

definition live_clear :: "live \<Rightarrow> live" where
  "live_clear v = v\<lparr>lv_queue := [], lv_queueBytes := 0, lv_waitingForKeyframe := True\<rparr>"

text \<open>The steps of \<open>run\<close>, each up to the next lock.  A wait that goes on is a step that changes nothing.\<close>

definition live_step :: "hresult \<Rightarrow> stages \<Rightarrow> live_worker \<Rightarrow> live \<Rightarrow> live" where
  "live_step created sg pc v =
     (let go = (\<lambda>pc v. v\<lparr>lv_worker := Some pc\<rparr>)
      in case pc of
           LiveWaiting \<Rightarrow>
             (if lv_stopping v then go LiveEnded v
              else case lv_pendingReset v of
                     Some _ \<Rightarrow> v\<lparr>lv_pendingReset := None, lv_pipeline := False, lv_codec := None, lv_trace := lv_trace v @ [DecoderGone]\<rparr>
                   | None \<Rightarrow>
                       (case lv_queue v of
                          [] \<Rightarrow> v
                        | (i, u) # rest \<Rightarrow>
                            go (LiveHolding i u) (v\<lparr>lv_queue := rest, lv_queueBytes := lv_queueBytes v - length (eu_bytes u)\<rparr>)))
         | LiveHolding i u \<Rightarrow>
             (case selectCodec created (platformCodec (eu_codec u)) v of (decoderHr, v) \<Rightarrow>
                if FAILED decoderHr then go LiveClear (v\<lparr>lv_trace := lv_trace v @ [PostedFailure decoderHr]\<rparr>)
                else (case video_push sg (platform_unit_of u) of ((result, detail), decoded, shown) \<Rightarrow>
                  let v = (if decoded then v\<lparr>lv_trace := lv_trace v @ [Fed i u]\<rparr> else v)
                  in if result = Published \<or> result = DecoderNeedsMoreInput then go LiveWaiting v
                     else go (LiveRecover detail) (v\<lparr>lv_trace := lv_trace v @ [Flushed]\<rparr>)))
         | LiveClear \<Rightarrow> go LiveWaiting (live_clear v)
         | LiveRecover detail \<Rightarrow> go (LiveReport detail) (live_clear v)
         | LiveReport detail \<Rightarrow> go LiveWaiting (requestRecoveryKeyframe (v\<lparr>lv_trace := lv_trace v @ [PostedFailure detail]\<rparr>))
         | LiveEnded \<Rightarrow> v)"

definition live_start :: "live \<Rightarrow> live" where
  "live_start v = (if lv_worker v \<noteq> None then v else v\<lparr>lv_worker := Some LiveWaiting, lv_stopping := False\<rparr>)"

text \<open>\<open>stop\<close> up to the join, and after it.\<close>

definition live_stop_begin :: "live \<Rightarrow> live" where
  "live_stop_begin v = (if lv_worker v \<noteq> None then v\<lparr>lv_stopping := True\<rparr> else v)"

definition live_stop_end :: "live \<Rightarrow> live" where
  "live_stop_end v =
     (if lv_worker v \<noteq> None \<and> lv_worker v \<noteq> Some LiveEnded then v
      else v\<lparr>lv_worker := None, lv_pipeline := False, lv_codec := None, lv_trace := lv_trace v @ [DecoderGone]\<rparr>)"

datatype live_action = Consume encoded_access_unit | ResetLive stream_config u64 | WorkerStep hresult stages | StartLive
  | SetRequester bool | StopBegin | StopEnd

fun live_act :: "live \<Rightarrow> live_action \<Rightarrow> live" where
  "live_act v (Consume u) = live_consume u v"
| "live_act v (ResetLive config generation) = live_reset config generation v"
| "live_act v (WorkerStep created sg) = (case lv_worker v of None \<Rightarrow> v | Some pc \<Rightarrow> live_step created sg pc v)"
| "live_act v StartLive = live_start v"
| "live_act v (SetRequester requester) = v\<lparr>lv_requester := requester\<rparr>"
| "live_act v StopBegin = live_stop_begin v"
| "live_act v StopEnd = live_stop_end v"

fun live_run :: "live_action list \<Rightarrow> live \<Rightarrow> live" where
  "live_run [] v = v"
| "live_run (a # as) v = live_run as (live_act v a)"

subsection \<open>What the decoders are given\<close>

text \<open>
  The last unit that the decoder in use was given with nothing after it that ends its state; and whether every
  unit in a trace is a keyframe or follows its predecessor in the same decoder.
\<close>

fun last_fed :: "(nat \<times> codec) option \<Rightarrow> live_event list \<Rightarrow> (nat \<times> codec) option" where
  "last_fed prev [] = prev"
| "last_fed prev (Fed i u # es) = last_fed (Some (i, eu_codec u)) es"
| "last_fed prev (DecoderMade codec # es) = last_fed None es"
| "last_fed prev (DecoderGone # es) = last_fed None es"
| "last_fed prev (Flushed # es) = last_fed None es"
| "last_fed prev (_ # es) = last_fed prev es"

fun follows :: "nat \<Rightarrow> encoded_access_unit \<Rightarrow> (nat \<times> codec) option \<Rightarrow> bool" where
  "follows i u prev = (eu_keyframe u \<or> (case prev of None \<Rightarrow> False | Some (j, codec) \<Rightarrow> i = Suc j \<and> eu_codec u = codec))"

fun fed_in_order :: "(nat \<times> codec) option \<Rightarrow> live_event list \<Rightarrow> bool" where
  "fed_in_order prev [] = True"
| "fed_in_order prev (Fed i u # es) = (follows i u prev \<and> fed_in_order (Some (i, eu_codec u)) es)"
| "fed_in_order prev (e # es) = fed_in_order (last_fed prev [e]) es"

lemma last_fed_append [simp]: "last_fed prev (es @ es') = last_fed (last_fed prev es) es'"
  by (induction prev es rule: last_fed.induct) simp_all

lemma fed_in_order_append [simp]:
  "fed_in_order prev (es @ es') = (fed_in_order prev es \<and> fed_in_order (last_fed prev es) es')"
  by (induction prev es rule: fed_in_order.induct) simp_all

text \<open>The units that wait, each a keyframe or after its predecessor, and the last of them.\<close>

fun chained :: "(nat \<times> codec) option \<Rightarrow> (nat \<times> encoded_access_unit) list \<Rightarrow> bool" where
  "chained prev [] = True"
| "chained prev ((i, u) # q) = (follows i u prev \<and> chained (Some (i, eu_codec u)) q)"

fun chain_end :: "(nat \<times> codec) option \<Rightarrow> (nat \<times> encoded_access_unit) list \<Rightarrow> (nat \<times> codec) option" where
  "chain_end prev [] = prev"
| "chain_end prev ((i, u) # q) = chain_end (Some (i, eu_codec u)) q"

lemma chained_append [simp]: "chained prev (q @ q') = (chained prev q \<and> chained (chain_end prev q) q')"
  by (induction prev q rule: chained.induct) simp_all

lemma chain_end_append [simp]: "chain_end prev (q @ q') = chain_end (chain_end prev q) q'"
  by (induction prev q rule: chained.induct) simp_all

fun held :: "live_worker option \<Rightarrow> (nat \<times> encoded_access_unit) list" where
  "held (Some (LiveHolding i u)) = [(i, u)]"
| "held _ = []"

fun clearing :: "live_worker option \<Rightarrow> bool" where
  "clearing (Some LiveClear) = True"
| "clearing (Some (LiveRecover detail)) = True"
| "clearing _ = False"

definition queue_ok :: "live \<Rightarrow> bool" where
  "queue_ok v \<longleftrightarrow> length (lv_queue v) \<le> kMaxQueuedUnits \<and> lv_queueBytes v \<le> kMaxQueuedBytes \<and>
     lv_queueBytes v = sum_list (map (\<lambda>(i, u). length (eu_bytes u)) (lv_queue v))"

text \<open>\<open>seen\<close> is the codec of the unit that was consumed last.\<close>

definition live_ok :: "codec option \<Rightarrow> live \<Rightarrow> bool" where
  "live_ok seen v \<longleftrightarrow>
     fed_in_order None (lv_trace v) \<and>
     (\<forall>i codec. last_fed None (lv_trace v) = Some (i, codec) \<longrightarrow> lv_pipeline v \<and> lv_codec v = Some (platformCodec codec)) \<and>
     (lv_pendingReset v = None \<and> \<not> clearing (lv_worker v) \<longrightarrow>
        chained (last_fed None (lv_trace v)) (held (lv_worker v) @ lv_queue v) \<and>
        (\<not> lv_waitingForKeyframe v \<longrightarrow> (\<exists>i codec. lv_consumed v = Suc i \<and> seen = Some codec \<and>
           chain_end (last_fed None (lv_trace v)) (held (lv_worker v) @ lv_queue v) = Some (i, codec)))) \<and>
     (lv_pendingReset v \<noteq> None \<and> \<not> clearing (lv_worker v) \<longrightarrow>
        chained (last_fed None (lv_trace v)) (held (lv_worker v)) \<and> chained None (lv_queue v) \<and>
        (\<not> lv_waitingForKeyframe v \<longrightarrow> (\<exists>i codec. lv_consumed v = Suc i \<and> seen = Some codec \<and> chain_end None (lv_queue v) = Some (i, codec))))"

lemma new_live_ok: "live_ok None new_live" "queue_ok new_live"
  by (simp_all add: live_ok_def queue_ok_def new_live_def)

lemma request_ok [simp]:
  "live_ok seen (requestRecoveryKeyframe v) = live_ok seen v" "queue_ok (requestRecoveryKeyframe v) = queue_ok v"
  by (simp_all add: requestRecoveryKeyframe_def live_ok_def queue_ok_def)

lemma request_worker: "(requestRecoveryKeyframe v)\<lparr>lv_worker := w\<rparr> = requestRecoveryKeyframe (v\<lparr>lv_worker := w\<rparr>)"
  by (simp add: requestRecoveryKeyframe_def)

text \<open>A delta is consumed in the codec of the unit before it.\<close>

lemma consume_ok:
  assumes ok: "live_ok seen v" and steady: "eu_keyframe u \<or> seen = None \<or> seen = Some (eu_codec u)"
  shows "live_ok (Some (eu_codec u)) (live_consume u v)"
proof -
  consider (Skip) "lv_waitingForKeyframe v" "\<not> eu_keyframe u"
    | (Full) "\<not> (lv_waitingForKeyframe v \<and> \<not> eu_keyframe u)"
        "length (lv_queue v) \<ge> kMaxQueuedUnits \<or> lv_queueBytes v + length (eu_bytes u) > kMaxQueuedBytes"
    | (Queue) "\<not> (lv_waitingForKeyframe v \<and> \<not> eu_keyframe u)"
        "\<not> (length (lv_queue v) \<ge> kMaxQueuedUnits \<or> lv_queueBytes v + length (eu_bytes u) > kMaxQueuedBytes)"
    by blast
  then show ?thesis
  proof cases
    case Skip
    then show ?thesis using ok by (simp add: live_consume_def Let_def live_ok_def)
  next
    case Full
    let ?v = "v\<lparr>lv_consumed := Suc (lv_consumed v), lv_queue := [], lv_queueBytes := 0, lv_waitingForKeyframe := True\<rparr>"
    have "live_consume u v = requestRecoveryKeyframe ?v" using Full by (auto simp: live_consume_def Let_def)
    moreover have "live_ok (Some (eu_codec u)) ?v" using ok by (auto simp: live_ok_def)
    ultimately show ?thesis by simp
  next
    case Queue
    then show ?thesis using ok steady by (cases "eu_keyframe u") (auto simp: live_consume_def Let_def live_ok_def)
  qed
qed

lemma consume_queue: "queue_ok v \<Longrightarrow> queue_ok (live_consume u v)"
proof (cases "length (lv_queue v) \<ge> kMaxQueuedUnits \<or> lv_queueBytes v + length (eu_bytes u) > kMaxQueuedBytes")
  case True
  then show "queue_ok v \<Longrightarrow> ?thesis" by (simp add: live_consume_def Let_def) (simp add: queue_ok_def)
next
  case False
  then show "queue_ok v \<Longrightarrow> ?thesis" by (auto simp: live_consume_def Let_def queue_ok_def)
qed

lemma reset_ok: "live_ok seen v \<Longrightarrow> live_ok seen (live_reset config generation v)"
  by (auto simp: live_reset_def live_ok_def)

lemma clear_queue: "queue_ok (live_clear v)" "queue_ok (live_reset config generation v)"
  by (simp_all add: live_clear_def live_reset_def queue_ok_def)

lemma select_same:
  "last_fed None (lv_trace v) = Some (i, codec) \<Longrightarrow> live_ok seen v \<Longrightarrow> selectCodec created (platformCodec codec) v = (S_OK, v)"
  by (simp add: live_ok_def selectCodec_def)

lemma select_ok:
  assumes "selectCodec created codec v = (hr, v')" and "live_ok seen v"
  shows "fed_in_order None (lv_trace v') \<and> lv_queue v' = lv_queue v \<and> lv_waitingForKeyframe v' = lv_waitingForKeyframe v \<and>
     lv_pendingReset v' = lv_pendingReset v \<and> lv_consumed v' = lv_consumed v \<and> lv_queueBytes v' = lv_queueBytes v \<and>
     (v' = v \<or> last_fed None (lv_trace v') = None) \<and> (\<not> FAILED hr \<longrightarrow> lv_pipeline v' \<and> lv_codec v' = Some codec)"
proof (cases "lv_codec v = Some codec \<and> lv_pipeline v")
  case True
  then show ?thesis using assms by (simp add: selectCodec_def live_ok_def)
next
  case False
  have fed: "fed_in_order None (lv_trace v)" using assms(2) by (simp add: live_ok_def)
  show ?thesis using assms(1) False fed by (cases "FAILED created") (auto simp: selectCodec_def Let_def)
qed

lemma platformCodec_inject: "platformCodec a = platformCodec b \<longleftrightarrow> a = b"
  by (cases a; cases b) simp_all

text \<open>A unit that the worker has taken is given to a decoder it can be decoded in, or to none.\<close>

lemma holding_follows:
  assumes ok: "live_ok seen v" and holding: "lv_worker v = Some (LiveHolding i u)"
    and select: "selectCodec created (platformCodec (eu_codec u)) v = (hr, v')" and made: "\<not> FAILED hr"
  shows "follows i u (last_fed None (lv_trace v'))"
proof -
  have "follows i u (last_fed None (lv_trace v))"
    using ok holding by (cases "lv_pendingReset v = None") (auto simp: live_ok_def)
  moreover have "v' = v" if delta: "\<not> eu_keyframe u"
  proof -
    obtain j where "last_fed None (lv_trace v) = Some (j, eu_codec u)"
      using calculation delta by (cases "last_fed None (lv_trace v)") auto
    then show ?thesis using select_same[OF _ ok] select by auto
  qed
  ultimately show ?thesis by (cases "eu_keyframe u") auto
qed

lemma holding_step_ok:
  assumes ok: "live_ok seen v" and worker: "lv_worker v = Some (LiveHolding i u)"
  shows "live_ok seen (live_step created sg (LiveHolding i u) v)"
proof -
  obtain hr v1 where s: "selectCodec created (platformCodec (eu_codec u)) v = (hr, v1)" by fastforce
  note same = select_ok[OF s ok]
  obtain result detail decoded shown where p: "video_push sg (platform_unit_of u) = ((result, detail), decoded, shown)"
    by (metis prod.exhaust)
  show ?thesis
  proof (cases "FAILED hr")
    case True
    have "live_step created sg (LiveHolding i u) v = v1\<lparr>lv_trace := lv_trace v1 @ [PostedFailure hr], lv_worker := Some LiveClear\<rparr>"
      using s True by (simp add: live_step_def)
    moreover have "lv_pipeline v1 \<and> lv_codec v1 = Some (platformCodec codec)" if "last_fed None (lv_trace v1) = Some (j, codec)" for j codec
      using same that ok by (auto simp: live_ok_def)
    ultimately show ?thesis using same by (auto simp: live_ok_def)
  next
    case False
    note fed = holding_follows[OF ok worker s False]
    let ?fed = "if decoded then v1\<lparr>lv_trace := lv_trace v1 @ [Fed i u]\<rparr> else v1"
    show ?thesis
    proof (cases "result = Published \<or> result = DecoderNeedsMoreInput")
      case True
      then have decoded using p by (auto simp: video_push_def Let_def split: if_splits prod.splits)
      then have "live_step created sg (LiveHolding i u) v = v1\<lparr>lv_trace := lv_trace v1 @ [Fed i u], lv_worker := Some LiveWaiting\<rparr>"
        using s False p True by (auto simp: live_step_def)
      then show ?thesis using same fed ok worker False
        by (cases "lv_pendingReset v") (simp_all add: live_ok_def del: follows.simps)
    next
      case False2: False
      then have "live_step created sg (LiveHolding i u) v =
          ?fed\<lparr>lv_trace := lv_trace ?fed @ [Flushed], lv_worker := Some (LiveRecover detail)\<rparr>"
        using s False p by (simp add: live_step_def)
      then show ?thesis using same fed by (cases decoded) (simp_all add: live_ok_def del: follows.simps)
    qed
  qed
qed

lemma waiting_step_ok:
  assumes ok: "live_ok seen v" and worker: "lv_worker v = Some LiveWaiting"
  shows "live_ok seen (live_step created sg LiveWaiting v)"
proof (cases "lv_stopping v")
  case True
  then show ?thesis using ok worker by (simp add: live_step_def live_ok_def)
next
  case False
  show ?thesis
  proof (cases "lv_pendingReset v")
    case None
    then show ?thesis using ok worker False
      by (cases "lv_queue v") (auto simp: live_step_def live_ok_def split: prod.split)
  next
    case (Some r)
    then show ?thesis using ok worker False by (simp add: live_step_def live_ok_def)
  qed
qed

lemma live_step_ok:
  assumes ok: "live_ok seen v" and worker: "lv_worker v = Some pc"
  shows "live_ok seen (live_step created sg pc v)"
proof (cases pc)
  case LiveWaiting
  then show ?thesis using waiting_step_ok[OF ok] worker by simp
next
  case (LiveHolding i u)
  then show ?thesis using holding_step_ok[OF ok] worker by simp
next
  case LiveClear
  then show ?thesis using ok by (simp add: live_step_def live_clear_def live_ok_def)
next
  case (LiveRecover detail)
  then show ?thesis using ok by (simp add: live_step_def live_clear_def live_ok_def)
next
  case (LiveReport detail)
  then have "live_ok seen (v\<lparr>lv_trace := lv_trace v @ [PostedFailure detail], lv_worker := Some LiveWaiting\<rparr>)"
    using ok worker by (simp add: live_ok_def)
  then show ?thesis using LiveReport by (simp add: live_step_def request_worker)
next
  case LiveEnded
  then show ?thesis using ok by (simp add: live_step_def)
qed

lemma step_queue:
  assumes ok: "queue_ok v"
  shows "queue_ok (live_step created sg pc v)"
proof (cases pc)
  case LiveWaiting
  then show ?thesis using ok
    by (cases "lv_queue v") (auto simp: live_step_def queue_ok_def split: option.split)
next
  case (LiveHolding i u)
  obtain hr v1 where s: "selectCodec created (platformCodec (eu_codec u)) v = (hr, v1)" by fastforce
  then have "queue_ok v1" using ok by (auto simp: selectCodec_def Let_def queue_ok_def split: if_splits)
  then show ?thesis using LiveHolding s by (simp add: live_step_def queue_ok_def Let_def split: prod.split)
next
  case (LiveReport detail)
  have "queue_ok (v\<lparr>lv_trace := lv_trace v @ [PostedFailure detail], lv_worker := Some LiveWaiting\<rparr>)"
    using ok by (simp add: queue_ok_def)
  then show ?thesis using LiveReport by (simp add: live_step_def request_worker)
qed (use ok in \<open>simp_all add: live_step_def live_clear_def queue_ok_def\<close>)

lemma act_queue: "queue_ok v \<Longrightarrow> queue_ok (live_act v a)"
proof (cases a)
  case (WorkerStep created sg)
  then show "queue_ok v \<Longrightarrow> ?thesis" by (simp add: step_queue split: option.split)
next
  case (Consume u)
  then show "queue_ok v \<Longrightarrow> ?thesis" by (simp add: consume_queue)
next
  case (ResetLive config generation)
  then show "queue_ok v \<Longrightarrow> ?thesis" by (simp add: clear_queue)
qed (simp_all add: live_start_def live_stop_begin_def live_stop_end_def queue_ok_def)

text \<open>
  What the session controller gives: between resets the units are in one codec, that of the unit before; and the owner
  does not join the worker.
\<close>

fun steady :: "codec option \<Rightarrow> live_action list \<Rightarrow> bool" where
  "steady seen [] = True"
| "steady seen (Consume u # as) = ((eu_keyframe u \<or> seen = None \<or> seen = Some (eu_codec u)) \<and> steady (Some (eu_codec u)) as)"
| "steady seen (StopEnd # as) = False"
| "steady seen (_ # as) = steady seen as"

lemma live_act_ok:
  assumes "steady seen (a # as)" and ok: "live_ok seen v"
  shows "\<exists>seen'. steady seen' as \<and> live_ok seen' (live_act v a)"
proof (cases a)
  case (Consume u)
  then show ?thesis using consume_ok[OF ok, of u] assms(1) by auto
next
  case (ResetLive config generation)
  then show ?thesis using assms reset_ok[OF ok] by auto
next
  case (WorkerStep created sg)
  then show ?thesis using assms live_step_ok[OF ok] by (cases "lv_worker v") auto
next
  case StartLive
  have "live_ok seen (live_start v)" using ok by (cases "lv_worker v") (simp_all add: live_start_def live_ok_def)
  then show ?thesis using StartLive assms(1) by auto
next
  case (SetRequester r)
  have "live_ok seen (v\<lparr>lv_requester := r\<rparr>)" using ok by (simp add: live_ok_def)
  then show ?thesis using SetRequester assms(1) by auto
next
  case StopBegin
  have "live_ok seen (live_stop_begin v)" using ok by (cases "lv_worker v") (simp_all add: live_stop_begin_def live_ok_def)
  then show ?thesis using StopBegin assms(1) by auto
qed (use assms in simp)

lemma live_run_ok: "steady seen as \<Longrightarrow> live_ok seen v \<Longrightarrow> \<exists>seen'. live_ok seen' (live_run as v)"
  by (induction as arbitrary: seen v) (auto dest!: live_act_ok)

lemma run_queue: "queue_ok v \<Longrightarrow> queue_ok (live_run as v)"
  by (induction as arbitrary: v) (simp_all add: act_queue)

subsection \<open>Behind the session controller\<close>

text \<open>The calls that the session controller makes on its consumer, among the actions here and in its trace.\<close>

fun session_call :: "live_action \<Rightarrow> bool" where
  "session_call (Consume u) = True"
| "session_call (ResetLive config generation) = True"
| "session_call _ = False"

fun consumer_call :: "effect \<Rightarrow> live_action list" where
  "consumer_call (ConsumerReset config generation) = [ResetLive config generation]"
| "consumer_call (Consumed u consumed) = [Consume u]"
| "consumer_call _ = []"

definition consumer_calls :: "effect list \<Rightarrow> live_action list" where
  "consumer_calls es = concat (map consumer_call es)"

lemma dl_ok_before: "dl_ok (foldl deliver d es) \<Longrightarrow> dl_ok d"
proof (induction es arbitrary: d)
  case (Cons e es)
  from Cons.IH[of "deliver d e"] Cons.prems show ?case by (cases e) auto
qed simp

text \<open>What the controller delivers properly is steady: one codec between resets, and a keyframe first.\<close>

lemma delivered_steady:
  assumes "dl_ok (foldl deliver d es)"
    and "dl_fresh d \<or> dl_reset d = None \<or> (\<exists>c g. dl_reset d = Some (c, g) \<and> seen = Some (sc_codec c))"
  shows "steady seen (consumer_calls es)"
  using assms
proof (induction es arbitrary: d seen)
  case Nil
  then show ?case by (simp add: consumer_calls_def)
next
  case (Cons e es)
  have rest: "dl_ok (foldl deliver (deliver d e) es)" using Cons.prems(1) by simp
  then have ok: "dl_ok (deliver d e)" by (rule dl_ok_before)
  show ?case
  proof (cases e)
    case (Consumed u b)
    with ok obtain c g where c: "dl_reset d = Some (c, g)" "eu_codec u = sc_codec c" "dl_fresh d \<Longrightarrow> eu_keyframe u"
      by (auto split: option.splits)
    have "dl_reset (deliver d e) = Some (c, g)" using Consumed c by simp
    then have "steady (Some (eu_codec u)) (consumer_calls es)" using c(2) by (intro Cons.IH[OF rest]) blast
    then show ?thesis using Consumed c Cons.prems(2) by (auto simp: consumer_calls_def)
  next
    case (ConsumerReset c g)
    then have "dl_fresh (deliver d e)" by simp
    then have "steady seen (consumer_calls es)" by (intro Cons.IH[OF rest]) blast
    then show ?thesis using ConsumerReset by (simp add: consumer_calls_def)
  next
    case (Sent m fr b)
    then have "deliver d e = d" by simp
    then have "steady seen (consumer_calls es)" using Cons.IH[OF rest] Cons.prems(2) by metis
    then show ?thesis using Sent by (simp add: consumer_calls_def)
  next
    case (Notified k v)
    then have "deliver d e = d" by simp
    then have "steady seen (consumer_calls es)" using Cons.IH[OF rest] Cons.prems(2) by metis
    then show ?thesis using Notified by (simp add: consumer_calls_def)
  next
    case Closed
    then have "deliver d e = d" by simp
    then have "steady seen (consumer_calls es)" using Cons.IH[OF rest] Cons.prems(2) by metis
    then show ?thesis using Closed by (simp add: consumer_calls_def)
  qed
qed

lemma steady_calls: "steady seen (filter session_call as) \<Longrightarrow> StopEnd \<notin> set as \<Longrightarrow> steady seen as"
proof (induction as arbitrary: seen)
  case (Cons a as)
  then show ?case by (cases a) auto
qed simp

lemma session_steady:
  assumes "policy = None \<or> security = None" and "list_all (Not \<circ> changes_consumer) es"
    and "filter session_call as = consumer_calls (s_out (foldl session_step (new_session config policy security True) es))"
    and "StopEnd \<notin> set as"
  shows "steady None as"
proof (rule steady_calls[OF _ assms(4)])
  have "dl_ok (foldl deliver \<lparr>dl_reset = None, dl_fresh = False, dl_ok = True\<rparr>
      (s_out (foldl session_step (new_session config policy security True) es)))"
    using stream_delivery_ok[OF assms(1,2)] by (simp add: delivered_def)
  from delivered_steady[OF this, of None] show "steady None (filter session_call as)" by (simp add: assms(3))
qed

text \<open>
  Property C26: the decoder is fed in order.  Take any run of the session controller with the pipeline as the consumer it was made
  with, and any interleaving of the calls it makes on the consumer with the steps of the pipeline's worker, the
  failures of the decoder, the transform and the sink, \<open>start\<close>, and the request to stop.  Then every unit that a decoder is
  given is a keyframe or the successor of the unit it was given last, in the same codec, with no drop, no flush and no change
  of decoder between them; and the queue holds at most eight units and 20 MiB, with an exact count of its bytes.  A
  pipeline that was stopped is not started again: see \<open>restarted_pipeline_starts_at_delta\<close>.
\<close>

theorem live_feeds_decoder_in_order:
  assumes "policy = None \<or> security = None" and "list_all (Not \<circ> changes_consumer) es"
    and "filter session_call as = consumer_calls (s_out (foldl session_step (new_session config policy security True) es))"
    and "StopEnd \<notin> set as"
  shows "fed_in_order None (lv_trace (live_run as new_live)) \<and> length (lv_queue (live_run as new_live)) \<le> kMaxQueuedUnits \<and>
     lv_queueBytes (live_run as new_live) \<le> kMaxQueuedBytes \<and>
     lv_queueBytes (live_run as new_live) = sum_list (map (\<lambda>(i, u). length (eu_bytes u)) (lv_queue (live_run as new_live)))"
  using live_run_ok[OF session_steady[OF assms] new_live_ok(1)] run_queue[OF new_live_ok(2), of as]
  by (auto simp: live_ok_def queue_ok_def)

definition live_key :: encoded_access_unit where
  "live_key = \<lparr>eu_bytes = [0, 0, 0, 1, 0x67, 1, 0, 0, 0, 1, 0x68, 1, 0, 0, 0, 1, 0x65, 1], eu_codec = H264, eu_keyframe = True,
     eu_pts = 0, eu_generation = 0\<rparr>"

definition live_delta :: encoded_access_unit where
  "live_delta = \<lparr>eu_bytes = [0, 0, 0, 1, 0x41, 1], eu_codec = H264, eu_keyframe = False, eu_pts = 33000, eu_generation = 0\<rparr>"

definition live_stages :: "hresult \<Rightarrow> stages" where
  "live_stages hr = \<lparr>sg_decode = (\<lambda>data pts. (S_OK, \<lparr>tx_texture = 0, tx_arraySlice = 0, tx_width = 2, tx_height = 2, tx_ptsMicros = 7\<rparr>)),
     sg_transform = (\<lambda>t. (hr, t)), sg_effects = None, sg_sink = (\<lambda>t. S_OK)\<rparr>"

lemma live_inspected:
  "let r = inspect (eu_bytes live_key) AnnexbH264 in isAnnexB r \<and> hasKeyframeSlice r \<and> hasParameterSets r"
  "isAnnexB (inspect (eu_bytes live_delta) AnnexbH264)"
  by code_simp+

lemma live_pushed:
  "video_push (live_stages S_OK) (platform_unit_of live_key) = ((Published, S_OK), True,
     Some \<lparr>tx_texture = 0, tx_arraySlice = 0, tx_width = 2, tx_height = 2, tx_ptsMicros = 0\<rparr>)"
  "video_push (live_stages S_OK) (platform_unit_of live_delta) = ((Published, S_OK), True,
     Some \<lparr>tx_texture = 0, tx_arraySlice = 0, tx_width = 2, tx_height = 2, tx_ptsMicros = 33000\<rparr>)"
  "video_push (live_stages E_FAIL) (platform_unit_of live_delta) = ((TransformFailed, E_FAIL), True, None)"
  using live_inspected
  by (simp_all add: video_push_def platform_unit_of_def live_stages_def Let_def live_key_def live_delta_def)

theorem pipeline_push_stages_witness:
  "reaches_sink (live_stages S_OK) (platform_unit_of live_delta)
     \<lparr>tx_texture = 0, tx_arraySlice = 0, tx_width = 2, tx_height = 2, tx_ptsMicros = 33000\<rparr>"
  using pipeline_push_stages[OF live_pushed(2)] by blast

text \<open>
  A session that sends a keyframe and a delta to the pipeline; the delta fails in the transform, and the pipeline asks for
  another keyframe.
\<close>

definition live_session :: "session_op list" where
  "live_session =
     [OpConnected (demo_env 0 True) ''10.0.0.2:5000'',
      OpFrame (demo_env 1 True) ''10.0.0.2:5000'' (control_frame (hello_message demo_hello)),
      OpFrame (demo_env 2 True) ''10.0.0.2:5000'' (control_frame streamStart),
      OpFrame (demo_env 3 True) ''10.0.0.2:5000'' demo_keyframe,
      OpFrame (demo_env 4 True) ''10.0.0.2:5000'' demo_delta]"

definition live_demo :: "live_action list" where
  "live_demo = [SetRequester True, StartLive, ResetLive conservativeDefault 0, Consume live_key,
     WorkerStep S_OK (live_stages S_OK), WorkerStep S_OK (live_stages S_OK), Consume live_delta, WorkerStep S_OK (live_stages S_OK),
     WorkerStep S_OK (live_stages S_OK), WorkerStep S_OK (live_stages E_FAIL), WorkerStep S_OK (live_stages S_OK),
     WorkerStep S_OK (live_stages S_OK)]"

lemma live_session_run:
  "foldl session_step (new_session default_session_config (Some demo_policy) None True) live_session =
     session_step demo_playing (OpFrame (demo_env 4 True) ''10.0.0.2:5000'' demo_delta)"
  by (simp add: live_session_def demo_playing_def demo_streaming_def start_demo_def demo_ready_def greet_demo_def
      demo_connected_def connect_demo_def demo_new_def session_with_policy_def)

lemma live_session_calls:
  "consumer_calls (s_out demo_streaming) = [ResetLive conservativeDefault 0]"
  "s_out (session_step demo_playing (OpFrame (demo_env 4 True) ''10.0.0.2:5000'' demo_delta)) =
     s_out demo_streaming @ [Consumed (demo_unit demo_keyframe) True, Consumed (demo_unit demo_delta) True]"
proof -
  have 1: "consumer_calls (s_out demo_connected) = []"
    by (simp add: demo_connected_def connect_demo_def demo_new_def session_with_policy_def new_session_def onConnected_def
        default_config_ok default_config_limits Let_def demo_simps consumer_calls_def)
  have 2: "consumer_calls (s_out demo_ready) = []"
    using 1 by (simp add: demo_ready_def greet_demo_def onFrame_def dispatch_frame_def handleControl_def demo_hello_decodes
      handleHello_def hello_trust_def demo_hello_values demo_connected_state Let_def demo_simps consumer_calls_def)
  show "consumer_calls (s_out demo_streaming) = [ResetLive conservativeDefault 0]"
    using 2 by (simp add: demo_streaming_def start_demo_def onFrame_def dispatch_frame_def handleControl_def stream_start_decodes
      handleReport_def handleStreamStart_def isPcToPhoneMessage_def demo_ready_state Let_def
      demo_simps stream_start_values consumer_calls_def)
  show "s_out (session_step demo_playing (OpFrame (demo_env 4 True) ''10.0.0.2:5000'' demo_delta)) =
     s_out demo_streaming @ [Consumed (demo_unit demo_keyframe) True, Consumed (demo_unit demo_delta) True]"
    using demo_inspect(2)
    by (simp add: onFrame_def dispatch_frame_def handleVideo_def annexb_of_def
      demo_playing_state conservative_codec default_config_limits demo_drain_one demo_unit_def Let_def demo_simps(2-7) demo_env_now)
qed

lemma live_units:
  "demo_unit demo_keyframe = live_key" "demo_unit demo_delta = live_delta"
  by (simp_all add: demo_unit_def live_key_def live_delta_def) (simp_all add: demo_keyframe_def demo_delta_def)

lemma live_demo_calls:
  "filter session_call live_demo =
     consumer_calls (s_out (foldl session_step (new_session default_session_config (Some demo_policy) None True) live_session))"
  unfolding live_session_run live_session_calls(2) live_units
  using live_session_calls(1) by (simp add: consumer_calls_def live_demo_def)

lemma live_demo_trace:
  "lv_trace (live_run live_demo new_live) = [DecoderGone, DecoderGone, DecoderMade AnnexbH264, Fed 0 live_key, Fed 1 live_delta,
     Flushed, PostedFailure E_FAIL, RequestedKeyframe]"
proof -
  have units: "eu_codec live_key = H264" "eu_codec live_delta = H264" "eu_keyframe live_key" "\<not> eu_keyframe live_delta"
      "length (eu_bytes live_key) = 18" "length (eu_bytes live_delta) = 6"
    by (simp_all add: live_key_def live_delta_def)
  show ?thesis
    by (simp add: live_demo_def new_live_def live_start_def live_consume_def live_step_def selectCodec_def live_clear_def
      live_reset_def requestRecoveryKeyframe_def units live_pushed kMaxQueuedUnits_def kMaxQueuedBytes_def Let_def)
qed

theorem live_feeds_decoder_in_order_witness:
  "fed_in_order None [DecoderGone, DecoderGone, DecoderMade AnnexbH264, Fed 0 live_key, Fed 1 live_delta,
     Flushed, PostedFailure E_FAIL, RequestedKeyframe]"
proof -
  have "list_all (Not \<circ> changes_consumer) live_session" by (simp add: live_session_def)
  moreover have "StopEnd \<notin> set live_demo" by (simp add: live_demo_def)
  ultimately show ?thesis
    using live_feeds_decoder_in_order[OF _ _ live_demo_calls] by (simp add: live_demo_trace)
qed

text \<open>
  \<open>stop\<close> leaves the queue and the flag as they are: if the pipeline is started again, the new decoder is given
  a delta first.
\<close>

theorem restarted_pipeline_starts_at_delta:
  "\<not> fed_in_order None (lv_trace (live_run
     [StartLive, Consume live_key, Consume live_delta, WorkerStep S_OK (live_stages S_OK), WorkerStep S_OK (live_stages S_OK),
      StopBegin, WorkerStep S_OK (live_stages S_OK), StopEnd, StartLive,
      WorkerStep S_OK (live_stages S_OK), WorkerStep S_OK (live_stages S_OK)] new_live))"
proof -
  have units: "eu_codec live_key = H264" "eu_codec live_delta = H264" "eu_keyframe live_key" "\<not> eu_keyframe live_delta"
      "length (eu_bytes live_key) = 18" "length (eu_bytes live_delta) = 6"
    by (simp_all add: live_key_def live_delta_def)
  show ?thesis
    by (simp add: new_live_def live_start_def live_consume_def live_step_def selectCodec_def live_stop_begin_def live_stop_end_def
      units live_pushed kMaxQueuedUnits_def kMaxQueuedBytes_def Let_def)
qed

end
