(* ===== verification/Recording.thy ===== *)
theory Recording
  imports Recorder
begin

text \<open>
  The recording side of the application, the user-interface thread of \<open>windows/app/live_media_pipeline.cpp\<close>: starting and stopping
  the recorder of theory \<open>Recorder\<close>, showing its snapshots, and the stop that a frame of another size causes.  The recorder's
  answers, the clock, the folder and the date are arguments.
\<close>

subsection \<open>The state that is shown\<close>

datatype recording_status = ReadyToRecord | StartingRecorder | RecordingSoftware | RecordingH264 | FinalizingMp4 | RecordingSaved
  | SavedPartial | RecordingFailedWith hresult | NoFrameYet | NoFolder | StartFailed hresult | NoRecorder | SavedEarlySize | SavedEarlyError

record recording_view =
  rv_state :: recorder_state
  rv_status :: recording_status
  rv_path :: string
  rv_droppedFrames :: u64
  rv_durationSeconds :: int
  rv_elapsedSince :: "int option"
  rv_timer :: bool
  rv_geometry :: u64
  rv_frameRate :: u32
  rv_frameErrorQueued :: bool

definition new_recording_view :: "bool \<Rightarrow> recording_view" where
  "new_recording_view recorder =
     \<lparr>rv_state = (if recorder then RecIdle else RecFailed), rv_status = (if recorder then ReadyToRecord else NoRecorder), rv_path = [],
      rv_droppedFrames = 0, rv_durationSeconds = 0, rv_elapsedSince = None, rv_timer = False, rv_geometry = 0, rv_frameRate = 30,
      rv_frameErrorQueued = False\<rparr>"

definition recording :: "recording_view \<Rightarrow> bool" where
  "recording v \<longleftrightarrow> rv_state v = RecStarting \<or> rv_state v = RecRecording"

definition recordingCanToggle :: "bool \<Rightarrow> recording_view \<Rightarrow> bool" where
  "recordingCanToggle recorder v \<longleftrightarrow> recorder \<and> rv_state v \<noteq> RecFinalizing"

text \<open>The decimal digits of a number that is not negative, and \<open>arg(n, 2, 10, '0')\<close>.\<close>

fun decimal :: "nat \<Rightarrow> string" where
  "decimal n = (if n < 10 then [char_of (48 + n)] else decimal (n div 10) @ [char_of (48 + n mod 10)])"

definition two_digits :: "nat \<Rightarrow> string" where
  "two_digits n = (if n < 10 then ''0'' @ decimal n else decimal n)"

definition recordingDuration :: "recording_view \<Rightarrow> string" where
  "recordingDuration v =
     (let hours = nat (rv_durationSeconds v div 3600); minutes = nat ((rv_durationSeconds v div 60) mod 60);
          seconds = nat (rv_durationSeconds v mod 60)
      in if hours > 0 then two_digits hours @ '':'' @ two_digits minutes @ '':'' @ two_digits seconds
         else two_digits minutes @ '':'' @ two_digits seconds)"

subsection \<open>A snapshot of the recorder\<close>

definition applyRecorderSnapshot :: "int \<Rightarrow> recorder_snapshot \<Rightarrow> recording_view \<Rightarrow> recording_view" where
  "applyRecorderSnapshot now snapshot v =
     (let previous = rv_state v;
          v = v\<lparr>rv_state := rs_state snapshot, rv_droppedFrames := rs_droppedFrames snapshot\<rparr>;
          v = (if rs_outputPath snapshot \<noteq> [] then v\<lparr>rv_path := rs_outputPath snapshot\<rparr> else v);
          v = (if rs_state snapshot = RecFailed \<and> rs_partialPath snapshot \<noteq> [] then v\<lparr>rv_path := rs_partialPath snapshot\<rparr> else v);
          v = (if rs_state snapshot = RecRecording \<and> previous \<noteq> RecRecording
               then v\<lparr>rv_durationSeconds := 0, rv_elapsedSince := Some now, rv_timer := True\<rparr>
               else if rs_state snapshot \<noteq> RecRecording \<and> previous = RecRecording
               then (case rv_elapsedSince v of
                       None \<Rightarrow> v\<lparr>rv_timer := False\<rparr>
                     | Some since \<Rightarrow> v\<lparr>rv_durationSeconds := (now - since) div 1000, rv_timer := False\<rparr>)
               else v);
          v = (if rs_state snapshot \<noteq> RecRecording \<and> rs_duration100ns snapshot \<noteq> 0
               then v\<lparr>rv_durationSeconds := int (unat (rs_duration100ns snapshot div 10000000))\<rparr> else v)
      in case rs_state snapshot of
           RecIdle \<Rightarrow> v\<lparr>rv_status := ReadyToRecord\<rparr>
         | RecStarting \<Rightarrow> v\<lparr>rv_status := StartingRecorder\<rparr>
         | RecRecording \<Rightarrow> v\<lparr>rv_status := (if rs_encoderPath snapshot = SoftwareOnly then RecordingSoftware else RecordingH264)\<rparr>
         | RecFinalizing \<Rightarrow> v\<lparr>rv_status := FinalizingMp4\<rparr>
         | RecCompleted \<Rightarrow> v\<lparr>rv_status := RecordingSaved, rv_frameErrorQueued := False\<rparr>
         | RecFailed \<Rightarrow>
             v\<lparr>rv_status := (if rs_partialPath snapshot \<noteq> [] then SavedPartial
                  else if FAILED (rs_error snapshot) then RecordingFailedWith (rs_error snapshot) else rv_status v),
               rv_frameErrorQueued := False\<rparr>)"

subsection \<open>The calls of the user\<close>

text \<open>What one call meets: the folder, if it could be made, the date, what \<open>start\<close> returns, and the snapshot after it.\<close>

record recording_env =
  ve_folder :: "string option"
  ve_date :: string
  ve_start :: "recorder_config \<Rightarrow> hresult"
  ve_snapshot :: recorder_snapshot
  ve_now :: int

definition recording_config :: "string \<Rightarrow> u64 \<Rightarrow> u32 \<Rightarrow> recorder_config" where
  "recording_config path geometry frameRate =
     (let width = ucast (drop_bit 32 geometry) :: u32; height = ucast geometry :: u32; fps = max 1 frameRate;
          estimatedBitrate = (ucast width :: u64) * ucast height * ucast fps div 8
      in default_recorder_config\<lparr>cf_outputPath := path, cf_width := width, cf_height := height, cf_fpsNumerator := fps,
           cf_fpsDenominator := 1,
           cf_bitrateBitsPerSecond := ucast (if estimatedBitrate < 4000000 then 4000000
              else if estimatedBitrate > 50000000 then 50000000 else estimatedBitrate),
           cf_queueCapacity := 4\<rparr>)"

text \<open>The second component is the configuration that the recorder was started with, if it was.\<close>

definition startRecording :: "recording_env \<Rightarrow> bool \<Rightarrow> recording_view \<Rightarrow> recording_view \<times> recorder_config option" where
  "startRecording env recorder v =
     (if \<not> recorder \<or> recording v \<or> rv_state v = RecFinalizing then (v, None)
      else if (ucast (drop_bit 32 (rv_geometry v)) :: u32) = 0 \<or> (ucast (rv_geometry v) :: u32) = 0
      then (v\<lparr>rv_state := RecFailed, rv_status := NoFrameYet\<rparr>, None)
      else case ve_folder env of
             None \<Rightarrow> (v\<lparr>rv_state := RecFailed, rv_status := NoFolder\<rparr>, None)
           | Some directory \<Rightarrow>
               (let path = directory @ ''/RemoteCam-'' @ ve_date env @ ''.mp4'';
                    config = recording_config path (rv_geometry v) (rv_frameRate v);
                    v = v\<lparr>rv_frameErrorQueued := False, rv_durationSeconds := 0, rv_path := path\<rparr>;
                    hr = ve_start env config
                in if FAILED hr then (v\<lparr>rv_state := RecFailed, rv_status := StartFailed hr\<rparr>, Some config)
                   else (applyRecorderSnapshot (ve_now env) (ve_snapshot env) v, Some config)))"

definition stopRecording :: "recording_env \<Rightarrow> bool \<Rightarrow> recording_view \<Rightarrow> recording_view" where
  "stopRecording env recorder v = (if recorder then applyRecorderSnapshot (ve_now env) (ve_snapshot env) v else v)"

definition toggleRecording :: "recording_env \<Rightarrow> bool \<Rightarrow> recording_view \<Rightarrow> recording_view \<times> recorder_config option" where
  "toggleRecording env recorder v =
     (if \<not> recordingCanToggle recorder v then (v, None)
      else if recording v then (stopRecording env recorder v, None) else startRecording env recorder v)"

definition stopRecordingForFrameError :: "recording_env \<Rightarrow> bool \<Rightarrow> hresult \<Rightarrow> recording_view \<Rightarrow> recording_view" where
  "stopRecordingForFrameError env recorder err v =
     (if \<not> recording v then v\<lparr>rv_frameErrorQueued := False\<rparr>
      else (let v = stopRecording env recorder v;
                v = (if rv_state v = RecCompleted
                     then v\<lparr>rv_status := (if err = E_INVALIDARG then SavedEarlySize else SavedEarlyError)\<rparr> else v)
            in v\<lparr>rv_frameErrorQueued := False\<rparr>))"

definition updateRecordingDuration :: "int \<Rightarrow> recording_view \<Rightarrow> recording_view" where
  "updateRecordingDuration now v =
     (case rv_elapsedSince v of
        None \<Rightarrow> v
      | Some since \<Rightarrow> if rv_state v \<noteq> RecRecording then v else v\<lparr>rv_durationSeconds := (now - since) div 1000\<rparr>)"

text \<open>
  The observer of preview frames, on the sink's thread: \<open>enqueued\<close> is what the recorder returns, and the second
  component is whether a stop is queued for the user-interface thread.
\<close>

definition on_preview :: "u32 \<Rightarrow> u32 \<Rightarrow> bool \<Rightarrow> hresult \<Rightarrow> recording_view \<Rightarrow> recording_view \<times> bool" where
  "on_preview width height recorder enqueued v =
     (let v = v\<lparr>rv_geometry := or (push_bit 32 (ucast width)) (ucast height)\<rparr>
      in if recorder \<and> enqueued = E_INVALIDARG \<and> \<not> rv_frameErrorQueued v then (v\<lparr>rv_frameErrorQueued := True\<rparr>, True)
         else (v, False))"

datatype recording_action = StartAction recording_env | StopAction recording_env | ToggleAction recording_env
  | SnapshotAction int recorder_snapshot | FrameErrorAction recording_env hresult | TickAction int | PreviewAction u32 u32 hresult
  | StreamAction u32

text \<open>The calls one after another, with the configurations that the recorder was started with.\<close>

fun recording_act :: "bool \<Rightarrow> recording_view \<Rightarrow> recording_action \<Rightarrow> recording_view \<times> recorder_config option" where
  "recording_act recorder v (StartAction env) = startRecording env recorder v"
| "recording_act recorder v (StopAction env) = (stopRecording env recorder v, None)"
| "recording_act recorder v (ToggleAction env) = toggleRecording env recorder v"
| "recording_act recorder v (SnapshotAction now snapshot) = (applyRecorderSnapshot now snapshot v, None)"
| "recording_act recorder v (FrameErrorAction env err) = (stopRecordingForFrameError env recorder err v, None)"
| "recording_act recorder v (TickAction now) = (updateRecordingDuration now v, None)"
| "recording_act recorder v (PreviewAction width height enqueued) = (fst (on_preview width height recorder enqueued v), None)"
| "recording_act recorder v (StreamAction fps) = ((if fps \<noteq> 0 then v\<lparr>rv_frameRate := fps\<rparr> else v), None)"

fun recording_run :: "bool \<Rightarrow> recording_action list \<Rightarrow> recording_view \<Rightarrow> recording_view \<times> recorder_config list" where
  "recording_run recorder [] v = (v, [])"
| "recording_run recorder (a # as) v =
     (case recording_act recorder v a of (v', config) \<Rightarrow>
        case recording_run recorder as v' of (v'', configs) \<Rightarrow>
          (v'', (case config of None \<Rightarrow> configs | Some c \<Rightarrow> c # configs)))"

subsection \<open>The recorder is asked for what it accepts\<close>

lemma geometry_parts:
  "(ucast (drop_bit 32 (or (push_bit 32 (ucast w)) (ucast h) :: u64)) :: u32) = w"
  "(ucast (or (push_bit 32 (ucast (w :: u32))) (ucast (h :: u32)) :: u64) :: u32) = h"
  by (rule bit_word_eqI; auto simp: bit_simps dest: bit_imp_le_length)+

definition recordable :: "u32 \<Rightarrow> u32 \<Rightarrow> bool" where
  "recordable w h \<longleftrightarrow> w \<noteq> 0 \<and> h \<noteq> 0 \<and> and w 1 = 0 \<and> and h 1 = 0 \<and> w \<le> kRingMaxWidth \<and> h \<le> kRingMaxHeight"

lemma nv12_small:
  assumes "w \<le> kRingMaxWidth" and "h \<le> kRingMaxHeight"
  shows "\<not> (ucast w :: u64) * ucast h * 3 div 2 > 0xFFFFFFFF"
proof -
  have "unat w * unat h \<le> 3840 * 2160"
    using assms by (intro mult_mono) (simp_all add: kRingMaxWidth_def kRingMaxHeight_def word_le_nat_alt)
  then show ?thesis
    by (simp add: word_less_nat_alt unat_word_ariths unat_div_distrib unat_wider)
qed

lemma duration_positive:
  assumes "fps \<noteq> 0" and "fps \<le> 10000000"
  shows "(10000000 :: u64) * ucast (1 :: u32) div ucast (fps :: u32) \<noteq> 0"
proof -
  have "unat fps \<noteq> 0" "unat fps \<le> 10000000"
    using assms by (simp_all add: unat_eq_0 word_le_nat_alt)
  then have "10000000 div unat fps \<noteq> 0" by (simp add: div_eq_0_iff)
  then have "unat ((10000000 :: u64) * ucast (1 :: u32) div ucast fps) \<noteq> 0"
    by (simp add: unat_div_distrib unat_wider)
  then show ?thesis by (metis unat_0)
qed

lemma bitrate_positive:
  "(ucast (if (b :: u64) < 4000000 then 4000000 else if b > 50000000 then 50000000 else b) :: u32) \<noteq> 0"
proof -
  let ?b = "if b < 4000000 then 4000000 else if b > 50000000 then 50000000 else b"
  have "4000000 \<le> unat ?b \<and> unat ?b \<le> 50000000" by (auto simp: word_less_nat_alt)
  then have "unat (ucast ?b :: u32) = unat ?b" by (simp add: unsigned_ucast_eq take_bit_nat_eq_self)
  then show ?thesis using \<open>4000000 \<le> unat ?b \<and> _\<close> by (metis unat_0 le_zero_eq zero_neq_numeral)
qed

lemma recording_config_ok:
  assumes "recordable (ucast (drop_bit 32 geometry)) (ucast geometry)" and "frameRate \<le> 10000000"
    and "hasMp4Extension ordinal path" and "path \<noteq> []"
  shows "validateConfig ordinal (recording_config path geometry frameRate) = S_OK"
proof -
  have fps: "max 1 frameRate \<noteq> 0" "max 1 frameRate \<le> 10000000"
    using assms(2) by (auto simp: max_def word_le_nat_alt)
  show ?thesis
    using assms(1,3,4) nv12_small duration_positive[OF fps] bitrate_positive fps(1)
    by (simp add: validateConfig_def recording_config_def recordable_def Let_def kMaximumQueueCapacity_def not_less)
qed

text \<open>Frames as the sink delivers them, and a frame rate that has a duration in hundreds of nanoseconds.\<close>

fun sensible :: "recording_action \<Rightarrow> bool" where
  "sensible (PreviewAction w h enqueued) = recordable w h"
| "sensible (StreamAction fps) = (fps \<le> 10000000)"
| "sensible _ = True"

definition view_ok :: "recording_view \<Rightarrow> bool" where
  "view_ok v \<longleftrightarrow> (rv_geometry v = 0 \<or> recordable (ucast (drop_bit 32 (rv_geometry v))) (ucast (rv_geometry v))) \<and>
     rv_frameRate v \<le> 10000000 \<and> (rv_timer v \<longleftrightarrow> rv_state v = RecRecording)"

lemma apply_keeps [simp]:
  "rv_geometry (applyRecorderSnapshot now snapshot v) = rv_geometry v"
  "rv_frameRate (applyRecorderSnapshot now snapshot v) = rv_frameRate v"
  "rv_state (applyRecorderSnapshot now snapshot v) = rs_state snapshot"
  by (cases "rs_state snapshot"; simp add: applyRecorderSnapshot_def Let_def split: option.split)+

lemma apply_timer:
  "rv_timer v = (rv_state v = RecRecording) \<Longrightarrow>
     rv_timer (applyRecorderSnapshot now snapshot v) = (rs_state snapshot = RecRecording)"
  by (cases "rs_state snapshot"; simp add: applyRecorderSnapshot_def Let_def split: option.split)

lemma apply_ok: "view_ok v \<Longrightarrow> view_ok (applyRecorderSnapshot now snapshot v)"
  by (simp add: view_ok_def apply_timer)

lemma stop_ok: "view_ok v \<Longrightarrow> view_ok (stopRecording env recorder v)"
  by (simp add: stopRecording_def apply_ok)

lemma extension_ok: "ordinal ''.mp4'' ''.mp4'' \<Longrightarrow> hasMp4Extension ordinal (name @ ''.mp4'')"
  by (simp add: hasMp4Extension_def)

lemma start_ok:
  assumes ok: "view_ok v" and start: "startRecording env recorder v = (v', config)"
  shows "view_ok v' \<and> (ordinal ''.mp4'' ''.mp4'' \<longrightarrow> (case config of None \<Rightarrow> True | Some c \<Rightarrow> validateConfig ordinal c = S_OK))"
proof -
  consider (Keep) "\<not> recorder \<or> recording v \<or> rv_state v = RecFinalizing"
    | (NoGeometry) "recorder" "\<not> recording v" "rv_state v \<noteq> RecFinalizing"
        "(ucast (drop_bit 32 (rv_geometry v)) :: u32) = 0 \<or> (ucast (rv_geometry v) :: u32) = 0"
    | (Start) "recorder" "\<not> recording v" "rv_state v \<noteq> RecFinalizing"
        "(ucast (drop_bit 32 (rv_geometry v)) :: u32) \<noteq> 0" "(ucast (rv_geometry v) :: u32) \<noteq> 0"
    by blast
  then show ?thesis
  proof cases
    case Keep
    then show ?thesis using ok start by (simp add: startRecording_def)
  next
    case NoGeometry
    then show ?thesis using ok start by (auto simp: startRecording_def view_ok_def recording_def)
  next
    case Start
    then have "recordable (ucast (drop_bit 32 (rv_geometry v))) (ucast (rv_geometry v))"
      using ok by (auto simp: view_ok_def)
    then have valid: "validateConfig ordinal (recording_config (name @ ''.mp4'') (rv_geometry v) (rv_frameRate v)) = S_OK"
      if "ordinal ''.mp4'' ''.mp4''" for name
      using recording_config_ok extension_ok[of ordinal name] that ok by (simp add: view_ok_def)
    show ?thesis
    proof (cases "ve_folder env")
      case None
      then show ?thesis using ok start Start by (auto simp: startRecording_def view_ok_def recording_def)
    next
      case (Some directory)
      let ?path = "directory @ ''/RemoteCam-'' @ ve_date env @ ''.mp4''"
      let ?config = "recording_config ?path (rv_geometry v) (rv_frameRate v)"
      let ?v = "v\<lparr>rv_frameErrorQueued := False, rv_durationSeconds := 0, rv_path := ?path\<rparr>"
      have v: "view_ok ?v" using ok by (simp add: view_ok_def)
      have "config = Some ?config"
        using start Start Some by (auto simp: startRecording_def Let_def split: if_splits)
      moreover have "view_ok v'"
      proof (cases "FAILED (ve_start env ?config)")
        case True
        then have "v' = ?v\<lparr>rv_state := RecFailed, rv_status := StartFailed (ve_start env ?config)\<rparr>"
          using start Start Some by (simp add: startRecording_def Let_def)
        then show ?thesis using v Start by (simp add: view_ok_def recording_def)
      next
        case False
        then have "v' = applyRecorderSnapshot (ve_now env) (ve_snapshot env) ?v"
          using start Start Some by (simp add: startRecording_def Let_def)
        then show ?thesis using apply_ok[OF v] by simp
      qed
      ultimately show ?thesis using valid[of "directory @ ''/RemoteCam-'' @ ve_date env"] by simp
    qed
  qed
qed

lemma frame_error_ok: "view_ok v \<Longrightarrow> view_ok (stopRecordingForFrameError env recorder err v)"
proof (cases "recording v")
  case True
  let ?v = "stopRecording env recorder v"
  assume "view_ok v"
  then have "view_ok ?v" by (rule stop_ok)
  then show ?thesis using True by (simp add: stopRecordingForFrameError_def Let_def view_ok_def)
qed (simp add: stopRecordingForFrameError_def view_ok_def)

lemma recording_act_ok:
  assumes ok: "view_ok v" and act: "recording_act recorder v a = (v', config)" and "sensible a"
  shows "view_ok v' \<and> (ordinal ''.mp4'' ''.mp4'' \<longrightarrow> (case config of None \<Rightarrow> True | Some c \<Rightarrow> validateConfig ordinal c = S_OK))"
proof (cases a)
  case (StartAction env)
  then show ?thesis using start_ok[OF ok, of env recorder] act by simp
next
  case (ToggleAction env)
  then have "toggleRecording env recorder v = (v', config)" using act by simp
  then show ?thesis
    using start_ok[OF ok, of env recorder] stop_ok[OF ok] ok by (auto simp: toggleRecording_def split: if_splits)
next
  case (StopAction env)
  then show ?thesis using act stop_ok[OF ok] by auto
next
  case (SnapshotAction now snapshot)
  then show ?thesis using act apply_ok[OF ok] by auto
next
  case (FrameErrorAction env err)
  then show ?thesis using act frame_error_ok[OF ok] by auto
next
  case (TickAction now)
  then show ?thesis using act ok by (auto simp: updateRecordingDuration_def view_ok_def split: option.splits if_splits)
next
  case (PreviewAction w h enqueued)
  then show ?thesis using act ok assms(3) geometry_parts[of w h] by (auto simp: on_preview_def view_ok_def Let_def split: if_splits)
next
  case (StreamAction fps)
  then show ?thesis using act ok assms(3) by (auto simp: view_ok_def split: if_splits)
qed

lemma recording_run_ok:
  "recording_run recorder as v = (v', configs) \<Longrightarrow> view_ok v \<Longrightarrow> list_all sensible as \<Longrightarrow>
     view_ok v' \<and> (ordinal ''.mp4'' ''.mp4'' \<longrightarrow> list_all (\<lambda>c. validateConfig ordinal c = S_OK) configs)"
proof (induction as arbitrary: v configs)
  case (Cons a as)
  obtain v1 config where one: "recording_act recorder v a = (v1, config)" by fastforce
  obtain rest where rest: "recording_run recorder as v1 = (v', rest)" "configs = (case config of None \<Rightarrow> rest | Some c \<Rightarrow> c # rest)"
    using Cons.prems(1) one by (auto split: prod.splits)
  have "view_ok v1 \<and> (ordinal ''.mp4'' ''.mp4'' \<longrightarrow> (case config of None \<Rightarrow> True | Some c \<Rightarrow> validateConfig ordinal c = S_OK))"
    using recording_act_ok[OF Cons.prems(2) one] Cons.prems(3) by simp
  then show ?case using Cons.IH[OF rest(1)] Cons.prems(3) rest(2) by (auto split: option.splits)
qed simp

lemma new_view_ok: "view_ok (new_recording_view recorder)"
  by (simp add: new_recording_view_def view_ok_def word_le_nat_alt)

text \<open>
  Property C28: the recorder is asked for what it accepts.  Whatever the user, the recorder's snapshots and errors and the stream
  do, for frames of the sizes that the sink delivers every configuration that the application starts the
  recorder with passes the recorder's validation, and the timer of the display runs exactly while a
  recording is shown.
\<close>

theorem recording_requests_valid:
  assumes "recording_run recorder as (new_recording_view recorder) = (v, configs)" and "list_all sensible as"
    and "ordinal ''.mp4'' ''.mp4''"
  shows "list_all (\<lambda>c. validateConfig ordinal c = S_OK) configs \<and> (rv_timer v \<longleftrightarrow> rv_state v = RecRecording)"
  using recording_run_ok[OF assms(1) new_view_ok assms(2)] assms(3) by (simp add: view_ok_def)

text \<open>A recording of a 4 by 2 picture at 30 frames a second.\<close>

definition demo_recording :: recording_env where
  "demo_recording = \<lparr>ve_folder = Some ''V'', ve_date = ''1'', ve_start = (\<lambda>c. S_OK),
     ve_snapshot = new_snapshot\<lparr>rs_state := RecRecording\<rparr>, ve_now = 5\<rparr>"

theorem recording_requests_valid_witness:
  "\<exists>v c. recording_run True [PreviewAction 4 2 S_OK, ToggleAction demo_recording] (new_recording_view True) = (v, [c]) \<and>
     validateConfig (=) c = S_OK \<and> cf_bitrateBitsPerSecond c = 4000000 \<and> rv_timer v"
proof -
  have "\<exists>v c. recording_run True [PreviewAction 4 2 S_OK, ToggleAction demo_recording] (new_recording_view True) = (v, [c]) \<and>
     cf_bitrateBitsPerSecond c = 4000000 \<and> rv_state v = RecRecording"
    by (simp add: on_preview_def new_recording_view_def toggleRecording_def recordingCanToggle_def recording_def startRecording_def
      demo_recording_def geometry_parts[of 4 2, simplified] recording_config_def Let_def)
  then obtain v c where run: "recording_run True [PreviewAction 4 2 S_OK, ToggleAction demo_recording] (new_recording_view True) = (v, [c])"
    and c: "cf_bitrateBitsPerSecond c = 4000000" "rv_state v = RecRecording" by blast
  have "list_all sensible [PreviewAction 4 2 S_OK, ToggleAction demo_recording]"
    by (simp add: recordable_def kRingMaxWidth_def kRingMaxHeight_def)
  from recording_requests_valid[OF run this, of "(=)"] show ?thesis using run c by auto
qed

end
