(* ===== verification/Sink.thy ===== *)
theory Sink
  imports PixelConvert Picture "HOL-Library.Sublist"
begin

text \<open>
  The camera's producer in the application, \<open>windows/platform/src/frame_ring_sink.cpp\<close>: three staging textures that the pipeline
  copies its frames into, and the worker that reads them back, converts them and writes them to the ring through the bridge of
  \<open>windows/common/src/virtual_camera_bridge.cpp\<close>.  What Direct3D and the ring answer is an argument of the steps.
\<close>

subsection \<open>State\<close>

definition kStagingSlots :: nat where "kStagingSlots = 3"
definition kRingNotFound :: hresult where "kRingNotFound = HRESULT_FROM_WIN32 ERROR_FILE_NOT_FOUND"
definition kProducerExists :: hresult where "kProducerExists = HRESULT_FROM_WIN32 ERROR_ALREADY_EXISTS"

text \<open>
  A frame on the GPU: the description and the device of its texture, if it has one, and the rows of its pixels; and what
  the worker has copied out of a staging texture.
\<close>

record gpu_frame =
  gf_texture :: bool
  gf_device :: "nat option"
  gf_bgra :: bool
  gf_descWidth :: u32
  gf_descHeight :: u32
  gf_arraySize :: u32
  gf_arraySlice :: u32
  gf_width :: u32
  gf_height :: u32
  gf_pts :: u64
  gf_rows :: "bytes list"

text \<open>A slot with its number in the order of acceptance, which is not in the code.\<close>

record staging_slot =
  ss_staging :: bool
  ss_completion :: bool
  ss_pts :: u64
  ss_pending :: bool
  ss_rows :: "bytes list"
  ss_number :: nat

definition empty_slot :: staging_slot where
  "empty_slot = \<lparr>ss_staging = False, ss_completion = False, ss_pts = 0, ss_pending = False, ss_rows = [], ss_number = 0\<rparr>"

datatype sink_state = SinkStopped | SinkWaitingForConsumer | SinkPublishing | SinkAdaptingGeometry | SinkProducerConflict | SinkFailedState

record sink_snapshot =
  sn_state :: sink_state
  sn_width :: u32
  sn_height :: u32
  sn_publishedFrames :: u64
  sn_droppedFrames :: u64
  sn_error :: hresult

record read_back =
  rb_width :: u32
  rb_height :: u32
  rb_pts :: u64
  rb_bgra :: bytes
  rb_number :: nat

datatype sink_thread = SinkCreate | SinkTake | SinkConvert read_back | SinkDeliver read_back bytes | SinkClose | SinkEnded

text \<open>
  What becomes of frames: they are accepted, or refused with \<open>S_FALSE\<close>; the worker shows them to the preview and writes them; and
  those still waiting are discarded when the textures they are in go away.
\<close>

datatype sink_event = FrameAccepted gpu_frame | FrameRefused | FrameShown nat | FrameWritten nat frame_info bytes | FrameDiscarded nat

record sink =
  sk_slots :: "staging_slot list"
  sk_pending :: "nat list"
  sk_device :: "nat option"
  sk_context :: bool
  sk_width :: u32
  sk_height :: u32
  sk_status :: sink_snapshot
  sk_desiredWidth :: u32
  sk_desiredHeight :: u32
  sk_connected :: bool
  sk_nv12 :: bytes
  sk_worker :: "sink_thread option"
  sk_stopping :: bool
  sk_accepted :: nat
  sk_trace :: "sink_event list"

definition new_sink :: sink where
  "new_sink = \<lparr>sk_slots = replicate kStagingSlots empty_slot, sk_pending = [], sk_device = None, sk_context = False, sk_width = 0,
     sk_height = 0, sk_status = \<lparr>sn_state = SinkStopped, sn_width = 1920, sn_height = 1080, sn_publishedFrames = 0,
       sn_droppedFrames = 0, sn_error = S_OK\<rparr>, sk_desiredWidth = 1920, sk_desiredHeight = 1080, sk_connected = False, sk_nv12 = [],
     sk_worker = None, sk_stopping = False, sk_accepted = 0, sk_trace = []\<rparr>"

definition transition :: "sink_state \<Rightarrow> hresult \<Rightarrow> sink \<Rightarrow> sink" where
  "transition state err k = k\<lparr>sk_status := (sk_status k)\<lparr>sn_state := state, sn_error := err, sn_width := sk_desiredWidth k,
     sn_height := sk_desiredHeight k\<rparr>\<rparr>"

definition countDrop :: "sink \<Rightarrow> sink" where
  "countDrop k = k\<lparr>sk_status := (sk_status k)\<lparr>sn_droppedFrames := sn_droppedFrames (sk_status k) + 1\<rparr>\<rparr>"

text \<open>The waiting frames, whose textures go away.\<close>

definition discards :: "sink \<Rightarrow> sink_event list" where
  "discards k = map (\<lambda>i. FrameDiscarded (ss_number (sk_slots k ! i))) (sk_pending k)"

definition countPublished :: "sink \<Rightarrow> sink" where
  "countPublished k = k\<lparr>sk_status := (sk_status k)\<lparr>sn_publishedFrames := sn_publishedFrames (sk_status k) + 1\<rparr>\<rparr>"

subsection \<open>The pipeline's side\<close>

definition supportedFrame :: "gpu_frame \<Rightarrow> bool" where
  "supportedFrame f \<longleftrightarrow>
     \<not> (\<not> gf_texture f \<or> gf_width f = 0 \<or> gf_height f = 0 \<or> and (gf_width f) 1 \<noteq> 0 \<or> and (gf_height f) 1 \<noteq> 0 \<or>
        gf_width f > kRingMaxWidth \<or> gf_height f > kRingMaxHeight) \<and>
     gf_bgra f \<and> gf_arraySlice f < gf_arraySize f \<and> gf_descWidth f = gf_width f \<and> gf_descHeight f = gf_height f"

text \<open>The textures and queries of the slots, up to the first that cannot be made.\<close>

fun create_slots :: "(hresult \<times> hresult) list \<Rightarrow> staging_slot list \<Rightarrow> hresult \<times> staging_slot list" where
  "create_slots ((texture, query) # rest) (slot # slots) =
     (if FAILED texture then (texture, slot # slots)
      else if FAILED query then (query, slot\<lparr>ss_staging := True\<rparr> # slots)
      else (case create_slots rest slots of (hr, slots) \<Rightarrow> (hr, slot\<lparr>ss_staging := True, ss_completion := True\<rparr> # slots)))"
| "create_slots _ slots = (S_OK, slots)"

record configure_env =
  ce_context :: bool
  ce_create :: "(hresult \<times> hresult) list"

definition sink_configure :: "configure_env \<Rightarrow> gpu_frame \<Rightarrow> sink \<Rightarrow> hresult \<times> sink" where
  "sink_configure env f k =
     (case gf_device f of
        None \<Rightarrow> (E_FAIL, k)
      | Some device \<Rightarrow>
          if sk_device k = Some device \<and> sk_width k = gf_width f \<and> sk_height k = gf_height f then (S_OK, k)
          else (let k = k\<lparr>sk_pending := [], sk_slots := replicate kStagingSlots empty_slot, sk_device := Some device,
                         sk_context := ce_context env, sk_trace := sk_trace k @ discards k\<rparr>
                in if \<not> ce_context env then (E_FAIL, k)
                   else (case create_slots (ce_create env) (sk_slots k) of (hr, slots) \<Rightarrow>
                           let k = k\<lparr>sk_slots := slots\<rparr>
                           in if FAILED hr then (hr, k)
                              else (S_OK, k\<lparr>sk_width := gf_width f, sk_height := gf_height f\<rparr>))))"

fun first_free :: "staging_slot list \<Rightarrow> nat" where
  "first_free [] = 0"
| "first_free (slot # slots) = (if \<not> ss_pending slot then 0 else Suc (first_free slots))"

text \<open>\<^const>\<open>None\<close> is a copy without a context, or into a texture or to a query that does not exist.\<close>

definition sink_publish :: "configure_env \<Rightarrow> gpu_frame \<Rightarrow> sink \<Rightarrow> (hresult \<times> sink) option" where
  "sink_publish env f k =
     (if \<not> supportedFrame f then Some (E_INVALIDARG, k)
      else if sk_worker k = None then Some (HRESULT_FROM_WIN32 ERROR_INVALID_STATE, k)
      else case sink_configure env f k of (hr, k) \<Rightarrow>
        if FAILED hr then Some (hr, transition SinkFailedState hr k)
        else (let available = first_free (sk_slots k)
              in if available = kStagingSlots then Some (S_FALSE, countDrop (k\<lparr>sk_trace := sk_trace k @ [FrameRefused]\<rparr>))
                 else (let slot = sk_slots k ! available
                       in if \<not> sk_context k \<or> \<not> ss_staging slot \<or> \<not> ss_completion slot then None
                          else Some (S_OK, k\<lparr>sk_slots := (sk_slots k)[available := slot\<lparr>ss_rows := gf_rows f, ss_pts := gf_pts f,
                                     ss_pending := True, ss_number := sk_accepted k\<rparr>],
                                   sk_pending := sk_pending k @ [available], sk_accepted := Suc (sk_accepted k),
                                   sk_trace := sk_trace k @ [FrameAccepted f]\<rparr>))))"

subsection \<open>The worker\<close>

text \<open>What a mapped texture looks like: each row with the padding of the driver behind it; and the copy of its rows.\<close>

definition mapped_texture :: "bytes \<Rightarrow> bytes list \<Rightarrow> bytes" where
  "mapped_texture padding rows = concat (map (\<lambda>row. row @ padding) rows)"

definition copy_rows :: "bytes \<Rightarrow> nat \<Rightarrow> nat \<Rightarrow> nat \<Rightarrow> bytes" where
  "copy_rows mapped rowPitch packedStride height =
     concat (map (\<lambda>row. take packedStride (drop (row * rowPitch) mapped)) [0..<height])"

text \<open>
  What a step of the worker meets: the bridge that is created, the query, the map and its padding, and the bridge's answers to
  \<open>open\<close>, \<open>requestedGeometry\<close> (if it is \<open>S_OK\<close>) and \<open>publish\<close>.
\<close>

record sink_env =
  ke_bridge :: hresult
  ke_ready :: hresult
  ke_map :: hresult
  ke_padding :: bytes
  ke_open :: hresult
  ke_geometry :: "(u32 \<times> u32 \<times> u32) option"
  ke_write :: hresult

definition free_front :: "nat \<Rightarrow> sink \<Rightarrow> sink" where
  "free_front index k = k\<lparr>sk_slots := (sk_slots k)[index := (sk_slots k ! index)\<lparr>ss_pending := False\<rparr>], sk_pending := tl (sk_pending k)\<rparr>"

definition sink_take :: "sink_env \<Rightarrow> sink \<Rightarrow> sink option" where
  "sink_take env k =
     (if sk_stopping k then Some (k\<lparr>sk_worker := Some SinkClose\<rparr>)
      else case sk_pending k of
             [] \<Rightarrow> Some k
           | index # rest \<Rightarrow>
               (let slot = sk_slots k ! index
                in if \<not> sk_context k \<or> \<not> ss_completion slot \<or> \<not> ss_staging slot then None
                   else if ke_ready env = S_FALSE then Some k
                   else if FAILED (ke_ready env) then Some (transition SinkFailedState (ke_ready env) (countDrop (free_front index k)))
                   else if FAILED (ke_map env) then Some (transition SinkFailedState (ke_map env) (countDrop (free_front index k)))
                   else (let packedStride = 4 * unat (sk_width k);
                             mapped = mapped_texture (ke_padding env) (ss_rows slot);
                             bgra = copy_rows mapped (packedStride + length (ke_padding env)) packedStride (unat (sk_height k))
                         in Some ((free_front index k)\<lparr>sk_worker := Some (SinkConvert \<lparr>rb_width = sk_width k, rb_height = sk_height k,
                              rb_pts = ss_pts slot, rb_bgra = bgra, rb_number = ss_number slot\<rparr>)\<rparr>))))"

definition resized :: "nat \<Rightarrow> bytes \<Rightarrow> bytes" where
  "resized n bs = take n bs @ replicate (n - length bs) 0"

definition sink_convert :: "read_back \<Rightarrow> sink \<Rightarrow> sink option" where
  "sink_convert b k =
     (let layout = nv12Layout (uint (rb_width b)) (uint (rb_height b)) 0;
          k = k\<lparr>sk_trace := sk_trace k @ [FrameShown (rb_number b)]\<rparr>
      in case bgraToNv12 (rb_bgra b) (rb_width b * 4) (rb_width b) (rb_height b) (resized (nl_totalSize layout) (sk_nv12 k))
                (word_of_int (nl_stride layout)) of
           None \<Rightarrow> None
         | Some (hr, nv12) \<Rightarrow>
             Some (if FAILED hr then transition SinkFailedState hr (countDrop (k\<lparr>sk_nv12 := nv12, sk_worker := Some SinkTake\<rparr>))
                   else k\<lparr>sk_nv12 := nv12, sk_worker := Some (SinkDeliver b nv12)\<rparr>))"

definition sink_deliver :: "sink_env \<Rightarrow> read_back \<Rightarrow> bytes \<Rightarrow> sink \<Rightarrow> sink" where
  "sink_deliver env b nv12 k =
     (let k = k\<lparr>sk_worker := Some SinkTake\<rparr>
      in if \<not> sk_connected k \<and> FAILED (ke_open env)
         then transition (if ke_open env = kProducerExists then SinkProducerConflict else SinkWaitingForConsumer)
                (if ke_open env = kRingNotFound then S_OK else ke_open env) (countDrop k)
         else (let k = k\<lparr>sk_connected := True\<rparr>;
                   (width, height, format) = (case ke_geometry env of None \<Rightarrow> (rb_width b, rb_height b, kFourccNv12) | Some g \<Rightarrow> g);
                   k = (if ke_geometry env \<noteq> None \<and> format = kFourccNv12
                        then k\<lparr>sk_desiredWidth := width, sk_desiredHeight := height\<rparr> else k)
               in if format \<noteq> kFourccNv12 \<or> width \<noteq> rb_width b \<or> height \<noteq> rb_height b
                  then transition SinkAdaptingGeometry S_OK (countDrop k)
                  else (let layout = nv12Layout (uint (rb_width b)) (uint (rb_height b)) 0;
                            info = \<lparr>fi_width = rb_width b, fi_height = rb_height b, fi_stride = word_of_int (nl_stride layout),
                                    fi_format = kFourccNv12, fi_ptsMicros = rb_pts b, fi_writeSeq = 0,
                                    fi_bytesUsed = word_of_nat (length nv12)\<rparr>
                        in if ke_write env = kRingNotFound
                           then transition SinkWaitingForConsumer S_OK (countDrop (k\<lparr>sk_connected := False\<rparr>))
                           else if FAILED (ke_write env) then transition SinkFailedState (ke_write env) (countDrop k)
                           else transition SinkPublishing S_OK
                                  (countPublished (k\<lparr>sk_trace := sk_trace k @ [FrameWritten (rb_number b) info nv12]\<rparr>)))))"

definition sink_step :: "sink_env \<Rightarrow> sink_thread \<Rightarrow> sink \<Rightarrow> sink option" where
  "sink_step env pc k =
     (case pc of
        SinkCreate \<Rightarrow>
          Some (if FAILED (ke_bridge env) then transition SinkFailedState (ke_bridge env) (k\<lparr>sk_worker := Some SinkEnded\<rparr>)
                else k\<lparr>sk_worker := Some SinkTake\<rparr>)
      | SinkTake \<Rightarrow> sink_take env k
      | SinkConvert b \<Rightarrow> sink_convert b k
      | SinkDeliver b nv12 \<Rightarrow> Some (sink_deliver env b nv12 k)
      | SinkClose \<Rightarrow> Some (k\<lparr>sk_connected := False, sk_worker := Some SinkEnded\<rparr>)
      | SinkEnded \<Rightarrow> Some k)"

definition sink_start :: "sink \<Rightarrow> sink" where
  "sink_start k =
     (if sk_worker k \<noteq> None then k
      else (transition SinkWaitingForConsumer S_OK k)\<lparr>sk_worker := Some SinkCreate, sk_stopping := False\<rparr>)"

text \<open>\<open>stop\<close> up to the join, and after it.\<close>

definition sink_stop_begin :: "sink \<Rightarrow> sink" where
  "sink_stop_begin k = (if sk_worker k = None then k else k\<lparr>sk_stopping := True\<rparr>)"

definition sink_stop_end :: "sink \<Rightarrow> sink" where
  "sink_stop_end k =
     (if sk_worker k \<noteq> Some SinkEnded \<or> \<not> sk_stopping k then k
      else transition SinkStopped S_OK (k\<lparr>sk_worker := None, sk_pending := [], sk_slots := replicate kStagingSlots empty_slot,
             sk_device := None, sk_context := False, sk_width := 0, sk_height := 0, sk_trace := sk_trace k @ discards k\<rparr>))"

datatype sink_action = PublishFrame configure_env gpu_frame | SinkWorker sink_env | StartSink | StopSink | JoinSink

fun sink_act :: "sink_action \<Rightarrow> sink \<Rightarrow> sink option" where
  "sink_act (PublishFrame env f) k = map_option snd (sink_publish env f k)"
| "sink_act (SinkWorker env) k = (case sk_worker k of None \<Rightarrow> Some k | Some pc \<Rightarrow> sink_step env pc k)"
| "sink_act StartSink k = Some (sink_start k)"
| "sink_act StopSink k = Some (sink_stop_begin k)"
| "sink_act JoinSink k = Some (sink_stop_end k)"

fun sink_run :: "sink_action list \<Rightarrow> sink \<Rightarrow> sink option" where
  "sink_run [] k = Some k"
| "sink_run (a # as) k = (case sink_act a k of None \<Rightarrow> None | Some k' \<Rightarrow> sink_run as k')"

subsection \<open>Reading a texture back\<close>

lemma mapped_drop:
  "list_all (\<lambda>row. length row = n) rows \<Longrightarrow> i \<le> length rows \<Longrightarrow>
     drop (i * (n + length padding)) (mapped_texture padding rows) = mapped_texture padding (drop i rows)"
proof (induction i arbitrary: rows)
  case (Suc i)
  then obtain row rest where rows: "rows = row # rest" by (cases rows) auto
  have "drop (Suc i * (n + length padding)) (mapped_texture padding rows) =
      drop (i * (n + length padding)) (mapped_texture padding rest)"
    using Suc.prems(1) by (simp add: rows mapped_texture_def)
  then show ?case using Suc.IH[of rest] Suc.prems by (simp add: rows)
qed (simp add: mapped_texture_def)

lemma copy_rows_packed:
  assumes "list_all (\<lambda>row. length row = n) rows"
  shows "copy_rows (mapped_texture padding rows) (n + length padding) n (length rows) = concat rows"
proof -
  have "take n (drop (i * (n + length padding)) (mapped_texture padding rows)) = rows ! i" if "i < length rows" for i
  proof -
    have "drop i rows = rows ! i # drop (Suc i) rows" using that by (simp add: Cons_nth_drop_Suc)
    moreover have "length (rows ! i) = n" using assms that by (simp add: list_all_length)
    ultimately show ?thesis using mapped_drop[OF assms, of i padding] that by (simp add: mapped_texture_def)
  qed
  then have "map (\<lambda>i. take n (drop (i * (n + length padding)) (mapped_texture padding rows))) [0..<length rows] =
      map ((!) rows) [0..<length rows]"
    by simp
  then show ?thesis by (simp add: copy_rows_def map_nth)
qed

subsection \<open>What holds of every run\<close>

fun accepted_of :: "sink_event list \<Rightarrow> gpu_frame list" where
  "accepted_of [] = []"
| "accepted_of (FrameAccepted f # es) = f # accepted_of es"
| "accepted_of (_ # es) = accepted_of es"

fun shown_of :: "sink_event list \<Rightarrow> nat list" where
  "shown_of [] = []"
| "shown_of (FrameShown i # es) = i # shown_of es"
| "shown_of (_ # es) = shown_of es"

fun written_of :: "sink_event list \<Rightarrow> (nat \<times> frame_info \<times> bytes) list" where
  "written_of [] = []"
| "written_of (FrameWritten i info nv12 # es) = (i, info, nv12) # written_of es"
| "written_of (_ # es) = written_of es"

fun refused_of :: "sink_event list \<Rightarrow> nat" where
  "refused_of [] = 0"
| "refused_of (FrameRefused # es) = Suc (refused_of es)"
| "refused_of (_ # es) = refused_of es"

fun discarded_of :: "sink_event list \<Rightarrow> nat list" where
  "discarded_of [] = []"
| "discarded_of (FrameDiscarded i # es) = i # discarded_of es"
| "discarded_of (_ # es) = discarded_of es"

lemma of_append [simp]:
  "accepted_of (es @ es') = accepted_of es @ accepted_of es'"
  "shown_of (es @ es') = shown_of es @ shown_of es'"
  "written_of (es @ es') = written_of es @ written_of es'"
  "refused_of (es @ es') = refused_of es + refused_of es'"
  "discarded_of (es @ es') = discarded_of es @ discarded_of es'"
  by (induction es rule: accepted_of.induct) simp_all

lemma of_discards [simp]:
  "accepted_of (discards k) = []" "shown_of (discards k) = []" "written_of (discards k) = []" "refused_of (discards k) = 0"
  "length (discarded_of (discards k)) = length (sk_pending k)"
proof -
  have "accepted_of (map (\<lambda>i. FrameDiscarded (f i)) is) = []" "shown_of (map (\<lambda>i. FrameDiscarded (f i)) is) = []"
    "written_of (map (\<lambda>i. FrameDiscarded (f i)) is) = []" "refused_of (map (\<lambda>i. FrameDiscarded (f i)) is) = 0"
    "length (discarded_of (map (\<lambda>i. FrameDiscarded (f i)) is)) = length is" for f :: "nat \<Rightarrow> nat" and "is"
    by (induction "is") simp_all
  then show "accepted_of (discards k) = []" "shown_of (discards k) = []" "written_of (discards k) = []"
    "refused_of (discards k) = 0" "length (discarded_of (discards k)) = length (sk_pending k)"
    by (simp_all add: discards_def)
qed

lemma discards_worker [simp]: "discards (k\<lparr>sk_worker := w\<rparr>) = discards k"
  by (simp add: discards_def)

text \<open>A texture as Direct3D describes it has a row of pixels for each line.\<close>

definition proper_frame :: "gpu_frame \<Rightarrow> bool" where
  "proper_frame f \<longleftrightarrow> length (gf_rows f) = unat (gf_height f) \<and> list_all (\<lambda>row. length row = 4 * unat (gf_width f)) (gf_rows f)"

definition creatable :: "configure_env \<Rightarrow> bool" where
  "creatable env \<longleftrightarrow> ce_context env \<and> length (ce_create env) = kStagingSlots \<and>
     list_all (\<lambda>(t, q). \<not> FAILED t \<and> \<not> FAILED q) (ce_create env)"

fun proper :: "sink_action \<Rightarrow> bool" where
  "proper (PublishFrame env f) = (proper_frame f \<and> creatable env)"
| "proper _ = True"

definition read_back_of :: "gpu_frame \<Rightarrow> read_back \<Rightarrow> bool" where
  "read_back_of f b \<longleftrightarrow> rb_width b = gf_width f \<and> rb_height b = gf_height f \<and> rb_pts b = gf_pts f \<and> rb_bgra b = concat (gf_rows f)"

text \<open>The image that the ring gets is the conversion of the frame's pixels, with its size and its time.\<close>

definition written_as :: "gpu_frame \<Rightarrow> frame_info \<Rightarrow> bytes \<Rightarrow> bool" where
  "written_as f info nv12 \<longleftrightarrow> fi_width info = gf_width f \<and> fi_height info = gf_height f \<and> fi_ptsMicros info = gf_pts f \<and>
     fi_format info = kFourccNv12 \<and> fi_bytesUsed info = word_of_nat (length nv12) \<and>
     (\<exists>buffer stride. bgraToNv12 (concat (gf_rows f)) (gf_width f * 4) (gf_width f) (gf_height f) buffer stride = Some (S_OK, nv12) \<and>
        fi_stride info = stride)"

fun converting :: "sink_thread option \<Rightarrow> read_back option" where
  "converting (Some (SinkConvert b)) = Some b"
| "converting _ = None"

fun delivering :: "sink_thread option \<Rightarrow> (read_back \<times> bytes) option" where
  "delivering (Some (SinkDeliver b nv12)) = Some (b, nv12)"
| "delivering _ = None"

definition numbers :: "staging_slot list \<Rightarrow> nat list \<Rightarrow> nat list" where
  "numbers slots pending = map (\<lambda>i. ss_number (slots ! i)) pending"

definition slot_ok :: "u32 \<Rightarrow> u32 \<Rightarrow> gpu_frame list \<Rightarrow> staging_slot \<Rightarrow> bool" where
  "slot_ok width height frames slot \<longleftrightarrow> ss_staging slot \<and> ss_completion slot \<and> ss_number slot < length frames \<and>
     (let f = frames ! ss_number slot
      in proper_frame f \<and> ss_rows slot = gf_rows f \<and> ss_pts slot = gf_pts f \<and> gf_width f = width \<and> gf_height f = height)"

definition slots_ok :: "staging_slot list \<Rightarrow> nat list \<Rightarrow> bool \<Rightarrow> u32 \<Rightarrow> u32 \<Rightarrow> gpu_frame list \<Rightarrow> bool" where
  "slots_ok slots pending ctx width height frames \<longleftrightarrow> length slots = kStagingSlots \<and> distinct pending \<and>
     (\<forall>i < kStagingSlots. ss_pending (slots ! i) \<longleftrightarrow> i \<in> set pending) \<and>
     (\<forall>i \<in> set pending. i < kStagingSlots \<and> slot_ok width height frames (slots ! i)) \<and> (pending \<noteq> [] \<longrightarrow> ctx) \<and>
     (width \<noteq> 0 \<longrightarrow> ctx \<and> (\<forall>s \<in> set slots. ss_staging s \<and> ss_completion s))"

definition order_ok :: "sink_thread option \<Rightarrow> nat list \<Rightarrow> nat list \<Rightarrow> nat list \<Rightarrow> bool" where
  "order_ok worker shown written ahead \<longleftrightarrow>
     sorted_wrt (<) (shown @ (case converting worker of None \<Rightarrow> [] | Some b \<Rightarrow> [rb_number b]) @ ahead) \<and>
     sorted_wrt (<) (written @ (case converting worker of None \<Rightarrow> [] | Some b \<Rightarrow> [rb_number b]) @
       (case delivering worker of None \<Rightarrow> [] | Some (b, nv12) \<Rightarrow> [rb_number b]) @ ahead)"

definition content_ok :: "sink_thread option \<Rightarrow> gpu_frame list \<Rightarrow> (nat \<times> frame_info \<times> bytes) list \<Rightarrow> bool" where
  "content_ok worker frames written \<longleftrightarrow>
     (case converting worker of None \<Rightarrow> True | Some b \<Rightarrow> rb_number b < length frames \<and> read_back_of (frames ! rb_number b) b) \<and>
     (case delivering worker of None \<Rightarrow> True
      | Some (b, nv12) \<Rightarrow> rb_number b < length frames \<and> read_back_of (frames ! rb_number b) b \<and>
          (\<exists>buffer. bgraToNv12 (rb_bgra b) (rb_width b * 4) (rb_width b) (rb_height b) buffer
             (word_of_int (nl_stride (nv12Layout (uint (rb_width b)) (uint (rb_height b)) 0))) = Some (S_OK, nv12))) \<and>
     (\<forall>(i, info, nv12) \<in> set written. i < length frames \<and> written_as (frames ! i) info nv12)"

definition counts_ok :: "sink_snapshot \<Rightarrow> sink_event list \<Rightarrow> bool" where
  "counts_ok status tr \<longleftrightarrow> sn_publishedFrames status = word_of_nat (length (written_of tr))"

definition sink_ok :: "sink \<Rightarrow> bool" where
  "sink_ok k \<longleftrightarrow> slots_ok (sk_slots k) (sk_pending k) (sk_context k) (sk_width k) (sk_height k) (accepted_of (sk_trace k)) \<and>
     order_ok (sk_worker k) (shown_of (sk_trace k)) (map fst (written_of (sk_trace k)))
       (numbers (sk_slots k) (sk_pending k) @ [sk_accepted k]) \<and>
     content_ok (sk_worker k) (accepted_of (sk_trace k)) (written_of (sk_trace k)) \<and>
     counts_ok (sk_status k) (sk_trace k) \<and> sk_accepted k = length (accepted_of (sk_trace k))"

lemma new_sink_ok: "sink_ok new_sink"
  by (simp add: sink_ok_def slots_ok_def order_ok_def content_ok_def counts_ok_def new_sink_def numbers_def kStagingSlots_def
    nth_Cons' empty_slot_def numeral_3_eq_3 less_Suc_eq)

lemma counts_transition [simp]: "counts_ok (sk_status (transition state err k)) tr = counts_ok (sk_status k) tr"
  by (simp add: counts_ok_def transition_def)

lemma transition_keeps [simp]:
  "sk_slots (transition state err k) = sk_slots k" "sk_pending (transition state err k) = sk_pending k"
  "sk_device (transition state err k) = sk_device k" "sk_context (transition state err k) = sk_context k"
  "sk_width (transition state err k) = sk_width k" "sk_height (transition state err k) = sk_height k"
  "sk_worker (transition state err k) = sk_worker k" "sk_accepted (transition state err k) = sk_accepted k"
  "sk_trace (transition state err k) = sk_trace k" "sk_stopping (transition state err k) = sk_stopping k"
  by (simp_all add: transition_def)

lemma drop_keeps [simp]:
  "sk_slots (countDrop k) = sk_slots k" "sk_pending (countDrop k) = sk_pending k"
  "sk_device (countDrop k) = sk_device k" "sk_context (countDrop k) = sk_context k"
  "sk_width (countDrop k) = sk_width k" "sk_height (countDrop k) = sk_height k"
  "sk_worker (countDrop k) = sk_worker k" "sk_accepted (countDrop k) = sk_accepted k"
  "sk_trace (countDrop k) = sk_trace k" "sk_stopping (countDrop k) = sk_stopping k"
  by (simp_all add: countDrop_def)

lemma counts_drop [simp]: "counts_ok (sk_status (countDrop k)) tr = counts_ok (sk_status k) tr"
  by (simp add: counts_ok_def countDrop_def)

lemma transition_ok [simp]: "sink_ok (transition state err k) = sink_ok k"
  by (simp add: sink_ok_def)

lemma drop_ok: "sink_ok k \<Longrightarrow> sink_ok (countDrop k)"
  by (auto simp: sink_ok_def)

lemma refused_ok: "sink_ok k \<Longrightarrow> sink_ok (countDrop (k\<lparr>sk_trace := sk_trace k @ [FrameRefused]\<rparr>))"
  by (auto simp: sink_ok_def counts_ok_def countDrop_def)

text \<open>Taking the front slot out of the queue, and giving up all of them.\<close>

lemma sorted_skip: "sorted_wrt P (xs @ ys @ zs) \<Longrightarrow> sorted_wrt P (xs @ zs)"
  by (simp add: sorted_wrt_append)

lemma order_skip:
  assumes "order_ok worker shown written (xs @ ys)"
  shows "order_ok worker shown written ys"
  using assms sorted_skip[of "(<)" "shown @ (case converting worker of None \<Rightarrow> [] | Some b \<Rightarrow> [rb_number b])" xs ys]
    sorted_skip[of "(<)" "written @ (case converting worker of None \<Rightarrow> [] | Some b \<Rightarrow> [rb_number b]) @
       (case delivering worker of None \<Rightarrow> [] | Some (b, nv12) \<Rightarrow> [rb_number b])" xs ys]
  unfolding order_ok_def append_assoc by blast

lemma slots_okD:
  assumes "slots_ok slots pending ctx width height frames"
  shows "length slots = kStagingSlots" "distinct pending" "i < kStagingSlots \<Longrightarrow> ss_pending (slots ! i) = (i \<in> set pending)"
    "i \<in> set pending \<Longrightarrow> i < kStagingSlots \<and> slot_ok width height frames (slots ! i)" "pending \<noteq> [] \<Longrightarrow> ctx"
    "width \<noteq> 0 \<Longrightarrow> ctx \<and> (\<forall>s \<in> set slots. ss_staging s \<and> ss_completion s)"
proof -
  note facts = assms[unfolded slots_ok_def]
  show "length slots = kStagingSlots" by (rule facts[THEN conjunct1])
  show "distinct pending" by (rule facts[THEN conjunct2, THEN conjunct1])
  show "i < kStagingSlots \<Longrightarrow> ss_pending (slots ! i) = (i \<in> set pending)"
    by (rule facts[THEN conjunct2, THEN conjunct2, THEN conjunct1, rule_format])
  show "i \<in> set pending \<Longrightarrow> i < kStagingSlots \<and> slot_ok width height frames (slots ! i)"
    by (rule facts[THEN conjunct2, THEN conjunct2, THEN conjunct2, THEN conjunct1, THEN bspec])
  show "pending \<noteq> [] \<Longrightarrow> ctx"
    by (rule facts[THEN conjunct2, THEN conjunct2, THEN conjunct2, THEN conjunct2, THEN conjunct1, THEN mp])
  show "width \<noteq> 0 \<Longrightarrow> ctx \<and> (\<forall>s \<in> set slots. ss_staging s \<and> ss_completion s)"
    by (rule facts[THEN conjunct2, THEN conjunct2, THEN conjunct2, THEN conjunct2, THEN conjunct2, THEN mp])
qed

lemma sink_okD:
  assumes "sink_ok k"
  shows "slots_ok (sk_slots k) (sk_pending k) (sk_context k) (sk_width k) (sk_height k) (accepted_of (sk_trace k))"
    "order_ok (sk_worker k) (shown_of (sk_trace k)) (map fst (written_of (sk_trace k))) (numbers (sk_slots k) (sk_pending k) @ [sk_accepted k])"
    "content_ok (sk_worker k) (accepted_of (sk_trace k)) (written_of (sk_trace k))"
    "counts_ok (sk_status k) (sk_trace k)" "sk_accepted k = length (accepted_of (sk_trace k))"
  using assms unfolding sink_ok_def by blast+

lemma slots_front:
  assumes ok: "slots_ok slots (index # rest) ctx width height frames"
  shows "slots_ok (slots[index := (slots ! index)\<lparr>ss_pending := False\<rparr>]) rest ctx width height frames"
proof -
  let ?slot = "(slots ! index)\<lparr>ss_pending := False\<rparr>"
  note facts = slots_okD[OF ok]
  have index: "index < kStagingSlots" "index \<notin> set rest" "distinct rest" ctx
    using facts(2,5) facts(4)[of index] by auto
  have pending: "ss_pending (slots[index := ?slot] ! i) \<longleftrightarrow> i \<in> set rest" if "i < kStagingSlots" for i
  proof (cases "i = index")
    case True
    then show ?thesis using index facts(1) by simp
  next
    case False
    then show ?thesis using facts(3)[OF that] by simp
  qed
  have same: "i < kStagingSlots \<and> slot_ok width height frames (slots[index := ?slot] ! i)" if "i \<in> set rest" for i
  proof -
    have "index \<noteq> i" using index(2) that by blast
    then show ?thesis using facts(4)[of i] that by simp
  qed
  have made: "ss_staging s \<and> ss_completion s" if "width \<noteq> 0" "s \<in> set (slots[index := ?slot])" for s
  proof -
    have "s = ?slot \<or> s \<in> set slots" using set_update_subset_insert[of slots index ?slot] that(2) by blast
    moreover have "slots ! index \<in> set slots" using index facts(1) by simp
    ultimately show ?thesis using facts(6)[OF that(1)] by auto
  qed
  show ?thesis unfolding slots_ok_def
    by (intro conjI allI impI ballI) (use index facts(1) pending same made in \<open>auto simp only: length_list_update\<close>)
qed

lemma front_ok:
  assumes ok: "sink_ok k" and front: "sk_pending k = index # rest"
  shows "sink_ok (free_front index k)"
proof -
  note facts = sink_okD[OF ok, unfolded front]
  let ?slots = "(sk_slots k)[index := (sk_slots k ! index)\<lparr>ss_pending := False\<rparr>]"
  have "index \<notin> set rest" using slots_okD(2)[OF facts(1)] by simp
  then have same: "numbers ?slots rest = numbers (sk_slots k) rest"
    unfolding numbers_def by (intro map_cong[OF refl]) (metis nth_list_update_neq)
  have "order_ok (sk_worker k) (shown_of (sk_trace k)) (map fst (written_of (sk_trace k))) (numbers (sk_slots k) rest @ [sk_accepted k])"
    by (rule order_skip[of _ _ _ "[ss_number (sk_slots k ! index)]"]) (use facts(2) in \<open>simp add: numbers_def\<close>)
  then show ?thesis using slots_front[OF facts(1)] facts(3-5) front same
    by (simp add: sink_ok_def free_front_def)
qed

lemma emptied_ok:
  assumes ok: "sink_ok k" and slots: "length slots = kStagingSlots" "\<forall>s \<in> set slots. \<not> ss_pending s"
    and ready: "width \<noteq> 0 \<longrightarrow> ctx \<and> (\<forall>s \<in> set slots. ss_staging s \<and> ss_completion s)"
  shows "sink_ok (k\<lparr>sk_pending := [], sk_slots := slots, sk_device := device, sk_context := ctx, sk_width := width, sk_height := height,
    sk_trace := sk_trace k @ discards k\<rparr>)"
proof -
  have "slots_ok slots [] ctx width height (accepted_of (sk_trace k))"
    using slots ready by (simp add: slots_ok_def)
  then show ?thesis using order_skip[OF sink_okD(2)[OF ok]] sink_okD(3-5)[OF ok] by (simp add: sink_ok_def numbers_def counts_ok_def)
qed

subsection \<open>The steps keep it\<close>

lemma create_slots_all:
  "list_all (\<lambda>(t, q). \<not> FAILED t \<and> \<not> FAILED q) made \<Longrightarrow> length made = length slots \<Longrightarrow>
     create_slots made slots = (S_OK, map (\<lambda>s. s\<lparr>ss_staging := True, ss_completion := True\<rparr>) slots)"
  by (induction made slots rule: create_slots.induct) auto

lemma configure_ok:
  assumes ok: "sink_ok k" and env: "creatable env" and conf: "sink_configure env f k = (hr, k')"
  shows "sink_ok k' \<and> sk_accepted k' = sk_accepted k \<and> sk_worker k' = sk_worker k \<and>
    (\<not> FAILED hr \<longrightarrow> sk_width k' = gf_width f \<and> sk_height k' = gf_height f)"
proof (cases "gf_device f")
  case None
  then show ?thesis using conf ok by (simp add: sink_configure_def)
next
  case (Some device)
  show ?thesis
  proof (cases "sk_device k = Some device \<and> sk_width k = gf_width f \<and> sk_height k = gf_height f")
    case True
    then show ?thesis using conf ok Some by (simp add: sink_configure_def)
  next
    case False
    let ?slots = "map (\<lambda>s. s\<lparr>ss_staging := True, ss_completion := True\<rparr>) (replicate kStagingSlots empty_slot)"
    have "create_slots (ce_create env) (replicate kStagingSlots empty_slot) = (S_OK, ?slots)"
      using env by (intro create_slots_all) (simp_all add: creatable_def)
    then have "hr = S_OK \<and> k' = k\<lparr>sk_pending := [], sk_slots := ?slots, sk_device := Some device, sk_context := True,
        sk_width := gf_width f, sk_height := gf_height f, sk_trace := sk_trace k @ discards k\<rparr>"
      using conf Some False env by (auto simp: sink_configure_def creatable_def Let_def)
    then show ?thesis using emptied_ok[OF ok, of ?slots] by (auto simp: empty_slot_def)
  qed
qed

lemma first_free_pending:
  "first_free slots \<le> length slots \<and> (first_free slots < length slots \<longrightarrow> \<not> ss_pending (slots ! first_free slots))"
  by (induction slots) auto

lemma accept_slots:
  assumes ok: "slots_ok slots pending ctx width height frames" and free: "i < kStagingSlots" "\<not> ss_pending (slots ! i)"
    and width: "width \<noteq> 0" and f: "proper_frame f" "gf_width f = width" "gf_height f = height"
  shows "slots_ok (slots[i := (slots ! i)\<lparr>ss_rows := gf_rows f, ss_pts := gf_pts f, ss_pending := True, ss_number := length frames\<rparr>])
    (pending @ [i]) ctx width height (frames @ [f])"
proof -
  let ?slot = "(slots ! i)\<lparr>ss_rows := gf_rows f, ss_pts := gf_pts f, ss_pending := True, ss_number := length frames\<rparr>"
  note facts = slots_okD[OF ok]
  have i: "i \<notin> set pending" "slots ! i \<in> set slots" using facts(1) facts(3)[OF free(1)] free by simp_all
  note made = facts(6)[OF width]
  have pending: "ss_pending (slots[i := ?slot] ! j) \<longleftrightarrow> j \<in> set (pending @ [i])" if "j < kStagingSlots" for j
  proof (cases "j = i")
    case True
    then show ?thesis using facts(1) free by simp
  next
    case False
    then show ?thesis using facts(3)[OF that] by simp
  qed
  have same: "j < kStagingSlots \<and> slot_ok width height (frames @ [f]) (slots[i := ?slot] ! j)" if "j \<in> set (pending @ [i])" for j
  proof (cases "j = i")
    case True
    then show ?thesis using facts(1) free made i f by (simp add: slot_ok_def)
  next
    case False
    then have "j < kStagingSlots \<and> slot_ok width height frames (slots ! j)" using facts(4)[of j] that by simp
    then show ?thesis using False by (simp add: slot_ok_def nth_append Let_def)
  qed
  have "ss_staging s \<and> ss_completion s" if "s \<in> set (slots[i := ?slot])" for s
  proof -
    have "s = ?slot \<or> s \<in> set slots" using set_update_subset_insert[of slots i ?slot] that by blast
    then show ?thesis using made i(2) by auto
  qed
  then show ?thesis unfolding slots_ok_def
    by (intro conjI allI impI ballI) (use i(1) facts(1,2) pending same made in \<open>auto simp del: set_append\<close>)
qed

lemma content_more:
  assumes "content_ok worker frames written"
  shows "content_ok worker (frames @ [f]) written"
  using assms by (auto simp: content_ok_def nth_append split: option.splits)

lemma sorted_more: "sorted_wrt (<) (xs @ [n :: nat]) \<Longrightarrow> sorted_wrt (<) (xs @ [n, Suc n])"
  by (auto simp: sorted_wrt_append less_SucI)

lemma order_more:
  assumes "order_ok worker shown written (xs @ [n])"
  shows "order_ok worker shown written (xs @ [n, Suc n])"
  using assms sorted_more[of "shown @ (case converting worker of None \<Rightarrow> [] | Some b \<Rightarrow> [rb_number b]) @ xs" n]
    sorted_more[of "written @ (case converting worker of None \<Rightarrow> [] | Some b \<Rightarrow> [rb_number b]) @
       (case delivering worker of None \<Rightarrow> [] | Some (b, nv12) \<Rightarrow> [rb_number b]) @ xs" n]
  unfolding order_ok_def append_assoc by blast

lemma publish_ok:
  assumes ok: "sink_ok k" and env: "creatable env" and f: "proper_frame f"
  shows "\<exists>hr k'. sink_publish env f k = Some (hr, k') \<and> sink_ok k'"
proof (cases "\<not> supportedFrame f \<or> sk_worker k = None")
  case True
  then show ?thesis using ok by (auto simp: sink_publish_def)
next
  case False
  obtain hr k1 where conf: "sink_configure env f k = (hr, k1)" by fastforce
  note k1 = configure_ok[OF ok env conf]
  have k1_ok: "sink_ok k1" using k1 by blast
  let ?i = "first_free (sk_slots k1)"
  note facts = sink_okD[OF k1_ok]
  consider (Failed) "FAILED hr" | (Full) "\<not> FAILED hr" "?i = kStagingSlots" | (Free) "\<not> FAILED hr" "?i \<noteq> kStagingSlots" by blast
  then show ?thesis
  proof cases
    case Failed
    then show ?thesis using False conf k1_ok by (auto simp: sink_publish_def)
  next
    case Full
    then show ?thesis using False conf refused_ok[OF k1_ok] by (auto simp: sink_publish_def)
  next
    case Free
    have len: "length (sk_slots k1) = kStagingSlots" by (rule slots_okD(1)[OF facts(1)])
    then have i: "?i < kStagingSlots" "\<not> ss_pending (sk_slots k1 ! ?i)" using first_free_pending[of "sk_slots k1"] Free by auto
    have size: "sk_width k1 = gf_width f" "sk_height k1 = gf_height f" using k1 Free by blast+
    have width: "sk_width k1 \<noteq> 0" using False size by (simp add: supportedFrame_def)
    note made = slots_okD(6)[OF facts(1) width]
    have slot: "ss_staging (sk_slots k1 ! ?i)" "ss_completion (sk_slots k1 ! ?i)" using made i(1) len by simp_all
    let ?slots = "(sk_slots k1)[?i := (sk_slots k1 ! ?i)\<lparr>ss_rows := gf_rows f, ss_pts := gf_pts f, ss_pending := True,
        ss_number := length (accepted_of (sk_trace k1))\<rparr>]"
    let ?k = "k1\<lparr>sk_slots := ?slots, sk_pending := sk_pending k1 @ [?i], sk_accepted := Suc (sk_accepted k1),
        sk_trace := sk_trace k1 @ [FrameAccepted f]\<rparr>"
    have publish: "sink_publish env f k = Some (S_OK, ?k)"
      using False conf Free made slot facts(5) by (simp add: sink_publish_def Let_def)
    have slots: "slots_ok ?slots (sk_pending k1 @ [?i]) (sk_context k1) (sk_width k1) (sk_height k1) (accepted_of (sk_trace k1) @ [f])"
      using accept_slots[OF facts(1) i width f] size by simp
    have free: "?i \<notin> set (sk_pending k1)" using slots_okD(3)[OF facts(1) i(1)] i(2) by simp
    then have "numbers ?slots (sk_pending k1) = numbers (sk_slots k1) (sk_pending k1)"
      unfolding numbers_def by (intro map_cong[OF refl]) (metis nth_list_update_neq)
    then have "numbers ?slots (sk_pending k1 @ [?i]) = numbers (sk_slots k1) (sk_pending k1) @ [sk_accepted k1]"
      using i(1) len facts(5) by (simp add: numbers_def)
    then have "order_ok (sk_worker k1) (shown_of (sk_trace k1)) (map fst (written_of (sk_trace k1)))
        (numbers ?slots (sk_pending k1 @ [?i]) @ [Suc (sk_accepted k1)])"
      using order_more[OF facts(2)] by simp
    moreover have "counts_ok (sk_status k1) (sk_trace k1 @ [FrameAccepted f])" using facts(4) by (simp add: counts_ok_def)
    ultimately have "sink_ok ?k" using slots content_more[OF facts(3)] facts(5) by (simp add: sink_ok_def)
    then show ?thesis using publish by blast
  qed
qed

lemma take_ok:
  assumes ok: "sink_ok k" and worker: "sk_worker k = Some SinkTake"
  shows "\<exists>k'. sink_take env k = Some k' \<and> sink_ok k'"
proof (cases "sk_stopping k \<or> sk_pending k = []")
  case True
  have "sink_ok (k\<lparr>sk_worker := Some SinkClose\<rparr>)"
    using sink_okD[OF ok] worker by (simp add: sink_ok_def order_ok_def content_ok_def)
  then show ?thesis using True ok by (auto simp: sink_take_def)
next
  case False
  then obtain index rest where pending: "sk_pending k = index # rest" by (cases "sk_pending k") auto
  note facts = sink_okD[OF ok, unfolded pending]
  let ?slot = "sk_slots k ! index"
  let ?f = "accepted_of (sk_trace k) ! ss_number ?slot"
  have slot: "slot_ok (sk_width k) (sk_height k) (accepted_of (sk_trace k)) ?slot" and ctx: "sk_context k"
    using slots_okD(4,5)[OF facts(1)] by auto
  have f: "proper_frame ?f" "ss_rows ?slot = gf_rows ?f" "ss_pts ?slot = gf_pts ?f" "gf_width ?f = sk_width k" "gf_height ?f = sk_height k"
      "ss_number ?slot < length (accepted_of (sk_trace k))" and made: "ss_staging ?slot" "ss_completion ?slot"
    using slot by (simp_all add: slot_ok_def Let_def)
  have front: "sink_ok (free_front index k)" by (rule front_ok[OF ok pending])
  let ?bgra = "copy_rows (mapped_texture (ke_padding env) (ss_rows ?slot)) (4 * unat (sk_width k) + length (ke_padding env))
      (4 * unat (sk_width k)) (unat (sk_height k))"
  let ?b = "\<lparr>rb_width = sk_width k, rb_height = sk_height k, rb_pts = ss_pts ?slot, rb_bgra = ?bgra, rb_number = ss_number ?slot\<rparr>"
  have "?bgra = concat (gf_rows ?f)"
    using f copy_rows_packed[of "4 * unat (sk_width k)" "gf_rows ?f" "ke_padding env"] by (simp add: proper_frame_def)
  then have read: "read_back_of ?f ?b" using f by (simp add: read_back_of_def)
  have order: "order_ok (Some (SinkConvert ?b)) (shown_of (sk_trace k)) (map fst (written_of (sk_trace k)))
      (numbers (sk_slots (free_front index k)) (sk_pending (free_front index k)) @ [sk_accepted k])"
  proof -
    have "index \<notin> set rest" using slots_okD(2)[OF facts(1)] by simp
    then have "numbers (sk_slots (free_front index k)) (sk_pending (free_front index k)) = numbers (sk_slots k) rest"
      using pending unfolding numbers_def free_front_def
      by (simp del: map_eq_conv) (intro map_cong[OF refl], metis nth_list_update_neq)
    then show ?thesis using facts(2) worker by (simp add: order_ok_def numbers_def)
  qed
  have "sink_ok ((free_front index k)\<lparr>sk_worker := Some (SinkConvert ?b)\<rparr>)"
    using sink_okD[OF front] order read f(6) unfolding sink_ok_def
    by (simp add: content_ok_def) (simp add: free_front_def)
  then show ?thesis using False pending ctx made ok front drop_ok[OF front] by (simp add: sink_take_def Let_def)
qed

lemma convert_some: "\<exists>hr out. bgraToNv12 bgra bgraStride width height nv12 nv12Stride = Some (hr, out) \<and> (\<not> FAILED hr \<longrightarrow> hr = S_OK)"
proof (cases "bgraToNv12 bgra bgraStride width height nv12 nv12Stride = Some (E_INVALIDARG, nv12) \<or>
    bgraToNv12 bgra bgraStride width height nv12 nv12Stride = Some (HRESULT_FROM_WIN32 ERROR_INSUFFICIENT_BUFFER, nv12)")
  case True
  then show ?thesis by (auto simp: ERROR_INSUFFICIENT_BUFFER_def)
next
  case False
  then show ?thesis using convert_planes[of bgra bgraStride width height nv12 nv12Stride] by blast
qed

lemma convert_ok:
  assumes ok: "sink_ok k" and worker: "sk_worker k = Some (SinkConvert b)"
  shows "\<exists>k'. sink_convert b k = Some k' \<and> sink_ok k'"
proof -
  note facts = sink_okD[OF ok, unfolded worker]
  let ?layout = "nv12Layout (uint (rb_width b)) (uint (rb_height b)) 0"
  let ?buffer = "resized (nl_totalSize ?layout) (sk_nv12 k)"
  obtain hr nv12 where c: "bgraToNv12 (rb_bgra b) (rb_width b * 4) (rb_width b) (rb_height b) ?buffer (word_of_int (nl_stride ?layout)) = Some (hr, nv12)"
    and hr: "\<not> FAILED hr \<longrightarrow> hr = S_OK"
    using convert_some by blast
  let ?k = "k\<lparr>sk_trace := sk_trace k @ [FrameShown (rb_number b)]\<rparr>"
  have order: "order_ok (Some (SinkDeliver b nv12)) (shown_of (sk_trace k) @ [rb_number b]) (map fst (written_of (sk_trace k)))
      (numbers (sk_slots k) (sk_pending k) @ [sk_accepted k])"
    using facts(2) by (simp add: order_ok_def)
  show ?thesis
  proof (cases "FAILED hr")
    case True
    have "order_ok (Some SinkTake) (shown_of (sk_trace k) @ [rb_number b]) (map fst (written_of (sk_trace k)))
        (numbers (sk_slots k) (sk_pending k) @ [sk_accepted k])"
      using order sorted_skip[of "(<)" "map fst (written_of (sk_trace k))" "[rb_number b]"] by (simp add: order_ok_def)
    then have "sink_ok (?k\<lparr>sk_nv12 := nv12, sk_worker := Some SinkTake\<rparr>)"
      using facts by (simp add: sink_ok_def content_ok_def counts_ok_def)
    from drop_ok[OF this] show ?thesis using True c by (simp add: sink_convert_def Let_def)
  next
    case False
    then have "hr = S_OK" using hr by blast
    then have "content_ok (Some (SinkDeliver b nv12)) (accepted_of (sk_trace k)) (written_of (sk_trace k))"
      using facts(3) c by (auto simp: content_ok_def)
    then have "sink_ok (?k\<lparr>sk_nv12 := nv12, sk_worker := Some (SinkDeliver b nv12)\<rparr>)"
      using facts order by (simp add: sink_ok_def counts_ok_def)
    then show ?thesis using False c by (simp add: sink_convert_def Let_def)
  qed
qed

text \<open>The worker lets go of a frame without writing it.\<close>

lemma let_go:
  assumes ok: "sink_ok k" and worker: "sk_worker k = Some (SinkDeliver b nv12)" and c: "sk_trace k' = sk_trace k" "sk_slots k' = sk_slots k"
    "sk_pending k' = sk_pending k" "sk_context k' = sk_context k" "sk_width k' = sk_width k" "sk_height k' = sk_height k"
    "sk_status k' = sk_status k" "sk_accepted k' = sk_accepted k" "sk_worker k' = Some SinkTake"
  shows "sink_ok k'"
proof -
  note facts = sink_okD[OF ok, unfolded worker]
  have "order_ok (Some SinkTake) (shown_of (sk_trace k)) (map fst (written_of (sk_trace k)))
      (numbers (sk_slots k) (sk_pending k) @ [sk_accepted k])"
    using facts(2) sorted_skip[of "(<)" "map fst (written_of (sk_trace k))" "[rb_number b]"] by (simp add: order_ok_def)
  then show ?thesis using facts(1,3-5) c by (simp add: sink_ok_def content_ok_def)
qed

lemma deliver_ok:
  assumes ok: "sink_ok k" and worker: "sk_worker k = Some (SinkDeliver b nv12)"
  shows "sink_ok (sink_deliver env b nv12 k)"
proof -
  note facts = sink_okD[OF ok, unfolded worker]
  let ?k = "k\<lparr>sk_worker := Some SinkTake\<rparr>"
  have gone: "sink_ok ?k" by (rule let_go[OF ok worker]) simp_all
  show ?thesis
  proof (cases "\<not> sk_connected k \<and> FAILED (ke_open env)")
    case True
    then show ?thesis using drop_ok[OF gone] by (simp add: sink_deliver_def Let_def)
  next
    case connected: False
    obtain width height format where g: "(case ke_geometry env of None \<Rightarrow> (rb_width b, rb_height b, kFourccNv12) | Some g \<Rightarrow> g) = (width, height, format)"
      by (metis prod_cases3)
    let ?desired = "if ke_geometry env \<noteq> None \<and> format = kFourccNv12
        then ?k\<lparr>sk_connected := True, sk_desiredWidth := width, sk_desiredHeight := height\<rparr> else ?k\<lparr>sk_connected := True\<rparr>"
    have desired: "sink_ok ?desired" by (rule let_go[OF ok worker]) simp_all
    let ?layout = "nv12Layout (uint (rb_width b)) (uint (rb_height b)) 0"
    let ?info = "\<lparr>fi_width = rb_width b, fi_height = rb_height b, fi_stride = word_of_int (nl_stride ?layout), fi_format = kFourccNv12,
        fi_ptsMicros = rb_pts b, fi_writeSeq = 0, fi_bytesUsed = word_of_nat (length nv12)\<rparr>"
    show ?thesis
    proof (cases "format \<noteq> kFourccNv12 \<or> width \<noteq> rb_width b \<or> height \<noteq> rb_height b")
      case True
      then have "sink_deliver env b nv12 k = transition SinkAdaptingGeometry S_OK (countDrop ?desired)"
        using connected g
        by (cases "sk_connected k"; cases "format = kFourccNv12"; cases "width = rb_width b") (simp_all add: sink_deliver_def Let_def)
      then show ?thesis using drop_ok[OF desired] by simp
    next
      case False
      consider (Lost) "ke_write env = kRingNotFound" | (Failed) "ke_write env \<noteq> kRingNotFound" "FAILED (ke_write env)"
        | (Written) "ke_write env \<noteq> kRingNotFound" "\<not> FAILED (ke_write env)" by blast
      then show ?thesis
      proof cases
        case Lost
        have lost: "sink_ok (?desired\<lparr>sk_connected := False\<rparr>)" by (rule let_go[OF ok worker]) simp_all
        have "sink_deliver env b nv12 k = transition SinkWaitingForConsumer S_OK (countDrop (?desired\<lparr>sk_connected := False\<rparr>))"
          using Lost False connected g by (cases "sk_connected k") (simp_all add: sink_deliver_def Let_def)
        then show ?thesis using drop_ok[OF lost] by simp
      next
        case Failed
        then have "sink_deliver env b nv12 k = transition SinkFailedState (ke_write env) (countDrop ?desired)"
          using False connected g by (cases "sk_connected k") (simp_all add: sink_deliver_def Let_def)
        then show ?thesis using drop_ok[OF desired] by simp
      next
        case Written
        let ?w = "?desired\<lparr>sk_trace := sk_trace ?desired @ [FrameWritten (rb_number b) ?info nv12]\<rparr>"
        have "sink_deliver env b nv12 k = transition SinkPublishing S_OK (countPublished ?w)"
          using Written False connected g by (cases "sk_connected k") (simp_all add: sink_deliver_def Let_def)
        moreover have "sink_ok (countPublished ?w)"
        proof -
          have b: "rb_number b < length (accepted_of (sk_trace k))" "read_back_of (accepted_of (sk_trace k) ! rb_number b) b"
              "\<exists>buffer. bgraToNv12 (rb_bgra b) (rb_width b * 4) (rb_width b) (rb_height b) buffer (word_of_int (nl_stride ?layout)) = Some (S_OK, nv12)"
            using facts(3) by (simp_all add: content_ok_def)
          then have "written_as (accepted_of (sk_trace k) ! rb_number b) ?info nv12"
            by (auto simp: written_as_def read_back_of_def)
          then have "content_ok (Some SinkTake) (accepted_of (sk_trace k)) (written_of (sk_trace k) @ [(rb_number b, ?info, nv12)])"
            using facts(3) b(1) by (simp add: content_ok_def)
          moreover have "order_ok (Some SinkTake) (shown_of (sk_trace k)) (map fst (written_of (sk_trace k)) @ [rb_number b])
              (numbers (sk_slots k) (sk_pending k) @ [sk_accepted k])"
            using facts(2) by (simp add: order_ok_def)
          ultimately show ?thesis using facts(1,4,5) by (simp add: sink_ok_def countPublished_def counts_ok_def)
        qed
        ultimately show ?thesis by simp
      qed
    qed
  qed
qed

lemma sink_step_ok:
  assumes ok: "sink_ok k" and worker: "sk_worker k = Some pc"
  shows "\<exists>k'. sink_step env pc k = Some k' \<and> sink_ok k'"
proof (cases pc)
  case SinkCreate
  have "sink_ok (k\<lparr>sk_worker := Some w\<rparr>)" if "w = SinkEnded \<or> w = SinkTake" for w
    using sink_okD[OF ok] worker SinkCreate that by (auto simp: sink_ok_def order_ok_def content_ok_def)
  then show ?thesis using SinkCreate by (simp add: sink_step_def)
next
  case SinkClose
  have "sink_ok (k\<lparr>sk_connected := False, sk_worker := Some SinkEnded\<rparr>)"
    using sink_okD[OF ok] worker SinkClose by (simp add: sink_ok_def order_ok_def content_ok_def)
  then show ?thesis using SinkClose by (simp add: sink_step_def)
qed (use ok worker take_ok convert_ok deliver_ok in \<open>simp_all add: sink_step_def\<close>)

lemma stopped_ok:
  assumes ok: "sink_ok k" and worker: "sk_worker k = Some SinkEnded"
  shows "sink_ok (sink_stop_end k)"
proof -
  have "sink_ok (k\<lparr>sk_worker := None\<rparr>)"
    using sink_okD[OF ok] worker by (simp add: sink_ok_def order_ok_def content_ok_def)
  from emptied_ok[OF this, where slots = "replicate kStagingSlots empty_slot" and width = 0 and ctx = False and device = None and height = 0] show ?thesis
    using ok by (simp add: sink_stop_end_def empty_slot_def)
qed

lemma sink_act_ok:
  assumes ok: "sink_ok k" and proper: "proper a"
  shows "\<exists>k'. sink_act a k = Some k' \<and> sink_ok k'"
proof (cases a)
  case (PublishFrame env f)
  then show ?thesis using publish_ok[OF ok, of env f] proper by auto
next
  case (SinkWorker env)
  then show ?thesis using sink_step_ok[OF ok] ok by (cases "sk_worker k") auto
next
  case StartSink
  have "sink_ok (sink_start k)"
  proof (cases "sk_worker k")
    case None
    have "sink_ok (transition SinkWaitingForConsumer S_OK k)" using ok by simp
    from sink_okD[OF this] show ?thesis using None by (simp add: sink_start_def sink_ok_def order_ok_def content_ok_def)
  qed (use ok in \<open>simp add: sink_start_def\<close>)
  then show ?thesis using StartSink by simp
next
  case StopSink
  have "sink_ok (k\<lparr>sk_stopping := True\<rparr>)" using sink_okD[OF ok] by (simp add: sink_ok_def)
  then show ?thesis using StopSink ok by (simp add: sink_stop_begin_def)
next
  case JoinSink
  then show ?thesis using stopped_ok[OF ok] ok by (cases "sk_worker k = Some SinkEnded") (simp_all add: sink_stop_end_def)
qed

lemma sink_run_ok: "sink_ok k \<Longrightarrow> list_all proper as \<Longrightarrow> \<exists>k'. sink_run as k = Some k' \<and> sink_ok k'"
proof (induction as arbitrary: k)
  case (Cons a as)
  obtain k1 where "sink_act a k = Some k1" "sink_ok k1" using sink_act_ok[OF Cons.prems(1), of a] Cons.prems(2) by auto
  then show ?case using Cons.IH Cons.prems(2) by simp
qed simp

subsection \<open>The fate of every frame\<close>

text \<open>
  The balance of the frames: what was accepted and what was refused is what the drop counter says, what was written, what was
  discarded, what waits in a slot, and \<open>n\<close> frames more.
\<close>

definition balance :: "nat \<Rightarrow> sink \<Rightarrow> bool" where
  "balance n k \<longleftrightarrow> (\<exists>dropped. sn_droppedFrames (sk_status k) = word_of_nat dropped \<and>
     length (accepted_of (sk_trace k)) + refused_of (sk_trace k) =
       dropped + length (written_of (sk_trace k)) + length (discarded_of (sk_trace k)) + length (sk_pending k) + n)"

text \<open>The frame in the hands of the worker.\<close>

fun in_hand :: "sink_thread option \<Rightarrow> nat" where
  "in_hand (Some (SinkConvert b)) = 1"
| "in_hand (Some (SinkDeliver b nv12)) = 1"
| "in_hand _ = 0"

lemma balance_drop: "balance (Suc n) k \<Longrightarrow> balance n (countDrop k)"
  unfolding balance_def
proof (elim exE conjE)
  fix d assume "sn_droppedFrames (sk_status k) = word_of_nat d"
    "length (accepted_of (sk_trace k)) + refused_of (sk_trace k) =
       d + length (written_of (sk_trace k)) + length (discarded_of (sk_trace k)) + length (sk_pending k) + Suc n"
  then show "\<exists>dropped. sn_droppedFrames (sk_status (countDrop k)) = word_of_nat dropped \<and>
      length (accepted_of (sk_trace (countDrop k))) + refused_of (sk_trace (countDrop k)) =
       dropped + length (written_of (sk_trace (countDrop k))) + length (discarded_of (sk_trace (countDrop k))) +
         length (sk_pending (countDrop k)) + n"
    by (intro exI[of _ "Suc d"]) (simp add: countDrop_def)
qed

lemma balance_keeps [simp]:
  "balance n (transition state err k) = balance n k"
  "balance n (k\<lparr>sk_worker := w\<rparr>) = balance n k" "balance n (k\<lparr>sk_connected := c\<rparr>) = balance n k"
  "balance n (k\<lparr>sk_stopping := c\<rparr>) = balance n k" "balance n (k\<lparr>sk_nv12 := bs\<rparr>) = balance n k"
  "balance n (k\<lparr>sk_worker := w, sk_stopping := c\<rparr>) = balance n k"
  "balance n (k\<lparr>sk_nv12 := bs, sk_worker := w\<rparr>) = balance n k"
  "balance n (k\<lparr>sk_connected := c, sk_worker := w\<rparr>) = balance n k"
  "balance n (k\<lparr>sk_desiredWidth := x, sk_desiredHeight := y\<rparr>) = balance n k"
  "balance n (k\<lparr>sk_trace := sk_trace k @ [FrameShown i]\<rparr>) = balance n k"
  "balance n (k\<lparr>sk_trace := sk_trace k @ [FrameShown i], sk_nv12 := bs, sk_worker := w\<rparr>) = balance n k"
  by (simp_all add: balance_def transition_def)

lemma balance_moves:
  "balance n k \<Longrightarrow> sk_pending k \<noteq> [] \<Longrightarrow> balance (Suc n) (free_front index k)"
  "balance n k \<Longrightarrow> balance (Suc n) (k\<lparr>sk_trace := sk_trace k @ [FrameRefused]\<rparr>)"
  "balance n k \<Longrightarrow> balance n (k\<lparr>sk_pending := [], sk_trace := sk_trace k @ discards k\<rparr>)"
  by (auto simp: balance_def free_front_def)

lemma balance_written:
  assumes "balance (Suc n) k" and "sk_status k' = sk_status k" "sk_pending k' = sk_pending k"
    and "sk_trace k' = sk_trace k @ [FrameWritten i info nv12]"
  shows "balance n (countPublished k')"
  using assms by (auto simp: balance_def countPublished_def)

lemma balance_configure:
  assumes "balance n k" and "sink_configure env f k = (hr, k')"
  shows "balance n k' \<and> sk_worker k' = sk_worker k"
  using assms by (auto simp: sink_configure_def balance_def Let_def split: option.splits if_splits prod.splits)

lemma balance_publish:
  assumes "balance n k" and "sink_publish env f k = Some (hr, k')"
  shows "balance n k' \<and> sk_worker k' = sk_worker k"
proof (cases "\<not> supportedFrame f \<or> sk_worker k = None")
  case True
  then show ?thesis using assms by (auto simp: sink_publish_def split: if_splits)
next
  case False
  obtain hr1 k1 where conf: "sink_configure env f k = (hr1, k1)" by fastforce
  note k1 = balance_configure[OF assms(1) conf]
  have "balance n (countDrop (k1\<lparr>sk_trace := sk_trace k1 @ [FrameRefused]\<rparr>))"
    using k1 by (intro balance_drop balance_moves(2)) blast
  moreover have "balance n (k1\<lparr>sk_slots := slots, sk_pending := sk_pending k1 @ [i], sk_accepted := m,
      sk_trace := sk_trace k1 @ [FrameAccepted f]\<rparr>)" for slots i m
    using k1 by (simp add: balance_def)
  ultimately show ?thesis using assms(2) False conf k1
    by (auto simp: sink_publish_def Let_def split: if_splits)
qed

lemma balance_take:
  assumes "balance 0 k" and "sk_worker k = Some SinkTake" and "sink_take env k = Some k'"
  shows "balance (in_hand (sk_worker k')) k'"
proof (cases "sk_stopping k \<or> sk_pending k = []")
  case True
  then show ?thesis using assms by (auto simp: sink_take_def split: if_splits list.splits)
next
  case False
  then obtain index rest where pending: "sk_pending k = index # rest" by (cases "sk_pending k") auto
  have front: "balance (Suc 0) (free_front index k)" using assms(1) pending by (intro balance_moves(1)) simp_all
  have worker: "sk_worker (free_front index k) = Some SinkTake" using assms(2) by (simp add: free_front_def)
  show ?thesis using False pending assms front balance_drop[OF front] worker
    by (auto simp: sink_take_def Let_def split: if_splits)
qed

lemma balance_convert:
  assumes "balance 1 k" and "sink_convert b k = Some k'"
  shows "balance (in_hand (sk_worker k')) k'"
proof -
  let ?k = "\<lambda>nv12. k\<lparr>sk_trace := sk_trace k @ [FrameShown (rb_number b)], sk_nv12 := nv12, sk_worker := Some SinkTake\<rparr>"
  have "balance 0 (countDrop (?k nv12))" for nv12 using assms(1) by (intro balance_drop) simp
  then show ?thesis using assms by (auto simp: sink_convert_def Let_def split: option.splits if_splits)
qed

lemma balance_deliver:
  assumes "balance 1 k"
  shows "balance 0 (sink_deliver env b nv12 k)" "in_hand (sk_worker (sink_deliver env b nv12 k)) = 0"
proof -
  have b: "balance (Suc 0) k" using assms by simp
  show "balance 0 (sink_deliver env b nv12 k)"
    unfolding sink_deliver_def Let_def using b
    by (auto intro!: balance_drop balance_written[OF b] split: prod.split)
  show "in_hand (sk_worker (sink_deliver env b nv12 k)) = 0"
    by (auto simp: sink_deliver_def countPublished_def Let_def split: prod.split)
qed

definition balanced :: "sink \<Rightarrow> bool" where
  "balanced k \<longleftrightarrow> balance (in_hand (sk_worker k)) k"

lemma balanced_step:
  assumes "balanced k" and "sk_worker k = Some pc" and "sink_step env pc k = Some k'"
  shows "balanced k'"
proof (cases pc)
  case SinkTake
  then show ?thesis using assms balance_take[of k env k'] by (simp add: balanced_def sink_step_def)
next
  case (SinkConvert b)
  then show ?thesis using assms balance_convert[of k b k'] by (simp add: balanced_def sink_step_def)
next
  case (SinkDeliver b nv12)
  then show ?thesis using assms balance_deliver[of k env b nv12] by (auto simp: balanced_def sink_step_def)
qed (use assms in \<open>auto simp: balanced_def sink_step_def\<close>)

lemma balanced_act:
  assumes "balanced k" and "sink_act a k = Some k'"
  shows "balanced k'"
proof (cases a)
  case (PublishFrame env f)
  then obtain hr where "sink_publish env f k = Some (hr, k')" using assms(2) by auto
  from balance_publish[OF _ this] show ?thesis using assms(1) by (simp add: balanced_def)
next
  case (SinkWorker env)
  then show ?thesis using assms balanced_step by (auto split: option.splits)
next
  case JoinSink
  have "balance 0 (sink_stop_end k)" if "balance 0 k" "sk_worker k = Some SinkEnded"
    using that by (simp add: sink_stop_end_def) (simp add: balance_def add.assoc)
  then show ?thesis using assms JoinSink
    by (cases "sk_worker k = Some SinkEnded \<and> sk_stopping k") (auto simp: balanced_def sink_stop_end_def)
qed (use assms in \<open>auto simp: balanced_def sink_start_def sink_stop_begin_def\<close>)

lemma balanced_run: "balanced k \<Longrightarrow> sink_run as k = Some k' \<Longrightarrow> balanced k'"
  by (induction as arbitrary: k) (auto split: option.splits dest: balanced_act)

text \<open>
  Property C25: the camera's images.  However the pipeline, the worker, the ring and the owner interleave, if Direct3D makes the
  textures it is asked for then nothing missing is used, every image written to the ring is the NV12 conversion of
  one accepted frame with its size and its time, the images keep the order of the frames, none twice, and no frame is
  unaccounted for.  The counter of published frames is the number of images written.  The frames accepted by \<open>publish\<close>, and those
  it refused with \<open>S_FALSE\<close>, are the dropped frames of the counter, the written ones, the ones that wait in a slot or
  are in the worker's hands, and the ones discarded when a frame of another size or device or the end of the sink takes the
  textures away; these last are in neither counter.
\<close>

theorem sink_writes_accepted_frames:
  assumes "list_all proper as"
  shows "\<exists>k. sink_run as new_sink = Some k \<and> sorted_wrt (<) (map fst (written_of (sk_trace k))) \<and>
    list_all (\<lambda>(i, info, nv12). i < length (accepted_of (sk_trace k)) \<and> written_as (accepted_of (sk_trace k) ! i) info nv12)
      (written_of (sk_trace k)) \<and>
    sn_publishedFrames (sk_status k) = word_of_nat (length (written_of (sk_trace k))) \<and>
    (\<exists>dropped. sn_droppedFrames (sk_status k) = word_of_nat dropped \<and>
       length (accepted_of (sk_trace k)) + refused_of (sk_trace k) =
         dropped + length (written_of (sk_trace k)) + length (discarded_of (sk_trace k)) + length (sk_pending k) +
         in_hand (sk_worker k))"
proof -
  obtain k where k: "sink_run as new_sink = Some k" "sink_ok k" using sink_run_ok[OF new_sink_ok assms] by blast
  note facts = sink_okD[OF k(2)]
  have "sorted_wrt (<) (map fst (written_of (sk_trace k)))"
    using facts(2) unfolding order_ok_def by (simp add: sorted_wrt_append)
  moreover have "list_all (\<lambda>(i, info, nv12). i < length (accepted_of (sk_trace k)) \<and> written_as (accepted_of (sk_trace k) ! i) info nv12)
      (written_of (sk_trace k))"
    using facts(3) by (auto simp: content_ok_def list_all_iff)
  moreover have "balanced new_sink" by (simp add: balanced_def balance_def new_sink_def)
  from balanced_run[OF this k(1)] have "balance (in_hand (sk_worker k)) k" by (simp add: balanced_def)
  ultimately show ?thesis using k(1) facts(4) by (auto simp: counts_ok_def balance_def)
qed

text \<open>A white picture of two by two pixels on its way to the ring, through a texture with padded rows.\<close>

definition white_frame :: gpu_frame where
  "white_frame = \<lparr>gf_texture = True, gf_device = Some 1, gf_bgra = True, gf_descWidth = 2, gf_descHeight = 2, gf_arraySize = 1,
     gf_arraySlice = 0, gf_width = 2, gf_height = 2, gf_pts = 40, gf_rows = [replicate 8 255, replicate 8 255]\<rparr>"

definition made_textures :: configure_env where
  "made_textures = \<lparr>ce_context = True, ce_create = replicate 3 (S_OK, S_OK)\<rparr>"

definition open_ring :: sink_env where
  "open_ring = \<lparr>ke_bridge = S_OK, ke_ready = S_OK, ke_map = S_OK, ke_padding = [7, 7], ke_open = S_OK, ke_geometry = Some (2, 2, kFourccNv12),
     ke_write = S_OK\<rparr>"

definition sink_demo :: "sink_action list" where
  "sink_demo = [StartSink, SinkWorker open_ring, PublishFrame made_textures white_frame, SinkWorker open_ring, SinkWorker open_ring,
     SinkWorker open_ring]"

lemma white_rows: "copy_rows (mapped_texture [7, 7] [replicate 8 255, replicate 8 255]) 10 8 2 = replicate 16 255"
  by (simp add: copy_rows_def mapped_texture_def numeral_eq_Suc)

lemma sink_demo_runs:
  "\<exists>k. sink_run sink_demo new_sink = Some k \<and> map fst (written_of (sk_trace k)) = [0] \<and> sn_publishedFrames (sk_status k) = 1"
proof -
  have stride: "nl_stride (nv12Layout 2 2 0) = 2" "nl_totalSize (nv12Layout 2 2 0) = 6" by (simp_all add: nv12Layout_def Let_def)
  show ?thesis
    by (simp add: sink_demo_def new_sink_def sink_start_def sink_step_def sink_publish_def supportedFrame_def white_frame_def open_ring_def
      made_textures_def kRingMaxWidth_def kRingMaxHeight_def sink_configure_def kStagingSlots_def numeral_3_eq_3 empty_slot_def
      transition_def Let_def sink_take_def free_front_def white_rows sink_convert_def resized_def white_block stride sink_deliver_def
      countPublished_def kRingNotFound_def)
qed

theorem sink_writes_accepted_frames_witness:
  "\<exists>k info nv12. sink_run sink_demo new_sink = Some k \<and> written_of (sk_trace k) = [(0, info, nv12)] \<and>
     written_as (accepted_of (sk_trace k) ! 0) info nv12 \<and> sn_publishedFrames (sk_status k) = 1"
proof -
  have "list_all proper sink_demo"
    by (simp add: sink_demo_def proper_frame_def white_frame_def creatable_def made_textures_def kStagingSlots_def numeral_3_eq_3)
  from sink_writes_accepted_frames[OF this] sink_demo_runs show ?thesis by (fastforce simp: map_eq_Cons_conv)
qed

text \<open>
  When a change of size fails half-way, the device is already the new one and the size still the old: a frame of the old size
  then passes for configured and is copied into a texture that does not exist.
\<close>

definition failed_textures :: configure_env where
  "failed_textures = \<lparr>ce_context = True, ce_create = [(E_FAIL, S_OK), (S_OK, S_OK), (S_OK, S_OK)]\<rparr>"

theorem failed_resize_leaves_no_textures:
  "sink_run [StartSink, PublishFrame made_textures white_frame,
      PublishFrame failed_textures (white_frame\<lparr>gf_width := 4, gf_descWidth := 4, gf_rows := [replicate 16 255, replicate 16 255]\<rparr>)]
     new_sink \<noteq> None \<and>
   sink_run [StartSink, PublishFrame made_textures white_frame,
      PublishFrame failed_textures (white_frame\<lparr>gf_width := 4, gf_descWidth := 4, gf_rows := [replicate 16 255, replicate 16 255]\<rparr>),
      PublishFrame made_textures white_frame] new_sink = None"
  by (simp add: new_sink_def sink_start_def sink_publish_def supportedFrame_def white_frame_def made_textures_def failed_textures_def
    kRingMaxWidth_def kRingMaxHeight_def sink_configure_def kStagingSlots_def numeral_3_eq_3 empty_slot_def transition_def Let_def)

end
