(* ===== verification/Spec2Isabelle.thy ===== *)
theory Spec2Isabelle
  imports Wire AnnexB CborSpec Messages SessionSecurity Abr RingWorld RingReads Pairing MediaStream Recorder Client Live Recording Sink
begin

text \<open>
  RemoteCam turns an iPhone into a webcam of a Windows 11 PC.  This development models the C++ half of the repository (\<open>core/\<close>
  and \<open>windows/\<close>) and proves what makes its parts correct.

  \<^bold>\<open>How the program works.\<close>  The phone connects over TCP.  The listener (\<open>windows/net\<close>) accepts one phone at a time, cuts its
  bytes into frames with a 16-byte header (\<open>core/src/wire.cpp\<close>) and hands them to the session controller
  (\<open>windows/backend\<close>).  Control frames carry CBOR maps (\<open>core/src/cbor.cpp\<close>, \<open>core/src/control.cpp\<close>).  A phone is paired
  once by a six-digit code (SPAKE2, \<open>windows/security/src/spake2.cpp\<close>), the record is kept in a file
  (\<open>pairing_store.cpp\<close>), and every later session is authenticated by a challenge and protected record by record
  (\<open>crypto.cpp\<close>).  Video frames are checked as Annex-B access units (\<open>core/src/annexb.cpp\<close>), queued, and drained into the
  application's pipeline (\<open>windows/app/live_media_pipeline.cpp\<close>): decoder, transform, and a sink that converts the picture to NV12
  and writes it to a ring in shared memory (\<open>windows/common/src/shm_ring.cpp\<close>).  The virtual camera (\<open>windows/vcam\<close>), in another
  process, reads the ring, or shows a test pattern, and answers the requests of Media Foundation.  The same pictures can be
  recorded to an MP4 file.

  \<^bold>\<open>The theories\<close>, from the bottom up.

  \<^item> \<open>Prelude\<close>: the machine types as words, strings and bytes, big-endian numbers; the collections of simplification rules.
  \<open>Interfaces\<close>: the contracts that components rely on, as locales (\<open>prefix_codec\<close> and \<open>canonical_codec\<close> for encodings, \<open>machine\<close>
  for an object whose operations keep an invariant, \<open>ordered_map\<close> for \<open>std::map\<close>); \<open>message_codec\<close> in \<open>Control\<close> is the
  contract of a builder and a parser of one message.  Each is interpreted on the model of the code.
  \<^item> \<open>Wire\<close>: header, encoder and the incremental decoder with its buffer, offset and compaction; \<open>parse_stream\<close> is the
  reference that the decoder refines, so that frames do not depend on how TCP cuts the bytes.
  \<open>AnnexB\<close>: start codes, the splitting into NALs and the report on an access unit.
  \<open>Double\<close>, \<open>Cbor\<close>: values with doubles as their 64 bits, the canonical encoder, the decoder with its limits of depth and size.
  \<open>CborSpec\<close>: the values of the wire format, with UTF-8 and the order of keys as the standards define them.
  \<open>Control\<close>, \<open>Messages\<close>: all builders and parsers of the control messages, their round trips and their strictness.
  \<^item> \<open>RateLimiter\<close>: the budget of pairing and authentication attempts.  \<open>Protector\<close>: sealing and opening of records, sequence
  numbers and nonces.  \<open>PairingStore\<close>: saving and loading a record, with all file systems a crash can leave.
  \<open>StoredSecurity\<close>: the challenge handshake.  \<open>Pairing\<close>: SPAKE2 on both sides, the password scalar and the server of an offer.
  \<^item> \<open>Session\<close>: the session controller with every callback, call and deadline as one operation each; a drain of the queue is cut
  where the code releases its lock.  \<open>SessionInv\<close>, \<open>SessionProps\<close>, \<open>SessionStream\<close> and \<open>SessionSecurity\<close> hold its
  invariant and properties, \<open>SessionDemo\<close> a session to apply them to, \<open>SessionFaults\<close> two ways in which a decoder is started on
  a frame it cannot decode.
  \<^item> \<open>Listener\<close>: the accept thread, the connection thread and the calls \<open>start\<close> and \<open>stop\<close>, step by step.  \<open>Sending\<close>: concurrent
  senders on one connection.  \<open>Client\<close>: the TCP client of the tools, and the way of its frames to the handler.
  \<^item> \<open>Live\<close>: the unit queue of the application, its worker and the pipeline behind it.  \<open>Sink\<close>: the staging textures, the worker
  and the camera's images.  \<open>Recorder\<close>: the MP4 recorder; \<open>Recording\<close>: what the application asks of it and shows.
  \<open>Abr\<close>: the bitrate controller.  \<open>PixelConvert\<close>: BGRA to NV12.
  \<^item> \<open>ShmRing\<close>, \<open>RingWorld\<close>: the header of the ring, opening, claiming and closing it, and the processes that share it.
  \<open>RingSeqlock\<close>, \<open>RingReads\<close>: the publication and the reading of a frame byte by byte, under any interleaving.
  \<open>Picture\<close>: NV12 geometry and the test pattern.  \<open>FrameSource\<close>, \<open>MediaStream\<close>: the frames, the requests, the format and the
  threads of the virtual camera.

  \<^bold>\<open>How code becomes definitions.\<close>  A class is a record, an enumeration a datatype, an unsigned integer a word of its width;
  sizes and indices are natural numbers where the code bounds them, and a C++ \<open>int\<close> of the picture code is an unbounded
  integer.  A method is a function from its arguments and the object to the result and the object.  An error is a value
  of the result type, an undefined access (outside a buffer, through a missing object, an assignment to a running
  thread) is \<^const>\<open>None\<close>, and the properties show that it does not occur.  A component that several threads enter is a step function on
  its state: a step reaches from one lock, atomic or blocking call to the next, and the properties hold for every list of
  steps, so for every interleaving.  Ghost fields (traces, counters of accepted frames) are named as such where they are declared.
  The definitions compute, and the witnesses run them on concrete inputs.

  \<^bold>\<open>What the properties show.\<close>  Each theory marks its properties by their numbers.  Trust: a session is trusted only after
  the stored key was proved, and what is heard and what is sent afterwards is sealed, in order and with fresh
  nonces; a pairing record is issued once and only for the right code.  Transport: frames arrive unchanged, in order,
  whatever the cuts, the threads and the partial sends; \<open>stop\<close> returns.  Video: a consumer and a decoder that stay in place start at a
  keyframe and the decoder sees no gap, the queues are bounded, the images in the ring are conversions of accepted frames, and a
  reader of the ring gets whole frames only.  Camera: no write leaves its buffer and requests are answered once and in order.
  Recording: the output file is whole, every frame is counted.  Formats: encoders and decoders are inverse to each other and
  what is accepted is well-formed.

  \<^bold>\<open>Bounds and fuel.\<close>  No definition has fuel.  Loops that end are recursive functions with a measure (the rest of the input,
  the attempts that are left); loops that may wait take the list of what the outside answers, and
  \<^const>\<open>None\<close>, or a step that changes nothing, is a loop that still waits.  \<open>stop_rank\<close> bounds the steps of a stop (at
  most seventeen of the accept thread, and two for each frame of the last chunk), and a read of the ring ends after eight attempts.

  \<^bold>\<open>What is assumed.\<close>  Threads and processes are interleaved at their atomic accesses, one after another (no weaker memory order).
  OpenSSL, DPAPI, the file system, Winsock, Direct3D, Media Foundation and the clocks are parameters; where a property
  needs their contract it is a named hypothesis (\<open>aead_correct\<close> for the cipher, \<open>hmac_total\<close> and \<open>digests_total\<close> for the
  digests at the lengths the code uses, \<open>dpapi_correct\<close> for DPAPI, \<open>creatable\<close> and \<open>proper_frame\<close> for textures,
  \<open>honest\<close> for the error of a send that failed, the pitch of a locked buffer), and a witness shows that it can hold.
  A socket number is not used twice.  Memory allocation succeeds.  Observers and handlers return.

  \<^bold>\<open>Not modelled.\<close>  The transform mathematics of \<open>core/src/transform.cpp\<close> (single-precision trigonometry, for which the
  library has no model), the Direct3D transform and its shaders, the FFmpeg decoder and the Media Foundation writer (calls into
  libraries), the registration of the camera, the installer, COM plumbing and activation (\<open>windows/register\<close>, \<open>media_source.cpp\<close>,
  \<open>activation.cpp\<close> and \<open>dllmain.cpp\<close> of \<open>windows/vcam\<close>), Bonjour, the Qt and QML shell, the diagnostic tools (\<open>windows/tools\<close>), logging,
  and the Swift application (\<open>ios/\<close>).  Of the live pipeline, the saved settings of the transform and the screenshots are left out.
\<close>

end
